(* ===== verification/S3_Prelude.thy ===== *)
theory S3_Prelude
  imports Main "HOL-Library.Word" "HOL-Library.List_Lexorder" "HOL-Library.Char_ord"
    "HOL-Library.Sublist"
begin

text \<open>
  The vocabulary every component shares: Rust results as sums, byte vectors and
  machine integers as words, the string routines of the Rust standard library
  the sources call, and the big-endian codec of a \<open>u64\<close>.  A Rust \<open>String\<close> is a
  \<open>string\<close>, one \<open>char\<close> per UTF-8 byte; a \<open>Vec<u8>\<close> is an \<open>8 word list\<close>.
\<close>

unbundle bit_operations_syntax

named_theorems io_simps \<open>execution of request trees against the store\<close>
named_theorems post_intros \<open>rules for the request/reply calculus\<close>
named_theorems errs_intros \<open>rules for the errors a computation may return\<close>
named_theorems key_defs \<open>definitions of object-key layouts\<close>

type_synonym u64 = "64 word"
type_synonym u32 = "32 word"
type_synonym u16 = "16 word"
type_synonym bytes = "8 word list"
type_synonym key = string
type_synonym etag = string

section \<open>Results\<close>

text \<open>\<open>Result<A, E>\<close> is \<open>'e + 'a\<close>, the error on the left; \<open>?\<close> is \<open>try_res\<close>.\<close>

fun try_res :: "('e + 'a) \<Rightarrow> ('a \<Rightarrow> 'e + 'b) \<Rightarrow> 'e + 'b" where
  "try_res (Inl e) f = Inl e"
| "try_res (Inr a) f = f a"

fun ok_or :: "'a option \<Rightarrow> 'e \<Rightarrow> 'e + 'a" where
  "ok_or None e = Inl e"
| "ok_or (Some a) e = Inr a"

fun map_err :: "('e + 'a) \<Rightarrow> ('e \<Rightarrow> 'f) \<Rightarrow> 'f + 'a" where
  "map_err (Inl e) f = Inl (f e)"
| "map_err (Inr a) f = Inr a"

fun ok_opt :: "('e + 'a) \<Rightarrow> 'a option" where
  "ok_opt (Inl e) = None"
| "ok_opt (Inr a) = Some a"

definition is_ok :: "'e + 'a \<Rightarrow> bool" where
  "is_ok r \<longleftrightarrow> (case r of Inl _ \<Rightarrow> False | Inr _ \<Rightarrow> True)"

lemma is_ok_simps [simp]: "is_ok (Inr a)" "\<not> is_ok (Inl e)"
  by (simp_all add: is_ok_def)

text \<open>\<open>iter().map(f).collect::<Result<Vec<_>, _>>()\<close>: the first error wins.\<close>

fun collect_res :: "('a \<Rightarrow> 'e + 'b) \<Rightarrow> 'a list \<Rightarrow> 'e + 'b list" where
  "collect_res f [] = Inr []"
| "collect_res f (x # xs) = try_res (f x) (\<lambda>y. try_res (collect_res f xs) (\<lambda>ys. Inr (y # ys)))"

lemma try_res_Inr_iff: "try_res r f = Inr b \<longleftrightarrow> (\<exists>a. r = Inr a \<and> f a = Inr b)"
  by (cases r) auto

lemma try_res_Inl_iff: "try_res r f = Inl e \<longleftrightarrow> r = Inl e \<or> (\<exists>a. r = Inr a \<and> f a = Inl e)"
  by (cases r) simp_all

lemma try_res_InrE [elim!]:
  assumes "try_res r f = Inr b"
  obtains a where "r = Inr a" "f a = Inr b"
  using assms by (auto simp: try_res_Inr_iff)

lemma ok_or_Inr_iff [simp]: "ok_or x e = Inr a \<longleftrightarrow> x = Some a"
  by (cases x) auto

lemma ok_or_Inl_iff [simp]: "ok_or x e = Inl e' \<longleftrightarrow> x = None \<and> e' = e"
  by (cases x) auto

lemma map_err_Inr_iff [simp]: "map_err r f = Inr a \<longleftrightarrow> r = Inr a"
  by (cases r) auto

lemma ok_opt_Some_iff [simp]: "ok_opt r = Some a \<longleftrightarrow> r = Inr a"
  by (cases r) auto

text \<open>\<open>errs P r\<close>: if \<open>r\<close> is an error, the error satisfies \<open>P\<close>.\<close>

definition errs :: "('e \<Rightarrow> bool) \<Rightarrow> 'e + 'a \<Rightarrow> bool" where
  "errs P r \<longleftrightarrow> (\<forall>e. r = Inl e \<longrightarrow> P e)"

lemma errs_basic [errs_intros]: "errs P (Inr a)" "P e \<Longrightarrow> errs P (Inl e)" "P e \<Longrightarrow> errs P (ok_or x e)"
  by (simp_all add: errs_def)

lemma errs_try [errs_intros]: "errs P r \<Longrightarrow> (\<And>a. r = Inr a \<Longrightarrow> errs P (f a)) \<Longrightarrow> errs P (try_res r f)"
  by (auto simp: errs_def try_res_Inl_iff)

lemma errs_if [errs_intros]: "(c \<Longrightarrow> errs P r) \<Longrightarrow> (\<not> c \<Longrightarrow> errs P r') \<Longrightarrow> errs P (if c then r else r')"
  by simp

lemma errsD: "errs P r \<Longrightarrow> r = Inl e \<Longrightarrow> P e"
  by (simp add: errs_def)

lemma collect_res_Inr_length: "collect_res f xs = Inr ys \<Longrightarrow> length ys = length xs"
  by (induction xs arbitrary: ys) auto

lemma collect_res_Inr_nth:
  "collect_res f xs = Inr ys \<Longrightarrow> i < length xs \<Longrightarrow> f (xs ! i) = Inr (ys ! i)"
proof (induction xs arbitrary: ys i)
  case (Cons x xs)
  then show ?case by (cases i) auto
qed simp

lemma collect_res_Inr_iff:
  "collect_res f xs = Inr ys \<longleftrightarrow> map f xs = map Inr ys"
  by (induction xs arbitrary: ys) (auto simp: try_res_Inr_iff Cons_eq_map_conv)

lemma collect_res_map_Inr: "(\<And>x. x \<in> set xs \<Longrightarrow> f x = Inr (g x)) \<Longrightarrow> collect_res f xs = Inr (map g xs)"
  by (induction xs) auto

section \<open>Machine integers\<close>

text \<open>\<open>checked_add\<close>, \<open>checked_sub\<close> and \<open>saturating\<close> arithmetic of the unsigned integers.\<close>

lemma unat_lt2p: "unat (w::'w::len word) < 2 ^ LENGTH('w)"
  by (rule unsigned_less)

definition checked_add :: "'w::len word \<Rightarrow> 'w word \<Rightarrow> 'w word option" where
  "checked_add a b = (if unat a + unat b < 2 ^ LENGTH('w) then Some (a + b) else None)"

definition checked_sub :: "'w::len word \<Rightarrow> 'w word \<Rightarrow> 'w word option" where
  "checked_sub a b = (if b \<le> a then Some (a - b) else None)"

definition saturating_sub :: "'w::len word \<Rightarrow> 'w word \<Rightarrow> 'w word" where
  "saturating_sub a b = (if b \<le> a then a - b else 0)"

definition saturating_add :: "'w::len word \<Rightarrow> 'w word \<Rightarrow> 'w word" where
  "saturating_add a b = (if unat a + unat b < 2 ^ LENGTH('w) then a + b else - 1)"

lemma checked_add_Some:
  fixes a :: "'w::len word"
  assumes "checked_add a b = Some c"
  shows "unat c = unat a + unat b" "c = a + b" "unat a + unat b < 2 ^ LENGTH('w)"
  using assms by (auto simp: checked_add_def unat_word_ariths split: if_splits)

lemma unat_max64: "unat (- 1 :: u64) = 2 ^ 64 - 1"
  by (simp add: unsigned_minus_1_eq_mask mask_eq_exp_minus_1)

lemma checked_add_1:
  fixes a :: u64
  shows "checked_add a 1 = (if a = - 1 then None else Some (a + 1))"
proof -
  have "unat a + 1 < 2 ^ 64 \<longleftrightarrow> a \<noteq> - 1"
  proof
    assume "unat a + 1 < 2 ^ 64"
    then show "a \<noteq> - 1" by (auto simp: unat_max64)
  next
    assume "a \<noteq> - 1"
    then have "unat a \<noteq> unat (- 1 :: u64)" by (metis unsigned_word_eqI)
    then have "unat a \<noteq> 2 ^ 64 - 1" unfolding unat_max64 .
    moreover have "unat a < 2 ^ 64" using unat_lt2p [of a] by simp
    ultimately show "unat a + 1 < 2 ^ 64" by simp
  qed
  then show ?thesis by (simp add: checked_add_def)
qed

lemma unat_plus1:
  fixes a :: u64
  assumes "a \<noteq> - 1"
  shows "unat (a + 1) = unat a + 1"
  using assms checked_add_1 [of a] checked_add_Some(1) [of a 1 "a + 1"] by simp

lemma plus1_minus1 [simp]: "(a::u64) + 1 - 1 = a"
  by simp

lemma unat_pred:
  fixes a :: u64
  assumes "a > 0"
  shows "unat (a - 1) = unat a - 1" "Suc (unat (a - 1)) = unat a"
proof -
  have "0 < unat a" using assms by (simp add: word_less_nat_alt)
  moreover have "unat (a - 1) = unat a - unat (1::u64)"
    using assms by (intro unat_sub) (simp add: word_le_nat_alt word_less_nat_alt)
  ultimately show "unat (a - 1) = unat a - 1" "Suc (unat (a - 1)) = unat a" by simp_all
qed

text \<open>\<open>u64::to_be_bytes\<close> and \<open>u64::from_be_bytes\<close> after the \<open>try_into\<close> of a slice to
  \<open>[u8; 8]\<close>, which fails unless the slice has eight bytes.\<close>

definition to_be_bytes :: "u64 \<Rightarrow> bytes" where
  "to_be_bytes w = map (\<lambda>i. word_of_nat (unat w div 256 ^ i mod 256)) [7, 6, 5, 4, 3, 2, 1, 0]"

definition be_value :: "bytes \<Rightarrow> nat" where
  "be_value bs = foldl (\<lambda>n b. n * 256 + unat b) 0 bs"

definition from_be_bytes :: "bytes \<Rightarrow> u64 option" where
  "from_be_bytes bs = (if length bs = 8 then Some (word_of_nat (be_value bs)) else None)"

lemma length_to_be_bytes [simp]: "length (to_be_bytes w) = 8"
  by (simp add: to_be_bytes_def)

lemma be_value_snoc: "be_value (bs @ [b]) = be_value bs * 256 + unat b"
  by (simp add: be_value_def)

lemma be_value_less: "be_value bs < 256 ^ length bs"
proof (induction bs rule: rev_induct)
  case (snoc b bs)
  have "unat b < 256" using unat_lt2p [of b] by simp
  then have "be_value bs * 256 + unat b < (be_value bs + 1) * 256" by simp
  also have "\<dots> \<le> 256 ^ length bs * 256" using snoc.IH by (intro mult_right_mono) simp_all
  finally show ?case by (simp add: be_value_snoc mult.commute)
qed (simp add: be_value_def)

lemma unat_byte [simp]: "unat (word_of_nat (n mod 256) :: 8 word) = n mod 256"
  by (simp add: unat_of_nat)

lemma be_digits: "be_value (map (\<lambda>i. word_of_nat (n div 256 ^ i mod 256)) (rev [0..<k])) = n mod 256 ^ k"
proof (induction k arbitrary: n)
  case (Suc k)
  have "rev [0..<Suc k] = map Suc (rev [0..<k]) @ [0]"
    by (metis map_Suc_upt rev_map rev.simps(2) upt_conv_Cons zero_less_Suc)
  then have "map (\<lambda>i. word_of_nat (n div 256 ^ i mod 256) :: 8 word) (rev [0..<Suc k])
    = map (\<lambda>i. word_of_nat ((n div 256) div 256 ^ i mod 256)) (rev [0..<k]) @ [word_of_nat (n mod 256)]"
    by (simp add: comp_def div_mult2_eq del: upt_Suc)
  then have "be_value (map (\<lambda>i. word_of_nat (n div 256 ^ i mod 256) :: 8 word) (rev [0..<Suc k]))
    = (n div 256) mod 256 ^ k * 256 + n mod 256"
    using Suc.IH [of "n div 256"] by (simp only: be_value_snoc unat_byte)
  also have "\<dots> = n mod 256 ^ Suc k"
    by (simp add: mod_mult2_eq mult.commute)
  finally show ?case .
qed (simp add: be_value_def)

lemma from_to_be_bytes [simp]: "from_be_bytes (to_be_bytes w) = Some w"
proof -
  have "to_be_bytes w = map (\<lambda>i. word_of_nat (unat w div 256 ^ i mod 256)) (rev [0..<8])"
    unfolding to_be_bytes_def by (simp add: upt_rec)
  then have "be_value (to_be_bytes w) = unat w mod 256 ^ 8"
    by (simp only: be_digits)
  also have "\<dots> = unat w" using unat_lt2p [of w] by simp
  finally show ?thesis by (simp add: from_be_bytes_def)
qed

lemma be_value_inj: "length bs = length cs \<Longrightarrow> be_value bs = be_value cs \<Longrightarrow> bs = cs"
proof (induction bs arbitrary: cs rule: rev_induct)
  case (snoc b bs)
  obtain c cs' where cs: "cs = cs' @ [c]"
    using snoc.prems(1) by (cases cs rule: rev_cases) auto
  have lt: "unat b < 256" "unat c < 256"
    using unat_lt2p [of b] unat_lt2p [of c] by simp_all
  have eq: "be_value bs * 256 + unat b = be_value cs' * 256 + unat c"
    using snoc.prems(2) by (simp add: cs be_value_snoc)
  have "b = c" using arg_cong [OF eq, of "\<lambda>n. n mod 256"] lt
    by (intro unsigned_word_eqI) simp
  moreover have "be_value bs = be_value cs'" using arg_cong [OF eq, of "\<lambda>n. n div 256"] lt by simp
  ultimately show ?case using snoc.IH snoc.prems(1) by (simp add: cs)
qed simp

lemma to_from_be_bytes:
  assumes "from_be_bytes bs = Some w"
  shows "to_be_bytes w = bs"
proof -
  have len: "length bs = 8" and w: "w = word_of_nat (be_value bs)"
    using assms by (auto simp: from_be_bytes_def split: if_splits)
  have "be_value bs < 2 ^ 64" using be_value_less [of bs] len by simp
  then have uw: "unat w = be_value bs" by (simp add: w unat_of_nat)
  have "to_be_bytes w = map (\<lambda>i. word_of_nat (unat w div 256 ^ i mod 256)) (rev [0..<8])"
    unfolding to_be_bytes_def by (simp add: upt_rec)
  then have "be_value (to_be_bytes w) = unat w mod 256 ^ 8" by (simp only: be_digits)
  also have "\<dots> = be_value bs" using be_value_less [of bs] len by (simp add: uw)
  finally show ?thesis using len by (intro be_value_inj) simp_all
qed

text \<open>Code equations that stay within machine words.\<close>

lemma word_of_nat_mod256: "word_of_nat (n mod 256) = (word_of_nat n :: 8 word)"
  by (simp add: word_unat_eq_iff unat_of_nat)

lemma to_be_bytes_code [code]: "to_be_bytes w = map (\<lambda>i. ucast (drop_bit (8 * i) w)) [7, 6, 5, 4, 3, 2, 1, 0]"
proof -
  have "word_of_nat (unat w div 256 ^ i mod 256) = (ucast (drop_bit (8 * i) w) :: 8 word)" for i
  proof -
    have "unat (drop_bit (8 * i) w) = unat w div 256 ^ i"
      unfolding unat_drop_bit_eq by (simp add: drop_bit_eq_div power_mult)
    then have "ucast (drop_bit (8 * i) w) = (word_of_nat (unat w div 256 ^ i) :: 8 word)"
      by (metis of_nat_unat)
    then show ?thesis by (simp add: word_of_nat_mod256)
  qed
  then show ?thesis by (simp add: to_be_bytes_def)
qed

lemma from_be_bytes_code [code]:
  "from_be_bytes bs = (if length bs = 8 then Some (foldl (\<lambda>a b. a * 256 + ucast b) 0 bs) else None)"
proof -
  have "(word_of_nat (be_value bs) :: u64) = foldl (\<lambda>a b. a * 256 + ucast b) 0 bs"
  proof (induction bs rule: rev_induct)
    case (snoc b bs)
    have "(word_of_nat (unat b) :: u64) = ucast b" by (metis of_nat_unat)
    then show ?case using snoc by (simp add: be_value_snoc)
  qed (simp add: be_value_def)
  then show ?thesis by (simp add: from_be_bytes_def)
qed

lemma to_be_bytes_inj [simp]: "to_be_bytes v = to_be_bytes w \<longleftrightarrow> v = w"
  by (metis from_to_be_bytes option.inject)

section \<open>Strings\<close>

definition as_bytes :: "string \<Rightarrow> bytes" where
  "as_bytes s = map (\<lambda>c. word_of_nat (of_char c)) s"

definition bytes_string :: "bytes \<Rightarrow> string" where
  "bytes_string bs = map (\<lambda>b. char_of (unat b)) bs"

lemma bytes_string_as_bytes [simp]: "bytes_string (as_bytes s) = s"
proof -
  have "char_of (unat (word_of_nat (of_char c) :: 8 word)) = c" for c :: char
  proof -
    have "unat (word_of_nat (of_char c) :: 8 word) = of_char c mod 256"
      by (simp add: unat_of_nat del: of_nat_of_char)
    then show ?thesis by (simp del: of_nat_of_char)
  qed
  then show ?thesis by (simp add: bytes_string_def as_bytes_def comp_def del: of_nat_of_char)
qed

lemma as_bytes_inj [simp]: "as_bytes s = as_bytes t \<longleftrightarrow> s = t"
  by (metis bytes_string_as_bytes)

lemma length_as_bytes [simp]: "length (as_bytes s) = length s"
  by (simp add: as_bytes_def)

lemma length_bytes_string [simp]: "length (bytes_string s) = length s"
  by (simp add: bytes_string_def)

lemma as_bytes_bytes_string [simp]: "as_bytes (bytes_string bs) = bs"
proof -
  have "(word_of_nat (of_char (char_of (unat b) :: char)) :: 8 word) = b" for b :: "8 word"
  proof -
    have "unat b < 256" using unat_lt2p [of b] by simp
    then have "of_char (char_of (unat b) :: char) = unat b" by simp
    then show ?thesis by (simp del: of_nat_of_char)
  qed
  then show ?thesis by (simp add: as_bytes_def bytes_string_def comp_def del: of_nat_of_char)
qed

text \<open>\<open>str::split('/')\<close>: always at least one segment.\<close>

fun split_at :: "char \<Rightarrow> string \<Rightarrow> string list" where
  "split_at c [] = [[]]"
| "split_at c (x # xs) = (if x = c then [] # split_at c xs
     else (case split_at c xs of [] \<Rightarrow> [[x]] | seg # segs \<Rightarrow> (x # seg) # segs))"

lemma split_at_not_Nil [simp]: "split_at c s \<noteq> []"
  by (induction s) (auto split: list.splits)

lemma split_at_append_sep: "split_at c (s @ c # t) = split_at c s @ split_at c t"
  by (induction s) (auto split: list.splits)

lemma split_at_no_sep: "c \<notin> set s \<Longrightarrow> split_at c s = [s]"
  by (induction s) auto

lemma split_at_segments: "seg \<in> set (split_at c s) \<Longrightarrow> c \<notin> set seg"
  by (induction s arbitrary: seg) (auto split: list.splits if_splits)

definition ascii_digit :: "char \<Rightarrow> bool" where
  "ascii_digit c \<longleftrightarrow> CHR ''0'' \<le> c \<and> c \<le> CHR ''9''"

definition ascii_lower_hex :: "char \<Rightarrow> bool" where
  "ascii_lower_hex c \<longleftrightarrow> ascii_digit c \<or> (CHR ''a'' \<le> c \<and> c \<le> CHR ''f'')"

text \<open>\<open>u8::is_ascii_graphic\<close>: the bytes \<open>0x21\<close> to \<open>0x7e\<close>.\<close>

definition ascii_graphic :: "char \<Rightarrow> bool" where
  "ascii_graphic c \<longleftrightarrow> CHR ''!'' \<le> c \<and> c \<le> CHR ''~''"

text \<open>\<open>str::from_utf8\<close>: the well-formed byte sequences of the standard library's
  validation table (no overlong form, no surrogate, nothing above U+10FFFF).\<close>

definition utf8_cont :: "8 word \<Rightarrow> bool" where
  "utf8_cont b \<longleftrightarrow> 0x80 \<le> b \<and> b \<le> 0xBF"

fun utf8_valid :: "bytes \<Rightarrow> bool" where
  "utf8_valid [] = True"
| "utf8_valid [a] = (a < 0x80)"
| "utf8_valid [a, b] = ((a < 0x80 \<and> b < 0x80) \<or> (0xC2 \<le> a \<and> a \<le> 0xDF \<and> utf8_cont b))"
| "utf8_valid [a, b, c] =
     ((a < 0x80 \<and> utf8_valid [b, c]) \<or>
      (0xC2 \<le> a \<and> a \<le> 0xDF \<and> utf8_cont b \<and> utf8_valid [c]) \<or>
      ((a = 0xE0 \<and> 0xA0 \<le> b \<and> b \<le> 0xBF \<or>
        (0xE1 \<le> a \<and> a \<le> 0xEC \<or> 0xEE \<le> a \<and> a \<le> 0xEF) \<and> utf8_cont b \<or>
        a = 0xED \<and> 0x80 \<le> b \<and> b \<le> 0x9F) \<and> utf8_cont c))"
| "utf8_valid (a # b # c # d # r) =
     ((a < 0x80 \<and> utf8_valid (b # c # d # r)) \<or>
      (0xC2 \<le> a \<and> a \<le> 0xDF \<and> utf8_cont b \<and> utf8_valid (c # d # r)) \<or>
      ((a = 0xE0 \<and> 0xA0 \<le> b \<and> b \<le> 0xBF \<or>
        (0xE1 \<le> a \<and> a \<le> 0xEC \<or> 0xEE \<le> a \<and> a \<le> 0xEF) \<and> utf8_cont b \<or>
        a = 0xED \<and> 0x80 \<le> b \<and> b \<le> 0x9F) \<and> utf8_cont c \<and> utf8_valid (d # r)) \<or>
      ((a = 0xF0 \<and> 0x90 \<le> b \<and> b \<le> 0xBF \<or>
        0xF1 \<le> a \<and> a \<le> 0xF3 \<and> utf8_cont b \<or>
        a = 0xF4 \<and> 0x80 \<le> b \<and> b \<le> 0x8F) \<and> utf8_cont c \<and> utf8_cont d \<and> utf8_valid r))"

end
