(* ===== verification/Kernel_Types.thy ===== *)
theory Kernel_Types
  imports S3_Prelude
begin

text \<open>
  The data of the state kernel (\<open>crates/yeetz-s3-kernel/src/state_kernel.rs\<close> and
  \<open>tombstone.rs\<close>): lineages and their object keys, digests and positions, canonical
  records, checkpoints and heads with their byte formats, and tombstones.

  The crates \<open>sha2\<close>, \<open>hex\<close> and \<open>serde_json\<close> are the parameter \<open>X\<close> of type \<open>ext\<close>; what the
  sources rely on is the named hypothesis \<open>ext_ok\<close>.  The loci where a format is verified by
  re-encoding need no hypothesis at all.
\<close>

section \<open>Lineages and digests\<close>

datatype successor_policy = GenesisOnly | SuccessorCapable

record kernel_lineage =
  lin_value :: string
  lin_policy :: successor_policy

datatype record_digest = RecordDigest (as_str: string)

instantiation record_digest :: linorder
begin
definition less_eq_record_digest :: "record_digest \<Rightarrow> record_digest \<Rightarrow> bool" where
  "less_eq_record_digest d e \<longleftrightarrow> as_str d \<le> as_str e"
definition less_record_digest :: "record_digest \<Rightarrow> record_digest \<Rightarrow> bool" where
  "less_record_digest d e \<longleftrightarrow> as_str d < as_str e"
instance
  by standard (auto simp: less_eq_record_digest_def less_record_digest_def record_digest.expand)
end

definition max_identifier_bytes :: nat where
  "max_identifier_bytes = 512"

definition is_valid_identifier :: "string \<Rightarrow> bool" where
  "is_valid_identifier v \<longleftrightarrow> v \<noteq> [] \<and> length v \<le> max_identifier_bytes \<and> list_all ascii_graphic v"

definition keyspace_root :: string where
  "keyspace_root = ''keyspace''"

definition chunk_root :: string where
  "chunk_root = ''keyspace-chunks''"

definition is_valid_lineage :: "string \<Rightarrow> bool" where
  "is_valid_lineage v \<longleftrightarrow>
    (let first_segment = hd (split_at (CHR ''/'') v) in
     \<not> (first_segment = keyspace_root \<or> first_segment = chunk_root) \<and>
     v \<noteq> [] \<and> length v \<le> max_identifier_bytes \<and>
     list_all (\<lambda>seg. is_valid_identifier seg \<and> seg \<noteq> ''.'' \<and> seg \<noteq> ''..'') (split_at (CHR ''/'') v))"

definition lineage_same_identity :: "kernel_lineage \<Rightarrow> kernel_lineage \<Rightarrow> bool" where
  "lineage_same_identity a b \<longleftrightarrow> lin_value a = lin_value b"

definition object_key :: "kernel_lineage \<Rightarrow> record_digest \<Rightarrow> key" where
  "object_key l d = lin_value l @ ''/objects/'' @ as_str d"

definition head_key :: "kernel_lineage \<Rightarrow> key" where
  "head_key l = lin_value l @ ''/head''"

definition tombstone_key :: "kernel_lineage \<Rightarrow> key" where
  "tombstone_key l = lin_value l @ ''/tombstone''"

definition incarnation_key :: "kernel_lineage \<Rightarrow> key" where
  "incarnation_key l = lin_value l @ ''/incarnation''"

definition checkpoint_key :: "kernel_lineage \<Rightarrow> record_digest \<Rightarrow> key" where
  "checkpoint_key l d = lin_value l @ ''/checkpoints/'' @ as_str d"

lemmas lineage_key_defs [key_defs] = object_key_def head_key_def tombstone_key_def
  incarnation_key_def checkpoint_key_def

definition digest_parse :: "string \<Rightarrow> record_digest option" where
  "digest_parse v = (if length v = 64 \<and> list_all ascii_lower_hex v then Some (RecordDigest v) else None)"

definition digest_wf :: "record_digest \<Rightarrow> bool" where
  "digest_wf d \<longleftrightarrow> length (as_str d) = 64 \<and> list_all ascii_lower_hex (as_str d)"

record record_position =
  pos_generation :: u64
  pos_digest :: record_digest

section \<open>References and errors\<close>

record safe_reference =
  ref_lineage :: string
  ref_generation :: "u64 option"
  ref_digest :: "record_digest option"

definition invalid_reference :: safe_reference where
  "invalid_reference = \<lparr>ref_lineage = ''invalid'', ref_generation = None, ref_digest = None\<rparr>"

definition for_lineage :: "kernel_lineage \<Rightarrow> safe_reference" where
  "for_lineage l = \<lparr>ref_lineage = lin_value l, ref_generation = None, ref_digest = None\<rparr>"

definition for_digest :: "kernel_lineage \<Rightarrow> record_digest \<Rightarrow> safe_reference" where
  "for_digest l d = \<lparr>ref_lineage = lin_value l, ref_generation = None, ref_digest = Some d\<rparr>"

datatype kernel_error =
    DigestMismatch safe_reference
  | LineageHeadConflict "safe_reference option"
  | StateRecordMalformed safe_reference
  | StateHistoryIncomplete safe_reference
  | ProtocolEpochUnsupported safe_reference u16
  | SuccessorNotAllowed safe_reference
  | TombstoneCorrupt safe_reference
  | StateUnavailable string

definition kernel_lineage_new :: "string \<Rightarrow> successor_policy \<Rightarrow> kernel_error + kernel_lineage" where
  "kernel_lineage_new v p =
    (if \<not> is_valid_lineage v then Inl (StateRecordMalformed invalid_reference)
     else Inr \<lparr>lin_value = v, lin_policy = p\<rparr>)"

section \<open>Wire structures and the external codecs\<close>

record position_wire =
  pw_digest :: string
  pw_generation :: u64

record record_wire =
  rw_actor_id :: string
  rw_cause_id :: string
  rw_envelope :: string
  rw_lineage :: string
  rw_operation_id :: string
  rw_payload_hex :: string
  rw_prior :: "position_wire option"
  rw_protocol_epoch :: u16
  rw_sequence :: u64
  rw_transition_schema :: string
  rw_transition_type :: string

record head_wire =
  hw_envelope :: string
  hw_generation :: u64
  hw_incarnation :: u64
  hw_lineage :: string
  hw_prior :: "position_wire option"
  hw_record_digest :: string

record head_wire_v1 =
  h1_envelope :: string
  h1_generation :: u64
  h1_lineage :: string
  h1_prior :: "position_wire option"
  h1_record_digest :: string

record checkpoint_wire =
  cw_envelope :: string
  cw_last_included_record_digest :: string
  cw_lineage :: string
  cw_protocol_epoch :: u16
  cw_source_generation :: u64
  cw_source_head_digest :: string
  cw_state_hex :: string
  cw_transition_schema :: string

record projected_record_wire =
  prw_bytes_hex :: string
  prw_digest :: string

record projection_wire =
  pjw_envelope :: string
  pjw_records :: "projected_record_wire list"
  pjw_source_digest :: string
  pjw_source_generation :: u64
  pjw_source_lineage :: string

record tombstone =
  ts_format_version :: u32
  ts_deleted_at_gen :: u64
  ts_incarnation :: u64
  ts_cause :: string
  ts_actor :: string
  ts_ts :: u64

text \<open>\<open>serde_json::to_vec\<close> and \<open>from_slice\<close> at one type.\<close>

record 'w codec =
  cenc :: "'w \<Rightarrow> bytes option"
  cdec :: "bytes \<Rightarrow> 'w option"

record ext =
  sha256 :: "bytes \<Rightarrow> bytes"
  hex_encode :: "bytes \<Rightarrow> string"
  hex_decode :: "string \<Rightarrow> bytes option"
  record_json :: "record_wire codec"
  head_json :: "head_wire codec"
  head_v1_json :: "head_wire_v1 codec"
  checkpoint_json :: "checkpoint_wire codec"
  projection_json :: "projection_wire codec"
  tombstone_json :: "tombstone codec"
  strings_json :: "string list codec"

text \<open>What the sources rely on: serialisation of these structures succeeds and is read back;
  a SHA-256 digest has 32 bytes; hex encoding is lower case, two digits a byte, and is read
  back; the two head shapes are mutually unparseable (\<open>deny_unknown_fields\<close>, and no default
  for the missing \<open>incarnation\<close>).\<close>

definition codec_ok :: "'w codec \<Rightarrow> bool" where
  "codec_ok c \<longleftrightarrow> (\<forall>w. \<exists>b. cenc c w = Some b \<and> cdec c b = Some w)"

definition ext_ok :: "ext \<Rightarrow> bool" where
  "ext_ok X \<longleftrightarrow>
    (\<forall>b. length (sha256 X b) = 32) \<and>
    (\<forall>b. length (hex_encode X b) = 2 * length b \<and> list_all ascii_lower_hex (hex_encode X b)
         \<and> hex_decode X (hex_encode X b) = Some b) \<and>
    codec_ok (record_json X) \<and> codec_ok (head_json X) \<and> codec_ok (head_v1_json X) \<and>
    codec_ok (checkpoint_json X) \<and> codec_ok (projection_json X) \<and> codec_ok (tombstone_json X) \<and>
    codec_ok (strings_json X) \<and>
    (\<forall>b. cdec (head_json X) b = None \<or> cdec (head_v1_json X) b = None)"

lemma codec_okD: "codec_ok c \<Longrightarrow> cenc c w = Some b \<Longrightarrow> cdec c b = Some w"
  unfolding codec_ok_def by (metis option.inject)

lemma codec_ok_total: "codec_ok c \<Longrightarrow> \<exists>b. cenc c w = Some b"
  unfolding codec_ok_def by blast

lemma ext_ok_codecs:
  assumes "ext_ok X"
  shows "codec_ok (record_json X)" "codec_ok (head_json X)" "codec_ok (head_v1_json X)"
    "codec_ok (checkpoint_json X)" "codec_ok (projection_json X)" "codec_ok (tombstone_json X)"
    "codec_ok (strings_json X)"
  using assms by (simp_all add: ext_ok_def)

lemma hex_decode_encode [simp]: "ext_ok X \<Longrightarrow> hex_decode X (hex_encode X b) = Some b"
  by (simp add: ext_ok_def)

definition supported_protocol_epoch :: u16 where
  "supported_protocol_epoch = 1"

definition record_envelope :: string where
  "record_envelope = ''llm_gateway_state_record/v1''"

definition head_envelope_v1 :: string where
  "head_envelope_v1 = ''llm_gateway_state_head/v1''"

definition head_envelope_v2 :: string where
  "head_envelope_v2 = ''llm_gateway_state_head/v2''"

definition checkpoint_envelope :: string where
  "checkpoint_envelope = ''llm_gateway_state_checkpoint/v1''"

definition projection_envelope :: string where
  "projection_envelope = ''llm_gateway_state_projection/v1''"

definition digest_of :: "ext \<Rightarrow> bytes \<Rightarrow> record_digest" where
  "digest_of X b = RecordDigest (hex_encode X (sha256 X b))"

definition position_to_wire :: "record_position \<Rightarrow> position_wire" where
  "position_to_wire p = \<lparr>pw_digest = as_str (pos_digest p), pw_generation = pos_generation p\<rparr>"

definition into_position :: "position_wire \<Rightarrow> kernel_lineage \<Rightarrow> record_digest \<Rightarrow> kernel_error + record_position" where
  "into_position w l d =
    try_res (ok_or (digest_parse (pw_digest w)) (StateRecordMalformed (for_digest l d)))
      (\<lambda>digest. Inr \<lparr>pos_generation = pw_generation w, pos_digest = digest\<rparr>)"

text \<open>\<open>Option::map(into_position).transpose()\<close>\<close>

fun prior_of_wire :: "position_wire option \<Rightarrow> kernel_lineage \<Rightarrow> record_digest \<Rightarrow> kernel_error + record_position option" where
  "prior_of_wire None l d = Inr None"
| "prior_of_wire (Some w) l d = try_res (into_position w l d) (\<lambda>p. Inr (Some p))"

lemma digest_parse_Some [simp]: "digest_parse v = Some d \<longleftrightarrow> d = RecordDigest v \<and> digest_wf d"
  by (auto simp: digest_parse_def digest_wf_def)

lemma digest_wf_of: "ext_ok X \<Longrightarrow> digest_wf (digest_of X b)"
  by (simp add: digest_of_def digest_wf_def ext_ok_def)

lemma into_position_Inr:
  "into_position w l d = Inr p \<longleftrightarrow> w = position_to_wire p \<and> digest_wf (pos_digest p)"
  by (cases w; cases p) (auto simp: into_position_def position_to_wire_def try_res_Inr_iff)

lemma prior_of_wire_Inr:
  "prior_of_wire w l d = Inr p \<longleftrightarrow> w = map_option position_to_wire p \<and> (\<forall>q. p = Some q \<longrightarrow> digest_wf (pos_digest q))"
  by (cases w; cases p) (auto simp: try_res_Inr_iff into_position_Inr)

end
