(* ===== verification/Keyspace_Errors.thy ===== *)
theory Keyspace_Errors
  imports S3_Prelude
begin

text \<open>\<open>KeyspaceError\<close> of \<open>atomic_keyspace.rs\<close>: the error type of the keyspace surface and of the
  tombstone codec.  The message of an
  invalid identifier is kept unrendered: the kind, where the source formats one, and the value.\<close>

datatype keyspace_error =
    KsInvalidIdentifier (ii_kind: "string option") (ii_value: string)
  | KsAlreadyExists string
  | KsPreconditionFailed (pf_key: string) (pf_expected: etag) (pf_observed: "etag option")
      (pf_incarnation: "u64 option") (pf_version: "u64 option")
  | KsValueEnvelopeMalformed string
  | KsVersionExhausted string
  | KsTrimNotMonotone u64 u64
  | KsTrimNotCertified string u64 "u64 option"
  | KsTombstoneImmutable string
  | KsIncarnationCounterImmutable string
  | KsTrimCertificateImmutable string
  | KsManifestMalformed string
  | KsManifestRootMismatch string
  | KsChunkMissing string u32
  | KsChunkIntegrity string u32
  | KsValueTooLarge string u64 u64
  | KsChunkCountInvalid string u32
  | KsManifestTooLarge string u64 u64
  | KsMaintenanceFenced string
  | KsMaintenanceFenceRequired string
  | KsMaintenanceFenceConflict string
  | KsStaleIncarnation string
  | KsInvalidRange string u64 u64 u64
  | KsMaintenanceFenceImmutable string
  | KsUnavailable string

end
