(* ===== verification/Kernel_Records.thy ===== *)
theory Kernel_Records
  imports Kernel_Types Keyspace_Errors
begin

text \<open>
  Canonical records, checkpoints, heads and tombstones of the state kernel and their byte
  formats.  Every decoder is modelled with all its guards in the source's order; the locale
  \<open>codec_laws\<close> states what a caller may rely on, \<open>canonical_codec\<close> adds that decoding accepts
  only canonical bytes, and both are interpreted on the decoders below.
\<close>

section \<open>The codec contracts\<close>

locale codec_laws =
  fixes env_ok :: "'x \<Rightarrow> bool"
    and wf :: "'x \<Rightarrow> 'k \<Rightarrow> 'a \<Rightarrow> bool"
    and enc :: "'x \<Rightarrow> 'a \<Rightarrow> 'e + bytes"
    and dec :: "'x \<Rightarrow> 'k \<Rightarrow> bytes \<Rightarrow> 'f + 'a"
  assumes enc_total: "env_ok x \<Longrightarrow> wf x k a \<Longrightarrow> \<exists>b. enc x a = Inr b"
    and dec_enc: "env_ok x \<Longrightarrow> wf x k a \<Longrightarrow> enc x a = Inr b \<Longrightarrow> dec x k b = Inr a"
    and dec_wf: "dec x k b = Inr a \<Longrightarrow> wf x k a"
begin

lemma enc_inj: "env_ok x \<Longrightarrow> wf x k a \<Longrightarrow> wf x k a' \<Longrightarrow> enc x a = enc x a' \<Longrightarrow> a = a'"
  by (metis enc_total dec_enc sum.inject(2))

lemma dec_image: "env_ok x \<Longrightarrow> (\<exists>b. dec x k b = Inr a) \<longleftrightarrow> wf x k a"
  by (metis enc_total dec_enc dec_wf)

end

locale canonical_codec = codec_laws +
  assumes dec_canonical: "dec x k b = Inr a \<Longrightarrow> enc x a = Inr b"
begin

lemma dec_inj: "dec x k b = Inr a \<Longrightarrow> dec x k b' = Inr a \<Longrightarrow> b = b'"
  by (metis dec_canonical sum.inject(2))

lemma dec_iff: "env_ok x \<Longrightarrow> dec x k b = Inr a \<longleftrightarrow> wf x k a \<and> enc x a = Inr b"
  by (metis dec_canonical dec_enc dec_wf)

end

section \<open>Records\<close>

record canonical_record =
  rec_lineage :: kernel_lineage
  rec_sequence :: u64
  rec_prior :: "record_position option"
  rec_transition_type :: string
  rec_transition_schema :: string
  rec_payload :: bytes
  rec_operation_id :: string
  rec_actor_id :: string
  rec_cause_id :: string

text \<open>The guard shared by records and heads: a genesis has no prior, a successor's prior is
  the position one generation below.\<close>

definition prior_malformed :: "u64 \<Rightarrow> record_position option \<Rightarrow> bool" where
  "prior_malformed n prior \<longleftrightarrow>
    (n = 0 \<and> prior \<noteq> None) \<or>
    (n > 0 \<and> (case prior of None \<Rightarrow> True | Some p \<Rightarrow> pos_generation p \<noteq> n - 1))"

definition canonical_record_new :: "kernel_lineage \<Rightarrow> u64 \<Rightarrow> record_position option \<Rightarrow> string \<Rightarrow> string
    \<Rightarrow> bytes \<Rightarrow> string \<Rightarrow> string \<Rightarrow> string \<Rightarrow> kernel_error + canonical_record" where
  "canonical_record_new l n prior ttype schema payload operation actor cause =
    (if \<not> is_valid_identifier ttype \<or> \<not> is_valid_identifier schema \<or> \<not> is_valid_identifier operation
        \<or> \<not> is_valid_identifier actor \<or> \<not> is_valid_identifier cause \<or> prior_malformed n prior
     then Inl (StateRecordMalformed (for_lineage l))
     else Inr \<lparr>rec_lineage = l, rec_sequence = n, rec_prior = prior, rec_transition_type = ttype,
       rec_transition_schema = schema, rec_payload = payload, rec_operation_id = operation,
       rec_actor_id = actor, rec_cause_id = cause\<rparr>)"

definition record_reference :: "canonical_record \<Rightarrow> record_digest option \<Rightarrow> safe_reference" where
  "record_reference r d =
    \<lparr>ref_lineage = lin_value (rec_lineage r), ref_generation = Some (rec_sequence r), ref_digest = d\<rparr>"

definition record_to_wire :: "ext \<Rightarrow> canonical_record \<Rightarrow> record_wire" where
  "record_to_wire X r =
    \<lparr>rw_actor_id = rec_actor_id r, rw_cause_id = rec_cause_id r, rw_envelope = record_envelope,
     rw_lineage = lin_value (rec_lineage r), rw_operation_id = rec_operation_id r,
     rw_payload_hex = hex_encode X (rec_payload r), rw_prior = map_option position_to_wire (rec_prior r),
     rw_protocol_epoch = supported_protocol_epoch, rw_sequence = rec_sequence r,
     rw_transition_schema = rec_transition_schema r, rw_transition_type = rec_transition_type r\<rparr>"

definition record_bytes :: "ext \<Rightarrow> canonical_record \<Rightarrow> kernel_error + bytes" where
  "record_bytes X r = ok_or (cenc (record_json X) (record_to_wire X r))
    (StateRecordMalformed (record_reference r None))"

definition canonical_record_digest :: "ext \<Rightarrow> canonical_record \<Rightarrow> kernel_error + record_digest" where
  "canonical_record_digest X r = try_res (record_bytes X r) (\<lambda>b. Inr (digest_of X b))"

definition canonical_record_position :: "ext \<Rightarrow> canonical_record \<Rightarrow> kernel_error + record_position" where
  "canonical_record_position X r = try_res (canonical_record_digest X r)
    (\<lambda>d. Inr \<lparr>pos_generation = rec_sequence r, pos_digest = d\<rparr>)"

definition record_from_bytes :: "ext \<Rightarrow> kernel_lineage \<Rightarrow> record_digest \<Rightarrow> bytes \<Rightarrow> kernel_error + canonical_record" where
  "record_from_bytes X l d b =
    (let malformed = StateRecordMalformed (for_digest l d) in
     if digest_of X b \<noteq> d then Inl (DigestMismatch (for_digest l d))
     else try_res (ok_or (cdec (record_json X) b) malformed) (\<lambda>w.
       if rw_envelope w \<noteq> record_envelope then Inl malformed
       else if rw_protocol_epoch w \<noteq> supported_protocol_epoch
         then Inl (ProtocolEpochUnsupported (for_digest l d) (rw_protocol_epoch w))
       else if rw_lineage w \<noteq> lin_value l then Inl malformed
       else try_res (prior_of_wire (rw_prior w) l d) (\<lambda>prior.
         try_res (ok_or (hex_decode X (rw_payload_hex w)) malformed) (\<lambda>payload.
         try_res (canonical_record_new l (rw_sequence w) prior (rw_transition_type w)
             (rw_transition_schema w) payload (rw_operation_id w) (rw_actor_id w) (rw_cause_id w)) (\<lambda>r.
         try_res (record_bytes X r) (\<lambda>canonical.
           if canonical \<noteq> b then Inl malformed else Inr r))))))"

definition position_wf :: "record_position option \<Rightarrow> bool" where
  "position_wf p \<longleftrightarrow> (case p of None \<Rightarrow> True | Some q \<Rightarrow> digest_wf (pos_digest q))"

text \<open>The well-formed records of a lineage: what the constructor admits, with parsed digests.\<close>

definition record_wf :: "kernel_lineage \<Rightarrow> canonical_record \<Rightarrow> bool" where
  "record_wf l r \<longleftrightarrow> rec_lineage r = l \<and> position_wf (rec_prior r) \<and>
    canonical_record_new l (rec_sequence r) (rec_prior r) (rec_transition_type r) (rec_transition_schema r)
      (rec_payload r) (rec_operation_id r) (rec_actor_id r) (rec_cause_id r) = Inr r"

lemma record_bytes_Inr: "record_bytes X r = Inr b \<longleftrightarrow> cenc (record_json X) (record_to_wire X r) = Some b"
  by (simp add: record_bytes_def)

lemma record_new_fields:
  assumes "canonical_record_new l n prior tt sc pl op ac ca = Inr r"
  shows "r = \<lparr>rec_lineage = l, rec_sequence = n, rec_prior = prior, rec_transition_type = tt,
    rec_transition_schema = sc, rec_payload = pl, rec_operation_id = op, rec_actor_id = ac, rec_cause_id = ca\<rparr>"
  using assms by (simp add: canonical_record_new_def split: if_splits)

lemma record_from_bytes_Inr:
  assumes "record_from_bytes X l d b = Inr r"
  shows "digest_of X b = d" "record_bytes X r = Inr b" "record_wf l r" "rec_lineage r = l"
    "\<not> prior_malformed (rec_sequence r) (rec_prior r)" "canonical_record_digest X r = Inr d"
proof -
  obtain w :: record_wire and prior payload canonical where
    d: "digest_of X b = d" and
    prior: "prior_of_wire (rw_prior w) l d = Inr prior" and
    new: "canonical_record_new l (rw_sequence w) prior (rw_transition_type w)
        (rw_transition_schema w) payload (rw_operation_id w) (rw_actor_id w) (rw_cause_id w) = Inr r" and
    can: "record_bytes X r = Inr b"
    using assms by (auto simp: record_from_bytes_def Let_def split: if_splits)
  note fields = record_new_fields [OF new]
  show "digest_of X b = d" "record_bytes X r = Inr b" by (rule d, rule can)
  show "record_wf l r" using fields new prior
    by (simp add: record_wf_def position_wf_def prior_of_wire_Inr split: option.split)
  show "rec_lineage r = l" using fields by simp
  show "\<not> prior_malformed (rec_sequence r) (rec_prior r)"
    using new fields by (simp add: canonical_record_new_def split: if_splits)
  show "canonical_record_digest X r = Inr d" using can d by (simp add: canonical_record_digest_def)
qed

lemma record_from_bytes_encoded:
  assumes X: "ext_ok X" and wf: "record_wf l r" and b: "record_bytes X r = Inr b"
  shows "record_from_bytes X l (digest_of X b) b = Inr r"
proof -
  have dec: "cdec (record_json X) b = Some (record_to_wire X r)"
    using codec_okD [OF ext_ok_codecs(1) [OF X]] b by (simp add: record_bytes_Inr)
  have prior: "prior_of_wire (map_option position_to_wire (rec_prior r)) l d = Inr (rec_prior r)" for d
    using wf by (simp add: prior_of_wire_Inr record_wf_def position_wf_def split: option.split_asm)
  show ?thesis
    using wf X by (simp add: record_from_bytes_def Let_def dec record_to_wire_def prior b record_wf_def)
qed

lemma record_bytes_total: "ext_ok X \<Longrightarrow> \<exists>b. record_bytes X r = Inr b"
  unfolding record_bytes_Inr by (intro codec_ok_total ext_ok_codecs)

text \<open>Decoding at the digest of the bytes themselves, as every content-addressed read does.\<close>

definition record_decode :: "ext \<Rightarrow> kernel_lineage \<Rightarrow> bytes \<Rightarrow> kernel_error + canonical_record" where
  "record_decode X l b = record_from_bytes X l (digest_of X b) b"

interpretation record_codec: canonical_codec ext_ok "\<lambda>_. record_wf" record_bytes record_decode
  by unfold_locales (auto simp: record_decode_def record_bytes_total record_from_bytes_encoded
      dest: record_from_bytes_Inr)

section \<open>Checkpoints\<close>

record canonical_checkpoint =
  cp_lineage :: kernel_lineage
  cp_transition_schema :: string
  cp_source_generation :: u64
  cp_source_head_digest :: record_digest
  cp_last_included_record_digest :: record_digest
  cp_state_bytes :: bytes

definition canonical_checkpoint_new :: "kernel_lineage \<Rightarrow> string \<Rightarrow> u64 \<Rightarrow> record_digest \<Rightarrow> record_digest
    \<Rightarrow> bytes \<Rightarrow> kernel_error + canonical_checkpoint" where
  "canonical_checkpoint_new l schema generation head_digest last_digest state =
    (if \<not> is_valid_identifier schema then Inl (StateRecordMalformed (for_lineage l))
     else Inr \<lparr>cp_lineage = l, cp_transition_schema = schema, cp_source_generation = generation,
       cp_source_head_digest = head_digest, cp_last_included_record_digest = last_digest,
       cp_state_bytes = state\<rparr>)"

definition checkpoint_to_wire :: "ext \<Rightarrow> canonical_checkpoint \<Rightarrow> checkpoint_wire" where
  "checkpoint_to_wire X c =
    \<lparr>cw_envelope = checkpoint_envelope,
     cw_last_included_record_digest = as_str (cp_last_included_record_digest c),
     cw_lineage = lin_value (cp_lineage c), cw_protocol_epoch = supported_protocol_epoch,
     cw_source_generation = cp_source_generation c,
     cw_source_head_digest = as_str (cp_source_head_digest c),
     cw_state_hex = hex_encode X (cp_state_bytes c), cw_transition_schema = cp_transition_schema c\<rparr>"

definition checkpoint_bytes :: "ext \<Rightarrow> canonical_checkpoint \<Rightarrow> kernel_error + bytes" where
  "checkpoint_bytes X c = ok_or (cenc (checkpoint_json X) (checkpoint_to_wire X c))
    (StateRecordMalformed (for_lineage (cp_lineage c)))"

definition checkpoint_digest :: "ext \<Rightarrow> canonical_checkpoint \<Rightarrow> kernel_error + record_digest" where
  "checkpoint_digest X c = try_res (checkpoint_bytes X c) (\<lambda>b. Inr (digest_of X b))"

definition checkpoint_from_bytes :: "ext \<Rightarrow> kernel_lineage \<Rightarrow> record_digest \<Rightarrow> bytes \<Rightarrow> kernel_error + canonical_checkpoint" where
  "checkpoint_from_bytes X l d b =
    (let malformed = StateRecordMalformed (for_digest l d) in
     if digest_of X b \<noteq> d then Inl (DigestMismatch (for_digest l d))
     else try_res (ok_or (cdec (checkpoint_json X) b) malformed) (\<lambda>w.
       if cw_envelope w \<noteq> checkpoint_envelope \<or> cw_lineage w \<noteq> lin_value l then Inl malformed
       else if cw_protocol_epoch w \<noteq> supported_protocol_epoch
         then Inl (ProtocolEpochUnsupported (for_digest l d) (cw_protocol_epoch w))
       else try_res (ok_or (digest_parse (cw_source_head_digest w)) malformed) (\<lambda>head_digest.
         try_res (ok_or (digest_parse (cw_last_included_record_digest w)) malformed) (\<lambda>last_digest.
         try_res (ok_or (hex_decode X (cw_state_hex w)) malformed) (\<lambda>state.
         try_res (canonical_checkpoint_new l (cw_transition_schema w) (cw_source_generation w)
             head_digest last_digest state) (\<lambda>c.
         try_res (checkpoint_bytes X c) (\<lambda>canonical.
           if canonical \<noteq> b then Inl malformed else Inr c)))))))"

definition checkpoint_wf :: "kernel_lineage \<Rightarrow> canonical_checkpoint \<Rightarrow> bool" where
  "checkpoint_wf l c \<longleftrightarrow> cp_lineage c = l \<and> is_valid_identifier (cp_transition_schema c) \<and>
    digest_wf (cp_source_head_digest c) \<and> digest_wf (cp_last_included_record_digest c)"

lemma checkpoint_bytes_Inr:
  "checkpoint_bytes X c = Inr b \<longleftrightarrow> cenc (checkpoint_json X) (checkpoint_to_wire X c) = Some b"
  by (simp add: checkpoint_bytes_def)

lemma checkpoint_from_bytes_Inr:
  assumes "checkpoint_from_bytes X l d b = Inr c"
  shows "digest_of X b = d" "checkpoint_bytes X c = Inr b" "checkpoint_wf l c"
  using assms
  by (auto simp: checkpoint_from_bytes_def Let_def checkpoint_wf_def canonical_checkpoint_new_def split: if_splits)

lemma checkpoint_from_bytes_encoded:
  assumes X: "ext_ok X" and wf: "checkpoint_wf l c" and b: "checkpoint_bytes X c = Inr b"
  shows "checkpoint_from_bytes X l (digest_of X b) b = Inr c"
proof -
  have dec: "cdec (checkpoint_json X) b = Some (checkpoint_to_wire X c)"
    using codec_okD [OF ext_ok_codecs(4) [OF X]] b by (simp add: checkpoint_bytes_Inr)
  have parse: "digest_parse (as_str (cp_source_head_digest c)) = Some (cp_source_head_digest c)"
    "digest_parse (as_str (cp_last_included_record_digest c)) = Some (cp_last_included_record_digest c)"
    using wf by (simp_all add: checkpoint_wf_def)
  have new: "canonical_checkpoint_new l (cp_transition_schema c) (cp_source_generation c)
      (cp_source_head_digest c) (cp_last_included_record_digest c) (cp_state_bytes c) = Inr c"
    using wf by (cases c) (simp add: checkpoint_wf_def canonical_checkpoint_new_def)
  show ?thesis
    using wf X b by (simp add: checkpoint_from_bytes_def Let_def dec checkpoint_to_wire_def parse new
        checkpoint_wf_def del: digest_parse_Some)
qed

definition checkpoint_decode :: "ext \<Rightarrow> kernel_lineage \<Rightarrow> bytes \<Rightarrow> kernel_error + canonical_checkpoint" where
  "checkpoint_decode X l b = checkpoint_from_bytes X l (digest_of X b) b"

lemma checkpoint_bytes_total: "ext_ok X \<Longrightarrow> \<exists>b. checkpoint_bytes X c = Inr b"
  unfolding checkpoint_bytes_Inr by (intro codec_ok_total ext_ok_codecs)

interpretation checkpoint_codec: canonical_codec ext_ok "\<lambda>_. checkpoint_wf" checkpoint_bytes checkpoint_decode
  by unfold_locales (auto simp: checkpoint_decode_def checkpoint_bytes_total checkpoint_from_bytes_encoded
      dest: checkpoint_from_bytes_Inr)

section \<open>Heads\<close>

record canonical_head =
  hd_lineage :: kernel_lineage
  hd_generation :: u64
  hd_incarnation :: u64
  hd_record_digest :: record_digest
  hd_prior :: "record_position option"

record head_read =
  hr_head :: canonical_head
  hr_etag :: etag

definition head_reference :: "canonical_head \<Rightarrow> safe_reference" where
  "head_reference h = \<lparr>ref_lineage = lin_value (hd_lineage h), ref_generation = Some (hd_generation h),
    ref_digest = Some (hd_record_digest h)\<rparr>"

definition head_position :: "canonical_head \<Rightarrow> record_position" where
  "head_position h = \<lparr>pos_generation = hd_generation h, pos_digest = hd_record_digest h\<rparr>"

definition head_to_wire :: "canonical_head \<Rightarrow> head_wire" where
  "head_to_wire h = \<lparr>hw_envelope = head_envelope_v2, hw_generation = hd_generation h,
    hw_incarnation = hd_incarnation h, hw_lineage = lin_value (hd_lineage h),
    hw_prior = map_option position_to_wire (hd_prior h), hw_record_digest = as_str (hd_record_digest h)\<rparr>"

definition head_to_wire_v1 :: "canonical_head \<Rightarrow> head_wire_v1" where
  "head_to_wire_v1 h = \<lparr>h1_envelope = head_envelope_v1, h1_generation = hd_generation h,
    h1_lineage = lin_value (hd_lineage h),
    h1_prior = map_option position_to_wire (hd_prior h), h1_record_digest = as_str (hd_record_digest h)\<rparr>"

definition head_bytes :: "ext \<Rightarrow> canonical_head \<Rightarrow> kernel_error + bytes" where
  "head_bytes X h = ok_or (cenc (head_json X) (head_to_wire h)) (StateRecordMalformed (head_reference h))"

definition legacy_v1_bytes :: "ext \<Rightarrow> canonical_head \<Rightarrow> kernel_error + bytes" where
  "legacy_v1_bytes X h =
    ok_or (cenc (head_v1_json X) (head_to_wire_v1 h)) (StateRecordMalformed (head_reference h))"

definition head_same_identity :: "canonical_head \<Rightarrow> canonical_head \<Rightarrow> bool" where
  "head_same_identity a b \<longleftrightarrow> lineage_same_identity (hd_lineage a) (hd_lineage b) \<and>
    hd_generation a = hd_generation b \<and> hd_incarnation a = hd_incarnation b \<and>
    hd_record_digest a = hd_record_digest b \<and> hd_prior a = hd_prior b"

text \<open>The dual decode: the v2 shape with the v2 envelope, or the v1 shape with the v1 envelope,
  which reads as incarnation 0; the flag says whether the legacy bytes are re-encoded.\<close>

definition head_fields :: "ext \<Rightarrow> bytes \<Rightarrow> (u64 \<times> u64 \<times> string \<times> position_wire option \<times> bool) option" where
  "head_fields X b =
    (case cdec (head_json X) b of
       Some w \<Rightarrow>
         if hw_envelope w = head_envelope_v2
         then Some (hw_generation w, hw_incarnation w, hw_record_digest w, hw_prior w, False)
         else (case cdec (head_v1_json X) b of
             Some w1 \<Rightarrow> if h1_envelope w1 = head_envelope_v1
               then Some (h1_generation w1, 0, h1_record_digest w1, h1_prior w1, True) else None
           | None \<Rightarrow> None)
     | None \<Rightarrow> (case cdec (head_v1_json X) b of
             Some w1 \<Rightarrow> if h1_envelope w1 = head_envelope_v1
               then Some (h1_generation w1, 0, h1_record_digest w1, h1_prior w1, True) else None
           | None \<Rightarrow> None))"

definition head_from_bytes :: "ext \<Rightarrow> kernel_lineage \<Rightarrow> bytes \<Rightarrow> kernel_error + canonical_head" where
  "head_from_bytes X l b =
    (let malformed = StateRecordMalformed (for_lineage l) in
     try_res (ok_or (head_fields X b) malformed) (\<lambda>(generation, incarnation, digest_str, prior_w, legacy).
     try_res (ok_or (digest_parse digest_str) malformed) (\<lambda>digest.
     try_res (prior_of_wire prior_w l digest) (\<lambda>prior.
       if prior_malformed generation prior then Inl malformed
       else let h = \<lparr>hd_lineage = l, hd_generation = generation, hd_incarnation = incarnation,
                     hd_record_digest = digest, hd_prior = prior\<rparr> in
         try_res (if legacy then legacy_v1_bytes X h else head_bytes X h) (\<lambda>canonical.
           if canonical \<noteq> b then Inl malformed else Inr h)))))"

definition head_wf :: "kernel_lineage \<Rightarrow> canonical_head \<Rightarrow> bool" where
  "head_wf l h \<longleftrightarrow> hd_lineage h = l \<and> digest_wf (hd_record_digest h) \<and> position_wf (hd_prior h) \<and>
    \<not> prior_malformed (hd_generation h) (hd_prior h)"

lemma head_bytes_Inr: "head_bytes X h = Inr b \<longleftrightarrow> cenc (head_json X) (head_to_wire h) = Some b"
  by (simp add: head_bytes_def)

lemma legacy_bytes_Inr: "legacy_v1_bytes X h = Inr b \<longleftrightarrow> cenc (head_v1_json X) (head_to_wire_v1 h) = Some b"
  by (simp add: legacy_v1_bytes_def)

lemma head_fields_legacy: "head_fields X b = Some (g, i, d, p, True) \<Longrightarrow> i = 0"
  by (auto simp: head_fields_def split: option.splits if_splits)

lemma head_from_bytes_Inr:
  assumes "head_from_bytes X l b = Inr h"
  shows "head_wf l h"
    "head_bytes X h = Inr b \<or> (hd_incarnation h = 0 \<and> legacy_v1_bytes X h = Inr b)"
proof -
  obtain g i d p legacy digest prior where
    fields: "head_fields X b = Some (g, i, d, p, legacy)" and
    dw: "digest_wf digest" and
    prior: "prior_of_wire p l digest = Inr prior" and
    ok: "\<not> prior_malformed g prior" and
    h: "h = \<lparr>hd_lineage = l, hd_generation = g, hd_incarnation = i, hd_record_digest = digest, hd_prior = prior\<rparr>" and
    can: "(if legacy then legacy_v1_bytes X h else head_bytes X h) = Inr b"
    using assms by (auto simp: head_from_bytes_def Let_def split: prod.splits if_splits)
  show "head_wf l h" using dw prior ok
    by (simp add: head_wf_def h position_wf_def prior_of_wire_Inr split: option.split)
  show "head_bytes X h = Inr b \<or> (hd_incarnation h = 0 \<and> legacy_v1_bytes X h = Inr b)"
  proof (cases legacy)
    case True
    then have "i = 0" using fields head_fields_legacy by auto
    then show ?thesis using can True by (simp add: h)
  next
    case False
    then show ?thesis using can by simp
  qed
qed

lemma head_wf_prior: "head_wf l h \<Longrightarrow> prior_of_wire (map_option position_to_wire (hd_prior h)) l d = Inr (hd_prior h)"
  by (simp add: prior_of_wire_Inr head_wf_def position_wf_def split: option.split_asm)

lemma head_from_bytes_encoded:
  assumes X: "ext_ok X" and wf: "head_wf l h" and b: "head_bytes X h = Inr b"
  shows "head_from_bytes X l b = Inr h"
proof -
  have "cdec (head_json X) b = Some (head_to_wire h)"
    using codec_okD [OF ext_ok_codecs(2) [OF X]] b by (simp add: head_bytes_Inr)
  then have fields: "head_fields X b = Some (hd_generation h, hd_incarnation h, as_str (hd_record_digest h),
      map_option position_to_wire (hd_prior h), False)"
    by (simp add: head_fields_def head_to_wire_def)
  have rebuilt: "\<lparr>hd_lineage = l, hd_generation = hd_generation h, hd_incarnation = hd_incarnation h,
      hd_record_digest = hd_record_digest h, hd_prior = hd_prior h\<rparr> = h"
    using wf by (cases h) (simp add: head_wf_def)
  have parse: "digest_parse (as_str (hd_record_digest h)) = Some (hd_record_digest h)"
    using wf by (simp add: head_wf_def)
  show ?thesis
    using wf by (simp add: head_from_bytes_def Let_def fields parse head_wf_prior [OF wf] rebuilt b
        head_wf_def del: digest_parse_Some)
qed

lemma legacy_head_from_bytes:
  assumes X: "ext_ok X" and wf: "head_wf l h" and era: "hd_incarnation h = 0" and b: "legacy_v1_bytes X h = Inr b"
  shows "head_from_bytes X l b = Inr h"
proof -
  have d1: "cdec (head_v1_json X) b = Some (head_to_wire_v1 h)"
    using codec_okD [OF ext_ok_codecs(3) [OF X]] b by (simp add: legacy_bytes_Inr)
  then have d2: "cdec (head_json X) b = None" using X by (auto simp: ext_ok_def)
  have fields: "head_fields X b = Some (hd_generation h, 0, as_str (hd_record_digest h),
      map_option position_to_wire (hd_prior h), True)"
    by (simp add: head_fields_def d1 d2 head_to_wire_v1_def)
  have rebuilt: "\<lparr>hd_lineage = l, hd_generation = hd_generation h, hd_incarnation = 0,
      hd_record_digest = hd_record_digest h, hd_prior = hd_prior h\<rparr> = h"
    using wf era by (cases h) (simp add: head_wf_def)
  have parse: "digest_parse (as_str (hd_record_digest h)) = Some (hd_record_digest h)"
    using wf by (simp add: head_wf_def)
  show ?thesis
    using wf by (simp add: head_from_bytes_def Let_def fields parse head_wf_prior [OF wf] rebuilt b
        head_wf_def del: digest_parse_Some)
qed

lemma head_bytes_total: "ext_ok X \<Longrightarrow> \<exists>b. head_bytes X h = Inr b"
  unfolding head_bytes_Inr by (intro codec_ok_total ext_ok_codecs)

interpretation head_codec: codec_laws ext_ok "\<lambda>_. head_wf" head_bytes head_from_bytes
  by unfold_locales (auto simp: head_bytes_total head_from_bytes_encoded dest: head_from_bytes_Inr)

section \<open>Tombstones\<close>

definition tombstone_format_version :: u32 where
  "tombstone_format_version = 2"

text \<open>\<open>Tombstone::new\<close> with the clock reading as an argument.\<close>

definition tombstone_new :: "u64 \<Rightarrow> u64 \<Rightarrow> string \<Rightarrow> string \<Rightarrow> u64 \<Rightarrow> tombstone" where
  "tombstone_new incarnation deleted_at_gen cause actor ts =
    \<lparr>ts_format_version = tombstone_format_version, ts_deleted_at_gen = deleted_at_gen,
     ts_incarnation = incarnation, ts_cause = cause, ts_actor = actor, ts_ts = ts\<rparr>"

definition tombstone_encode :: "ext \<Rightarrow> tombstone \<Rightarrow> keyspace_error + bytes" where
  "tombstone_encode X t = ok_or (cenc (tombstone_json X) t) (KsUnavailable ''tombstone encode'')"

definition tombstone_decode :: "ext \<Rightarrow> bytes \<Rightarrow> keyspace_error + tombstone" where
  "tombstone_decode X b =
    try_res (ok_or (cdec (tombstone_json X) b) (KsValueEnvelopeMalformed ''tombstone payload'')) (\<lambda>t.
      if ts_format_version t \<noteq> tombstone_format_version
      then Inl (KsValueEnvelopeMalformed ''tombstone format version'') else Inr t)"

lemma tombstone_decode_version: "tombstone_decode X b = Inr t \<Longrightarrow> ts_format_version t = tombstone_format_version"
  by (auto simp: tombstone_decode_def split: if_splits)

lemma tombstone_decode_encoded:
  "ext_ok X \<Longrightarrow> ts_format_version t = tombstone_format_version \<Longrightarrow> tombstone_encode X t = Inr b \<Longrightarrow>
    tombstone_decode X b = Inr t"
  by (simp add: tombstone_decode_def tombstone_encode_def codec_okD [OF ext_ok_codecs(6)])

lemma tombstone_encode_total: "ext_ok X \<Longrightarrow> \<exists>b. tombstone_encode X t = Inr b"
  unfolding tombstone_encode_def ok_or_Inr_iff by (intro codec_ok_total ext_ok_codecs)

interpretation tombstone_codec: codec_laws ext_ok
  "\<lambda>_ _ t. ts_format_version t = tombstone_format_version" tombstone_encode "\<lambda>X _. tombstone_decode X"
  by unfold_locales (auto simp: tombstone_encode_total tombstone_decode_encoded dest: tombstone_decode_version)

end
