(* ===== verification/Sdk_Store.thy ===== *)
theory Sdk_Store
  imports S3_Prelude
begin

text \<open>
  The pure part of the object-store client (\<open>crates/yeetz-sdk-s3/src/store.rs\<close> and
  \<open>error.rs\<close>): its error type, the bounded provider diagnostics of a multi-object
  delete, the reconciliation of a DeleteResult with the requested paths, the
  classification of request failures, and the normalisation of entity tags.  What the
  AWS client returns (response members, service errors, status codes) is data of the
  model; sending a request is the subject of \<open>S3_Io\<close>.
\<close>

section \<open>Data\<close>

datatype (discs_sels) store_error =
    ConfigError string
  | UploadFailed string
  | DownloadFailed string
  | ListFailed string
  | DeleteFailed string
  | NotFound string
  | PreconditionFailed string
  | PresignUnsupported string
  | SignedUrlFailed string

record delete_diagnostic =
  diag_code :: "string option"
  diag_message :: string
  diag_truncated :: bool

datatype delete_failure = DeleteFailure (failure_diagnostic: delete_diagnostic)

record delete_outcome =
  out_path :: string
  out_result :: "delete_failure + unit"

datatype delete_request_error =
    DelUnsupported (request_diagnostic: delete_diagnostic)
  | DelRequest (request_diagnostic: delete_diagnostic)
  | DelInvalidResponse (request_diagnostic: delete_diagnostic)

text \<open>A member of the \<open>Error\<close> list of a DeleteResult; every field is optional on the wire.\<close>

record error_entry =
  entry_key :: "string option"
  entry_code :: "string option"
  entry_message :: "string option"

section \<open>Bounded diagnostics\<close>

definition diagnostic_budget :: nat where
  "diagnostic_budget = 512"

text \<open>\<open>str::is_char_boundary\<close>: both ends, and every byte that is not a UTF-8 continuation byte.\<close>

definition is_char_boundary :: "string \<Rightarrow> nat \<Rightarrow> bool" where
  "is_char_boundary s i \<longleftrightarrow> i = 0 \<or> i = length s \<or>
     (i < length s \<and> \<not> (128 \<le> (of_char (s ! i) :: nat) \<and> (of_char (s ! i) :: nat) < 192))"

fun boundary_below :: "string \<Rightarrow> nat \<Rightarrow> nat" where
  "boundary_below s 0 = 0"
| "boundary_below s (Suc e) = (if is_char_boundary s (Suc e) then Suc e else boundary_below s e)"

definition truncate_utf8 :: "string \<Rightarrow> nat \<Rightarrow> string" where
  "truncate_utf8 s max_len =
    (if length s \<le> max_len then s else take (boundary_below s (min max_len (length s))) s)"

definition non_empty :: "string \<Rightarrow> string option" where
  "non_empty s = (if s = [] then None else Some s)"

definition bounded_delete_diagnostic :: "string option \<Rightarrow> string \<Rightarrow> delete_diagnostic" where
  "bounded_delete_diagnostic code message =
    (let c = (case code of None \<Rightarrow> [] | Some c \<Rightarrow> c) in
     if length c + length message > diagnostic_budget
     then (let c' = truncate_utf8 c diagnostic_budget;
               m' = truncate_utf8 message (diagnostic_budget - length c')
           in \<lparr>diag_code = non_empty c', diag_message = m', diag_truncated = True\<rparr>)
     else \<lparr>diag_code = non_empty c, diag_message = message, diag_truncated = False\<rparr>)"

definition diagnostic_length :: "delete_diagnostic \<Rightarrow> nat" where
  "diagnostic_length d =
    length (case diag_code d of None \<Rightarrow> [] | Some c \<Rightarrow> c) + length (diag_message d)"

lemma boundary_below_le: "boundary_below s e \<le> e"
  by (induction e) (auto intro: le_SucI)

lemma boundary_below_boundary: "is_char_boundary s (boundary_below s e)"
  by (induction e) (auto simp: is_char_boundary_def)

lemma boundary_below_greatest:
  "is_char_boundary s i \<Longrightarrow> i \<le> e \<Longrightarrow> i \<le> boundary_below s e"
  by (induction e) (auto simp: le_Suc_eq)

lemma truncate_utf8_length: "length (truncate_utf8 s n) \<le> n"
  using boundary_below_le [of s n] by (auto simp: truncate_utf8_def min_def)

lemma truncate_utf8_prefix: "prefix (truncate_utf8 s n) s"
  by (auto simp: truncate_utf8_def take_is_prefix)

lemma truncate_utf8_boundary: "is_char_boundary s (length (truncate_utf8 s n))"
proof (cases "length s \<le> n")
  case False
  then have "boundary_below s n \<le> length s" using boundary_below_le [of s n] by simp
  then have "length (truncate_utf8 s n) = boundary_below s n"
    using False by (simp add: truncate_utf8_def min_def)
  then show ?thesis using boundary_below_boundary by simp
qed (simp add: truncate_utf8_def is_char_boundary_def)

lemma length_non_empty [simp]: "length (case non_empty s of None \<Rightarrow> [] | Some c \<Rightarrow> c) = length s"
  by (simp add: non_empty_def)

lemma truncated_sum: "length (truncate_utf8 c 512) + length (truncate_utf8 m (512 - length (truncate_utf8 c 512))) \<le> 512"
  using truncate_utf8_length [of c 512] truncate_utf8_length [of m "512 - length (truncate_utf8 c 512)"]
  by linarith

lemma diagnostic_within_budget: "diagnostic_length (bounded_delete_diagnostic code message) \<le> 512"
  using truncated_sum [of "case code of None \<Rightarrow> [] | Some c \<Rightarrow> c" message]
  by (simp add: bounded_delete_diagnostic_def diagnostic_length_def diagnostic_budget_def Let_def)

section \<open>Reconciling a multi-object delete\<close>

definition delete_objects_invalid_response :: "string \<Rightarrow> delete_request_error" where
  "delete_objects_invalid_response reason =
    DelInvalidResponse (bounded_delete_diagnostic (Some ''InvalidResponse'') reason)"

fun index_paths :: "nat \<Rightarrow> string list \<Rightarrow> (string \<rightharpoonup> nat) \<Rightarrow> delete_request_error + (string \<rightharpoonup> nat)" where
  "index_paths i [] m = Inr m"
| "index_paths i (p # ps) m =
    (if m p \<noteq> None
     then Inl (delete_objects_invalid_response (''request contains a duplicate path: '' @ p))
     else index_paths (Suc i) ps (m(p \<mapsto> i)))"

text \<open>The two loops over the response members differ in their messages and in what they
  write into the slot of the member's path.\<close>

fun fill_slots :: "string \<Rightarrow> string \<Rightarrow> (string \<rightharpoonup> nat) \<Rightarrow> (string option \<times> (delete_failure + unit)) list
    \<Rightarrow> (delete_failure + unit) option list \<Rightarrow> delete_request_error + (delete_failure + unit) option list" where
  "fill_slots no_key over index_of [] slots = Inr slots"
| "fill_slots no_key over index_of ((None, v) # es) slots =
    Inl (delete_objects_invalid_response no_key)"
| "fill_slots no_key over index_of ((Some k, v) # es) slots =
    (case index_of k of
       Some i \<Rightarrow> if slots ! i = None then fill_slots no_key over index_of es (slots[i := Some v])
                 else Inl (delete_objects_invalid_response (over @ k))
     | None \<Rightarrow> Inl (delete_objects_invalid_response (over @ k)))"

definition entry_failure :: "error_entry \<Rightarrow> delete_failure" where
  "entry_failure e = DeleteFailure (bounded_delete_diagnostic (entry_code e)
     (case entry_message e of None \<Rightarrow> [] | Some m \<Rightarrow> m))"

definition reconcile_delete_objects :: "string list \<Rightarrow> string option list \<Rightarrow> error_entry list
    \<Rightarrow> delete_request_error + delete_outcome list" where
  "reconcile_delete_objects paths deleted errors =
    try_res (index_paths 0 paths Map.empty) (\<lambda>index_of.
    try_res (fill_slots ''Deleted member without a key''
        ''Deleted member for an unrequested or already-reported key: '' index_of
        (map (\<lambda>k. (k, Inr ())) deleted) (replicate (length paths) None)) (\<lambda>slots.
    try_res (fill_slots ''Error member without a key''
        ''Error member for an unrequested or already-reported key: '' index_of
        (map (\<lambda>e. (entry_key e, Inl (entry_failure e))) errors) slots) (\<lambda>slots.
    if None \<in> set slots
    then Inl (delete_objects_invalid_response ''response omitted a requested key'')
    else Inr (map (\<lambda>(path, slot). \<lparr>out_path = path, out_result = the slot\<rparr>) (zip paths slots)))))"

definition indexes :: "(string \<rightharpoonup> nat) \<Rightarrow> string list \<Rightarrow> bool" where
  "indexes m ps \<longleftrightarrow> distinct ps \<and> (\<forall>p j. m p = Some j \<longleftrightarrow> j < length ps \<and> ps ! j = p)"

lemma index_paths_Inr:
  assumes "index_paths (length qs) ps m = Inr m'" "indexes m qs"
  shows "indexes m' (qs @ ps)"
  using assms
proof (induction ps arbitrary: qs m)
  case (Cons p ps)
  have fresh: "m p = None" and step: "index_paths (length (qs @ [p])) ps (m(p \<mapsto> length qs)) = Inr m'"
    using Cons.prems(1) by (auto split: if_splits)
  have "indexes (m(p \<mapsto> length qs)) (qs @ [p])"
    unfolding indexes_def
  proof (intro conjI allI)
    have nin: "p \<notin> set qs"
    proof
      assume "p \<in> set qs"
      then obtain j where "j < length qs" "qs ! j = p" by (auto simp: in_set_conv_nth)
      then have "m p = Some j" using Cons.prems(2) by (simp add: indexes_def)
      then show False using fresh by simp
    qed
    then show "distinct (qs @ [p])" using Cons.prems(2) by (simp add: indexes_def)
    fix q j
    show "(m(p \<mapsto> length qs)) q = Some j \<longleftrightarrow> j < length (qs @ [p]) \<and> (qs @ [p]) ! j = q"
    proof (cases "q = p")
      case True
      have "j < length qs \<Longrightarrow> qs ! j \<noteq> p" using nin nth_mem by blast
      then show ?thesis using True by (auto simp: nth_append less_Suc_eq)
    next
      case False
      then show ?thesis using Cons.prems(2) by (auto simp: indexes_def nth_append less_Suc_eq)
    qed
  qed
  from Cons.IH [OF step this] show ?case by simp
qed simp

lemma index_paths_total:
  "distinct ps \<Longrightarrow> \<forall>p\<in>set ps. m p = None \<Longrightarrow> \<exists>m'. index_paths i ps m = Inr m'"
proof (induction ps arbitrary: i m)
  case (Cons p ps)
  then have "\<forall>q\<in>set ps. (m(p \<mapsto> i)) q = None" by auto
  with Cons show ?case by simp
qed simp

lemma fill_slots_Inr:
  assumes "fill_slots nk ov m es S = Inr S'" "indexes m ps" "length S = length ps"
  shows "length S' = length ps \<and> distinct (map fst es) \<and>
    (\<forall>k\<in>fst ` set es. \<exists>i. i < length ps \<and> k = Some (ps ! i) \<and> S ! i = None) \<and>
    (\<forall>i<length ps. S' ! i = (case map_of es (Some (ps ! i)) of Some v \<Rightarrow> Some v | None \<Rightarrow> S ! i))"
  using assms
proof (induction nk ov m es S rule: fill_slots.induct)
  case (3 nk ov m k v es S)
  then obtain i where i: "m k = Some i" "S ! i = None"
    and rest: "fill_slots nk ov m es (S[i := Some v]) = Inr S'"
    by (auto split: option.splits if_splits)
  have il: "i < length ps" "ps ! i = k" using "3.prems"(2) i by (auto simp: indexes_def)
  have IH: "length S' = length ps" "distinct (map fst es)"
    "\<And>k. k \<in> fst ` set es \<Longrightarrow> \<exists>j<length ps. k = Some (ps ! j) \<and> S[i := Some v] ! j = None"
    "\<And>j. j < length ps \<Longrightarrow> S' ! j = (case map_of es (Some (ps ! j)) of Some v \<Rightarrow> Some v | None \<Rightarrow> S[i := Some v] ! j)"
    using "3.IH" [OF i rest "3.prems"(2)] "3.prems"(3) by auto
  have "Some k \<notin> fst ` set es"
  proof
    assume "Some k \<in> fst ` set es"
    from IH(3) [OF this] obtain j where "j < length ps" "ps ! j = k" "S[i := Some v] ! j = None" by auto
    moreover have "j = i" using calculation il "3.prems"(2) by (auto simp: indexes_def nth_eq_iff_index_eq)
    ultimately show False using "3.prems"(3) by simp
  qed
  moreover have "map_of es (Some k) = None" using calculation by (simp add: map_of_eq_None_iff)
  moreover have "\<exists>j<length ps. k' = Some (ps ! j) \<and> S ! j = None" if "k' \<in> fst ` set es" for k'
  proof -
    from IH(3) [OF that] obtain j where j: "j < length ps" "k' = Some (ps ! j)" "S[i := Some v] ! j = None"
      by auto
    then have "j \<noteq> i" using "3.prems"(3) by auto
    then show ?thesis using j by auto
  qed
  moreover have "S' ! j = (case map_of ((Some k, v) # es) (Some (ps ! j)) of Some v \<Rightarrow> Some v | None \<Rightarrow> S ! j)"
    if "j < length ps" for j
  proof (cases "j = i")
    case True
    then show ?thesis using IH(4) [OF that] il calculation "3.prems"(3) by simp
  next
    case False
    then have "ps ! j \<noteq> k" using that il "3.prems"(2) by (auto simp: indexes_def nth_eq_iff_index_eq)
    then show ?thesis using IH(4) [OF that] False by (simp split: option.split)
  qed
  ultimately show ?case using IH(1,2) i il by auto
qed (auto split: option.splits)

lemma fill_slots_total:
  assumes "indexes m ps" "length S = length ps" "distinct (map fst es)"
    "\<forall>k\<in>fst ` set es. \<exists>i. i < length ps \<and> k = Some (ps ! i) \<and> S ! i = None"
  shows "\<exists>S'. fill_slots nk ov m es S = Inr S'"
  using assms
proof (induction es arbitrary: S)
  case (Cons e es)
  obtain k v where e: "e = (k, v)" by (cases e)
  obtain i where i: "i < length ps" "k = Some (ps ! i)" "S ! i = None" using Cons.prems(4) e by auto
  have mi: "m (ps ! i) = Some i" using i Cons.prems(1) by (auto simp: indexes_def)
  have "\<exists>j<length ps. k' = Some (ps ! j) \<and> S[i := Some v] ! j = None" if k': "k' \<in> fst ` set es" for k'
  proof -
    have "k' \<in> fst ` set (e # es)" using k' by simp
    then obtain j where j: "j < length ps" "k' = Some (ps ! j)" "S ! j = None"
      using Cons.prems(4) by blast
    have "k' \<noteq> k" using k' Cons.prems(3) e by auto
    then have "j \<noteq> i" using j i by auto
    then show ?thesis using j by auto
  qed
  then show ?case using Cons.IH [of "S[i := Some v]"] Cons.prems e i mi by simp
qed simp

lemma map_of_tagged [simp]: "map_of (map (\<lambda>k. (k, v)) ks) k = (if k \<in> set ks then Some v else None)"
  by (induction ks) auto

lemma map_of_entries:
  "distinct (map entry_key es) \<Longrightarrow> map_of (map (\<lambda>e. (entry_key e, f e)) es) k = Some v
    \<longleftrightarrow> (\<exists>e\<in>set es. entry_key e = k \<and> f e = v)"
  by (induction es) (auto simp: image_iff)

definition members_match :: "string list \<Rightarrow> string option list \<Rightarrow> error_entry list \<Rightarrow> bool" where
  "members_match paths deleted errors \<longleftrightarrow>
    distinct paths \<and> distinct (deleted @ map entry_key errors) \<and>
    set (deleted @ map entry_key errors) = Some ` set paths"

lemma fst_image_tagged [simp]: "fst ` set (map (\<lambda>k. (k, v)) ks) = set ks"
  by force

lemma fst_image_entries [simp]: "fst ` set (map (\<lambda>e. (g e, f e)) es) = g ` set es"
  by force

lemma nth_zip_outcomes:
  "length slots = length paths \<Longrightarrow>
    map out_path (map (\<lambda>(path, slot). \<lparr>out_path = path, out_result = the slot\<rparr>) (zip paths slots)) = paths"
  by (rule nth_equalityI) auto

text \<open>The reconciliation succeeds exactly on a bijection between the requested paths and the
  response members, and then reports the member of each path.\<close>

lemma reconcile_Inr:
  assumes "reconcile_delete_objects paths deleted errors = Inr outs"
  shows "members_match paths deleted errors \<and> map out_path outs = paths \<and>
    (\<forall>o'\<in>set outs. case out_result o' of
        Inr _ \<Rightarrow> Some (out_path o') \<in> set deleted
      | Inl f \<Rightarrow> \<exists>e\<in>set errors. entry_key e = Some (out_path o') \<and> f = entry_failure e)"
proof -
  let ?nd = "''Deleted member without a key''"
  let ?od = "''Deleted member for an unrequested or already-reported key: ''"
  let ?ne = "''Error member without a key''"
  let ?oe = "''Error member for an unrequested or already-reported key: ''"
  let ?S0 = "replicate (length paths) (None :: (delete_failure + unit) option)"
  let ?de = "map (\<lambda>k. (k, Inr () :: delete_failure + unit)) deleted"
  let ?ee = "map (\<lambda>e. (entry_key e, Inl (entry_failure e) :: delete_failure + unit)) errors"
  obtain I S1 S2 where I: "index_paths 0 paths Map.empty = Inr I"
    and S1: "fill_slots ?nd ?od I ?de ?S0 = Inr S1"
    and S2: "fill_slots ?ne ?oe I ?ee S1 = Inr S2"
    and full: "None \<notin> set S2"
    and outs: "outs = map (\<lambda>(path, slot). \<lparr>out_path = path, out_result = the slot\<rparr>) (zip paths S2)"
    using assms unfolding reconcile_delete_objects_def by (auto split: if_splits)
  have "indexes Map.empty []" by (simp add: indexes_def)
  then have ix: "indexes I paths" using index_paths_Inr [of "[]" paths Map.empty I] I by simp
  have F1: "length S1 = length paths" "distinct deleted"
    "\<And>k. k \<in> set deleted \<Longrightarrow> \<exists>i<length paths. k = Some (paths ! i)"
    "\<And>i. i < length paths \<Longrightarrow> S1 ! i = (if Some (paths ! i) \<in> set deleted then Some (Inr ()) else None)"
    using fill_slots_Inr [OF S1 ix] by (auto simp: comp_def)
  have F2: "length S2 = length paths" "distinct (map entry_key errors)"
    "\<And>k. k \<in> entry_key ` set errors \<Longrightarrow> \<exists>i<length paths. k = Some (paths ! i) \<and> S1 ! i = None"
    "\<And>i. i < length paths \<Longrightarrow> S2 ! i = (case map_of ?ee (Some (paths ! i)) of Some v \<Rightarrow> Some v | None \<Rightarrow> S1 ! i)"
    using fill_slots_Inr [OF S2 ix F1(1)] by (auto simp: comp_def)
  have member: "(\<exists>e\<in>set errors. entry_key e = Some (paths ! i) \<and> S2 ! i = Some (Inl (entry_failure e)))
      \<or> Some (paths ! i) \<in> set deleted \<and> S2 ! i = Some (Inr ())" if "i < length paths" for i
  proof (cases "map_of ?ee (Some (paths ! i))")
    case None
    then have "S2 ! i = S1 ! i" using F2(4) [OF that] by simp
    moreover have "S2 ! i \<noteq> None" using full that F2(1) nth_mem by metis
    ultimately show ?thesis using F1(4) [OF that] by (auto split: if_splits)
  next
    case (Some v)
    then obtain e where "e \<in> set errors" "entry_key e = Some (paths ! i)" "v = Inl (entry_failure e)"
      unfolding map_of_entries [OF F2(2)] by auto
    then show ?thesis using Some F2(4) [OF that] by auto
  qed
  have "k \<notin> set deleted" if "k \<in> entry_key ` set errors" for k
    using F2(3) [OF that] F1(4) by (auto split: if_splits)
  then have "distinct (deleted @ map entry_key errors)" using F1(2) F2(2) by auto
  moreover have "set (deleted @ map entry_key errors) = Some ` set paths"
  proof
    show "set (deleted @ map entry_key errors) \<subseteq> Some ` set paths"
    proof
      fix k assume "k \<in> set (deleted @ map entry_key errors)"
      then have "\<exists>i<length paths. k = Some (paths ! i)" using F1(3) [of k] F2(3) [of k] by auto
      then show "k \<in> Some ` set paths" by auto
    qed
    show "Some ` set paths \<subseteq> set (deleted @ map entry_key errors)"
    proof
      fix k assume "k \<in> Some ` set paths"
      then obtain i where i: "i < length paths" "k = Some (paths ! i)" by (auto simp: in_set_conv_nth)
      from member [OF i(1)] i(2) show "k \<in> set (deleted @ map entry_key errors)"
        by (metis Un_iff image_eqI set_append set_map)
    qed
  qed
  ultimately have "members_match paths deleted errors" using ix by (simp add: members_match_def indexes_def)
  moreover have "map out_path outs = paths" using nth_zip_outcomes F2(1) outs by simp
  moreover have "\<forall>o'\<in>set outs. case out_result o' of
        Inr _ \<Rightarrow> Some (out_path o') \<in> set deleted
      | Inl f \<Rightarrow> \<exists>e\<in>set errors. entry_key e = Some (out_path o') \<and> f = entry_failure e"
  proof
    fix o' assume "o' \<in> set outs"
    then obtain i where i: "i < length paths" and o': "o' = \<lparr>out_path = paths ! i, out_result = the (S2 ! i)\<rparr>"
      using outs F2(1) by (auto simp: set_zip)
    from member [OF i] show "case out_result o' of Inr _ \<Rightarrow> Some (out_path o') \<in> set deleted
      | Inl f \<Rightarrow> \<exists>e\<in>set errors. entry_key e = Some (out_path o') \<and> f = entry_failure e"
    proof
      assume "\<exists>e\<in>set errors. entry_key e = Some (paths ! i) \<and> S2 ! i = Some (Inl (entry_failure e))"
      then show ?thesis by (auto simp: o')
    next
      assume "Some (paths ! i) \<in> set deleted \<and> S2 ! i = Some (Inr ())"
      then show ?thesis by (simp add: o')
    qed
  qed
  ultimately show ?thesis by simp
qed

lemma reconcile_total:
  assumes "members_match paths deleted errors"
  shows "\<exists>outs. reconcile_delete_objects paths deleted errors = Inr outs"
proof -
  have dist: "distinct paths" "distinct deleted" "distinct (map entry_key errors)"
    and disj: "set deleted \<inter> entry_key ` set errors = {}"
    and members: "set deleted \<union> entry_key ` set errors = Some ` set paths"
    using assms by (auto simp: members_match_def)
  obtain I where I: "index_paths 0 paths Map.empty = Inr I"
    using index_paths_total [OF dist(1), of Map.empty 0] by auto
  have "indexes Map.empty []" by (simp add: indexes_def)
  then have ix: "indexes I paths" using index_paths_Inr [of "[]" paths Map.empty I] I by simp
  have idx: "\<exists>i<length paths. k = Some (paths ! i)" if "k \<in> set deleted \<union> entry_key ` set errors" for k
    using that unfolding members by (auto simp: in_set_conv_nth)
  let ?de = "map (\<lambda>k. (k, Inr () :: delete_failure + unit)) deleted"
  let ?ee = "map (\<lambda>e. (entry_key e, Inl (entry_failure e) :: delete_failure + unit)) errors"
  obtain S1 where S1: "fill_slots ''Deleted member without a key''
      ''Deleted member for an unrequested or already-reported key: '' I ?de (replicate (length paths) None) = Inr S1"
  proof -
    have "\<forall>k\<in>fst ` set ?de. \<exists>i<length paths. k = Some (paths ! i) \<and> replicate (length paths) None ! i = None"
    proof
      fix k assume "k \<in> fst ` set ?de"
      then have "k \<in> set deleted \<union> entry_key ` set errors" unfolding fst_image_tagged by simp
      from idx [OF this] show "\<exists>i<length paths. k = Some (paths ! i) \<and> replicate (length paths) None ! i = None"
        by auto
    qed
    moreover have "distinct (map fst ?de)" using dist(2) by (simp add: comp_def)
    ultimately show thesis
      using fill_slots_total [OF ix, of "replicate (length paths) None" ?de] that by auto
  qed
  have F1: "length S1 = length paths"
    "\<And>i. i < length paths \<Longrightarrow> S1 ! i = (if Some (paths ! i) \<in> set deleted then Some (Inr ()) else None)"
    using fill_slots_Inr [OF S1 ix] by auto
  have free: "\<exists>i<length paths. k = Some (paths ! i) \<and> S1 ! i = None" if k: "k \<in> entry_key ` set errors" for k
  proof -
    obtain i where i: "i < length paths" "k = Some (paths ! i)" using idx [of k] k by auto
    have "k \<notin> set deleted" using disj k by blast
    then show ?thesis using F1(2) [OF i(1)] i by auto
  qed
  obtain S2 where S2: "fill_slots ''Error member without a key''
      ''Error member for an unrequested or already-reported key: '' I ?ee S1 = Inr S2"
  proof -
    have "\<forall>k\<in>fst ` set ?ee. \<exists>i<length paths. k = Some (paths ! i) \<and> S1 ! i = None"
      unfolding fst_image_entries using free by blast
    moreover have "distinct (map fst ?ee)" using dist(3) by (simp add: comp_def)
    ultimately show thesis using fill_slots_total [OF ix F1(1), of ?ee] that by blast
  qed
  have F2: "length S2 = length paths"
    "\<And>i. i < length paths \<Longrightarrow> S2 ! i = (case map_of ?ee (Some (paths ! i)) of Some v \<Rightarrow> Some v | None \<Rightarrow> S1 ! i)"
    using fill_slots_Inr [OF S2 ix F1(1)] by auto
  have "S2 ! i \<noteq> None" if "i < length paths" for i
  proof (cases "Some (paths ! i) \<in> set deleted")
    case True
    then show ?thesis using F2(2) [OF that] F1(2) [OF that] by (simp split: option.split)
  next
    case False
    have "Some (paths ! i) \<in> set deleted \<union> entry_key ` set errors" unfolding members using that by simp
    then have "map_of ?ee (Some (paths ! i)) \<noteq> None"
      using False unfolding map_of_eq_None_iff fst_image_entries by blast
    then show ?thesis using F2(2) [OF that] by (auto split: option.split)
  qed
  then have "None \<notin> set S2" using F2(1) by (metis in_set_conv_nth)
  then show ?thesis using I S1 S2 by (simp add: reconcile_delete_objects_def)
qed

section \<open>Request failures, entity tags\<close>

text \<open>What the AWS client reports for a failed request: a typed service error with the HTTP
  status, a response that did not become a typed output, or any failure without a response.
  The error's own rendering (\<open>provider_error_text\<close>) is data.\<close>

datatype sdk_error =
    ServiceError "string option" "string option" nat
  | ResponseError string string
  | TransportError string

fun map_delete_objects_error :: "sdk_error \<Rightarrow> delete_request_error" where
  "map_delete_objects_error (ServiceError code message status) =
    (let diagnostic = bounded_delete_diagnostic code (case message of None \<Rightarrow> [] | Some m \<Rightarrow> m) in
     if status = 405 \<or> status = 501 \<or> code = Some ''MethodNotAllowed'' \<or> code = Some ''NotImplemented''
     then DelUnsupported diagnostic else DelRequest diagnostic)"
| "map_delete_objects_error (ResponseError status_text provider_text) =
    DelInvalidResponse (bounded_delete_diagnostic None
      (''response did not decode ('' @ status_text @ ''): '' @ provider_text))"
| "map_delete_objects_error (TransportError provider_text) =
    DelRequest (bounded_delete_diagnostic None provider_text)"

text \<open>The error arm of a conditional delete, by service code.\<close>

fun map_delete_conditional_error :: "string \<Rightarrow> sdk_error \<Rightarrow> string \<Rightarrow> store_error" where
  "map_delete_conditional_error path (ServiceError code message status) provider_text =
    (if code = Some ''PreconditionFailed''
     then PreconditionFailed (''conditional delete failed for '' @ path @ '': etag mismatch'')
     else if code = Some ''NoSuchKey'' then NotFound path
     else DeleteFailed provider_text)"
| "map_delete_conditional_error path e provider_text = DeleteFailed provider_text"

definition trim_quotes :: "string \<Rightarrow> string" where
  "trim_quotes s = rev (dropWhile (\<lambda>c. c = CHR 0x22) (rev (dropWhile (\<lambda>c. c = CHR 0x22) s)))"

definition normalize_etag :: "etag \<Rightarrow> etag" where
  "normalize_etag etag = (let trimmed = trim_quotes etag in
     if length trimmed = length etag then etag else trimmed)"

lemma reconcile_iff_match:
  "is_ok (reconcile_delete_objects paths deleted errors) \<longleftrightarrow> members_match paths deleted errors"
proof
  assume "is_ok (reconcile_delete_objects paths deleted errors)"
  then obtain outs where "reconcile_delete_objects paths deleted errors = Inr outs"
    by (cases "reconcile_delete_objects paths deleted errors") auto
  then show "members_match paths deleted errors" using reconcile_Inr by blast
next
  assume "members_match paths deleted errors"
  then show "is_ok (reconcile_delete_objects paths deleted errors)" using reconcile_total by fastforce
qed

text \<open>The outcomes as a function of the reply.\<close>

definition reported :: "string option list \<Rightarrow> error_entry list \<Rightarrow> string \<Rightarrow> delete_outcome" where
  "reported deleted errors p = \<lparr>out_path = p, out_result =
      (if Some p \<in> set deleted then Inr ()
       else Inl (entry_failure (the (find (\<lambda>e. entry_key e = Some p) errors))))\<rparr>"

lemma find_entry:
  assumes "distinct (map entry_key errors)" "e \<in> set errors" "entry_key e = Some p"
  shows "find (\<lambda>e. entry_key e = Some p) errors = Some e"
  using assms by (induction errors) (auto, metis image_eqI)

lemma reconcile_reported:
  assumes "reconcile_delete_objects paths deleted errors = Inr outs"
  shows "outs = map (reported deleted errors) paths"
proof -
  note R = reconcile_Inr [OF assms]
  have disj: "Some p \<notin> set deleted" if "e \<in> set errors" "entry_key e = Some p" for e p
    using R that by (force simp: members_match_def)
  have "o' = reported deleted errors (out_path o')" if member: "o' \<in> set outs" for o'
  proof (cases "out_result o'")
    case (Inl f)
    then obtain e where e: "e \<in> set errors" "entry_key e = Some (out_path o')" "f = entry_failure e"
      using R member by fastforce
    then have "find (\<lambda>e. entry_key e = Some (out_path o')) errors = Some e"
      using R by (intro find_entry) (auto simp: members_match_def)
    then show ?thesis using e Inl disj by (cases o') (auto simp: reported_def)
  next
    case (Inr u)
    then have "Some (out_path o') \<in> set deleted" using R member by fastforce
    then show ?thesis using Inr by (cases o') (auto simp: reported_def)
  qed
  then have "outs = map (reported deleted errors) (map out_path outs)" by (simp add: map_idI)
  then show ?thesis using R by simp
qed

lemma reconcile_spec:
  "(reconcile_delete_objects paths deleted errors = Inr outs) =
    (members_match paths deleted errors \<and> outs = map (\<lambda>p. \<lparr>out_path = p, out_result =
      (if Some p \<in> set deleted then Inr ()
       else Inl (entry_failure (the (find (\<lambda>e. entry_key e = Some p) errors))))\<rparr>) paths)"
  using reconcile_Inr [of paths deleted errors] reconcile_reported [of paths deleted errors]
    reconcile_total [of paths deleted errors] unfolding reported_def [abs_def] by auto

end
