(* ===== verification/S3_Io.thy ===== *)
theory S3_Io
  imports Sdk_Store
begin

text \<open>
  Asynchronous handlers as request trees.  An \<open>async fn\<close> of the sources that talks to the
  object store is a value of \<open>'a io\<close>: it returns, or it issues one client call
  (\<open>ObjectStoreClient\<close> in \<open>crates/yeetz-sdk-s3/src/store.rs\<close>) and goes on with the reply.
  Three readings of a tree are defined: \<open>run\<close>, one client alone on the qualified store
  modelled by the loopback S3 counterpart of \<open>state_kernel.rs\<close>; \<open>pool_step\<close>, any number of
  clients interleaved at their requests, with refused requests, lost responses, resent
  requests, partially applied batches and stale listings; and \<open>io_runs\<close>, the request and
  reply traces of a tree in an arbitrary environment.  \<open>io_post\<close> is the compositional
  calculus that bounds what a tree may request.
\<close>

section \<open>Requests, replies, trees\<close>

datatype req =
    Upload key bytes
  | UploadConditional key bytes "etag option"
  | Download key
  | DownloadWithEtag key
  | DeleteKey key
  | DeleteConditional key etag
  | DeleteObjects "key list"
  | ListPrefix key
  | ListPrefixAfter key "key option" nat
  | ListSizesAfter key "key option" nat
  | Exists key
  | UnixMillis

datatype resp =
    RUnit "store_error + unit"
  | REtag "store_error + etag option"
  | RBytes "store_error + bytes"
  | RMeta "store_error + bytes \<times> etag option"
  | RKeys "store_error + key list"
  | RSizes "store_error + (key \<times> nat) list"
  | RBool "store_error + bool"
  | ROutcomes "delete_request_error + delete_outcome list"
  | RTime "nat option"

text \<open>\<open>Stuck\<close> is reached only on a reply of the wrong shape, which no environment below
  gives, or by a loop that has used up its fuel.\<close>

datatype 'a io = Ret 'a | Stuck | Req req "resp \<Rightarrow> 'a io"

primrec io_bind :: "'a io \<Rightarrow> ('a \<Rightarrow> 'b io) \<Rightarrow> 'b io" where
  "io_bind (Ret a) f = f a"
| "io_bind Stuck f = Stuck"
| "io_bind (Req q k) f = Req q (\<lambda>r. io_bind (k r) f)"

text \<open>The \<open>?\<close> operator on an awaited result.\<close>

definition io_try :: "('e + 'a) io \<Rightarrow> ('a \<Rightarrow> ('e + 'b) io) \<Rightarrow> ('e + 'b) io" where
  "io_try m f = io_bind m (\<lambda>r. case r of Inl e \<Rightarrow> Ret (Inl e) | Inr a \<Rightarrow> f a)"

definition lift_res :: "('e + 'a) \<Rightarrow> ('a \<Rightarrow> ('e + 'b) io) \<Rightarrow> ('e + 'b) io" where
  "lift_res r f = (case r of Inl e \<Rightarrow> Ret (Inl e) | Inr a \<Rightarrow> f a)"

definition io_map :: "('a \<Rightarrow> 'b) \<Rightarrow> 'a io \<Rightarrow> 'b io" where
  "io_map f m = io_bind m (\<lambda>a. Ret (f a))"

lemma io_bind_Ret_right [simp]: "io_bind m Ret = m"
  by (induction m) auto

lemma io_bind_assoc [simp]: "io_bind (io_bind m f) g = io_bind m (\<lambda>a. io_bind (f a) g)"
  by (induction m) auto

lemma lift_res_simps [simp]:
  "lift_res (Inl e) f = Ret (Inl e)" "lift_res (Inr a) f = f a"
  by (simp_all add: lift_res_def)

definition upload :: "key \<Rightarrow> bytes \<Rightarrow> (store_error + unit) io" where
  "upload k b = Req (Upload k b) (\<lambda>r. case r of RUnit x \<Rightarrow> Ret x | _ \<Rightarrow> Stuck)"

definition upload_conditional :: "key \<Rightarrow> bytes \<Rightarrow> etag option \<Rightarrow> (store_error + etag option) io" where
  "upload_conditional k b e = Req (UploadConditional k b e) (\<lambda>r. case r of REtag x \<Rightarrow> Ret x | _ \<Rightarrow> Stuck)"

definition download :: "key \<Rightarrow> (store_error + bytes) io" where
  "download k = Req (Download k) (\<lambda>r. case r of RBytes x \<Rightarrow> Ret x | _ \<Rightarrow> Stuck)"

definition download_with_etag :: "key \<Rightarrow> (store_error + bytes \<times> etag option) io" where
  "download_with_etag k = Req (DownloadWithEtag k) (\<lambda>r. case r of RMeta x \<Rightarrow> Ret x | _ \<Rightarrow> Stuck)"

definition delete_key :: "key \<Rightarrow> (store_error + unit) io" where
  "delete_key k = Req (DeleteKey k) (\<lambda>r. case r of RUnit x \<Rightarrow> Ret x | _ \<Rightarrow> Stuck)"

definition delete_conditional :: "key \<Rightarrow> etag \<Rightarrow> (store_error + unit) io" where
  "delete_conditional k e = Req (DeleteConditional k e) (\<lambda>r. case r of RUnit x \<Rightarrow> Ret x | _ \<Rightarrow> Stuck)"

text \<open>\<open>ObjectStoreClient::delete_objects\<close> issues no request for an empty batch.\<close>

definition client_delete_objects :: "key list \<Rightarrow> (delete_request_error + delete_outcome list) io" where
  "client_delete_objects ks = (if ks = [] then Ret (Inr [])
    else Req (DeleteObjects ks) (\<lambda>r. case r of ROutcomes x \<Rightarrow> Ret x | _ \<Rightarrow> Stuck))"

definition list_prefix :: "key \<Rightarrow> (store_error + key list) io" where
  "list_prefix p = Req (ListPrefix p) (\<lambda>r. case r of RKeys x \<Rightarrow> Ret x | _ \<Rightarrow> Stuck)"

definition list_prefix_after :: "key \<Rightarrow> key option \<Rightarrow> nat \<Rightarrow> (store_error + key list) io" where
  "list_prefix_after p a n = (if n = 0 then Ret (Inr [])
    else Req (ListPrefixAfter p a n) (\<lambda>r. case r of RKeys x \<Rightarrow> Ret x | _ \<Rightarrow> Stuck))"

definition list_prefix_after_with_sizes :: "key \<Rightarrow> key option \<Rightarrow> nat \<Rightarrow> (store_error + (key \<times> nat) list) io" where
  "list_prefix_after_with_sizes p a n = (if n = 0 then Ret (Inr [])
    else Req (ListSizesAfter p a n) (\<lambda>r. case r of RSizes x \<Rightarrow> Ret x | _ \<Rightarrow> Stuck))"

definition exists_key :: "key \<Rightarrow> (store_error + bool) io" where
  "exists_key k = Req (Exists k) (\<lambda>r. case r of RBool x \<Rightarrow> Ret x | _ \<Rightarrow> Stuck)"

text \<open>\<open>SystemTime::now().duration_since(UNIX_EPOCH)\<close> in milliseconds; a clock before the
  epoch gives 0.\<close>

definition unix_millis :: "u64 io" where
  "unix_millis = Req UnixMillis (\<lambda>r. case r of
      RTime (Some ms) \<Rightarrow> Ret (word_of_nat ms) | RTime None \<Rightarrow> Ret 0 | _ \<Rightarrow> Stuck)"

lemmas request_defs = upload_def upload_conditional_def download_def download_with_etag_def
  delete_key_def delete_conditional_def client_delete_objects_def list_prefix_def
  list_prefix_after_def list_prefix_after_with_sizes_def exists_key_def unix_millis_def

section \<open>The store\<close>

text \<open>The objects in byte order of their keys, as the counterpart's \<open>BTreeMap\<close>; entity tags
  are a function of the content, and the clock stands still while one tree runs alone.\<close>

type_synonym store = "(key \<times> bytes) list"

record backend =
  tag_of :: "bytes \<Rightarrow> etag"
  now_millis :: "nat option"

definition st_get :: "store \<Rightarrow> key \<Rightarrow> bytes option" where
  "st_get s k = map_of s k"

fun st_put :: "key \<Rightarrow> bytes \<Rightarrow> store \<Rightarrow> store" where
  "st_put k b [] = [(k, b)]"
| "st_put k b ((k', b') # s) =
    (if k = k' then (k, b) # s else if k < k' then (k, b) # (k', b') # s else (k', b') # st_put k b s)"

definition st_del :: "key \<Rightarrow> store \<Rightarrow> store" where
  "st_del k s = filter (\<lambda>(k', _). k' \<noteq> k) s"

definition st_del_all :: "key list \<Rightarrow> store \<Rightarrow> store" where
  "st_del_all ks s = filter (\<lambda>(k', _). k' \<notin> set ks) s"

lemma st_get_put [simp]: "st_get (st_put k b s) k' = (if k' = k then Some b else st_get s k')"
  by (induction k b s rule: st_put.induct) (auto simp: st_get_def)

lemma map_of_filter_key: "map_of (filter (\<lambda>(k', _). P k') s) k = (if P k then map_of s k else None)"
  by (induction s) auto

lemma st_get_del [simp]: "st_get (st_del k s) k' = (if k' = k then None else st_get s k')"
  by (simp add: st_get_def st_del_def map_of_filter_key)

lemma st_get_del_all [simp]: "st_get (st_del_all ks s) k' = (if k' \<in> set ks then None else st_get s k')"
  by (simp add: st_get_def st_del_all_def map_of_filter_key)

lemma st_get_Nil [simp]: "st_get [] k = None"
  by (simp add: st_get_def)

definition st_wf :: "store \<Rightarrow> bool" where
  "st_wf s \<longleftrightarrow> sorted_wrt (<) (map fst s)"

lemma st_put_keys: "fst ` set (st_put k b s) = insert k (fst ` set s)"
  by (induction k b s rule: st_put.induct) auto

lemma st_wf_put: "st_wf s \<Longrightarrow> st_wf (st_put k b s)"
proof (induction k b s rule: st_put.induct)
  case (2 k b k' b' s)
  have "\<forall>x\<in>set s. k' < fst x" using "2.prems" by (simp add: st_wf_def)
  then show ?case
    using "2.IH" "2.prems" st_put_keys [of k b s] by (auto simp: st_wf_def)
qed (simp add: st_wf_def)

lemma st_wf_filter: "st_wf s \<Longrightarrow> st_wf (filter P s)"
  by (induction s) (auto simp: st_wf_def)

lemma st_wf_del: "st_wf s \<Longrightarrow> st_wf (st_del k s)" "st_wf s \<Longrightarrow> st_wf (st_del_all ks s)"
  by (simp_all add: st_del_def st_del_all_def st_wf_filter)

text \<open>A listing covers the objects below the directory named by the prefix: \<open>ObjectPath\<close>
  drops the trailing delimiter of the argument and the S3 adapter asks for the path followed
  by one.\<close>

definition dir_prefix :: "key \<Rightarrow> key" where
  "dir_prefix p = (let q = rev (dropWhile (\<lambda>c. c = CHR ''/'') (rev p)) in if q = [] then [] else q @ ''/'')"

definition list_matching :: "store \<Rightarrow> key \<Rightarrow> key option \<Rightarrow> (key \<times> nat) list" where
  "list_matching s p after = map (\<lambda>(k, b). (k, length b))
    (filter (\<lambda>(k, _). prefix (dir_prefix p) k \<and> (case after of None \<Rightarrow> True | Some a \<Rightarrow> a < k)) s)"

fun st_exec :: "backend \<Rightarrow> req \<Rightarrow> store \<Rightarrow> resp \<times> store" where
  "st_exec B (Upload k b) s = (RUnit (Inr ()), st_put k b s)"
| "st_exec B (UploadConditional k b None) s =
    (case st_get s k of
       None \<Rightarrow> (REtag (Inr (Some (tag_of B b))), st_put k b s)
     | Some _ \<Rightarrow> (REtag (Inl (PreconditionFailed k)), s))"
| "st_exec B (UploadConditional k b (Some e)) s =
    (case st_get s k of
       None \<Rightarrow> (REtag (Inl (PreconditionFailed k)), s)
     | Some b' \<Rightarrow> if tag_of B b' = e then (REtag (Inr (Some (tag_of B b))), st_put k b s)
                  else (REtag (Inl (PreconditionFailed k)), s))"
| "st_exec B (Download k) s =
    (RBytes (case st_get s k of None \<Rightarrow> Inl (NotFound k) | Some b \<Rightarrow> Inr b), s)"
| "st_exec B (DownloadWithEtag k) s =
    (RMeta (case st_get s k of None \<Rightarrow> Inl (NotFound k) | Some b \<Rightarrow> Inr (b, Some (tag_of B b))), s)"
| "st_exec B (DeleteKey k) s = (RUnit (Inr ()), st_del k s)"
| "st_exec B (DeleteConditional k e) s =
    (case st_get s k of
       None \<Rightarrow> (RUnit (Inl (NotFound k)), s)
     | Some b \<Rightarrow> if tag_of B b = e then (RUnit (Inr ()), st_del k s)
                 else (RUnit (Inl (PreconditionFailed k)), s))"
| "st_exec B (DeleteObjects ks) s =
    (ROutcomes (reconcile_delete_objects ks (map Some ks) []), st_del_all ks s)"
| "st_exec B (ListPrefix p) s = (RKeys (Inr (map fst (list_matching s p None))), s)"
| "st_exec B (ListPrefixAfter p a n) s = (RKeys (Inr (take n (map fst (list_matching s p a)))), s)"
| "st_exec B (ListSizesAfter p a n) s = (RSizes (Inr (take n (list_matching s p a))), s)"
| "st_exec B (Exists k) s = (RBool (Inr (st_get s k \<noteq> None)), s)"
| "st_exec B UnixMillis s = (RTime (now_millis B), s)"

lemma st_wf_exec: "st_wf s \<Longrightarrow> st_wf (snd (st_exec B q s))"
  by (cases "(B, q, s)" rule: st_exec.cases)
    (auto simp: st_wf_put st_wf_del split: option.split)

section \<open>One client alone\<close>

primrec run :: "backend \<Rightarrow> 'a io \<Rightarrow> store \<Rightarrow> 'a option \<times> store" where
  "run B (Ret a) = (\<lambda>s. (Some a, s))"
| "run B Stuck = (\<lambda>s. (None, s))"
| "run B (Req q k) = (\<lambda>s. run B (k (fst (st_exec B q s))) (snd (st_exec B q s)))"

lemma run_bind: "run B (io_bind m f) s =
    (case run B m s of (None, s') \<Rightarrow> (None, s') | (Some a, s') \<Rightarrow> run B (f a) s')"
  by (induction m arbitrary: s) auto


lemma run_try: "run B (io_try m f) s =
    (case run B m s of (None, s') \<Rightarrow> (None, s') | (Some (Inl e), s') \<Rightarrow> (Some (Inl e), s')
      | (Some (Inr a), s') \<Rightarrow> run B (f a) s')"
  by (simp add: io_try_def run_bind split: option.split sum.split prod.split)

lemma run_download [io_simps]:
  "run B (download k) s = (Some (case st_get s k of None \<Rightarrow> Inl (NotFound k) | Some b \<Rightarrow> Inr b), s)"
  by (simp add: download_def)

lemma run_download_with_etag [io_simps]:
  "run B (download_with_etag k) s =
    (Some (case st_get s k of None \<Rightarrow> Inl (NotFound k) | Some b \<Rightarrow> Inr (b, Some (tag_of B b))), s)"
  by (simp add: download_with_etag_def)

lemma run_create [io_simps]:
  "run B (upload_conditional k b None) s = (case st_get s k of
      None \<Rightarrow> (Some (Inr (Some (tag_of B b))), st_put k b s)
    | Some _ \<Rightarrow> (Some (Inl (PreconditionFailed k)), s))"
  by (simp add: upload_conditional_def split: option.split)

lemma run_update [io_simps]:
  "run B (upload_conditional k b (Some e)) s = (case st_get s k of
      None \<Rightarrow> (Some (Inl (PreconditionFailed k)), s)
    | Some b' \<Rightarrow> if tag_of B b' = e then (Some (Inr (Some (tag_of B b))), st_put k b s)
                else (Some (Inl (PreconditionFailed k)), s))"
  by (simp add: upload_conditional_def split: option.split)

lemma run_upload [io_simps]: "run B (upload k b) s = (Some (Inr ()), st_put k b s)"
  by (simp add: upload_def)

lemma run_delete_key [io_simps]: "run B (delete_key k) s = (Some (Inr ()), st_del k s)"
  by (simp add: delete_key_def)

lemma run_delete_conditional [io_simps]:
  "run B (delete_conditional k e) s = (case st_get s k of
      None \<Rightarrow> (Some (Inl (NotFound k)), s)
    | Some b \<Rightarrow> if tag_of B b = e then (Some (Inr ()), st_del k s)
                else (Some (Inl (PreconditionFailed k)), s))"
  by (simp add: delete_conditional_def split: option.split)

lemma run_list_prefix_after [io_simps]:
  "run B (list_prefix_after p a n) s = (Some (Inr (take n (map fst (list_matching s p a)))), s)"
  by (simp add: list_prefix_after_def)

lemma run_list_prefix [io_simps]:
  "run B (list_prefix p) s = (Some (Inr (map fst (list_matching s p None))), s)"
  by (simp add: list_prefix_def)

lemma run_list_sizes [io_simps]:
  "run B (list_prefix_after_with_sizes p a n) s = (Some (Inr (take n (list_matching s p a))), s)"
  by (simp add: list_prefix_after_with_sizes_def)

lemma run_exists_key [io_simps]: "run B (exists_key k) s = (Some (Inr (st_get s k \<noteq> None)), s)"
  by (simp add: exists_key_def)

definition clock_reading :: "backend \<Rightarrow> u64" where
  "clock_reading B = (case now_millis B of None \<Rightarrow> 0 | Some ms \<Rightarrow> word_of_nat ms)"

lemma run_unix_millis [io_simps]: "run B unix_millis s = (Some (clock_reading B), s)"
  by (simp add: unix_millis_def clock_reading_def split: option.split)

lemma run_lift_res [io_simps]:
  "run B (lift_res r f) s = (case r of Inl e \<Rightarrow> (Some (Inl e), s) | Inr a \<Rightarrow> run B (f a) s)"
  by (simp add: lift_res_def split: sum.split)

section \<open>The environment of one request\<close>

text \<open>The reply shapes, the failure replies of a request, and the replies whose content is
  consistent with content-derived entity tags.\<close>

fun well_shaped :: "req \<Rightarrow> resp \<Rightarrow> bool" where
  "well_shaped (Upload k b) r = (case r of RUnit _ \<Rightarrow> True | _ \<Rightarrow> False)"
| "well_shaped (UploadConditional k b e) r = (case r of REtag _ \<Rightarrow> True | _ \<Rightarrow> False)"
| "well_shaped (Download k) r = (case r of RBytes _ \<Rightarrow> True | _ \<Rightarrow> False)"
| "well_shaped (DownloadWithEtag k) r = (case r of RMeta _ \<Rightarrow> True | _ \<Rightarrow> False)"
| "well_shaped (DeleteKey k) r = (case r of RUnit _ \<Rightarrow> True | _ \<Rightarrow> False)"
| "well_shaped (DeleteConditional k e) r = (case r of RUnit _ \<Rightarrow> True | _ \<Rightarrow> False)"
| "well_shaped (DeleteObjects ks) r = (case r of ROutcomes _ \<Rightarrow> True | _ \<Rightarrow> False)"
| "well_shaped (ListPrefix p) r = (case r of RKeys _ \<Rightarrow> True | _ \<Rightarrow> False)"
| "well_shaped (ListPrefixAfter p a n) r = (case r of RKeys _ \<Rightarrow> True | _ \<Rightarrow> False)"
| "well_shaped (ListSizesAfter p a n) r = (case r of RSizes _ \<Rightarrow> True | _ \<Rightarrow> False)"
| "well_shaped (Exists k) r = (case r of RBool _ \<Rightarrow> True | _ \<Rightarrow> False)"
| "well_shaped UnixMillis r = (case r of RTime _ \<Rightarrow> True | _ \<Rightarrow> False)"

text \<open>An error that says nothing about the objects: \<open>NotFound\<close> and \<open>PreconditionFailed\<close> are
  answers of the store, every other error may come from anywhere on the way.\<close>

definition indefinite :: "store_error + 'a \<Rightarrow> bool" where
  "indefinite x \<longleftrightarrow> (case x of Inr _ \<Rightarrow> False | Inl e \<Rightarrow> \<not> is_NotFound e \<and> \<not> is_PreconditionFailed e)"

lemma indefinite_simps [simp]:
  "\<not> indefinite (Inr a)" "indefinite (Inl e) \<longleftrightarrow> \<not> is_NotFound e \<and> \<not> is_PreconditionFailed e"
  by (simp_all add: indefinite_def)

fun is_failure :: "resp \<Rightarrow> bool" where
  "is_failure (RUnit x) = indefinite x"
| "is_failure (REtag x) = indefinite x"
| "is_failure (RBytes x) = indefinite x"
| "is_failure (RMeta x) = indefinite x"
| "is_failure (RKeys x) = indefinite x"
| "is_failure (RSizes x) = indefinite x"
| "is_failure (RBool x) = indefinite x"
| "is_failure (ROutcomes x) = (\<not> is_ok x)"
| "is_failure (RTime x) = (x = None)"

fun tagged :: "backend \<Rightarrow> req \<Rightarrow> resp \<Rightarrow> bool" where
  "tagged B (UploadConditional k b e) (REtag (Inr t)) = (t = None \<or> t = Some (tag_of B b))"
| "tagged B (DownloadWithEtag k) (RMeta (Inr (b, t))) = (t = None \<or> t = Some (tag_of B b))"
| "tagged B q r = True"

definition reply_ok :: "backend \<Rightarrow> req \<Rightarrow> resp \<Rightarrow> bool" where
  "reply_ok B q r \<longleftrightarrow> well_shaped q r \<and> tagged B q r"

fun is_listing :: "req \<Rightarrow> bool" where
  "is_listing (ListPrefix p) = True"
| "is_listing (ListPrefixAfter p a n) = True"
| "is_listing (ListSizesAfter p a n) = True"
| "is_listing UnixMillis = True"
| "is_listing q = False"

text \<open>What the environment may do with a request: serve it; apply it and lose the response;
  refuse it; apply any part of a batch and report anything; answer a listing (or a clock
  reading) with any content.\<close>

inductive answer :: "backend \<Rightarrow> req \<Rightarrow> store \<Rightarrow> resp \<Rightarrow> store \<Rightarrow> bool" where
  served: "st_exec B q s = (r, s') \<Longrightarrow> answer B q s r s'"
| lost: "st_exec B q s = (r, s') \<Longrightarrow> well_shaped q f \<Longrightarrow> is_failure f \<Longrightarrow> answer B q s f s'"
| refused: "well_shaped q f \<Longrightarrow> is_failure f \<Longrightarrow> answer B q s f s"
| partial: "set ks' \<subseteq> set ks \<Longrightarrow> answer B (DeleteObjects ks) s (ROutcomes x) (st_del_all ks' s)"
| stale: "is_listing q \<Longrightarrow> well_shaped q r \<Longrightarrow> answer B q s r s"

text \<open>The stores a request can leave behind, whatever the reply.\<close>

definition effect :: "backend \<Rightarrow> req \<Rightarrow> store \<Rightarrow> store \<Rightarrow> bool" where
  "effect B q s s' \<longleftrightarrow> s' = s \<or> s' = snd (st_exec B q s) \<or>
    (\<exists>ks ks'. q = DeleteObjects ks \<and> set ks' \<subseteq> set ks \<and> s' = st_del_all ks' s)"

lemma well_shaped_exec: "well_shaped q (fst (st_exec B q s))"
  by (cases "(B, q, s)" rule: st_exec.cases) (auto split: option.split)

lemma tagged_exec: "tagged B q (fst (st_exec B q s))"
  by (cases "(B, q, s)" rule: st_exec.cases) (auto split: option.split)

lemma tagged_failure: "is_failure r \<Longrightarrow> tagged B q r"
  by (cases "(B, q, r)" rule: tagged.cases) auto

lemma tagged_listing: "is_listing q \<Longrightarrow> tagged B q r"
  by (cases q) auto

lemma answer_reply_ok: "answer B q s r s' \<Longrightarrow> reply_ok B q r"
proof (induction rule: answer.induct)
  case (served B q s r s')
  then show ?case using well_shaped_exec [of q B s] tagged_exec [of B q s] by (simp add: reply_ok_def)
qed (auto simp: reply_ok_def tagged_failure tagged_listing)

lemma answer_effect: "answer B q s r s' \<Longrightarrow> effect B q s s'"
  by (induction rule: answer.induct) (auto simp: effect_def)

section \<open>Interleaved clients\<close>

text \<open>Clients take turns at their requests; a client may also have its pending request
  performed more than once by a retrying transport.\<close>

inductive pool_step :: "backend \<Rightarrow> store \<times> 'a io list \<Rightarrow> store \<times> 'a io list \<Rightarrow> bool" where
  advance: "i < length ps \<Longrightarrow> ps ! i = Req q k \<Longrightarrow> answer B q s r s' \<Longrightarrow>
    pool_step B (s, ps) (s', ps[i := k r])"
| resent: "i < length ps \<Longrightarrow> ps ! i = Req q k \<Longrightarrow> answer B q s r s' \<Longrightarrow>
    pool_step B (s, ps) (s', ps)"

definition pool_reach :: "backend \<Rightarrow> store \<times> 'a io list \<Rightarrow> store \<times> 'a io list \<Rightarrow> bool" where
  "pool_reach B = (pool_step B)\<^sup>*\<^sup>*"

inductive_cases pool_stepE: "pool_step B (s, ps) c"

text \<open>\<open>io_post V P Q m\<close>: as long as the replies satisfy \<open>V\<close>, every request of \<open>m\<close> satisfies
  \<open>P\<close> and every value it returns satisfies \<open>Q\<close>.\<close>

primrec io_post :: "(req \<Rightarrow> resp \<Rightarrow> bool) \<Rightarrow> (req \<Rightarrow> bool) \<Rightarrow> ('a \<Rightarrow> bool) \<Rightarrow> 'a io \<Rightarrow> bool" where
  "io_post V P Q (Ret a) = Q a"
| "io_post V P Q Stuck = True"
| "io_post V P Q (Req q k) = (P q \<and> (\<forall>r. V q r \<longrightarrow> io_post V P Q (k r)))"

definition io_all :: "backend \<Rightarrow> (req \<Rightarrow> bool) \<Rightarrow> 'a io \<Rightarrow> bool" where
  "io_all B P m = io_post (reply_ok B) P (\<lambda>_. True) m"

lemma io_post_bind [post_intros]:
  "io_post V P (\<lambda>a. io_post V P Q (f a)) m \<Longrightarrow> io_post V P Q (io_bind m f)"
  by (induction m) auto

lemma io_post_mono:
  "io_post V P Q m \<Longrightarrow> (\<And>q. P q \<Longrightarrow> P' q) \<Longrightarrow> (\<And>a. Q a \<Longrightarrow> Q' a) \<Longrightarrow> io_post V P' Q' m"
  by (induction m) auto

lemma io_post_conj: "io_post V P Q m \<Longrightarrow> io_post V P' Q' m \<Longrightarrow> io_post V (\<lambda>q. P q \<and> P' q) (\<lambda>a. Q a \<and> Q' a) m"
  by (induction m) auto

lemma io_post_try [post_intros]:
  "io_post V P (\<lambda>r. case r of Inl e \<Rightarrow> Q (Inl e) | Inr a \<Rightarrow> io_post V P Q (f a)) m
    \<Longrightarrow> io_post V P Q (io_try m f)"
  unfolding io_try_def
  by (rule io_post_bind, erule io_post_mono) (auto split: sum.split sum.split_asm)

lemma io_post_lift_res [post_intros]:
  "(\<And>e. r = Inl e \<Longrightarrow> Q (Inl e)) \<Longrightarrow> (\<And>a. r = Inr a \<Longrightarrow> io_post V P Q (f a)) \<Longrightarrow> io_post V P Q (lift_res r f)"
  by (cases r) auto

lemma io_post_download [post_intros]:
  "P (Download k) \<Longrightarrow> (\<And>x. Q x) \<Longrightarrow> io_post V P Q (download k)"
  by (auto simp: download_def split: resp.split)

lemma io_post_download_with_etag [post_intros]:
  "P (DownloadWithEtag k) \<Longrightarrow> (\<And>e. Q (Inl e)) \<Longrightarrow> (\<And>b t. t = None \<or> t = Some (tag_of B b) \<Longrightarrow> Q (Inr (b, t)))
    \<Longrightarrow> io_post (reply_ok B) P Q (download_with_etag k)"
  by (auto simp: download_with_etag_def reply_ok_def split: resp.split sum.split)
    (metis sum.exhaust_sel surj_pair tagged.simps(2))+

lemma io_post_upload_conditional [post_intros]:
  "P (UploadConditional k b e) \<Longrightarrow> (\<And>x. Q (Inl x)) \<Longrightarrow> (\<And>t. t = None \<or> t = Some (tag_of B b) \<Longrightarrow> Q (Inr t))
    \<Longrightarrow> io_post (reply_ok B) P Q (upload_conditional k b e)"
  by (auto simp: upload_conditional_def reply_ok_def split: resp.split)
    (metis sum.exhaust_sel tagged.simps(1))+

lemma io_post_upload [post_intros]:
  "P (Upload k b) \<Longrightarrow> (\<And>x. Q x) \<Longrightarrow> io_post V P Q (upload k b)"
  by (auto simp: upload_def split: resp.split)

lemma io_post_delete_key [post_intros]:
  "P (DeleteKey k) \<Longrightarrow> (\<And>x. Q x) \<Longrightarrow> io_post V P Q (delete_key k)"
  by (auto simp: delete_key_def split: resp.split)

lemma io_post_delete_conditional [post_intros]:
  "P (DeleteConditional k e) \<Longrightarrow> (\<And>x. Q x) \<Longrightarrow> io_post V P Q (delete_conditional k e)"
  by (auto simp: delete_conditional_def split: resp.split)

lemma io_post_client_delete_objects [post_intros]:
  "P (DeleteObjects ks) \<Longrightarrow> (\<And>x. Q x) \<Longrightarrow> io_post V P Q (client_delete_objects ks)"
  by (auto simp: client_delete_objects_def split: resp.split)

lemma io_post_list_prefix [post_intros]:
  "P (ListPrefix p) \<Longrightarrow> (\<And>x. Q x) \<Longrightarrow> io_post V P Q (list_prefix p)"
  by (auto simp: list_prefix_def split: resp.split)

lemma io_post_list_prefix_after [post_intros]:
  "P (ListPrefixAfter p a n) \<Longrightarrow> (\<And>x. Q x) \<Longrightarrow> io_post V P Q (list_prefix_after p a n)"
  by (auto simp: list_prefix_after_def split: resp.split)

lemma io_post_list_sizes [post_intros]:
  "P (ListSizesAfter p a n) \<Longrightarrow> (\<And>x. Q x) \<Longrightarrow> io_post V P Q (list_prefix_after_with_sizes p a n)"
  by (auto simp: list_prefix_after_with_sizes_def split: resp.split)

lemma io_post_exists_key [post_intros]:
  "P (Exists k) \<Longrightarrow> (\<And>x. Q x) \<Longrightarrow> io_post V P Q (exists_key k)"
  by (auto simp: exists_key_def split: resp.split)

lemma io_post_unix_millis [post_intros]:
  "P UnixMillis \<Longrightarrow> (\<And>x. Q x) \<Longrightarrow> io_post V P Q unix_millis"
  by (auto simp: unix_millis_def split: resp.split option.split)

text \<open>Whatever the interleaving, every change of the store is the effect of a request that the
  clients' trees allow.\<close>

definition pool_ok :: "backend \<Rightarrow> (req \<Rightarrow> bool) \<Rightarrow> 'a io list \<Rightarrow> bool" where
  "pool_ok B P ps \<longleftrightarrow> (\<forall>p\<in>set ps. io_all B P p)"

lemma pool_ok_step:
  assumes "pool_step B (s, ps) (s', ps')" "pool_ok B P ps"
  shows "pool_ok B P ps' \<and> (\<exists>q. P q \<and> effect B q s s')"
  using assms(1)
proof cases
  case (advance i q k r)
  have "io_all B P (Req q k)" using advance assms(2) by (metis nth_mem pool_ok_def)
  then have "P q" "io_all B P (k r)"
    using answer_reply_ok [OF advance(4)] by (auto simp: io_all_def)
  moreover have "set (ps[i := k r]) \<subseteq> insert (k r) (set ps)" by (rule set_update_subset_insert)
  ultimately show ?thesis using assms(2) answer_effect [OF advance(4)] advance(1) by (auto simp: pool_ok_def)
next
  case (resent i q k r)
  have "io_all B P (Req q k)" using resent assms(2) by (metis nth_mem pool_ok_def)
  then have "P q" by (simp add: io_all_def)
  then show ?thesis using assms(2) answer_effect [OF resent(4)] resent(1) by auto
qed

lemma pool_invariant:
  assumes "pool_reach B (s, ps) (s', ps')" "pool_ok B P ps" "I s"
    and "\<And>q s s'. P q \<Longrightarrow> I s \<Longrightarrow> effect B q s s' \<Longrightarrow> I s'"
  shows "I s' \<and> pool_ok B P ps'"
proof -
  have "I (fst c') \<and> pool_ok B P (snd c')" if "(pool_step B)\<^sup>*\<^sup>* (s, ps) c'" for c'
    using that
  proof (induction rule: rtranclp_induct)
    case base
    then show ?case using assms by simp
  next
    case (step c c')
    obtain t qs t' qs' where c: "c = (t, qs)" "c' = (t', qs')" by (cases c, cases c')
    then obtain q where "P q" "effect B q t t'" "pool_ok B P qs'"
      using pool_ok_step [of B t qs t' qs' P] step by auto
    then show ?case using assms(4) [of q t t'] step.IH c by simp
  qed
  from this [of "(s', ps')"] show ?thesis using assms(1) by (simp add: pool_reach_def)
qed

section \<open>Traces\<close>

text \<open>\<open>io_runs m tr a\<close>: in some environment \<open>m\<close> issues the requests of \<open>tr\<close>, gets the replies
  of \<open>tr\<close>, and returns \<open>a\<close>.\<close>

inductive io_runs :: "'a io \<Rightarrow> (req \<times> resp) list \<Rightarrow> 'a \<Rightarrow> bool" where
  runs_Ret: "io_runs (Ret a) [] a"
| runs_Req: "io_runs (k r) tr a \<Longrightarrow> io_runs (Req q k) ((q, r) # tr) a"

inductive_simps runs_simps [simp]: "io_runs (Ret a) tr b" "io_runs Stuck tr b" "io_runs (Req q k) tr b"

lemma runs_bind: "io_runs (io_bind m f) tr b \<longleftrightarrow>
    (\<exists>tr1 tr2 a. tr = tr1 @ tr2 \<and> io_runs m tr1 a \<and> io_runs (f a) tr2 b)"
proof (induction m arbitrary: tr)
  case (Req q k)
  show ?case
  proof
    assume "io_runs (io_bind (Req q k) f) tr b"
    then obtain r tr0 where "tr = (q, r) # tr0" "io_runs (io_bind (k r) f) tr0 b" by auto
    then show "\<exists>tr1 tr2 a. tr = tr1 @ tr2 \<and> io_runs (Req q k) tr1 a \<and> io_runs (f a) tr2 b"
      unfolding Req.IH [OF rangeI] by (metis append_Cons runs_Req)
  next
    assume "\<exists>tr1 tr2 a. tr = tr1 @ tr2 \<and> io_runs (Req q k) tr1 a \<and> io_runs (f a) tr2 b"
    then show "io_runs (io_bind (Req q k) f) tr b"
      using Req.IH [OF rangeI] by fastforce
  qed
qed auto

lemma runs_try: "io_runs (io_try m f) tr b \<longleftrightarrow>
    (\<exists>e. b = Inl e \<and> io_runs m tr (Inl e)) \<or>
    (\<exists>tr1 tr2 a. tr = tr1 @ tr2 \<and> io_runs m tr1 (Inr a) \<and> io_runs (f a) tr2 b)"
  (is "_ \<longleftrightarrow> ?R")
proof
  assume "io_runs (io_try m f) tr b"
  then obtain tr1 tr2 r where m: "tr = tr1 @ tr2" "io_runs m tr1 r"
    "io_runs (case r of Inl e \<Rightarrow> Ret (Inl e) | Inr a \<Rightarrow> f a) tr2 b"
    unfolding io_try_def runs_bind by blast
  then show ?R by (cases r) auto
next
  assume ?R
  then consider e where "b = Inl e" "io_runs m tr (Inl e)"
    | tr1 tr2 a where "tr = tr1 @ tr2" "io_runs m tr1 (Inr a)" "io_runs (f a) tr2 b" by blast
  then show "io_runs (io_try m f) tr b"
  proof cases
    case 1
    then have "tr = tr @ [] \<and> io_runs m tr (Inl e) \<and> io_runs (Ret (Inl e)) [] b" by simp
    then show ?thesis unfolding io_try_def runs_bind by (metis sum.case(1))
  next
    case 2
    then show ?thesis unfolding io_try_def runs_bind by (metis sum.case(2))
  qed
qed

lemma runs_lift_res: "io_runs (lift_res r f) tr b \<longleftrightarrow>
    (\<exists>e. r = Inl e \<and> b = Inl e \<and> tr = []) \<or> (\<exists>a. r = Inr a \<and> io_runs (f a) tr b)"
  by (cases r) auto

text \<open>Requests that read leave every store as it is.\<close>

fun is_read :: "req \<Rightarrow> bool" where
  "is_read (Download k) = True"
| "is_read (DownloadWithEtag k) = True"
| "is_read (ListPrefix p) = True"
| "is_read (ListPrefixAfter p a n) = True"
| "is_read (ListSizesAfter p a n) = True"
| "is_read (Exists k) = True"
| "is_read UnixMillis = True"
| "is_read q = False"

lemma read_effect: "is_read q \<Longrightarrow> effect B q s s' \<Longrightarrow> s' = s"
  by (cases q) (auto simp: effect_def)

end
