(* ===== verification/Kernel_Demo.thy ===== *)
theory Kernel_Demo
  imports Kernel_Records S3_Io
begin

text \<open>
  A concrete instance of the external parameters (\<open>ext\<close>: serde_json, SHA-256, hex) and of the
  object store's entity tags, for the witnesses: self-delimiting binary codecs, the length padded
  to 32 bytes as digest, and lower-case hexadecimal digits.  It shows that \<open>ext_ok\<close> can hold.
\<close>

section \<open>Self-delimiting codecs\<close>

record 'a pickle =
  pk_put :: "'a \<Rightarrow> bytes"
  pk_get :: "bytes \<Rightarrow> ('a \<times> bytes) option"

definition pickle_ok :: "'a pickle \<Rightarrow> bool" where
  "pickle_ok p \<longleftrightarrow> (\<forall>a rest. pk_get p (pk_put p a @ rest) = Some (a, rest))"

lemma pickle_okD [simp]: "pickle_ok p \<Longrightarrow> pk_get p (pk_put p a @ rest) = Some (a, rest)"
  by (simp add: pickle_ok_def)

fun put_string :: "string \<Rightarrow> bytes" where
  "put_string [] = [0]"
| "put_string (c # s) = 1 # word_of_nat (of_char c) # put_string s"

fun get_string :: "bytes \<Rightarrow> (string \<times> bytes) option" where
  "get_string [] = None"
| "get_string [t] = (if t = 0 then Some ([], []) else None)"
| "get_string (t # b # r) = (if t = 0 then Some ([], b # r)
    else map_option (\<lambda>(s, rest). (char_of (unat b) # s, rest)) (get_string r))"

definition p_string :: "string pickle" where
  "p_string = \<lparr>pk_put = put_string, pk_get = get_string\<rparr>"

lemma char_of_byte: "char_of (unat (word_of_nat (of_char c) :: 8 word)) = c"
  using bytes_string_as_bytes [of "[c]"] by (simp add: bytes_string_def as_bytes_def)

lemma p_string_ok [intro]: "pickle_ok p_string"
proof -
  have "get_string (put_string s @ rest) = Some (s, rest)" for s rest
    by (induction s) (cases rest; simp add: char_of_byte)+
  then show ?thesis by (simp add: pickle_ok_def p_string_def)
qed

definition p_u64 :: "u64 pickle" where
  "p_u64 = \<lparr>pk_put = to_be_bytes, pk_get = (\<lambda>b. map_option (\<lambda>n. (n, drop 8 b)) (from_be_bytes (take 8 b)))\<rparr>"

lemma p_u64_ok [intro]: "pickle_ok p_u64"
  by (simp add: pickle_ok_def p_u64_def)

definition p_pair :: "'a pickle \<Rightarrow> 'b pickle \<Rightarrow> ('a \<times> 'b) pickle" where
  "p_pair p q = \<lparr>pk_put = (\<lambda>(a, b). pk_put p a @ pk_put q b),
    pk_get = (\<lambda>bs. case pk_get p bs of None \<Rightarrow> None | Some (a, r) \<Rightarrow>
      (case pk_get q r of None \<Rightarrow> None | Some (b, r') \<Rightarrow> Some ((a, b), r')))\<rparr>"

lemma p_pair_ok [intro]: "pickle_ok p \<Longrightarrow> pickle_ok q \<Longrightarrow> pickle_ok (p_pair p q)"
  unfolding pickle_ok_def [of "p_pair p q"] by (auto simp: p_pair_def)

definition p_option :: "'a pickle \<Rightarrow> 'a option pickle" where
  "p_option p = \<lparr>pk_put = (\<lambda>x. case x of None \<Rightarrow> [0] | Some a \<Rightarrow> 1 # pk_put p a),
    pk_get = (\<lambda>bs. case bs of [] \<Rightarrow> None | t # r \<Rightarrow>
      if t = 0 then Some (None, r) else map_option (\<lambda>(a, r'). (Some a, r')) (pk_get p r))\<rparr>"

lemma p_option_ok [intro]: "pickle_ok p \<Longrightarrow> pickle_ok (p_option p)"
  unfolding pickle_ok_def [of "p_option p"] by (auto simp: p_option_def split: option.split)

fun put_list :: "'a pickle \<Rightarrow> 'a list \<Rightarrow> bytes" where
  "put_list p [] = [0]"
| "put_list p (a # as) = 1 # pk_put p a @ put_list p as"

text \<open>The fuel is the number of bytes: every element takes at least one.\<close>

fun get_list :: "'a pickle \<Rightarrow> nat \<Rightarrow> bytes \<Rightarrow> ('a list \<times> bytes) option" where
  "get_list p 0 bs = None"
| "get_list p (Suc n) [] = None"
| "get_list p (Suc n) (t # r) = (if t = 0 then Some ([], r) else (case pk_get p r of
      None \<Rightarrow> None | Some (a, r') \<Rightarrow> map_option (\<lambda>(as, rest). (a # as, rest)) (get_list p n r')))"

definition p_list :: "'a pickle \<Rightarrow> 'a list pickle" where
  "p_list p = \<lparr>pk_put = put_list p, pk_get = (\<lambda>bs. get_list p (length bs) bs)\<rparr>"

lemma p_list_ok [intro]:
  assumes "pickle_ok p"
  shows "pickle_ok (p_list p)"
proof -
  have "length (put_list p as) \<le> n \<Longrightarrow> get_list p n (put_list p as @ rest) = Some (as, rest)" for as n rest
  proof (induction as arbitrary: n)
    case Nil
    then show ?case by (cases n) auto
  next
    case (Cons a as)
    then obtain m where n: "n = Suc m" by (cases n) auto
    then show ?case using Cons assms by simp
  qed
  then show ?thesis by (simp add: pickle_ok_def p_list_def)
qed

definition p_iso :: "('a \<Rightarrow> 'b) \<Rightarrow> ('b \<Rightarrow> 'a) \<Rightarrow> 'b pickle \<Rightarrow> 'a pickle" where
  "p_iso f g p = \<lparr>pk_put = (\<lambda>a. pk_put p (f a)), pk_get = (\<lambda>bs. map_option (\<lambda>(b, r). (g b, r)) (pk_get p bs))\<rparr>"

lemma p_iso_ok [intro]: "pickle_ok p \<Longrightarrow> (\<And>a. g (f a) = a) \<Longrightarrow> pickle_ok (p_iso f g p)"
  unfolding pickle_ok_def [of "p_iso f g p"] by (simp add: p_iso_def)

definition codec_of :: "8 word \<Rightarrow> 'w pickle \<Rightarrow> 'w codec" where
  "codec_of tag p = \<lparr>cenc = (\<lambda>w. Some (tag # pk_put p w)),
    cdec = (\<lambda>b. case b of [] \<Rightarrow> None | t # r \<Rightarrow> if t \<noteq> tag then None else
      (case pk_get p r of Some (w, []) \<Rightarrow> Some w | _ \<Rightarrow> None))\<rparr>"

lemma codec_of_ok [intro]: "pickle_ok p \<Longrightarrow> codec_ok (codec_of tag p)"
  using pickle_okD [of p _ "[]"] by (simp add: codec_ok_def codec_of_def)

section \<open>The wire structures\<close>

definition p_position :: "position_wire pickle" where
  "p_position = p_iso (\<lambda>w. (pw_digest w, pw_generation w)) (\<lambda>(d, g). \<lparr>pw_digest = d, pw_generation = g\<rparr>)
    (p_pair p_string p_u64)"

definition p_record :: "record_wire pickle" where
  "p_record = p_iso
    (\<lambda>w. (rw_actor_id w, rw_cause_id w, rw_envelope w, rw_lineage w, rw_operation_id w, rw_payload_hex w,
          rw_prior w, ucast (rw_protocol_epoch w), rw_sequence w, rw_transition_schema w, rw_transition_type w))
    (\<lambda>(a, c, e, l, o', p, pr, ep, s, ts, tt). \<lparr>rw_actor_id = a, rw_cause_id = c, rw_envelope = e, rw_lineage = l,
      rw_operation_id = o', rw_payload_hex = p, rw_prior = pr, rw_protocol_epoch = ucast ep, rw_sequence = s,
      rw_transition_schema = ts, rw_transition_type = tt\<rparr>)
    (p_pair p_string (p_pair p_string (p_pair p_string (p_pair p_string (p_pair p_string (p_pair p_string
      (p_pair (p_option p_position) (p_pair p_u64 (p_pair p_u64 (p_pair p_string p_string))))))))))"

definition p_head :: "head_wire pickle" where
  "p_head = p_iso
    (\<lambda>w. (hw_envelope w, hw_generation w, hw_incarnation w, hw_lineage w, hw_prior w, hw_record_digest w))
    (\<lambda>(e, g, i, l, p, d). \<lparr>hw_envelope = e, hw_generation = g, hw_incarnation = i, hw_lineage = l,
      hw_prior = p, hw_record_digest = d\<rparr>)
    (p_pair p_string (p_pair p_u64 (p_pair p_u64 (p_pair p_string (p_pair (p_option p_position) p_string)))))"

definition p_head_v1 :: "head_wire_v1 pickle" where
  "p_head_v1 = p_iso
    (\<lambda>w. (h1_envelope w, h1_generation w, h1_lineage w, h1_prior w, h1_record_digest w))
    (\<lambda>(e, g, l, p, d). \<lparr>h1_envelope = e, h1_generation = g, h1_lineage = l, h1_prior = p, h1_record_digest = d\<rparr>)
    (p_pair p_string (p_pair p_u64 (p_pair p_string (p_pair (p_option p_position) p_string))))"

definition p_checkpoint :: "checkpoint_wire pickle" where
  "p_checkpoint = p_iso
    (\<lambda>w. (cw_envelope w, cw_last_included_record_digest w, cw_lineage w, ucast (cw_protocol_epoch w),
          cw_source_generation w, cw_source_head_digest w, cw_state_hex w, cw_transition_schema w))
    (\<lambda>(e, d, l, ep, g, h, s, t). \<lparr>cw_envelope = e, cw_last_included_record_digest = d, cw_lineage = l,
      cw_protocol_epoch = ucast ep, cw_source_generation = g, cw_source_head_digest = h, cw_state_hex = s,
      cw_transition_schema = t\<rparr>)
    (p_pair p_string (p_pair p_string (p_pair p_string (p_pair p_u64 (p_pair p_u64 (p_pair p_string
      (p_pair p_string p_string)))))))"

definition p_projected :: "projected_record_wire pickle" where
  "p_projected = p_iso (\<lambda>w. (prw_bytes_hex w, prw_digest w)) (\<lambda>(b, d). \<lparr>prw_bytes_hex = b, prw_digest = d\<rparr>)
    (p_pair p_string p_string)"

definition p_projection :: "projection_wire pickle" where
  "p_projection = p_iso
    (\<lambda>w. (pjw_envelope w, pjw_records w, pjw_source_digest w, pjw_source_generation w, pjw_source_lineage w))
    (\<lambda>(e, r, d, g, l). \<lparr>pjw_envelope = e, pjw_records = r, pjw_source_digest = d, pjw_source_generation = g,
      pjw_source_lineage = l\<rparr>)
    (p_pair p_string (p_pair (p_list p_projected) (p_pair p_string (p_pair p_u64 p_string))))"

definition p_tombstone :: "tombstone pickle" where
  "p_tombstone = p_iso
    (\<lambda>t. (ucast (ts_format_version t), ts_deleted_at_gen t, ts_incarnation t, ts_cause t, ts_actor t, ts_ts t))
    (\<lambda>(f, d, i, c, a, t). \<lparr>ts_format_version = ucast f, ts_deleted_at_gen = d, ts_incarnation = i, ts_cause = c,
      ts_actor = a, ts_ts = t\<rparr>)
    (p_pair p_u64 (p_pair p_u64 (p_pair p_u64 (p_pair p_string (p_pair p_string p_u64)))))"

lemma ucast_narrow: "ucast (ucast (w :: u16) :: u64) = w" "ucast (ucast (v :: u32) :: u64) = v"
  by (transfer, simp add: take_bit_take_bit)+

lemma wire_pickles_ok [intro]:
  "pickle_ok p_position" "pickle_ok p_record" "pickle_ok p_head" "pickle_ok p_head_v1" "pickle_ok p_checkpoint"
  "pickle_ok p_projected" "pickle_ok p_projection" "pickle_ok p_tombstone"
proof -
  note intros = p_iso_ok p_pair_ok p_option_ok p_list_ok p_string_ok p_u64_ok
  show pos: "pickle_ok p_position" unfolding p_position_def by (intro intros) simp
  show "pickle_ok p_record" unfolding p_record_def by (intro intros pos) (simp add: ucast_narrow)
  show "pickle_ok p_head" unfolding p_head_def by (intro intros pos) simp
  show "pickle_ok p_head_v1" unfolding p_head_v1_def by (intro intros pos) simp
  show "pickle_ok p_checkpoint" unfolding p_checkpoint_def by (intro intros) (simp add: ucast_narrow)
  show pj: "pickle_ok p_projected" unfolding p_projected_def by (intro intros) simp
  show "pickle_ok p_projection" unfolding p_projection_def by (intro intros pj) simp
  show "pickle_ok p_tombstone" unfolding p_tombstone_def by (intro intros) (simp add: ucast_narrow)
qed

section \<open>Checksums and hexadecimal digits\<close>

definition hex_digit :: "nat \<Rightarrow> char" where
  "hex_digit n = ''0123456789abcdef'' ! n"

definition demo_hex :: "bytes \<Rightarrow> string" where
  "demo_hex bs = concat (map (\<lambda>b. [hex_digit (unat b div 16), hex_digit (unat b mod 16)]) bs)"

definition hex_value :: "char \<Rightarrow> nat" where
  "hex_value c = (if c \<ge> CHR ''a'' then of_char c - 87 else of_char c - 48)"

fun demo_unhex :: "string \<Rightarrow> bytes option" where
  "demo_unhex [] = Some []"
| "demo_unhex [c] = None"
| "demo_unhex (c # d # s) = map_option (\<lambda>bs. word_of_nat (hex_value c * 16 + hex_value d) # bs) (demo_unhex s)"

lemma hex_digit_ok: "n < 16 \<Longrightarrow> hex_value (hex_digit n) = n \<and> ascii_lower_hex (hex_digit n)"
proof -
  have "\<forall>n\<in>set [0..<16]. hex_value (hex_digit n) = n \<and> ascii_lower_hex (hex_digit n)"
    by code_simp
  then show "n < 16 \<Longrightarrow> hex_value (hex_digit n) = n \<and> ascii_lower_hex (hex_digit n)" by simp
qed

lemma demo_hex_ok: "length (demo_hex b) = 2 * length b \<and> list_all ascii_lower_hex (demo_hex b) \<and> demo_unhex (demo_hex b) = Some b"
proof (induction b)
  case (Cons x b)
  have x: "unat x div 16 < 16" "unat x mod 16 < 16" using unat_lt2p [of x] by auto
  note hex_digit_ok [OF x(1)] hex_digit_ok [OF x(2)]
  then show ?case using Cons by (simp add: demo_hex_def)
qed (simp add: demo_hex_def)

lemma hex_value_digit:
  assumes "ascii_lower_hex c"
  shows "hex_value c < 16 \<and> hex_digit (hex_value c) = c"
proof -
  have "\<forall>n\<in>set ([48..<58] @ [97..<103]). hex_value (char_of n) < 16 \<and> hex_digit (hex_value (char_of n)) = char_of (n :: nat)"
    by code_simp
  moreover have "(of_char c :: nat) \<in> set ([48..<58] @ [97..<103])"
  proof -
    have "48 \<le> n \<and> n \<le> 57 \<or> 97 \<le> n \<and> n \<le> 102 \<Longrightarrow> n \<in> set ([48..<58] @ [97..<103])" for n :: nat
      unfolding set_append set_upt Un_iff atLeastLessThan_iff by linarith
    then show ?thesis using assms by (simp add: ascii_lower_hex_def ascii_digit_def less_eq_char_def)
  qed
  ultimately have "hex_value (char_of (of_char c :: nat)) < 16 \<and> hex_digit (hex_value (char_of (of_char c :: nat))) = char_of (of_char c :: nat)"
    by blast
  then show ?thesis by simp
qed

lemma demo_hex_lower: "list_all ascii_lower_hex s \<Longrightarrow> demo_unhex s = Some b \<Longrightarrow> demo_hex b = s"
proof (induction s arbitrary: b rule: demo_unhex.induct)
  case (3 c d s)
  then obtain bs where bs: "demo_unhex s = Some bs" "b = word_of_nat (hex_value c * 16 + hex_value d) # bs" by auto
  have "hex_value c < 16" "hex_value d < 16" "hex_digit (hex_value c) = c" "hex_digit (hex_value d) = d"
    using 3(2) hex_value_digit by auto
  moreover from this have "unat (word_of_nat (hex_value c * 16 + hex_value d) :: 8 word) = hex_value c * 16 + hex_value d"
    by (subst unat_of_nat) simp
  ultimately show ?case using 3 bs by (simp add: demo_hex_def)
qed (auto simp: demo_hex_def)

definition demo_sum :: "bytes \<Rightarrow> bytes" where
  "demo_sum b = replicate 24 0 @ to_be_bytes (word_of_nat (length b))"

definition demo_ext :: ext where
  "demo_ext = \<lparr>sha256 = demo_sum, hex_encode = demo_hex, hex_decode = demo_unhex,
    record_json = codec_of 1 p_record, head_json = codec_of 2 p_head, head_v1_json = codec_of 3 p_head_v1,
    checkpoint_json = codec_of 4 p_checkpoint, projection_json = codec_of 5 p_projection,
    tombstone_json = codec_of 6 p_tombstone, strings_json = codec_of 7 (p_list p_string)\<rparr>"

lemma demo_ext_ok [simp]: "ext_ok demo_ext"
proof -
  have "cdec (codec_of 2 p_head) b = None \<or> cdec (codec_of 3 p_head_v1) b = None" for b
    by (cases b) (auto simp: codec_of_def)
  then show ?thesis using demo_hex_ok by (auto simp: ext_ok_def demo_ext_def demo_sum_def)
qed

text \<open>Tags are the hexadecimal content: they tell all contents apart.\<close>

definition demo_backend :: backend where
  "demo_backend = \<lparr>tag_of = demo_hex, now_millis = Some 42\<rparr>"

lemma demo_tags: "inj (tag_of demo_backend)"
  using demo_hex_ok by (auto simp: demo_backend_def intro!: inj_on_inverseI [where g = "\<lambda>s. the (demo_unhex s)"])

end
