(* ===== verification/Kernel_Ops.thy ===== *)
theory Kernel_Ops
  imports S3_Io Kernel_Records
begin

text \<open>
  The handlers of \<open>StateKernel\<close> (\<open>state_kernel.rs\<close>, \<open>terminal_read.rs\<close>) as request trees: head
  and record reads, publication of immutable objects, genesis and successor appends, the era
  counter, \<open>destroy\<close>, and the walk over the history.  A \<open>StateKernel\<close> is its lineage \<open>l\<close>; the
  object store is the interpreter of the tree.  Log lines are not modelled.
\<close>

record loaded_head =
  lh_head :: canonical_head
  lh_etag :: "etag option"

section \<open>Reads\<close>

definition load_head :: "ext \<Rightarrow> kernel_lineage \<Rightarrow> (kernel_error + loaded_head) io" where
  "load_head X l = io_bind (download_with_etag (head_key l)) (\<lambda>r. case r of
      Inl e \<Rightarrow> Ret (Inl (if is_NotFound e then StateHistoryIncomplete (for_lineage l)
                         else StateUnavailable ''head read''))
    | Inr (data, etag) \<Rightarrow> lift_res (head_from_bytes X l data) (\<lambda>h.
        Ret (Inr \<lparr>lh_head = h, lh_etag = etag\<rparr>)))"

definition load_record :: "ext \<Rightarrow> kernel_lineage \<Rightarrow> record_digest \<Rightarrow> (kernel_error + canonical_record) io" where
  "load_record X l d = io_bind (download (object_key l d)) (\<lambda>r. case r of
      Inl e \<Rightarrow> Ret (Inl (if is_NotFound e then StateHistoryIncomplete (for_digest l d)
                         else StateUnavailable ''record read''))
    | Inr b \<Rightarrow> Ret (record_from_bytes X l d b))"

definition load_checkpoint :: "ext \<Rightarrow> kernel_lineage \<Rightarrow> record_digest \<Rightarrow> (kernel_error + canonical_checkpoint) io" where
  "load_checkpoint X l d = io_bind (download (checkpoint_key l d)) (\<lambda>r. case r of
      Inl e \<Rightarrow> Ret (Inl (if is_NotFound e then StateHistoryIncomplete (for_digest l d)
                         else StateUnavailable ''checkpoint read''))
    | Inr b \<Rightarrow> Ret (checkpoint_from_bytes X l d b))"

definition read_head :: "ext \<Rightarrow> kernel_lineage \<Rightarrow> (kernel_error + head_read) io" where
  "read_head X l = io_try (load_head X l) (\<lambda>loaded.
    lift_res (ok_or (lh_etag loaded) (StateUnavailable ''head read did not return an ETag'')) (\<lambda>etag.
      Ret (Inr \<lparr>hr_head = lh_head loaded, hr_etag = etag\<rparr>)))"

definition head_conflict :: "ext \<Rightarrow> kernel_lineage \<Rightarrow> kernel_error io" where
  "head_conflict X l = io_bind (load_head X l) (\<lambda>r.
    Ret (LineageHeadConflict (map_option (\<lambda>loaded. head_reference (lh_head loaded)) (ok_opt r))))"

text \<open>\<open>Err(self.head_conflict().await)\<close>\<close>

definition fail_conflict :: "ext \<Rightarrow> kernel_lineage \<Rightarrow> (kernel_error + 'a) io" where
  "fail_conflict X l = io_bind (head_conflict X l) (\<lambda>e. Ret (Inl e))"

section \<open>The era counter\<close>

definition current_incarnation :: "kernel_lineage \<Rightarrow> (kernel_error + u64) io" where
  "current_incarnation l = io_bind (download (incarnation_key l)) (\<lambda>r. case r of
      Inr b \<Rightarrow> Ret (ok_or (from_be_bytes b) (StateUnavailable ''lineage incarnation counter malformed''))
    | Inl e \<Rightarrow> Ret (if is_NotFound e then Inr 0
                    else Inl (StateUnavailable ''lineage incarnation counter read'')))"

primrec bump_loop :: "kernel_lineage \<Rightarrow> nat \<Rightarrow> (kernel_error + u64) io" where
  "bump_loop l 0 = Ret (Inl (StateUnavailable ''lineage incarnation counter bump budget exhausted''))"
| "bump_loop l (Suc n) = io_bind (download_with_etag (incarnation_key l)) (\<lambda>r. case r of
      Inr (data, etag) \<Rightarrow>
        lift_res (ok_or etag (StateUnavailable ''lineage incarnation counter read (no etag)'')) (\<lambda>etag.
        lift_res (ok_or (from_be_bytes data) (StateUnavailable ''lineage incarnation counter malformed'')) (\<lambda>current.
        lift_res (ok_or (checked_add current 1) (StateUnavailable ''lineage incarnation counter exhausted'')) (\<lambda>next.
        io_bind (upload_conditional (incarnation_key l) (to_be_bytes next) (Some etag)) (\<lambda>w. case w of
            Inr _ \<Rightarrow> Ret (Inr next)
          | Inl e \<Rightarrow> if is_PreconditionFailed e then bump_loop l n
                     else Ret (Inl (StateUnavailable ''lineage incarnation counter bump''))))))
    | Inl e \<Rightarrow>
        if is_NotFound e
        then io_bind (upload_conditional (incarnation_key l) (to_be_bytes 1) None) (\<lambda>w. case w of
            Inr _ \<Rightarrow> Ret (Inr 1)
          | Inl e \<Rightarrow> if is_PreconditionFailed e then bump_loop l n
                     else Ret (Inl (StateUnavailable ''lineage incarnation counter create'')))
        else Ret (Inl (StateUnavailable ''lineage incarnation counter read'')))"

definition bump_incarnation :: "kernel_lineage \<Rightarrow> (kernel_error + u64) io" where
  "bump_incarnation l = bump_loop l 8"

definition ensure_open_era :: "ext \<Rightarrow> kernel_lineage \<Rightarrow> canonical_head \<Rightarrow> (kernel_error + unit) io" where
  "ensure_open_era X l h = io_try (current_incarnation l) (\<lambda>i.
    if i = hd_incarnation h then Ret (Inr ()) else fail_conflict X l)"

definition retire_closed_era_publication :: "ext \<Rightarrow> kernel_lineage \<Rightarrow> head_read \<Rightarrow> (kernel_error + unit) io" where
  "retire_closed_era_publication X l published = io_try (current_incarnation l) (\<lambda>i.
    if i = hd_incarnation (hr_head published) then Ret (Inr ())
    else io_bind (delete_conditional (head_key l) (hr_etag published)) (\<lambda>r. case r of
        Inr _ \<Rightarrow> fail_conflict X l
      | Inl e \<Rightarrow> if is_NotFound e \<or> is_PreconditionFailed e then fail_conflict X l
                 else Ret (Inl (StateUnavailable ''head update (closed-era conditional eviction)''))))"

section \<open>Publication\<close>

definition ensure_record_lineage :: "kernel_lineage \<Rightarrow> canonical_record \<Rightarrow> kernel_error + unit" where
  "ensure_record_lineage l r =
    (if lineage_same_identity l (rec_lineage r) then Inr ()
     else Inl (StateRecordMalformed (record_reference r None)))"

definition publish_immutable :: "ext \<Rightarrow> key \<Rightarrow> bytes \<Rightarrow> safe_reference \<Rightarrow> (kernel_error + unit) io" where
  "publish_immutable X key b reference = io_bind (upload_conditional key b None) (\<lambda>r.
    if (case r of Inr _ \<Rightarrow> True | Inl e \<Rightarrow> is_PreconditionFailed e)
    then io_bind (download key) (\<lambda>x. case x of
        Inl _ \<Rightarrow> Ret (Inl (StateUnavailable ''immutable readback after conditional create''))
      | Inr existing \<Rightarrow>
          if existing = b \<and> digest_of X existing = digest_of X b then Ret (Inr ())
          else Ret (Inl (DigestMismatch reference)))
    else Ret (Inl (StateUnavailable ''immutable conditional create'')))"

definition publish_record :: "ext \<Rightarrow> kernel_lineage \<Rightarrow> canonical_record \<Rightarrow> (kernel_error + record_digest) io" where
  "publish_record X l r =
    lift_res (ensure_record_lineage l r) (\<lambda>_.
    lift_res (record_bytes X r) (\<lambda>b.
      let d = digest_of X b in
      io_try (publish_immutable X (object_key l d) b (record_reference r (Some d))) (\<lambda>_. Ret (Inr d))))"

definition publish_checkpoint :: "ext \<Rightarrow> kernel_lineage \<Rightarrow> canonical_checkpoint \<Rightarrow> (kernel_error + record_digest) io" where
  "publish_checkpoint X l c =
    (if \<not> lineage_same_identity l (cp_lineage c) then Ret (Inl (StateRecordMalformed (for_lineage l)))
     else lift_res (checkpoint_bytes X c) (\<lambda>b.
      let d = digest_of X b in
      io_try (publish_immutable X (checkpoint_key l d) b (for_digest l d)) (\<lambda>_. Ret (Inr d))))"

text \<open>\<open>for record in records { self.publish_record(record).await?; }\<close>\<close>

fun publish_records :: "ext \<Rightarrow> kernel_lineage \<Rightarrow> canonical_record list \<Rightarrow> (kernel_error + unit) io" where
  "publish_records X l [] = Ret (Inr ())"
| "publish_records X l (r # rs) = io_try (publish_record X l r) (\<lambda>_. publish_records X l rs)"

section \<open>Heads\<close>

primrec create_head_loop :: "ext \<Rightarrow> kernel_lineage \<Rightarrow> u64 \<Rightarrow> record_digest \<Rightarrow> record_position option \<Rightarrow> nat
    \<Rightarrow> (kernel_error + head_read) io" where
  "create_head_loop X l g d prior 0 = Ret (Inl (StateUnavailable ''head create (incarnation contention)''))"
| "create_head_loop X l g d prior (Suc n) = io_try (current_incarnation l) (\<lambda>incarnation.
    let head = \<lparr>hd_lineage = l, hd_generation = g, hd_incarnation = incarnation,
                hd_record_digest = d, hd_prior = prior\<rparr> in
    lift_res (head_bytes X head) (\<lambda>b.
    io_bind (upload_conditional (head_key l) b None) (\<lambda>r. case r of
        Inr etag \<Rightarrow>
          lift_res (ok_or etag (StateUnavailable ''head create did not return an ETag'')) (\<lambda>etag.
          io_try (current_incarnation l) (\<lambda>now.
            if now = incarnation then Ret (Inr \<lparr>hr_head = head, hr_etag = etag\<rparr>)
            else io_bind (delete_conditional (head_key l) etag) (\<lambda>r. case r of
                Inr _ \<Rightarrow> create_head_loop X l g d prior n
              | Inl e \<Rightarrow> if is_NotFound e then create_head_loop X l g d prior n
                         else if is_PreconditionFailed e then fail_conflict X l
                         else Ret (Inl (StateUnavailable ''head create (stale-era conditional eviction)'')))))
      | Inl e \<Rightarrow> if is_PreconditionFailed e then fail_conflict X l
                 else Ret (Inl (StateUnavailable ''head conditional create'')))))"

definition create_head :: "ext \<Rightarrow> kernel_lineage \<Rightarrow> u64 \<Rightarrow> record_digest \<Rightarrow> record_position option
    \<Rightarrow> (kernel_error + head_read) io" where
  "create_head X l g d prior = create_head_loop X l g d prior 8"

definition replace_head :: "ext \<Rightarrow> kernel_lineage \<Rightarrow> canonical_head \<Rightarrow> etag \<Rightarrow> (kernel_error + head_read) io" where
  "replace_head X l head expected_etag = lift_res (head_bytes X head) (\<lambda>b.
    io_bind (upload_conditional (head_key l) b (Some expected_etag)) (\<lambda>r. case r of
        Inr etag \<Rightarrow> lift_res (ok_or etag (StateUnavailable ''head update did not return an ETag'')) (\<lambda>etag.
          Ret (Inr \<lparr>hr_head = head, hr_etag = etag\<rparr>))
      | Inl e \<Rightarrow> if is_PreconditionFailed e then fail_conflict X l
                 else Ret (Inl (StateUnavailable ''head conditional update''))))"

text \<open>The end of both successor appends: the head's compare-and-swap, then the era recheck.\<close>

definition advance_head :: "ext \<Rightarrow> kernel_lineage \<Rightarrow> canonical_head \<Rightarrow> etag \<Rightarrow> (kernel_error + head_read) io" where
  "advance_head X l head expected_etag = io_try (replace_head X l head expected_etag) (\<lambda>advanced.
    io_try (retire_closed_era_publication X l advanced) (\<lambda>_. Ret (Inr advanced)))"

section \<open>Appends\<close>

definition append_genesis :: "ext \<Rightarrow> kernel_lineage \<Rightarrow> canonical_record \<Rightarrow> (kernel_error + head_read) io" where
  "append_genesis X l r = lift_res (ensure_record_lineage l r) (\<lambda>_.
    if rec_sequence r \<noteq> 0 \<or> rec_prior r \<noteq> None
    then Ret (Inl (StateRecordMalformed (record_reference r None)))
    else io_try (publish_record X l r) (\<lambda>d. create_head X l 0 d None))"

fun validate_batch_loop :: "ext \<Rightarrow> kernel_lineage \<Rightarrow> canonical_record list \<Rightarrow> u64 \<Rightarrow> record_position option
    \<Rightarrow> kernel_error + record_position option" where
  "validate_batch_loop X l [] g prior = Inr prior"
| "validate_batch_loop X l (r # rs) g prior =
    try_res (ensure_record_lineage l r) (\<lambda>_.
    if rec_sequence r \<noteq> g \<or> rec_prior r \<noteq> prior then Inl (StateRecordMalformed (record_reference r None))
    else try_res (canonical_record_digest X r) (\<lambda>d.
      try_res (ok_or (checked_add g 1) (StateRecordMalformed (record_reference r None))) (\<lambda>g'.
        validate_batch_loop X l rs g' (Some \<lparr>pos_generation = g, pos_digest = d\<rparr>))))"

definition validate_record_batch :: "ext \<Rightarrow> kernel_lineage \<Rightarrow> canonical_record list \<Rightarrow> u64 \<Rightarrow> record_position option
    \<Rightarrow> kernel_error + record_position" where
  "validate_record_batch X l rs first_generation first_prior =
    try_res (validate_batch_loop X l rs first_generation first_prior)
      (\<lambda>prior. ok_or prior (StateRecordMalformed (for_lineage l)))"

text \<open>\<open>records.last().and_then(|record| record.prior.clone())\<close>\<close>

definition last_prior :: "canonical_record list \<Rightarrow> record_position option" where
  "last_prior rs = (if rs = [] then None else rec_prior (last rs))"

definition append_genesis_batch :: "ext \<Rightarrow> kernel_lineage \<Rightarrow> canonical_record list \<Rightarrow> (kernel_error + head_read) io" where
  "append_genesis_batch X l rs = lift_res (validate_record_batch X l rs 0 None) (\<lambda>terminal.
    io_try (publish_records X l rs) (\<lambda>_.
      create_head X l (pos_generation terminal) (pos_digest terminal) (last_prior rs)))"

text \<open>The head a caller expects, checked against a fresh read of the head object.\<close>

definition check_expected :: "ext \<Rightarrow> kernel_lineage \<Rightarrow> head_read \<Rightarrow> (kernel_error + unit) io" where
  "check_expected X l expected = io_try (load_head X l) (\<lambda>current.
    lift_res (ok_or (lh_etag current) (StateUnavailable ''head read did not return an ETag'')) (\<lambda>current_etag.
      if \<not> head_same_identity (lh_head current) (hr_head expected) \<or> current_etag \<noteq> hr_etag expected
      then Ret (Inl (LineageHeadConflict (Some (head_reference (lh_head current)))))
      else Ret (Inr ())))"

definition append_successor :: "ext \<Rightarrow> kernel_lineage \<Rightarrow> canonical_record \<Rightarrow> head_read \<Rightarrow> (kernel_error + head_read) io" where
  "append_successor X l r expected =
    (if lin_policy l = GenesisOnly then Ret (Inl (SuccessorNotAllowed (for_lineage l)))
     else lift_res (ensure_record_lineage l r) (\<lambda>_.
       io_try (ensure_open_era X l (hr_head expected)) (\<lambda>_.
       if \<not> lineage_same_identity l (hd_lineage (hr_head expected)) then fail_conflict X l
       else io_try (check_expected X l expected) (\<lambda>_.
         lift_res (ok_or (checked_add (hd_generation (hr_head expected)) 1)
             (StateRecordMalformed (head_reference (hr_head expected)))) (\<lambda>next_generation.
         let expected_prior = head_position (hr_head expected) in
         if rec_sequence r \<noteq> next_generation \<or> rec_prior r \<noteq> Some expected_prior
         then Ret (Inl (StateRecordMalformed (record_reference r None)))
         else io_try (publish_record X l r) (\<lambda>d.
           let head = \<lparr>hd_lineage = l, hd_generation = next_generation,
                       hd_incarnation = hd_incarnation (hr_head expected),
                       hd_record_digest = d, hd_prior = Some expected_prior\<rparr> in
           advance_head X l head (hr_etag expected)))))))"

definition append_successor_batch :: "ext \<Rightarrow> kernel_lineage \<Rightarrow> canonical_record list \<Rightarrow> head_read
    \<Rightarrow> (kernel_error + head_read) io" where
  "append_successor_batch X l rs expected =
    (if lin_policy l = GenesisOnly then Ret (Inl (SuccessorNotAllowed (for_lineage l)))
     else if \<not> lineage_same_identity l (hd_lineage (hr_head expected)) then fail_conflict X l
     else io_try (ensure_open_era X l (hr_head expected)) (\<lambda>_.
       io_try (check_expected X l expected) (\<lambda>_.
         lift_res (ok_or (checked_add (hd_generation (hr_head expected)) 1)
             (StateRecordMalformed (head_reference (hr_head expected)))) (\<lambda>start_generation.
         lift_res (validate_record_batch X l rs start_generation (Some (head_position (hr_head expected)))) (\<lambda>terminal.
         io_try (publish_records X l rs) (\<lambda>_.
           let head = \<lparr>hd_lineage = l, hd_generation = pos_generation terminal,
                       hd_incarnation = hd_incarnation (hr_head expected),
                       hd_record_digest = pos_digest terminal, hd_prior = last_prior rs\<rparr> in
           advance_head X l head (hr_etag expected)))))))"

section \<open>Destruction\<close>

definition destroy :: "ext \<Rightarrow> kernel_lineage \<Rightarrow> string \<Rightarrow> string \<Rightarrow> (kernel_error + unit) io" where
  "destroy X l cause actor = io_bind (load_head X l) (\<lambda>r. case r of
      Inl (StateHistoryIncomplete _) \<Rightarrow> Ret (Inr ())
    | Inl e \<Rightarrow> Ret (Inl e)
    | Inr loaded \<Rightarrow>
        lift_res (ok_or (lh_etag loaded) (StateUnavailable ''destroy head load did not return an ETag'')) (\<lambda>etag.
        io_bind unix_millis (\<lambda>ts.
        let tombstone = tombstone_new (hd_incarnation (lh_head loaded)) (hd_generation (lh_head loaded)) cause actor ts in
        lift_res (map_err (tombstone_encode X tombstone) (\<lambda>_. StateUnavailable ''tombstone encode'')) (\<lambda>b.
        io_bind (upload_conditional (tombstone_key l) b None) (\<lambda>w.
        if (case w of Inr _ \<Rightarrow> True | Inl e \<Rightarrow> is_PreconditionFailed e)
        then io_try (bump_incarnation l) (\<lambda>_.
          io_bind (delete_conditional (head_key l) etag) (\<lambda>x. case x of
              Inr _ \<Rightarrow> Ret (Inr ())
            | Inl e \<Rightarrow> if is_NotFound e then Ret (Inr ())
                       else if is_PreconditionFailed e then fail_conflict X l
                       else Ret (Inl (StateUnavailable ''head deletion''))))
        else Ret (Inl (StateUnavailable ''tombstone conditional create'')))))))"

section \<open>Terminal reads and the existence taxonomy\<close>

record terminal_record_read =
  tr_head :: head_read
  tr_record :: canonical_record

datatype lineage_head_state = Absent | Destroyed tombstone | Present head_read

definition read_terminal_record :: "ext \<Rightarrow> kernel_lineage \<Rightarrow> (kernel_error + terminal_record_read) io" where
  "read_terminal_record X l = io_try (load_head X l) (\<lambda>loaded.
    lift_res (ok_or (lh_etag loaded) (StateUnavailable ''terminal read did not return a head ETag'')) (\<lambda>etag.
    io_try (load_record X l (hd_record_digest (lh_head loaded))) (\<lambda>r.
    lift_res (canonical_record_digest X r) (\<lambda>d.
      if d \<noteq> hd_record_digest (lh_head loaded) then Ret (Inl (DigestMismatch (for_digest l d)))
      else Ret (Inr \<lparr>tr_head = \<lparr>hr_head = lh_head loaded, hr_etag = etag\<rparr>, tr_record = r\<rparr>)))))"

definition load_tombstone :: "ext \<Rightarrow> kernel_lineage \<Rightarrow> (kernel_error + tombstone option) io" where
  "load_tombstone X l = io_bind (download (tombstone_key l)) (\<lambda>r. case r of
      Inr b \<Rightarrow> Ret (case tombstone_decode X b of
          Inr t \<Rightarrow> Inr (Some t) | Inl _ \<Rightarrow> Inl (TombstoneCorrupt (for_lineage l)))
    | Inl e \<Rightarrow> Ret (if is_NotFound e then Inr None else Inl (StateUnavailable ''tombstone read'')))"

definition read_head_state :: "ext \<Rightarrow> kernel_lineage \<Rightarrow> (kernel_error + lineage_head_state) io" where
  "read_head_state X l = io_bind (load_head X l) (\<lambda>r. case r of
      Inr loaded \<Rightarrow>
        lift_res (ok_or (lh_etag loaded) (StateUnavailable ''head state read did not return an ETag'')) (\<lambda>etag.
          Ret (Inr (Present \<lparr>hr_head = lh_head loaded, hr_etag = etag\<rparr>)))
    | Inl (StateHistoryIncomplete _) \<Rightarrow> io_try (load_tombstone X l) (\<lambda>t. case t of
          Some t \<Rightarrow> Ret (Inr (Destroyed t))
        | None \<Rightarrow> Ret (Inr Absent))
    | Inl e \<Rightarrow> Ret (Inl e))"

section \<open>History\<close>

definition mark_history_digest :: "kernel_lineage \<Rightarrow> record_digest set \<Rightarrow> record_digest
    \<Rightarrow> kernel_error + record_digest set" where
  "mark_history_digest l seen d =
    (if d \<in> seen then Inl (StateHistoryIncomplete (for_digest l d)) else Inr (insert d seen))"

text \<open>One record of the backward walk: the record at \<open>d\<close> must sit at the expected generation;
  the first must agree with the head's prior; then the walk ends at a genesis, goes on to the
  prior, or refuses.  The walk carries the records read so far newest last in the source's
  vector; here they are consed, so the accumulator is the reversed vector.\<close>

datatype walk = WalkDone | WalkOn record_digest | WalkFail kernel_error

definition walk_step :: "canonical_record \<Rightarrow> u64 \<Rightarrow> record_digest \<Rightarrow> walk" where
  "walk_step r expected_generation d =
    (case rec_prior r of
       None \<Rightarrow> if expected_generation = 0 then WalkDone
               else WalkFail (StateHistoryIncomplete (record_reference r (Some d)))
     | Some prior \<Rightarrow>
         if expected_generation > 0 \<and> pos_generation prior = expected_generation - 1
         then WalkOn (pos_digest prior)
         else WalkFail (StateHistoryIncomplete (record_reference r (Some d))))"

primrec load_history_loop :: "ext \<Rightarrow> kernel_lineage \<Rightarrow> canonical_head \<Rightarrow> nat \<Rightarrow> record_digest set \<Rightarrow> u64
    \<Rightarrow> record_digest \<Rightarrow> canonical_record list \<Rightarrow> (kernel_error + canonical_record list) io" where
  "load_history_loop X l head 0 seen g d acc = Stuck"
| "load_history_loop X l head (Suc fuel) seen g d acc =
    lift_res (mark_history_digest l seen d) (\<lambda>seen.
    io_try (load_record X l d) (\<lambda>r.
    lift_res (canonical_record_digest X r) (\<lambda>rd.
      if rd \<noteq> d \<or> rec_sequence r \<noteq> g then Ret (Inl (StateHistoryIncomplete (record_reference r (Some d))))
      else if acc = [] \<and> hd_prior head \<noteq> rec_prior r
        then Ret (Inl (StateHistoryIncomplete (record_reference r (Some rd))))
      else (case walk_step r g rd of
          WalkDone \<Rightarrow> Ret (Inr (r # acc))
        | WalkOn d' \<Rightarrow> load_history_loop X l head fuel seen (g - 1) d' (r # acc)
        | WalkFail e \<Rightarrow> Ret (Inl e)))))"

definition load_history :: "ext \<Rightarrow> kernel_lineage \<Rightarrow> canonical_head \<Rightarrow> (kernel_error + canonical_record list) io" where
  "load_history X l head = load_history_loop X l head (Suc (unat (hd_generation head))) {}
    (hd_generation head) (hd_record_digest head) []"

end
