(* ===== verification/Kernel_Fold.thy ===== *)
theory Kernel_Fold
  imports Kernel_Ops
begin

text \<open>
  Folding a lineage (\<open>state_kernel.rs\<close>): the folder interface \<open>LineageFold\<close>, disposable
  projections and their validation, checkpoints, \<open>fold\<close>, \<open>fold_at_generation\<close>,
  \<open>fold_with_projection\<close>, \<open>rebuild_projection\<close>, and the folder of the diagnostic probe.
  \<open>usize\<close> is 64 bits wide.
\<close>

section \<open>The folder interface\<close>

text \<open>A folder's \<open>Err(())\<close> is \<open>None\<close>; \<open>apply\<close> on a mutable state returns the new state (the
  sources discard the state of a failed application).\<close>

record 's lineage_fold =
  fold_validate :: "canonical_record \<Rightarrow> bool"
  fold_initial :: 's
  fold_apply :: "'s \<Rightarrow> canonical_record \<Rightarrow> 's option"
  fold_canonical :: "'s \<Rightarrow> bytes option"
  fold_restore :: "string \<Rightarrow> bytes \<Rightarrow> 's option"

datatype checkpoint_rejection_code = RejDigestMismatch | RejMalformed | RejIncomplete | RejEpochUnsupported

record checkpoint_rejection =
  rej_code :: checkpoint_rejection_code
  rej_reference :: safe_reference

datatype projection_disposition = ProjAbsent | ProjUsed | ProjDiscarded

record 's fold_outcome =
  fo_state :: 's
  fo_canonical_state :: bytes
  fo_records :: "safe_reference list"
  fo_rejections :: "checkpoint_rejection list"
  fo_projection :: projection_disposition

fun rejection_from_error :: "kernel_error \<Rightarrow> checkpoint_rejection option" where
  "rejection_from_error (DigestMismatch r) = Some \<lparr>rej_code = RejDigestMismatch, rej_reference = r\<rparr>"
| "rejection_from_error (StateRecordMalformed r) = Some \<lparr>rej_code = RejMalformed, rej_reference = r\<rparr>"
| "rejection_from_error (StateHistoryIncomplete r) = Some \<lparr>rej_code = RejIncomplete, rej_reference = r\<rparr>"
| "rejection_from_error (ProtocolEpochUnsupported r _) = Some \<lparr>rej_code = RejEpochUnsupported, rej_reference = r\<rparr>"
| "rejection_from_error (LineageHeadConflict _) = None"
| "rejection_from_error (SuccessorNotAllowed _) = None"
| "rejection_from_error (TombstoneCorrupt _) = None"
| "rejection_from_error (StateUnavailable _) = None"

section \<open>Folding records\<close>

fun validate_transitions :: "ext \<Rightarrow> 's lineage_fold \<Rightarrow> canonical_record list \<Rightarrow> kernel_error + unit" where
  "validate_transitions X F [] = Inr ()"
| "validate_transitions X F (r # rs) =
    (if fold_validate F r then validate_transitions X F rs
     else Inl (StateRecordMalformed (record_reference r (ok_opt (canonical_record_digest X r)))))"

fun apply_records :: "ext \<Rightarrow> 's lineage_fold \<Rightarrow> 's \<Rightarrow> canonical_record list \<Rightarrow> safe_reference + 's" where
  "apply_records X F s [] = Inr s"
| "apply_records X F s (r # rs) = (case fold_apply F s r of
      None \<Rightarrow> Inl (record_reference r (ok_opt (canonical_record_digest X r)))
    | Some s' \<Rightarrow> apply_records X F s' rs)"

definition fold_full :: "ext \<Rightarrow> kernel_lineage \<Rightarrow> 's lineage_fold \<Rightarrow> canonical_record list \<Rightarrow> kernel_error + 's \<times> bytes" where
  "fold_full X l F rs =
    try_res (map_err (apply_records X F (fold_initial F) rs) StateRecordMalformed) (\<lambda>s.
    try_res (ok_or (fold_canonical F s) (StateRecordMalformed (for_lineage l))) (\<lambda>b. Inr (s, b)))"

definition validate_checkpoint_basis :: "ext \<Rightarrow> kernel_lineage \<Rightarrow> canonical_checkpoint \<Rightarrow> canonical_head
    \<Rightarrow> canonical_record list \<Rightarrow> kernel_error + unit" where
  "validate_checkpoint_basis X l c head rs =
    (if \<not> lineage_same_identity l (cp_lineage c) then Inl (StateRecordMalformed (for_lineage l))
     else if cp_source_generation c > hd_generation head then Inl (StateHistoryIncomplete (for_lineage l))
     else if \<not> unat (cp_source_generation c) < length rs then Inl (StateHistoryIncomplete (for_lineage l))
     else let source = rs ! unat (cp_source_generation c) in
       try_res (canonical_record_digest X source) (\<lambda>source_digest.
         if cp_source_head_digest c \<noteq> source_digest \<or> cp_last_included_record_digest c \<noteq> source_digest
         then Inl (StateHistoryIncomplete (record_reference source (Some source_digest)))
         else Inr ()))"

text \<open>The replay of a checkpoint against the full fold: \<open>None\<close> accepts it.\<close>

definition replay_checkpoint :: "ext \<Rightarrow> kernel_lineage \<Rightarrow> 's lineage_fold \<Rightarrow> canonical_checkpoint \<Rightarrow> record_digest
    \<Rightarrow> canonical_record list \<Rightarrow> bytes \<Rightarrow> checkpoint_rejection option" where
  "replay_checkpoint X l F c d rs full_state =
    (case fold_restore F (cp_transition_schema c) (cp_state_bytes c) of
       None \<Rightarrow> Some \<lparr>rej_code = RejMalformed, rej_reference = for_digest l d\<rparr>
     | Some s \<Rightarrow>
         let start = (case checked_add (cp_source_generation c) 1 of
             Some g \<Rightarrow> unat g | None \<Rightarrow> length rs) in
         (case apply_records X F s (drop start rs) of
            Inl reference \<Rightarrow> Some \<lparr>rej_code = RejMalformed, rej_reference = reference\<rparr>
          | Inr s' \<Rightarrow> (case fold_canonical F s' of
              Some b \<Rightarrow> if b = full_state then None
                else Some \<lparr>rej_code = RejIncomplete, rej_reference = for_digest l d\<rparr>
            | None \<Rightarrow> Some \<lparr>rej_code = RejMalformed, rej_reference = for_digest l d\<rparr>)))"

definition check_checkpoint :: "ext \<Rightarrow> kernel_lineage \<Rightarrow> record_digest \<Rightarrow> canonical_head \<Rightarrow> canonical_record list
    \<Rightarrow> bytes \<Rightarrow> 's lineage_fold \<Rightarrow> (kernel_error + checkpoint_rejection list) io" where
  "check_checkpoint X l d head rs full_state F = io_bind (load_checkpoint X l d) (\<lambda>r. Ret (case r of
      Inl e \<Rightarrow> (case rejection_from_error e of Some rej \<Rightarrow> Inr [rej] | None \<Rightarrow> Inl e)
    | Inr c \<Rightarrow> (case validate_checkpoint_basis X l c head rs of
        Inl e \<Rightarrow> (case rejection_from_error e of Some rej \<Rightarrow> Inr [rej] | None \<Rightarrow> Inl e)
      | Inr _ \<Rightarrow> Inr (case replay_checkpoint X l F c d rs full_state of None \<Rightarrow> [] | Some rej \<Rightarrow> [rej]))))"

definition fold_records :: "ext \<Rightarrow> kernel_lineage \<Rightarrow> canonical_head \<Rightarrow> canonical_record list \<Rightarrow> record_digest option
    \<Rightarrow> 's lineage_fold \<Rightarrow> projection_disposition \<Rightarrow> (kernel_error + 's fold_outcome) io" where
  "fold_records X l head rs checkpoint F disposition =
    lift_res (validate_transitions X F rs) (\<lambda>_.
    lift_res (fold_full X l F rs) (\<lambda>(state, canonical_state).
    io_try (case checkpoint of
        None \<Rightarrow> Ret (Inr [])
      | Some d \<Rightarrow> check_checkpoint X l d head rs canonical_state F) (\<lambda>rejections.
      Ret (Inr \<lparr>fo_state = state, fo_canonical_state = canonical_state,
        fo_records = map (\<lambda>r. record_reference r (ok_opt (canonical_record_digest X r))) rs,
        fo_rejections = rejections, fo_projection = disposition\<rparr>))))"

definition fold_lineage :: "ext \<Rightarrow> kernel_lineage \<Rightarrow> record_digest option \<Rightarrow> 's lineage_fold
    \<Rightarrow> (kernel_error + 's fold_outcome) io" where
  "fold_lineage X l checkpoint F = io_try (load_head X l) (\<lambda>loaded.
    io_try (load_history X l (lh_head loaded)) (\<lambda>rs.
      fold_records X l (lh_head loaded) rs checkpoint F ProjAbsent))"

definition fold_at_generation :: "ext \<Rightarrow> kernel_lineage \<Rightarrow> u64 \<Rightarrow> 's lineage_fold
    \<Rightarrow> (kernel_error + 's fold_outcome) io" where
  "fold_at_generation X l generation F = io_try (load_head X l) (\<lambda>loaded.
    let head = lh_head loaded; incomplete = StateHistoryIncomplete (head_reference head) in
    if generation > hd_generation head then Ret (Inl incomplete)
    else io_try (load_history X l head) (\<lambda>rs.
      lift_res (ok_or (checked_add generation 1) incomplete) (\<lambda>prefix_len.
        let prefix_rs = take (unat prefix_len) rs in
        if prefix_rs = [] then Ret (Inl incomplete)
        else lift_res (canonical_record_digest X (last prefix_rs)) (\<lambda>d.
          fold_records X l \<lparr>hd_lineage = l, hd_generation = generation,
              hd_incarnation = hd_incarnation head, hd_record_digest = d,
              hd_prior = rec_prior (last prefix_rs)\<rparr> prefix_rs None F ProjAbsent))))"

section \<open>Projections\<close>

record projection_source =
  ps_lineage :: string
  ps_generation :: u64
  ps_digest :: record_digest

record projected_record =
  pr_digest :: record_digest
  pr_bytes :: bytes

record fold_projection =
  fp_source :: projection_source
  fp_records :: "projected_record list"

definition source_from_head :: "canonical_head \<Rightarrow> projection_source" where
  "source_from_head h = \<lparr>ps_lineage = lin_value (hd_lineage h), ps_generation = hd_generation h,
    ps_digest = hd_record_digest h\<rparr>"

definition source_matches :: "projection_source \<Rightarrow> canonical_head \<Rightarrow> bool" where
  "source_matches s h \<longleftrightarrow> ps_lineage s = lin_value (hd_lineage h) \<and> ps_generation s = hd_generation h
    \<and> ps_digest s = hd_record_digest h"

definition projection_from_authoritative :: "ext \<Rightarrow> canonical_head \<Rightarrow> canonical_record list \<Rightarrow> kernel_error + fold_projection" where
  "projection_from_authoritative X head rs =
    try_res (collect_res (\<lambda>r. try_res (record_bytes X r)
        (\<lambda>b. Inr \<lparr>pr_digest = digest_of X b, pr_bytes = b\<rparr>)) rs) (\<lambda>prs.
      Inr \<lparr>fp_source = source_from_head head, fp_records = prs\<rparr>)"

text \<open>The index from digests to copied records; a repeated digest is refused.\<close>

fun index_projected :: "kernel_lineage \<Rightarrow> projected_record list \<Rightarrow> (record_digest \<rightharpoonup> projected_record)
    \<Rightarrow> kernel_error + (record_digest \<rightharpoonup> projected_record)" where
  "index_projected l [] m = Inr m"
| "index_projected l (p # ps) m =
    (if m (pr_digest p) \<noteq> None then Inl (StateHistoryIncomplete (for_digest l (pr_digest p)))
     else index_projected l ps (m(pr_digest p \<mapsto> p)))"

text \<open>The backward walk through the index; each step lowers the expected generation.\<close>

function projected_walk :: "ext \<Rightarrow> kernel_lineage \<Rightarrow> (record_digest \<rightharpoonup> projected_record) \<Rightarrow> record_digest set
    \<Rightarrow> u64 \<Rightarrow> record_digest \<Rightarrow> canonical_record list
    \<Rightarrow> kernel_error + canonical_record list \<times> record_digest set" where
  "projected_walk X l m seen g d acc =
    (if d \<in> seen then Inl (StateHistoryIncomplete (for_digest l d))
     else case m d of
       None \<Rightarrow> Inl (StateHistoryIncomplete (for_digest l d))
     | Some p \<Rightarrow> (case record_from_bytes X l d (pr_bytes p) of
         Inl e \<Rightarrow> Inl e
       | Inr r \<Rightarrow> (case canonical_record_digest X r of
           Inl e \<Rightarrow> Inl e
         | Inr rd \<Rightarrow>
             if rd \<noteq> d \<or> rec_sequence r \<noteq> g then Inl (StateHistoryIncomplete (record_reference r (Some d)))
             else (case walk_step r g rd of
                 WalkDone \<Rightarrow> Inr (r # acc, insert d seen)
               | WalkOn d' \<Rightarrow> projected_walk X l m (insert d seen) (g - 1) d' (r # acc)
               | WalkFail e \<Rightarrow> Inl e))))"
  by pat_completeness auto

lemma walk_step_On:
  "walk_step r g d = WalkOn d' \<longleftrightarrow> g > 0 \<and> rec_prior r = Some \<lparr>pos_generation = g - 1, pos_digest = d'\<rparr>"
  by (auto simp: walk_step_def split: option.splits if_splits)

lemma walk_step_Done: "walk_step r g d = WalkDone \<longleftrightarrow> g = 0 \<and> rec_prior r = None"
  by (auto simp: walk_step_def split: option.splits if_splits)

termination projected_walk
  by (relation "measure (\<lambda>(X, l, m, seen, g, d, acc). unat g)") (auto simp: walk_step_On unat_pred word_less_nat_alt)

declare projected_walk.simps [simp del]

text \<open>The final pass over the reversed walk and the copied records side by side.\<close>

fun check_positions :: "ext \<Rightarrow> kernel_lineage \<Rightarrow> nat \<Rightarrow> (canonical_record \<times> projected_record) list \<Rightarrow> kernel_error + unit" where
  "check_positions X l i [] = Inr ()"
| "check_positions X l i ((r, p) # rest) =
    (if \<not> i < 2 ^ 64 then Inl (StateHistoryIncomplete (for_lineage l))
     else if rec_sequence r \<noteq> word_of_nat i then Inl (StateHistoryIncomplete (for_digest l (pr_digest p)))
     else try_res (canonical_record_digest X r) (\<lambda>d.
       if d \<noteq> pr_digest p then Inl (StateHistoryIncomplete (for_digest l (pr_digest p)))
       else check_positions X l (Suc i) rest))"

definition records_for_source :: "ext \<Rightarrow> fold_projection \<Rightarrow> kernel_lineage \<Rightarrow> kernel_error + canonical_record list" where
  "records_for_source X P l =
    (let src = fp_source P; incomplete = StateHistoryIncomplete (for_lineage l) in
     if ps_lineage src \<noteq> lin_value l then Inl incomplete
     else try_res (ok_or (checked_add (ps_generation src) 1) incomplete) (\<lambda>expected_count.
       try_res (index_projected l (fp_records P) Map.empty) (\<lambda>m.
       if length (fp_records P) \<noteq> unat expected_count then Inl incomplete
       else try_res (projected_walk X l m {} (ps_generation src) (ps_digest src) []) (\<lambda>(rs, seen).
         if card seen \<noteq> length (fp_records P) then Inl incomplete
         else try_res (check_positions X l 0 (zip rs (fp_records P))) (\<lambda>_. Inr rs)))))"

definition projection_to_wire :: "ext \<Rightarrow> fold_projection \<Rightarrow> projection_wire" where
  "projection_to_wire X P =
    \<lparr>pjw_envelope = projection_envelope,
     pjw_records = map (\<lambda>r. \<lparr>prw_bytes_hex = hex_encode X (pr_bytes r), prw_digest = as_str (pr_digest r)\<rparr>) (fp_records P),
     pjw_source_digest = as_str (ps_digest (fp_source P)),
     pjw_source_generation = ps_generation (fp_source P),
     pjw_source_lineage = ps_lineage (fp_source P)\<rparr>"

definition projection_bytes :: "ext \<Rightarrow> fold_projection \<Rightarrow> kernel_error + bytes" where
  "projection_bytes X P =
    try_res (map_err (kernel_lineage_new (ps_lineage (fp_source P)) SuccessorCapable)
        (\<lambda>_. StateRecordMalformed invalid_reference)) (\<lambda>l.
    try_res (records_for_source X P l) (\<lambda>_.
      ok_or (cenc (projection_json X) (projection_to_wire X P)) (StateRecordMalformed (for_lineage l))))"

definition projected_of_wire :: "ext \<Rightarrow> kernel_lineage \<Rightarrow> safe_reference \<Rightarrow> projected_record_wire
    \<Rightarrow> kernel_error + projected_record" where
  "projected_of_wire X l reference w =
    try_res (ok_or (digest_parse (prw_digest w)) (StateRecordMalformed reference)) (\<lambda>d.
    try_res (ok_or (hex_decode X (prw_bytes_hex w)) (StateRecordMalformed (for_digest l d))) (\<lambda>b.
      Inr \<lparr>pr_digest = d, pr_bytes = b\<rparr>))"

definition projection_from_bytes :: "ext \<Rightarrow> bytes \<Rightarrow> kernel_error + fold_projection" where
  "projection_from_bytes X b =
    (let invalid = StateRecordMalformed invalid_reference in
     try_res (ok_or (cdec (projection_json X) b) invalid) (\<lambda>w.
     if pjw_envelope w \<noteq> projection_envelope then Inl invalid
     else try_res (map_err (kernel_lineage_new (pjw_source_lineage w) SuccessorCapable) (\<lambda>_. invalid)) (\<lambda>l.
       try_res (ok_or (digest_parse (pjw_source_digest w)) (StateRecordMalformed (for_lineage l))) (\<lambda>sd.
       try_res (collect_res (projected_of_wire X l (for_digest l sd)) (pjw_records w)) (\<lambda>prs.
         let P = \<lparr>fp_source = \<lparr>ps_lineage = lin_value l, ps_generation = pjw_source_generation w, ps_digest = sd\<rparr>,
                  fp_records = prs\<rparr> in
         try_res (projection_bytes X P) (\<lambda>canonical.
           if canonical \<noteq> b then Inl (StateRecordMalformed (for_digest l sd))
           else try_res (records_for_source X P l) (\<lambda>_. Inr P)))))))"

definition load_projected_history :: "ext \<Rightarrow> kernel_lineage \<Rightarrow> fold_projection \<Rightarrow> canonical_head
    \<Rightarrow> kernel_error + canonical_record list" where
  "load_projected_history X l P head =
    (if \<not> source_matches (fp_source P) head then Inl (StateHistoryIncomplete (for_lineage l))
     else try_res (records_for_source X P l) (\<lambda>rs.
       if rs = [] then Inl (StateHistoryIncomplete (for_lineage l))
       else if hd_prior head \<noteq> rec_prior (last rs)
         then Inl (StateHistoryIncomplete (record_reference (last rs) (Some (hd_record_digest head))))
       else Inr rs))"

definition rebuild_projection :: "ext \<Rightarrow> kernel_lineage \<Rightarrow> (kernel_error + fold_projection) io" where
  "rebuild_projection X l = io_try (load_head X l) (\<lambda>loaded.
    io_try (load_history X l (lh_head loaded)) (\<lambda>rs.
      Ret (projection_from_authoritative X (lh_head loaded) rs)))"

definition fold_with_projection :: "ext \<Rightarrow> kernel_lineage \<Rightarrow> fold_projection option \<Rightarrow> 's lineage_fold
    \<Rightarrow> (kernel_error + 's fold_outcome) io" where
  "fold_with_projection X l projection F = io_try (load_head X l) (\<lambda>loaded.
    let head = lh_head loaded;
        reread = (\<lambda>disposition. io_try (load_history X l head) (\<lambda>rs. Ret (Inr (rs, disposition)))) in
    io_try (case projection of
        Some P \<Rightarrow> (case load_projected_history X l P head of
            Inr rs \<Rightarrow> Ret (Inr (rs, ProjUsed))
          | Inl _ \<Rightarrow> reread ProjDiscarded)
      | None \<Rightarrow> reread ProjAbsent) (\<lambda>(rs, disposition).
      fold_records X l head rs None F disposition))"

section \<open>The diagnostic folder\<close>

definition diagnostic_fold :: "ext \<Rightarrow> string list lineage_fold" where
  "diagnostic_fold X =
    \<lparr>fold_validate = (\<lambda>r. rec_transition_type r = ''diagnostic'' \<and> rec_transition_schema r = ''diagnostic.v1''
        \<and> utf8_valid (rec_payload r)),
     fold_initial = [],
     fold_apply = (\<lambda>s r. if utf8_valid (rec_payload r) then Some (s @ [bytes_string (rec_payload r)]) else None),
     fold_canonical = (\<lambda>s. cenc (strings_json X) s),
     fold_restore = (\<lambda>schema b. if schema = ''diagnostic.v1'' then cdec (strings_json X) b else None)\<rparr>"

end
