(* ===== verification/Kernel_Safety.thy ===== *)
theory Kernel_Safety
  imports Kernel_Fold
begin

text \<open>
  What the handlers of the state kernel can do to the store, whatever the environment does:
  the requests they issue (\<open>kernel_req\<close>), and what follows for every interleaving of any
  number of clients with refused, lost and resent requests.
\<close>

section \<open>Key layout\<close>

text \<open>The last segment of a key tells the kinds of kernel objects apart, whatever the lineages.\<close>

definition last_segment :: "key \<Rightarrow> string" where
  "last_segment k = rev (takeWhile (\<lambda>c. c \<noteq> CHR ''/'') (rev k))"

lemma last_segment_append: "CHR ''/'' \<notin> set t \<Longrightarrow> last_segment (s @ CHR ''/'' # t) = t"
proof -
  assume t: "CHR ''/'' \<notin> set t"
  have "takeWhile (\<lambda>c. c \<noteq> CHR ''/'') (rev t @ CHR ''/'' # rev s) = rev t"
    using t by (subst takeWhile_append2) auto
  then show ?thesis by (simp add: last_segment_def)
qed

lemma digest_no_slash: "digest_wf d \<Longrightarrow> CHR ''/'' \<notin> set (as_str d)"
  by (auto simp: digest_wf_def list_all_iff ascii_lower_hex_def ascii_digit_def less_eq_char_def)

lemma last_segment_fixed [simp]:
  "last_segment (head_key l) = ''head''"
  "last_segment (tombstone_key l) = ''tombstone''"
  "last_segment (incarnation_key l) = ''incarnation''"
  by (simp_all add: head_key_def tombstone_key_def incarnation_key_def last_segment_append)

lemma last_segment_object [simp]: "digest_wf d \<Longrightarrow> last_segment (object_key l d) = as_str d"
  using last_segment_append [of "as_str d" "lin_value l @ ''/objects''"] digest_no_slash
  by (simp add: object_key_def)

lemma last_segment_checkpoint [simp]: "digest_wf d \<Longrightarrow> last_segment (checkpoint_key l d) = as_str d"
  using last_segment_append [of "as_str d" "lin_value l @ ''/checkpoints''"] digest_no_slash
  by (simp add: checkpoint_key_def)

lemma fixed_keys_differ:
  "head_key l \<noteq> tombstone_key l'" "head_key l \<noteq> incarnation_key l'" "tombstone_key l \<noteq> incarnation_key l'"
  by (auto dest: arg_cong [where f = last_segment])

lemma digest_not_fixed: "digest_wf d \<Longrightarrow> as_str d \<noteq> ''head'' \<and> as_str d \<noteq> ''tombstone'' \<and> as_str d \<noteq> ''incarnation''"
  by (auto simp: digest_wf_def)

lemma object_keys_differ:
  assumes "digest_wf d"
  shows "object_key l d \<noteq> head_key l'" "object_key l d \<noteq> tombstone_key l'" "object_key l d \<noteq> incarnation_key l'"
    "checkpoint_key l d \<noteq> head_key l'" "checkpoint_key l d \<noteq> tombstone_key l'" "checkpoint_key l d \<noteq> incarnation_key l'"
  using digest_not_fixed [OF assms] last_segment_object [OF assms] last_segment_checkpoint [OF assms]
    last_segment_fixed [of l'] by metis+

lemma object_key_inj:
  assumes "digest_wf d" "digest_wf d'" "object_key l d = object_key l' d'"
  shows "d = d'" "lin_value l = lin_value l'"
proof -
  have "as_str d = as_str d'" using assms by (metis last_segment_object)
  then show "d = d'" by (rule record_digest.expand)
  then show "lin_value l = lin_value l'" using assms(3) by (simp add: object_key_def)
qed

lemma object_not_checkpoint:
  assumes "digest_wf d" "digest_wf d'"
  shows "object_key l d \<noteq> checkpoint_key l' d'"
proof
  assume eq: "object_key l d = checkpoint_key l' d'"
  then have "as_str d = as_str d'" using assms by (metis last_segment_object last_segment_checkpoint)
  then have "lin_value l @ ''/objects/'' = lin_value l' @ ''/checkpoints/''"
    using eq by (simp add: object_key_def checkpoint_key_def)
  then have "rev (lin_value l @ ''/objects/'') = rev (lin_value l' @ ''/checkpoints/'')" by simp
  then show False by simp
qed

lemmas keys_differ = fixed_keys_differ fixed_keys_differ [symmetric] object_keys_differ
  object_keys_differ [symmetric] object_not_checkpoint object_not_checkpoint [symmetric]

section \<open>The requests of a lineage\<close>

definition write_once_req :: "ext \<Rightarrow> kernel_lineage \<Rightarrow> req \<Rightarrow> bool" where
  "write_once_req X l q \<longleftrightarrow>
    (\<exists>b. q = UploadConditional (object_key l (digest_of X b)) b None) \<or>
    (\<exists>b. q = UploadConditional (checkpoint_key l (digest_of X b)) b None) \<or>
    (\<exists>b. q = UploadConditional (tombstone_key l) b None)"

definition counter_req :: "backend \<Rightarrow> kernel_lineage \<Rightarrow> req \<Rightarrow> bool" where
  "counter_req B l q \<longleftrightarrow>
    q = UploadConditional (incarnation_key l) (to_be_bytes 1) None \<or>
    (\<exists>n. n \<noteq> - 1 \<and> q = UploadConditional (incarnation_key l) (to_be_bytes (n + 1)) (Some (tag_of B (to_be_bytes n))))"

text \<open>Everything but the writing of a head.\<close>

definition quiet_req :: "ext \<Rightarrow> backend \<Rightarrow> kernel_lineage \<Rightarrow> req \<Rightarrow> bool" where
  "quiet_req X B l q \<longleftrightarrow> is_read q \<or> write_once_req X l q \<or> counter_req B l q \<or>
    (\<exists>e. q = DeleteConditional (head_key l) e)"

definition head_req :: "ext \<Rightarrow> kernel_lineage \<Rightarrow> req \<Rightarrow> bool" where
  "head_req X l q \<longleftrightarrow>
    (\<exists>h b e. q = UploadConditional (head_key l) b e \<and> head_bytes X h = Inr b \<and> hd_lineage h = l)"

definition kernel_req :: "ext \<Rightarrow> backend \<Rightarrow> kernel_lineage \<Rightarrow> req \<Rightarrow> bool" where
  "kernel_req X B l q \<longleftrightarrow> quiet_req X B l q \<or> head_req X l q"

lemma quiet_kernel: "quiet_req X B l q \<Longrightarrow> kernel_req X B l q"
  by (simp add: kernel_req_def)

lemma read_quiet: "is_read q \<Longrightarrow> quiet_req X B l q"
  by (simp add: quiet_req_def)

lemma read_req: "is_read q \<Longrightarrow> kernel_req X B l q"
  by (simp add: kernel_req_def quiet_req_def)

lemma read_reqs [simp]:
  "quiet_req X B l (Download k)" "quiet_req X B l (DownloadWithEtag k)" "quiet_req X B l UnixMillis"
  by (simp_all add: quiet_req_def)

lemma io_post_all: "io_all B P m \<Longrightarrow> (\<And>x. Q x) \<Longrightarrow> io_post (reply_ok B) P Q m"
  unfolding io_all_def by (erule io_post_mono) auto

lemma io_all_mono: "io_all B P m \<Longrightarrow> (\<And>q. P q \<Longrightarrow> P' q) \<Longrightarrow> io_all B P' m"
  unfolding io_all_def by (erule io_post_mono) auto

lemma reads_quiet: "io_all B is_read m \<Longrightarrow> io_all B (quiet_req X B l) m"
  by (erule io_all_mono) (rule read_quiet)

lemma reads_req: "io_all B is_read m \<Longrightarrow> io_all B (kernel_req X B l) m"
  by (erule io_all_mono) (rule read_req)

lemma quiet_all_req: "io_all B (quiet_req X B l) m \<Longrightarrow> io_all B (kernel_req X B l) m"
  by (erule io_all_mono) (rule quiet_kernel)

lemma load_head_reads: "io_all B is_read (load_head X l)"
  unfolding io_all_def load_head_def
  by (auto intro!: post_intros split: sum.split)

lemma load_record_reads: "io_all B is_read (load_record X l d)"
  unfolding io_all_def load_record_def
  by (auto intro!: post_intros split: sum.split)

lemma load_checkpoint_reads: "io_all B is_read (load_checkpoint X l d)"
  unfolding io_all_def load_checkpoint_def
  by (auto intro!: post_intros split: sum.split)

lemma current_incarnation_reads: "io_all B is_read (current_incarnation l)"
  unfolding io_all_def current_incarnation_def
  by (auto intro!: post_intros split: sum.split)

lemmas reads_kernel = load_head_reads [THEN reads_req]
  load_record_reads [THEN reads_req]
  load_checkpoint_reads [THEN reads_req]
  current_incarnation_reads [THEN reads_req]

lemmas read_posts = io_post_all [OF load_head_reads] io_post_all [OF load_record_reads]
  io_post_all [OF load_checkpoint_reads] io_post_all [OF current_incarnation_reads]

lemmas quiet_posts = load_head_reads [THEN reads_quiet, THEN io_post_all]
  load_record_reads [THEN reads_quiet, THEN io_post_all]
  load_checkpoint_reads [THEN reads_quiet, THEN io_post_all]
  current_incarnation_reads [THEN reads_quiet, THEN io_post_all]

lemmas kernel_posts = reads_kernel [THEN io_post_all]

lemma read_head_reads: "io_all B is_read (read_head X l)"
  unfolding io_all_def read_head_def
  by (auto intro!: post_intros read_posts split: sum.split)

lemma read_terminal_record_reads: "io_all B is_read (read_terminal_record X l)"
  unfolding io_all_def read_terminal_record_def
  by (auto intro!: post_intros read_posts split: sum.split)

lemma load_tombstone_reads: "io_all B is_read (load_tombstone X l)"
  unfolding io_all_def load_tombstone_def
  by (auto intro!: post_intros split: sum.split)

lemma read_head_state_reads: "io_all B is_read (read_head_state X l)"
  unfolding io_all_def read_head_state_def
  by (auto intro!: post_intros read_posts io_post_all [OF load_tombstone_reads]
      split: sum.split kernel_error.split option.split)

lemma fail_conflict_reads: "io_all B is_read (fail_conflict X l)"
  unfolding io_all_def fail_conflict_def head_conflict_def
  by (auto intro!: post_intros read_posts)

lemma load_history_loop_reads: "io_all B is_read (load_history_loop X l head fuel seen g d acc)"
  unfolding io_all_def
proof (induction fuel arbitrary: seen g d acc)
  case (Suc fuel)
  show ?case
    by (auto intro!: post_intros read_posts Suc.IH split: sum.split walk.split)
qed simp

lemma load_history_reads: "io_all B is_read (load_history X l head)"
  unfolding load_history_def by (rule load_history_loop_reads)

lemma check_checkpoint_reads: "io_all B is_read (check_checkpoint X l d head rs full F)"
  unfolding io_all_def check_checkpoint_def
  by (auto intro!: post_intros read_posts)

lemma fold_records_reads: "io_all B is_read (fold_records X l head rs c F disp)"
  unfolding io_all_def fold_records_def
  by (auto intro!: post_intros io_post_all [OF check_checkpoint_reads] split: sum.split option.split)

lemma fold_reads:
  "io_all B is_read (fold_lineage X l c F)"
  "io_all B is_read (fold_at_generation X l g F)"
  "io_all B is_read (fold_with_projection X l P F)"
  "io_all B is_read (rebuild_projection X l)"
  unfolding io_all_def fold_lineage_def fold_at_generation_def fold_with_projection_def rebuild_projection_def Let_def
  by (auto intro!: post_intros read_posts io_post_all [OF load_history_reads] io_post_all [OF fold_records_reads]
      split: sum.split option.split)

section \<open>Writing handlers\<close>

lemma quiet_req_object [simp]: "quiet_req X B l (UploadConditional (object_key l (digest_of X b)) b None)"
  by (auto simp: quiet_req_def write_once_req_def)

lemma quiet_req_checkpoint [simp]: "quiet_req X B l (UploadConditional (checkpoint_key l (digest_of X b)) b None)"
  by (auto simp: quiet_req_def write_once_req_def)

lemma quiet_req_tombstone [simp]: "quiet_req X B l (UploadConditional (tombstone_key l) b None)"
  by (auto simp: quiet_req_def write_once_req_def)

lemma quiet_req_counter_create [simp]: "quiet_req X B l (UploadConditional (incarnation_key l) (to_be_bytes 1) None)"
  by (auto simp: quiet_req_def counter_req_def)

lemma quiet_req_head_delete [simp]: "quiet_req X B l (DeleteConditional (head_key l) e)"
  by (auto simp: quiet_req_def)

lemma kernel_req_head_put [intro]:
  "head_bytes X h = Inr b \<Longrightarrow> hd_lineage h = l \<Longrightarrow> kernel_req X B l (UploadConditional (head_key l) b e)"
  by (auto simp: kernel_req_def head_req_def)

lemma kernel_req_head_delete [simp]: "kernel_req X B l (DeleteConditional (head_key l) e)"
  by (rule quiet_kernel) simp

lemma quiet_req_counter_update:
  assumes "from_be_bytes data = Some n" "checked_add n 1 = Some n'"
  shows "quiet_req X B l (UploadConditional (incarnation_key l) (to_be_bytes n') (Some (tag_of B data)))"
proof -
  have "data = to_be_bytes n" "n \<noteq> - 1" "n' = n + 1"
    using assms to_from_be_bytes by (auto simp: checked_add_1 split: if_splits)
  then show ?thesis by (auto simp: quiet_req_def counter_req_def)
qed

lemma bump_loop_quiet: "io_all B (quiet_req X B l) (bump_loop l n)"
  unfolding io_all_def
proof (induction n)
  case (Suc n)
  show ?case
    by (auto intro!: post_intros Suc.IH quiet_req_counter_update split: sum.split)
qed simp

lemma bump_incarnation_quiet: "io_all B (quiet_req X B l) (bump_incarnation l)"
  by (simp add: bump_incarnation_def bump_loop_quiet)

lemmas fail_conflict_quiet = fail_conflict_reads [THEN reads_quiet]

lemma ensure_open_era_reads: "io_all B is_read (ensure_open_era X l h)"
  unfolding io_all_def ensure_open_era_def
  by (auto intro!: post_intros read_posts io_post_all [OF fail_conflict_reads] split: sum.split)

lemma check_expected_reads: "io_all B is_read (check_expected X l e)"
  unfolding io_all_def check_expected_def
  by (auto intro!: post_intros read_posts split: sum.split)

lemmas gate_quiet = ensure_open_era_reads [THEN reads_quiet]
  check_expected_reads [THEN reads_quiet]

lemma retire_quiet: "io_all B (quiet_req X B l) (retire_closed_era_publication X l p)"
  unfolding io_all_def retire_closed_era_publication_def
  by (auto intro!: post_intros quiet_posts io_post_all [OF fail_conflict_quiet] split: sum.split)

lemma publish_immutable_quiet:
  "quiet_req X B l (UploadConditional k b None) \<Longrightarrow> io_all B (quiet_req X B l) (publish_immutable X k b ref)"
  unfolding io_all_def publish_immutable_def
  by (auto intro!: post_intros split: sum.split)

lemma publish_record_quiet: "io_all B (quiet_req X B l) (publish_record X l r)"
  unfolding io_all_def publish_record_def Let_def
  by (auto intro!: post_intros io_post_all [OF publish_immutable_quiet] split: sum.split)

lemma publish_checkpoint_quiet: "io_all B (quiet_req X B l) (publish_checkpoint X l c)"
  unfolding io_all_def publish_checkpoint_def Let_def
  by (auto intro!: post_intros io_post_all [OF publish_immutable_quiet] split: sum.split)

lemma publish_records_quiet: "io_all B (quiet_req X B l) (publish_records X l rs)"
  unfolding io_all_def
  by (induction rs) (auto intro!: post_intros io_post_all [OF publish_record_quiet] split: sum.split)

lemma destroy_quiet: "io_all B (quiet_req X B l) (destroy X l cause actor)"
  unfolding io_all_def destroy_def Let_def
  by (auto intro!: post_intros quiet_posts io_post_all [OF fail_conflict_quiet] io_post_all [OF bump_incarnation_quiet]
      split: sum.split kernel_error.split)

lemmas quiet_handlers = bump_incarnation_quiet fail_conflict_quiet gate_quiet retire_quiet publish_record_quiet
  publish_checkpoint_quiet publish_records_quiet destroy_quiet

lemmas handler_reqs = quiet_handlers [THEN quiet_all_req]

lemmas handler_posts = handler_reqs [THEN io_post_all]

lemma create_head_loop_req: "io_all B (kernel_req X B l) (create_head_loop X l g d prior n)"
  unfolding io_all_def
proof (induction n)
  case (Suc n)
  show ?case
    unfolding create_head_loop.simps Let_def
    by (intro post_intros kernel_posts)
      (auto intro!: post_intros kernel_posts handler_posts Suc.IH
        intro: kernel_req_head_put split: sum.split)
qed simp

lemma create_head_req: "io_all B (kernel_req X B l) (create_head X l g d prior)"
  by (simp add: create_head_def create_head_loop_req)

lemma replace_head_req: "hd_lineage h = l \<Longrightarrow> io_all B (kernel_req X B l) (replace_head X l h e)"
  unfolding io_all_def replace_head_def
  by (auto intro!: post_intros handler_posts split: sum.split)

lemma advance_head_req: "hd_lineage h = l \<Longrightarrow> io_all B (kernel_req X B l) (advance_head X l h e)"
  unfolding io_all_def advance_head_def
  by (auto intro!: post_intros handler_posts io_post_all [OF replace_head_req] split: sum.split)

lemma append_genesis_req: "io_all B (kernel_req X B l) (append_genesis X l r)"
  unfolding io_all_def append_genesis_def
  by (auto intro!: post_intros handler_posts io_post_all [OF create_head_req] split: sum.split)

lemma append_genesis_batch_req: "io_all B (kernel_req X B l) (append_genesis_batch X l rs)"
  unfolding io_all_def append_genesis_batch_def
  by (auto intro!: post_intros handler_posts io_post_all [OF create_head_req] split: sum.split)

lemma append_successor_req: "io_all B (kernel_req X B l) (append_successor X l r e)"
  unfolding io_all_def append_successor_def Let_def
  by (auto intro!: post_intros handler_posts
      io_post_all [OF advance_head_req] split: sum.split)

lemma append_successor_batch_req: "io_all B (kernel_req X B l) (append_successor_batch X l rs e)"
  unfolding io_all_def append_successor_batch_def Let_def
  by (auto intro!: post_intros handler_posts
      io_post_all [OF advance_head_req] split: sum.split)

end
