(* ===== verification/S3_Rely.thy ===== *)
theory S3_Rely
  imports S3_Io
begin

text \<open>
  Rely-guarantee reasoning about request trees.  \<open>rg R B A Q m s\<close>: started in \<open>s\<close>, with the
  store changing by \<open>R\<close> before every request of \<open>m\<close>, each request is issued in a store that
  satisfies the assertion \<open>A\<close> about it, and a returned value satisfies \<open>Q\<close> in the store at
  that moment.  \<open>env_run\<close> is the corresponding execution with its history, for properties
  that relate several requests of one call.
\<close>

section \<open>Assertions at requests\<close>

primrec rg :: "(store \<Rightarrow> store \<Rightarrow> bool) \<Rightarrow> backend \<Rightarrow> (req \<Rightarrow> store \<Rightarrow> bool) \<Rightarrow> ('a \<Rightarrow> store \<Rightarrow> bool)
    \<Rightarrow> 'a io \<Rightarrow> store \<Rightarrow> bool" where
  "rg R B A Q (Ret a) = (\<lambda>s. Q a s)"
| "rg R B A Q Stuck = (\<lambda>s. True)"
| "rg R B A Q (Req q k) = (\<lambda>s. \<forall>s1. R s s1 \<longrightarrow> A q s1 \<and> (\<forall>r s2. answer B q s1 r s2 \<longrightarrow> rg R B A Q (k r) s2))"

named_theorems rg_intros \<open>rules for rg\<close>

lemma rg_bind [rg_intros]:
  "rg R B A (\<lambda>a. rg R B A Q (f a)) m s \<Longrightarrow> rg R B A Q (io_bind m f) s"
  by (induction m arbitrary: s) auto

lemma rg_mono:
  "rg R B A Q m s \<Longrightarrow> (\<And>a s. Q a s \<Longrightarrow> Q' a s) \<Longrightarrow> rg R B A Q' m s"
  by (induction m arbitrary: s) auto

lemma rg_stable:
  assumes "\<And>a b c. R a b \<Longrightarrow> R b c \<Longrightarrow> R a c" "\<And>a s s'. Q a s \<Longrightarrow> R s s' \<Longrightarrow> Q a s'"
    "rg R B A Q m s" "R s s'"
  shows "rg R B A Q m s'"
  using assms(3,4) by (cases m) (auto intro: assms(1,2))

lemma rg_try [rg_intros]:
  "rg R B A (\<lambda>r s. case r of Inl e \<Rightarrow> Q (Inl e) s | Inr a \<Rightarrow> rg R B A Q (f a) s) m s
    \<Longrightarrow> rg R B A Q (io_try m f) s"
  unfolding io_try_def
  by (rule rg_bind, erule rg_mono) (auto split: sum.split sum.split_asm)

lemma rg_lift_res [rg_intros]:
  "(\<And>e. r = Inl e \<Longrightarrow> Q (Inl e) s) \<Longrightarrow> (\<And>a. r = Inr a \<Longrightarrow> rg R B A Q (f a) s) \<Longrightarrow> rg R B A Q (lift_res r f) s"
  by (cases r) auto

text \<open>The whole pool: every client keeps its assertions while the others run, and the invariant
  holds in every reachable store.\<close>

locale rely_guarantee =
  fixes B :: backend and R :: "store \<Rightarrow> store \<Rightarrow> bool" and A :: "req \<Rightarrow> store \<Rightarrow> bool" and I :: "store \<Rightarrow> bool"
  assumes R_trans: "R a b \<Longrightarrow> R b c \<Longrightarrow> R a c"
    and R_refl: "I s \<Longrightarrow> R s s"
    and R_inv: "R s s' \<Longrightarrow> I s'"
    and guarantee: "I s \<Longrightarrow> A q s \<Longrightarrow> answer B q s r s' \<Longrightarrow> R s s'"
begin

definition client_ok :: "'a io \<Rightarrow> store \<Rightarrow> bool" where
  "client_ok m s \<longleftrightarrow> rg R B A (\<lambda>_ _. True) m s"

lemma client_ok_rely: "client_ok m s \<Longrightarrow> R s s' \<Longrightarrow> client_ok m s'"
  unfolding client_ok_def using R_trans by (blast intro: rg_stable)

lemma client_ok_rg: "rg R B A Q m s \<Longrightarrow> client_ok m s"
  unfolding client_ok_def by (erule rg_mono) simp

lemma pool_step_rg:
  assumes "pool_step B (s, ps) (s', ps')" "I s" "\<forall>p\<in>set ps. client_ok p s"
  shows "R s s' \<and> (\<forall>p\<in>set ps'. client_ok p s')"
  using assms(1)
proof cases
  case (advance i q k r)
  have "client_ok (Req q k) s" using advance assms(3) by (metis nth_mem)
  then have req: "A q s" "client_ok (k r) s'"
    using R_refl [OF assms(2)] advance by (auto simp: client_ok_def)
  have "R s s'" using guarantee assms(2) req(1) advance(4) by blast
  moreover have "set ps' \<subseteq> insert (k r) (set ps)"
    using advance(1) by (simp add: set_update_subset_insert)
  ultimately show ?thesis using req(2) assms(3) client_ok_rely by blast
next
  case (resent i q k r)
  have "client_ok (Req q k) s" using resent assms(3) by (metis nth_mem)
  then have "A q s" using R_refl [OF assms(2)] by (auto simp: client_ok_def)
  then have "R s s'" using guarantee assms(2) resent(4) by blast
  then show ?thesis using assms(3) client_ok_rely resent(1) by blast
qed

lemma pool_reach_rg:
  assumes "pool_reach B (s, ps) (s', ps')" "I s" "\<forall>p\<in>set ps. client_ok p s"
  shows "R s s' \<and> (\<forall>p\<in>set ps'. client_ok p s')"
proof -
  have "R s (fst c') \<and> (\<forall>p\<in>set (snd c'). client_ok p (fst c'))" if "(pool_step B)\<^sup>*\<^sup>* (s, ps) c'" for c'
    using that
  proof (induction rule: rtranclp_induct)
    case base
    then show ?case using assms R_refl by simp
  next
    case (step c c')
    obtain t qs t' qs' where c: "c = (t, qs)" "c' = (t', qs')" by (cases c, cases c')
    have "R s t" using step.IH c by simp
    then have "I t" by (rule R_inv)
    then show ?case using pool_step_rg [of t qs t' qs'] step c R_trans by simp blast
  qed
  from this [of "(s', ps')"] show ?thesis using assms(1) by (simp add: pool_reach_def)
qed

text \<open>Rules for the calls of a client: what a reply says about the store at that moment.\<close>

lemma cl_answer: "R s s1 \<Longrightarrow> A q s1 \<Longrightarrow> answer B q s1 r s2 \<Longrightarrow> R s s2 \<and> I s2"
  using R_inv guarantee R_trans by meson

lemma cl_post:
  assumes "I s" "io_post (reply_ok B) P Q' m" "\<And>q s1. R s s1 \<Longrightarrow> P q \<Longrightarrow> A q s1"
    "\<And>a s1. R s s1 \<Longrightarrow> Q' a \<Longrightarrow> Q a s1"
  shows "rg R B A Q m s"
  using assms
proof (induction m arbitrary: s)
  case (Ret a)
  then show ?case using R_refl by simp
next
  case (Req q k)
  show ?case unfolding rg.simps
  proof (intro allI impI conjI)
    fix s1 assume s1: "R s s1"
    then show a: "A q s1" using Req.prems by simp
    fix r s2 assume ans: "answer B q s1 r s2"
    have R: "R s s2" "I s2" using cl_answer [OF s1 a ans] by auto
    show "rg R B A Q (k r) s2"
    proof (rule Req.IH [OF rangeI R(2)])
      show "io_post (reply_ok B) P Q' (k r)" using Req.prems(2) answer_reply_ok [OF ans] by simp
    qed (use Req.prems(3,4) R_trans [OF R(1)] in auto)
  qed
qed simp

lemma cl_all:
  "I s \<Longrightarrow> io_all B P m \<Longrightarrow> (\<And>q s1. R s s1 \<Longrightarrow> P q \<Longrightarrow> A q s1) \<Longrightarrow> (\<And>a s1. R s s1 \<Longrightarrow> Q a s1)
    \<Longrightarrow> rg R B A Q m s"
  unfolding io_all_def by (rule cl_post [where P = P and Q' = "\<lambda>_. True"]) simp_all

lemma cl_download:
  assumes "\<And>s1. R s s1 \<Longrightarrow> A (Download k) s1" "\<And>e s1. R s s1 \<Longrightarrow> Q (Inl e) s1"
    "\<And>b s1. R s s1 \<Longrightarrow> st_get s1 k = Some b \<Longrightarrow> Q (Inr b) s1"
  shows "rg R B A Q (download k) s"
  unfolding download_def rg.simps
proof (intro allI impI conjI)
  fix s1 assume s1: "R s s1"
  then show a: "A (Download k) s1" using assms by simp
  fix r s2 assume ans: "answer B (Download k) s1 r s2"
  have R: "R s s2" using cl_answer [OF s1 a ans] by simp
  have get: "r = RBytes (Inr b) \<Longrightarrow> st_get s2 k = Some b" for b
    using ans by cases (auto split: option.splits)
  show "rg R B A Q (case r of RBytes x \<Rightarrow> Ret x | _ \<Rightarrow> Stuck) s2"
  proof (cases r)
    case (RBytes x)
    then show ?thesis using assms(2,3) R get by (cases x) auto
  qed auto
qed

lemma cl_download_with_etag:
  assumes "\<And>s1. R s s1 \<Longrightarrow> A (DownloadWithEtag k) s1" "\<And>e s1. R s s1 \<Longrightarrow> Q (Inl e) s1"
    "\<And>b s1. R s s1 \<Longrightarrow> st_get s1 k = Some b \<Longrightarrow> Q (Inr (b, Some (tag_of B b))) s1"
  shows "rg R B A Q (download_with_etag k) s"
  unfolding download_with_etag_def rg.simps
proof (intro allI impI conjI)
  fix s1 assume s1: "R s s1"
  then show a: "A (DownloadWithEtag k) s1" using assms by simp
  fix r s2 assume ans: "answer B (DownloadWithEtag k) s1 r s2"
  have R: "R s s2" using cl_answer [OF s1 a ans] by simp
  have get: "r = RMeta (Inr bt) \<Longrightarrow> \<exists>b. st_get s2 k = Some b \<and> bt = (b, Some (tag_of B b))" for bt
    using ans by cases (auto split: option.splits)
  show "rg R B A Q (case r of RMeta x \<Rightarrow> Ret x | _ \<Rightarrow> Stuck) s2"
  proof (cases r)
    case (RMeta x)
    then show ?thesis using assms(2,3) R get by (cases x) fastforce+
  qed auto
qed

lemma cl_put:
  assumes "\<And>s1. R s s1 \<Longrightarrow> A (UploadConditional k b e) s1" "\<And>e s2. R s s2 \<Longrightarrow> Q (Inl e) s2"
    "\<And>t s2. R s s2 \<Longrightarrow> st_get s2 k = Some b \<Longrightarrow> Q (Inr t) s2"
  shows "rg R B A Q (upload_conditional k b e) s"
  unfolding upload_conditional_def rg.simps
proof (intro allI impI conjI)
  fix s1 assume s1: "R s s1"
  then show a: "A (UploadConditional k b e) s1" using assms by simp
  fix r s2 assume ans: "answer B (UploadConditional k b e) s1 r s2"
  have R: "R s s2" using cl_answer [OF s1 a ans] by simp
  have get: "r = REtag (Inr t) \<Longrightarrow> st_get s2 k = Some b" for t
    using ans by cases (cases e; auto split: option.splits if_splits)+
  show "rg R B A Q (case r of REtag x \<Rightarrow> Ret x | _ \<Rightarrow> Stuck) s2"
  proof (cases r)
    case (REtag x)
    then show ?thesis using assms(2,3) R get by (cases x) auto
  qed auto
qed

text \<open>Triples: from any store with the invariant and \<open>F\<close>, every request of \<open>m\<close> satisfies its
  assertion, and a returned value satisfies \<open>G\<close>.  The facts that survive a request are the
  stable ones.\<close>

definition stable :: "(store \<Rightarrow> bool) \<Rightarrow> bool" where
  "stable F \<longleftrightarrow> (\<forall>s s'. F s \<longrightarrow> R s s' \<longrightarrow> F s')"

definition triple :: "(store \<Rightarrow> bool) \<Rightarrow> 'a io \<Rightarrow> ('a \<Rightarrow> store \<Rightarrow> bool) \<Rightarrow> bool" where
  "triple F m G \<longleftrightarrow> (\<forall>s. I s \<longrightarrow> F s \<longrightarrow> rg R B A (\<lambda>a s. I s \<and> G a s) m s)"

lemma stableD: "stable F \<Longrightarrow> F s \<Longrightarrow> R s s' \<Longrightarrow> F s'"
  by (simp add: stable_def)

lemma stable_True [simp]: "stable (\<lambda>_. True)"
  by (simp add: stable_def)

lemma stable_conj: "stable F \<Longrightarrow> stable F' \<Longrightarrow> stable (\<lambda>s. F s \<and> F' s)"
  unfolding stable_def by blast

lemma triple_client_ok: "triple F m G \<Longrightarrow> I s \<Longrightarrow> F s \<Longrightarrow> client_ok m s"
  unfolding triple_def by (blast intro: client_ok_rg)

lemma t_ret: "(\<And>s. F s \<Longrightarrow> I s \<Longrightarrow> G a s) \<Longrightarrow> triple F (Ret a) G"
  by (simp add: triple_def)

lemma t_pre: "triple F' m G \<Longrightarrow> (\<And>s. I s \<Longrightarrow> F s \<Longrightarrow> F' s) \<Longrightarrow> triple F m G"
  by (simp add: triple_def)

lemma t_post: "triple F m G' \<Longrightarrow> (\<And>a s. I s \<Longrightarrow> G' a s \<Longrightarrow> G a s) \<Longrightarrow> triple F m G"
  unfolding triple_def by (blast intro: rg_mono)

lemma t_bind: "triple F m G \<Longrightarrow> (\<And>a. triple (G a) (f a) H) \<Longrightarrow> triple F (io_bind m f) H"
  unfolding triple_def
proof (intro allI impI rg_bind)
  fix s assume m: "\<forall>s. I s \<longrightarrow> F s \<longrightarrow> rg R B A (\<lambda>a s. I s \<and> G a s) m s"
    and f: "\<And>a. \<forall>s. I s \<longrightarrow> G a s \<longrightarrow> rg R B A (\<lambda>a s. I s \<and> H a s) (f a) s" and s: "I s" "F s"
  have "rg R B A (\<lambda>a s. I s \<and> G a s) m s" using m s by simp
  then show "rg R B A (\<lambda>a. rg R B A (\<lambda>a s. I s \<and> H a s) (f a)) m s"
  proof (rule rg_mono)
    fix a s assume "I s \<and> G a s"
    then show "rg R B A (\<lambda>a s. I s \<and> H a s) (f a) s" using f [of a] by blast
  qed
qed

lemma t_try:
  assumes "triple F m G" "\<And>e s. I s \<Longrightarrow> G (Inl e) s \<Longrightarrow> H (Inl e) s" "\<And>a. triple (G (Inr a)) (f a) H"
  shows "triple F (io_try m f) H"
  unfolding io_try_def
proof (rule t_bind [OF assms(1)])
  show "triple (G r) (case r of Inl e \<Rightarrow> Ret (Inl e) | Inr a \<Rightarrow> f a) H" for r
    using assms(2,3) by (cases r) (auto intro: t_ret)
qed

lemma t_lift:
  "(\<And>e s. I s \<Longrightarrow> F s \<Longrightarrow> r = Inl e \<Longrightarrow> H (Inl e) s) \<Longrightarrow> (\<And>a. r = Inr a \<Longrightarrow> triple F (f a) H) \<Longrightarrow>
    triple F (lift_res r f) H"
  by (cases r) (auto intro: t_ret)

lemma t_all:
  assumes "stable F" "io_all B P m" "\<And>q s. I s \<Longrightarrow> F s \<Longrightarrow> P q \<Longrightarrow> A q s"
  shows "triple F m (\<lambda>_. F)"
  unfolding triple_def
proof (intro allI impI)
  fix s assume s: "I s" "F s"
  show "rg R B A (\<lambda>a s. I s \<and> F s) m s"
  proof (rule cl_all [OF s(1) assms(2)])
    show "A q s1" if "R s s1" "P q" for q s1
      using assms(3) R_inv that stableD [OF assms(1) s(2)] by simp
    show "I s1 \<and> F s1" if "R s s1" for s1
      using R_inv that stableD [OF assms(1) s(2)] by simp
  qed
qed

lemma t_download:
  assumes "stable F" "\<And>s. I s \<Longrightarrow> F s \<Longrightarrow> A (Download k) s"
  shows "triple F (download k) (\<lambda>x s. F s \<and> (\<forall>b. x = Inr b \<longrightarrow> st_get s k = Some b))"
  unfolding triple_def
  using assms(2) stableD [OF assms(1)] R_inv by (auto intro!: cl_download)

lemma t_download_with_etag:
  assumes "stable F" "\<And>s. I s \<Longrightarrow> F s \<Longrightarrow> A (DownloadWithEtag k) s"
  shows "triple F (download_with_etag k)
    (\<lambda>x s. F s \<and> (\<forall>b t. x = Inr (b, t) \<longrightarrow> st_get s k = Some b \<and> t = Some (tag_of B b)))"
  unfolding triple_def
  using assms(2) stableD [OF assms(1)] R_inv by (auto intro!: cl_download_with_etag)

lemma t_put:
  assumes "stable F" "\<And>s. I s \<Longrightarrow> F s \<Longrightarrow> A (UploadConditional k b e) s"
  shows "triple F (upload_conditional k b e) (\<lambda>x s. F s \<and> (\<forall>t. x = Inr t \<longrightarrow> st_get s k = Some b))"
  unfolding triple_def
  using assms(2) stableD [OF assms(1)] R_inv by (auto intro!: cl_put)

end

section \<open>Histories\<close>

text \<open>A history entry is the store a request found, the request, its reply, and the store it
  left; the environment changes the store by \<open>R\<close> before each request.\<close>

type_synonym entry = "store \<times> req \<times> resp \<times> store"

inductive env_run :: "(store \<Rightarrow> store \<Rightarrow> bool) \<Rightarrow> backend \<Rightarrow> 'a io \<Rightarrow> store \<Rightarrow> entry list \<Rightarrow> 'a \<Rightarrow> store \<Rightarrow> bool"
  for R B where
  env_Ret: "env_run R B (Ret a) s [] a s"
| env_Req: "R s s1 \<Longrightarrow> answer B q s1 r s2 \<Longrightarrow> env_run R B (k r) s2 h a s' \<Longrightarrow>
    env_run R B (Req q k) s ((s1, q, r, s2) # h) a s'"

inductive_simps env_run_simps [simp]:
  "env_run R B (Ret a) s h b s'" "env_run R B Stuck s h b s'" "env_run R B (Req q k) s h b s'"

lemma env_run_bind: "env_run R B (io_bind m f) s h b s' \<longleftrightarrow>
    (\<exists>h1 h2 a t. h = h1 @ h2 \<and> env_run R B m s h1 a t \<and> env_run R B (f a) t h2 b s')"
proof (induction m arbitrary: s h)
  case (Req q k)
  show ?case
  proof
    assume "env_run R B (io_bind (Req q k) f) s h b s'"
    then obtain s1 r s2 h0 where "h = (s1, q, r, s2) # h0" "R s s1" "answer B q s1 r s2"
      "env_run R B (io_bind (k r) f) s2 h0 b s'" by auto
    then show "\<exists>h1 h2 a t. h = h1 @ h2 \<and> env_run R B (Req q k) s h1 a t \<and> env_run R B (f a) t h2 b s'"
      unfolding Req.IH [OF rangeI] by (metis append_Cons env_Req)
  next
    assume "\<exists>h1 h2 a t. h = h1 @ h2 \<and> env_run R B (Req q k) s h1 a t \<and> env_run R B (f a) t h2 b s'"
    then show "env_run R B (io_bind (Req q k) f) s h b s'"
      using Req.IH [OF rangeI] by fastforce
  qed
qed auto

lemma env_run_lift_res: "env_run R B (lift_res r f) s h b s' \<longleftrightarrow>
    (\<exists>e. r = Inl e \<and> b = Inl e \<and> h = [] \<and> s' = s) \<or> (\<exists>a. r = Inr a \<and> env_run R B (f a) s h b s')"
  by (cases r) auto

lemma env_run_try_Inr: "env_run R B (io_try m f) s h (Inr b) s' \<longleftrightarrow>
    (\<exists>h1 h2 a t. h = h1 @ h2 \<and> env_run R B m s h1 (Inr a) t \<and> env_run R B (f a) t h2 (Inr b) s')"
  (is "_ \<longleftrightarrow> ?R")
proof
  assume "env_run R B (io_try m f) s h (Inr b) s'"
  then obtain h1 h2 r t where "h = h1 @ h2" "env_run R B m s h1 r t"
    "env_run R B (case r of Inl e \<Rightarrow> Ret (Inl e) | Inr a \<Rightarrow> f a) t h2 (Inr b) s'"
    unfolding io_try_def env_run_bind by blast
  then show ?R by (cases r) auto
next
  assume ?R
  then show "env_run R B (io_try m f) s h (Inr b) s'"
    unfolding io_try_def env_run_bind by (metis sum.case(2))
qed

text \<open>The replies of the typed calls within a history.\<close>

lemma env_run_download: "env_run R B (download k) s h x s' \<Longrightarrow>
    \<exists>s1. R s s1 \<and> s' = s1 \<and> h = [(s1, Download k, RBytes x, s1)] \<and>
      (\<forall>b. x = Inr b \<longrightarrow> st_get s1 k = Some b)"
proof -
  assume "env_run R B (download k) s h x s'"
  then obtain s1 r s2 h0 where run: "R s s1" "answer B (Download k) s1 r s2"
    "env_run R B (case r of RBytes x \<Rightarrow> Ret x | _ \<Rightarrow> Stuck) s2 h0 x s'" "h = (s1, Download k, r, s2) # h0"
    by (auto simp: download_def)
  have h: "R s s1" "answer B (Download k) s1 r s2" "r = RBytes x" "s' = s2" "h = [(s1, Download k, r, s2)]"
    using run by (cases r; simp)+
  from h(2) have "s2 = s1 \<and> (\<forall>b. x = Inr b \<longrightarrow> st_get s1 k = Some b)"
    by cases (auto simp: h(3) split: option.splits)
  then show ?thesis using h by auto
qed

lemma read_answer: "is_read q \<Longrightarrow> answer B q s r s' \<Longrightarrow> s' = s"
  using answer_effect read_effect by blast

lemma env_run_download_at:
  assumes "env_run R B (download k) s h x s'"
  shows "R s s' \<and> h = [(s', Download k, RBytes x, s')] \<and> (\<forall>b. x = Inr b \<longrightarrow> st_get s' k = Some b) \<and>
    (\<forall>e. x = Inl e \<longrightarrow> is_NotFound e \<longrightarrow> st_get s' k = None)"
proof -
  from assms obtain s1 r s2 h0 where run: "R s s1" "answer B (Download k) s1 r s2" "h = (s1, Download k, r, s2) # h0"
    "env_run R B (case r of RBytes x \<Rightarrow> Ret x | _ \<Rightarrow> Stuck) s2 h0 x s'"
    by (auto simp: download_def)
  have r: "r = RBytes x" "s2 = s'" "h0 = []" using run(4) by (cases r; simp)+
  have "s2 = s1" using read_answer [OF _ run(2)] by simp
  moreover have "(\<forall>b. x = Inr b \<longrightarrow> st_get s1 k = Some b) \<and> (\<forall>e. x = Inl e \<longrightarrow> is_NotFound e \<longrightarrow> st_get s1 k = None)"
    using run(2) unfolding r(1) by cases (auto split: option.splits)
  ultimately show ?thesis using run(1,3) r by auto
qed

lemma env_run_download_with_etag:
  assumes "env_run R B (download_with_etag k) s h x s'"
  shows "R s s' \<and> h = [(s', DownloadWithEtag k, RMeta x, s')] \<and>
    (\<forall>b t. x = Inr (b, t) \<longrightarrow> st_get s' k = Some b \<and> t = Some (tag_of B b)) \<and>
    (\<forall>e. x = Inl e \<longrightarrow> is_NotFound e \<longrightarrow> st_get s' k = None)"
proof -
  from assms obtain s1 r s2 h0 where run: "R s s1" "answer B (DownloadWithEtag k) s1 r s2"
    "h = (s1, DownloadWithEtag k, r, s2) # h0"
    "env_run R B (case r of RMeta x \<Rightarrow> Ret x | _ \<Rightarrow> Stuck) s2 h0 x s'"
    by (auto simp: download_with_etag_def)
  have r: "r = RMeta x" "s2 = s'" "h0 = []" using run(4) by (cases r; simp)+
  have "s2 = s1" using read_answer [OF _ run(2)] by simp
  moreover have "(\<forall>b t. x = Inr (b, t) \<longrightarrow> st_get s1 k = Some b \<and> t = Some (tag_of B b)) \<and>
      (\<forall>e. x = Inl e \<longrightarrow> is_NotFound e \<longrightarrow> st_get s1 k = None)"
    using run(2) unfolding r(1) by cases (auto split: option.splits)
  ultimately show ?thesis using run(1,3) r by auto
qed

text \<open>A successful conditional write was applied at one moment, where its condition held.\<close>

lemma env_run_put:
  assumes "env_run R B (upload_conditional k b e) s h (Inr t) s'"
  shows "\<exists>s1. R s s1 \<and> s' = st_put k b s1 \<and> t = Some (tag_of B b) \<and>
    h = [(s1, UploadConditional k b e, REtag (Inr t), s')] \<and>
    (case e of None \<Rightarrow> st_get s1 k = None | Some e' \<Rightarrow> \<exists>c. st_get s1 k = Some c \<and> tag_of B c = e')"
proof -
  from assms obtain s1 r s2 h0 where run: "R s s1" "answer B (UploadConditional k b e) s1 r s2"
    "env_run R B (case r of REtag x \<Rightarrow> Ret x | _ \<Rightarrow> Stuck) s2 h0 (Inr t) s'" "h = (s1, UploadConditional k b e, r, s2) # h0"
    by (auto simp: upload_conditional_def)
  have r: "r = REtag (Inr t)" "s2 = s'" "h0 = []" using run(3) by (cases r; simp)+
  from run(2) have "st_exec B (UploadConditional k b e) s1 = (REtag (Inr t), s2)"
    unfolding r(1) by cases auto
  then show ?thesis using run(1,4) r by (cases e) (auto split: option.splits if_splits)
qed

lemma env_run_create_taken:
  assumes "env_run R B (upload_conditional k b None) s h (Inl e) s'" "is_PreconditionFailed e"
  shows "st_get s' k \<noteq> None"
proof -
  from assms(1) obtain s1 r s2 h0 where run: "answer B (UploadConditional k b None) s1 r s2"
    "env_run R B (case r of REtag x \<Rightarrow> Ret x | _ \<Rightarrow> Stuck) s2 h0 (Inl e) s'"
    by (auto simp: upload_conditional_def)
  have r: "r = REtag (Inl e)" "s2 = s'" using run(2) by (cases r; simp)+
  show ?thesis using run(1) assms(2) unfolding r by cases (auto split: option.splits)
qed

text \<open>A run whose requests all refine steps of the environment is itself such a step.\<close>

lemma env_run_steps:
  assumes "env_run R B m s h a s'" "io_all B P m"
    and "\<And>s. R s s" "\<And>s t u. R s t \<Longrightarrow> R t u \<Longrightarrow> R s u" "\<And>q s s'. P q \<Longrightarrow> effect B q s s' \<Longrightarrow> R s s'"
  shows "R s s'"
  using assms(1,2) unfolding io_all_def
proof (induction rule: env_run.induct)
  case (env_Ret a s)
  show ?case by (rule assms(3))
next
  case (env_Req s s1 q r s2 k h a s')
  have P: "P q" and rest: "io_post (reply_ok B) P (\<lambda>_. True) (k r)"
    using env_Req(2,5) answer_reply_ok by auto
  have "R s1 s2" using assms(5) P answer_effect [OF env_Req(2)] by blast
  with env_Req(1) have "R s s2" by (rule assms(4))
  then show ?case using assms(4) env_Req.IH rest by blast
qed

end
