(* ===== verification/Kernel_History.thy ===== *)
theory Kernel_History
  imports Kernel_Safety S3_Rely
begin

text \<open>
  The abstract history of a lineage and its refinement by the handlers.  \<open>chain X l obj g d rs\<close>
  is the log: the records from the genesis to the record at generation \<open>g\<close> and digest \<open>d\<close>,
  read from the content-addressed objects \<open>obj\<close>.  The backward walks of \<open>load_history\<close> and of a
  projection compute exactly this log, and batch validation is its extension.
\<close>

section \<open>The log\<close>

inductive chain :: "ext \<Rightarrow> kernel_lineage \<Rightarrow> (record_digest \<Rightarrow> bytes option) \<Rightarrow> u64 \<Rightarrow> record_digest
    \<Rightarrow> canonical_record list \<Rightarrow> bool" for X l obj where
  chain_genesis: "obj d = Some b \<Longrightarrow> record_from_bytes X l d b = Inr r \<Longrightarrow> rec_sequence r = 0 \<Longrightarrow> rec_prior r = None
    \<Longrightarrow> chain X l obj 0 d [r]"
| chain_successor: "chain X l obj g d rs \<Longrightarrow> g \<noteq> - 1 \<Longrightarrow> obj d' = Some b \<Longrightarrow> record_from_bytes X l d' b = Inr r
    \<Longrightarrow> rec_sequence r = g + 1 \<Longrightarrow> rec_prior r = Some \<lparr>pos_generation = g, pos_digest = d\<rparr>
    \<Longrightarrow> chain X l obj (g + 1) d' (rs @ [r])"

definition objs :: "store \<Rightarrow> kernel_lineage \<Rightarrow> record_digest \<Rightarrow> bytes option" where
  "objs s l d = st_get s (object_key l d)"

lemma chain_top:
  assumes "chain X l obj g d rs"
  shows "rs \<noteq> [] \<and> rec_sequence (last rs) = g \<and> canonical_record_digest X (last rs) = Inr d \<and>
    (\<exists>b. obj d = Some b \<and> record_from_bytes X l d b = Inr (last rs))"
  using assms by cases (auto dest: record_from_bytes_Inr(6))

lemma chain_length: "chain X l obj g d rs \<Longrightarrow> length rs = Suc (unat g)"
  by (induction rule: chain.induct) (simp_all add: unat_plus1)

lemma u64_plus1_inj: "(a::u64) + 1 = b + 1 \<longleftrightarrow> a = b"
  by simp

lemma u64_plus1_neq0: "(a::u64) \<noteq> - 1 \<Longrightarrow> a + 1 \<noteq> 0"
  by (metis add.right_inverse add_right_cancel add.commute)

lemma chain_functional:
  assumes "chain X l obj g d rs" "chain X l obj g d rs'"
  shows "rs = rs'"
  using assms
proof (induction arbitrary: rs' rule: chain.induct)
  case (chain_genesis d b r)
  show ?case using chain_genesis.prems
    by cases (use chain_genesis.hyps u64_plus1_neq0 in auto)
next
  case (chain_successor g d rs d' b r)
  show ?case using chain_successor.prems
  proof cases
    case (chain_genesis b' r')
    then show ?thesis using chain_successor.hyps u64_plus1_neq0 by auto
  next
    case (chain_successor g2 d2 rs2 b2 r2)
    then have "r2 = r" "g2 = g" "d2 = d" using \<open>obj d' = Some b\<close> \<open>record_from_bytes X l d' b = Inr r\<close>
        \<open>rec_prior r = Some \<lparr>pos_generation = g, pos_digest = d\<rparr>\<close> by auto
    then show ?thesis using chain_successor chain_successor.IH by auto
  qed
qed

text \<open>Every record of the log sits at the generation of its position, with the right link.\<close>

lemma chain_nth:
  assumes "chain X l obj g d rs" "i < length rs"
  shows "rec_sequence (rs ! i) = word_of_nat i \<and> record_wf l (rs ! i)
    \<and> (\<exists>d b. obj d = Some b \<and> record_from_bytes X l d b = Inr (rs ! i))"
  using assms
proof (induction arbitrary: i rule: chain.induct)
  case (chain_genesis d b r)
  then show ?case by (auto dest: record_from_bytes_Inr)
next
  case (chain_successor g d rs d' b r)
  have len: "length rs = Suc (unat g)" using chain_length chain_successor.hyps by blast
  show ?case
  proof (cases "i < length rs")
    case True
    then show ?thesis using chain_successor.IH by (simp add: nth_append)
  next
    case False
    then have "i = Suc (unat g)" using chain_successor.prems len by simp
    then show ?thesis using chain_successor.hyps len
      by (auto simp: nth_append add.commute dest: record_from_bytes_Inr)
  qed
qed

text \<open>The part of the log up to an earlier position is the log of that position.\<close>

lemma chain_take:
  assumes "chain X l obj g d rs" "n < length rs"
  shows "\<exists>d'. canonical_record_digest X (rs ! n) = Inr d' \<and> chain X l obj (word_of_nat n) d' (take (Suc n) rs)"
  using assms
proof (induction rule: chain.induct)
  case (chain_genesis d b r)
  then show ?case using chain.chain_genesis [of obj d b X l r] by (auto dest: record_from_bytes_Inr(6))
next
  case (chain_successor g d rs d' b r)
  have len: "length rs = Suc (unat g)" using chain_length chain_successor.hyps by blast
  show ?case
  proof (cases "n < length rs")
    case True
    then show ?thesis using chain_successor.IH by (simp add: nth_append)
  next
    case False
    then have n: "n = Suc (unat g)" using chain_successor.prems len by simp
    have "chain X l obj (g + 1) d' (rs @ [r])"
      by (rule chain.chain_successor) (use chain_successor.hyps in auto)
    then show ?thesis using n len chain_successor.hyps(4)
      by (auto simp: nth_append add.commute dest: record_from_bytes_Inr(6))
  qed
qed

lemma chain_mono:
  assumes "chain X l obj g d rs" "ext_ok X" "\<And>d b. digest_wf d \<Longrightarrow> obj d = Some b \<Longrightarrow> obj' d = Some b"
  shows "chain X l obj' g d rs"
  using assms(1)
proof (induction rule: chain.induct)
  case (chain_genesis d b r)
  then have "digest_wf d" using digest_wf_of [OF assms(2)] record_from_bytes_Inr(1) by metis
  then show ?case using chain_genesis assms(3) by (auto intro: chain.chain_genesis)
next
  case (chain_successor g d rs d' b r)
  then have "digest_wf d'" using digest_wf_of [OF assms(2)] record_from_bytes_Inr(1) by metis
  then show ?case using chain_successor assms(3) by (auto intro: chain.chain_successor)
qed

section \<open>The walk over the stored history\<close>

definition seen_above :: "ext \<Rightarrow> kernel_lineage \<Rightarrow> (record_digest \<Rightarrow> bytes option) \<Rightarrow> u64 \<Rightarrow> record_digest set \<Rightarrow> bool" where
  "seen_above X l obj g seen \<longleftrightarrow>
    (\<forall>d\<in>seen. \<exists>b r. obj d = Some b \<and> record_from_bytes X l d b = Inr r \<and> g < rec_sequence r)"

text \<open>One step of either walk, from the record at \<open>d\<close>: it ends the log, or goes on below.\<close>

lemma chain_unfold:
  assumes "obj d = Some b" "record_from_bytes X l d b = Inr r" "rec_sequence r = g"
  shows "chain X l obj g d out \<longleftrightarrow> (case walk_step r g d of
      WalkDone \<Rightarrow> out = [r]
    | WalkOn d' \<Rightarrow> \<exists>rs. chain X l obj (g - 1) d' rs \<and> out = rs @ [r]
    | WalkFail e \<Rightarrow> False)"
proof (cases "walk_step r g d")
  case WalkDone
  then have g: "g = 0" "rec_prior r = None" by (simp_all add: walk_step_Done)
  have "out = [r]" if "chain X l obj g d out"
    using that
  proof cases
    case (chain_genesis b' r')
    then show ?thesis using assms by simp
  next
    case (chain_successor g' d2 rs b' r')
    then show ?thesis using assms g by simp
  qed
  moreover have "chain X l obj g d [r]" using assms g by (auto intro: chain_genesis)
  ultimately show ?thesis using WalkDone by auto
next
  case (WalkOn d')
  then have g: "g > 0" "rec_prior r = Some \<lparr>pos_generation = g - 1, pos_digest = d'\<rparr>" by (simp_all add: walk_step_On)
  have ne: "g - 1 \<noteq> - 1" using g(1) by auto
  have "\<exists>rs. chain X l obj (g - 1) d' rs \<and> out = rs @ [r]" if "chain X l obj g d out"
    using that
  proof cases
    case (chain_genesis b' r')
    then show ?thesis using g by simp
  next
    case (chain_successor g' d2 rs b' r')
    then have "rec_prior r = Some \<lparr>pos_generation = g', pos_digest = d2\<rparr>" using assms by simp
    then show ?thesis using chain_successor g assms by simp
  qed
  moreover have "chain X l obj g d (rs @ [r])" if "chain X l obj (g - 1) d' rs" for rs
    using chain_successor [OF that ne assms(1,2)] assms(3) g by simp
  ultimately show ?thesis using WalkOn by auto
next
  case (WalkFail e)
  have "\<not> chain X l obj g d out"
  proof
    assume "chain X l obj g d out"
    then show False
    proof cases
      case (chain_genesis b' r')
      then have "rec_prior r = None" "g = 0" using assms by auto
      then show ?thesis using WalkFail by (simp add: walk_step_def)
    next
      case (chain_successor g' d2 rs b' r')
      then have p: "rec_prior r = Some \<lparr>pos_generation = g', pos_digest = d2\<rparr>" and g: "g = g' + 1"
        and ne: "g' \<noteq> - 1" using assms by auto
      have "0 < g" using u64_plus1_neq0 [OF ne] g by (simp add: word_gt_0)
      then show ?thesis using WalkFail p g by (simp add: walk_step_def)
    qed
  qed
  then show ?thesis using WalkFail by simp
qed

lemma chain_needs_record:
  "chain X l obj g d out \<Longrightarrow> \<exists>b r. obj d = Some b \<and> record_from_bytes X l d b = Inr r \<and> rec_sequence r = g"
  by (erule chain.cases) auto

lemma seen_not_chain: "seen_above X l obj g seen \<Longrightarrow> d \<in> seen \<Longrightarrow> \<not> chain X l obj g d out"
proof
  assume "seen_above X l obj g seen" "d \<in> seen" "chain X l obj g d out"
  then obtain b r b' r' where "obj d = Some b" "record_from_bytes X l d b = Inr r" "g < rec_sequence r"
    "obj d = Some b'" "record_from_bytes X l d b' = Inr r'" "rec_sequence r' = g"
    using chain_needs_record by (fastforce simp: seen_above_def)
  then show False by simp
qed

lemma seen_above_insert:
  assumes "seen_above X l obj g seen" "obj d = Some b" "record_from_bytes X l d b = Inr r" "rec_sequence r = g" "g > 0"
  shows "seen_above X l obj (g - 1) (insert d seen)"
proof -
  have lt: "g - 1 < g" using unat_pred [OF assms(5)] by (simp add: word_less_nat_alt)
  show ?thesis unfolding seen_above_def
  proof
    fix d' assume "d' \<in> insert d seen"
    then consider "d' = d" | "d' \<in> seen" by blast
    then show "\<exists>b r. obj d' = Some b \<and> record_from_bytes X l d' b = Inr r \<and> g - 1 < rec_sequence r"
    proof cases
      case 1
      then show ?thesis using assms lt by auto
    next
      case 2
      then show ?thesis using assms(1) lt unfolding seen_above_def by (meson less_trans)
    qed
  qed
qed

lemma load_history_loop_run:
  assumes "unat g < fuel" "seen_above X l (objs s l) g seen"
  shows "\<exists>res. run B (load_history_loop X l h fuel seen g d acc) s = (Some res, s) \<and>
    (\<forall>out. res = Inr out \<longleftrightarrow> (\<exists>rs. chain X l (objs s l) g d rs \<and> out = rs @ acc \<and>
      (acc = [] \<longrightarrow> hd_prior h = rec_prior (last rs))))"
  using assms
proof (induction fuel arbitrary: seen g d acc)
  case (Suc fuel)
  show ?case
  proof (cases "d \<in> seen")
    case True
    then show ?thesis using seen_not_chain [OF Suc.prems(2) True]
      by (simp add: mark_history_digest_def io_simps)
  next
    case new: False
    show ?thesis
    proof (cases "objs s l d")
      case None
      then have "\<And>rs. \<not> chain X l (objs s l) g d rs" using chain_needs_record by fastforce
      then show ?thesis using new None
        by (simp add: mark_history_digest_def load_record_def io_simps run_try run_bind objs_def [symmetric])
    next
      case (Some b)
      show ?thesis
      proof (cases "record_from_bytes X l d b")
        case (Inl e)
        then have "\<And>rs. \<not> chain X l (objs s l) g d rs" using chain_needs_record Some by fastforce
        then show ?thesis using new Some Inl
          by (simp add: mark_history_digest_def load_record_def io_simps run_try run_bind objs_def [symmetric])
      next
        case (Inr r)
        have rd: "canonical_record_digest X r = Inr d" using record_from_bytes_Inr(6) [OF Inr] .
        have step: "run B (load_history_loop X l h (Suc fuel) seen g d acc) s =
          (if rec_sequence r \<noteq> g then (Some (Inl (StateHistoryIncomplete (record_reference r (Some d)))), s)
           else if acc = [] \<and> hd_prior h \<noteq> rec_prior r
             then (Some (Inl (StateHistoryIncomplete (record_reference r (Some d)))), s)
           else run B (case walk_step r g d of
              WalkDone \<Rightarrow> Ret (Inr (r # acc))
            | WalkOn d' \<Rightarrow> load_history_loop X l h fuel (insert d seen) (g - 1) d' (r # acc)
            | WalkFail e \<Rightarrow> Ret (Inl e)) s)"
          using new Some Inr rd
          by (simp add: mark_history_digest_def load_record_def io_simps run_try run_bind objs_def [symmetric])
        have last: "rec_prior (last rs) = rec_prior r" if "chain X l (objs s l) g d rs" for rs
          using chain_top [OF that] Some Inr by auto
        show ?thesis
        proof (cases "rec_sequence r = g")
          case False
          then have "\<And>rs. \<not> chain X l (objs s l) g d rs" using chain_needs_record Some Inr by fastforce
          then show ?thesis using False step by simp
        next
          case seq: True
          show ?thesis
          proof (cases "acc = [] \<and> hd_prior h \<noteq> rec_prior r")
            case True
            then show ?thesis using step seq last by auto
          next
            case prior: False
            note unfold = chain_unfold [where X = X and l = l and obj = "objs s l" and d = d and b = b and r = r and g = g, OF Some Inr seq]
            show ?thesis
            proof (cases "walk_step r g d")
              case WalkDone
              then show ?thesis using step seq prior unfold by auto
            next
              case (WalkFail e)
              then show ?thesis using step seq prior unfold by auto
            next
              case (WalkOn d')
              then have g: "g > 0" by (simp add: walk_step_On)
              have "unat (g - 1) < fuel" using unat_pred [OF g] Suc.prems(1) by simp
              from Suc.IH [OF this seen_above_insert [OF Suc.prems(2) Some Inr seq g], of d' "r # acc"]
              obtain res where "run B (load_history_loop X l h fuel (insert d seen) (g - 1) d' (r # acc)) s = (Some res, s)"
                "\<forall>out. res = Inr out \<longleftrightarrow> (\<exists>rs. chain X l (objs s l) (g - 1) d' rs \<and> out = rs @ r # acc)" by auto
              moreover have "(\<exists>rs. chain X l (objs s l) (g - 1) d' rs \<and> out = rs @ r # acc) \<longleftrightarrow>
                  (\<exists>rs. chain X l (objs s l) g d rs \<and> out = rs @ acc \<and> (acc = [] \<longrightarrow> hd_prior h = rec_prior (last rs)))" for out
              proof -
                have eq: "chain X l (objs s l) g d rs \<longleftrightarrow> (\<exists>rs'. chain X l (objs s l) (g - 1) d' rs' \<and> rs = rs' @ [r])" for rs
                  using unfold [of rs] WalkOn by simp
                have pr: "acc = [] \<longrightarrow> hd_prior h = rec_prior r" using prior by blast
                show ?thesis unfolding eq
                proof
                  assume "\<exists>rs. chain X l (objs s l) (g - 1) d' rs \<and> out = rs @ r # acc"
                  then obtain rs where "chain X l (objs s l) (g - 1) d' rs" "out = (rs @ [r]) @ acc" by auto
                  then show "\<exists>rs. (\<exists>rs'. chain X l (objs s l) (g - 1) d' rs' \<and> rs = rs' @ [r]) \<and> out = rs @ acc \<and>
                      (acc = [] \<longrightarrow> hd_prior h = rec_prior (last rs))" using pr by (metis last_snoc)
                qed auto
              qed
              ultimately show ?thesis using step seq prior WalkOn by simp
            qed
          qed
        qed
      qed
    qed
  qed
qed simp

lemma load_history_run:
  "\<exists>res. run B (load_history X l h) s = (Some res, s) \<and>
    (\<forall>rs. res = Inr rs \<longleftrightarrow> chain X l (objs s l) (hd_generation h) (hd_record_digest h) rs \<and>
      hd_prior h = rec_prior (last rs))"
  using load_history_loop_run [of "hd_generation h" "Suc (unat (hd_generation h))" X l s "{}" B h "hd_record_digest h" "[]"]
  by (simp add: load_history_def seen_above_def)

section \<open>The walk over a projection\<close>

definition index_obj :: "(record_digest \<rightharpoonup> projected_record) \<Rightarrow> record_digest \<Rightarrow> bytes option" where
  "index_obj m d = map_option pr_bytes (m d)"

lemma projected_walk_step:
  assumes "d \<notin> seen" "m d = Some p" "record_from_bytes X l d (pr_bytes p) = Inr r" "rec_sequence r = g"
  shows "projected_walk X l m seen g d acc = (case walk_step r g d of
      WalkDone \<Rightarrow> Inr (r # acc, insert d seen)
    | WalkOn d' \<Rightarrow> projected_walk X l m (insert d seen) (g - 1) d' (r # acc)
    | WalkFail e \<Rightarrow> Inl e)"
  using assms record_from_bytes_Inr(6) [OF assms(3)] by (subst projected_walk.simps) simp

lemma projected_walk_start:
  assumes "projected_walk X l m seen g d acc = Inr res"
  obtains p r where "d \<notin> seen" "m d = Some p" "record_from_bytes X l d (pr_bytes p) = Inr r" "rec_sequence r = g"
  using assms record_from_bytes_Inr(6)
  by (subst (asm) projected_walk.simps) (auto split: if_splits option.splits sum.splits)

lemma projected_walk_sound:
  assumes "projected_walk X l m seen g d acc = Inr (out, seen')" "finite seen"
  shows "\<exists>rs. chain X l (index_obj m) g d rs \<and> out = rs @ acc \<and> finite seen' \<and> card seen' = card seen + length rs"
  using assms
proof (induction "unat g" arbitrary: seen g d acc)
  case 0
  from "0.prems"(1) obtain p r where st: "d \<notin> seen" "m d = Some p"
    "record_from_bytes X l d (pr_bytes p) = Inr r" "rec_sequence r = g" by (rule projected_walk_start)
  have g: "\<not> g > 0" using "0.hyps" by (simp add: word_less_nat_alt)
  have o: "index_obj m d = Some (pr_bytes p)" using st by (simp add: index_obj_def)
  show ?case using "0.prems" g projected_walk_step [where m = m, OF st] chain_unfold [of "index_obj m", OF o st(3,4), of "[r]"] st(1)
    by (cases "walk_step r g d") (auto simp: walk_step_On)
next
  case (Suc n)
  from Suc.prems(1) obtain p r where st: "d \<notin> seen" "m d = Some p"
    "record_from_bytes X l d (pr_bytes p) = Inr r" "rec_sequence r = g" by (rule projected_walk_start)
  have o: "index_obj m d = Some (pr_bytes p)" using st by (simp add: index_obj_def)
  note step = projected_walk_step [where m = m, OF st]
  show ?case
  proof (cases "walk_step r g d")
    case (WalkOn d')
    then have g: "g > 0" by (simp add: walk_step_On)
    have "n = unat (g - 1)" using unat_pred [OF g] Suc.hyps(2) by simp
    from Suc.hyps(1) [OF this, of "insert d seen" d' "r # acc"] Suc.prems step WalkOn
    obtain rs where rs: "chain X l (index_obj m) (g - 1) d' rs" "out = rs @ r # acc" "finite seen'"
      "card seen' = card (insert d seen) + length rs" by auto
    have "chain X l (index_obj m) g d (rs @ [r])"
      using chain_unfold [of "index_obj m", OF o st(3,4), of "rs @ [r]"] WalkOn rs(1) by simp
    then show ?thesis using rs st(1) Suc.prems(2)
      by (intro exI [of _ "rs @ [r]"]) simp
  next
    case WalkDone
    then show ?thesis using Suc.prems step chain_unfold [of "index_obj m", OF o st(3,4), of "[r]"] st(1)
      by (intro exI [of _ "[r]"]) auto
  next
    case (WalkFail e)
    then show ?thesis using Suc.prems step by simp
  qed
qed

lemma projected_walk_complete:
  assumes "chain X l (index_obj m) g d rs" "seen_above X l (index_obj m) g seen"
  shows "\<exists>seen'. projected_walk X l m seen g d acc = Inr (rs @ acc, seen')"
  using assms
proof (induction arbitrary: seen acc rule: chain.induct)
  case (chain_genesis d b r)
  have c: "chain X l (index_obj m) 0 d [r]" by (rule chain.chain_genesis) (use chain_genesis in auto)
  then have new: "d \<notin> seen" using seen_not_chain chain_genesis.prems by blast
  obtain p where p: "m d = Some p" "b = pr_bytes p" using chain_genesis by (auto simp: index_obj_def)
  have "walk_step r 0 d = WalkDone" using chain_genesis by (simp add: walk_step_Done)
  then show ?case using projected_walk_step [where m = m and d = d and seen = seen and p = p and X = X and l = l and r = r and g = 0 and acc = acc, OF new p(1)] chain_genesis p by simp
next
  case (chain_successor g d rs d' b r)
  have c: "chain X l (index_obj m) (g + 1) d' (rs @ [r])" by (rule chain.chain_successor) (use chain_successor in auto)
  then have new: "d' \<notin> seen" using seen_not_chain chain_successor.prems by blast
  obtain p where p: "m d' = Some p" "b = pr_bytes p" using chain_successor by (auto simp: index_obj_def)
  have pos: "g + 1 > 0" using u64_plus1_neq0 [OF chain_successor.hyps(2)] by (simp add: word_gt_0)
  have "walk_step r (g + 1) d' = WalkOn d" using chain_successor.hyps pos by (simp add: walk_step_On)
  moreover have "seen_above X l (index_obj m) (g + 1 - 1) (insert d' seen)"
    by (rule seen_above_insert [OF chain_successor.prems chain_successor.hyps(3,4)]) (use chain_successor.hyps pos in auto)
  then obtain seen' where "projected_walk X l m (insert d' seen) g d (r # acc) = Inr (rs @ r # acc, seen')"
    using chain_successor.IH by fastforce
  ultimately show ?case
    using projected_walk_step [where m = m and d = d' and seen = seen and p = p and X = X and l = l and r = r and g = "g + 1" and acc = acc, OF new p(1)] chain_successor.hyps p by simp
qed

lemma index_projected_Inr:
  "index_projected l ps m = Inr m' \<longleftrightarrow> distinct (map pr_digest ps) \<and> (\<forall>p\<in>set ps. m (pr_digest p) = None)
    \<and> m' = m ++ map_of (map (\<lambda>p. (pr_digest p, p)) ps)"
proof (induction ps arbitrary: m)
  case (Cons p ps)
  show ?case
  proof (cases "m (pr_digest p)")
    case None
    have fresh: "(\<forall>q\<in>set ps. (m(pr_digest p \<mapsto> p)) (pr_digest q) = None) \<longleftrightarrow>
        pr_digest p \<notin> pr_digest ` set ps \<and> (\<forall>q\<in>set ps. m (pr_digest q) = None)"
    proof -
      have "((m(pr_digest p \<mapsto> p)) (pr_digest q) = None) = (pr_digest q \<noteq> pr_digest p \<and> m (pr_digest q) = None)" for q
        by simp
      then show ?thesis unfolding image_iff by metis
    qed
    have add: "pr_digest p \<notin> pr_digest ` set ps \<Longrightarrow>
        m(pr_digest p \<mapsto> p) ++ map_of (map (\<lambda>p. (pr_digest p, p)) ps)
        = m ++ map_of (map (\<lambda>p. (pr_digest p, p)) (p # ps))"
      by (simp add: map_add_upd_left dom_map_of_conv_image_fst image_image)
    have lhs: "index_projected l (p # ps) m = index_projected l ps (m(pr_digest p \<mapsto> p))" using None by simp
    show ?thesis unfolding lhs Cons.IH fresh using None add by (auto simp del: fun_upd_apply)
  qed auto
qed auto

definition projected_obj :: "fold_projection \<Rightarrow> record_digest \<Rightarrow> bytes option" where
  "projected_obj P d = map_of (map (\<lambda>p. (pr_digest p, pr_bytes p)) (fp_records P)) d"

lemma index_obj_map_of: "index_obj (map_of (map (\<lambda>p. (pr_digest p, p)) ps)) = map_of (map (\<lambda>p. (pr_digest p, pr_bytes p)) ps)"
proof
  fix d show "index_obj (map_of (map (\<lambda>p. (pr_digest p, p)) ps)) d = map_of (map (\<lambda>p. (pr_digest p, pr_bytes p)) ps) d"
    by (induction ps) (auto simp: index_obj_def)
qed

text \<open>The records of a log have different digests.\<close>

lemma chain_digests_distinct:
  assumes "chain X l obj g d rs"
  shows "distinct (map (canonical_record_digest X) rs)"
proof -
  have len: "length rs \<le> 2 ^ 64" using chain_length [OF assms] unat_lt2p [of g] by simp
  show ?thesis unfolding distinct_conv_nth
  proof (intro allI impI)
    fix i j assume ij: "i < length (map (canonical_record_digest X) rs)" "j < length (map (canonical_record_digest X) rs)" "i \<noteq> j"
    obtain di bi where i: "obj di = Some bi" "record_from_bytes X l di bi = Inr (rs ! i)" "rec_sequence (rs ! i) = word_of_nat i"
      using chain_nth [OF assms, of i] ij by auto
    obtain dj bj where j: "obj dj = Some bj" "record_from_bytes X l dj bj = Inr (rs ! j)" "rec_sequence (rs ! j) = word_of_nat j"
      using chain_nth [OF assms, of j] ij by auto
    have "(word_of_nat i :: u64) \<noteq> word_of_nat j"
    proof
      assume "(word_of_nat i :: u64) = word_of_nat j"
      then have "unat (word_of_nat i :: u64) = unat (word_of_nat j :: u64)" by simp
      then show False using ij len by (simp add: unat_of_nat)
    qed
    then have "di \<noteq> dj" using i j by auto
    then show "map (canonical_record_digest X) rs ! i \<noteq> map (canonical_record_digest X) rs ! j"
      using record_from_bytes_Inr(6) [OF i(2)] record_from_bytes_Inr(6) [OF j(2)] ij by simp
  qed
qed

lemma check_positions_Inr:
  assumes "length rs = length ps" "\<forall>j<length rs. rec_sequence (rs ! j) = word_of_nat (i + j)" "i + length rs \<le> 2 ^ 64"
  shows "check_positions X l i (zip rs ps) = Inr () \<longleftrightarrow> map (canonical_record_digest X) rs = map (\<lambda>p. Inr (pr_digest p)) ps"
  using assms
proof (induction rs ps arbitrary: i rule: list_induct2')
  case (4 r rs p ps)
  have "\<forall>j<length rs. rec_sequence (rs ! j) = word_of_nat (Suc i + j)"
  proof (intro allI impI)
    fix j assume "j < length rs"
    then have "rec_sequence ((r # rs) ! Suc j) = word_of_nat (i + Suc j)" using "4.prems"(2) by (metis Suc_mono length_Cons)
    then show "rec_sequence (rs ! j) = word_of_nat (Suc i + j)" by simp
  qed
  then have IH: "check_positions X l (Suc i) (zip rs ps) = Inr () \<longleftrightarrow> map (canonical_record_digest X) rs = map (\<lambda>p. Inr (pr_digest p)) ps"
    using "4.IH" [of "Suc i"] "4.prems" by simp
  have "rec_sequence r = word_of_nat i" using "4.prems"(2) by (metis Nat.add_0_right length_greater_0_conv list.distinct(1) nth_Cons_0)
  then show ?case using IH "4.prems"(3) by (auto simp: try_res_Inr_iff)
qed auto

text \<open>A projection is accepted exactly when its copied objects spell, in order, the log of its
  source position.\<close>

lemma records_for_source_Inr:
  "records_for_source X P l = Inr rs \<longleftrightarrow>
    ps_lineage (fp_source P) = lin_value l \<and> ps_generation (fp_source P) \<noteq> - 1 \<and>
    chain X l (projected_obj P) (ps_generation (fp_source P)) (ps_digest (fp_source P)) rs \<and>
    map (canonical_record_digest X) rs = map (\<lambda>p. Inr (pr_digest p)) (fp_records P)"
  (is "_ \<longleftrightarrow> ?lin \<and> ?gen \<and> ?chain \<and> ?digests")
proof -
  let ?g = "ps_generation (fp_source P)" and ?d = "ps_digest (fp_source P)"
  let ?m = "map_of (map (\<lambda>p. (pr_digest p, p)) (fp_records P))"
  have obj: "index_obj ?m = projected_obj P" by (simp add: index_obj_map_of projected_obj_def fun_eq_iff)
  have index: "index_projected l (fp_records P) Map.empty = Inr m' \<longleftrightarrow> distinct (map pr_digest (fp_records P)) \<and> m' = ?m" for m'
    by (simp add: index_projected_Inr)
  have check: "check_positions X l 0 (zip rs (fp_records P)) = Inr () \<longleftrightarrow> ?digests"
    if c: ?chain and len: "length (fp_records P) = Suc (unat ?g)"
  proof (rule check_positions_Inr)
    show "length rs = length (fp_records P)" using chain_length [OF c] len by simp
    show "\<forall>j<length rs. rec_sequence (rs ! j) = word_of_nat (0 + j)" using chain_nth [OF c] by simp
    show "0 + length rs \<le> 2 ^ 64" using chain_length [OF c] unat_lt2p [of ?g] by simp
  qed
  show ?thesis
  proof
    assume "records_for_source X P l = Inr rs"
    then obtain seen where lin: ?lin and gen: ?gen
      and len: "length (fp_records P) = Suc (unat ?g)"
      and walk: "projected_walk X l ?m {} ?g ?d [] = Inr (rs, seen)"
      and chk: "check_positions X l 0 (zip rs (fp_records P)) = Inr ()"
      by (auto simp: records_for_source_def Let_def checked_add_1 unat_plus1 index split: if_splits prod.splits)
    have ?chain using projected_walk_sound [OF walk] obj by simp
    then show "?lin \<and> ?gen \<and> ?chain \<and> ?digests" using lin gen check len chk by simp
  next
    assume R: "?lin \<and> ?gen \<and> ?chain \<and> ?digests"
    then have c: "chain X l (index_obj ?m) ?g ?d rs" using obj by simp
    obtain seen where walk: "projected_walk X l ?m {} ?g ?d [] = Inr (rs, seen)"
      using projected_walk_complete [OF c, of "{}" "[]"] by (auto simp: seen_above_def)
    have card: "card seen = length rs" using projected_walk_sound [OF walk] by auto
    have len: "length (fp_records P) = Suc (unat ?g)" using R chain_length by (metis length_map)
    have dist: "distinct (map pr_digest (fp_records P))"
    proof -
      have "distinct (map (\<lambda>p. Inr (pr_digest p) :: kernel_error + record_digest) (fp_records P))"
        using chain_digests_distinct R by metis
      then have "distinct (map (Inr :: _ \<Rightarrow> kernel_error + record_digest) (map pr_digest (fp_records P)))" by (simp add: comp_def)
      then show ?thesis by (simp only: distinct_map)
    qed
    have ix: "index_projected l (fp_records P) Map.empty = Inr ?m" using index dist by blast
    have chk: "check_positions X l 0 (zip rs (fp_records P)) = Inr ()" using check len R by blast
    have "length rs = Suc (unat ?g)" using R chain_length by blast
    then show "records_for_source X P l = Inr rs"
      using R walk card len unfolding records_for_source_def Let_def ix
      by (simp add: checked_add_1 unat_plus1 chk)
  qed
qed

lemma chain_agree:
  assumes "chain X l obj g d rs" "chain X l obj' g d rs'" "inj_on (digest_of X) (ran obj \<union> ran obj')"
  shows "rs = rs'"
  using assms(1,2)
proof (induction arbitrary: rs' rule: chain.induct)
  case (chain_genesis d b r)
  obtain b' r' where r': "obj' d = Some b'" "record_from_bytes X l d b' = Inr r'" "rs' = [r']"
    using chain_genesis.prems by cases (use u64_plus1_neq0 in auto)
  have "digest_of X b = digest_of X b'" using chain_genesis(2) r'(2) record_from_bytes_Inr(1) by metis
  then have "b = b'" using assms(3) chain_genesis(1) r'(1) by (auto simp: inj_on_def ran_def)
  then show ?case using r' chain_genesis by simp
next
  case (chain_successor g d rs d' b r)
  obtain b' r' where r': "obj' d' = Some b'" "record_from_bytes X l d' b' = Inr r'"
    using chain_needs_record [OF chain_successor.prems] by auto
  have "digest_of X b = digest_of X b'" using chain_successor(4) r'(2) record_from_bytes_Inr(1) by metis
  then have "b = b'" using assms(3) chain_successor(3) r'(1) by (auto simp: inj_on_def ran_def)
  then have rr: "r' = r" using r' chain_successor by simp
  show ?case using chain_successor.prems
  proof cases
    case (chain_genesis b2 r2)
    then show ?thesis using chain_successor.hyps u64_plus1_neq0 by auto
  next
    case (chain_successor g2 d2 rs2 b2 r2)
    then have "r2 = r" using r' rr by auto
    then have "g2 = g" "d2 = d" using chain_successor \<open>rec_prior r = Some \<lparr>pos_generation = g, pos_digest = d\<rparr>\<close> by auto
    then show ?thesis using chain_successor chain_successor.IH \<open>r2 = r\<close> by auto
  qed
qed

end
