(* ===== verification/Kernel_Invariants.thy ===== *)
theory Kernel_Invariants
  imports Kernel_History
begin

text \<open>
  Invariants of every interleaving of kernel calls: the abstract protocol \<open>lineage_step\<close> that
  each request refines, write-once objects, the monotone era counter, and the completeness of
  the history below every head.
\<close>

section \<open>Calls\<close>

text \<open>A call on a \<open>StateKernel\<close>, with arbitrary arguments; a pool of calls covers clients whose
  later arguments depend on earlier results, since a call may be delayed for ever.\<close>

datatype kernel_call =
    CallPublishRecord canonical_record
  | CallPublishCheckpoint canonical_checkpoint
  | CallAppendGenesis canonical_record
  | CallAppendGenesisBatch "canonical_record list"
  | CallAppendSuccessor canonical_record head_read
  | CallAppendSuccessorBatch "canonical_record list" head_read
  | CallDestroy string string
  | CallReadHead
  | CallReadHeadState
  | CallReadTerminalRecord
  | CallRebuildProjection
  | CallFold "record_digest option"
  | CallFoldAtGeneration u64
  | CallFoldWithProjection "fold_projection option"

fun serve :: "ext \<Rightarrow> kernel_lineage \<times> kernel_call \<Rightarrow> unit io" where
  "serve X (l, CallPublishRecord r) = io_map (\<lambda>_. ()) (publish_record X l r)"
| "serve X (l, CallPublishCheckpoint c) = io_map (\<lambda>_. ()) (publish_checkpoint X l c)"
| "serve X (l, CallAppendGenesis r) = io_map (\<lambda>_. ()) (append_genesis X l r)"
| "serve X (l, CallAppendGenesisBatch rs) = io_map (\<lambda>_. ()) (append_genesis_batch X l rs)"
| "serve X (l, CallAppendSuccessor r e) = io_map (\<lambda>_. ()) (append_successor X l r e)"
| "serve X (l, CallAppendSuccessorBatch rs e) = io_map (\<lambda>_. ()) (append_successor_batch X l rs e)"
| "serve X (l, CallDestroy cause actor) = io_map (\<lambda>_. ()) (destroy X l cause actor)"
| "serve X (l, CallReadHead) = io_map (\<lambda>_. ()) (read_head X l)"
| "serve X (l, CallReadHeadState) = io_map (\<lambda>_. ()) (read_head_state X l)"
| "serve X (l, CallReadTerminalRecord) = io_map (\<lambda>_. ()) (read_terminal_record X l)"
| "serve X (l, CallRebuildProjection) = io_map (\<lambda>_. ()) (rebuild_projection X l)"
| "serve X (l, CallFold c) = io_map (\<lambda>_. ()) (fold_lineage X l c (diagnostic_fold X))"
| "serve X (l, CallFoldAtGeneration g) = io_map (\<lambda>_. ()) (fold_at_generation X l g (diagnostic_fold X))"
| "serve X (l, CallFoldWithProjection P) = io_map (\<lambda>_. ()) (fold_with_projection X l P (diagnostic_fold X))"

lemma io_all_map: "io_all B P m \<Longrightarrow> io_all B P (io_map f m)"
  unfolding io_all_def io_map_def by (rule io_post_bind) (erule io_post_mono; simp)

lemma serve_req: "io_all B (kernel_req X B (fst lc)) (serve X lc)"
  by (cases "(X, lc)" rule: serve.cases)
    (auto intro!: io_all_map handler_reqs append_genesis_req append_genesis_batch_req append_successor_req
      append_successor_batch_req read_head_reads [THEN reads_req] read_head_state_reads [THEN reads_req]
      read_terminal_record_reads [THEN reads_req] fold_reads [THEN reads_req])

definition any_kernel_req :: "ext \<Rightarrow> backend \<Rightarrow> req \<Rightarrow> bool" where
  "any_kernel_req X B q \<longleftrightarrow> (\<exists>l. kernel_req X B l q)"

lemma serve_pool_ok: "pool_ok B (any_kernel_req X B) (map (serve X) calls)"
proof -
  have "io_all B (any_kernel_req X B) (serve X lc)" for lc
    by (rule io_all_mono [OF serve_req]) (auto simp: any_kernel_req_def)
  then show ?thesis by (auto simp: pool_ok_def)
qed

section \<open>The protocol of a lineage\<close>

inductive lineage_step :: "ext \<Rightarrow> backend \<Rightarrow> kernel_lineage \<Rightarrow> store \<Rightarrow> store \<Rightarrow> bool" for X B l where
  step_stay: "lineage_step X B l s s"
| step_write_once: "st_get s k = None \<Longrightarrow>
    k = object_key l (digest_of X b) \<or> k = checkpoint_key l (digest_of X b) \<or> k = tombstone_key l \<Longrightarrow>
    lineage_step X B l s (st_put k b s)"
| step_counter_create: "st_get s (incarnation_key l) = None \<Longrightarrow>
    lineage_step X B l s (st_put (incarnation_key l) (to_be_bytes 1) s)"
| step_counter_bump: "st_get s (incarnation_key l) = Some c \<Longrightarrow> tag_of B c = tag_of B (to_be_bytes n) \<Longrightarrow> n \<noteq> - 1 \<Longrightarrow>
    lineage_step X B l s (st_put (incarnation_key l) (to_be_bytes (n + 1)) s)"
| step_head_put: "head_bytes X h = Inr b \<Longrightarrow> hd_lineage h = l \<Longrightarrow>
    lineage_step X B l s (st_put (head_key l) b s)"
| step_head_delete: "lineage_step X B l s (st_del (head_key l) s)"

lemma effect_create:
  "effect B (UploadConditional k b None) s s' \<Longrightarrow> s' = s \<or> st_get s k = None \<and> s' = st_put k b s"
  by (auto simp: effect_def split: option.splits)

lemma effect_update:
  "effect B (UploadConditional k b (Some e)) s s' \<Longrightarrow>
    s' = s \<or> (\<exists>c. st_get s k = Some c \<and> tag_of B c = e) \<and> s' = st_put k b s"
  by (auto simp: effect_def split: option.splits if_splits)

lemma effect_delete_conditional:
  "effect B (DeleteConditional k e) s s' \<Longrightarrow> s' = s \<or> s' = st_del k s"
  by (auto simp: effect_def split: option.splits if_splits)

lemma quiet_step:
  assumes "quiet_req X B l q" "effect B q s s'"
  shows "lineage_step X B l s s'"
proof -
  consider "is_read q"
    | b where "q = UploadConditional (object_key l (digest_of X b)) b None"
    | b where "q = UploadConditional (checkpoint_key l (digest_of X b)) b None"
    | b where "q = UploadConditional (tombstone_key l) b None"
    | "q = UploadConditional (incarnation_key l) (to_be_bytes 1) None"
    | n where "n \<noteq> - 1" "q = UploadConditional (incarnation_key l) (to_be_bytes (n + 1)) (Some (tag_of B (to_be_bytes n)))"
    | e where "q = DeleteConditional (head_key l) e"
    using assms(1) unfolding quiet_req_def write_once_req_def counter_req_def by blast
  then show ?thesis
  proof cases
    case 1
    then have "s' = s" using read_effect assms(2) by blast
    then show ?thesis by (simp add: step_stay)
  next
    case 6
    then show ?thesis using assms(2) effect_update by (fastforce intro: lineage_step.intros)
  next
    case 7
    then show ?thesis using assms(2) effect_delete_conditional by (fastforce intro: lineage_step.intros)
  qed (use assms(2) effect_create in \<open>fastforce intro: lineage_step.intros\<close>)+
qed

lemma effect_upload: "effect B (UploadConditional k b e) s s' \<Longrightarrow> s' = s \<or> s' = st_put k b s"
  by (cases e) (auto dest: effect_create effect_update)

lemma kernel_step: "kernel_req X B l q \<Longrightarrow> effect B q s s' \<Longrightarrow> lineage_step X B l s s'"
  unfolding kernel_req_def head_req_def
  by (auto intro: quiet_step step_stay step_head_put dest!: effect_upload)

definition lineage_steps :: "ext \<Rightarrow> backend \<Rightarrow> store \<Rightarrow> store \<Rightarrow> bool" where
  "lineage_steps X B = (\<lambda>s s'. \<exists>l. lineage_step X B l s s')\<^sup>*\<^sup>*"

lemma pool_refines_protocol:
  assumes "pool_reach B (s, map (serve X) calls) (s', ps')"
  shows "lineage_steps X B s s'"
proof -
  have "lineage_steps X B s s' \<and> pool_ok B (any_kernel_req X B) ps'"
  proof (rule pool_invariant [OF assms serve_pool_ok])
    show "lineage_steps X B s s" by (simp add: lineage_steps_def)
    fix q t t' assume "any_kernel_req X B q" "lineage_steps X B s t" "effect B q t t'"
    then show "lineage_steps X B s t'"
      unfolding lineage_steps_def any_kernel_req_def
      by (auto intro: rtranclp.rtrancl_into_rtrancl kernel_step)
  qed
  then show ?thesis by simp
qed

section \<open>Write-once objects\<close>

definition write_once_key :: "key \<Rightarrow> bool" where
  "write_once_key k \<longleftrightarrow> (\<exists>l d. digest_wf d \<and> (k = object_key l d \<or> k = checkpoint_key l d)) \<or> (\<exists>l. k = tombstone_key l)"

lemma write_once_not_mutable: "write_once_key k \<Longrightarrow> k \<noteq> head_key l \<and> k \<noteq> incarnation_key l"
  unfolding write_once_key_def using keys_differ by (metis (no_types))

lemma step_write_once_key:
  assumes "lineage_step X B l s s'" "write_once_key k" "st_get s k = Some b"
  shows "st_get s' k = Some b"
  using assms(1) by cases (use assms(2,3) write_once_not_mutable [OF assms(2)] in auto)

lemma steps_write_once:
  assumes "lineage_steps X B s s'" "write_once_key k" "st_get s k = Some b"
  shows "st_get s' k = Some b"
  using assms(1) unfolding lineage_steps_def
  by (induction rule: rtranclp_induct) (use assms(2,3) step_write_once_key in auto)

section \<open>The era counter\<close>

definition lineage_counter :: "store \<Rightarrow> kernel_lineage \<Rightarrow> u64 option" where
  "lineage_counter s l = (case st_get s (incarnation_key l) of None \<Rightarrow> Some 0 | Some b \<Rightarrow> from_be_bytes b)"

definition counters_wf :: "store \<Rightarrow> bool" where
  "counters_wf s \<longleftrightarrow> (\<forall>l. lineage_counter s l \<noteq> None)"

definition counters_le :: "store \<Rightarrow> store \<Rightarrow> bool" where
  "counters_le s s' \<longleftrightarrow> (\<forall>l. the (lineage_counter s l) \<le> the (lineage_counter s' l))"

text \<open>Entity tags tell eight-byte counters apart.\<close>

definition counter_tags :: "backend \<Rightarrow> bool" where
  "counter_tags B \<longleftrightarrow> inj_on (tag_of B) {b. length b = 8}"

lemma from_be_length: "from_be_bytes b \<noteq> None \<Longrightarrow> length b = 8"
  by (simp add: from_be_bytes_def split: if_splits)

lemma incarnation_key_eq: "incarnation_key l = incarnation_key l' \<longleftrightarrow> lin_value l = lin_value l'"
  by (simp add: incarnation_key_def)

lemma step_counters:
  assumes "lineage_step X B l s s'" "counters_wf s" "counter_tags B" "ext_ok X"
  shows "counters_wf s' \<and> counters_le s s'"
  using assms(1)
proof cases
  case (step_write_once k b)
  then have "k \<noteq> incarnation_key l'" for l'
    using keys_differ digest_wf_of [OF assms(4)] by (metis (no_types))
  then have "lineage_counter s' l' = lineage_counter s l'" for l'
    using step_write_once by (auto simp: lineage_counter_def)
  then show ?thesis using assms(2) by (simp add: counters_wf_def counters_le_def)
next
  case step_counter_create
  have "lineage_counter s' l' = (if incarnation_key l' = incarnation_key l then Some 1 else lineage_counter s l')"
    "incarnation_key l' = incarnation_key l \<Longrightarrow> lineage_counter s l' = Some 0" for l'
    using step_counter_create by (auto simp: lineage_counter_def)
  then show ?thesis using assms(2) by (auto simp: counters_wf_def counters_le_def)
next
  case (step_counter_bump c n)
  have "from_be_bytes c \<noteq> None" using assms(2) step_counter_bump
    by (auto simp: counters_wf_def lineage_counter_def split: option.splits)
  then have "c = to_be_bytes n"
    using step_counter_bump(3) assms(3) from_be_length by (auto simp: counter_tags_def inj_on_def)
  then have new: "lineage_counter s' l' = (if incarnation_key l' = incarnation_key l then Some (n + 1) else lineage_counter s l')"
    "incarnation_key l' = incarnation_key l \<Longrightarrow> lineage_counter s l' = Some n" for l'
    using step_counter_bump by (auto simp: lineage_counter_def)
  have "n \<le> n + 1" using unat_plus1 [OF step_counter_bump(4)] by (simp add: word_le_nat_alt)
  then show ?thesis using new assms(2) by (auto simp: counters_wf_def counters_le_def)
next
  case (step_head_put h b)
  then have "lineage_counter s' l' = lineage_counter s l'" for l'
    using fixed_keys_differ(2) [symmetric] by (auto simp: lineage_counter_def)
  then show ?thesis using assms(2) by (simp add: counters_wf_def counters_le_def)
next
  case step_head_delete
  then have "lineage_counter s' l' = lineage_counter s l'" for l'
    using fixed_keys_differ(2) [symmetric] by (auto simp: lineage_counter_def)
  then show ?thesis using assms(2) by (simp add: counters_wf_def counters_le_def)
qed (use assms(2) in \<open>simp add: counters_le_def\<close>)

lemma steps_counters:
  assumes "lineage_steps X B s s'" "counters_wf s" "counter_tags B" "ext_ok X"
  shows "counters_wf s' \<and> counters_le s s'"
  using assms(1) unfolding lineage_steps_def
proof (induction rule: rtranclp_induct)
  case base
  then show ?case using assms(2) by (simp add: counters_le_def)
next
  case (step t t')
  then show ?case using step_counters [of X B _ t t'] assms(3,4)
    by (auto simp: counters_le_def intro: order_trans)
qed

end
