(* ===== verification/Kernel_Eras.thy ===== *)
theory Kernel_Eras
  imports Kernel_Invariants S3_Rely
begin

text \<open>
  Eras: what a successful append, genesis or \<open>destroy\<close> says about the era counter, when any
  other kernel calls run in between.  A call is an \<open>env_run\<close> whose environment makes protocol
  steps (\<open>lineage_steps\<close>); the counter reads before and after the head's compare-and-swap
  enclose it, and the counter never decreases.
\<close>

abbreviation krun :: "ext \<Rightarrow> backend \<Rightarrow> 'a io \<Rightarrow> store \<Rightarrow> entry list \<Rightarrow> 'a \<Rightarrow> store \<Rightarrow> bool" where
  "krun X B \<equiv> env_run (lineage_steps X B) B"

lemma steps_refl: "lineage_steps X B s s"
  by (simp add: lineage_steps_def)

lemma steps_trans: "lineage_steps X B s t \<Longrightarrow> lineage_steps X B t u \<Longrightarrow> lineage_steps X B s u"
  unfolding lineage_steps_def by (rule rtranclp_trans)

lemma answer_steps: "kernel_req X B l q \<Longrightarrow> answer B q s r s' \<Longrightarrow> lineage_steps X B s s'"
  unfolding lineage_steps_def using kernel_step answer_effect by blast

lemma krun_steps:
  assumes "krun X B m s h a s'" "io_all B (kernel_req X B l) m"
  shows "lineage_steps X B s s'"
proof (rule env_run_steps [OF assms steps_refl steps_trans])
  show "lineage_steps X B t t'" if "kernel_req X B l q" "effect B q t t'" for q t t'
    using kernel_step [OF that] unfolding lineage_steps_def by blast
qed

section \<open>What single calls establish\<close>

lemma krun_download:
  assumes "krun X B (download k) s h x s'"
  shows "lineage_steps X B s s' \<and> (\<forall>b. x = Inr b \<longrightarrow> st_get s' k = Some b) \<and>
    (\<forall>e. x = Inl e \<longrightarrow> is_NotFound e \<longrightarrow> st_get s' k = None)"
  using env_run_download_at [OF assms] by blast

lemma krun_download_with_etag:
  assumes "krun X B (download_with_etag k) s h x s'"
  shows "lineage_steps X B s s' \<and> (\<forall>b t. x = Inr (b, t) \<longrightarrow> st_get s' k = Some b \<and> t = Some (tag_of B b)) \<and>
    (\<forall>e. x = Inl e \<longrightarrow> is_NotFound e \<longrightarrow> st_get s' k = None)"
  using env_run_download_with_etag [OF assms] by blast

lemmas krun_put = env_run_put [where R = "lineage_steps X B" for X B]
lemmas krun_create_taken = env_run_create_taken [where R = "lineage_steps X B" for X B]

lemma krun_current_incarnation:
  assumes "krun X B (current_incarnation l) s h (Inr i) s'"
  shows "lineage_steps X B s s'" "lineage_counter s' l = Some i"
proof -
  from assms obtain h1 h2 x t where d: "krun X B (download (incarnation_key l)) s h1 x t"
    and k: "krun X B (case x of Inr b \<Rightarrow> Ret (ok_or (from_be_bytes b) (StateUnavailable ''lineage incarnation counter malformed''))
      | Inl e \<Rightarrow> Ret (if is_NotFound e then Inr 0 else Inl (StateUnavailable ''lineage incarnation counter read''))) t h2 (Inr i) s'"
    unfolding current_incarnation_def env_run_bind by blast
  note D = krun_download [OF d]
  have "s' = t \<and> lineage_counter t l = Some i"
  proof (cases x)
    case (Inl e)
    then have "is_NotFound e" "i = 0" "s' = t" using k by (auto split: if_splits)
    then show ?thesis using D Inl by (simp add: lineage_counter_def)
  next
    case (Inr b)
    then have "ok_or (from_be_bytes b) (StateUnavailable ''lineage incarnation counter malformed'') = Inr i" "s' = t"
      using k by simp_all
    then have "from_be_bytes b = Some i" "s' = t" by simp_all
    then show ?thesis using D Inr by (simp add: lineage_counter_def)
  qed
  then show "lineage_steps X B s s'" "lineage_counter s' l = Some i" using D by auto
qed

lemma krun_ensure_open_era:
  assumes "krun X B (ensure_open_era X l hh) s h (Inr u) s'"
  shows "lineage_steps X B s s'" "lineage_counter s' l = Some (hd_incarnation hh)"
proof -
  from assms obtain h1 h2 i t where c: "krun X B (current_incarnation l) s h1 (Inr i) t"
    and k: "krun X B (if i = hd_incarnation hh then Ret (Inr ()) else fail_conflict X l) t h2 (Inr u) s'"
    unfolding ensure_open_era_def env_run_try_Inr by blast
  have "i = hd_incarnation hh \<and> s' = t"
    using k by (cases "i = hd_incarnation hh") (auto simp: fail_conflict_def env_run_bind)
  then show "lineage_steps X B s s'" "lineage_counter s' l = Some (hd_incarnation hh)"
    using krun_current_incarnation [OF c] by auto
qed

lemma krun_fail_conflict: "\<not> krun X B (fail_conflict X l) s h (Inr a) s'"
  by (auto simp: fail_conflict_def env_run_bind)

lemma krun_retire:
  assumes "krun X B (retire_closed_era_publication X l p) s h (Inr u) s'"
  shows "lineage_steps X B s s'" "lineage_counter s' l = Some (hd_incarnation (hr_head p))"
proof -
  from assms obtain h1 h2 i t where c: "krun X B (current_incarnation l) s h1 (Inr i) t"
    and k: "krun X B (if i = hd_incarnation (hr_head p) then Ret (Inr ())
      else io_bind (delete_conditional (head_key l) (hr_etag p)) (\<lambda>r. case r of
        Inr _ \<Rightarrow> fail_conflict X l
      | Inl e \<Rightarrow> if is_NotFound e \<or> is_PreconditionFailed e then fail_conflict X l
                 else Ret (Inl (StateUnavailable ''head update (closed-era conditional eviction)'')))) t h2 (Inr u) s'"
    unfolding retire_closed_era_publication_def env_run_try_Inr by blast
  have "i = hd_incarnation (hr_head p) \<and> s' = t"
  proof (cases "i = hd_incarnation (hr_head p)")
    case False
    with k obtain h3 h4 t1 and r :: "store_error + unit" where "krun X B (case r of
        Inr _ \<Rightarrow> fail_conflict X l
      | Inl e \<Rightarrow> if is_NotFound e \<or> is_PreconditionFailed e then fail_conflict X l
                 else Ret (Inl (StateUnavailable ''head update (closed-era conditional eviction)''))) t1 h4 (Inr u) s'"
      by (auto simp: env_run_bind)
    then show ?thesis by (cases r) (auto simp: krun_fail_conflict split: if_splits)
  qed (use k in auto)
  then show "lineage_steps X B s s'" "lineage_counter s' l = Some (hd_incarnation (hr_head p))"
    using krun_current_incarnation [OF c] by auto
qed

lemma krun_replace_head:
  assumes "krun X B (replace_head X l hh e) s h (Inr adv) s'"
  shows "\<exists>s1 b. lineage_steps X B s s1 \<and> head_bytes X hh = Inr b \<and> s' = st_put (head_key l) b s1 \<and>
    h = [(s1, UploadConditional (head_key l) b (Some e), REtag (Inr (Some (tag_of B b))), s')] \<and>
    adv = \<lparr>hr_head = hh, hr_etag = tag_of B b\<rparr> \<and> (\<exists>c. st_get s1 (head_key l) = Some c \<and> tag_of B c = e)"
proof -
  from assms obtain b h1 h2 r t where b: "head_bytes X hh = Inr b"
    and put: "krun X B (upload_conditional (head_key l) b (Some e)) s h1 r t"
    and k: "krun X B (case r of
        Inr etag \<Rightarrow> lift_res (ok_or etag (StateUnavailable ''head update did not return an ETag'')) (\<lambda>etag.
          Ret (Inr \<lparr>hr_head = hh, hr_etag = etag\<rparr>))
      | Inl e \<Rightarrow> if is_PreconditionFailed e then fail_conflict X l
                 else Ret (Inl (StateUnavailable ''head conditional update''))) t h2 (Inr adv) s'" and h: "h = h1 @ h2"
    unfolding replace_head_def env_run_lift_res env_run_bind by auto
  obtain et where r: "r = Inr et" using k by (cases r) (auto simp: krun_fail_conflict split: if_splits)
  from krun_put [OF put [unfolded r]] show ?thesis
    using k b h by (auto simp: r env_run_lift_res)
qed

section \<open>Appends linearize in an open era\<close>

lemma counter_between:
  assumes "lineage_steps X B s t" "lineage_steps X B t u" "counters_wf s" "counter_tags B" "ext_ok X"
    "lineage_counter s l = Some i" "lineage_counter u l = Some i"
  shows "lineage_counter t l = Some i"
proof -
  note st = steps_counters [OF assms(1,3,4,5)]
  note tu = steps_counters [OF assms(2) _ assms(4,5)]
  have "the (lineage_counter s l) \<le> the (lineage_counter t l)" "the (lineage_counter t l) \<le> the (lineage_counter u l)"
    using st tu by (auto simp: counters_le_def)
  moreover have "lineage_counter t l \<noteq> None" using st by (simp add: counters_wf_def)
  ultimately show ?thesis using assms(6,7) by auto
qed

text \<open>The tail shared by the single and the batched successor append.\<close>

lemma krun_advance:
  assumes "krun X B (advance_head X l hh e) s h (Inr adv) s'"
    and "lineage_counter s0 l = Some (hd_incarnation hh)" "lineage_steps X B s0 s" "hd_lineage hh = l"
    and "counters_wf s0" "counter_tags B" "ext_ok X"
  shows "\<exists>s1 b h'. h = (s1, UploadConditional (head_key l) b (Some e), REtag (Inr (Some (tag_of B b))), st_put (head_key l) b s1) # h' \<and>
    adv = \<lparr>hr_head = hh, hr_etag = tag_of B b\<rparr> \<and> head_bytes X hh = Inr b \<and>
    (\<exists>c. st_get s1 (head_key l) = Some c \<and> tag_of B c = e) \<and>
    lineage_counter s1 l = Some (hd_incarnation hh) \<and> lineage_steps X B s s1"
proof -
  from assms(1) obtain h1 h2 a t where rep: "krun X B (replace_head X l hh e) s h1 (Inr a) t"
    and ret: "krun X B (io_try (retire_closed_era_publication X l a) (\<lambda>_. Ret (Inr a))) t h2 (Inr adv) s'" and h: "h = h1 @ h2"
    unfolding advance_head_def env_run_try_Inr by blast
  from krun_replace_head [OF rep] obtain s1 b where
    s1: "lineage_steps X B s s1" and b: "head_bytes X hh = Inr b" and t: "t = st_put (head_key l) b s1" and
    h1: "h1 = [(s1, UploadConditional (head_key l) b (Some e), REtag (Inr (Some (tag_of B b))), t)]" and
    a: "a = \<lparr>hr_head = hh, hr_etag = tag_of B b\<rparr>" and c: "\<exists>c. st_get s1 (head_key l) = Some c \<and> tag_of B c = e"
    by blast
  from ret obtain h3 u t3 where "krun X B (retire_closed_era_publication X l a) t h3 (Inr u) t3" "adv = a"
    unfolding env_run_try_Inr by auto
  then have t3: "lineage_steps X B t t3" "lineage_counter t3 l = Some (hd_incarnation hh)"
    using krun_retire a by fastforce+
  have "lineage_step X B l s1 t" unfolding t using b assms(4) by (rule step_head_put)
  then have "lineage_steps X B s1 t" unfolding lineage_steps_def by blast
  then have "lineage_counter s1 l = Some (hd_incarnation hh)"
    using counter_between [OF steps_trans [OF assms(3) s1] steps_trans [OF _ t3(1)] assms(5,6,7,2) t3(2)] by blast
  then show ?thesis using h h1 t a b c \<open>adv = a\<close> s1 by auto
qed

lemma append_successor_linear:
  assumes "krun X B (append_successor X l r expected) s h (Inr adv) s'"
    and "counters_wf s" "counter_tags B" "ext_ok X"
  shows "\<exists>h1 s1 b h2. h = h1 @ (s1, UploadConditional (head_key l) b (Some (hr_etag expected)),
      REtag (Inr (Some (hr_etag adv))), st_put (head_key l) b s1) # h2 \<and>
    head_bytes X (hr_head adv) = Inr b \<and> tag_of B b = hr_etag adv \<and>
    (\<exists>c. st_get s1 (head_key l) = Some c \<and> tag_of B c = hr_etag expected) \<and>
    lineage_counter s1 l = Some (hd_incarnation (hr_head expected)) \<and> lineage_steps X B s s1 \<and>
    hr_head adv = \<lparr>hd_lineage = l, hd_generation = hd_generation (hr_head expected) + 1,
      hd_incarnation = hd_incarnation (hr_head expected), hd_record_digest = hd_record_digest (hr_head adv),
      hd_prior = Some (head_position (hr_head expected))\<rparr>"
proof -
  let ?e = "hr_head expected"
  from assms(1) obtain hg tg hc tc hp d tp h4 where gate: "krun X B (ensure_open_era X l ?e) s hg (Inr ()) tg"
    and check: "krun X B (check_expected X l expected) tg hc (Inr ()) tc"
    and g: "checked_add (hd_generation ?e) 1 = Some (rec_sequence r)"
    and pub: "krun X B (publish_record X l r) tc hp (Inr d) tp"
    and adv: "krun X B (advance_head X l \<lparr>hd_lineage = l, hd_generation = rec_sequence r,
        hd_incarnation = hd_incarnation ?e, hd_record_digest = d, hd_prior = Some (head_position ?e)\<rparr>
        (hr_etag expected)) tp h4 (Inr adv) s'"
    and h: "h = hg @ hc @ hp @ h4"
    unfolding append_successor_def Let_def
    by (auto simp: env_run_try_Inr env_run_lift_res krun_fail_conflict split: if_splits)
  have steps0: "lineage_steps X B s tg" and era: "lineage_counter tg l = Some (hd_incarnation ?e)"
    using krun_ensure_open_era [OF gate] by auto
  have "lineage_steps X B tg tc" using krun_steps [OF check reads_req [OF check_expected_reads]] .
  moreover have "lineage_steps X B tc tp" using krun_steps [OF pub quiet_all_req [OF publish_record_quiet]] .
  ultimately have steps1: "lineage_steps X B tg tp" by (rule steps_trans)
  have wf: "counters_wf tg" using steps_counters [OF steps0 assms(2-4)] by simp
  from krun_advance [OF adv _ steps1 _ wf assms(3,4)] era obtain s1 b h' where
    "h4 = (s1, UploadConditional (head_key l) b (Some (hr_etag expected)), REtag (Inr (Some (tag_of B b))), st_put (head_key l) b s1) # h'"
    "adv = \<lparr>hr_head = \<lparr>hd_lineage = l, hd_generation = rec_sequence r, hd_incarnation = hd_incarnation ?e,
                       hd_record_digest = d, hd_prior = Some (head_position ?e)\<rparr>, hr_etag = tag_of B b\<rparr>"
    "head_bytes X (hr_head adv) = Inr b"
    "\<exists>c. st_get s1 (head_key l) = Some c \<and> tag_of B c = hr_etag expected"
    "lineage_counter s1 l = Some (hd_incarnation ?e)" and s1: "lineage_steps X B tp s1" by auto
  moreover have "rec_sequence r = hd_generation ?e + 1" using g by (simp add: checked_add_1 split: if_splits)
  moreover have "lineage_steps X B s s1" using steps_trans [OF steps0 steps_trans [OF steps1 s1]] .
  ultimately show ?thesis using h
    by (intro exI [of _ "hg @ hc @ hp"] exI [of _ s1] exI [of _ b] exI [of _ h']) simp
qed

end
