(* ===== verification/Kernel_Complete.thy ===== *)
theory Kernel_Complete
  imports Kernel_Invariants
begin

text \<open>
  The history below every head is complete, in every interleaving of kernel calls with any
  failures: a head is only ever written over a log whose records are all in the store.  The
  proof is by rely-guarantee: the store invariant \<open>kinv\<close>, the rely \<open>krely\<close> (objects persist
  and the invariant is kept by everybody), and the assertion \<open>kassert\<close> at each request.
\<close>

section \<open>Lineages of the same name\<close>

text \<open>The policy is not part of any stored byte: what one handle stores, a handle of the same
  lineage with another policy reads.\<close>

definition relabel :: "kernel_lineage \<Rightarrow> canonical_record \<Rightarrow> canonical_record" where
  "relabel l r = r\<lparr>rec_lineage := l\<rparr>"

lemma relabel_fields [simp]:
  "rec_sequence (relabel l r) = rec_sequence r" "rec_prior (relabel l r) = rec_prior r"
  "rec_lineage (relabel l r) = l" "rec_payload (relabel l r) = rec_payload r"
  by (simp_all add: relabel_def)

lemma relabel_wf: "record_wf l r \<Longrightarrow> record_wf l' (relabel l' r)"
  by (cases r) (simp add: record_wf_def relabel_def canonical_record_new_def split: if_splits)

lemma relabel_wire: "lin_value (rec_lineage r) = lin_value l \<Longrightarrow> record_to_wire X (relabel l r) = record_to_wire X r"
  by (simp add: record_to_wire_def relabel_def)

lemma relabel_bytes:
  "lin_value (rec_lineage r) = lin_value l \<Longrightarrow> record_bytes X r = Inr b \<Longrightarrow> record_bytes X (relabel l r) = Inr b"
  by (simp add: record_bytes_Inr relabel_wire)

lemma decode_relabel:
  assumes "ext_ok X" "record_from_bytes X l d b = Inr r" "lin_value l' = lin_value l"
  shows "record_from_bytes X l' d b = Inr (relabel l' r)"
proof -
  note r = record_from_bytes_Inr [OF assms(2)]
  have "record_bytes X (relabel l' r) = Inr b" using relabel_bytes r assms(3) by simp
  from record_from_bytes_encoded [OF assms(1) relabel_wf [OF r(3)] this] show ?thesis using r(1) by simp
qed

lemma decode_stored:
  assumes "ext_ok X" "record_wf l0 r" "lin_value l = lin_value l0" "record_bytes X r = Inr b"
  shows "record_from_bytes X l (digest_of X b) b = Inr (relabel l r)"
proof -
  have "record_from_bytes X l0 (digest_of X b) b = Inr r"
    by (rule record_from_bytes_encoded) (use assms in auto)
  then show ?thesis using decode_relabel assms by blast
qed

lemma chain_relabel:
  assumes "chain X l obj g d rs" "ext_ok X" "lin_value l' = lin_value l"
  shows "chain X l' obj g d (map (relabel l') rs)"
  using assms(1)
proof (induction rule: chain.induct)
  case (chain_genesis d b r)
  then show ?case using decode_relabel assms(2,3) by (auto intro: chain.chain_genesis)
next
  case (chain_successor g d rs d' b r)
  then have "chain X l' obj (g + 1) d' (map (relabel l') rs @ [relabel l' r])"
    using decode_relabel [OF assms(2) chain_successor(4) assms(3)] by (auto intro: chain.chain_successor)
  then show ?case by simp
qed

lemma head_decode_relabel:
  assumes "ext_ok X" "head_from_bytes X l b = Inr h" "lin_value l' = lin_value l"
  shows "head_from_bytes X l' b = Inr (h\<lparr>hd_lineage := l'\<rparr>)"
proof -
  let ?h = "h\<lparr>hd_lineage := l'\<rparr>"
  have wf: "head_wf l h" and enc: "head_bytes X h = Inr b \<or> hd_incarnation h = 0 \<and> legacy_v1_bytes X h = Inr b"
    using head_from_bytes_Inr [OF assms(2)] by auto
  have wf': "head_wf l' ?h" using wf by (simp add: head_wf_def)
  have l: "lin_value (hd_lineage h) = lin_value l'" using wf assms(3) by (simp add: head_wf_def)
  from enc show ?thesis
  proof
    assume "head_bytes X h = Inr b"
    then have "head_bytes X ?h = Inr b" using l by (simp add: head_bytes_Inr head_to_wire_def)
    then show ?thesis using head_from_bytes_encoded assms(1) wf' by blast
  next
    assume "hd_incarnation h = 0 \<and> legacy_v1_bytes X h = Inr b"
    then have "hd_incarnation ?h = 0" "legacy_v1_bytes X ?h = Inr b"
      using l by (simp_all add: legacy_bytes_Inr head_to_wire_v1_def)
    then show ?thesis using legacy_head_from_bytes assms(1) wf' by blast
  qed
qed

section \<open>Invariant, rely and assertions\<close>

definition head_chain :: "ext \<Rightarrow> kernel_lineage \<Rightarrow> store \<Rightarrow> canonical_head \<Rightarrow> canonical_record list \<Rightarrow> bool" where
  "head_chain X l s h rs \<longleftrightarrow> chain X l (objs s l) (hd_generation h) (hd_record_digest h) rs
    \<and> hd_prior h = rec_prior (last rs)"

definition head_ok :: "ext \<Rightarrow> kernel_lineage \<Rightarrow> store \<Rightarrow> bytes \<Rightarrow> bool" where
  "head_ok X l s b \<longleftrightarrow> (\<exists>h rs. head_from_bytes X l b = Inr h \<and> head_chain X l s h rs)"

definition heads_complete :: "ext \<Rightarrow> store \<Rightarrow> bool" where
  "heads_complete X s \<longleftrightarrow> (\<forall>l b. st_get s (head_key l) = Some b \<longrightarrow> head_ok X l s b)"

definition kinv :: "ext \<Rightarrow> store \<Rightarrow> bool" where
  "kinv X s \<longleftrightarrow> ext_ok X \<and> heads_complete X s"

definition objects_persist :: "store \<Rightarrow> store \<Rightarrow> bool" where
  "objects_persist s s' \<longleftrightarrow>
    (\<forall>l d b. digest_wf d \<longrightarrow> st_get s (object_key l d) = Some b \<longrightarrow> st_get s' (object_key l d) = Some b)"

definition krely :: "ext \<Rightarrow> store \<Rightarrow> store \<Rightarrow> bool" where
  "krely X s s' \<longleftrightarrow> kinv X s' \<and> objects_persist s s'"

definition kassert :: "ext \<Rightarrow> backend \<Rightarrow> req \<Rightarrow> store \<Rightarrow> bool" where
  "kassert X B q s \<longleftrightarrow> any_kernel_req X B q \<and>
    (\<forall>l b e. q = UploadConditional (head_key l) b e \<longrightarrow> head_ok X l s b)"

lemma head_key_eq: "head_key l = head_key l' \<longleftrightarrow> lin_value l = lin_value l'"
  by (simp add: head_key_def)

lemma object_key_eq: "lin_value l = lin_value l' \<Longrightarrow> object_key l d = object_key l' d"
  by (simp add: object_key_def)

lemma objs_eq: "lin_value l = lin_value l' \<Longrightarrow> objs s l = objs s l'"
  by (simp add: objs_def fun_eq_iff object_key_def)

lemma head_chain_persist:
  "head_chain X l s h rs \<Longrightarrow> objects_persist s s' \<Longrightarrow> ext_ok X \<Longrightarrow> head_chain X l s' h rs"
  unfolding head_chain_def objects_persist_def objs_def
  by (auto intro: chain_mono [where obj = "\<lambda>d. st_get s (object_key l d)"])

lemma head_ok_persist: "head_ok X l s b \<Longrightarrow> objects_persist s s' \<Longrightarrow> ext_ok X \<Longrightarrow> head_ok X l s' b"
  unfolding head_ok_def using head_chain_persist by blast

lemma head_ok_relabel:
  assumes "head_ok X l s b" "ext_ok X" "lin_value l' = lin_value l"
  shows "head_ok X l' s b"
proof -
  obtain h rs where h: "head_from_bytes X l b = Inr h" "head_chain X l s h rs"
    using assms(1) by (auto simp: head_ok_def)
  then have "chain X l (objs s l) (hd_generation h) (hd_record_digest h) rs" by (simp add: head_chain_def)
  from chain_relabel [OF this assms(2,3)]
  have c: "chain X l' (objs s l') (hd_generation h) (hd_record_digest h) (map (relabel l') rs)"
    by (simp add: objs_eq [OF assms(3)])
  have "rs \<noteq> []" using h(2) chain_top unfolding head_chain_def by blast
  then show ?thesis using head_decode_relabel [OF assms(2) h(1) assms(3)] h(2) c
    by (auto simp: head_ok_def head_chain_def last_map)
qed

lemma objects_persist_refl [simp]: "objects_persist s s"
  by (simp add: objects_persist_def)

lemma objects_persist_trans: "objects_persist s t \<Longrightarrow> objects_persist t u \<Longrightarrow> objects_persist s u"
  by (simp add: objects_persist_def)

lemma step_persist: "lineage_step X B l s s' \<Longrightarrow> objects_persist s s'"
  unfolding objects_persist_def
proof (intro allI impI)
  fix l' d b
  assume "lineage_step X B l s s'" "digest_wf d" "st_get s (object_key l' d) = Some b"
  moreover have "write_once_key (object_key l' d)" using calculation(2) by (auto simp: write_once_key_def)
  ultimately show "st_get s' (object_key l' d) = Some b" using step_write_once_key by blast
qed

lemma quiet_keeps_heads:
  assumes "ext_ok X" "quiet_req X B l q" "effect B q s s'" "st_get s' (head_key l') = Some b"
  shows "st_get s (head_key l') = Some b"
proof -
  have "is_read q \<or> (\<exists>k c e. q = UploadConditional k c e \<and> k \<noteq> head_key l') \<or> (\<exists>e. q = DeleteConditional (head_key l) e)"
    using assms(2) keys_differ digest_wf_of [OF assms(1)]
    unfolding quiet_req_def write_once_req_def counter_req_def by metis
  then show ?thesis
    using assms(3,4) read_effect [of q B s s'] effect_upload effect_delete_conditional
    by (fastforce split: if_splits)
qed

lemma kernel_guarantee:
  assumes "kinv X s" "kassert X B q s" "answer B q s r s'"
  shows "krely X s s'"
proof -
  have X: "ext_ok X" and heads: "heads_complete X s" using assms(1) by (simp_all add: kinv_def)
  obtain l where q: "kernel_req X B l q" using assms(2) by (auto simp: kassert_def any_kernel_req_def)
  note eff = answer_effect [OF assms(3)]
  have step: "lineage_step X B l s s'" using kernel_step [OF q eff] .
  have persist: "objects_persist s s'" using step_persist [OF step] .
  have "head_ok X l' s' b" if b: "st_get s' (head_key l') = Some b" for l' b
  proof (cases "st_get s (head_key l') = Some b")
    case True
    then show ?thesis using heads head_ok_persist [OF _ persist X] by (auto simp: heads_complete_def)
  next
    case False
    then have change: "st_get s' (head_key l') \<noteq> st_get s (head_key l')" using b by auto
    have "\<not> quiet_req X B l q"
      using quiet_keeps_heads [OF X _ eff b] False by blast
    then obtain b' e where qq: "q = UploadConditional (head_key l) b' e"
      using q by (auto simp: kernel_req_def head_req_def)
    then have "s' = st_put (head_key l) b' s" using effect_upload eff change by blast
    then have "head_key l' = head_key l" "b = b'" using b change by (auto split: if_splits)
    then have "q = UploadConditional (head_key l') b e" using qq by simp
    then have "head_ok X l' s b" using assms(2) by (auto simp: kassert_def)
    then show ?thesis using head_ok_persist persist X by blast
  qed
  then show ?thesis using X persist by (auto simp: krely_def kinv_def heads_complete_def)
qed

interpretation kernel_rg: rely_guarantee B "krely X" "kassert X B" "kinv X" for B X
proof
  show "krely X a b \<Longrightarrow> krely X b c \<Longrightarrow> krely X a c" for a b c
    by (auto simp: krely_def intro: objects_persist_trans)
  show "krely X s s'" if "kinv X s" "kassert X B q s" "answer B q s r s'" for s q r s'
    using kernel_guarantee that .
qed (simp_all add: krely_def)

section \<open>Rules for the clients\<close>

lemma quiet_assert:
  assumes "ext_ok X" "quiet_req X B l q"
  shows "kassert X B q s"
proof -
  have "q \<noteq> UploadConditional (head_key l') b e" for l' b e
    using assms(2) keys_differ digest_wf_of [OF assms(1)]
    unfolding quiet_req_def write_once_req_def counter_req_def by auto
  then show ?thesis using quiet_kernel [OF assms(2)] by (auto simp: kassert_def any_kernel_req_def)
qed

lemma t_quiet:
  assumes "kernel_rg.stable X F" "io_all B (quiet_req X B l) m"
  shows "kernel_rg.triple B X F m (\<lambda>_. F)"
  by (rule kernel_rg.t_all [OF assms]) (simp add: kinv_def quiet_assert)

lemma quiet_assert_inv: "kinv X s \<Longrightarrow> quiet_req X B l q \<Longrightarrow> kassert X B q s"
  using quiet_assert by (simp add: kinv_def)

definition stored_record :: "ext \<Rightarrow> kernel_lineage \<Rightarrow> store \<Rightarrow> canonical_record \<Rightarrow> bool" where
  "stored_record X l s r \<longleftrightarrow> (\<exists>b. record_bytes X r = Inr b \<and> st_get s (object_key l (digest_of X b)) = Some b)"

lemma stable_stored [intro]: "kernel_rg.stable X (\<lambda>s. stored_record X l s r)"
  unfolding kernel_rg.stable_def stored_record_def krely_def objects_persist_def kinv_def
  using digest_wf_of by blast

lemma stable_chain [intro]: "kernel_rg.stable X (\<lambda>s. \<exists>rs. head_chain X l s h rs)"
  unfolding kernel_rg.stable_def krely_def kinv_def using head_chain_persist by blast

lemma stable_set: "(\<And>r. r \<in> S \<Longrightarrow> kernel_rg.stable X (\<lambda>s. P r s)) \<Longrightarrow> kernel_rg.stable X (\<lambda>s. \<forall>r\<in>S. P r s)"
  unfolding kernel_rg.stable_def by blast

lemma t_publish_immutable:
  assumes "kernel_rg.stable X F" "quiet_req X B l (UploadConditional k b None)"
  shows "kernel_rg.triple B X F (publish_immutable X k b ref) (\<lambda>x s. F s \<and> (x = Inr () \<longrightarrow> st_get s k = Some b))"
  unfolding publish_immutable_def
proof (rule kernel_rg.t_bind)
  show "kernel_rg.triple B X F (upload_conditional k b None) (\<lambda>_. F)"
    using kernel_rg.t_put [OF assms(1), of B k b None] quiet_assert_inv [OF _ assms(2)]
    by (auto intro: kernel_rg.t_post)
  have "kernel_rg.triple B X F (download k) (\<lambda>x s. F s \<and> (\<forall>b. x = Inr b \<longrightarrow> st_get s k = Some b))"
    by (rule kernel_rg.t_download [OF assms(1)]) (rule quiet_assert_inv, auto)
  then have "kernel_rg.triple B X F (io_bind (download k) (\<lambda>x. case x of
        Inl _ \<Rightarrow> Ret (Inl (StateUnavailable ''immutable readback after conditional create''))
      | Inr existing \<Rightarrow> if existing = b \<and> digest_of X existing = digest_of X b then Ret (Inr ())
          else Ret (Inl (DigestMismatch ref)))) (\<lambda>x s. F s \<and> (x = Inr () \<longrightarrow> st_get s k = Some b))"
    by (rule kernel_rg.t_bind) (auto intro!: kernel_rg.t_ret split: sum.split)
  then show "kernel_rg.triple B X F
     (if (case a of Inl e \<Rightarrow> is_PreconditionFailed e | Inr _ \<Rightarrow> True) then io_bind (download k) (\<lambda>x. case x of
        Inl _ \<Rightarrow> Ret (Inl (StateUnavailable ''immutable readback after conditional create''))
      | Inr existing \<Rightarrow> if existing = b \<and> digest_of X existing = digest_of X b then Ret (Inr ())
          else Ret (Inl (DigestMismatch ref)))
      else Ret (Inl (StateUnavailable ''immutable conditional create'')))
     (\<lambda>x s. F s \<and> (x = Inr () \<longrightarrow> st_get s k = Some b))" for a
    by (auto intro!: kernel_rg.t_ret)
qed

lemma t_publish_record:
  assumes "kernel_rg.stable X F"
  shows "kernel_rg.triple B X F (publish_record X l r)
    (\<lambda>x s. F s \<and> (\<forall>d. x = Inr d \<longrightarrow> stored_record X l s r \<and> lineage_same_identity l (rec_lineage r) \<and> canonical_record_digest X r = Inr d))"
  unfolding publish_record_def Let_def
proof (intro kernel_rg.t_lift)
  fix u b assume lin: "ensure_record_lineage l r = Inr u" and b: "record_bytes X r = Inr b"
  have quiet: "quiet_req X B l (UploadConditional (object_key l (digest_of X b)) b None)" by simp
  show "kernel_rg.triple B X F
     (io_try (publish_immutable X (object_key l (digest_of X b)) b (record_reference r (Some (digest_of X b))))
       (\<lambda>_. Ret (Inr (digest_of X b))))
     (\<lambda>x s. F s \<and> (\<forall>d. x = Inr d \<longrightarrow> stored_record X l s r \<and> lineage_same_identity l (rec_lineage r) \<and> canonical_record_digest X r = Inr d))"
    by (rule kernel_rg.t_try [OF t_publish_immutable [OF assms quiet]])
      (use lin b in \<open>auto intro!: kernel_rg.t_ret
        simp: stored_record_def ensure_record_lineage_def canonical_record_digest_def split: if_splits\<close>)
qed auto

lemma t_publish_records:
  assumes "kernel_rg.stable X F"
  shows "kernel_rg.triple B X F (publish_records X l rs)
    (\<lambda>x s. F s \<and> (x = Inr () \<longrightarrow> (\<forall>r\<in>set rs. stored_record X l s r)))"
  using assms
proof (induction rs arbitrary: F)
  case Nil
  then show ?case by (auto intro: kernel_rg.t_ret)
next
  case (Cons r rs)
  let ?F = "\<lambda>s. F s \<and> stored_record X l s r"
  have "kernel_rg.stable X ?F" using Cons.prems by (intro kernel_rg.stable_conj) auto
  note IH = Cons.IH [OF this]
  show ?case unfolding publish_records.simps
  proof (rule kernel_rg.t_try [OF t_publish_record [OF Cons.prems]])
    show "kernel_rg.triple B X (\<lambda>s. F s \<and> (\<forall>d. Inr a = Inr d \<longrightarrow> stored_record X l s r
        \<and> lineage_same_identity l (rec_lineage r) \<and> canonical_record_digest X r = Inr d)) (publish_records X l rs)
        (\<lambda>x s. F s \<and> (x = Inr () \<longrightarrow> (\<forall>r\<in>set (r # rs). stored_record X l s r)))" for a
      by (rule kernel_rg.t_pre [OF kernel_rg.t_post [OF IH]]) auto
  qed simp
qed

lemma t_check_expected:
  assumes "kernel_rg.stable X F"
  shows "kernel_rg.triple B X F (check_expected X l expected)
    (\<lambda>x s. F s \<and> (x = Inr () \<longrightarrow> (\<exists>rs. head_chain X l s (hr_head expected) rs)))"
proof -
  have load: "kernel_rg.triple B X F (load_head X l)
      (\<lambda>x s. F s \<and> (\<forall>loaded. x = Inr loaded \<longrightarrow> (\<exists>rs. head_chain X l s (lh_head loaded) rs)))"
    unfolding load_head_def
  proof (rule kernel_rg.t_bind)
    show "kernel_rg.triple B X F (download_with_etag (head_key l))
      (\<lambda>x s. F s \<and> (\<forall>b t. x = Inr (b, t) \<longrightarrow> st_get s (head_key l) = Some b \<and> t = Some (tag_of B b)))"
      by (rule kernel_rg.t_download_with_etag [OF assms]) (rule quiet_assert_inv, auto)
    have ok: "\<exists>rs. head_chain X l s h rs"
      if s: "kinv X s" "st_get s (head_key l) = Some b" "head_from_bytes X l b = Inr h" for s b h
    proof -
      have "head_ok X l s b" using s by (auto simp: kinv_def heads_complete_def)
      then show ?thesis using s(3) by (auto simp: head_ok_def)
    qed
    show "kernel_rg.triple B X (\<lambda>s. F s \<and> (\<forall>b t. r = Inr (b, t) \<longrightarrow> st_get s (head_key l) = Some b \<and> t = Some (tag_of B b)))
       (case r of
          Inl e \<Rightarrow> Ret (Inl (if is_NotFound e then StateHistoryIncomplete (for_lineage l) else StateUnavailable ''head read''))
        | Inr (data, etag) \<Rightarrow> lift_res (head_from_bytes X l data) (\<lambda>h. Ret (Inr \<lparr>lh_head = h, lh_etag = etag\<rparr>)))
       (\<lambda>x s. F s \<and> (\<forall>loaded. x = Inr loaded \<longrightarrow> (\<exists>rs. head_chain X l s (lh_head loaded) rs)))" for r
      by (auto intro!: kernel_rg.t_ret kernel_rg.t_lift intro: ok split: sum.split prod.split)
  qed
  have same: "head_same_identity h e \<Longrightarrow> head_chain X l s h rs \<longleftrightarrow> head_chain X l s e rs" for h e s rs
    by (simp add: head_chain_def head_same_identity_def)
  show ?thesis unfolding check_expected_def
    by (rule kernel_rg.t_try [OF load]) (auto intro!: kernel_rg.t_ret kernel_rg.t_lift simp: same, blast)
qed

section \<open>Writing a head over its log\<close>

lemma head_chain_wf:
  assumes "head_chain X l s h rs" "ext_ok X" "hd_lineage h = l"
  shows "head_wf l h"
proof -
  have c: "chain X l (objs s l) (hd_generation h) (hd_record_digest h) rs" "hd_prior h = rec_prior (last rs)"
    using assms(1) by (auto simp: head_chain_def)
  obtain b where b: "record_from_bytes X l (hd_record_digest h) b = Inr (last rs)" "rec_sequence (last rs) = hd_generation h"
    using chain_top [OF c(1)] by auto
  have "digest_wf (hd_record_digest h)" using record_from_bytes_Inr(1) [OF b(1)] digest_wf_of [OF assms(2)] by metis
  moreover have "position_wf (hd_prior h)" "\<not> prior_malformed (hd_generation h) (hd_prior h)"
    using record_from_bytes_Inr(3,5) [OF b(1)] b(2) c(2) by (simp_all add: record_wf_def)
  ultimately show ?thesis using assms(3) by (simp add: head_wf_def)
qed

lemma head_put_assert:
  assumes "head_chain X l s h rs" "ext_ok X" "hd_lineage h = l" "head_bytes X h = Inr b"
  shows "kassert X B (UploadConditional (head_key l) b e) s"
proof -
  have "head_from_bytes X l b = Inr h"
    using head_from_bytes_encoded head_chain_wf assms by blast
  then have ok: "head_ok X l s b" using assms(1) by (auto simp: head_ok_def)
  have "any_kernel_req X B (UploadConditional (head_key l) b e)"
    using kernel_req_head_put [OF assms(4,3)] by (auto simp: any_kernel_req_def)
  then show ?thesis using head_ok_relabel [OF ok assms(2)] by (auto simp: kassert_def head_key_eq)
qed

text \<open>Any \<open>put\<close> of a head over a complete log, followed by anything quiet.\<close>

lemma t_head_put:
  assumes "hd_lineage h = l" "head_bytes X h = Inr b"
  shows "kernel_rg.triple B X (\<lambda>s. \<exists>rs. head_chain X l s h rs) (upload_conditional (head_key l) b e)
    (\<lambda>_ s. \<exists>rs. head_chain X l s h rs)"
proof -
  have "kassert X B (UploadConditional (head_key l) b e) s" if "kinv X s" "\<exists>rs. head_chain X l s h rs" for s
    using head_put_assert [OF _ _ assms] that by (auto simp: kinv_def)
  then show ?thesis
    by (intro kernel_rg.t_post [OF kernel_rg.t_put [OF stable_chain]]) auto
qed

definition log_at :: "ext \<Rightarrow> kernel_lineage \<Rightarrow> store \<Rightarrow> u64 \<Rightarrow> record_digest \<Rightarrow> record_position option \<Rightarrow> bool" where
  "log_at X l s g d prior \<longleftrightarrow> (\<exists>rs. chain X l (objs s l) g d rs \<and> prior = rec_prior (last rs))"

lemma head_chain_log_at:
  "(\<exists>rs. head_chain X l s h rs) \<longleftrightarrow> log_at X l s (hd_generation h) (hd_record_digest h) (hd_prior h)"
  by (simp add: head_chain_def log_at_def)

lemma stable_log [intro]: "kernel_rg.stable X (\<lambda>s. log_at X l s g d prior)"
  using stable_chain [of X l "\<lparr>hd_lineage = l, hd_generation = g, hd_incarnation = 0, hd_record_digest = d, hd_prior = prior\<rparr>"]
  by (simp add: head_chain_log_at)

lemma t_put_head:
  assumes "hd_lineage h = l" "head_bytes X h = Inr b" "hd_generation h = g" "hd_record_digest h = d" "hd_prior h = prior"
  shows "kernel_rg.triple B X (\<lambda>s. log_at X l s g d prior) (upload_conditional (head_key l) b e)
    (\<lambda>_ s. log_at X l s g d prior)"
  using t_head_put [OF assms(1,2), of B e] assms(3-5) by (simp add: head_chain_log_at)

lemma t_quiet_true: "io_all B (quiet_req X B l) m \<Longrightarrow> kernel_rg.triple B X F m (\<lambda>_ _. True)"
  by (rule kernel_rg.t_pre [OF t_quiet]) auto

lemma t_create_head:
  "kernel_rg.triple B X (\<lambda>s. log_at X l s g d prior) (create_head_loop X l g d prior n) (\<lambda>_ _. True)"
proof (induction n)
  case 0
  show ?case by (auto intro: kernel_rg.t_ret)
next
  case (Suc n)
  let ?F = "\<lambda>s. log_at X l s g d prior"
  have era: "kernel_rg.triple B X ?F (current_incarnation l) (\<lambda>_. ?F)"
    by (rule t_quiet [OF stable_log current_incarnation_reads [THEN reads_quiet]])
  have evict: "kernel_rg.triple B X ?F (delete_conditional (head_key l) e) (\<lambda>_. ?F)" for e
    by (rule t_quiet [where l = l, OF stable_log]) (simp add: delete_conditional_def io_all_def split: resp.split)
  note conflict = t_quiet_true [OF fail_conflict_quiet]
  show ?case
    unfolding create_head_loop.simps Let_def
    by (intro kernel_rg.t_try [OF era] kernel_rg.t_lift TrueI kernel_rg.t_bind [OF t_put_head])
      (auto intro!: kernel_rg.t_try [OF era] kernel_rg.t_lift kernel_rg.t_bind [OF evict] kernel_rg.t_ret
        Suc.IH conflict split: sum.split)
qed

lemma t_replace_head:
  assumes "hd_lineage h = l"
  shows "kernel_rg.triple B X (\<lambda>s. log_at X l s (hd_generation h) (hd_record_digest h) (hd_prior h))
    (replace_head X l h e) (\<lambda>_ _. True)"
  unfolding replace_head_def
  by (intro kernel_rg.t_lift TrueI kernel_rg.t_bind [OF t_put_head [OF assms]])
    (auto intro!: kernel_rg.t_lift kernel_rg.t_ret t_quiet_true [OF fail_conflict_quiet] split: sum.split)

section \<open>Extending the log\<close>

definition record_valid :: "canonical_record \<Rightarrow> bool" where
  "record_valid r \<longleftrightarrow> record_wf (rec_lineage r) r"

lemma chain_snoc_stored:
  assumes "ext_ok X" "record_valid r" "lineage_same_identity l (rec_lineage r)" "stored_record X l s r"
    "canonical_record_digest X r = Inr d'" "rec_sequence r = g + 1" "rec_prior r = Some \<lparr>pos_generation = g, pos_digest = d\<rparr>"
    "chain X l (objs s l) g d rs" "g \<noteq> - 1"
  shows "chain X l (objs s l) (g + 1) d' (rs @ [relabel l r])"
proof -
  obtain b where b: "record_bytes X r = Inr b" "objs s l (digest_of X b) = Some b"
    using assms(4) by (auto simp: stored_record_def objs_def)
  have d': "d' = digest_of X b" using assms(5) b by (simp add: canonical_record_digest_def)
  have "record_from_bytes X l (digest_of X b) b = Inr (relabel l r)"
    using decode_stored [OF assms(1) _ _ b(1)] assms(2,3) by (simp add: record_valid_def lineage_same_identity_def)
  then show ?thesis using chain_successor [OF assms(8,9)] b(2) d' assms(6,7) by simp
qed

lemma chain_first_stored:
  assumes "ext_ok X" "record_valid r" "lineage_same_identity l (rec_lineage r)" "stored_record X l s r"
    "canonical_record_digest X r = Inr d'" "rec_sequence r = 0" "rec_prior r = None"
  shows "chain X l (objs s l) 0 d' [relabel l r]"
proof -
  obtain b where b: "record_bytes X r = Inr b" "objs s l (digest_of X b) = Some b"
    using assms(4) by (auto simp: stored_record_def objs_def)
  have d': "d' = digest_of X b" using assms(5) b by (simp add: canonical_record_digest_def)
  have "record_from_bytes X l (digest_of X b) b = Inr (relabel l r)"
    using decode_stored [OF assms(1) _ _ b(1)] assms(2,3) by (simp add: record_valid_def lineage_same_identity_def)
  then show ?thesis using chain_genesis [of "objs s l"] b(2) d' assms(6,7) by simp
qed

lemma batch_extends:
  assumes "ext_ok X" "chain X l (objs s l) g d rs" "g \<noteq> - 1"
    "validate_batch_loop X l rs' (g + 1) (Some \<lparr>pos_generation = g, pos_digest = d\<rparr>) = Inr (Some p)"
    "\<forall>r\<in>set rs'. record_valid r \<and> stored_record X l s r"
  shows "chain X l (objs s l) (pos_generation p) (pos_digest p) (rs @ map (relabel l) rs')"
  using assms(2-)
proof (induction rs' arbitrary: g d rs)
  case (Cons r rs')
  obtain d' g' where lin: "ensure_record_lineage l r = Inr ()" and seq: "rec_sequence r = g + 1"
    and prior: "rec_prior r = Some \<lparr>pos_generation = g, pos_digest = d\<rparr>" and d': "canonical_record_digest X r = Inr d'"
    and next_g: "checked_add (g + 1) 1 = Some g'"
    and rest: "validate_batch_loop X l rs' g' (Some \<lparr>pos_generation = g + 1, pos_digest = d'\<rparr>) = Inr (Some p)"
    using Cons.prems(3) by (auto split: if_splits)
  have g': "g + 1 \<noteq> - 1" "g' = (g + 1) + 1" using next_g by (auto simp: checked_add_1 split: if_splits)
  have same: "lineage_same_identity l (rec_lineage r)"
    using lin by (simp add: ensure_record_lineage_def split: if_splits)
  have "chain X l (objs s l) (g + 1) d' (rs @ [relabel l r])"
    by (rule chain_snoc_stored [OF assms(1)]) (use Cons.prems same d' seq prior in auto)
  from Cons.IH [OF this g'(1)] rest g'(2) Cons.prems(4) show ?case by simp
qed auto

lemma batch_from_genesis:
  assumes "ext_ok X" "validate_batch_loop X l rs 0 None = Inr (Some p)"
    "\<forall>r\<in>set rs. record_valid r \<and> stored_record X l s r"
  shows "chain X l (objs s l) (pos_generation p) (pos_digest p) (map (relabel l) rs)" "rs \<noteq> []"
proof -
  show ne: "rs \<noteq> []" using assms(2) by auto
  then obtain r rs' where rs: "rs = r # rs'" by (cases rs) auto
  obtain d' where lin: "ensure_record_lineage l r = Inr ()" and seq: "rec_sequence r = 0"
    and prior: "rec_prior r = None" and d': "canonical_record_digest X r = Inr d'"
    and rest: "validate_batch_loop X l rs' (0 + 1) (Some \<lparr>pos_generation = 0, pos_digest = d'\<rparr>) = Inr (Some p)"
    using assms(2) by (auto simp: rs checked_add_1 split: if_splits)
  have same: "lineage_same_identity l (rec_lineage r)"
    using lin by (simp add: ensure_record_lineage_def split: if_splits)
  have "chain X l (objs s l) 0 d' [relabel l r]"
    by (rule chain_first_stored [OF assms(1)]) (use assms(3) same d' seq prior rs in auto)
  from batch_extends [OF assms(1) this _ rest] assms(3) show
    "chain X l (objs s l) (pos_generation p) (pos_digest p) (map (relabel l) rs)" by (simp add: rs)
qed

section \<open>The appends\<close>

lemma log_at_genesis:
  assumes "kinv X s" "record_valid r" "lineage_same_identity l (rec_lineage r)" "stored_record X l s r"
    "canonical_record_digest X r = Inr d" "rec_sequence r = 0" "rec_prior r = None"
  shows "log_at X l s 0 d None"
  using chain_first_stored [of X r l s d] assms by (force simp: log_at_def kinv_def)

lemma log_at_successor:
  assumes "kinv X s" "record_valid r" "lineage_same_identity l (rec_lineage r)" "stored_record X l s r"
    "canonical_record_digest X r = Inr d'" "rec_sequence r = g + 1" "rec_prior r = Some \<lparr>pos_generation = g, pos_digest = d\<rparr>"
    "log_at X l s g d prior" "g \<noteq> - 1"
  shows "log_at X l s (g + 1) d' (Some \<lparr>pos_generation = g, pos_digest = d\<rparr>)"
proof -
  obtain rs where "chain X l (objs s l) g d rs" using assms(8) by (auto simp: log_at_def)
  from chain_snoc_stored [OF _ assms(2-7) this assms(9)] assms(1) show ?thesis
    using assms(7) unfolding log_at_def kinv_def by (metis last_snoc relabel_fields(2))
qed

lemma t_append_genesis:
  assumes "record_valid r"
  shows "kernel_rg.triple B X (\<lambda>_. True) (append_genesis X l r) (\<lambda>_ _. True)"
  unfolding append_genesis_def
proof (intro kernel_rg.t_lift TrueI)
  have publish: "kernel_rg.triple B X (\<lambda>_. True) (publish_record X l r)
      (\<lambda>x s. True \<and> (\<forall>d. x = Inr d \<longrightarrow> stored_record X l s r \<and> lineage_same_identity l (rec_lineage r) \<and> canonical_record_digest X r = Inr d))"
    by (rule t_publish_record) simp
  show "kernel_rg.triple B X (\<lambda>_. True)
     (if rec_sequence r \<noteq> 0 \<or> rec_prior r \<noteq> None then Ret (Inl (StateRecordMalformed (record_reference r None)))
      else io_try (publish_record X l r) (\<lambda>d. create_head X l 0 d None)) (\<lambda>_ _. True)"
  proof (cases "rec_sequence r \<noteq> 0 \<or> rec_prior r \<noteq> None")
    case False
    then have "kernel_rg.triple B X (\<lambda>_. True) (io_try (publish_record X l r) (\<lambda>d. create_head X l 0 d None)) (\<lambda>_ _. True)"
      unfolding create_head_def
      by (intro kernel_rg.t_try [OF publish] TrueI kernel_rg.t_pre [OF t_create_head])
        (auto intro: log_at_genesis assms)
    then show ?thesis using False by simp
  qed (auto intro: kernel_rg.t_ret)
qed

lemma last_prior_map: "rs \<noteq> [] \<Longrightarrow> last_prior rs = rec_prior (last (rs0 @ map (relabel l) rs))"
  by (simp add: last_prior_def last_map)

lemma t_append_genesis_batch:
  assumes "\<forall>r\<in>set rs. record_valid r"
  shows "kernel_rg.triple B X (\<lambda>_. True) (append_genesis_batch X l rs) (\<lambda>_ _. True)"
  unfolding append_genesis_batch_def create_head_def
proof (intro kernel_rg.t_lift TrueI)
  fix p assume "validate_record_batch X l rs 0 None = Inr p"
  then have loop: "validate_batch_loop X l rs 0 None = Inr (Some p)"
    by (auto simp: validate_record_batch_def)
  have publish: "kernel_rg.triple B X (\<lambda>_. True) (publish_records X l rs)
      (\<lambda>x s. True \<and> (x = Inr () \<longrightarrow> (\<forall>r\<in>set rs. stored_record X l s r)))"
    by (rule t_publish_records) simp
  have "log_at X l s (pos_generation p) (pos_digest p) (last_prior rs)"
    if "kinv X s" "\<forall>r\<in>set rs. stored_record X l s r" for s
    using batch_from_genesis [OF _ loop, of s] that assms last_prior_map [of rs "[]" l]
    by (auto simp: log_at_def kinv_def)
  then show "kernel_rg.triple B X (\<lambda>_. True) (io_try (publish_records X l rs)
      (\<lambda>_. create_head_loop X l (pos_generation p) (pos_digest p) (last_prior rs) 8)) (\<lambda>_ _. True)"
    by (intro kernel_rg.t_try [OF publish] TrueI kernel_rg.t_pre [OF t_create_head]) auto
qed

lemma t_advance:
  assumes "hd_lineage h = l" "\<And>s. kinv X s \<Longrightarrow> F s \<Longrightarrow> log_at X l s (hd_generation h) (hd_record_digest h) (hd_prior h)"
  shows "kernel_rg.triple B X F (advance_head X l h e) (\<lambda>_ _. True)"
  unfolding advance_head_def
  by (rule kernel_rg.t_try [OF kernel_rg.t_pre [OF t_replace_head [OF assms(1)] assms(2)]])
    (auto intro!: kernel_rg.t_try [OF t_quiet_true [OF retire_quiet]] kernel_rg.t_ret)

lemma t_append_successor:
  assumes "record_valid r"
  shows "kernel_rg.triple B X (\<lambda>_. True) (append_successor X l r expected) (\<lambda>_ _. True)"
proof -
  let ?h = "hr_head expected"
  let ?log = "\<lambda>s. log_at X l s (hd_generation ?h) (hd_record_digest ?h) (hd_prior ?h)"
  note conflict = t_quiet_true [OF fail_conflict_quiet]
  have check: "kernel_rg.triple B X (\<lambda>_. True) (check_expected X l expected) (\<lambda>x s. True \<and> (x = Inr () \<longrightarrow> ?log s))"
    using t_check_expected [of X "\<lambda>_. True" B l expected] by (simp add: head_chain_log_at)
  have publish: "kernel_rg.triple B X ?log (publish_record X l r)
      (\<lambda>x s. ?log s \<and> (\<forall>d. x = Inr d \<longrightarrow> stored_record X l s r \<and> lineage_same_identity l (rec_lineage r) \<and> canonical_record_digest X r = Inr d))"
    by (rule t_publish_record) auto
  have tail: "kernel_rg.triple B X ?log
     (if rec_sequence r \<noteq> g \<or> rec_prior r \<noteq> Some (head_position ?h)
      then Ret (Inl (StateRecordMalformed (record_reference r None)))
      else io_try (publish_record X l r) (\<lambda>d. advance_head X l \<lparr>hd_lineage = l, hd_generation = g, hd_incarnation = hd_incarnation ?h, hd_record_digest = d,
           hd_prior = Some (head_position ?h)\<rparr> (hr_etag expected))) (\<lambda>_ _. True)"
    if "checked_add (hd_generation ?h) 1 = Some g" for g
  proof (cases "rec_sequence r \<noteq> g \<or> rec_prior r \<noteq> Some (head_position ?h)")
    case False
    have g: "hd_generation ?h \<noteq> - 1" "g = hd_generation ?h + 1" using that by (auto simp: checked_add_1 split: if_splits)
    have "kernel_rg.triple B X ?log (io_try (publish_record X l r) (\<lambda>d. advance_head X l \<lparr>hd_lineage = l, hd_generation = g, hd_incarnation = hd_incarnation ?h, hd_record_digest = d,
           hd_prior = Some (head_position ?h)\<rparr> (hr_etag expected))) (\<lambda>_ _. True)"
      by (rule kernel_rg.t_try [OF publish TrueI], rule t_advance)
        (use log_at_successor [OF _ assms] False g in \<open>auto simp: head_position_def\<close>)
    then show ?thesis using False by simp
  qed (auto intro: kernel_rg.t_ret)
  show ?thesis
    unfolding append_successor_def Let_def
    by (auto intro!: kernel_rg.t_ret kernel_rg.t_lift kernel_rg.t_try [OF t_quiet_true [OF gate_quiet(1)]] conflict
        kernel_rg.t_try [OF check] kernel_rg.t_pre [OF tail])
      (use tail [of "rec_sequence r"] in simp)
qed

text \<open>A successor batch must not be empty: see \<open>empty_batch_corrupts\<close>.\<close>

lemma t_append_successor_batch:
  assumes "\<forall>r\<in>set rs. record_valid r" "rs \<noteq> []"
  shows "kernel_rg.triple B X (\<lambda>_. True) (append_successor_batch X l rs expected) (\<lambda>_ _. True)"
proof -
  let ?h = "hr_head expected"
  let ?log = "\<lambda>s. log_at X l s (hd_generation ?h) (hd_record_digest ?h) (hd_prior ?h)"
  note conflict = t_quiet_true [OF fail_conflict_quiet]
  have check: "kernel_rg.triple B X (\<lambda>_. True) (check_expected X l expected) (\<lambda>x s. True \<and> (x = Inr () \<longrightarrow> ?log s))"
    using t_check_expected [of X "\<lambda>_. True" B l expected] by (simp add: head_chain_log_at)
  have publish: "kernel_rg.triple B X ?log (publish_records X l rs)
      (\<lambda>x s. ?log s \<and> (x = Inr () \<longrightarrow> (\<forall>r\<in>set rs. stored_record X l s r)))"
    by (rule t_publish_records) auto
  have tail: "kernel_rg.triple B X ?log (io_try (publish_records X l rs) (\<lambda>_. advance_head X l \<lparr>hd_lineage = l, hd_generation = pos_generation p, hd_incarnation = hd_incarnation ?h,
           hd_record_digest = pos_digest p, hd_prior = last_prior rs\<rparr> (hr_etag expected))) (\<lambda>_ _. True)"
    if g: "checked_add (hd_generation ?h) 1 = Some g" and batch: "validate_record_batch X l rs g (Some (head_position ?h)) = Inr p" for g p
  proof -
    have gg: "hd_generation ?h \<noteq> - 1" "g = hd_generation ?h + 1" using g by (auto simp: checked_add_1 split: if_splits)
    have loop: "validate_batch_loop X l rs (hd_generation ?h + 1)
        (Some \<lparr>pos_generation = hd_generation ?h, pos_digest = hd_record_digest ?h\<rparr>) = Inr (Some p)"
      using batch gg by (auto simp: validate_record_batch_def head_position_def)
    have "log_at X l s (pos_generation p) (pos_digest p) (last_prior rs)"
      if "kinv X s" "?log s" "\<forall>r\<in>set rs. stored_record X l s r" for s
      using batch_extends [OF _ _ gg(1) loop] that assms last_prior_map [OF assms(2)]
      unfolding log_at_def kinv_def by blast
    then show ?thesis
      by (intro kernel_rg.t_try [OF publish TrueI] t_advance) auto
  qed
  show ?thesis
    unfolding append_successor_batch_def Let_def
    by (auto intro!: kernel_rg.t_ret kernel_rg.t_lift kernel_rg.t_try [OF t_quiet_true [OF gate_quiet(1)]] conflict
        kernel_rg.t_try [OF check] kernel_rg.t_pre [OF tail])
qed

section \<open>Pools of calls\<close>

fun call_ok :: "kernel_call \<Rightarrow> bool" where
  "call_ok (CallPublishRecord r) = record_valid r"
| "call_ok (CallAppendGenesis r) = record_valid r"
| "call_ok (CallAppendGenesisBatch rs) = list_all record_valid rs"
| "call_ok (CallAppendSuccessor r e) = record_valid r"
| "call_ok (CallAppendSuccessorBatch rs e) = (list_all record_valid rs \<and> rs \<noteq> [])"
| "call_ok c = True"

lemma t_map: "kernel_rg.triple B X F m (\<lambda>_ _. True) \<Longrightarrow> kernel_rg.triple B X F (io_map f m) (\<lambda>_ _. True)"
  unfolding io_map_def by (erule kernel_rg.t_bind) (auto intro: kernel_rg.t_ret)

lemma t_serve: "call_ok (snd lc) \<Longrightarrow> kernel_rg.triple B X (\<lambda>_. True) (serve X lc) (\<lambda>_ _. True)"
  by (cases "(X, lc)" rule: serve.cases)
    (auto intro!: t_map t_append_genesis t_append_genesis_batch t_append_successor t_append_successor_batch
      t_quiet_true [OF publish_record_quiet] t_quiet_true [OF publish_checkpoint_quiet] t_quiet_true [OF destroy_quiet]
      t_quiet_true [OF read_head_reads [THEN reads_quiet]] t_quiet_true [OF read_head_state_reads [THEN reads_quiet]]
      t_quiet_true [OF read_terminal_record_reads [THEN reads_quiet]]
      t_quiet_true [OF fold_reads(1) [THEN reads_quiet]] t_quiet_true [OF fold_reads(2) [THEN reads_quiet]]
      t_quiet_true [OF fold_reads(3) [THEN reads_quiet]] t_quiet_true [OF fold_reads(4) [THEN reads_quiet]]
      simp: list_all_iff)

lemma pool_heads_complete:
  assumes "pool_reach B (s, map (serve X) calls) (s', ps')" "ext_ok X" "heads_complete X s"
    "\<forall>c\<in>set calls. call_ok (snd c)"
  shows "heads_complete X s'"
proof -
  have inv: "kinv X s" using assms by (simp add: kinv_def)
  have "\<forall>p\<in>set (map (serve X) calls). kernel_rg.client_ok B X p s"
    using assms(4) kernel_rg.triple_client_ok [OF t_serve inv] by auto
  from kernel_rg.pool_reach_rg [OF assms(1) inv this] show ?thesis
    by (simp add: krely_def kinv_def)
qed

end
