(* ===== verification/Kernel_Functional.thy ===== *)
theory Kernel_Functional
  imports Kernel_Complete
begin

text \<open>
  What the kernel's handlers compute when one client runs alone: reads in terms of the stored
  objects and the log, the append as extension of the log, and folds as folds over the log,
  whatever checkpoint or projection is offered.
\<close>

section \<open>Reads\<close>

definition decoded_head :: "ext \<Rightarrow> kernel_lineage \<Rightarrow> store \<Rightarrow> kernel_error + canonical_head" where
  "decoded_head X l s = (case st_get s (head_key l) of
      None \<Rightarrow> Inl (StateHistoryIncomplete (for_lineage l)) | Some b \<Rightarrow> head_from_bytes X l b)"

definition head_tag :: "backend \<Rightarrow> kernel_lineage \<Rightarrow> store \<Rightarrow> etag" where
  "head_tag B l s = tag_of B (the (st_get s (head_key l)))"

lemma load_head_run [io_simps]:
  "run B (load_head X l) s = (Some (case decoded_head X l s of
      Inl e \<Rightarrow> Inl e | Inr h \<Rightarrow> Inr \<lparr>lh_head = h, lh_etag = Some (head_tag B l s)\<rparr>), s)"
  by (simp add: load_head_def run_bind io_simps decoded_head_def head_tag_def split: option.split sum.split)

lemma read_head_run [io_simps]:
  "run B (read_head X l) s = (Some (case decoded_head X l s of
      Inl e \<Rightarrow> Inl e | Inr h \<Rightarrow> Inr \<lparr>hr_head = h, hr_etag = head_tag B l s\<rparr>), s)"
  by (simp add: read_head_def run_try io_simps split: sum.split)

lemma current_incarnation_run [io_simps]:
  "run B (current_incarnation l) s = (Some (ok_or (lineage_counter s l)
      (StateUnavailable ''lineage incarnation counter malformed'')), s)"
  by (simp add: current_incarnation_def run_bind io_simps lineage_counter_def split: option.split)

lemma load_record_run [io_simps]:
  "run B (load_record X l d) s = (Some (case objs s l d of
      None \<Rightarrow> Inl (StateHistoryIncomplete (for_digest l d)) | Some b \<Rightarrow> record_from_bytes X l d b), s)"
  by (simp add: load_record_def run_bind io_simps objs_def split: option.split)

lemma load_checkpoint_run [io_simps]:
  "run B (load_checkpoint X l d) s = (Some (case st_get s (checkpoint_key l d) of
      None \<Rightarrow> Inl (StateHistoryIncomplete (for_digest l d)) | Some b \<Rightarrow> checkpoint_from_bytes X l d b), s)"
  by (simp add: load_checkpoint_def run_bind io_simps split: option.split)

lemma fail_conflict_run [io_simps]:
  "run B (fail_conflict X l) s =
    (Some (Inl (LineageHeadConflict (map_option head_reference (ok_opt (decoded_head X l s))))), s)"
  by (simp add: fail_conflict_def head_conflict_def run_bind io_simps split: sum.split)

lemma terminal_read_run:
  "run B (read_terminal_record X l) s = (Some (case decoded_head X l s of
      Inl e \<Rightarrow> Inl e
    | Inr h \<Rightarrow> (case objs s l (hd_record_digest h) of
        None \<Rightarrow> Inl (StateHistoryIncomplete (for_digest l (hd_record_digest h)))
      | Some b \<Rightarrow> (case record_from_bytes X l (hd_record_digest h) b of
          Inl e \<Rightarrow> Inl e
        | Inr r \<Rightarrow> Inr \<lparr>tr_head = \<lparr>hr_head = h, hr_etag = head_tag B l s\<rparr>, tr_record = r\<rparr>))), s)"
  by (auto simp: read_terminal_record_def run_try io_simps record_from_bytes_Inr(6) split: sum.split option.split)

lemma head_from_bytes_errs: "errs (\<lambda>e. \<exists>r. e = StateRecordMalformed r) (head_from_bytes X l b)"
proof -
  have "errs (\<lambda>e. \<exists>r. e = StateRecordMalformed r) (prior_of_wire w l d)" for w d
    by (cases w) (auto simp: into_position_def intro!: errs_intros)
  then show ?thesis
    unfolding head_from_bytes_def Let_def head_bytes_def legacy_v1_bytes_def
    by (auto intro!: errs_intros split: prod.split)
qed

lemma head_state_run:
  "run B (read_head_state X l) s = (Some (case st_get s (head_key l) of
      Some b \<Rightarrow> (case head_from_bytes X l b of
          Inr h \<Rightarrow> Inr (Present \<lparr>hr_head = h, hr_etag = tag_of B b\<rparr>)
        | Inl e \<Rightarrow> Inl e)
    | None \<Rightarrow> (case st_get s (tombstone_key l) of
          None \<Rightarrow> Inr Absent
        | Some b \<Rightarrow> (case tombstone_decode X b of
            Inr t \<Rightarrow> Inr (Destroyed t) | Inl _ \<Rightarrow> Inl (TombstoneCorrupt (for_lineage l))))), s)"
proof (cases "st_get s (head_key l)")
  case None
  then show ?thesis
    by (simp add: read_head_state_def run_bind run_try io_simps decoded_head_def load_tombstone_def
        split: option.split sum.split)
next
  case (Some b)
  have "\<And>e. head_from_bytes X l b = Inl e \<Longrightarrow> \<exists>r. e = StateRecordMalformed r"
    by (rule errsD [OF head_from_bytes_errs])
  then show ?thesis using Some
    by (cases "head_from_bytes X l b")
      (auto simp: read_head_state_def run_bind run_try io_simps decoded_head_def head_tag_def)
qed

section \<open>Publication\<close>

text \<open>Publishing is create-or-verify: the object is created, found to be the same, or refused.\<close>

lemma publish_immutable_run [io_simps]:
  "run B (publish_immutable X k b ref) s = (case st_get s k of
      None \<Rightarrow> (Some (Inr ()), st_put k b s)
    | Some b' \<Rightarrow> (Some (if b' = b then Inr () else Inl (DigestMismatch ref)), s))"
  by (simp add: publish_immutable_def run_bind io_simps split: option.split)

lemma publish_record_run [io_simps]:
  assumes "lineage_same_identity l (rec_lineage r)" "record_bytes X r = Inr b"
  shows "run B (publish_record X l r) s = (case objs s l (digest_of X b) of
      None \<Rightarrow> (Some (Inr (digest_of X b)), st_put (object_key l (digest_of X b)) b s)
    | Some b' \<Rightarrow> (Some (if b' = b then Inr (digest_of X b)
        else Inl (DigestMismatch (record_reference r (Some (digest_of X b))))), s))"
  using assms by (simp add: publish_record_def ensure_record_lineage_def Let_def run_try run_lift_res
      publish_immutable_run objs_def split: option.split)

section \<open>Heads\<close>

lemma replace_head_run [io_simps]:
  assumes "head_bytes X h = Inr b"
  shows "run B (replace_head X l h e) s =
    (if \<exists>c. st_get s (head_key l) = Some c \<and> tag_of B c = e
     then (Some (Inr \<lparr>hr_head = h, hr_etag = tag_of B b\<rparr>), st_put (head_key l) b s)
     else (Some (Inl (LineageHeadConflict (map_option head_reference (ok_opt (decoded_head X l s))))), s))"
  using assms by (auto simp: replace_head_def run_bind io_simps split: option.split)

lemma counter_put_head [simp]: "lineage_counter (st_put (head_key l) b s) l' = lineage_counter s l'"
  using fixed_keys_differ(2) [of l l'] by (auto simp: lineage_counter_def)

lemma retire_run_open:
  assumes "lineage_counter s l = Some (hd_incarnation (hr_head p))"
  shows "run B (retire_closed_era_publication X l p) s = (Some (Inr ()), s)"
  using assms by (simp add: retire_closed_era_publication_def run_try io_simps)

lemma advance_head_run:
  assumes "head_bytes X h = Inr b" "st_get s (head_key l) = Some c" "lineage_counter s l = Some (hd_incarnation h)"
  shows "run B (advance_head X l h (tag_of B c)) s =
    (Some (Inr \<lparr>hr_head = h, hr_etag = tag_of B b\<rparr>), st_put (head_key l) b s)"
  using assms by (simp add: advance_head_def run_try replace_head_run retire_run_open)

lemma ensure_open_era_run [io_simps]:
  "run B (ensure_open_era X l h) s = (case lineage_counter s l of
      None \<Rightarrow> (Some (Inl (StateUnavailable ''lineage incarnation counter malformed'')), s)
    | Some i \<Rightarrow> if i = hd_incarnation h then (Some (Inr ()), s)
        else (Some (Inl (LineageHeadConflict (map_option head_reference (ok_opt (decoded_head X l s))))), s))"
  by (simp add: ensure_open_era_def run_try io_simps split: option.split sum.split)

lemma check_expected_run [io_simps]:
  "run B (check_expected X l expected) s = (Some (case decoded_head X l s of
      Inl e \<Rightarrow> Inl e
    | Inr h \<Rightarrow> if head_same_identity h (hr_head expected) \<and> head_tag B l s = hr_etag expected then Inr ()
        else Inl (LineageHeadConflict (Some (head_reference h)))), s)"
  by (auto simp: check_expected_def run_try io_simps split: sum.split)

lemma create_head_run:
  assumes "lineage_counter s l = Some i" "st_get s (head_key l) = None"
    "head_bytes X \<lparr>hd_lineage = l, hd_generation = g, hd_incarnation = i, hd_record_digest = d, hd_prior = p\<rparr> = Inr b"
  shows "run B (create_head X l g d p) s = (Some (Inr \<lparr>hr_head = \<lparr>hd_lineage = l, hd_generation = g,
      hd_incarnation = i, hd_record_digest = d, hd_prior = p\<rparr>, hr_etag = tag_of B b\<rparr>), st_put (head_key l) b s)"
  using assms by (simp add: create_head_def eval_nat_numeral run_try run_bind io_simps Let_def)

lemma create_head_taken_run:
  assumes "lineage_counter s l = Some i" "st_get s (head_key l) \<noteq> None" "ext_ok X"
  shows "run B (create_head X l g d p) s =
    (Some (Inl (LineageHeadConflict (map_option head_reference (ok_opt (decoded_head X l s))))), s)"
proof -
  obtain b where "head_bytes X \<lparr>hd_lineage = l, hd_generation = g, hd_incarnation = i,
      hd_record_digest = d, hd_prior = p\<rparr> = Inr b" using head_bytes_total assms(3) by blast
  then show ?thesis
    using assms(1,2) by (auto simp: create_head_def eval_nat_numeral run_try run_bind io_simps Let_def)
qed

section \<open>The successor append\<close>

text \<open>The state a successor append needs: the head the caller names is the stored one, its era
  is open, the record is the next one, and its object is absent or already the same.\<close>

definition successor_ready :: "ext \<Rightarrow> backend \<Rightarrow> kernel_lineage \<Rightarrow> store \<Rightarrow> canonical_record \<Rightarrow> head_read \<Rightarrow> bool" where
  "successor_ready X B l s r expected \<longleftrightarrow> lin_policy l \<noteq> GenesisOnly \<and> lineage_same_identity l (rec_lineage r) \<and>
    lineage_counter s l = Some (hd_incarnation (hr_head expected)) \<and>
    lineage_same_identity l (hd_lineage (hr_head expected)) \<and>
    (\<exists>h. decoded_head X l s = Inr h \<and> head_same_identity h (hr_head expected)) \<and>
    head_tag B l s = hr_etag expected \<and>
    hd_generation (hr_head expected) \<noteq> - 1 \<and> rec_sequence r = hd_generation (hr_head expected) + 1 \<and>
    rec_prior r = Some (head_position (hr_head expected)) \<and>
    (\<exists>b. record_bytes X r = Inr b \<and> (objs s l (digest_of X b) = None \<or> objs s l (digest_of X b) = Some b))"

definition successor_head :: "ext \<Rightarrow> kernel_lineage \<Rightarrow> canonical_record \<Rightarrow> canonical_head \<Rightarrow> canonical_head" where
  "successor_head X l r h = \<lparr>hd_lineage = l, hd_generation = hd_generation h + 1, hd_incarnation = hd_incarnation h,
    hd_record_digest = (case canonical_record_digest X r of Inr d \<Rightarrow> d | Inl _ \<Rightarrow> RecordDigest []),
    hd_prior = Some (head_position h)\<rparr>"

lemma object_put_keeps [simp]:
  assumes "ext_ok X"
  shows "st_get (st_put (object_key l (digest_of X b)) c s) (head_key l') = st_get s (head_key l')"
    "lineage_counter (st_put (object_key l (digest_of X b)) c s) l' = lineage_counter s l'"
proof -
  have "object_key l (digest_of X b) \<noteq> head_key l'" "object_key l (digest_of X b) \<noteq> incarnation_key l'"
    using keys_differ digest_wf_of [OF assms] by metis+
  then show "st_get (st_put (object_key l (digest_of X b)) c s) (head_key l') = st_get s (head_key l')"
    "lineage_counter (st_put (object_key l (digest_of X b)) c s) l' = lineage_counter s l'"
    by (auto simp: lineage_counter_def)
qed

lemma decoded_head_get: "decoded_head X l s = Inr h \<Longrightarrow> \<exists>b. st_get s (head_key l) = Some b \<and> head_tag B l s = tag_of B b"
  by (auto simp: decoded_head_def head_tag_def split: option.splits)

lemma append_successor_run_ok:
  assumes "ext_ok X" "successor_ready X B l s r expected"
  shows "\<exists>b c s0. record_bytes X r = Inr b \<and> head_bytes X (successor_head X l r (hr_head expected)) = Inr c \<and>
    (s0 = s \<and> objs s l (digest_of X b) = Some b \<or> s0 = st_put (object_key l (digest_of X b)) b s) \<and>
    run B (append_successor X l r expected) s =
      (Some (Inr \<lparr>hr_head = successor_head X l r (hr_head expected), hr_etag = tag_of B c\<rparr>), st_put (head_key l) c s0)"
proof -
  note R = assms(2) [unfolded successor_ready_def]
  obtain b where b: "record_bytes X r = Inr b" "objs s l (digest_of X b) = None \<or> objs s l (digest_of X b) = Some b"
    using R by blast
  obtain h b0 where h: "decoded_head X l s = Inr h" "head_same_identity h (hr_head expected)"
    "st_get s (head_key l) = Some b0" "hr_etag expected = tag_of B b0" using R decoded_head_get by metis
  obtain c where c: "head_bytes X (successor_head X l r (hr_head expected)) = Inr c"
    using head_bytes_total [OF assms(1)] by blast
  have d: "canonical_record_digest X r = Inr (digest_of X b)" using b by (simp add: canonical_record_digest_def)
  have head: "successor_head X l r (hr_head expected) = \<lparr>hd_lineage = l, hd_generation = hd_generation (hr_head expected) + 1,
      hd_incarnation = hd_incarnation (hr_head expected), hd_record_digest = digest_of X b,
      hd_prior = Some (head_position (hr_head expected))\<rparr>" by (simp add: successor_head_def d)
  define s0 where "s0 = (if objs s l (digest_of X b) = None then st_put (object_key l (digest_of X b)) b s else s)"
  have pub: "run B (publish_record X l r) s = (Some (Inr (digest_of X b)), s0)"
    using publish_record_run [OF _ b(1), of l B s] R b(2) by (auto simp: s0_def)
  have adv: "run B (advance_head X l (successor_head X l r (hr_head expected)) (tag_of B b0)) s0 =
      (Some (Inr \<lparr>hr_head = successor_head X l r (hr_head expected), hr_etag = tag_of B c\<rparr>), st_put (head_key l) c s0)"
    using h(3) R object_put_keeps [OF assms(1)] by (intro advance_head_run [OF c]) (auto simp: s0_def head simp del: st_get_put)
  have "run B (append_successor X l r expected) s =
      (Some (Inr \<lparr>hr_head = successor_head X l r (hr_head expected), hr_etag = tag_of B c\<rparr>), st_put (head_key l) c s0)"
    using R h adv by (simp add: append_successor_def ensure_record_lineage_def Let_def run_lift_res run_try io_simps
        checked_add_1 pub head)
  then show ?thesis using b c by (intro exI [of _ b] exI [of _ c] exI [of _ s0]) (auto simp: s0_def)
qed

text \<open>The new head stands over the old log with the record added.\<close>

lemma append_successor_extends:
  assumes "ext_ok X" "heads_complete X s" "successor_ready X B l s r expected" "record_valid r"
    "run B (append_successor X l r expected) s = (Some (Inr adv), s')"
  shows "\<exists>h rs. decoded_head X l s = Inr h \<and> head_chain X l s h rs \<and>
    decoded_head X l s' = Inr (hr_head adv) \<and> hr_etag adv = head_tag B l s' \<and>
    head_chain X l s' (hr_head adv) (rs @ [relabel l r])"
proof -
  let ?e = "hr_head expected" and ?h' = "successor_head X l r (hr_head expected)"
  note R = assms(3) [unfolded successor_ready_def]
  obtain b c s0 where b: "record_bytes X r = Inr b" and c: "head_bytes X ?h' = Inr c"
    and s0: "s0 = s \<and> objs s l (digest_of X b) = Some b \<or> s0 = st_put (object_key l (digest_of X b)) b s"
    and adv: "adv = \<lparr>hr_head = ?h', hr_etag = tag_of B c\<rparr>" and s': "s' = st_put (head_key l) c s0"
    using append_successor_run_ok [OF assms(1,3)] assms(5) by auto
  obtain h b0 where h: "decoded_head X l s = Inr h" "head_same_identity h ?e" "st_get s (head_key l) = Some b0"
    using R decoded_head_get by blast
  have hf: "head_from_bytes X l b0 = Inr h" using h by (simp add: decoded_head_def)
  obtain rs where rs: "head_chain X l s h rs"
    using assms(2) h(3) hf unfolding heads_complete_def head_ok_def by fastforce
  have d: "canonical_record_digest X r = Inr (digest_of X b)" using b by (simp add: canonical_record_digest_def)
  have e: "hd_generation ?e = hd_generation h" "hd_record_digest ?e = hd_record_digest h"
    using h(2) by (simp_all add: head_same_identity_def)
  have keys: "object_key l d' \<noteq> head_key l" if "digest_wf d'" for d' using keys_differ that by metis
  have old: "chain X l (objs s l) (hd_generation h) (hd_record_digest h) rs" using rs by (simp add: head_chain_def)
  have same: "objs s' l d' = (if d' = digest_of X b then Some b else objs s l d')" if "digest_wf d'" for d'
    using s0 keys [OF that] that unfolding s' objs_def by (auto simp: object_key_def intro: record_digest.expand)
  have kept: "objs s l d' = Some b' \<Longrightarrow> objs s' l d' = Some b'" if "digest_wf d'" for d' b'
    using R b same [OF that] by auto
  have stored: "stored_record X l s' r"
    using b same digest_wf_of [OF assms(1)] by (simp add: stored_record_def objs_def)
  have new: "chain X l (objs s' l) (hd_generation h + 1) (digest_of X b) (rs @ [relabel l r])"
    by (rule chain_snoc_stored [OF assms(1,4) _ stored d _ _ chain_mono [OF old assms(1) kept]])
      (use R e in \<open>simp_all add: head_position_def\<close>)
  have chain': "head_chain X l s' ?h' (rs @ [relabel l r])"
    using new R e d by (simp add: head_chain_def successor_head_def)
  have "head_wf l ?h'" using head_chain_wf chain' assms(1) by (simp add: successor_head_def)
  then have "decoded_head X l s' = Inr ?h'"
    using head_from_bytes_encoded [OF assms(1) _ c] by (simp add: decoded_head_def s')
  then show ?thesis using h rs chain' adv s' by (auto simp: head_tag_def)
qed

text \<open>Otherwise it fails and the head stays.\<close>

lemma append_successor_run_fail:
  assumes "ext_ok X" "\<not> successor_ready X B l s r expected"
  shows "\<exists>e s'. run B (append_successor X l r expected) s = (Some (Inl e), s') \<and>
    st_get s' (head_key l) = st_get s (head_key l)"
proof -
  obtain b where b: "record_bytes X r = Inr b"
    using codec_ok_total [OF ext_ok_codecs(1) [OF assms(1)]] by (auto simp: record_bytes_def)
  show ?thesis
    using assms(2) unfolding successor_ready_def append_successor_def ensure_record_lineage_def Let_def
    by (cases "decoded_head X l s")
      (auto simp: run_lift_res run_try io_simps checked_add_1 publish_record_run [OF _ b] b split: option.splits)
qed

section \<open>The genesis append\<close>

lemma append_genesis_run_ok:
  assumes "ext_ok X" "lineage_same_identity l (rec_lineage r)" "rec_sequence r = 0" "rec_prior r = None"
    "record_bytes X r = Inr b" "objs s l (digest_of X b) = None \<or> objs s l (digest_of X b) = Some b"
    "lineage_counter s l = Some i" "st_get s (head_key l) = None"
    "h = \<lparr>hd_lineage = l, hd_generation = 0, hd_incarnation = i, hd_record_digest = digest_of X b, hd_prior = None\<rparr>"
  shows "\<exists>c s0. head_bytes X h = Inr c \<and>
    (s0 = s \<and> objs s l (digest_of X b) = Some b \<or> s0 = st_put (object_key l (digest_of X b)) b s) \<and>
    run B (append_genesis X l r) s = (Some (Inr \<lparr>hr_head = h, hr_etag = tag_of B c\<rparr>), st_put (head_key l) c s0)"
proof -
  obtain c where c: "head_bytes X h = Inr c" using head_bytes_total [OF assms(1)] by blast
  define s0 where "s0 = (if objs s l (digest_of X b) = None then st_put (object_key l (digest_of X b)) b s else s)"
  have pub: "run B (publish_record X l r) s = (Some (Inr (digest_of X b)), s0)"
    using publish_record_run [OF assms(2,5), of B s] assms(6) by (auto simp: s0_def)
  have "lineage_counter s0 l = Some i" "st_get s0 (head_key l) = None"
    using assms(7,8) object_put_keeps [OF assms(1)] by (auto simp: s0_def simp del: st_get_put)
  then have "run B (create_head X l 0 (digest_of X b) None) s0 =
      (Some (Inr \<lparr>hr_head = h, hr_etag = tag_of B c\<rparr>), st_put (head_key l) c s0)"
    using create_head_run [OF _ _ c [unfolded assms(9)]] assms(9) by simp
  then have "run B (append_genesis X l r) s = (Some (Inr \<lparr>hr_head = h, hr_etag = tag_of B c\<rparr>), st_put (head_key l) c s0)"
    using assms(2-4) pub by (simp add: append_genesis_def ensure_record_lineage_def run_lift_res run_try)
  then show ?thesis using c assms(6) by (intro exI [of _ c] exI [of _ s0]) (auto simp: s0_def)
qed

lemma append_genesis_taken:
  assumes "ext_ok X" "lineage_counter s l = Some i" "st_get s (head_key l) \<noteq> None"
  shows "\<exists>e s'. run B (append_genesis X l r) s = (Some (Inl e), s') \<and> st_get s' (head_key l) = st_get s (head_key l)"
proof -
  obtain b where b: "record_bytes X r = Inr b"
    using codec_ok_total [OF ext_ok_codecs(1) [OF assms(1)]] by (auto simp: record_bytes_def)
  note kept = object_put_keeps [OF assms(1)]
  have "run B (create_head X l 0 d None) s0 =
    (Some (Inl (LineageHeadConflict (map_option head_reference (ok_opt (decoded_head X l s0))))), s0)"
    if "lineage_counter s0 l = Some i" "st_get s0 (head_key l) \<noteq> None" for s0 d
    using create_head_taken_run that assms(1) by blast
  then show ?thesis using assms(2,3) kept
    unfolding append_genesis_def ensure_record_lineage_def
    by (auto simp: run_lift_res run_try publish_record_run [OF _ b] simp del: st_get_put split: option.split)
qed

section \<open>An empty successor batch\<close>

text \<open>Batch validation passes the expected position through an empty batch; the head is then
  written again with the prior of no record.\<close>

lemma empty_batch_run:
  assumes "ext_ok X" "decoded_head X l s = Inr h" "lin_policy l \<noteq> GenesisOnly"
    "lineage_counter s l = Some (hd_incarnation h)" "hd_generation h \<noteq> - 1" "hd_generation h \<noteq> 0"
  shows "\<exists>adv s'. run B (append_successor_batch X l [] \<lparr>hr_head = h, hr_etag = head_tag B l s\<rparr>) s = (Some (Inr adv), s') \<and>
    decoded_head X l s' = Inl (StateRecordMalformed (for_lineage l))"
proof -
  let ?h = "h\<lparr>hd_lineage := l, hd_prior := None\<rparr>"
  obtain b where st: "st_get s (head_key l) = Some b" "head_tag B l s = tag_of B b"
    using decoded_head_get assms(2) by metis
  have hw: "head_wf l h" using assms(2) st head_from_bytes_Inr(1) by (auto simp: decoded_head_def)
  obtain c where c: "head_bytes X ?h = Inr c" using head_bytes_total [OF assms(1)] by blast
  have h': "\<lparr>hd_lineage = l, hd_generation = hd_generation h, hd_incarnation = hd_incarnation h,
      hd_record_digest = hd_record_digest h, hd_prior = None\<rparr> = ?h" by (cases h) simp
  have adv: "run B (advance_head X l ?h (tag_of B b)) s =
      (Some (Inr \<lparr>hr_head = ?h, hr_etag = tag_of B c\<rparr>), st_put (head_key l) c s)"
    by (rule advance_head_run [OF c st(1)]) (simp add: assms(4))
  have "run B (append_successor_batch X l [] \<lparr>hr_head = h, hr_etag = head_tag B l s\<rparr>) s =
      (Some (Inr \<lparr>hr_head = ?h, hr_etag = tag_of B c\<rparr>), st_put (head_key l) c s)"
    using assms(2-5) st hw adv
    by (simp add: append_successor_batch_def head_same_identity_def lineage_same_identity_def head_wf_def
        validate_record_batch_def checked_add_1 run_lift_res run_try io_simps last_prior_def head_position_def h')
  moreover have "decoded_head X l (st_put (head_key l) c s) = Inl (StateRecordMalformed (for_lineage l))"
  proof -
    have "cdec (head_json X) c = Some (head_to_wire ?h)"
      using codec_okD [OF ext_ok_codecs(2) [OF assms(1)]] c by (simp add: head_bytes_Inr)
    then have fields: "head_fields X c = Some (hd_generation h, hd_incarnation h, as_str (hd_record_digest h), None, False)"
      by (simp add: head_fields_def head_to_wire_def)
    have "digest_parse (as_str (hd_record_digest h)) = Some (hd_record_digest h)" using hw by (simp add: head_wf_def)
    then show ?thesis using assms(6)
      by (simp add: decoded_head_def head_from_bytes_def Let_def fields prior_malformed_def word_gt_0 del: digest_parse_Some)
  qed
  ultimately show ?thesis by blast
qed

end
