(* ===== verification/Kernel_Destroy.thy ===== *)
theory Kernel_Destroy
  imports Kernel_Eras Kernel_Functional
begin

text \<open>
  Destruction: a successful bump of the era counter raises it, and a successful \<open>destroy\<close> that
  found a head leaves a tombstone and a closed era, in which no append can succeed any more.
  A successful genesis is created in the era that is open when it returns.
\<close>

section \<open>Bumping the counter\<close>

lemma counter_of_bytes:
  assumes "counters_wf s" "st_get s (incarnation_key l) = Some c"
  shows "length c = 8" "lineage_counter s l = from_be_bytes c"
proof -
  show "lineage_counter s l = from_be_bytes c" using assms(2) by (simp add: lineage_counter_def)
  then have "from_be_bytes c \<noteq> None" using assms(1) by (metis counters_wf_def)
  then show "length c = 8" by (rule from_be_length)
qed

lemma krun_bump_write:
  assumes "krun X B (upload_conditional (incarnation_key l) (to_be_bytes (n + 1)) (Some (tag_of B data))) s h (Inr t) s'"
    and "counters_wf s" "counter_tags B" "ext_ok X" "from_be_bytes data = Some n" "n \<noteq> - 1"
  shows "lineage_steps X B s s' \<and> lineage_counter s' l = Some (n + 1) \<and>
    the (lineage_counter s l) \<le> n"
proof -
  obtain s1 c where s1: "lineage_steps X B s s1" "s' = st_put (incarnation_key l) (to_be_bytes (n + 1)) s1"
    "st_get s1 (incarnation_key l) = Some c" "tag_of B c = tag_of B data" using krun_put [OF assms(1)] by auto
  note mono = steps_counters [OF s1(1) assms(2-4)]
  have len: "length c = 8" "length data = 8" using counter_of_bytes(1) mono s1(3) from_be_length assms(5) by auto
  then have c: "c = data" using assms(3) s1(4) by (auto simp: counter_tags_def inj_on_def)
  have "data = to_be_bytes n" using to_from_be_bytes [OF assms(5)] by simp
  then have "lineage_step X B l s1 s'" unfolding s1(2) using s1(3) c assms(6) by (intro step_counter_bump) auto
  then have "lineage_steps X B s s'" using s1(1) steps_trans unfolding lineage_steps_def by blast
  moreover have "the (lineage_counter s l) \<le> n"
    using mono counter_of_bytes(2) [of s1 l c] s1(3) c assms(5) unfolding counters_le_def
    by (metis option.sel)
  ultimately show ?thesis using s1(2) by (simp add: lineage_counter_def)
qed

lemma krun_bump_create:
  assumes "krun X B (upload_conditional (incarnation_key l) (to_be_bytes 1) None) s h (Inr t) s'"
    and "counters_wf s" "counter_tags B" "ext_ok X"
  shows "lineage_steps X B s s' \<and> lineage_counter s' l = Some 1 \<and> the (lineage_counter s l) = 0"
proof -
  obtain s1 where s1: "lineage_steps X B s s1" "s' = st_put (incarnation_key l) (to_be_bytes 1) s1"
    "st_get s1 (incarnation_key l) = None" using krun_put [OF assms(1)] by auto
  note mono = steps_counters [OF s1(1) assms(2-4)]
  have "lineage_step X B l s1 s'" unfolding s1(2) using s1(3) by (rule step_counter_create)
  then have "lineage_steps X B s s'" using s1(1) steps_trans unfolding lineage_steps_def by blast
  moreover have "the (lineage_counter s l) \<le> the (lineage_counter s1 l)" "lineage_counter s1 l = Some 0"
    using mono s1(3) by (simp_all add: counters_le_def) (simp add: lineage_counter_def)
  ultimately show ?thesis using s1(2) by (simp add: lineage_counter_def)
qed

lemma krun_put_steps:
  assumes "krun X B (upload_conditional (incarnation_key l) b e) s h x s'" "b = to_be_bytes 1 \<and> e = None \<or>
    (\<exists>n. b = to_be_bytes (n + 1) \<and> n \<noteq> - 1 \<and> e = Some (tag_of B (to_be_bytes n)))"
  shows "lineage_steps X B s s'"
proof (rule krun_steps [OF assms(1)])
  show "io_all B (kernel_req X B l) (upload_conditional (incarnation_key l) b e)"
    unfolding io_all_def using assms(2)
    by (intro io_post_upload_conditional) (auto simp: kernel_req_def quiet_req_def counter_req_def)
qed

lemma krun_bump_loop:
  assumes "krun X B (bump_loop l n) s h (Inr i) s'" "counters_wf s" "counter_tags B" "ext_ok X"
  shows "lineage_steps X B s s' \<and> lineage_counter s' l = Some i \<and> the (lineage_counter s l) < i"
  using assms(1,2)
proof (induction n arbitrary: s h)
  case (Suc n)
  have ind: ?case if "lineage_steps X B s t" "krun X B (bump_loop l n) t h2 (Inr i) s'" for t h2
  proof -
    note m = steps_counters [OF that(1) Suc.prems(2) assms(3,4)]
    have "the (lineage_counter s l) \<le> the (lineage_counter t l)" using m by (simp add: counters_le_def)
    then show ?thesis using Suc.IH [OF that(2)] m steps_trans [OF that(1)] by auto
  qed
  obtain h1 h2 t and r :: "store_error + bytes \<times> etag option" where
    d: "krun X B (download_with_etag (incarnation_key l)) s h1 r t"
    and k: "krun X B (case r of
      Inr (data, etag) \<Rightarrow>
        lift_res (ok_or etag (StateUnavailable ''lineage incarnation counter read (no etag)'')) (\<lambda>etag.
        lift_res (ok_or (from_be_bytes data) (StateUnavailable ''lineage incarnation counter malformed'')) (\<lambda>current.
        lift_res (ok_or (checked_add current 1) (StateUnavailable ''lineage incarnation counter exhausted'')) (\<lambda>next.
        io_bind (upload_conditional (incarnation_key l) (to_be_bytes next) (Some etag)) (\<lambda>w. case w of
            Inr _ \<Rightarrow> Ret (Inr next)
          | Inl e \<Rightarrow> if is_PreconditionFailed e then bump_loop l n
                     else Ret (Inl (StateUnavailable ''lineage incarnation counter bump''))))))
    | Inl e \<Rightarrow>
        if is_NotFound e
        then io_bind (upload_conditional (incarnation_key l) (to_be_bytes 1) None) (\<lambda>w. case w of
            Inr _ \<Rightarrow> Ret (Inr 1)
          | Inl e \<Rightarrow> if is_PreconditionFailed e then bump_loop l n
                     else Ret (Inl (StateUnavailable ''lineage incarnation counter create'')))
        else Ret (Inl (StateUnavailable ''lineage incarnation counter read''))) t h2 (Inr i) s'"
    using Suc.prems(1) unfolding bump_loop.simps env_run_bind by auto
  have st: "lineage_steps X B s t" using krun_download_with_etag [OF d] by simp
  note mt = steps_counters [OF st Suc.prems(2) assms(3,4)]
  have le: "the (lineage_counter s l) \<le> the (lineage_counter t l)" using mt by (simp add: counters_le_def)
  show ?case
  proof (cases r)
    case (Inl e)
    then obtain h3 h4 t2 and w :: "store_error + etag option" where
      w: "krun X B (upload_conditional (incarnation_key l) (to_be_bytes 1) None) t h3 w t2"
      and k2: "krun X B (case w of Inr _ \<Rightarrow> Ret (Inr 1) | Inl e \<Rightarrow> if is_PreconditionFailed e then bump_loop l n
                     else Ret (Inl (StateUnavailable ''lineage incarnation counter create''))) t2 h4 (Inr i) s'"
      using k by (auto simp: env_run_bind split: if_splits)
    show ?thesis
    proof (cases w)
      case (Inl e2)
      have "lineage_steps X B t t2" by (rule krun_put_steps [OF w]) simp
      then show ?thesis using ind [OF steps_trans [OF st]] k2 Inl by (auto split: if_splits)
    next
      case (Inr u)
      then show ?thesis using krun_bump_create [OF w [unfolded Inr] _ assms(3,4)] k2 mt le steps_trans [OF st] by auto
    qed
  next
    case (Inr p)
    then obtain data et cur h3 h4 t2 and w :: "store_error + etag option" where p: "p = (data, Some et)"
      and cur: "from_be_bytes data = Some cur" "cur \<noteq> - 1"
      and w: "krun X B (upload_conditional (incarnation_key l) (to_be_bytes (cur + 1)) (Some et)) t h3 w t2"
      and k2: "krun X B (case w of Inr _ \<Rightarrow> Ret (Inr (cur + 1)) | Inl e \<Rightarrow> if is_PreconditionFailed e then bump_loop l n
                     else Ret (Inl (StateUnavailable ''lineage incarnation counter bump''))) t2 h4 (Inr i) s'"
      using k by (cases p) (auto simp: env_run_bind env_run_lift_res checked_add_1 split: if_splits)
    have et: "et = tag_of B data" using krun_download_with_etag [OF d] Inr p by simp
    have "data = to_be_bytes cur" using to_from_be_bytes cur by metis
    then have tt2: "lineage_steps X B t t2" using cur(2) et by (intro krun_put_steps [OF w]) auto
    show ?thesis
    proof (cases w)
      case (Inl e2)
      then show ?thesis using ind [OF steps_trans [OF st tt2]] k2 by (auto split: if_splits)
    next
      case (Inr u)
      have "the (lineage_counter t l) \<le> cur" "lineage_counter t2 l = Some (cur + 1)"
        using krun_bump_write [OF w [unfolded Inr et] _ assms(3,4) cur] mt by auto
      moreover have "cur < cur + 1" using unat_plus1 [OF cur(2)] by (simp add: word_less_nat_alt)
      ultimately show ?thesis using k2 Inr le steps_trans [OF st tt2] by auto
    qed
  qed
qed simp

section \<open>Destruction\<close>

lemma krun_bump:
  assumes "krun X B (bump_incarnation l) s h (Inr i) s'" "counters_wf s" "counter_tags B" "ext_ok X"
  shows "lineage_steps X B s s' \<and> the (lineage_counter s l) < the (lineage_counter s' l)"
  using krun_bump_loop [OF assms(1) [unfolded bump_incarnation_def] assms(2-4)] by auto

lemma krun_one_request:
  assumes "krun X B (download_with_etag k) s h x s'"
  shows "length h = 1"
proof -
  from assms obtain s1 r s2 h0 where run: "krun X B (case r of RMeta x \<Rightarrow> Ret x | _ \<Rightarrow> Stuck) s2 h0 x s'"
    "h = (s1, DownloadWithEtag k, r, s2) # h0"
    by (auto simp: download_with_etag_def)
  then have "h0 = []" by (cases r; simp)
  then show ?thesis using run(2) by simp
qed

text \<open>After \<open>Ok\<close> either there was no head to destroy, or the era is closed and recorded.\<close>

lemma krun_load_head:
  assumes "krun X B (load_head X l) s h r s'"
  shows "lineage_steps X B s s'"
    "\<exists>e. r = Inl (StateHistoryIncomplete e) \<Longrightarrow> st_get s' (head_key l) = None \<and> length h = 1"
proof -
  show "lineage_steps X B s s'" using krun_steps [OF assms reads_req [OF load_head_reads]] .
  assume inc: "\<exists>e. r = Inl (StateHistoryIncomplete e)"
  from assms obtain h1 h2 t and x :: "store_error + bytes \<times> etag option" where
    d: "krun X B (download_with_etag (head_key l)) s h1 x t"
    and k: "krun X B (case x of
      Inl e \<Rightarrow> Ret (Inl (if is_NotFound e then StateHistoryIncomplete (for_lineage l) else StateUnavailable ''head read''))
    | Inr (data, etag) \<Rightarrow> lift_res (head_from_bytes X l data) (\<lambda>h. Ret (Inr \<lparr>lh_head = h, lh_etag = etag\<rparr>))) t h2 r s'" and h: "h = h1 @ h2"
    unfolding load_head_def env_run_bind by auto
  have len: "length h1 = 1" using krun_one_request [OF d] .
  have errs: "head_from_bytes X l data = Inl e \<Longrightarrow> \<exists>m. e = StateRecordMalformed m" for data e
    by (rule errsD [OF head_from_bytes_errs])
  show "st_get s' (head_key l) = None \<and> length h = 1"
    using k inc h len krun_download_with_etag [OF d]
    by (cases x) (auto simp: env_run_lift_res dest: errs split: if_splits prod.splits)
qed

lemma krun_destroy:
  assumes "krun X B (destroy X l cause actor) s h (Inr ()) s'" "counters_wf s" "counter_tags B" "ext_ok X"
  shows "lineage_steps X B s s' \<and>
    ((st_get s' (head_key l) = None \<and> length h = 1) \<or>
     (the (lineage_counter s l) < the (lineage_counter s' l) \<and> st_get s' (tombstone_key l) \<noteq> None))"
proof -
  have all: "lineage_steps X B s s'" using krun_steps [OF assms(1) quiet_all_req [OF destroy_quiet]] .
  obtain h1 h2 t and r :: "kernel_error + loaded_head" where ld: "krun X B (load_head X l) s h1 r t"
    and k: "krun X B (case r of
      Inl (StateHistoryIncomplete _) \<Rightarrow> Ret (Inr ())
    | Inl e \<Rightarrow> Ret (Inl e)
    | Inr loaded \<Rightarrow>
        lift_res (ok_or (lh_etag loaded) (StateUnavailable ''destroy head load did not return an ETag'')) (\<lambda>etag.
        io_bind unix_millis (\<lambda>ts.
        let tombstone = tombstone_new (hd_incarnation (lh_head loaded)) (hd_generation (lh_head loaded)) cause actor ts in
        lift_res (map_err (tombstone_encode X tombstone) (\<lambda>_. StateUnavailable ''tombstone encode'')) (\<lambda>b.
        io_bind (upload_conditional (tombstone_key l) b None) (\<lambda>w.
        if (case w of Inr _ \<Rightarrow> True | Inl e \<Rightarrow> is_PreconditionFailed e)
        then io_try (bump_incarnation l) (\<lambda>_.
          io_bind (delete_conditional (head_key l) etag) (\<lambda>x. case x of
              Inr _ \<Rightarrow> Ret (Inr ())
            | Inl e \<Rightarrow> if is_NotFound e then Ret (Inr ())
                       else if is_PreconditionFailed e then fail_conflict X l
                       else Ret (Inl (StateUnavailable ''head deletion''))))
        else Ret (Inl (StateUnavailable ''tombstone conditional create''))))))) t h2 (Inr ()) s'" and h: "h = h1 @ h2"
    using assms(1) unfolding destroy_def env_run_bind by auto
  show ?thesis
  proof (cases r)
    case (Inl e)
    then have "\<exists>m. e = StateHistoryIncomplete m" "s' = t" "h2 = []" using k by (cases e; simp)+
    then show ?thesis using krun_load_head [OF ld] Inl all h by auto
  next
    case (Inr loaded)
    then obtain et h3 h4 t3 ts b h5 h6 t5 and w :: "store_error + etag option" where
      tm: "krun X B unix_millis t h3 ts t3"
      and put: "krun X B (upload_conditional (tombstone_key l) b None) t3 h5 w t5"
      and k2: "krun X B (if (case w of Inr _ \<Rightarrow> True | Inl e \<Rightarrow> is_PreconditionFailed e)
        then io_try (bump_incarnation l) (\<lambda>_.
          io_bind (delete_conditional (head_key l) et) (\<lambda>x. case x of
              Inr _ \<Rightarrow> Ret (Inr ())
            | Inl e \<Rightarrow> if is_NotFound e then Ret (Inr ())
                       else if is_PreconditionFailed e then fail_conflict X l
                       else Ret (Inl (StateUnavailable ''head deletion''))))
        else Ret (Inl (StateUnavailable ''tombstone conditional create''))) t5 h6 (Inr ()) s'"
      using k by (auto simp: env_run_lift_res env_run_bind Let_def)
    have ok: "case w of Inr _ \<Rightarrow> True | Inl e \<Rightarrow> is_PreconditionFailed e" using k2 by (rule contrapos_pp) simp
    then obtain h7 h8 i t7 where bump: "krun X B (bump_incarnation l) t5 h7 (Inr i) t7"
      and del: "krun X B (io_bind (delete_conditional (head_key l) et) (\<lambda>x. case x of
              Inr _ \<Rightarrow> Ret (Inr ())
            | Inl e \<Rightarrow> if is_NotFound e then Ret (Inr ())
                       else if is_PreconditionFailed e then fail_conflict X l
                       else Ret (Inl (StateUnavailable ''head deletion'')))) t7 h8 (Inr ()) s'"
      using k2 by (auto simp: env_run_try_Inr)
    have "io_all B (kernel_req X B l) unix_millis" "io_all B (kernel_req X B l) (upload_conditional (tombstone_key l) b None)"
      unfolding io_all_def by (auto intro!: post_intros simp: kernel_req_def quiet_req_def write_once_req_def)
    then have steps: "lineage_steps X B t t3" "lineage_steps X B t3 t5" using krun_steps [OF tm] krun_steps [OF put] by simp_all
    have "io_all B (kernel_req X B l) (io_bind (delete_conditional (head_key l) et) (\<lambda>x. case x of
              Inr _ \<Rightarrow> Ret (Inr ())
            | Inl e \<Rightarrow> if is_NotFound e then Ret (Inr ())
                       else if is_PreconditionFailed e then fail_conflict X l
                       else Ret (Inl (StateUnavailable ''head deletion''))))"
      unfolding io_all_def
      by (auto intro!: post_intros io_post_all [OF quiet_all_req [OF fail_conflict_quiet]] simp: kernel_req_def quiet_req_def split: sum.split)
    then have tail: "lineage_steps X B t7 s'" by (rule krun_steps [OF del])
    have s5: "lineage_steps X B s t5" using krun_load_head(1) [OF ld] steps steps_trans by blast
    note m5 = steps_counters [OF s5 assms(2-4)]
    note b7 = krun_bump [OF bump _ assms(3,4)]
    have s7: "lineage_steps X B t5 t7" "the (lineage_counter t5 l) < the (lineage_counter t7 l)" using b7 m5 by auto
    have "counters_wf t7" using steps_counters [OF s7(1) _ assms(3,4)] m5 by simp
    then have "the (lineage_counter t7 l) \<le> the (lineage_counter s' l)"
      using steps_counters [OF tail _ assms(3,4)] by (simp add: counters_le_def)
    then have up: "the (lineage_counter s l) < the (lineage_counter s' l)"
      using m5 s7(2) unfolding counters_le_def by (meson le_less_trans less_le_trans)
    have "st_get t5 (tombstone_key l) \<noteq> None"
    proof (cases w)
      case (Inr x)
      then show ?thesis using krun_put [OF put [unfolded Inr]] by auto
    next
      case (Inl e)
      then show ?thesis using krun_create_taken [OF put [unfolded Inl]] ok by simp
    qed
    then obtain c where "st_get t5 (tombstone_key l) = Some c" by auto
    moreover have "write_once_key (tombstone_key l)" by (auto simp: write_once_key_def)
    ultimately have "st_get s' (tombstone_key l) = Some c"
      using steps_write_once steps_trans [OF s7(1) tail] by blast
    then show ?thesis using all up by simp
  qed
qed

text \<open>A head of the destroyed era cannot be extended by an append that starts later.\<close>

lemma destroyed_era_is_closed:
  assumes "krun X B (destroy X l cause actor) s h (Inr ()) s1" "counters_wf s" "counter_tags B" "ext_ok X"
    and "1 < length h" "lineage_steps X B s1 s2" "krun X B (append_successor X l r expected) s2 h' (Inr adv) s3"
  shows "hd_incarnation (hr_head expected) > the (lineage_counter s l)"
proof -
  have st: "lineage_steps X B s s1" using krun_destroy [OF assms(1-4)] by simp
  note m1 = steps_counters [OF st assms(2-4)]
  note m2 = steps_counters [OF assms(6) _ assms(3,4)]
  obtain s4 where s4: "lineage_counter s4 l = Some (hd_incarnation (hr_head expected))" "lineage_steps X B s2 s4"
    using append_successor_linear [OF assms(7) _ assms(3,4)] m1 m2 by blast
  have "the (lineage_counter s1 l) \<le> hd_incarnation (hr_head expected)"
    using steps_counters [OF steps_trans [OF assms(6) s4(2)] _ assms(3,4)] m1 s4(1)
    by (metis counters_le_def option.sel)
  then show ?thesis using krun_destroy [OF assms(1-4)] assms(5) by fastforce
qed

section \<open>Destruction alone\<close>

lemma fixed_puts [simp]:
  "st_get (st_put (tombstone_key l) b s) (head_key l') = st_get s (head_key l')"
  "st_get (st_put (incarnation_key l) b s) (head_key l') = st_get s (head_key l')"
  "lineage_counter (st_put (tombstone_key l) b s) l' = lineage_counter s l'"
  "lineage_counter (st_del (head_key l) s) l' = lineage_counter s l'"
  using fixed_keys_differ fixed_keys_differ [symmetric] by (auto simp: lineage_counter_def)

lemma bump_incarnation_run:
  assumes "lineage_counter s l = Some i" "i \<noteq> - 1"
  shows "run B (bump_incarnation l) s = (Some (Inr (i + 1)), st_put (incarnation_key l) (to_be_bytes (i + 1)) s)"
  using assms by (auto simp: bump_incarnation_def eval_nat_numeral run_bind io_simps lineage_counter_def checked_add_1
      split: option.splits)

definition destroyed_store :: "ext \<Rightarrow> backend \<Rightarrow> kernel_lineage \<Rightarrow> tombstone \<Rightarrow> u64 \<Rightarrow> store \<Rightarrow> store" where
  "destroyed_store X B l t i s =
    st_del (head_key l) (st_put (incarnation_key l) (to_be_bytes (i + 1))
      (if st_get s (tombstone_key l) = None
       then st_put (tombstone_key l) (case tombstone_encode X t of Inr b \<Rightarrow> b | Inl _ \<Rightarrow> []) s else s))"

lemma destroy_run_ok:
  assumes "ext_ok X" "decoded_head X l s = Inr h" "lineage_counter s l = Some i" "i \<noteq> - 1"
  shows "run B (destroy X l cause actor) s = (Some (Inr ()), destroyed_store X B l
    (tombstone_new (hd_incarnation h) (hd_generation h) cause actor (clock_reading B)) i s)"
proof -
  let ?t = "tombstone_new (hd_incarnation h) (hd_generation h) cause actor (clock_reading B)"
  obtain b where b: "tombstone_encode X ?t = Inr b" using tombstone_encode_total [OF assms(1)] by blast
  obtain c where c: "st_get s (head_key l) = Some c" "head_tag B l s = tag_of B c" using decoded_head_get [OF assms(2)] by metis
  note bump = bump_incarnation_run [of "st_put (tombstone_key l) b s" l i B] bump_incarnation_run [of s l i B]
  show ?thesis
    using assms(2-4) b c bump
    by (cases "st_get s (tombstone_key l)")
      (auto simp: destroy_def run_bind run_try run_lift_res io_simps Let_def destroyed_store_def fixed_keys_differ)
qed

text \<open>What the destroyed lineage then answers.\<close>

lemma destroyed_store_head: "st_get (destroyed_store X B l t i s) (head_key l) = None"
  by (simp add: destroyed_store_def)

lemma destroyed_store_counter: "lineage_counter (destroyed_store X B l t i s) l = Some (i + 1)"
  by (simp add: destroyed_store_def) (simp add: lineage_counter_def)

lemma destroyed_store_state:
  assumes "ext_ok X" "st_get s (tombstone_key l) = None" "ts_format_version t = tombstone_format_version"
  shows "run B (read_head_state X l) (destroyed_store X B l t i s) = (Some (Inr (Destroyed t)), destroyed_store X B l t i s)"
proof -
  obtain b where b: "tombstone_encode X t = Inr b" using tombstone_encode_total [OF assms(1)] by blast
  have "st_get (destroyed_store X B l t i s) (tombstone_key l) = Some b"
    using assms(2) b fixed_keys_differ fixed_keys_differ [symmetric] by (auto simp: destroyed_store_def)
  then show ?thesis
    using tombstone_decode_encoded [OF assms(1,3) b] by (simp add: head_state_run destroyed_store_head)
qed

lemma destroyed_store_objects: "digest_wf d \<Longrightarrow> objs (destroyed_store X B l t i s) l d = objs s l d"
  using keys_differ by (auto simp: destroyed_store_def objs_def)

end
