(* ===== verification/Kernel_Folding.thy ===== *)
theory Kernel_Folding
  imports Kernel_Functional Kernel_Fold
begin

text \<open>
  Folds are folds over the log: whatever checkpoint or projection is offered, a quiet fold
  returns the state of the full replay.  Honest checkpoints and projections are accepted; the
  contract of a folder that makes this so is the locale \<open>checkpoint_folder\<close>, interpreted on
  the diagnostic folder.
\<close>

section \<open>The reference fold\<close>

definition log_fold :: "ext \<Rightarrow> kernel_lineage \<Rightarrow> 's lineage_fold \<Rightarrow> canonical_record list \<Rightarrow> kernel_error + 's \<times> bytes" where
  "log_fold X l F rs = try_res (validate_transitions X F rs) (\<lambda>_. fold_full X l F rs)"

definition fold_outcome_of :: "ext \<Rightarrow> canonical_record list \<Rightarrow> 's \<times> bytes \<Rightarrow> checkpoint_rejection list
    \<Rightarrow> projection_disposition \<Rightarrow> 's fold_outcome" where
  "fold_outcome_of X rs sb rejections disposition =
    \<lparr>fo_state = fst sb, fo_canonical_state = snd sb,
     fo_records = map (\<lambda>r. record_reference r (ok_opt (canonical_record_digest X r))) rs,
     fo_rejections = rejections, fo_projection = disposition\<rparr>"

lemma checkpoint_from_bytes_errs: "errs (\<lambda>e. rejection_from_error e \<noteq> None) (checkpoint_from_bytes X l d b)"
  unfolding checkpoint_from_bytes_def Let_def canonical_checkpoint_new_def checkpoint_bytes_def
  by (intro errs_intros) simp_all

lemma checkpoint_basis_errs: "errs (\<lambda>e. rejection_from_error e \<noteq> None) (validate_checkpoint_basis X l c h rs)"
  unfolding validate_checkpoint_basis_def Let_def canonical_record_digest_def record_bytes_def
  by (intro errs_intros) simp_all

text \<open>On a quiet store a checkpoint is accepted or rejected, it is never an error.\<close>

lemma check_checkpoint_run:
  "\<exists>rejections. run B (check_checkpoint X l d h rs b F) s = (Some (Inr rejections), s)"
proof (cases "st_get s (checkpoint_key l d)")
  case None
  then show ?thesis by (simp add: check_checkpoint_def run_bind io_simps)
next
  case (Some c)
  show ?thesis
  proof (cases "checkpoint_from_bytes X l d c")
    case (Inl e)
    then show ?thesis using Some errsD [OF checkpoint_from_bytes_errs Inl]
      by (auto simp: check_checkpoint_def run_bind io_simps split: option.split)
  next
    case (Inr cp)
    then show ?thesis using Some errsD [OF checkpoint_basis_errs [of X l cp h rs]]
      by (cases "validate_checkpoint_basis X l cp h rs")
        (auto simp: check_checkpoint_def run_bind io_simps split: option.split)
  qed
qed

lemma fold_records_run:
  "\<exists>rejections. (cp = None \<longrightarrow> rejections = []) \<and>
    run B (fold_records X l h rs cp F disposition) s =
      (Some (case log_fold X l F rs of Inl e \<Rightarrow> Inl e
        | Inr sb \<Rightarrow> Inr (fold_outcome_of X rs sb rejections disposition)), s)"
proof (cases cp)
  case None
  then show ?thesis
    by (auto simp: fold_records_def log_fold_def fold_outcome_of_def run_lift_res run_try split: sum.split)
next
  case (Some d)
  show ?thesis
  proof (cases "log_fold X l F rs")
    case (Inl e)
    then show ?thesis
      by (auto simp: fold_records_def log_fold_def run_lift_res try_res_Inl_iff Some split: sum.split)
  next
    case (Inr sb)
    obtain rejections where "run B (check_checkpoint X l d h rs (snd sb) F) s = (Some (Inr rejections), s)"
      using check_checkpoint_run by blast
    then show ?thesis using Inr
      by (auto simp: fold_records_def log_fold_def fold_outcome_of_def run_lift_res run_try Some split: sum.split prod.splits)
  qed
qed

section \<open>The fold of a lineage\<close>

definition log_of :: "ext \<Rightarrow> kernel_lineage \<Rightarrow> store \<Rightarrow> canonical_head \<Rightarrow> canonical_record list \<Rightarrow> bool" where
  "log_of X l s h rs \<longleftrightarrow> decoded_head X l s = Inr h \<and> head_chain X l s h rs"

lemma load_history_of_log: "head_chain X l s h rs \<Longrightarrow> run B (load_history X l h) s = (Some (Inr rs), s)"
  using load_history_run [of B X l h s] unfolding head_chain_def by auto

lemma fold_lineage_run:
  assumes "log_of X l s h rs"
  shows "\<exists>rejections. (cp = None \<longrightarrow> rejections = []) \<and>
    run B (fold_lineage X l cp F) s = (Some (case log_fold X l F rs of Inl e \<Rightarrow> Inl e
        | Inr sb \<Rightarrow> Inr (fold_outcome_of X rs sb rejections ProjAbsent)), s)"
  using fold_records_run [of cp B X l h rs F ProjAbsent s] assms load_history_of_log
  by (auto simp: log_of_def fold_lineage_def run_try io_simps)

text \<open>The fold at an earlier generation is the fold over that prefix of the log.\<close>

lemma fold_at_generation_run:
  assumes "log_of X l s h rs" "g \<le> hd_generation h" "g \<noteq> - 1"
  shows "run B (fold_at_generation X l g F) s =
    (Some (case log_fold X l F (take (Suc (unat g)) rs) of Inl e \<Rightarrow> Inl e
        | Inr sb \<Rightarrow> Inr (fold_outcome_of X (take (Suc (unat g)) rs) sb [] ProjAbsent)), s)"
proof -
  let ?rs = "take (Suc (unat g)) rs"
  have head: "decoded_head X l s = Inr h" and c: "chain X l (objs s l) (hd_generation h) (hd_record_digest h) rs"
    and hc: "head_chain X l s h rs" using assms(1) by (auto simp: log_of_def head_chain_def)
  have "unat g < length rs" using chain_length [OF c] assms(2) by (simp add: word_le_nat_alt)
  then obtain d where d: "canonical_record_digest X (last ?rs) = Inr d" using chain_take [OF c, of "unat g"]
    by (auto simp: take_Suc_conv_app_nth)
  have ne: "?rs \<noteq> []" using \<open>unat g < length rs\<close> by auto
  have "unat (g + 1) = Suc (unat g)" using unat_plus1 assms(3) by simp
  then show ?thesis
    using fold_records_run [of None B X l _ ?rs F ProjAbsent s] head load_history_of_log [OF hc] assms(2,3) d ne
    by (auto simp: fold_at_generation_def Let_def run_try run_lift_res io_simps checked_add_1)
qed

section \<open>Folders with checkpoints\<close>

text \<open>The contract that makes honest checkpoints useful: a state is restored from its canonical
  bytes under the folder's schema.\<close>

locale checkpoint_folder =
  fixes ok :: "ext \<Rightarrow> bool" and folder :: "ext \<Rightarrow> 's lineage_fold" and schema :: string
  assumes restore_canonical: "ok X \<Longrightarrow> fold_canonical (folder X) s = Some b \<Longrightarrow> fold_restore (folder X) schema b = Some s"
begin

lemma restore_inj: "ok X \<Longrightarrow> fold_canonical (folder X) s = Some b \<Longrightarrow> fold_canonical (folder X) s' = Some b \<Longrightarrow> s = s'"
  using restore_canonical by (metis option.inject)

lemma apply_split:
  "apply_records X F s (rs @ rs') = Inr s' \<longleftrightarrow> (\<exists>t. apply_records X F s rs = Inr t \<and> apply_records X F t rs' = Inr s')"
  by (induction rs arbitrary: s) (auto split: option.split)

text \<open>The checkpoint of a prefix, with the prefix's state, is accepted by the replay.\<close>

lemma honest_checkpoint_accepted:
  assumes "ok X" "fold_full X l (folder X) rs = Inr (s, b)" "apply_records X (folder X) (fold_initial (folder X)) (take (Suc (unat g)) rs) = Inr t"
    "fold_canonical (folder X) t = Some c" "g \<noteq> - 1"
    "cp_source_generation cp = g" "cp_state_bytes cp = c" "cp_transition_schema cp = schema"
  shows "replay_checkpoint X l (folder X) cp d rs b = None"
proof -
  have full: "apply_records X (folder X) (fold_initial (folder X)) rs = Inr s" "fold_canonical (folder X) s = Some b"
    using assms(2) by (auto simp: fold_full_def)
  have "apply_records X (folder X) (fold_initial (folder X)) (take (Suc (unat g)) rs @ drop (Suc (unat g)) rs) = Inr s"
    using full by simp
  then have "apply_records X (folder X) t (drop (Suc (unat g)) rs) = Inr s"
    unfolding apply_split using assms(3) by auto
  then show ?thesis
    using assms restore_canonical [OF assms(1,4)] full(2)
    by (simp add: replay_checkpoint_def Let_def checked_add_1 unat_plus1)
qed

text \<open>Stored and named in a fold, such a checkpoint leaves no rejection.\<close>

lemma honest_checkpoint_fold:
  assumes "ok X" "ext_ok X" "log_of X l s h rs" "log_fold X l (folder X) rs = Inr sb"
    "st_get s (checkpoint_key l (digest_of X b)) = Some b" "checkpoint_bytes X cp = Inr b" "checkpoint_wf l cp"
    "cp_source_generation cp \<le> hd_generation h" "cp_source_generation cp \<noteq> - 1"
    "canonical_record_digest X (rs ! unat (cp_source_generation cp)) = Inr (cp_source_head_digest cp)"
    "cp_last_included_record_digest cp = cp_source_head_digest cp" "cp_transition_schema cp = schema"
    "apply_records X (folder X) (fold_initial (folder X)) (take (Suc (unat (cp_source_generation cp))) rs) = Inr t"
    "fold_canonical (folder X) t = Some (cp_state_bytes cp)"
  shows "run B (fold_lineage X l (Some (digest_of X b)) (folder X)) s = (Some (Inr (fold_outcome_of X rs sb [] ProjAbsent)), s)"
proof -
  obtain st c where sb: "sb = (st, c)" by (cases sb)
  have full: "validate_transitions X (folder X) rs = Inr ()" "fold_full X l (folder X) rs = Inr (st, c)"
    using assms(4) by (auto simp: log_fold_def sb)
  have chain: "chain X l (objs s l) (hd_generation h) (hd_record_digest h) rs" and head: "decoded_head X l s = Inr h"
    and hc: "head_chain X l s h rs" using assms(3) by (auto simp: log_of_def head_chain_def)
  have len: "unat (cp_source_generation cp) < length rs"
    using chain_length [OF chain] assms(8) by (simp add: word_le_nat_alt)
  have decoded: "checkpoint_from_bytes X l (digest_of X b) b = Inr cp"
    using checkpoint_from_bytes_encoded assms(2,6,7) by blast
  have basis: "validate_checkpoint_basis X l cp h rs = Inr ()"
    using assms(7,8,10,11) len by (simp add: validate_checkpoint_basis_def Let_def checkpoint_wf_def
        lineage_same_identity_def)
  have "replay_checkpoint X l (folder X) cp (digest_of X b) rs c = None"
    by (rule honest_checkpoint_accepted [OF assms(1) full(2) assms(13,14,9)]) (simp_all add: assms(12))
  then show ?thesis
    using head load_history_of_log [OF hc, of B] full decoded basis assms(5)
    by (simp add: fold_lineage_def fold_records_def check_checkpoint_def run_try run_lift_res run_bind io_simps
        fold_outcome_of_def sb)
qed

text \<open>What the replay accepts leads to the full state.\<close>

lemma accepted_checkpoint_sound:
  assumes "ok X" "replay_checkpoint X l (folder X) cp d rs b = None" "fold_full X l (folder X) rs = Inr (s, b)"
  shows "\<exists>t. fold_restore (folder X) (cp_transition_schema cp) (cp_state_bytes cp) = Some t \<and>
    apply_records X (folder X) t (drop (if cp_source_generation cp = - 1 then length rs else Suc (unat (cp_source_generation cp))) rs) = Inr s"
proof -
  have full: "fold_canonical (folder X) s = Some b" using assms(3) by (auto simp: fold_full_def)
  from assms(2) show ?thesis using restore_inj [OF assms(1) full]
    by (auto simp: replay_checkpoint_def Let_def checked_add_1 unat_plus1 split: option.splits sum.splits if_splits)
qed

end

interpretation diagnostic: checkpoint_folder ext_ok diagnostic_fold "''diagnostic.v1''"
  by unfold_locales (use codec_okD ext_ok_codecs(7) in \<open>fastforce simp: diagnostic_fold_def\<close>)

section \<open>Folds with a projection\<close>

lemma load_projected_history_Inr:
  "load_projected_history X l P h = Inr rs \<longleftrightarrow> source_matches (fp_source P) h \<and>
    records_for_source X P l = Inr rs \<and> rs \<noteq> [] \<and> hd_prior h = rec_prior (last rs)"
  by (auto simp: load_projected_history_def try_res_Inr_iff)

text \<open>Without a digest collision between the projection and the stored objects, an accepted
  projection spells the stored log.\<close>

lemma accepted_projection_is_log:
  assumes "log_of X l s h rs" "load_projected_history X l P h = Inr rs'"
    "inj_on (digest_of X) (ran (objs s l) \<union> ran (projected_obj P))"
  shows "rs' = rs"
proof -
  have "source_matches (fp_source P) h" "records_for_source X P l = Inr rs'"
    using assms(2) by (auto simp: load_projected_history_Inr)
  then have p: "chain X l (projected_obj P) (hd_generation h) (hd_record_digest h) rs'"
    by (simp add: records_for_source_Inr source_matches_def)
  have "chain X l (objs s l) (hd_generation h) (hd_record_digest h) rs"
    using assms(1) by (simp add: log_of_def head_chain_def)
  from chain_agree [OF this p assms(3)] show ?thesis by simp
qed

lemma fold_with_projection_run:
  assumes "log_of X l s h rs" "inj_on (digest_of X) (ran (objs s l) \<union> ran (projected_obj P))"
  shows "run B (fold_with_projection X l (Some P) F) s = (Some (case log_fold X l F rs of Inl e \<Rightarrow> Inl e
      | Inr sb \<Rightarrow> Inr (fold_outcome_of X rs sb []
          (if is_ok (load_projected_history X l P h) then ProjUsed else ProjDiscarded))), s)"
proof -
  have head: "decoded_head X l s = Inr h" "head_chain X l s h rs" using assms(1) by (auto simp: log_of_def)
  note folded = fold_records_run [of None B X l h rs F _ s]
  show ?thesis
  proof (cases "load_projected_history X l P h")
    case (Inl e)
    then show ?thesis using head load_history_of_log [OF head(2)] folded [of ProjDiscarded]
      by (simp add: fold_with_projection_def Let_def run_try io_simps)
  next
    case (Inr rs')
    then have "rs' = rs" using accepted_projection_is_log assms by blast
    then show ?thesis using Inr head folded [of ProjUsed]
      by (simp add: fold_with_projection_def Let_def run_try io_simps)
  qed
qed

text \<open>A projection rebuilt from the store is accepted for the head it was built from.\<close>

lemma chain_local:
  assumes "chain X l obj g d rs" "\<forall>r\<in>set rs. \<forall>b. record_bytes X r = Inr b \<longrightarrow> obj' (digest_of X b) = Some b"
  shows "chain X l obj' g d rs"
  using assms
proof (induction rule: chain.induct)
  case (chain_genesis d b r)
  then show ?case using record_from_bytes_Inr(1,2) [OF chain_genesis(2)] by (auto intro: chain.chain_genesis)
next
  case (chain_successor g d rs d' b r)
  then show ?case using record_from_bytes_Inr(1,2) [OF chain_successor(4)] by (auto intro: chain.chain_successor)
qed

lemma chain_bytes:
  assumes "chain X l obj g d rs" "r \<in> set rs"
  shows "\<exists>b. record_bytes X r = Inr b \<and> canonical_record_digest X r = Inr (digest_of X b)"
proof -
  obtain i where "i < length rs" "rs ! i = r" using assms(2) by (auto simp: in_set_conv_nth)
  then obtain d b where "record_from_bytes X l d b = Inr r" using chain_nth [OF assms(1)] by blast
  from record_from_bytes_Inr(2) [OF this] show ?thesis by (auto simp: canonical_record_digest_def)
qed

lemma authoritative_accepted:
  assumes "ext_ok X" "log_of X l s h rs" "hd_generation h \<noteq> - 1"
  shows "\<exists>P. projection_from_authoritative X h rs = Inr P \<and> load_projected_history X l P h = Inr rs"
proof -
  have c: "chain X l (objs s l) (hd_generation h) (hd_record_digest h) rs" and prior: "hd_prior h = rec_prior (last rs)"
    and dec: "decoded_head X l s = Inr h"
    using assms(2) by (auto simp: log_of_def head_chain_def)
  have lin: "hd_lineage h = l"
    using dec head_from_bytes_Inr(1) by (auto simp: decoded_head_def head_wf_def split: option.splits)
  define bytes_of where "bytes_of r = (case record_bytes X r of Inr b \<Rightarrow> b | Inl _ \<Rightarrow> [])" for r
  define ps where "ps = map (\<lambda>r. \<lparr>pr_digest = digest_of X (bytes_of r), pr_bytes = bytes_of r\<rparr>) rs"
  define P where "P = \<lparr>fp_source = source_from_head h, fp_records = ps\<rparr>"
  have bytes: "record_bytes X r = Inr (bytes_of r)" "canonical_record_digest X r = Inr (digest_of X (bytes_of r))" if "r \<in> set rs" for r
    using chain_bytes [OF c that] by (auto simp: bytes_of_def)
  have "collect_res (\<lambda>r. try_res (record_bytes X r) (\<lambda>b. Inr \<lparr>pr_digest = digest_of X b, pr_bytes = b\<rparr>)) rs = Inr ps"
    unfolding ps_def by (rule collect_res_map_Inr) (simp add: bytes)
  then have built: "projection_from_authoritative X h rs = Inr P"
    by (simp add: projection_from_authoritative_def P_def)
  have digests: "map (canonical_record_digest X) rs = map (\<lambda>p. Inr (pr_digest p)) ps"
    using bytes by (simp add: ps_def)
  have dist: "distinct (map (canonical_record_digest X) rs)" using chain_digests_distinct [OF c] .
  then have "distinct (map (\<lambda>p. Inr (pr_digest p) :: kernel_error + record_digest) ps)" using digests by simp
  then have "distinct (map (Inr :: _ \<Rightarrow> kernel_error + record_digest) (map pr_digest ps))" by (simp add: comp_def)
  then have pd: "distinct (map pr_digest ps)" by (simp only: distinct_map)
  have "projected_obj P (digest_of X b) = Some b" if "r \<in> set rs" "record_bytes X r = Inr b" for r b
  proof -
    have "b = bytes_of r" using bytes(1) [OF that(1)] that(2) by simp
    then have "(digest_of X b, b) \<in> set (map (\<lambda>p. (pr_digest p, pr_bytes p)) ps)" using that(1) by (auto simp: ps_def)
    moreover have "distinct (map fst (map (\<lambda>p. (pr_digest p, pr_bytes p)) ps))" using pd by (simp add: comp_def)
    ultimately show ?thesis unfolding projected_obj_def P_def by (simp only: fold_projection.simps map_of_is_SomeI)
  qed
  then have "chain X l (projected_obj P) (hd_generation h) (hd_record_digest h) rs" using chain_local [OF c] by blast
  then have "records_for_source X P l = Inr rs"
    using digests assms(3) lin by (simp add: records_for_source_Inr P_def source_from_head_def)
  moreover have "source_matches (fp_source P) h" by (simp add: P_def source_matches_def source_from_head_def)
  ultimately show ?thesis using built prior chain_top [OF c] by (auto simp: load_projected_history_Inr)
qed

lemma rebuild_projection_run:
  assumes "log_of X l s h rs"
  shows "run B (rebuild_projection X l) s = (Some (projection_from_authoritative X h rs), s)"
  using assms load_history_of_log [of X l s h rs B] by (simp add: log_of_def rebuild_projection_def run_try io_simps)

section \<open>Stored projections\<close>

lemma collect_res_inverse: "(\<And>x. x \<in> set xs \<Longrightarrow> f (g x) = Inr x) \<Longrightarrow> collect_res f (map g xs) = Inr xs"
  by (induction xs) auto

lemma projection_codec_iff:
  assumes "ext_ok X"
  shows "projection_from_bytes X b = Inr P \<longleftrightarrow> projection_bytes X P = Inr b"
proof
  assume "projection_from_bytes X b = Inr P"
  then show "projection_bytes X P = Inr b"
    by (auto simp: projection_from_bytes_def Let_def split: if_splits)
next
  assume enc: "projection_bytes X P = Inr b"
  then obtain l rs where l: "kernel_lineage_new (ps_lineage (fp_source P)) SuccessorCapable = Inr l"
    and rs: "records_for_source X P l = Inr rs" and b: "cenc (projection_json X) (projection_to_wire X P) = Some b"
    by (auto simp: projection_bytes_def)
  have dec: "cdec (projection_json X) b = Some (projection_to_wire X P)"
    using codec_okD [OF ext_ok_codecs(5) [OF assms]] b .
  have lv: "lin_value l = ps_lineage (fp_source P)" using l by (auto simp: kernel_lineage_new_def split: if_splits)
  have c: "chain X l (projected_obj P) (ps_generation (fp_source P)) (ps_digest (fp_source P)) rs"
    and digests: "map (canonical_record_digest X) rs = map (\<lambda>p. Inr (pr_digest p)) (fp_records P)"
    using rs by (auto simp: records_for_source_Inr)
  obtain b1 where "record_from_bytes X l (ps_digest (fp_source P)) b1 = Inr (last rs)" using chain_top [OF c] by blast
  then have sd: "digest_wf (ps_digest (fp_source P))" using record_from_bytes_Inr(1) digest_wf_of [OF assms] by metis
  have pd: "digest_wf (pr_digest p)" if "p \<in> set (fp_records P)" for p
  proof -
    have "Inr (pr_digest p) \<in> set (map (canonical_record_digest X) rs)" using that digests by auto
    then obtain r where r: "r \<in> set rs" "canonical_record_digest X r = Inr (pr_digest p)" by auto
    then show ?thesis using chain_bytes [OF c r(1)] digest_wf_of [OF assms] by auto
  qed
  have prs: "collect_res (projected_of_wire X l ref) (pjw_records (projection_to_wire X P)) = Inr (fp_records P)" for ref
    unfolding projection_to_wire_def projection_wire.simps
  proof (rule collect_res_inverse)
    fix p assume "p \<in> set (fp_records P)"
    then have "digest_parse (as_str (pr_digest p)) = Some (pr_digest p)" using pd by simp
    then show "projected_of_wire X l ref \<lparr>prw_bytes_hex = hex_encode X (pr_bytes p), prw_digest = as_str (pr_digest p)\<rparr> = Inr p"
      using assms by (simp add: projected_of_wire_def del: digest_parse_Some)
  qed
  have parse: "digest_parse (as_str (ps_digest (fp_source P))) = Some (ps_digest (fp_source P))" using sd by simp
  have rebuilt: "\<lparr>fp_source = \<lparr>ps_lineage = lin_value l, ps_generation = ps_generation (fp_source P),
      ps_digest = ps_digest (fp_source P)\<rparr>, fp_records = fp_records P\<rparr> = P" using lv by (cases P) simp
  have "projection_from_bytes X b = (if pjw_envelope (projection_to_wire X P) \<noteq> projection_envelope then Inl (StateRecordMalformed invalid_reference)
      else Inr P)"
    unfolding projection_from_bytes_def Let_def dec
    using l parse prs rebuilt enc rs
    by (simp add: projection_to_wire_def del: digest_parse_Some)
  then show "projection_from_bytes X b = Inr P" by (simp add: projection_to_wire_def)
qed

end
