(* ===== verification/Kernel_Scenario.thy ===== *)
theory Kernel_Scenario
  imports Kernel_Demo Kernel_Destroy Kernel_Folding
begin

text \<open>
  A concrete lineage over the concrete parameters of \<open>Kernel_Demo\<close>, grown by the model's own
  handlers: an empty store, a genesis, a successor.  The witnesses apply the theorems here.
\<close>

section \<open>Sequential runs as histories and as pools\<close>

primrec hist :: "backend \<Rightarrow> 'a io \<Rightarrow> store \<Rightarrow> entry list" where
  "hist B (Ret a) = (\<lambda>s. [])"
| "hist B Stuck = (\<lambda>s. [])"
| "hist B (Req q k) = (\<lambda>s. (s, q, fst (st_exec B q s), snd (st_exec B q s)) #
    hist B (k (fst (st_exec B q s))) (snd (st_exec B q s)))"

lemma run_env_run: "run B m s = (Some a, s') \<Longrightarrow> (\<And>s. R s s) \<Longrightarrow> env_run R B m s (hist B m s) a s'"
proof (induction m arbitrary: s)
  case (Req q k)
  let ?r = "fst (st_exec B q s)" and ?t = "snd (st_exec B q s)"
  have "run B (k ?r) ?t = (Some a, s')" using Req.prems(1) by simp
  then have "env_run R B (k ?r) ?t (hist B (k ?r) ?t) a s'" using Req.IH [OF rangeI] Req.prems(2) by blast
  moreover have "answer B q s ?r ?t" by (rule served) (rule surjective_pairing)
  ultimately show ?case unfolding hist.simps using Req.prems(2) by (intro env_Req)
qed (auto intro: env_Ret)

lemma run_krun_hist: "run B m s = (Some a, s') \<Longrightarrow> krun X B m s (hist B m s) a s'"
  by (erule run_env_run) (rule steps_refl)

lemma run_krun: "run B m s = (Some a, s') \<Longrightarrow> \<exists>h. krun X B m s h a s'"
  using run_krun_hist by (intro exI)

lemma hist_bind: "hist B (io_bind m f) s = hist B m s @
    (case run B m s of (None, t) \<Rightarrow> [] | (Some a, t) \<Rightarrow> hist B (f a) t)"
  by (induction m arbitrary: s) auto

lemma run_pool: "run B m s = (Some a, s') \<Longrightarrow> pool_reach B (s, [m]) (s', [Ret a])"
proof (induction m arbitrary: s)
  case (Req q k)
  let ?r = "fst (st_exec B q s)" and ?t = "snd (st_exec B q s)"
  have ans: "answer B q s ?r ?t" by (rule served) (rule surjective_pairing)
  have "pool_step B (s, [Req q k]) (?t, [Req q k][0 := k ?r])"
    by (rule advance [OF _ _ ans]) (simp_all only: list.size nth_Cons_0 zero_less_Suc add_Suc_right plus_nat.add_0)
  then have "pool_step B (s, [Req q k]) (?t, [k ?r])" by (simp only: list_update_code)
  moreover have "run B (k ?r) ?t = (Some a, s')" using Req.prems by simp
  then have "pool_reach B (?t, [k ?r]) (s', [Ret a])" by (rule Req.IH [OF rangeI])
  ultimately show ?case unfolding pool_reach_def by (rule converse_rtranclp_into_rtranclp)
qed (auto simp: pool_reach_def)

section \<open>The lineage\<close>

definition demo_lineage :: kernel_lineage where
  "demo_lineage = \<lparr>lin_value = ''orders'', lin_policy = SuccessorCapable\<rparr>"

definition genesis_record :: canonical_record where
  "genesis_record = \<lparr>rec_lineage = demo_lineage, rec_sequence = 0, rec_prior = None,
    rec_transition_type = ''diagnostic'', rec_transition_schema = ''diagnostic.v1'', rec_payload = as_bytes ''one'',
    rec_operation_id = ''op'', rec_actor_id = ''me'', rec_cause_id = ''why''\<rparr>"

definition record_octets :: "canonical_record \<Rightarrow> bytes" where
  "record_octets r = (case record_bytes demo_ext r of Inr b \<Rightarrow> b | Inl _ \<Rightarrow> [])"

lemma record_octets: "record_bytes demo_ext r = Inr (record_octets r)"
  using codec_ok_total [OF ext_ok_codecs(1) [OF demo_ext_ok]] by (auto simp: record_octets_def record_bytes_def split: sum.split)

definition genesis_head :: canonical_head where
  "genesis_head = \<lparr>hd_lineage = demo_lineage, hd_generation = 0, hd_incarnation = 0,
    hd_record_digest = digest_of demo_ext (record_octets genesis_record), hd_prior = None\<rparr>"

definition genesis_store :: store where
  "genesis_store = snd (run demo_backend (append_genesis demo_ext demo_lineage genesis_record) [])"

definition genesis_read :: head_read where
  "genesis_read = \<lparr>hr_head = genesis_head, hr_etag = head_tag demo_backend demo_lineage genesis_store\<rparr>"

lemma genesis_valid: "record_valid genesis_record"
  by (simp add: record_valid_def record_wf_def genesis_record_def canonical_record_new_def prior_malformed_def
      position_wf_def is_valid_identifier_def max_identifier_bytes_def ascii_graphic_def)

lemma empty_store_facts [simp]:
  "lineage_counter [] l = Some 0" "counters_wf []" "heads_complete X []" "objs [] l d = None"
  by (simp_all add: lineage_counter_def counters_wf_def heads_complete_def objs_def)

lemma demo_counter_tags [simp]: "counter_tags demo_backend"
  using demo_tags unfolding counter_tags_def by (rule inj_on_subset) simp

lemma genesis_run:
  "run demo_backend (append_genesis demo_ext demo_lineage genesis_record) [] = (Some (Inr genesis_read), genesis_store)"
  "\<exists>c. st_get genesis_store (head_key demo_lineage) = Some c \<and> head_bytes demo_ext genesis_head = Inr c"
  "lineage_counter genesis_store demo_lineage = Some 0"
  "objs genesis_store demo_lineage d = (if d = digest_of demo_ext (record_octets genesis_record) then Some (record_octets genesis_record) else None)"
proof -
  obtain c s0 where c: "head_bytes demo_ext genesis_head = Inr c"
    and s0: "s0 = st_put (object_key demo_lineage (digest_of demo_ext (record_octets genesis_record))) (record_octets genesis_record) []"
    and run: "run demo_backend (append_genesis demo_ext demo_lineage genesis_record) [] =
      (Some (Inr \<lparr>hr_head = genesis_head, hr_etag = tag_of demo_backend c\<rparr>), st_put (head_key demo_lineage) c s0)"
    using append_genesis_run_ok [OF demo_ext_ok, of demo_lineage genesis_record "record_octets genesis_record" "[]" 0 genesis_head demo_backend]
      record_octets genesis_head_def by (auto simp: genesis_record_def lineage_same_identity_def)
  have store: "genesis_store = st_put (head_key demo_lineage) c s0" by (simp add: genesis_store_def run)
  show "run demo_backend (append_genesis demo_ext demo_lineage genesis_record) [] = (Some (Inr genesis_read), genesis_store)"
    by (simp add: run store genesis_read_def head_tag_def)
  show "\<exists>c. st_get genesis_store (head_key demo_lineage) = Some c \<and> head_bytes demo_ext genesis_head = Inr c"
    using c by (simp add: store)
  show "lineage_counter genesis_store demo_lineage = Some 0"
    unfolding store s0 by (simp add: object_put_keeps(2) [OF demo_ext_ok] del: st_get_put st_put.simps)
  have "object_key demo_lineage d \<noteq> head_key demo_lineage"
    using keys_differ by (auto simp: object_key_def head_key_def demo_lineage_def)
  then show "objs genesis_store demo_lineage d = (if d = digest_of demo_ext (record_octets genesis_record) then Some (record_octets genesis_record) else None)"
    unfolding store s0 by (auto simp: objs_def object_key_def simp del: st_put.simps intro: record_digest.expand)
qed

lemma genesis_no_tombstone: "st_get genesis_store (tombstone_key demo_lineage) = None"
proof -
  obtain c s0 where s0: "s0 = st_put (object_key demo_lineage (digest_of demo_ext (record_octets genesis_record))) (record_octets genesis_record) []"
    and run: "run demo_backend (append_genesis demo_ext demo_lineage genesis_record) [] =
      (Some (Inr \<lparr>hr_head = genesis_head, hr_etag = tag_of demo_backend c\<rparr>), st_put (head_key demo_lineage) c s0)"
    using append_genesis_run_ok [OF demo_ext_ok, of demo_lineage genesis_record "record_octets genesis_record" "[]" 0 genesis_head demo_backend]
      record_octets genesis_head_def by (auto simp: genesis_record_def lineage_same_identity_def)
  have "tombstone_key demo_lineage \<noteq> object_key demo_lineage (digest_of demo_ext (record_octets genesis_record))"
    using keys_differ digest_wf_of [OF demo_ext_ok] by metis
  then show ?thesis using fixed_keys_differ [symmetric]
    by (simp add: genesis_store_def run s0 del: st_put.simps)
qed

lemma genesis_complete: "heads_complete demo_ext genesis_store"
proof -
  have "run demo_backend (serve demo_ext (demo_lineage, CallAppendGenesis genesis_record)) [] = (Some (), genesis_store)"
    by (simp add: io_map_def run_bind genesis_run(1))
  from pool_heads_complete [of demo_backend "[]" demo_ext "[(demo_lineage, CallAppendGenesis genesis_record)]", simplified,
      OF run_pool [OF this, simplified]]
  show ?thesis by (simp add: genesis_valid)
qed

lemma genesis_log: "log_of demo_ext demo_lineage genesis_store genesis_head [relabel demo_lineage genesis_record]"
proof -
  have chain: "head_chain demo_ext demo_lineage genesis_store genesis_head [relabel demo_lineage genesis_record]"
    unfolding head_chain_def genesis_head_def
    using chain_first_stored [OF demo_ext_ok genesis_valid, of demo_lineage genesis_store] genesis_run(4)
    by (auto simp: genesis_record_def lineage_same_identity_def stored_record_def record_octets canonical_record_digest_def
        objs_def [symmetric] relabel_def)
  have "head_wf demo_lineage genesis_head"
    using head_chain_wf [OF chain demo_ext_ok] by (simp add: genesis_head_def)
  then have "decoded_head demo_ext demo_lineage genesis_store = Inr genesis_head"
    using genesis_run(2) head_from_bytes_encoded [OF demo_ext_ok] by (auto simp: decoded_head_def)
  then show ?thesis using chain by (simp add: log_of_def)
qed

section \<open>Its successor\<close>

definition successor_record :: canonical_record where
  "successor_record = genesis_record\<lparr>rec_sequence := 1, rec_prior := Some (head_position genesis_head),
    rec_payload := as_bytes ''two''\<rparr>"

definition next_head :: canonical_head where
  "next_head = successor_head demo_ext demo_lineage successor_record genesis_head"

definition successor_store :: store where
  "successor_store = snd (run demo_backend (append_successor demo_ext demo_lineage successor_record genesis_read) genesis_store)"

definition successor_read :: head_read where
  "successor_read = \<lparr>hr_head = next_head, hr_etag = head_tag demo_backend demo_lineage successor_store\<rparr>"

lemma demo_digest_inj:
  assumes "length b < 2 ^ 64" "length c < 2 ^ 64" "length b \<noteq> length c"
  shows "digest_of demo_ext b \<noteq> digest_of demo_ext c"
proof
  assume "digest_of demo_ext b = digest_of demo_ext c"
  then have "demo_hex (demo_sum b) = demo_hex (demo_sum c)" by (simp add: digest_of_def demo_ext_def)
  then have "demo_sum b = demo_sum c" using demo_hex_ok by (metis option.inject)
  then have "(word_of_nat (length b) :: u64) = word_of_nat (length c)" by (simp add: demo_sum_def)
  then have "unat (word_of_nat (length b) :: u64) = unat (word_of_nat (length c) :: u64)" by simp
  then have "length b = length c" using assms(1,2) by (simp add: unat_of_nat)
  then show False using assms(3) by simp
qed

lemma length_put_string [simp]: "length (put_string s) = Suc (2 * length s)"
  by (induction s) simp_all

lemma demo_hex_length: "length (demo_hex b) = 2 * length b"
  using demo_hex_ok by simp

lemma digest_string_length: "length (as_str (digest_of demo_ext b)) = 64"
  using digest_wf_of [OF demo_ext_ok] by (simp add: digest_wf_def)

lemma octets_length:
  "length (record_octets genesis_record) < length (record_octets successor_record)"
  "length (record_octets successor_record) < 2 ^ 64"
proof -
  have hex: "length (hex_encode demo_ext b) = 2 * length b" for b
    using demo_ext_ok unfolding ext_ok_def by blast
  note lens = record_octets_def record_bytes_def demo_ext_def codec_of_def p_record_def p_iso_def p_pair_def
      p_string_def p_u64_def p_option_def p_position_def record_to_wire_def successor_record_def genesis_record_def
      demo_lineage_def position_to_wire_def head_position_def genesis_head_def demo_hex_length
  show "length (record_octets genesis_record) < length (record_octets successor_record)"
    by (simp add: lens)
  show "length (record_octets successor_record) < 2 ^ 64"
    using digest_string_length [of "record_octets genesis_record"]
    by (simp add: lens record_envelope_def)
qed

lemma successor_valid: "record_valid successor_record"
proof -
  have "position_wf (Some (head_position genesis_head))"
    by (simp add: position_wf_def head_position_def genesis_head_def digest_wf_of)
  then show ?thesis
    by (simp add: record_valid_def record_wf_def successor_record_def genesis_record_def canonical_record_new_def
        prior_malformed_def head_position_def genesis_head_def
        is_valid_identifier_def max_identifier_bytes_def ascii_graphic_def)
qed

lemma next_ready: "successor_ready demo_ext demo_backend demo_lineage genesis_store successor_record genesis_read"
proof -
  have "digest_of demo_ext (record_octets successor_record) \<noteq> digest_of demo_ext (record_octets genesis_record)"
    using demo_digest_inj octets_length by (metis less_irrefl less_trans)
  then have "objs genesis_store demo_lineage (digest_of demo_ext (record_octets successor_record)) = None"
    by (simp add: genesis_run(4))
  then show ?thesis
    using genesis_log genesis_run(3) record_octets
    by (auto simp: successor_ready_def genesis_read_def genesis_head_def log_of_def head_same_identity_def
        lineage_same_identity_def demo_lineage_def successor_record_def genesis_record_def)
qed

lemma successor_run:
  "run demo_backend (append_successor demo_ext demo_lineage successor_record genesis_read) genesis_store =
    (Some (Inr successor_read), successor_store)"
  "lineage_counter successor_store demo_lineage = Some 0"
proof -
  obtain b c s0 where b: "record_bytes demo_ext successor_record = Inr b"
    and s0: "s0 = genesis_store \<or> s0 = st_put (object_key demo_lineage (digest_of demo_ext b)) b genesis_store"
    and run: "run demo_backend (append_successor demo_ext demo_lineage successor_record genesis_read) genesis_store =
      (Some (Inr \<lparr>hr_head = next_head, hr_etag = tag_of demo_backend c\<rparr>), st_put (head_key demo_lineage) c s0)"
    using append_successor_run_ok [OF demo_ext_ok next_ready] by (auto simp: genesis_read_def next_head_def)
  have store: "successor_store = st_put (head_key demo_lineage) c s0" by (simp add: successor_store_def run)
  show "run demo_backend (append_successor demo_ext demo_lineage successor_record genesis_read) genesis_store =
    (Some (Inr successor_read), successor_store)"
    by (simp add: run store successor_read_def head_tag_def)
  show "lineage_counter successor_store demo_lineage = Some 0"
    unfolding store using s0 genesis_run(3) object_put_keeps(2) [OF demo_ext_ok]
    by (auto simp del: st_get_put st_put.simps)
qed

lemma successor_log:
  "log_of demo_ext demo_lineage successor_store next_head
    [relabel demo_lineage genesis_record, relabel demo_lineage successor_record]"
proof -
  obtain h rs where h: "decoded_head demo_ext demo_lineage genesis_store = Inr h" "head_chain demo_ext demo_lineage genesis_store h rs"
    "decoded_head demo_ext demo_lineage successor_store = Inr next_head"
    "head_chain demo_ext demo_lineage successor_store next_head (rs @ [relabel demo_lineage successor_record])"
    using append_successor_extends [OF demo_ext_ok genesis_complete next_ready successor_valid successor_run(1)]
    by (auto simp: successor_read_def)
  have "h = genesis_head" using h(1) genesis_log by (simp add: log_of_def)
  then have "rs = [relabel demo_lineage genesis_record]"
    using h(2) genesis_log chain_functional by (auto simp: log_of_def head_chain_def)
  then show ?thesis using h(3,4) by (simp add: log_of_def)
qed

lemma successor_complete: "heads_complete demo_ext successor_store"
proof -
  have "run demo_backend (serve demo_ext (demo_lineage, CallAppendSuccessor successor_record genesis_read)) genesis_store = (Some (), successor_store)"
    by (simp add: io_map_def run_bind successor_run(1))
  from pool_heads_complete [of demo_backend genesis_store demo_ext "[(demo_lineage, CallAppendSuccessor successor_record genesis_read)]",
      simplified, OF run_pool [OF this, simplified]]
  show ?thesis by (simp add: successor_valid genesis_complete)
qed

section \<open>Destruction and a second era\<close>

definition demo_tombstone :: tombstone where
  "demo_tombstone = tombstone_new 0 1 ''why'' ''me'' 42"

definition ended_store :: store where
  "ended_store = destroyed_store demo_ext demo_backend demo_lineage demo_tombstone 0 successor_store"

lemma destroy_demo_run:
  "run demo_backend (destroy demo_ext demo_lineage ''why'' ''me'') successor_store = (Some (Inr ()), ended_store)"
  using destroy_run_ok [OF demo_ext_ok _ successor_run(2), of next_head demo_backend "''why''" "''me''"] successor_log
  by (simp add: log_of_def ended_store_def demo_tombstone_def next_head_def successor_head_def genesis_head_def
      clock_reading_def demo_backend_def)

lemma destroy_demo_history:
  "1 < length (hist demo_backend (destroy demo_ext demo_lineage ''why'' ''me'') successor_store)"
proof -
  have "decoded_head demo_ext demo_lineage successor_store = Inr next_head" using successor_log by (simp add: log_of_def)
  then have "run demo_backend (load_head demo_ext demo_lineage) successor_store =
      (Some (Inr \<lparr>lh_head = next_head, lh_etag = Some (head_tag demo_backend demo_lineage successor_store)\<rparr>), successor_store)"
    by (simp add: load_head_run)
  then show ?thesis
    by (simp add: destroy_def hist_bind load_head_def download_with_etag_def unix_millis_def lift_res_def)
qed

definition reborn_head :: canonical_head where
  "reborn_head = genesis_head\<lparr>hd_incarnation := 1\<rparr>"

lemma stored_objects:
  "objs successor_store demo_lineage (digest_of demo_ext (record_octets genesis_record)) = Some (record_octets genesis_record)"
  "objs successor_store demo_lineage (digest_of demo_ext (record_octets successor_record)) = Some (record_octets successor_record)"
proof -
  have chain: "chain demo_ext demo_lineage (objs successor_store demo_lineage) 1 (hd_record_digest next_head)
      [relabel demo_lineage genesis_record, relabel demo_lineage successor_record]"
    using successor_log by (simp add: log_of_def head_chain_def next_head_def successor_head_def genesis_head_def)
  have same: "relabel demo_lineage genesis_record = genesis_record" "relabel demo_lineage successor_record = successor_record"
    by (simp_all add: relabel_def successor_record_def genesis_record_def)
  have found: "objs successor_store demo_lineage (digest_of demo_ext (record_octets r)) = Some (record_octets r)"
    if ex: "\<exists>d b. objs successor_store demo_lineage d = Some b \<and> record_from_bytes demo_ext demo_lineage d b = Inr r" for r
  proof -
    obtain d b where db: "objs successor_store demo_lineage d = Some b" "record_from_bytes demo_ext demo_lineage d b = Inr r"
      using ex by blast
    have "b = record_octets r" using record_from_bytes_Inr(2) [OF db(2)] record_octets [of r] by simp
    then show ?thesis using record_from_bytes_Inr(1) [OF db(2)] db(1) by simp
  qed
  show "objs successor_store demo_lineage (digest_of demo_ext (record_octets genesis_record)) = Some (record_octets genesis_record)"
    by (rule found) (use chain_nth [OF chain, of 0] same in simp)
  show "objs successor_store demo_lineage (digest_of demo_ext (record_octets successor_record)) = Some (record_octets successor_record)"
    by (rule found) (use chain_nth [OF chain, of 1] same in simp)
qed

lemma ended_facts:
  "st_get ended_store (head_key demo_lineage) = None" "lineage_counter ended_store demo_lineage = Some 1"
  "objs ended_store demo_lineage (digest_of demo_ext b) = objs successor_store demo_lineage (digest_of demo_ext b)"
  by (simp_all add: ended_store_def destroyed_store_head destroyed_store_counter destroyed_store_objects digest_wf_of)

lemma second_era:
  "\<exists>s2 e adv s3. run demo_backend (append_genesis demo_ext demo_lineage genesis_record) ended_store = (Some (Inr e), s2) \<and>
    run demo_backend (append_successor demo_ext demo_lineage successor_record e) s2 = (Some (Inr adv), s3) \<and>
    hd_incarnation (hr_head e) = 1"
proof -
  have h: "reborn_head = \<lparr>hd_lineage = demo_lineage, hd_generation = 0, hd_incarnation = 1,
      hd_record_digest = digest_of demo_ext (record_octets genesis_record), hd_prior = None\<rparr>"
    by (simp add: reborn_head_def genesis_head_def)
  obtain c s0 where c: "head_bytes demo_ext reborn_head = Inr c"
    and s0: "s0 = ended_store \<or> s0 = st_put (object_key demo_lineage (digest_of demo_ext (record_octets genesis_record))) (record_octets genesis_record) ended_store"
    and run: "run demo_backend (append_genesis demo_ext demo_lineage genesis_record) ended_store =
      (Some (Inr \<lparr>hr_head = reborn_head, hr_etag = tag_of demo_backend c\<rparr>), st_put (head_key demo_lineage) c s0)"
    using append_genesis_run_ok [OF demo_ext_ok, of demo_lineage genesis_record "record_octets genesis_record" ended_store 1 reborn_head demo_backend]
      record_octets ended_facts h stored_objects by (auto simp: genesis_record_def lineage_same_identity_def)
  let ?s = "st_put (head_key demo_lineage) c s0" and ?e = "\<lparr>hr_head = reborn_head, hr_etag = tag_of demo_backend c\<rparr>"
  have other: "object_key demo_lineage d \<noteq> head_key demo_lineage" for d
    by (simp add: object_key_def head_key_def demo_lineage_def)
  have counter: "lineage_counter ?s demo_lineage = Some 1"
    using s0 ended_facts(2) object_put_keeps(2) [OF demo_ext_ok] by (auto simp del: st_get_put st_put.simps)
  have obj: "objs ?s demo_lineage (digest_of demo_ext (record_octets successor_record)) = Some (record_octets successor_record)"
  proof -
    have "objs ended_store demo_lineage (digest_of demo_ext (record_octets successor_record)) = Some (record_octets successor_record)"
      by (simp only: ended_facts(3) stored_objects(2))
    moreover have "digest_of demo_ext (record_octets successor_record) \<noteq> digest_of demo_ext (record_octets genesis_record)"
      using demo_digest_inj octets_length by (metis less_irrefl less_trans)
    then have "object_key demo_lineage (digest_of demo_ext (record_octets successor_record)) \<noteq>
        object_key demo_lineage (digest_of demo_ext (record_octets genesis_record))"
      by (auto simp: object_key_def intro: record_digest.expand)
    ultimately show ?thesis using s0 other [of "digest_of demo_ext (record_octets successor_record)"]
      by (elim disjE) (simp_all add: objs_def)
  qed
  have "head_wf demo_lineage reborn_head"
    using digest_wf_of [OF demo_ext_ok] by (simp add: head_wf_def h position_wf_def prior_malformed_def)
  then have "decoded_head demo_ext demo_lineage ?s = Inr reborn_head"
    using head_from_bytes_encoded [OF demo_ext_ok _ c] by (simp add: decoded_head_def)
  then have "successor_ready demo_ext demo_backend demo_lineage ?s successor_record ?e"
    using counter obj record_octets
    by (auto simp: successor_ready_def h head_same_identity_def lineage_same_identity_def demo_lineage_def head_tag_def
        successor_record_def genesis_record_def head_position_def genesis_head_def)
  from append_successor_run_ok [OF demo_ext_ok this] show ?thesis using run by (auto simp: h)
qed

end
