(* ===== verification/Kernel_Theorems.thy ===== *)
theory Kernel_Theorems
  imports Kernel_Scenario Sdk_Store
begin

text \<open>
  The properties of the state kernel and of the store client's deletion reports, each with the
  witness that applies it to the concrete lineage of \<open>Kernel_Scenario\<close>.
\<close>

section \<open>Interleaved calls\<close>



text \<open>C2: A successful successor append takes effect at one moment: the head object then carries
  the entity tag the caller expected and is replaced by the returned head, one generation on, in the
  same era, linked to the expected position, while the era counter equals the era of the head;
  whatever other kernel calls run before, between and after its requests.\<close>

theorem append_linearizes:
  assumes "krun X B (append_successor X l r expected) s h (Inr adv) s'"
    and "counters_wf s" "counter_tags B" "ext_ok X"
  shows "\<exists>h1 s1 b h2. h = h1 @ (s1, UploadConditional (head_key l) b (Some (hr_etag expected)),
      REtag (Inr (Some (hr_etag adv))), st_put (head_key l) b s1) # h2 \<and>
    head_bytes X (hr_head adv) = Inr b \<and> tag_of B b = hr_etag adv \<and>
    (\<exists>c. st_get s1 (head_key l) = Some c \<and> tag_of B c = hr_etag expected) \<and>
    lineage_counter s1 l = Some (hd_incarnation (hr_head expected)) \<and> lineage_steps X B s s1 \<and>
    hr_head adv = \<lparr>hd_lineage = l, hd_generation = hd_generation (hr_head expected) + 1,
      hd_incarnation = hd_incarnation (hr_head expected), hd_record_digest = hd_record_digest (hr_head adv),
      hd_prior = Some (head_position (hr_head expected))\<rparr>"
  using assms by (rule append_successor_linear)

lemma counters_wf_reach: "lineage_steps demo_ext demo_backend [] s \<Longrightarrow> counters_wf s"
  using steps_counters [OF _ empty_store_facts(2) demo_counter_tags demo_ext_ok] by blast

lemma demo_stores_reached:
  "lineage_steps demo_ext demo_backend [] genesis_store" "lineage_steps demo_ext demo_backend [] successor_store"
  "lineage_steps demo_ext demo_backend [] ended_store"
proof -
  show 1: "lineage_steps demo_ext demo_backend [] genesis_store"
    using run_krun [OF genesis_run(1)] krun_steps append_genesis_req by metis
  show 2: "lineage_steps demo_ext demo_backend [] successor_store"
    using run_krun [OF successor_run(1)] krun_steps append_successor_req steps_trans [OF 1] by metis
  show "lineage_steps demo_ext demo_backend [] ended_store"
    using run_krun [OF destroy_demo_run] krun_steps quiet_all_req [OF destroy_quiet] steps_trans [OF 2] by metis
qed

theorem append_linearizes_witness:
  "\<exists>h. krun demo_ext demo_backend (append_successor demo_ext demo_lineage successor_record genesis_read) genesis_store h
      (Inr successor_read) successor_store \<and>
    (\<exists>s1 b. (s1, UploadConditional (head_key demo_lineage) b (Some (hr_etag genesis_read)),
      REtag (Inr (Some (hr_etag successor_read))), st_put (head_key demo_lineage) b s1) \<in> set h)"
proof -
  obtain h where h: "krun demo_ext demo_backend (append_successor demo_ext demo_lineage successor_record genesis_read) genesis_store h
      (Inr successor_read) successor_store" using run_krun [OF successor_run(1)] by blast
  obtain h1 s1 b h2 where "h = h1 @ (s1, UploadConditional (head_key demo_lineage) b (Some (hr_etag genesis_read)),
      REtag (Inr (Some (hr_etag successor_read))), st_put (head_key demo_lineage) b s1) # h2"
    using append_linearizes [OF h counters_wf_reach [OF demo_stores_reached(1)] demo_counter_tags demo_ext_ok] by blast
  then have "\<exists>s1 b. (s1, UploadConditional (head_key demo_lineage) b (Some (hr_etag genesis_read)),
      REtag (Inr (Some (hr_etag successor_read))), st_put (head_key demo_lineage) b s1) \<in> set h"
    by (metis in_set_conv_decomp)
  then show ?thesis using h by blast
qed

text \<open>C3: A successful destruction that found a head closes the era for good: a successor append
  that starts later and succeeds extends a head of a later era than any era up to the
  destruction's start.\<close>

theorem destroyed_era_refuses_appends:
  assumes "krun X B (destroy X l cause actor) s h (Inr ()) s1" "counters_wf s" "counter_tags B" "ext_ok X"
    and "1 < length h" "lineage_steps X B s1 s2" "krun X B (append_successor X l r expected) s2 h' (Inr adv) s3"
  shows "hd_incarnation (hr_head expected) > the (lineage_counter s l)"
  using assms by (rule destroyed_era_is_closed)

theorem destroyed_era_refuses_appends_witness:
  "\<exists>s2 e adv s3. run demo_backend (append_genesis demo_ext demo_lineage genesis_record) ended_store = (Some (Inr e), s2) \<and>
    run demo_backend (append_successor demo_ext demo_lineage successor_record e) s2 = (Some (Inr adv), s3) \<and>
    hd_incarnation (hr_head e) > the (lineage_counter successor_store demo_lineage)"
proof -
  obtain s2 e adv s3 where era: "run demo_backend (append_genesis demo_ext demo_lineage genesis_record) ended_store = (Some (Inr e), s2)"
    "run demo_backend (append_successor demo_ext demo_lineage successor_record e) s2 = (Some (Inr adv), s3)"
    using second_era by blast
  let ?h = "hist demo_backend (destroy demo_ext demo_lineage ''why'' ''me'') successor_store"
  have h: "krun demo_ext demo_backend (destroy demo_ext demo_lineage ''why'' ''me'') successor_store ?h (Inr ()) ended_store"
    using destroy_demo_run by (rule run_krun_hist)
  note len = destroy_demo_history
  have steps: "lineage_steps demo_ext demo_backend ended_store s2"
    by (rule krun_steps [OF run_krun_hist [OF era(1)] append_genesis_req])
  obtain h3 where "krun demo_ext demo_backend (append_successor demo_ext demo_lineage successor_record e) s2 h3 (Inr adv) s3"
    using run_krun [OF era(2)] by blast
  from destroyed_era_refuses_appends [OF h counters_wf_reach [OF demo_stores_reached(2)] demo_counter_tags demo_ext_ok len steps this]
  show ?thesis using era by blast
qed

text \<open>C4: Any interleaving of kernel calls changes the store only by the protocol of a lineage:
  objects, checkpoints and tombstones created once, the counter created at one and raised by one
  from the value read, heads put or deleted.\<close>

theorem pools_follow_the_protocol:
  assumes "pool_reach B (s, map (serve X) calls) (s', ps')"
  shows "lineage_steps X B s s'"
  using assms by (rule pool_refines_protocol)

theorem pools_follow_the_protocol_witness:
  "lineage_steps demo_ext demo_backend genesis_store successor_store \<and> genesis_store \<noteq> successor_store"
proof -
  have "run demo_backend (serve demo_ext (demo_lineage, CallAppendSuccessor successor_record genesis_read)) genesis_store = (Some (), successor_store)"
    by (simp add: io_map_def run_bind successor_run(1))
  then have "pool_reach demo_backend (genesis_store, map (serve demo_ext) [(demo_lineage, CallAppendSuccessor successor_record genesis_read)])
      (successor_store, [Ret ()])" using run_pool by simp
  from pools_follow_the_protocol [OF this] show ?thesis
    using genesis_log successor_log by (auto simp: log_of_def next_head_def successor_head_def genesis_head_def)
qed

text \<open>Under any kernel calls, an object, checkpoint or tombstone that exists keeps its content.\<close>

theorem write_once_objects_persist:
  assumes "pool_reach B (s, map (serve X) calls) (s', ps')" "write_once_key k" "st_get s k = Some b"
  shows "st_get s' k = Some b"
  using steps_write_once pool_refines_protocol assms by blast

theorem write_once_objects_persist_witness:
  "st_get successor_store (object_key demo_lineage (digest_of demo_ext (record_octets genesis_record))) = Some (record_octets genesis_record)"
proof -
  have "run demo_backend (serve demo_ext (demo_lineage, CallAppendSuccessor successor_record genesis_read)) genesis_store = (Some (), successor_store)"
    by (simp add: io_map_def run_bind successor_run(1))
  then have reach: "pool_reach demo_backend (genesis_store, map (serve demo_ext) [(demo_lineage, CallAppendSuccessor successor_record genesis_read)])
      (successor_store, [Ret ()])" using run_pool by simp
  have "write_once_key (object_key demo_lineage (digest_of demo_ext (record_octets genesis_record)))"
    unfolding write_once_key_def using digest_wf_of [OF demo_ext_ok] by blast
  from write_once_objects_persist [OF reach this] show ?thesis
    using genesis_run(4) by (simp add: objs_def)
qed

text \<open>Under any kernel calls no era counter decreases or becomes unreadable.\<close>

theorem era_counters_never_decrease:
  assumes "pool_reach B (s, map (serve X) calls) (s', ps')" "counters_wf s" "counter_tags B" "ext_ok X"
  shows "counters_wf s' \<and> counters_le s s'"
  using steps_counters pool_refines_protocol assms by blast

theorem era_counters_never_decrease_witness:
  "counters_wf ended_store \<and> counters_le successor_store ended_store \<and>
    lineage_counter ended_store demo_lineage = Some 1"
proof -
  have "run demo_backend (serve demo_ext (demo_lineage, CallDestroy ''why'' ''me'')) successor_store = (Some (), ended_store)"
    by (simp add: io_map_def run_bind destroy_demo_run)
  then have "pool_reach demo_backend (successor_store, map (serve demo_ext) [(demo_lineage, CallDestroy ''why'' ''me'')])
      (ended_store, [Ret ()])" using run_pool by simp
  from era_counters_never_decrease [OF this counters_wf_reach [OF demo_stores_reached(2)] demo_counter_tags demo_ext_ok]
  show ?thesis by (simp add: ended_facts(2))
qed

section \<open>One client\<close>

text \<open>C12: Loading the history of a head always returns, leaves the store alone, and succeeds
  exactly when the stored objects hold the complete log of the head's position, with that log.\<close>

theorem history_reads_the_log:
  "\<exists>res. run B (load_history X l h) s = (Some res, s) \<and>
    (\<forall>rs. (res = Inr rs) = (chain X l (objs s l) (hd_generation h) (hd_record_digest h) rs \<and>
      hd_prior h = rec_prior (last rs)))"
  by (rule load_history_run)

text \<open>C13: A successor append whose preconditions hold succeeds; the head it stores and returns
  stands over the previous log extended by exactly that record.\<close>

theorem append_extends_the_log:
  assumes "ext_ok X" "heads_complete X s" "successor_ready X B l s r expected" "record_valid r"
  shows "\<exists>adv s' h rs. run B (append_successor X l r expected) s = (Some (Inr adv), s') \<and>
    log_of X l s h rs \<and> log_of X l s' (hr_head adv) (rs @ [relabel l r]) \<and> hr_etag adv = head_tag B l s'"
proof -
  obtain adv s' where run: "run B (append_successor X l r expected) s = (Some (Inr adv), s')"
    using append_successor_run_ok [OF assms(1,3)] by blast
  show ?thesis
    using append_successor_extends [OF assms run] run unfolding log_of_def by blast
qed

theorem append_extends_the_log_witness:
  "\<exists>adv s' h rs. run demo_backend (append_successor demo_ext demo_lineage successor_record genesis_read) genesis_store = (Some (Inr adv), s') \<and>
    log_of demo_ext demo_lineage genesis_store h rs \<and>
    log_of demo_ext demo_lineage s' (hr_head adv) (rs @ [relabel demo_lineage successor_record]) \<and>
    hr_etag adv = head_tag demo_backend demo_lineage s'"
  by (rule append_extends_the_log [OF demo_ext_ok genesis_complete next_ready successor_valid])

text \<open>C14: When any precondition of a successor append fails, it returns an error and the head
  object stays as it was.\<close>

theorem refused_append_keeps_head:
  assumes "ext_ok X" "\<not> successor_ready X B l s r expected"
  shows "\<exists>e s'. run B (append_successor X l r expected) s = (Some (Inl e), s') \<and>
    st_get s' (head_key l) = st_get s (head_key l)"
  using assms by (rule append_successor_run_fail)

theorem refused_append_keeps_head_witness:
  "\<exists>e s'. run demo_backend (append_successor demo_ext demo_lineage successor_record genesis_read) successor_store = (Some (Inl e), s') \<and>
    st_get s' (head_key demo_lineage) = st_get successor_store (head_key demo_lineage)"
proof (rule refused_append_keeps_head [OF demo_ext_ok])
  have "decoded_head demo_ext demo_lineage successor_store = Inr next_head" using successor_log by (simp add: log_of_def)
  then show "\<not> successor_ready demo_ext demo_backend demo_lineage successor_store successor_record genesis_read"
    by (auto simp: successor_ready_def genesis_read_def head_same_identity_def next_head_def successor_head_def genesis_head_def)
qed



text \<open>C16: Reading the terminal record of a lineage returns the last record of its log, with the
  head it belongs to.\<close>

theorem terminal_read_is_last_record:
  assumes "log_of X l s h rs"
  shows "run B (read_terminal_record X l) s =
    (Some (Inr \<lparr>tr_head = \<lparr>hr_head = h, hr_etag = head_tag B l s\<rparr>, tr_record = last rs\<rparr>), s)"
proof -
  have c: "chain X l (objs s l) (hd_generation h) (hd_record_digest h) rs" and head: "decoded_head X l s = Inr h"
    using assms by (auto simp: log_of_def head_chain_def)
  show ?thesis using chain_top [OF c] head by (auto simp: terminal_read_run)
qed

theorem terminal_read_is_last_record_witness:
  "run demo_backend (read_terminal_record demo_ext demo_lineage) successor_store =
    (Some (Inr \<lparr>tr_head = successor_read, tr_record = relabel demo_lineage successor_record\<rparr>), successor_store)"
  using terminal_read_is_last_record [OF successor_log, of demo_backend] by (simp add: successor_read_def)

text \<open>An empty successor batch against a head above the genesis succeeds and leaves a head
  that no reader accepts: the stored head is malformed from then on.\<close>

theorem empty_batch_corrupts_the_head:
  assumes "ext_ok X" "decoded_head X l s = Inr h" "lin_policy l \<noteq> GenesisOnly"
    "lineage_counter s l = Some (hd_incarnation h)" "hd_generation h \<noteq> - 1" "hd_generation h \<noteq> 0"
  shows "\<exists>adv s'. run B (append_successor_batch X l [] \<lparr>hr_head = h, hr_etag = head_tag B l s\<rparr>) s = (Some (Inr adv), s') \<and>
    run B (read_head X l) s' = (Some (Inl (StateRecordMalformed (for_lineage l))), s')"
  using empty_batch_run [OF assms, of B] by (auto simp: read_head_run)

theorem empty_batch_corrupts_the_head_witness:
  "\<exists>adv s'. run demo_backend (append_successor_batch demo_ext demo_lineage [] successor_read) successor_store = (Some (Inr adv), s') \<and>
    run demo_backend (read_head demo_ext demo_lineage) s' = (Some (Inl (StateRecordMalformed (for_lineage demo_lineage))), s')"
proof -
  have head: "decoded_head demo_ext demo_lineage successor_store = Inr next_head" using successor_log by (simp add: log_of_def)
  show ?thesis
    using empty_batch_corrupts_the_head [OF demo_ext_ok head, of demo_backend] successor_run(2)
    by (simp add: successor_read_def next_head_def successor_head_def genesis_head_def demo_lineage_def)
qed

end
