(* ===== verification/Fold_Theorems.thy ===== *)
theory Fold_Theorems
  imports Kernel_Scenario Sdk_Store
begin

text \<open>
  The properties of folds, checkpoints, projections and stored forms, and of the store client's
  deletion reports, with their witnesses.
\<close>

section \<open>Folds\<close>


lemma demo_records [simp]:
  "relabel demo_lineage genesis_record = genesis_record" "relabel demo_lineage successor_record = successor_record"
  by (simp_all add: relabel_def successor_record_def genesis_record_def)

lemma demo_fold:
  "\<exists>b. log_fold demo_ext demo_lineage (diagnostic_fold demo_ext) [genesis_record, successor_record] = Inr ([''one'', ''two''], b)"
  "\<exists>b. log_fold demo_ext demo_lineage (diagnostic_fold demo_ext) [genesis_record] = Inr ([''one''], b)"
proof -
  have utf8: "utf8_valid (as_bytes ''one'')" "utf8_valid (as_bytes ''two'')" by code_simp+
  have enc: "\<exists>b. cenc (strings_json demo_ext) s = Some b" for s
    using codec_ok_total [OF ext_ok_codecs(7) [OF demo_ext_ok]] .
  show "\<exists>b. log_fold demo_ext demo_lineage (diagnostic_fold demo_ext) [genesis_record, successor_record] = Inr ([''one'', ''two''], b)"
    using enc [of "[''one'', ''two'']"] utf8
    by (auto simp: log_fold_def fold_full_def diagnostic_fold_def genesis_record_def successor_record_def)
  show "\<exists>b. log_fold demo_ext demo_lineage (diagnostic_fold demo_ext) [genesis_record] = Inr ([''one''], b)"
    using enc [of "[''one'']"] utf8
    by (auto simp: log_fold_def fold_full_def diagnostic_fold_def genesis_record_def)
qed


text \<open>The fold at an earlier generation is the fold of the log up to that generation.\<close>

theorem fold_at_generation_folds_the_prefix:
  assumes "log_of X l s h rs" "g \<le> hd_generation h" "g \<noteq> - 1"
  shows "run B (fold_at_generation X l g F) s =
    (Some (case log_fold X l F (take (Suc (unat g)) rs) of Inl e \<Rightarrow> Inl e
        | Inr sb \<Rightarrow> Inr (fold_outcome_of X (take (Suc (unat g)) rs) sb [] ProjAbsent)), s)"
  using assms by (rule fold_at_generation_run)

theorem fold_at_generation_folds_the_prefix_witness:
  "\<exists>out. run demo_backend (fold_at_generation demo_ext demo_lineage 0 (diagnostic_fold demo_ext)) successor_store =
      (Some (Inr out), successor_store) \<and> fo_state out = [''one'']"
  using fold_at_generation_folds_the_prefix [OF successor_log, of 0 demo_backend "diagnostic_fold demo_ext"] demo_fold(2)
  by (auto simp: fold_outcome_of_def)

text \<open>C37: A fold that is offered a projection returns the replay of the stored log, whether the
  projection is used or discarded, provided no digest collision lies between the projection's
  records and the stored objects.\<close>

theorem projection_never_changes_the_fold:
  assumes "log_of X l s h rs" "inj_on (digest_of X) (ran (objs s l) \<union> ran (projected_obj P))"
  shows "run B (fold_with_projection X l (Some P) F) s = (Some (case log_fold X l F rs of Inl e \<Rightarrow> Inl e
      | Inr sb \<Rightarrow> Inr (fold_outcome_of X rs sb []
          (if is_ok (load_projected_history X l P h) then ProjUsed else ProjDiscarded))), s)"
  using assms by (rule fold_with_projection_run)

lemma genesis_projection:
  "\<exists>P. projection_from_authoritative demo_ext genesis_head [genesis_record] = Inr P \<and>
    load_projected_history demo_ext demo_lineage P genesis_head = Inr [genesis_record] \<and>
    ran (projected_obj P) \<subseteq> {record_octets genesis_record}"
proof -
  have gen: "hd_generation genesis_head \<noteq> - 1" by (simp add: genesis_head_def)
  obtain P where P: "projection_from_authoritative demo_ext genesis_head [genesis_record] = Inr P"
    "load_projected_history demo_ext demo_lineage P genesis_head = Inr [genesis_record]"
    using authoritative_accepted [OF demo_ext_ok genesis_log gen] by auto
  then have "ran (projected_obj P) \<subseteq> {record_octets genesis_record}"
    by (auto simp: projection_from_authoritative_def record_octets projected_obj_def [abs_def] ran_def split: if_splits)
  then show ?thesis using P by blast
qed

theorem projection_never_changes_the_fold_witness:
  "\<exists>P out. run demo_backend (fold_with_projection demo_ext demo_lineage (Some P) (diagnostic_fold demo_ext)) genesis_store =
      (Some (Inr out), genesis_store) \<and> fo_projection out = ProjUsed \<and> fo_state out = [''one'']"
proof -
  obtain P where P: "load_projected_history demo_ext demo_lineage P genesis_head = Inr [genesis_record]"
    "ran (projected_obj P) \<subseteq> {record_octets genesis_record}" using genesis_projection by blast
  have "ran (objs genesis_store demo_lineage) \<subseteq> {record_octets genesis_record}"
    using genesis_run(4) by (auto simp: ran_def)
  then have inj: "inj_on (digest_of demo_ext) (ran (objs genesis_store demo_lineage) \<union> ran (projected_obj P))"
    using P(2) by (auto simp: inj_on_def)
  obtain b where "log_fold demo_ext demo_lineage (diagnostic_fold demo_ext) [genesis_record] = Inr ([''one''], b)"
    using demo_fold(2) by blast
  then have "run demo_backend (fold_with_projection demo_ext demo_lineage (Some P) (diagnostic_fold demo_ext)) genesis_store =
      (Some (Inr (fold_outcome_of demo_ext [genesis_record] ([''one''], b) [] ProjUsed)), genesis_store)"
    using projection_never_changes_the_fold [OF genesis_log inj, of demo_backend "diagnostic_fold demo_ext"] P(1) by simp
  then show ?thesis by (intro exI [of _ P] exI conjI) (assumption, simp_all add: fold_outcome_of_def)
qed

text \<open>A projection rebuilt from the store is accepted for the head it was built from, and
  yields the log.\<close>

theorem rebuilt_projection_is_accepted:
  assumes "ext_ok X" "log_of X l s h rs" "hd_generation h \<noteq> - 1"
  shows "\<exists>P. run B (rebuild_projection X l) s = (Some (Inr P), s) \<and> load_projected_history X l P h = Inr rs"
  using authoritative_accepted [OF assms] rebuild_projection_run [OF assms(2)] by auto

theorem rebuilt_projection_is_accepted_witness:
  "\<exists>P. run demo_backend (rebuild_projection demo_ext demo_lineage) successor_store = (Some (Inr P), successor_store) \<and>
    load_projected_history demo_ext demo_lineage P next_head = Inr [genesis_record, successor_record]"
  using rebuilt_projection_is_accepted [OF demo_ext_ok successor_log, of demo_backend]
  by (simp add: next_head_def successor_head_def genesis_head_def)

text \<open>An honest checkpoint of the diagnostic folder, published at its digest and named in a
  fold, is accepted: the fold reports no rejection.\<close>

theorem honest_checkpoint_is_accepted:
  assumes "ext_ok X" "log_of X l s h rs" "log_fold X l (diagnostic_fold X) rs = Inr sb"
    "st_get s (checkpoint_key l (digest_of X b)) = Some b" "checkpoint_bytes X cp = Inr b" "checkpoint_wf l cp"
    "cp_source_generation cp \<le> hd_generation h" "cp_source_generation cp \<noteq> - 1"
    "canonical_record_digest X (rs ! unat (cp_source_generation cp)) = Inr (cp_source_head_digest cp)"
    "cp_last_included_record_digest cp = cp_source_head_digest cp" "cp_transition_schema cp = ''diagnostic.v1''"
    "apply_records X (diagnostic_fold X) [] (take (Suc (unat (cp_source_generation cp))) rs) = Inr t"
    "cenc (strings_json X) t = Some (cp_state_bytes cp)"
  shows "run B (fold_lineage X l (Some (digest_of X b)) (diagnostic_fold X)) s =
    (Some (Inr (fold_outcome_of X rs sb [] ProjAbsent)), s)"
  by (rule diagnostic.honest_checkpoint_fold) (use assms in \<open>simp_all add: diagnostic_fold_def\<close>)

definition demo_checkpoint :: canonical_checkpoint where
  "demo_checkpoint = \<lparr>cp_lineage = demo_lineage, cp_transition_schema = ''diagnostic.v1'', cp_source_generation = 0,
    cp_source_head_digest = hd_record_digest genesis_head, cp_last_included_record_digest = hd_record_digest genesis_head,
    cp_state_bytes = (case cenc (strings_json demo_ext) [''one''] of Some b \<Rightarrow> b | None \<Rightarrow> [])\<rparr>"

definition checkpoint_octets :: bytes where
  "checkpoint_octets = (case checkpoint_bytes demo_ext demo_checkpoint of Inr b \<Rightarrow> b | Inl _ \<Rightarrow> [])"

definition checkpoint_store :: store where
  "checkpoint_store = st_put (checkpoint_key demo_lineage (digest_of demo_ext checkpoint_octets)) checkpoint_octets genesis_store"

lemma checkpoint_log: "log_of demo_ext demo_lineage checkpoint_store genesis_head [genesis_record]"
proof -
  let ?k = "checkpoint_key demo_lineage (digest_of demo_ext checkpoint_octets)"
  have "head_key demo_lineage \<noteq> ?k" "object_key demo_lineage d \<noteq> ?k" for d
    by (simp_all add: head_key_def object_key_def checkpoint_key_def demo_lineage_def)
  then have "st_get checkpoint_store (head_key demo_lineage) = st_get genesis_store (head_key demo_lineage)"
    "objs checkpoint_store demo_lineage = objs genesis_store demo_lineage"
    by (simp_all add: checkpoint_store_def objs_def fun_eq_iff)
  then show ?thesis using genesis_log by (simp add: log_of_def decoded_head_def head_chain_def)
qed

theorem honest_checkpoint_is_accepted_witness:
  "\<exists>out. run demo_backend (fold_lineage demo_ext demo_lineage (Some (digest_of demo_ext checkpoint_octets)) (diagnostic_fold demo_ext)) checkpoint_store =
      (Some (Inr out), checkpoint_store) \<and> fo_rejections out = [] \<and> fo_state out = [''one'']"
proof -
  obtain c where fold: "log_fold demo_ext demo_lineage (diagnostic_fold demo_ext) [genesis_record] = Inr ([''one''], c)"
    using demo_fold(2) by blast
  obtain st where st: "cenc (strings_json demo_ext) [''one''] = Some st"
    using codec_ok_total [OF ext_ok_codecs(7) [OF demo_ext_ok]] by blast
  obtain b where b: "checkpoint_bytes demo_ext demo_checkpoint = Inr b" using checkpoint_bytes_total demo_ext_ok by blast
  have bytes: "checkpoint_bytes demo_ext demo_checkpoint = Inr checkpoint_octets" using b by (simp add: checkpoint_octets_def)
  have wf: "checkpoint_wf demo_lineage demo_checkpoint"
    by (simp add: checkpoint_wf_def demo_checkpoint_def genesis_head_def digest_wf_of is_valid_identifier_def
        max_identifier_bytes_def ascii_graphic_def)
  have utf8: "utf8_valid (as_bytes ''one'')" by code_simp
  have "run demo_backend (fold_lineage demo_ext demo_lineage (Some (digest_of demo_ext checkpoint_octets)) (diagnostic_fold demo_ext)) checkpoint_store =
    (Some (Inr (fold_outcome_of demo_ext [genesis_record] ([''one''], c) [] ProjAbsent)), checkpoint_store)"
    by (rule honest_checkpoint_is_accepted [OF demo_ext_ok checkpoint_log fold _ bytes wf, of "[''one'']"])
      (simp_all add: checkpoint_store_def demo_checkpoint_def genesis_head_def canonical_record_digest_def record_octets st
        diagnostic_fold_def genesis_record_def [THEN arg_cong [where f = rec_payload]] utf8)
  then show ?thesis by (simp add: fold_outcome_of_def)
qed

section \<open>Stored forms\<close>

text \<open>A projection decodes from exactly the bytes it encodes to, and only valid projections
  encode or decode.\<close>

theorem projection_bytes_are_canonical:
  assumes "ext_ok X"
  shows "(projection_from_bytes X b = Inr P) = (projection_bytes X P = Inr b)"
  using projection_codec_iff [OF assms] .

theorem projection_bytes_are_canonical_witness:
  "\<exists>P b. projection_bytes demo_ext P = Inr b \<and> projection_from_bytes demo_ext b = Inr P"
proof -
  obtain P where P: "load_projected_history demo_ext demo_lineage P genesis_head = Inr [genesis_record]"
    "projection_from_authoritative demo_ext genesis_head [genesis_record] = Inr P" using genesis_projection by blast
  have src: "ps_lineage (fp_source P) = ''orders''"
    using P(2) by (auto simp: projection_from_authoritative_def source_from_head_def genesis_head_def demo_lineage_def)
  have lin: "kernel_lineage_new ''orders'' SuccessorCapable = Inr demo_lineage"
    unfolding demo_lineage_def by code_simp
  obtain b where "cenc (projection_json demo_ext) (projection_to_wire demo_ext P) = Some b"
    using codec_ok_total [OF ext_ok_codecs(5) [OF demo_ext_ok]] by blast
  then have "projection_bytes demo_ext P = Inr b"
    using P(1) by (simp add: projection_bytes_def src lin load_projected_history_Inr)
  then show ?thesis using projection_bytes_are_canonical [OF demo_ext_ok] by blast
qed

text \<open>A record decodes at a digest from exactly its own encoding: the bytes hash to the digest,
  re-encode to themselves, and the record is well formed for the lineage.\<close>

theorem record_bytes_are_canonical:
  assumes "ext_ok X"
  shows "(record_from_bytes X l d b = Inr r) = (digest_of X b = d \<and> record_wf l r \<and> record_bytes X r = Inr b)"
  using record_from_bytes_Inr [of X l d b r] record_from_bytes_encoded [OF assms] by blast

theorem record_bytes_are_canonical_witness:
  "record_from_bytes demo_ext demo_lineage (hd_record_digest genesis_head) (record_octets genesis_record) = Inr genesis_record"
proof -
  have "record_wf demo_lineage genesis_record" using genesis_valid by (simp add: record_valid_def genesis_record_def)
  then show ?thesis using record_bytes_are_canonical [OF demo_ext_ok] record_octets by (simp add: genesis_head_def)
qed

text \<open>Every well-formed head reads back from its stored form; a head of era 0 also from the
  older form without an era.\<close>

theorem heads_read_back:
  assumes "ext_ok X" "head_wf l h"
  shows "(\<exists>b. head_bytes X h = Inr b \<and> head_from_bytes X l b = Inr h) \<and>
    (hd_incarnation h = 0 \<longrightarrow> (\<exists>b. legacy_v1_bytes X h = Inr b \<and> head_from_bytes X l b = Inr h))"
proof -
  have "\<exists>b. legacy_v1_bytes X h = Inr b"
    unfolding legacy_bytes_Inr by (intro codec_ok_total ext_ok_codecs(3) assms(1))
  then show ?thesis
    using head_bytes_total [OF assms(1)] head_from_bytes_encoded [OF assms] legacy_head_from_bytes [OF assms] by blast
qed

theorem heads_read_back_witness:
  "\<exists>b b'. head_from_bytes demo_ext demo_lineage b = Inr genesis_head \<and> legacy_v1_bytes demo_ext genesis_head = Inr b' \<and>
    head_from_bytes demo_ext demo_lineage b' = Inr genesis_head"
proof -
  have "head_wf demo_lineage genesis_head"
    using digest_wf_of [OF demo_ext_ok] by (simp add: head_wf_def genesis_head_def position_wf_def prior_malformed_def)
  from heads_read_back [OF demo_ext_ok this] show ?thesis by (auto simp: genesis_head_def)
qed

section \<open>Batch deletion reports\<close>

text \<open>C40: The reply to a batch deletion is accepted exactly when its members are the requested
  paths, each once; the outcomes are then in request order, each with its own verdict.\<close>

theorem deletion_reports_match_requests:
  "(reconcile_delete_objects paths deleted errors = Inr outs) =
    (members_match paths deleted errors \<and> outs = map (\<lambda>p. \<lparr>out_path = p, out_result =
      (if Some p \<in> set deleted then Inr ()
       else Inl (entry_failure (the (find (\<lambda>e. entry_key e = Some p) errors))))\<rparr>) paths)"
  by (rule reconcile_spec)

text \<open>A deletion diagnostic never exceeds its budget of 512 bytes.\<close>

theorem deletion_diagnostics_are_bounded: "diagnostic_length (bounded_delete_diagnostic code message) \<le> 512"
  by (rule diagnostic_within_budget)

end
