(* ===== verification/Wire_Digits.thy ===== *)
theory Wire_Digits
  imports S3_Prelude
begin

text \<open>
  Fixed-width digits: big-endian \<open>u32\<close>, slices of byte strings, and the 20-digit zero-padded
  decimals of the object keys (\<open>format!("{:020}")\<close> of a \<open>u64\<close> and its inverse).  The decimal order
  of the keys is the order of the numbers.
\<close>

section \<open>Slices and big-endian reads\<close>

text \<open>\<open>&bytes[a..b]\<close>, and \<open>from_be_bytes(slice.try_into().expect(..))\<close> on a slice of the right
  width.\<close>

definition subslice :: "nat \<Rightarrow> nat \<Rightarrow> 'a list \<Rightarrow> 'a list" where
  "subslice a b xs = take (b - a) (drop a xs)"

definition be_u64 :: "bytes \<Rightarrow> u64" where
  "be_u64 bs = foldl (\<lambda>a b. a * 256 + ucast b) 0 bs"

definition be_u32 :: "bytes \<Rightarrow> u32" where
  "be_u32 bs = foldl (\<lambda>a b. a * 256 + ucast b) 0 bs"

definition to_be_bytes32 :: "u32 \<Rightarrow> bytes" where
  "to_be_bytes32 w = map (\<lambda>i. ucast (drop_bit (8 * i) w)) [3, 2, 1, 0]"

lemma length_to_be_bytes32 [simp]: "length (to_be_bytes32 w) = 4"
  by (simp add: to_be_bytes32_def)

lemma subslice_append:
  "length a = i \<Longrightarrow> length b = j - i \<Longrightarrow> subslice i j (a @ b @ c) = b"
  by (simp add: subslice_def)

lemma subslice_drop: "i \<le> j \<Longrightarrow> subslice i j b @ drop j b = drop i b"
  by (simp add: subslice_def) (metis append_take_drop_id drop_drop le_add_diff_inverse2)

lemma length_subslice: "b \<le> length xs \<Longrightarrow> length (subslice a b xs) = b - a"
  by (simp add: subslice_def)

lemma be_u64_to_be_bytes [simp]: "be_u64 (to_be_bytes w) = w"
  using from_to_be_bytes [of w] unfolding from_be_bytes_code be_u64_def
  by (simp split: if_splits)

lemma to_be_bytes_be_u64: "length bs = 8 \<Longrightarrow> to_be_bytes (be_u64 bs) = bs"
  using to_from_be_bytes [of bs "be_u64 bs"] by (simp add: from_be_bytes_code be_u64_def)

lemma foldl_be_nat:
  fixes init :: "'w::len word"
  shows "foldl (\<lambda>a b. a * 256 + ucast b) init bs = init * 256 ^ length bs + word_of_nat (be_value bs)"
proof (induction bs rule: rev_induct)
  case (snoc b bs)
  have "(word_of_nat (unat b) :: 'w word) = ucast b" by (metis of_nat_unat)
  then show ?case using snoc by (simp add: be_value_snoc algebra_simps)
qed (simp add: be_value_def)

lemma be_u32_nat: "be_u32 bs = word_of_nat (be_value bs)"
  by (simp add: be_u32_def foldl_be_nat)

lemma to_be_bytes32_nat: "to_be_bytes32 w = map (\<lambda>i. word_of_nat (unat w div 256 ^ i mod 256)) (rev [0..<4])"
proof -
  have "word_of_nat (unat w div 256 ^ i mod 256) = (ucast (drop_bit (8 * i) w) :: 8 word)" for i
  proof -
    have "unat (drop_bit (8 * i) w) = unat w div 256 ^ i"
      unfolding unat_drop_bit_eq by (simp add: drop_bit_eq_div power_mult)
    then have "ucast (drop_bit (8 * i) w) = (word_of_nat (unat w div 256 ^ i) :: 8 word)"
      by (metis of_nat_unat)
    then show ?thesis by (simp add: word_of_nat_mod256)
  qed
  moreover have "rev [0..<4] = [3, 2, 1, 0::nat]" by (simp add: upt_rec)
  ultimately show ?thesis by (simp add: to_be_bytes32_def)
qed

lemma be_value_to_be_bytes32: "be_value (to_be_bytes32 w) = unat w"
proof -
  have "be_value (to_be_bytes32 w) = unat w mod 256 ^ 4"
    unfolding to_be_bytes32_nat by (rule be_digits)
  then show ?thesis using unat_lt2p [of w] by simp
qed

lemma be_u32_to_be_bytes32 [simp]: "be_u32 (to_be_bytes32 w) = w"
  by (simp add: be_u32_nat be_value_to_be_bytes32)

lemma to_be_bytes32_be_u32:
  assumes "length bs = 4"
  shows "to_be_bytes32 (be_u32 bs) = bs"
proof (rule be_value_inj)
  have "be_value bs < 2 ^ 32" using be_value_less [of bs] assms by simp
  then have "unat (be_u32 bs) = be_value bs" by (simp add: be_u32_nat unat_of_nat)
  then show "be_value (to_be_bytes32 (be_u32 bs)) = be_value bs" by (simp add: be_value_to_be_bytes32)
qed (simp add: assms)

section \<open>Zero-padded decimals\<close>

definition zero_padded :: "u64 \<Rightarrow> string" where
  "zero_padded w = map (\<lambda>i. char_of (48 + unat w div 10 ^ i mod 10)) (rev [0..<20])"

definition decimal_value :: "string \<Rightarrow> nat" where
  "decimal_value s = foldl (\<lambda>n c. n * 10 + (of_char c - 48)) 0 s"

text \<open>\<open>str::parse::<u64>()\<close> of a string of digits fails only on overflow.\<close>

definition parse_zero_padded :: "string \<Rightarrow> u64 option" where
  "parse_zero_padded s =
    (if length s = 20 \<and> list_all ascii_digit s
     then if decimal_value s < 2 ^ 64 then Some (word_of_nat (decimal_value s)) else None
     else None)"

lemma ascii_digit_code: "ascii_digit c \<longleftrightarrow> 48 \<le> (of_char c :: nat) \<and> of_char c \<le> (57 :: nat)"
  by (simp add: ascii_digit_def less_eq_char_def)

lemma of_char_digit [simp]: "d < 10 \<Longrightarrow> of_char (char_of (48 + d) :: char) = (48 + d :: nat)"
  by simp

lemma decimal_value_snoc [simp]: "decimal_value (s @ [c]) = decimal_value s * 10 + (of_char c - 48)"
  by (simp add: decimal_value_def)

lemma decimal_value_Nil [simp]: "decimal_value [] = 0"
  by (simp add: decimal_value_def)

lemma decimal_digits:
  "decimal_value (map (\<lambda>i. char_of (48 + n div 10 ^ i mod 10)) (rev [0..<k])) = n mod 10 ^ k"
proof (induction k arbitrary: n)
  case (Suc k)
  have "rev [0..<Suc k] = map Suc (rev [0..<k]) @ [0]"
    by (metis map_Suc_upt rev_map rev.simps(2) upt_conv_Cons zero_less_Suc)
  then have "map (\<lambda>i. char_of (48 + n div 10 ^ i mod 10) :: char) (rev [0..<Suc k])
    = map (\<lambda>i. char_of (48 + (n div 10) div 10 ^ i mod 10)) (rev [0..<k]) @ [char_of (48 + n mod 10)]"
    by (simp add: comp_def div_mult2_eq del: upt_Suc)
  then have "decimal_value (map (\<lambda>i. char_of (48 + n div 10 ^ i mod 10) :: char) (rev [0..<Suc k]))
    = (n div 10) mod 10 ^ k * 10 + n mod 10"
    using Suc.IH [of "n div 10"] by (simp only: decimal_value_snoc of_char_digit pos_mod_bound)
  also have "\<dots> = n mod 10 ^ Suc k"
    by (simp add: mod_mult2_eq mult.commute)
  finally show ?case .
qed simp

lemma length_zero_padded [simp]: "length (zero_padded w) = 20"
  by (simp add: zero_padded_def)

lemma digits_zero_padded [simp]: "list_all ascii_digit (zero_padded w)"
  by (auto simp: zero_padded_def list_all_iff ascii_digit_code)

lemma decimal_zero_padded [simp]: "decimal_value (zero_padded w) = unat w"
proof -
  have "unat w < 2 ^ 64" using unat_lt2p [of w] by simp
  also have "(2::nat) ^ 64 < 10 ^ 20" by simp
  finally show ?thesis unfolding zero_padded_def decimal_digits by (rule mod_less)
qed

lemma parse_zero_padded_of [simp]: "parse_zero_padded (zero_padded w) = Some w"
  using unat_lt2p [of w] by (simp add: parse_zero_padded_def)

lemma zero_padded_inj [simp]: "zero_padded v = zero_padded w \<longleftrightarrow> v = w"
  by (metis parse_zero_padded_of option.inject)

lemma zero_padded_nonempty [simp]: "zero_padded w \<noteq> []"
  by (metis length_zero_padded list.size(3) zero_neq_numeral)

lemma slash_not_digit [simp]: "\<not> ascii_digit (CHR ''/'')"
  by (simp add: ascii_digit_code)

lemma zero_padded_no_slash [simp]: "CHR ''/'' \<notin> set (zero_padded w)"
  using digits_zero_padded [of w] slash_not_digit by (metis list.pred_set)

lemma decimal_value_Cons:
  "decimal_value (c # s) = (of_char c - 48) * 10 ^ length s + decimal_value s"
proof (induction s rule: rev_induct)
  case (snoc x s)
  have "decimal_value (c # s @ [x]) = decimal_value (c # s) * 10 + (of_char x - 48)"
    using decimal_value_snoc [of "c # s" x] by simp
  then show ?case using snoc by (simp add: algebra_simps)
qed (simp add: decimal_value_def)

lemma decimal_value_less: "list_all ascii_digit s \<Longrightarrow> decimal_value s < 10 ^ length s"
proof (induction s rule: rev_induct)
  case (snoc x s)
  then have "decimal_value s + 1 \<le> 10 ^ length s" "of_char x - 48 \<le> (9::nat)"
    by (auto simp: ascii_digit_code)
  then have "decimal_value s * 10 + (of_char x - 48) < 10 ^ length s * 10" by linarith
  then show ?case by (simp add: mult.commute)
qed simp

text \<open>On strings of digits of one length, byte order is the order of the values.\<close>

lemma digits_order:
  "length s = length t \<Longrightarrow> list_all ascii_digit s \<Longrightarrow> list_all ascii_digit t \<Longrightarrow>
    s < t \<longleftrightarrow> decimal_value s < decimal_value t"
proof (induction s arbitrary: t)
  case (Cons c s)
  then obtain d t' where t: "t = d # t'" by (cases t) auto
  define x y where xy: "x = (of_char c - 48 :: nat)" "y = (of_char d - 48 :: nat)"
  have digits: "ascii_digit c" "ascii_digit d" using Cons.prems t by simp_all
  have "c = d \<longleftrightarrow> (of_char c :: nat) = of_char d" by simp
  then have lt: "c < d \<longleftrightarrow> x < y" "c = d \<longleftrightarrow> x = y"
    using digits by (auto simp: ascii_digit_code xy less_char_def simp del: of_char_eq_iff)
  have b: "decimal_value s < 10 ^ length t'" "decimal_value t' < 10 ^ length t'"
    using decimal_value_less [of s] decimal_value_less [of t'] Cons.prems t by simp_all
  have vals: "decimal_value (c # s) = x * 10 ^ length t' + decimal_value s"
    "decimal_value t = y * 10 ^ length t' + decimal_value t'"
    using Cons.prems t by (simp_all add: decimal_value_Cons xy)
  consider "x < y" | "x = y" | "y < x" by linarith
  then show ?case
  proof cases
    case 1
    then have "(x + 1) * 10 ^ length t' \<le> y * 10 ^ length t'" by (intro mult_right_mono) simp_all
    then have "decimal_value (c # s) < decimal_value t" using b vals by simp
    then show ?thesis using 1 lt t by simp
  next
    case 2
    then show ?thesis using Cons.IH [of t'] Cons.prems lt t vals by simp
  next
    case 3
    then have "(y + 1) * 10 ^ length t' \<le> x * 10 ^ length t'" by (intro mult_right_mono) simp_all
    then have "decimal_value t < decimal_value (c # s)" using b vals by simp
    then show ?thesis using 3 lt t by auto
  qed
qed simp

lemma zero_padded_less [simp]: "zero_padded v < zero_padded w \<longleftrightarrow> v < w"
  by (simp add: digits_order word_less_nat_alt)

lemma parse_zero_padded_Some:
  assumes "parse_zero_padded s = Some w"
  shows "s = zero_padded w"
proof -
  have s: "length s = 20" "list_all ascii_digit s" "decimal_value s < 2 ^ 64"
    "w = word_of_nat (decimal_value s)"
    using assms by (auto simp: parse_zero_padded_def split: if_splits)
  then have "unat w = decimal_value s" by (simp add: unat_of_nat)
  then have "\<not> s < zero_padded w" "\<not> zero_padded w < s"
    using s digits_order [of s "zero_padded w"] digits_order [of "zero_padded w" s] by simp_all
  then show ?thesis by simp
qed

lemma parse_zero_padded_iff: "parse_zero_padded s = Some w \<longleftrightarrow> s = zero_padded w"
  by (auto dest: parse_zero_padded_Some)

end
