(* ===== verification/Value_Manifest.thy ===== *)
theory Value_Manifest
  imports Wire_Digits Keyspace_Errors Kernel_Records
begin

text \<open>
  The two stored forms of a keyspace value and the physical chunk paths
  (\<open>value_manifest.rs\<close>, \<open>ValueEnvelope\<close> of \<open>atomic_keyspace.rs\<close>): the inline envelope, the
  manifest of a chunked value with the complete rule set of its decoder, and the reversible
  chunk object key.  Both value codecs are instances of \<open>canonical_codec\<close>.
\<close>

section \<open>Identifiers\<close>

definition ascii_alphanumeric :: "char \<Rightarrow> bool" where
  "ascii_alphanumeric c \<longleftrightarrow> ascii_digit c \<or> (CHR ''A'' \<le> c \<and> c \<le> CHR ''Z'') \<or> (CHR ''a'' \<le> c \<and> c \<le> CHR ''z'')"

fun segment_ok :: "string \<Rightarrow> bool" where
  "segment_ok [] = False"
| "segment_ok (c # cs) \<longleftrightarrow> ascii_alphanumeric c \<and>
    list_all (\<lambda>b. ascii_alphanumeric b \<or> b = CHR ''-'' \<or> b = CHR ''_'' \<or> b = CHR ''.'') cs"

definition validate_identifier :: "string \<Rightarrow> string \<Rightarrow> keyspace_error + unit" where
  "validate_identifier kind value =
    (if value = [] \<or> length value > 255 \<or> hd value = CHR ''/'' \<or> last value = CHR ''/''
     then Inl (KsInvalidIdentifier (Some kind) value)
     else if list_all segment_ok (split_at (CHR ''/'') value) then Inr ()
     else Inl (KsInvalidIdentifier (Some kind) value))"

definition identifier_ok :: "string \<Rightarrow> bool" where
  "identifier_ok value \<longleftrightarrow> validate_identifier [] value = Inr ()"

lemma validate_identifier_Inr [simp]: "validate_identifier kind value = Inr u \<longleftrightarrow> identifier_ok value"
  by (auto simp: validate_identifier_def identifier_ok_def)

lemma validate_identifier_eq:
  "validate_identifier kind value =
    (if identifier_ok value then Inr () else Inl (KsInvalidIdentifier (Some kind) value))"
  by (auto simp: validate_identifier_def identifier_ok_def)

lemma identifier_okD:
  assumes "identifier_ok v"
  shows "v \<noteq> []" "length v \<le> 255" "hd v \<noteq> CHR ''/''" "last v \<noteq> CHR ''/''"
    "list_all segment_ok (split_at (CHR ''/'') v)"
  using assms by (auto simp: identifier_ok_def validate_identifier_def split: if_splits)

section \<open>The inline envelope\<close>

definition value_envelope_prefix :: bytes where
  "value_envelope_prefix = as_bytes ''yeetz-keyspace-value/v2'' @ [0]"

record value_envelope =
  ve_incarnation :: u64
  ve_version :: u64
  ve_payload :: bytes

definition envelope_encode :: "value_envelope \<Rightarrow> bytes" where
  "envelope_encode e = value_envelope_prefix @ to_be_bytes (ve_incarnation e)
    @ to_be_bytes (ve_version e) @ ve_payload e"

definition envelope_decode :: "key \<Rightarrow> bytes \<Rightarrow> keyspace_error + value_envelope" where
  "envelope_decode k b =
    (let incarnation_start = length value_envelope_prefix;
         version_start = incarnation_start + 8;
         payload_start = version_start + 8 in
     if length b < payload_start \<or> \<not> prefix value_envelope_prefix b
     then Inl (KsValueEnvelopeMalformed k)
     else Inr \<lparr>ve_incarnation = be_u64 (subslice incarnation_start version_start b),
               ve_version = be_u64 (subslice version_start payload_start b),
               ve_payload = drop payload_start b\<rparr>)"

lemma length_value_envelope_prefix [simp]: "length value_envelope_prefix = 24"
  by (simp add: value_envelope_prefix_def)

lemma envelope_decode_encode: "envelope_decode k (envelope_encode e) = Inr e"
  by (simp add: envelope_decode_def envelope_encode_def Let_def subslice_def)

lemma take_drop_split: "take a xs @ take b (drop a xs) @ drop (a + b) xs = xs"
  by (metis append_take_drop_id drop_drop add.commute)

lemma envelope_encode_decode:
  assumes "envelope_decode k b = Inr e"
  shows "envelope_encode e = b"
proof -
  have len: "40 \<le> length b" and pre: "prefix value_envelope_prefix b"
    and e: "e = \<lparr>ve_incarnation = be_u64 (subslice 24 32 b), ve_version = be_u64 (subslice 32 40 b),
      ve_payload = drop 40 b\<rparr>"
    using assms by (auto simp: envelope_decode_def Let_def split: if_splits)
  obtain r where b: "b = value_envelope_prefix @ r" using pre by (auto elim: prefixE)
  have "take 8 r @ take 8 (drop 8 r) @ drop 16 r = r"
    using take_drop_split [of 8 r 8] by simp
  moreover have "length (take 8 r) = 8" "length (take 8 (drop 8 r)) = 8" using len b by simp_all
  ultimately show ?thesis by (simp add: e b envelope_encode_def subslice_def to_be_bytes_be_u64)
qed

interpretation envelope_codec: canonical_codec "\<lambda>_. True" "\<lambda>_ _ _. True" "\<lambda>_ e. Inr (envelope_encode e)"
  "\<lambda>_. envelope_decode"
  by unfold_locales (auto simp: envelope_decode_encode dest: envelope_encode_decode)

section \<open>The manifest\<close>

definition chunk_bytes :: nat where
  "chunk_bytes = 16 * 1024 * 1024"

definition inline_max :: nat where
  "inline_max = 64 * 1024 * 1024"

definition min_chunks :: u32 where
  "min_chunks = 2"

definition max_chunks :: u32 where
  "max_chunks = 65536"

definition max_logical_bytes :: u64 where
  "max_logical_bytes = word_of_nat chunk_bytes * ucast max_chunks"

definition max_manifest_bytes :: nat where
  "max_manifest_bytes = 4 * 1024 * 1024"

definition manifest_magic :: bytes where
  "manifest_magic = as_bytes ''yeetz-keyspace-value/v3'' @ [0]"

definition manifest_kind_chunked_v1 :: u32 where
  "manifest_kind_chunked_v1 = 1"

definition value_root_domain :: bytes where
  "value_root_domain = as_bytes ''yeetz-keyspace-value-root/v1''"

definition manifest_header_bytes :: nat where
  "manifest_header_bytes = length manifest_magic + 8 + 8 + 4 + 16 + 8 + 32 + 4 + 4"

definition manifest_entry_bytes :: nat where
  "manifest_entry_bytes = 4 + 32"

record manifest_entry =
  me_encoded_len :: u32
  me_sha256 :: bytes

record value_manifest =
  vm_incarnation :: u64
  vm_version :: u64
  vm_commit_id :: bytes
  vm_logical_len :: u64
  vm_value_root_sha256 :: bytes
  vm_chunk_bytes :: u32
  vm_entries :: "manifest_entry list"

definition digest_hex :: "ext \<Rightarrow> manifest_entry \<Rightarrow> string" where
  "digest_hex X e = hex_encode X (me_sha256 e)"

definition chunk_count :: "value_manifest \<Rightarrow> u32" where
  "chunk_count m = word_of_nat (length (vm_entries m))"

definition entry_encode :: "manifest_entry \<Rightarrow> bytes" where
  "entry_encode e = to_be_bytes32 (me_encoded_len e) @ me_sha256 e"

definition compute_value_root :: "ext \<Rightarrow> u64 \<Rightarrow> u32 \<Rightarrow> manifest_entry list \<Rightarrow> bytes" where
  "compute_value_root X logical_len cb es = sha256 X (value_root_domain @ to_be_bytes logical_len
    @ to_be_bytes32 cb @ to_be_bytes32 (word_of_nat (length es)) @ concat (map entry_encode es))"

definition manifest_encode :: "value_manifest \<Rightarrow> bytes" where
  "manifest_encode m = manifest_magic @ to_be_bytes (vm_incarnation m) @ to_be_bytes (vm_version m)
    @ to_be_bytes32 manifest_kind_chunked_v1 @ vm_commit_id m @ to_be_bytes (vm_logical_len m)
    @ vm_value_root_sha256 m @ to_be_bytes32 (vm_chunk_bytes m) @ to_be_bytes32 (chunk_count m)
    @ concat (map entry_encode (vm_entries m))"

text \<open>The loop over the chunk table: \<open>count\<close> entries are left, the lengths so far sum to
  \<open>summed_len\<close>; an entry of a non-canonical length ends it.\<close>

fun decode_entries :: "bytes \<Rightarrow> nat \<Rightarrow> u64 \<Rightarrow> (manifest_entry list \<times> u64) option" where
  "decode_entries b 0 summed_len = Some ([], summed_len)"
| "decode_entries b (Suc n) summed_len =
    (let encoded_len = be_u32 (take 4 b);
         is_final = (n = 0);
         canonical_len = (if is_final then 1 \<le> encoded_len \<and> encoded_len \<le> word_of_nat chunk_bytes
                          else encoded_len = word_of_nat chunk_bytes) in
     if \<not> canonical_len then None
     else case decode_entries (drop manifest_entry_bytes b) n (summed_len + ucast encoded_len) of
         None \<Rightarrow> None
       | Some (es, whole) \<Rightarrow>
           Some (\<lparr>me_encoded_len = encoded_len, me_sha256 = subslice 4 manifest_entry_bytes b\<rparr> # es, whole))"

definition manifest_decode :: "ext \<Rightarrow> key \<Rightarrow> bytes \<Rightarrow> keyspace_error + value_manifest" where
  "manifest_decode X k b =
    (if length b > max_manifest_bytes
     then Inl (KsManifestTooLarge k (word_of_nat (length b)) (word_of_nat max_manifest_bytes))
     else if length b < manifest_header_bytes \<or> \<not> prefix manifest_magic b then Inl (KsManifestMalformed k)
     else let at = length manifest_magic;
         incarnation = be_u64 (subslice at (at + 8) b);
         version = be_u64 (subslice (at + 8) (at + 16) b);
         kind = be_u32 (subslice (at + 16) (at + 20) b);
         commit_id = subslice (at + 20) (at + 36) b;
         logical_len = be_u64 (subslice (at + 36) (at + 44) b);
         value_root = subslice (at + 44) (at + 76) b;
         cb = be_u32 (subslice (at + 76) (at + 80) b);
         count = be_u32 (subslice (at + 80) (at + 84) b) in
     if kind \<noteq> manifest_kind_chunked_v1 then Inl (KsManifestMalformed k)
     else if cb \<noteq> word_of_nat chunk_bytes then Inl (KsManifestMalformed k)
     else if \<not> (min_chunks \<le> count \<and> count \<le> max_chunks) then Inl (KsChunkCountInvalid k count)
     else if length b \<noteq> manifest_header_bytes + manifest_entry_bytes * unat count then Inl (KsManifestMalformed k)
     else (case decode_entries (drop (at + 84) b) (unat count) 0 of
         None \<Rightarrow> Inl (KsManifestMalformed k)
       | Some (es, summed_len) \<Rightarrow>
           if summed_len \<noteq> logical_len then Inl (KsManifestMalformed k)
           else if logical_len > max_logical_bytes then Inl (KsValueTooLarge k logical_len max_logical_bytes)
           else if compute_value_root X logical_len cb es \<noteq> value_root then Inl (KsManifestRootMismatch k)
           else Inr \<lparr>vm_incarnation = incarnation, vm_version = version, vm_commit_id = commit_id,
             vm_logical_len = logical_len, vm_value_root_sha256 = value_root, vm_chunk_bytes = cb,
             vm_entries = es\<rparr>))"

lemmas manifest_sizes = chunk_bytes_def inline_max_def min_chunks_def max_chunks_def
  max_manifest_bytes_def manifest_entry_bytes_def

lemma length_manifest_magic [simp]: "length manifest_magic = 24"
  by (simp add: manifest_magic_def)

lemma manifest_header_bytes_eq: "manifest_header_bytes = 108"
  by (simp add: manifest_header_bytes_def)

lemma max_logical_bytes_eq: "max_logical_bytes = 1099511627776"
  by (simp add: max_logical_bytes_def manifest_sizes)

text \<open>The canonical tables: every chunk but the last is full, the last is not empty.\<close>

definition entries_wf :: "manifest_entry list \<Rightarrow> bool" where
  "entries_wf es \<longleftrightarrow> es \<noteq> [] \<and> (\<forall>e\<in>set es. length (me_sha256 e) = 32) \<and>
    (\<forall>e\<in>set (butlast es). me_encoded_len e = word_of_nat chunk_bytes) \<and>
    1 \<le> me_encoded_len (last es) \<and> me_encoded_len (last es) \<le> word_of_nat chunk_bytes"

definition table_len :: "manifest_entry list \<Rightarrow> nat" where
  "table_len es = sum_list (map (\<lambda>e. unat (me_encoded_len e)) es)"

definition manifest_wf :: "ext \<Rightarrow> value_manifest \<Rightarrow> bool" where
  "manifest_wf X m \<longleftrightarrow> length (vm_commit_id m) = 16 \<and> vm_chunk_bytes m = word_of_nat chunk_bytes \<and>
    2 \<le> length (vm_entries m) \<and> length (vm_entries m) \<le> 65536 \<and> entries_wf (vm_entries m) \<and>
    unat (vm_logical_len m) = table_len (vm_entries m) \<and> length (vm_value_root_sha256 m) = 32 \<and>
    vm_value_root_sha256 m = compute_value_root X (vm_logical_len m) (vm_chunk_bytes m) (vm_entries m)"

lemma entry_encode_length: "length (me_sha256 e) = 32 \<Longrightarrow> length (entry_encode e) = manifest_entry_bytes"
  by (simp add: entry_encode_def manifest_sizes)

lemma table_bytes_length:
  "\<forall>e\<in>set es. length (me_sha256 e) = 32 \<Longrightarrow>
    length (concat (map entry_encode es)) = manifest_entry_bytes * length es"
  by (induction es) (simp_all add: entry_encode_length)

lemma entries_wf_Cons:
  "entries_wf (e # es) \<longleftrightarrow> length (me_sha256 e) = 32 \<and>
    (if es = [] then 1 \<le> me_encoded_len e \<and> me_encoded_len e \<le> word_of_nat chunk_bytes
     else me_encoded_len e = word_of_nat chunk_bytes \<and> entries_wf es)"
  by (auto simp: entries_wf_def)

lemma decode_entries_Some:
  "decode_entries b n s = Some (es, t) \<Longrightarrow> length b = manifest_entry_bytes * n \<Longrightarrow>
    length es = n \<and> concat (map entry_encode es) = b \<and> (n > 0 \<longrightarrow> entries_wf es) \<and>
    t = s + word_of_nat (table_len es)"
proof (induction b n s arbitrary: es t rule: decode_entries.induct)
  case (1 b s)
  then show ?case by (simp add: table_len_def)
next
  case (2 b n s)
  define len where "len = be_u32 (take 4 b)"
  obtain es' where rest: "decode_entries (drop manifest_entry_bytes b) n (s + ucast len) = Some (es', t)"
    and es: "es = \<lparr>me_encoded_len = len, me_sha256 = subslice 4 manifest_entry_bytes b\<rparr> # es'"
    and canon: "if n = 0 then 1 \<le> len \<and> len \<le> word_of_nat chunk_bytes else len = word_of_nat chunk_bytes"
    using "2.prems"(1) by (auto simp: Let_def len_def split: option.splits if_splits)
  have lb: "length b = 36 + 36 * n" using "2.prems"(2) by (simp add: manifest_sizes)
  have c: "\<not> \<not> (if n = 0 then 1 \<le> be_u32 (take 4 b) \<and> be_u32 (take 4 b) \<le> word_of_nat chunk_bytes
      else be_u32 (take 4 b) = word_of_nat chunk_bytes)" using canon unfolding len_def by (simp split: if_splits)
  have IH: "length es' = n \<and> concat (map entry_encode es') = drop manifest_entry_bytes b \<and>
      (n > 0 \<longrightarrow> entries_wf es') \<and> t = s + ucast len + word_of_nat (table_len es')"
    using "2.IH" [OF refl refl refl c] rest lb by (simp add: len_def manifest_sizes)
  have "take 4 b @ subslice 4 36 b @ drop 36 b = b"
    using take_drop_split [of 4 b 32] by (simp add: subslice_def)
  moreover have "to_be_bytes32 len = take 4 b" using lb by (simp add: len_def to_be_bytes32_be_u32)
  ultimately have "concat (map entry_encode es) = b"
    using IH by (simp add: es entry_encode_def manifest_sizes)
  moreover have "length (subslice 4 36 b) = 32" using lb by (simp add: length_subslice)
  moreover have "ucast len = (word_of_nat (unat len) :: u64)" by (metis of_nat_unat)
  ultimately show ?case using IH canon es
    by (auto simp: entries_wf_Cons table_len_def manifest_sizes)
qed

lemma decode_entries_encoded:
  "(\<forall>e\<in>set es. length (me_sha256 e) = 32) \<Longrightarrow> es = [] \<or> entries_wf es \<Longrightarrow>
    decode_entries (concat (map entry_encode es)) (length es) s = Some (es, s + word_of_nat (table_len es))"
proof (induction es arbitrary: s)
  case Nil
  then show ?case by (simp add: table_len_def)
next
  case (Cons e es)
  have sha: "length (me_sha256 e) = 32" using Cons.prems by simp
  have canon: "if length es = 0 then 1 \<le> me_encoded_len e \<and> me_encoded_len e \<le> word_of_nat chunk_bytes
      else me_encoded_len e = word_of_nat chunk_bytes"
    using Cons.prems(2) by (simp add: entries_wf_Cons split: if_splits)
  have IH: "decode_entries (concat (map entry_encode es)) (length es) s'
      = Some (es, s' + word_of_nat (table_len es))" for s'
    using Cons.prems by (intro Cons.IH) (auto simp: entries_wf_Cons split: if_splits)
  have row: "take 4 (entry_encode e @ r) = to_be_bytes32 (me_encoded_len e)"
    "subslice 4 manifest_entry_bytes (entry_encode e @ r) = me_sha256 e"
    "drop manifest_entry_bytes (entry_encode e @ r) = r" for r
    using sha by (simp_all add: entry_encode_def manifest_sizes subslice_def)
  have cat: "concat (map entry_encode (e # es)) = entry_encode e @ concat (map entry_encode es)"
    and sums: "table_len (e # es) = unat (me_encoded_len e) + table_len es"
    by (simp_all add: table_len_def)
  show ?case
    using canon unfolding list.size(4) add_Suc_right add_0_right decode_entries.simps cat row Let_def sums
    by (simp add: IH)
qed

lemma table_len_bound: "entries_wf es \<Longrightarrow> table_len es \<le> chunk_bytes * length es"
proof (induction es)
  case (Cons e es)
  have "unat (me_encoded_len e) \<le> chunk_bytes"
    using Cons.prems by (auto simp: entries_wf_Cons word_le_nat_alt manifest_sizes split: if_splits)
  moreover have "table_len es \<le> chunk_bytes * length es"
    using Cons by (cases "es = []") (auto simp: entries_wf_Cons table_len_def)
  ultimately show ?case by (simp add: table_len_def)
qed (simp add: entries_wf_def)

lemma manifest_rows:
  assumes "length (vm_commit_id m) = 16" "length (vm_value_root_sha256 m) = 32"
  shows "subslice 24 32 (manifest_encode m) = to_be_bytes (vm_incarnation m)"
    "subslice 32 40 (manifest_encode m) = to_be_bytes (vm_version m)"
    "subslice 40 44 (manifest_encode m) = to_be_bytes32 manifest_kind_chunked_v1"
    "subslice 44 60 (manifest_encode m) = vm_commit_id m"
    "subslice 60 68 (manifest_encode m) = to_be_bytes (vm_logical_len m)"
    "subslice 68 100 (manifest_encode m) = vm_value_root_sha256 m"
    "subslice 100 104 (manifest_encode m) = to_be_bytes32 (vm_chunk_bytes m)"
    "subslice 104 108 (manifest_encode m) = to_be_bytes32 (chunk_count m)"
    "drop 108 (manifest_encode m) = concat (map entry_encode (vm_entries m))"
    "length (manifest_encode m) = 108 + length (concat (map entry_encode (vm_entries m)))"
  using assms by (simp_all add: manifest_encode_def subslice_def)

lemma manifest_wfD:
  assumes "manifest_wf X m"
  shows "length (vm_commit_id m) = 16" "vm_chunk_bytes m = word_of_nat chunk_bytes"
    "2 \<le> length (vm_entries m)" "length (vm_entries m) \<le> 65536" "entries_wf (vm_entries m)"
    "\<forall>e\<in>set (vm_entries m). length (me_sha256 e) = 32"
    "unat (vm_logical_len m) = table_len (vm_entries m)" "length (vm_value_root_sha256 m) = 32"
    "compute_value_root X (vm_logical_len m) (vm_chunk_bytes m) (vm_entries m) = vm_value_root_sha256 m"
    "unat (chunk_count m) = length (vm_entries m)" "unat (vm_logical_len m) \<le> 2 ^ 40"
proof -
  show "unat (vm_logical_len m) \<le> 2 ^ 40"
    using assms table_len_bound [of "vm_entries m"] by (simp add: manifest_wf_def manifest_sizes)
  show "unat (chunk_count m) = length (vm_entries m)"
    using assms by (simp add: manifest_wf_def chunk_count_def unat_of_nat)
qed (use assms in \<open>auto simp: manifest_wf_def entries_wf_def\<close>)

lemma manifest_decode_encode:
  assumes "manifest_wf X m"
  shows "manifest_decode X k (manifest_encode m) = Inr m"
proof -
  note wf = manifest_wfD [OF assms]
  note rows = manifest_rows [OF wf(1,8)]
  have len: "length (manifest_encode m) = 108 + 36 * length (vm_entries m)"
    using rows(10) table_bytes_length [OF wf(6)] by (simp add: manifest_sizes)
  have table: "decode_entries (concat (map entry_encode (vm_entries m))) (length (vm_entries m)) 0
      = Some (vm_entries m, vm_logical_len m)"
    using decode_entries_encoded [OF wf(6), of 0] wf(5) by (simp flip: wf(7))
  have magic: "prefix manifest_magic (manifest_encode m)" by (simp add: manifest_encode_def)
  have count: "min_chunks \<le> chunk_count m" "chunk_count m \<le> max_chunks"
    using wf(3,4,10) by (simp_all add: word_le_nat_alt manifest_sizes)
  have "vm_logical_len m \<le> max_logical_bytes"
    using wf(11) by (simp add: max_logical_bytes_eq word_le_nat_alt)
  then show ?thesis
    unfolding manifest_decode_def length_manifest_magic manifest_header_bytes_eq
    using wf len magic count
    by (simp add: Let_def rows table manifest_entry_bytes_def max_manifest_bytes_def)
qed

lemma manifest_encode_decode:
  assumes "manifest_decode X k b = Inr m"
  shows "manifest_wf X m" "manifest_encode m = b"
proof -
  let ?n = "be_u32 (subslice 104 108 b)"
  obtain es whole where guards: "length b \<le> max_manifest_bytes" "108 \<le> length b" "prefix manifest_magic b"
      "be_u32 (subslice 40 44 b) = manifest_kind_chunked_v1"
      "be_u32 (subslice 100 104 b) = word_of_nat chunk_bytes" "min_chunks \<le> ?n" "?n \<le> max_chunks"
      "length b = 108 + manifest_entry_bytes * unat ?n"
    and table: "decode_entries (drop 108 b) (unat ?n) 0 = Some (es, whole)"
    and root: "whole = be_u64 (subslice 60 68 b)"
      "compute_value_root X whole (word_of_nat chunk_bytes) es = subslice 68 100 b"
    and m: "m = \<lparr>vm_incarnation = be_u64 (subslice 24 32 b), vm_version = be_u64 (subslice 32 40 b),
      vm_commit_id = subslice 44 60 b, vm_logical_len = whole, vm_value_root_sha256 = subslice 68 100 b,
      vm_chunk_bytes = word_of_nat chunk_bytes, vm_entries = es\<rparr>"
    using assms unfolding manifest_decode_def length_manifest_magic manifest_header_bytes_eq Let_def
    by (auto split: if_splits option.splits)
  have lb: "length (drop 108 b) = manifest_entry_bytes * unat ?n" using guards by simp
  note es = decode_entries_Some [OF table lb]
  have n: "2 \<le> unat ?n" "unat ?n \<le> 65536"
    using guards(6,7) by (simp_all add: word_le_nat_alt manifest_sizes)
  have wfes: "entries_wf es" using es n by simp
  have "table_len es \<le> 2 ^ 40" using table_len_bound [OF wfes] es n by (simp add: manifest_sizes)
  then have whole: "unat whole = table_len es" using es by (simp add: unat_of_nat)
  show "manifest_wf X m"
    using es n wfes whole root guards(2) by (simp add: manifest_wf_def m length_subslice)
  have fields: "to_be_bytes (be_u64 (subslice i (i + 8) b)) = subslice i (i + 8) b" if "i + 8 \<le> 108" for i
    using that guards(2) by (intro to_be_bytes_be_u64) (simp add: length_subslice)
  have fields32: "to_be_bytes32 (be_u32 (subslice i (i + 4) b)) = subslice i (i + 4) b" if "i + 4 \<le> 108" for i
    using that guards(2) by (intro to_be_bytes32_be_u32) (simp add: length_subslice)
  have f: "to_be_bytes (be_u64 (subslice 24 32 b)) = subslice 24 32 b"
    "to_be_bytes (be_u64 (subslice 32 40 b)) = subslice 32 40 b"
    "to_be_bytes whole = subslice 60 68 b"
    "to_be_bytes32 manifest_kind_chunked_v1 = subslice 40 44 b"
    "to_be_bytes32 (word_of_nat chunk_bytes) = subslice 100 104 b"
    "to_be_bytes32 (chunk_count m) = subslice 104 108 b"
    using fields [of 24] fields [of 32] fields [of 60] fields32 [of 40] fields32 [of 100] fields32 [of 104]
      root(1) guards(4,5) es by (simp_all add: chunk_count_def m)
  obtain r where "b = manifest_magic @ r" using guards(3) by (auto elim: prefixE)
  then have "manifest_magic @ drop 24 b = b" by simp
  then show "manifest_encode m = b"
    using es f by (simp add: manifest_encode_def m subslice_drop)
qed

interpretation manifest_codec: canonical_codec "\<lambda>_. True" "\<lambda>X _. manifest_wf X"
  "\<lambda>_ m. Inr (manifest_encode m)" manifest_decode
  by unfold_locales (auto simp: manifest_decode_encode dest: manifest_encode_decode)

section \<open>Control objects\<close>

text \<open>The one decoder of every control-metadata path: an inline envelope or a manifest.\<close>

datatype control_envelope = CtlInline value_envelope | CtlChunked value_manifest

definition control_decode :: "ext \<Rightarrow> key \<Rightarrow> bytes \<Rightarrow> keyspace_error + control_envelope" where
  "control_decode X k b =
    (if prefix manifest_magic b then try_res (manifest_decode X k b) (\<lambda>m. Inr (CtlChunked m))
     else try_res (envelope_decode k b) (\<lambda>e. Inr (CtlInline e)))"

fun control_incarnation :: "control_envelope \<Rightarrow> u64" where
  "control_incarnation (CtlInline e) = ve_incarnation e"
| "control_incarnation (CtlChunked m) = vm_incarnation m"

fun control_version :: "control_envelope \<Rightarrow> u64" where
  "control_version (CtlInline e) = ve_version e"
| "control_version (CtlChunked m) = vm_version m"

fun control_encode :: "control_envelope \<Rightarrow> bytes" where
  "control_encode (CtlInline e) = envelope_encode e"
| "control_encode (CtlChunked m) = manifest_encode m"

fun control_wf :: "ext \<Rightarrow> control_envelope \<Rightarrow> bool" where
  "control_wf X (CtlInline e) = True"
| "control_wf X (CtlChunked m) = manifest_wf X m"

lemma magics_differ: "\<not> prefix manifest_magic (envelope_encode e)" "prefix manifest_magic (manifest_encode m)"
proof -
  have "take 24 (envelope_encode e) = value_envelope_prefix" by (simp add: envelope_encode_def)
  moreover have "value_envelope_prefix \<noteq> manifest_magic"
    by (simp add: value_envelope_prefix_def manifest_magic_def)
  ultimately show "\<not> prefix manifest_magic (envelope_encode e)"
    by (metis append_eq_conv_conj length_manifest_magic prefixE)
qed (simp add: manifest_encode_def)

lemma control_decode_encode: "control_wf X c \<Longrightarrow> control_decode X k (control_encode c) = Inr c"
  by (cases c) (simp_all add: control_decode_def magics_differ manifest_decode_encode envelope_decode_encode)

lemma control_encode_decode:
  "control_decode X k b = Inr c \<Longrightarrow> control_wf X c \<and> control_encode c = b"
  by (auto simp: control_decode_def envelope_encode_decode manifest_encode_decode split: if_splits)

interpretation control_codec: canonical_codec "\<lambda>_. True" "\<lambda>X _. control_wf X"
  "\<lambda>_ c. Inr (control_encode c)" control_decode
  by unfold_locales (auto simp: control_decode_encode dest: control_encode_decode)

section \<open>Physical chunk keys\<close>

definition strip_prefix :: "string \<Rightarrow> string \<Rightarrow> string option" where
  "strip_prefix p s = (if prefix p s then Some (drop (length p) s) else None)"

lemma strip_prefix_Some [simp]: "strip_prefix p s = Some r \<longleftrightarrow> s = p @ r"
  by (auto simp: strip_prefix_def prefix_def)

lemma strip_prefix_None: "strip_prefix p s = None \<longleftrightarrow> \<not> prefix p s"
  by (simp add: strip_prefix_def)

fun join_with :: "char \<Rightarrow> string list \<Rightarrow> string" where
  "join_with c [] = []"
| "join_with c [s] = s"
| "join_with c (s # ss) = s @ c # join_with c ss"

lemma join_Cons: "ss \<noteq> [] \<Longrightarrow> join_with c (s # ss) = s @ c # join_with c ss"
  by (cases ss) auto

lemma join_Cons_Cons: "join_with c ((x # seg) # segs) = x # join_with c (seg # segs)"
  by (cases segs) auto

lemma join_split [simp]: "join_with c (split_at c s) = s"
proof (induction s)
  case (Cons x s)
  then show ?case
    by (cases "split_at c s") (auto simp: join_Cons join_Cons_Cons)
qed simp

lemma join_append: "xs \<noteq> [] \<Longrightarrow> ys \<noteq> [] \<Longrightarrow> join_with c (xs @ ys) = join_with c xs @ c # join_with c ys"
proof (induction xs)
  case (Cons x xs)
  then show ?case by (cases "xs = []") (simp_all add: join_Cons)
qed simp

definition chunk_root_version :: string where
  "chunk_root_version = ''v1''"

definition chunk_key_root :: string where
  "chunk_key_root = chunk_root @ ''/'' @ chunk_root_version @ ''/''"

definition chunk_object_key :: "ext \<Rightarrow> string \<Rightarrow> key \<Rightarrow> u64 \<Rightarrow> u64 \<Rightarrow> string \<Rightarrow> key" where
  "chunk_object_key X namespace k incarnation version dhex =
    chunk_key_root @ namespace @ ''/'' @ hex_encode X (as_bytes k) @ ''/'' @ zero_padded incarnation
      @ ''/'' @ zero_padded version @ ''/'' @ dhex"

record chunk_object_path =
  cop_namespace :: string
  cop_logical_key :: string
  cop_incarnation :: u64
  cop_version :: u64
  cop_digest_hex :: string

definition is_lower_hex :: "string \<Rightarrow> bool" where
  "is_lower_hex v \<longleftrightarrow> list_all ascii_lower_hex v"

definition parse_chunk_object_key :: "ext \<Rightarrow> key \<Rightarrow> chunk_object_path option" where
  "parse_chunk_object_key X path =
    (case strip_prefix chunk_key_root path of None \<Rightarrow> None | Some rest \<Rightarrow>
     let segments = split_at (CHR ''/'') rest in
     if length segments < 5 then None
     else (case rev segments of
         dhex # version_seg # incarnation_seg # encoded_key # namespace_rev \<Rightarrow>
           (case parse_zero_padded version_seg of None \<Rightarrow> None | Some version \<Rightarrow>
           (case parse_zero_padded incarnation_seg of None \<Rightarrow> None | Some incarnation \<Rightarrow>
            if \<not> is_lower_hex dhex \<or> length dhex \<noteq> 64 then None
            else if encoded_key = [] \<or> length encoded_key mod 2 \<noteq> 0 \<or> \<not> is_lower_hex encoded_key then None
            else (case hex_decode X encoded_key of None \<Rightarrow> None | Some raw \<Rightarrow>
              if \<not> utf8_valid raw then None
              else let logical_key = bytes_string raw; namespace = join_with (CHR ''/'') (rev namespace_rev) in
                if is_ok (validate_identifier ''chunk namespace'' namespace) \<and>
                   is_ok (validate_identifier ''chunk logical key'' logical_key)
                then Some \<lparr>cop_namespace = namespace, cop_logical_key = logical_key,
                  cop_incarnation = incarnation, cop_version = version, cop_digest_hex = dhex\<rparr>
                else None)))
       | _ \<Rightarrow> None))"

lemma is_ok_validate [simp]: "is_ok (validate_identifier kind v) = identifier_ok v"
  by (simp add: validate_identifier_eq)

text \<open>The segments of an identifier hold neither a slash nor anything beyond ASCII.\<close>

lemma alnum_ascii: "ascii_alphanumeric c \<Longrightarrow> of_char c < (128 :: nat)"
  by (auto simp: ascii_alphanumeric_def ascii_digit_def less_eq_char_def)

lemma segment_ascii: "segment_ok seg \<Longrightarrow> c \<in> set seg \<Longrightarrow> of_char c < (128 :: nat)"
  by (cases seg) (auto simp: list_all_iff alnum_ascii)

lemma set_join: "set (join_with c ss) \<subseteq> insert c (\<Union> (set ` set ss))"
proof (induction c ss rule: join_with.induct)
  case (3 c s v va)
  then show ?case by (simp add: join_Cons) blast
qed auto

lemma identifier_ascii:
  assumes "identifier_ok v" "c \<in> set v"
  shows "of_char c < (128 :: nat)"
proof -
  have "c = CHR ''/'' \<or> (\<exists>seg\<in>set (split_at (CHR ''/'') v). c \<in> set seg)"
    using set_join [of "CHR ''/''" "split_at (CHR ''/'') v"] assms(2) by auto
  then show ?thesis
    using identifier_okD(5) [OF assms(1)] segment_ascii by (auto simp: list_all_iff)
qed

lemma utf8_ascii: "\<forall>b\<in>set bs. b < 0x80 \<Longrightarrow> utf8_valid bs"
  by (induction bs rule: utf8_valid.induct) auto

lemma utf8_as_bytes:
  assumes "\<forall>c\<in>set s. of_char c < (128 :: nat)"
  shows "utf8_valid (as_bytes s)"
proof (rule utf8_ascii, rule ballI)
  fix b assume "b \<in> set (as_bytes s)"
  then obtain c where c: "c \<in> set s" "b = word_of_nat (of_char c)" by (auto simp: as_bytes_def)
  then have "unat b < 128" using assms by (simp add: unat_of_nat del: of_nat_of_char)
  then show "b < 0x80" by (simp add: word_less_nat_alt)
qed

lemma lower_hex_no_slash: "list_all ascii_lower_hex s \<Longrightarrow> CHR ''/'' \<notin> set s"
  by (auto simp: list_all_iff ascii_lower_hex_def ascii_digit_def less_eq_char_def)

lemma parse_chunk_object_key_of:
  assumes "ext_ok X" "identifier_ok namespace" "identifier_ok k" "length dhex = 64" "list_all ascii_lower_hex dhex"
  shows "parse_chunk_object_key X (chunk_object_key X namespace k incarnation version dhex) =
    Some \<lparr>cop_namespace = namespace, cop_logical_key = k, cop_incarnation = incarnation,
      cop_version = version, cop_digest_hex = dhex\<rparr>"
proof -
  let ?h = "hex_encode X (as_bytes k)"
  have h: "length ?h = 2 * length k" "list_all ascii_lower_hex ?h" "hex_decode X ?h = Some (as_bytes k)"
    using assms(1) by (simp_all add: ext_ok_def)
  have k: "k \<noteq> []" "?h \<noteq> []" "utf8_valid (as_bytes k)"
    using h(1) identifier_okD(1) [OF assms(3)] identifier_ascii [OF assms(3)] by (auto intro: utf8_as_bytes)
  have segs: "split_at (CHR ''/'') (namespace @ ''/'' @ ?h @ ''/'' @ zero_padded incarnation @ ''/''
      @ zero_padded version @ ''/'' @ dhex)
    = split_at (CHR ''/'') namespace @ [?h, zero_padded incarnation, zero_padded version, dhex]"
    using h(2) assms(5) by (simp add: split_at_append_sep split_at_no_sep lower_hex_no_slash)
  have nonempty: "length (split_at (CHR ''/'') namespace) \<ge> 1"
    by (simp add: Suc_le_eq)
  have root: "strip_prefix chunk_key_root (chunk_object_key X namespace k incarnation version dhex)
    = Some (namespace @ ''/'' @ ?h @ ''/'' @ zero_padded incarnation @ ''/'' @ zero_padded version @ ''/'' @ dhex)"
    by (simp add: chunk_object_key_def)
  show ?thesis
    unfolding parse_chunk_object_key_def root option.case Let_def segs
    using h k assms nonempty by (simp add: is_lower_hex_def)
qed

text \<open>A parsed path is canonical when \<open>hex\<close> reads a lower-case string back to itself.\<close>

definition hex_lower_inverse :: "ext \<Rightarrow> bool" where
  "hex_lower_inverse X \<longleftrightarrow> (\<forall>s b. list_all ascii_lower_hex s \<longrightarrow> hex_decode X s = Some b \<longrightarrow> hex_encode X b = s)"

lemma parse_chunk_object_key_Some:
  assumes "hex_lower_inverse X" "parse_chunk_object_key X k = Some p"
  shows "k = chunk_object_key X (cop_namespace p) (cop_logical_key p) (cop_incarnation p) (cop_version p) (cop_digest_hex p)"
    "identifier_ok (cop_namespace p)" "identifier_ok (cop_logical_key p)"
    "length (cop_digest_hex p) = 64" "list_all ascii_lower_hex (cop_digest_hex p)"
proof -
  obtain rest dhex vs ic ek nsr raw version incarnation where rest: "k = chunk_key_root @ rest"
    and segs: "split_at (CHR ''/'') rest = rev nsr @ [ek, ic, vs, dhex]" "nsr \<noteq> []"
    and nums: "parse_zero_padded vs = Some version" "parse_zero_padded ic = Some incarnation"
    and hex: "list_all ascii_lower_hex dhex" "length dhex = 64" "list_all ascii_lower_hex ek" "hex_decode X ek = Some raw"
    and ids: "identifier_ok (join_with (CHR ''/'') (rev nsr))" "identifier_ok (bytes_string raw)"
    and p: "p = \<lparr>cop_namespace = join_with (CHR ''/'') (rev nsr), cop_logical_key = bytes_string raw,
      cop_incarnation = incarnation, cop_version = version, cop_digest_hex = dhex\<rparr>"
    using assms(2) unfolding parse_chunk_object_key_def
    by (auto simp: Let_def is_lower_hex_def split: option.splits list.splits if_splits)
  have "rest = join_with (CHR ''/'') (rev nsr) @ ''/'' @ ek @ ''/'' @ ic @ ''/'' @ vs @ ''/'' @ dhex"
    using join_split [of "CHR ''/''" rest] join_append [of "rev nsr" "[ek, ic, vs, dhex]" "CHR ''/''"] segs by simp
  moreover have "hex_encode X raw = ek" using assms(1) hex by (simp add: hex_lower_inverse_def)
  ultimately show "k = chunk_object_key X (cop_namespace p) (cop_logical_key p) (cop_incarnation p) (cop_version p) (cop_digest_hex p)"
    using nums by (simp add: p rest chunk_object_key_def parse_zero_padded_iff)
qed (use assms(2) in \<open>auto simp: parse_chunk_object_key_def Let_def is_lower_hex_def split: option.splits list.splits if_splits\<close>)

lemma chunk_object_key_length:
  assumes "ext_ok X" "identifier_ok namespace" "identifier_ok k" "length dhex = 64"
  shows "length (chunk_object_key X namespace k incarnation version dhex) \<le> 892"
  using assms identifier_okD(2) [OF assms(2)] identifier_okD(2) [OF assms(3)]
  by (simp add: chunk_object_key_def chunk_key_root_def chunk_root_def chunk_root_version_def ext_ok_def)

end
