(* ===== verification/Keyspace_Core.thy ===== *)
theory Keyspace_Core
  imports Value_Manifest S3_Io
begin

text \<open>
  The part of \<open>atomic_keyspace.rs\<close> every keyspace operation rests on: physical keys and the
  reserved sub-roots, the incarnation counter of a key, namespaced listing, and trim
  certificates with the certified floor.  The handlers are request trees over one namespace.
  \<open>fuel\<close> bounds the pages of a listing walk (a listing may be extended for ever by other
  clients); \<open>Keyspace_Trim\<close> shows which fuel is enough on a given store.
\<close>

section \<open>Keys\<close>

definition raw_key :: "string \<Rightarrow> string \<Rightarrow> key" where
  "raw_key ns k = keyspace_root @ ''/'' @ ns @ ''/'' @ k"

definition keyspace_new :: "string \<Rightarrow> keyspace_error + string" where
  "keyspace_new ns = try_res (validate_identifier ''namespace'' ns) (\<lambda>_. Inr ns)"

definition ks_object_key :: "string \<Rightarrow> string \<Rightarrow> keyspace_error + key" where
  "ks_object_key ns k = try_res (validate_identifier ''key'' k) (\<lambda>_.
    let path = raw_key ns k in
    if suffix ''/fences/gc'' path then Inl (KsMaintenanceFenceImmutable k) else Inr path)"

definition tombstone_root :: string where "tombstone_root = ''tombstones''"
definition incarnation_root :: string where "incarnation_root = ''incarnations''"
definition fence_root :: string where "fence_root = ''fences''"
definition trims_segment :: string where "trims_segment = ''trims''"

definition ks_tombstone_key :: "string \<Rightarrow> string" where
  "ks_tombstone_key k = tombstone_root @ ''/'' @ k"

definition ks_incarnation_key :: "string \<Rightarrow> string" where
  "ks_incarnation_key k = incarnation_root @ ''/'' @ k"

definition ensure_not_reserved_key :: "string \<Rightarrow> keyspace_error + unit" where
  "ensure_not_reserved_key k =
    (if prefix tombstone_root k \<and> length k > length tombstone_root then Inl (KsTombstoneImmutable k)
     else if prefix incarnation_root k \<and> length k > length incarnation_root
     then Inl (KsIncarnationCounterImmutable k)
     else if prefix fence_root k \<and> length k > length fence_root then Inl (KsMaintenanceFenceImmutable k)
     else if trims_segment \<in> set (butlast (split_at (CHR ''/'') k)) then Inl (KsTrimCertificateImmutable k)
     else Inr ())"

lemmas ks_key_defs [key_defs] = raw_key_def ks_tombstone_key_def ks_incarnation_key_def
  tombstone_root_def incarnation_root_def fence_root_def trims_segment_def

lemma ks_object_key_Inr:
  "ks_object_key ns k = Inr p \<longleftrightarrow> identifier_ok k \<and> p = raw_key ns k \<and> \<not> suffix ''/fences/gc'' p"
  by (auto simp: ks_object_key_def try_res_Inr_iff Let_def)

section \<open>The incarnation counter\<close>

definition ks_current_incarnation :: "string \<Rightarrow> string \<Rightarrow> (keyspace_error + u64) io" where
  "ks_current_incarnation ns k = io_bind (download (raw_key ns (ks_incarnation_key k))) (\<lambda>r. case r of
      Inr b \<Rightarrow> Ret (ok_or (from_be_bytes b) (KsValueEnvelopeMalformed (ks_incarnation_key k)))
    | Inl e \<Rightarrow> Ret (if is_NotFound e then Inr 0 else Inl (KsUnavailable ''incarnation counter read'')))"

primrec ks_bump_loop :: "string \<Rightarrow> string \<Rightarrow> nat \<Rightarrow> (keyspace_error + u64) io" where
  "ks_bump_loop ns k 0 = Ret (Inl (KsUnavailable ''incarnation counter bump budget exhausted''))"
| "ks_bump_loop ns k (Suc n) = io_bind (download_with_etag (raw_key ns (ks_incarnation_key k))) (\<lambda>r. case r of
      Inr (data, etag) \<Rightarrow>
        lift_res (ok_or etag (KsUnavailable ''incarnation counter read (no etag)'')) (\<lambda>etag.
        lift_res (ok_or (from_be_bytes data) (KsValueEnvelopeMalformed (ks_incarnation_key k))) (\<lambda>current.
        lift_res (ok_or (checked_add current 1) (KsVersionExhausted k)) (\<lambda>next.
        io_bind (upload_conditional (raw_key ns (ks_incarnation_key k)) (to_be_bytes next) (Some etag)) (\<lambda>w. case w of
            Inr _ \<Rightarrow> Ret (Inr next)
          | Inl e \<Rightarrow> if is_PreconditionFailed e then ks_bump_loop ns k n
                     else Ret (Inl (KsUnavailable ''incarnation counter bump''))))))
    | Inl e \<Rightarrow>
        if is_NotFound e
        then io_bind (upload_conditional (raw_key ns (ks_incarnation_key k)) (to_be_bytes 1) None) (\<lambda>w. case w of
            Inr _ \<Rightarrow> Ret (Inr 1)
          | Inl e \<Rightarrow> if is_PreconditionFailed e then ks_bump_loop ns k n
                     else Ret (Inl (KsUnavailable ''incarnation counter create'')))
        else Ret (Inl (KsUnavailable ''incarnation counter read'')))"

definition ks_bump_incarnation :: "string \<Rightarrow> string \<Rightarrow> (keyspace_error + u64) io" where
  "ks_bump_incarnation ns k = ks_bump_loop ns k 8"

section \<open>Conflict reports\<close>

text \<open>The two reads that name the era a caller lost to; an unreadable control leaves the era
  unnamed.\<close>

definition observed_era :: "ext \<Rightarrow> string \<Rightarrow> etag \<Rightarrow> key \<Rightarrow> keyspace_error io" where
  "observed_era X k expected physical =
    io_bind (download_with_etag physical) (\<lambda>r.
    let observed = (case r of Inr (_, etag) \<Rightarrow> etag | Inl _ \<Rightarrow> None) in
    io_bind (download physical) (\<lambda>c.
    let era = (case c of
        Inr b \<Rightarrow> (case control_decode X k b of
            Inr ctl \<Rightarrow> (Some (control_incarnation ctl), Some (control_version ctl))
          | Inl _ \<Rightarrow> (None, None))
      | Inl _ \<Rightarrow> (None, None)) in
    Ret (KsPreconditionFailed k expected observed (fst era) (snd era))))"

definition cas_conflict :: "ext \<Rightarrow> string \<Rightarrow> string \<Rightarrow> etag \<Rightarrow> keyspace_error io" where
  "cas_conflict X ns k expected =
    (case ks_object_key ns k of
       Inl _ \<Rightarrow> Ret (KsInvalidIdentifier None k)
     | Inr physical \<Rightarrow> observed_era X k expected physical)"

definition fail_cas :: "ext \<Rightarrow> string \<Rightarrow> string \<Rightarrow> etag \<Rightarrow> (keyspace_error + 'a) io" where
  "fail_cas X ns k expected = io_bind (cas_conflict X ns k expected) (\<lambda>e. Ret (Inl e))"

section \<open>Listing\<close>

definition list_after :: "string \<Rightarrow> string option \<Rightarrow> nat \<Rightarrow> (keyspace_error + string list) io" where
  "list_after ns start_after limit =
    (if limit = 0 then Ret (Inr [])
     else lift_res (case start_after of None \<Rightarrow> Inr () | Some a \<Rightarrow> validate_identifier ''start_after'' a) (\<lambda>_.
       let namespace_prefix = raw_key ns [] in
       io_bind (list_prefix_after namespace_prefix (map_option ((@) namespace_prefix) start_after) limit) (\<lambda>r.
         Ret (case r of
             Inl _ \<Rightarrow> Inl (KsUnavailable ''keyspace list_after'')
           | Inr keys \<Rightarrow> Inr (List.map_filter (strip_prefix namespace_prefix) keys)))))"

section \<open>Trim certificates\<close>

record trim_state =
  trim_first_retained :: u64
  trim_advanced :: bool

definition trim_cert_prefix :: "string \<Rightarrow> keyspace_error + string" where
  "trim_cert_prefix scope =
    try_res (if scope = [] then Inr () else validate_identifier ''trim scope'' scope) (\<lambda>_.
      Inr (if scope = [] then ''trims/'' else scope @ ''/trims/''))"

text \<open>One page of the floor walk: keys before the certificate range are stepped over, the first
  key past it ends the walk (\<open>True\<close>).\<close>

fun floor_page :: "string \<Rightarrow> string list \<Rightarrow> string option \<Rightarrow> u64 option \<Rightarrow> bool \<times> string option \<times> u64 option" where
  "floor_page cert_prefix [] after certified = (False, after, certified)"
| "floor_page cert_prefix (k # ks) after certified = (case strip_prefix cert_prefix k of
      None \<Rightarrow> if k < cert_prefix then floor_page cert_prefix ks (Some k) certified
              else (True, after, certified)
    | Some rest \<Rightarrow> floor_page cert_prefix ks (Some k) (case parse_zero_padded rest of
          Some seq \<Rightarrow> Some (case certified of None \<Rightarrow> seq | Some current \<Rightarrow> max current seq)
        | None \<Rightarrow> certified))"

primrec floor_loop :: "nat \<Rightarrow> string \<Rightarrow> string \<Rightarrow> string option \<Rightarrow> u64 option \<Rightarrow> (keyspace_error + u64 option) io" where
  "floor_loop 0 ns cert_prefix after certified = Stuck"
| "floor_loop (Suc fuel) ns cert_prefix after certified = io_try (list_after ns after 1000) (\<lambda>keys.
    case floor_page cert_prefix keys after certified of
      (True, _, certified) \<Rightarrow> Ret (Inr certified)
    | (False, after, certified) \<Rightarrow>
        if length keys < 1000 then Ret (Inr certified)
        else floor_loop fuel ns cert_prefix after certified)"

definition trim_floor :: "nat \<Rightarrow> string \<Rightarrow> string \<Rightarrow> (keyspace_error + u64 option) io" where
  "trim_floor fuel ns scope = lift_res (trim_cert_prefix scope) (\<lambda>cert_prefix.
    let start = (if scope = [] then ''trims'' else scope @ ''/trims'') in
    floor_loop fuel ns cert_prefix (Some start) None)"

definition trim_certificate :: bytes where
  "trim_certificate = envelope_encode \<lparr>ve_incarnation = 0, ve_version = 0,
    ve_payload = as_bytes ''trim-certificate''\<rparr>"

definition certify_trim :: "nat \<Rightarrow> string \<Rightarrow> string \<Rightarrow> string \<Rightarrow> u64 \<Rightarrow> (keyspace_error + trim_state) io" where
  "certify_trim fuel ns scope cert_prefix first_retained =
    lift_res (ks_object_key ns (cert_prefix @ zero_padded first_retained)) (\<lambda>path.
    io_bind (upload_conditional path trim_certificate None) (\<lambda>r.
    if (case r of Inr _ \<Rightarrow> True | Inl e \<Rightarrow> is_PreconditionFailed e)
    then io_try (trim_floor fuel ns scope) (\<lambda>now.
      let effective = (case now of None \<Rightarrow> first_retained | Some f \<Rightarrow> f) in
      Ret (Inr \<lparr>trim_first_retained = effective, trim_advanced = (effective = first_retained)\<rparr>))
    else Ret (Inl (KsUnavailable ''propose_trim: certificate create''))))"

definition propose_trim :: "nat \<Rightarrow> string \<Rightarrow> string \<Rightarrow> u64 \<Rightarrow> (keyspace_error + trim_state) io" where
  "propose_trim fuel ns scope first_retained =
    lift_res (trim_cert_prefix scope) (\<lambda>cert_prefix.
    io_try (trim_floor fuel ns scope) (\<lambda>floor. case floor of
        Some certified \<Rightarrow>
          if first_retained < certified then Ret (Inl (KsTrimNotMonotone first_retained certified))
          else if first_retained = certified
          then Ret (Inr \<lparr>trim_first_retained = certified, trim_advanced = False\<rparr>)
          else certify_trim fuel ns scope cert_prefix first_retained
      | None \<Rightarrow> certify_trim fuel ns scope cert_prefix first_retained))"

section \<open>Certified garbage collection\<close>

record delete_below_report =
  db_examined :: u64
  db_deleted :: u64
  db_remaining :: u64

text \<open>One page of a sweep walk over \<open>{prefix}{seq}\<close> keys.  The walk over the data keys steps over
  the genesis position (\<open>keep_genesis\<close>); the walks over the mirrored keys end there.\<close>

fun walk_page :: "bool \<Rightarrow> string \<Rightarrow> u64 \<Rightarrow> string list \<Rightarrow> string option \<Rightarrow> string list
    \<Rightarrow> bool \<times> string option \<times> string list" where
  "walk_page keep_genesis data_prefix first_retained [] after pending = (False, after, pending)"
| "walk_page keep_genesis data_prefix first_retained (k # ks) after pending =
    (case Option.bind (strip_prefix data_prefix k) parse_zero_padded of
       None \<Rightarrow> (True, after, pending)
     | Some seq \<Rightarrow>
         if seq = 0 then
           (if keep_genesis then walk_page keep_genesis data_prefix first_retained ks (Some k) pending
            else (True, after, pending))
         else if seq \<ge> first_retained then (True, after, pending)
         else walk_page keep_genesis data_prefix first_retained ks (Some k) (pending @ [k]))"

primrec walk_loop :: "nat \<Rightarrow> bool \<Rightarrow> string \<Rightarrow> string \<Rightarrow> u64 \<Rightarrow> string option \<Rightarrow> string list
    \<Rightarrow> (keyspace_error + string list) io" where
  "walk_loop 0 keep_genesis ns data_prefix first_retained after pending = Stuck"
| "walk_loop (Suc fuel) keep_genesis ns data_prefix first_retained after pending =
    io_try (list_after ns after 1000) (\<lambda>keys.
      if keys = [] then Ret (Inr pending)
      else case walk_page keep_genesis data_prefix first_retained keys after pending of
        (True, _, pending) \<Rightarrow> Ret (Inr pending)
      | (False, after, pending) \<Rightarrow> walk_loop fuel keep_genesis ns data_prefix first_retained after pending)"

text \<open>The raw deletions; the counters of the report count pending keys.\<close>

fun sweep_pending :: "string \<Rightarrow> string list \<Rightarrow> delete_below_report \<Rightarrow> (keyspace_error + delete_below_report) io" where
  "sweep_pending ns [] report = Ret (Inr report)"
| "sweep_pending ns (k # ks) report =
    (let report = report\<lparr>db_examined := db_examined report + 1\<rparr> in
     lift_res (ks_object_key ns k) (\<lambda>path.
     io_bind (delete_key path) (\<lambda>r. case r of
         Inr _ \<Rightarrow> sweep_pending ns ks (report\<lparr>db_deleted := db_deleted report + 1\<rparr>)
       | Inl _ \<Rightarrow> sweep_pending ns ks (report\<lparr>db_remaining := db_remaining report + 1\<rparr>))))"

definition delete_below :: "nat \<Rightarrow> string \<Rightarrow> string \<Rightarrow> string \<Rightarrow> u64 \<Rightarrow> (keyspace_error + delete_below_report) io" where
  "delete_below fuel ns scope data_prefix first_retained =
    lift_res (trim_cert_prefix scope) (\<lambda>_.
    io_try (trim_floor fuel ns scope) (\<lambda>certified.
    if (case certified of None \<Rightarrow> True | Some floor \<Rightarrow> first_retained > floor)
    then Ret (Inl (KsTrimNotCertified scope first_retained certified))
    else
      let start = data_prefix @ zero_padded 0;
          tombstone_prefix = ks_tombstone_key data_prefix;
          incarnation_prefix = ks_incarnation_key data_prefix in
      lift_res (validate_identifier ''delete_below data prefix'' start) (\<lambda>_.
      io_try (walk_loop fuel True ns data_prefix first_retained (Some start) []) (\<lambda>pending.
      io_try (walk_loop fuel False ns tombstone_prefix first_retained
        (Some (tombstone_prefix @ zero_padded 0)) pending) (\<lambda>pending.
      io_try (walk_loop fuel False ns incarnation_prefix first_retained
        (Some (incarnation_prefix @ zero_padded 0)) pending) (\<lambda>pending.
      sweep_pending ns pending \<lparr>db_examined = 0, db_deleted = 0, db_remaining = 0\<rparr>))))))"

section \<open>Logical retirement\<close>

definition seq_retired_at_floor :: "string \<Rightarrow> u64 option \<Rightarrow> u64 option" where
  "seq_retired_at_floor k floor =
    (case (parse_zero_padded (last (split_at (CHR ''/'') k)), floor) of
       (Some seq, Some first_retained) \<Rightarrow>
         if seq > 0 \<and> seq < first_retained then Some first_retained else None
     | _ \<Rightarrow> None)"

definition seq_retired :: "nat \<Rightarrow> string \<Rightarrow> string \<Rightarrow> (keyspace_error + u64 option) io" where
  "seq_retired fuel ns k = io_try (trim_floor fuel ns []) (\<lambda>floor. Ret (Inr (seq_retired_at_floor k floor)))"

end
