(* ===== verification/Value_Stream.thy ===== *)
theory Value_Stream
  imports Keyspace_Core
begin

text \<open>
  Chunked values (\<open>value_stream.rs\<close>): staging and collecting content-addressed chunks, the
  conditional publication of a manifest with its lost-response oracle, the eviction of
  publications in a closed era, and the streamed begins, seals, commits and reads.  The futures
  of a value's chunk transfers are polled with at most four in flight and their results are taken
  in order; here they are issued in that order.  A commit id minted from randomness is an
  argument (\<open>ids\<close> gives one per attempt).
\<close>

section \<open>Chunks\<close>

function chunks_of :: "nat \<Rightarrow> 'a list \<Rightarrow> 'a list list" where
  "chunks_of n xs = (if n = 0 \<or> xs = [] then [] else take n xs # chunks_of n (drop n xs))"
  by pat_completeness auto
termination
  by (relation "measure (\<lambda>(n, xs). length xs)") auto

declare chunks_of.simps [simp del]

definition hash_entry :: "ext \<Rightarrow> bytes \<Rightarrow> manifest_entry" where
  "hash_entry X b = \<lparr>me_encoded_len = word_of_nat (length b), me_sha256 = sha256 X b\<rparr>"

definition chunk_matches :: "ext \<Rightarrow> manifest_entry \<Rightarrow> bytes \<Rightarrow> bool" where
  "chunk_matches X e b \<longleftrightarrow> length b = unat (me_encoded_len e) \<and> sha256 X b = me_sha256 e"

definition chunk_path :: "ext \<Rightarrow> string \<Rightarrow> string \<Rightarrow> u64 \<Rightarrow> u64 \<Rightarrow> manifest_entry \<Rightarrow> key" where
  "chunk_path X ns k incarnation version e = chunk_object_key X ns k incarnation version (digest_hex X e)"

definition fetch_chunk :: "ext \<Rightarrow> string \<Rightarrow> string \<Rightarrow> u64 \<Rightarrow> u64 \<Rightarrow> manifest_entry \<Rightarrow> u32
    \<Rightarrow> (keyspace_error + u32 \<times> bytes) io" where
  "fetch_chunk X ns k incarnation version e ordinal =
    io_bind (download (chunk_path X ns k incarnation version e)) (\<lambda>r. Ret (case r of
        Inr b \<Rightarrow> if \<not> chunk_matches X e b then Inl (KsChunkIntegrity k ordinal) else Inr (ordinal, b)
      | Inl err \<Rightarrow> Inl (if is_NotFound err then KsChunkMissing k ordinal
                        else KsUnavailable ''keyspace chunk fetch'')))"

definition verify_chunk :: "ext \<Rightarrow> key \<Rightarrow> string \<Rightarrow> manifest_entry \<Rightarrow> u32 \<Rightarrow> (keyspace_error + unit) io" where
  "verify_chunk X path k e ordinal =
    io_bind (download path) (\<lambda>r. Ret (case r of
        Inr b \<Rightarrow> if \<not> chunk_matches X e b then Inl (KsChunkIntegrity k ordinal) else Inr ()
      | Inl err \<Rightarrow> Inl (if is_NotFound err then KsChunkMissing k ordinal
                        else KsUnavailable ''keyspace chunk verification read'')))"

primrec put_chunk_loop :: "ext \<Rightarrow> key \<Rightarrow> string \<Rightarrow> manifest_entry \<Rightarrow> u32 \<Rightarrow> bytes \<Rightarrow> nat
    \<Rightarrow> (keyspace_error + u32) io" where
  "put_chunk_loop X path k e ordinal b 0 = Ret (Inl (KsUnavailable ''keyspace chunk upload budget exhausted''))"
| "put_chunk_loop X path k e ordinal b (Suc n) =
    io_bind (upload_conditional path b None) (\<lambda>r. case r of
        Inr _ \<Rightarrow> Ret (Inr ordinal)
      | Inl _ \<Rightarrow> io_bind (verify_chunk X path k e ordinal) (\<lambda>v. case v of
            Inr _ \<Rightarrow> Ret (Inr ordinal)
          | Inl err \<Rightarrow> (case err of
                KsChunkMissing _ _ \<Rightarrow> put_chunk_loop X path k e ordinal b n
              | _ \<Rightarrow> Ret (Inl err))))"

definition put_chunk :: "ext \<Rightarrow> key \<Rightarrow> string \<Rightarrow> manifest_entry \<Rightarrow> u32 \<Rightarrow> bytes \<Rightarrow> (keyspace_error + u32) io" where
  "put_chunk X path k e ordinal b = put_chunk_loop X path k e ordinal b 4"

section \<open>Collecting a value\<close>

fun fetch_from :: "ext \<Rightarrow> string \<Rightarrow> string \<Rightarrow> u64 \<Rightarrow> u64 \<Rightarrow> nat \<Rightarrow> manifest_entry list \<Rightarrow> bytes
    \<Rightarrow> (keyspace_error + bytes) io" where
  "fetch_from X ns k incarnation version ordinal [] collected = Ret (Inr collected)"
| "fetch_from X ns k incarnation version ordinal (e # es) collected =
    io_try (fetch_chunk X ns k incarnation version e (word_of_nat ordinal)) (\<lambda>(_, b).
      fetch_from X ns k incarnation version (ordinal + 1) es (collected @ b))"

definition fetch_all_chunks :: "ext \<Rightarrow> string \<Rightarrow> string \<Rightarrow> value_manifest \<Rightarrow> (keyspace_error + bytes) io" where
  "fetch_all_chunks X ns k m = fetch_from X ns k (vm_incarnation m) (vm_version m) 0 (vm_entries m) []"

definition collect_value :: "ext \<Rightarrow> string \<Rightarrow> string \<Rightarrow> bytes \<Rightarrow> (keyspace_error + bytes) io" where
  "collect_value X ns k control_bytes = lift_res (control_decode X k control_bytes) (\<lambda>c. case c of
      CtlInline e \<Rightarrow> Ret (Inr (ve_payload e))
    | CtlChunked m \<Rightarrow> fetch_all_chunks X ns k m)"

section \<open>Staging a value\<close>

fun stage_from :: "ext \<Rightarrow> string \<Rightarrow> string \<Rightarrow> u64 \<Rightarrow> u64 \<Rightarrow> nat \<Rightarrow> bytes list \<Rightarrow> (keyspace_error + unit) io" where
  "stage_from X ns k incarnation version ordinal [] = Ret (Inr ())"
| "stage_from X ns k incarnation version ordinal (b # bs) =
    (let e = hash_entry X b in
     io_try (put_chunk X (chunk_path X ns k incarnation version e) k e (word_of_nat ordinal) b) (\<lambda>_.
       stage_from X ns k incarnation version (ordinal + 1) bs))"

definition manifest_of :: "ext \<Rightarrow> u64 \<Rightarrow> u64 \<Rightarrow> bytes \<Rightarrow> u64 \<Rightarrow> manifest_entry list \<Rightarrow> value_manifest" where
  "manifest_of X incarnation version commit_id logical_len es =
    \<lparr>vm_incarnation = incarnation, vm_version = version, vm_commit_id = commit_id,
     vm_logical_len = logical_len,
     vm_value_root_sha256 = compute_value_root X logical_len (word_of_nat chunk_bytes) es,
     vm_chunk_bytes = word_of_nat chunk_bytes, vm_entries = es\<rparr>"

definition stage_chunks :: "ext \<Rightarrow> string \<Rightarrow> string \<Rightarrow> bytes \<Rightarrow> u64 \<Rightarrow> u64 \<Rightarrow> bytes
    \<Rightarrow> (keyspace_error + value_manifest) io" where
  "stage_chunks X ns k v incarnation version commit_id =
    io_try (stage_from X ns k incarnation version 0 (chunks_of chunk_bytes v)) (\<lambda>_.
      Ret (Inr (manifest_of X incarnation version commit_id (word_of_nat (length v))
        (map (hash_entry X) (chunks_of chunk_bytes v)))))"

section \<open>Eras\<close>

definition read_control_era_with_etag :: "ext \<Rightarrow> string \<Rightarrow> string \<Rightarrow> (keyspace_error + (u64 \<times> u64 \<times> etag) option) io" where
  "read_control_era_with_etag X ns k = lift_res (ks_object_key ns k) (\<lambda>path.
    io_bind (download_with_etag path) (\<lambda>r. case r of
        Inr (data, etag) \<Rightarrow>
          lift_res (ok_or etag (KsUnavailable ''keyspace control era read (no etag)'')) (\<lambda>etag.
          lift_res (control_decode X k data) (\<lambda>c.
            Ret (Inr (Some (control_incarnation c, control_version c, etag)))))
      | Inl e \<Rightarrow> Ret (if is_NotFound e then Inr None
                      else Inl (KsUnavailable ''keyspace control era read''))))"

definition ensure_open_value_era :: "string \<Rightarrow> string \<Rightarrow> u64 \<Rightarrow> (keyspace_error + unit) io" where
  "ensure_open_value_era ns k bound = io_try (ks_current_incarnation ns k) (\<lambda>i.
    Ret (if i = bound then Inr () else Inl (KsStaleIncarnation k)))"

definition finish_value_cas_after_publish :: "string \<Rightarrow> string \<Rightarrow> u64 \<Rightarrow> etag \<Rightarrow> (keyspace_error + etag) io" where
  "finish_value_cas_after_publish ns k bound published = io_try (ks_current_incarnation ns k) (\<lambda>i.
    if i = bound then Ret (Inr published)
    else lift_res (ks_object_key ns k) (\<lambda>path.
      io_bind (delete_conditional path published) (\<lambda>r. Ret (Inl (
        if (case r of Inr _ \<Rightarrow> True | Inl e \<Rightarrow> is_NotFound e \<or> is_PreconditionFailed e)
        then KsStaleIncarnation k
        else KsUnavailable ''keyspace compare_exchange (closed-era eviction)'')))))"

section \<open>The lost-response oracle\<close>

datatype ambiguity = Landed "etag option" | LostConflict | Ambiguous

definition adjudicate_manifest_put :: "nat \<Rightarrow> ext \<Rightarrow> string \<Rightarrow> string \<Rightarrow> key \<Rightarrow> value_manifest
    \<Rightarrow> (keyspace_error + ambiguity) io" where
  "adjudicate_manifest_put fuel X ns k path m =
    io_try (seq_retired fuel ns k) (\<lambda>retired.
    if retired \<noteq> None then Ret (Inr Ambiguous)
    else io_bind (download_with_etag path) (\<lambda>r. case r of
        Inl e \<Rightarrow> Ret (if is_NotFound e then Inr Ambiguous
                      else Inl (KsUnavailable ''keyspace ambiguous commit reread''))
      | Inr (data, etag) \<Rightarrow> lift_res (control_decode X k data) (\<lambda>c.
          if control_incarnation c = vm_incarnation m \<and> control_version c = vm_version m
          then (case c of
              CtlChunked observed \<Rightarrow>
                if vm_commit_id observed = vm_commit_id m then Ret (Inr (Landed etag))
                else Ret (Inr LostConflict)
            | CtlInline _ \<Rightarrow> Ret (Inr LostConflict))
          else Ret (Inr Ambiguous))))"

datatype stale_era = Fresh | Retry | Conflict keyspace_error

definition evict_stale_era :: "string \<Rightarrow> string \<Rightarrow> key \<Rightarrow> value_manifest \<Rightarrow> (keyspace_error + stale_era) io" where
  "evict_stale_era ns k path m = io_try (ks_current_incarnation ns k) (\<lambda>now.
    if now = vm_incarnation m then Ret (Inr Fresh)
    else io_bind (download_with_etag path) (\<lambda>r. case r of
        Inr (data, etag) \<Rightarrow>
          lift_res (ok_or etag (KsUnavailable ''keyspace create (stale-era eviction: no etag)'')) (\<lambda>etag.
          if data = manifest_encode m
          then io_bind (delete_conditional path etag) (\<lambda>d. Ret (case d of
              Inr _ \<Rightarrow> Inr Retry
            | Inl e \<Rightarrow> if is_NotFound e then Inr Retry
                       else if is_PreconditionFailed e then Inr (Conflict (KsAlreadyExists k))
                       else Inl (KsUnavailable ''keyspace create (stale-era eviction)'')))
          else Ret (Inr (Conflict (KsAlreadyExists k))))
      | Inl e \<Rightarrow> Ret (if is_NotFound e then Inr Retry
                      else Inl (KsUnavailable ''keyspace create (stale-era eviction check)''))))"

section \<open>Whole-value writes above the inline bound\<close>

primrec create_chunked_loop :: "nat \<Rightarrow> ext \<Rightarrow> (nat \<Rightarrow> bytes) \<Rightarrow> string \<Rightarrow> string \<Rightarrow> key \<Rightarrow> bytes \<Rightarrow> nat
    \<Rightarrow> (keyspace_error + unit) io" where
  "create_chunked_loop fuel X ids ns k path v 0 =
    Ret (Inl (KsUnavailable ''keyspace create (incarnation contention)''))"
| "create_chunked_loop fuel X ids ns k path v (Suc n) =
    io_try (ks_current_incarnation ns k) (\<lambda>incarnation.
    io_try (stage_chunks X ns k v incarnation 0 (ids n)) (\<lambda>m.
    io_try (io_bind (upload_conditional path (manifest_encode m) None) (\<lambda>r. case r of
        Inr (Some _) \<Rightarrow> evict_stale_era ns k path m
      | Inr None \<Rightarrow> Ret (Inl (KsUnavailable ''keyspace create (no etag on manifest publish)''))
      | Inl e \<Rightarrow> if is_PreconditionFailed e then Ret (Inl (KsAlreadyExists k))
          else io_try (adjudicate_manifest_put fuel X ns k path m) (\<lambda>a. case a of
              Landed (Some _) \<Rightarrow> evict_stale_era ns k path m
            | Landed None \<Rightarrow> Ret (Inl (KsUnavailable ''keyspace create (ambiguous manifest commit: no etag)''))
            | LostConflict \<Rightarrow> Ret (Inl (KsAlreadyExists k))
            | Ambiguous \<Rightarrow> Ret (Inl (KsUnavailable ''keyspace create (ambiguous manifest commit)''))))) (\<lambda>d.
    case d of
      Fresh \<Rightarrow> Ret (Inr ())
    | Retry \<Rightarrow> create_chunked_loop fuel X ids ns k path v n
    | Conflict err \<Rightarrow> Ret (Inl err))))"

definition create_chunked :: "nat \<Rightarrow> ext \<Rightarrow> (nat \<Rightarrow> bytes) \<Rightarrow> string \<Rightarrow> string \<Rightarrow> bytes \<Rightarrow> (keyspace_error + unit) io" where
  "create_chunked fuel X ids ns k v = lift_res (ks_object_key ns k) (\<lambda>path.
    create_chunked_loop fuel X ids ns k path v 8)"

definition compare_exchange_chunked :: "nat \<Rightarrow> ext \<Rightarrow> bytes \<Rightarrow> string \<Rightarrow> string \<Rightarrow> etag \<Rightarrow> u64 \<Rightarrow> u64 \<Rightarrow> bytes
    \<Rightarrow> (keyspace_error + etag) io" where
  "compare_exchange_chunked fuel X commit_id ns k expected incarnation next_version v =
    lift_res (ks_object_key ns k) (\<lambda>path.
    io_try (stage_chunks X ns k v incarnation next_version commit_id) (\<lambda>m.
    io_try (ensure_open_value_era ns k incarnation) (\<lambda>_.
    io_bind (upload_conditional path (manifest_encode m) (Some expected)) (\<lambda>r. case r of
        Inr (Some etag) \<Rightarrow> finish_value_cas_after_publish ns k incarnation etag
      | Inr None \<Rightarrow> Ret (Inl (KsUnavailable ''keyspace compare_exchange (no etag)''))
      | Inl e \<Rightarrow> if is_PreconditionFailed e then fail_cas X ns k expected
          else io_try (adjudicate_manifest_put fuel X ns k path m) (\<lambda>a. case a of
              Landed (Some etag) \<Rightarrow> finish_value_cas_after_publish ns k incarnation etag
            | Landed None \<Rightarrow> Ret (Inl (KsUnavailable ''keyspace compare_exchange (ambiguous manifest commit: no etag)''))
            | LostConflict \<Rightarrow> fail_cas X ns k expected
            | Ambiguous \<Rightarrow> Ret (Inl (KsUnavailable ''keyspace compare_exchange (ambiguous manifest commit)''))))))) "

end
