(* ===== verification/Value_Polling.thy ===== *)
theory Value_Polling
  imports Value_Stream
begin

text \<open>
  The poll machines of \<open>value_stream.rs\<close>: \<open>AsyncWrite\<close> for the value writer and \<open>AsyncRead\<close>
  for the value reader.  A poll is a function of the machine, the caller's buffer and a script
  of what the pending transfers do when they are polled: not ready, or one of them done with a
  result, in any order.  A poll returns the unused script.  Ordinals and offsets are natural
  numbers (at most 65,536 chunks, at most \<open>2 ^ 40\<close> bytes).
\<close>

datatype 'a poll = Pending | Ready 'a

text \<open>\<open>std::io::Error::other\<close> of a keyspace error or of a message.\<close>

datatype io_error = OtherError keyspace_error | OtherMessage string

datatype 'r event = NotReady | Done nat "keyspace_error + 'r"

definition max_in_flight_chunks :: nat where
  "max_in_flight_chunks = 4"

definition remove_nth :: "nat \<Rightarrow> 'a list \<Rightarrow> 'a list" where
  "remove_nth i xs = take i xs @ drop (Suc i) xs"

section \<open>The writer\<close>

datatype writer_intent = IntentCreate | IntentCompareExchange etag

record upload_job =
  uj_path :: key
  uj_entry :: manifest_entry
  uj_ordinal :: nat
  uj_bytes :: bytes

record value_writer =
  vw_namespace :: string
  vw_key :: string
  vw_intent :: writer_intent
  vw_incarnation :: u64
  vw_version :: u64
  vw_buffer :: bytes
  vw_total_len :: nat
  vw_entries :: "manifest_entry list"
  vw_in_flight :: "upload_job list"
  vw_error :: "keyspace_error option"
  vw_sealed :: bool

definition start_chunk_upload :: "ext \<Rightarrow> value_writer \<Rightarrow> value_writer" where
  "start_chunk_upload X w =
    (let b = vw_buffer w; e = hash_entry X b; ordinal = length (vw_entries w);
         path = chunk_path X (vw_namespace w) (vw_key w) (vw_incarnation w) (vw_version w) e in
     w\<lparr>vw_buffer := [], vw_entries := vw_entries w @ [e],
       vw_in_flight := vw_in_flight w @
         [\<lparr>uj_path = path, uj_entry = e, uj_ordinal = ordinal, uj_bytes = b\<rparr>]\<rparr>)"

text \<open>The backpressure loop: until fewer than four uploads are pending.\<close>

fun backpressure :: "unit event list \<Rightarrow> value_writer
    \<Rightarrow> (io_error + unit) poll \<times> value_writer \<times> unit event list" where
  "backpressure script w =
    (if length (vw_in_flight w) < max_in_flight_chunks then (Ready (Inr ()), w, script)
     else (case script of
         [] \<Rightarrow> (Pending, w, [])
       | NotReady # script \<Rightarrow> (Pending, w, script)
       | Done i r # script \<Rightarrow>
           let w = w\<lparr>vw_in_flight := remove_nth i (vw_in_flight w)\<rparr> in
           (case r of
              Inr _ \<Rightarrow> backpressure script w
            | Inl e \<Rightarrow> (Ready (Inl (OtherError e)), w\<lparr>vw_error := Some e\<rparr>, script))))"

declare backpressure.simps [simp del]

text \<open>The copy loop: fill the buffer, start an upload for every full chunk, stop when four are
  pending.  A buffer longer than a chunk, which no writer has, would underflow (\<open>None\<close>).\<close>

function consume :: "ext \<Rightarrow> value_writer \<Rightarrow> bytes \<Rightarrow> nat \<Rightarrow> (value_writer \<times> nat) option" where
  "consume X w b consumed =
    (if b = [] then Some (w, consumed)
     else if length (vw_buffer w) > chunk_bytes then None
     else let n = min (chunk_bytes - length (vw_buffer w)) (length b);
              w = w\<lparr>vw_buffer := vw_buffer w @ take n b, vw_total_len := vw_total_len w + n\<rparr> in
       if length (vw_buffer w) = chunk_bytes
       then let w = start_chunk_upload X w in
         if length (vw_in_flight w) \<ge> max_in_flight_chunks then Some (w, consumed + n)
         else consume X w (drop n b) (consumed + n)
       else consume X w (drop n b) (consumed + n))"
  by pat_completeness auto
termination
  by (relation "measure (\<lambda>(X, w, b, n). 2 * length b + (if length (vw_buffer w) = chunk_bytes then 1 else 0))")
    (auto simp: start_chunk_upload_def Let_def manifest_sizes)

declare consume.simps [simp del]

definition poll_write :: "ext \<Rightarrow> unit event list \<Rightarrow> value_writer \<Rightarrow> bytes
    \<Rightarrow> ((io_error + nat) poll \<times> value_writer \<times> unit event list) option" where
  "poll_write X script w b =
    (case vw_error w of
       Some e \<Rightarrow> Some (Ready (Inl (OtherError e)), w, script)
     | None \<Rightarrow>
       if vw_sealed w then Some (Ready (Inl (OtherMessage ''value writer sealed'')), w, script)
       else if b = [] then Some (Ready (Inr 0), w, script)
       else if vw_total_len w + length b > unat max_logical_bytes
       then let e = KsValueTooLarge (vw_key w) (word_of_nat (vw_total_len w + length b)) max_logical_bytes in
         Some (Ready (Inl (OtherError e)), w\<lparr>vw_error := Some e\<rparr>, script)
       else (case backpressure script w of
           (Pending, w, script) \<Rightarrow> Some (Pending, w, script)
         | (Ready (Inl err), w, script) \<Rightarrow> Some (Ready (Inl err), w, script)
         | (Ready (Inr _), w, script) \<Rightarrow>
             (case consume X w b 0 of None \<Rightarrow> None
              | Some (w, n) \<Rightarrow> Some (Ready (Inr n), w, script))))"

fun poll_drain :: "unit event list \<Rightarrow> value_writer
    \<Rightarrow> (keyspace_error + unit) poll \<times> value_writer \<times> unit event list" where
  "poll_drain script w =
    (if vw_in_flight w = [] then (Ready (Inr ()), w, script)
     else (case script of
         [] \<Rightarrow> (Pending, w, [])
       | NotReady # script \<Rightarrow> (Pending, w, script)
       | Done i r # script \<Rightarrow>
           let w = w\<lparr>vw_in_flight := remove_nth i (vw_in_flight w)\<rparr> in
           (case r of
              Inr _ \<Rightarrow> poll_drain script w
            | Inl e \<Rightarrow> (Ready (Inl e), w\<lparr>vw_error := Some e\<rparr>, script))))"

declare poll_drain.simps [simp del]

definition poll_flush :: "unit event list \<Rightarrow> value_writer
    \<Rightarrow> (io_error + unit) poll \<times> value_writer \<times> unit event list" where
  "poll_flush script w = (case vw_error w of
      Some e \<Rightarrow> (Ready (Inl (OtherError e)), w, script)
    | None \<Rightarrow> (case poll_drain script w of
          (Pending, w, script) \<Rightarrow> (Pending, w, script)
        | (Ready r, w, script) \<Rightarrow> (Ready (map_err r OtherError), w, script)))"

section \<open>The reader\<close>

record chunk_reader =
  cr_namespace :: string
  cr_key :: string
  cr_incarnation :: u64
  cr_version :: u64
  cr_entries :: "manifest_entry list"
  cr_next_fetch :: nat
  cr_last_fetch :: nat
  cr_in_flight :: "(nat \<times> manifest_entry) list"
  cr_ready :: "(nat \<times> bytes) list"
  cr_current :: "(bytes \<times> nat) option"
  cr_current_ordinal :: nat

datatype reader_source = SourceInline bytes | SourceChunked chunk_reader

datatype value_representation = ReprInline | ReprChunked

record value_metadata =
  md_logical_len :: nat
  md_etag :: etag
  md_value_root_sha256 :: "bytes option"
  md_representation :: value_representation

record value_reader =
  vr_metadata :: value_metadata
  vr_chunk_digests :: "bytes list"
  vr_source :: reader_source
  vr_position :: nat
  vr_end :: nat

text \<open>Keep at most four transfers in flight, in ordinal order.\<close>

function prefetch :: "chunk_reader \<Rightarrow> chunk_reader" where
  "prefetch r =
    (if cr_next_fetch r < cr_last_fetch r \<and> length (cr_in_flight r) < max_in_flight_chunks
     then prefetch (r\<lparr>cr_in_flight := cr_in_flight r @ [(cr_next_fetch r, cr_entries r ! cr_next_fetch r)],
       cr_next_fetch := cr_next_fetch r + 1\<rparr>)
     else r)"
  by pat_completeness auto
termination
  by (relation "measure (\<lambda>r. cr_last_fetch r - cr_next_fetch r)") auto

declare prefetch.simps [simp del]

lemma ready_shrinks: "map_of xs i = Some b \<Longrightarrow> length (filter (\<lambda>(j, _). j \<noteq> i) xs) < length xs"
  by (rule length_filter_less [of "(i, b)"]) (auto dest: map_of_SomeD)

text \<open>The ordinal loop: a ready chunk is copied from where the window stands; otherwise one
  pending transfer is polled.\<close>

function next_chunk :: "bytes event list \<Rightarrow> chunk_reader \<Rightarrow> nat \<Rightarrow> nat \<Rightarrow> nat
    \<Rightarrow> (io_error + bytes) poll \<times> chunk_reader \<times> nat \<times> bytes event list" where
  "next_chunk script r position window_end remaining =
    (let window_room = window_end - position in
     case map_of (cr_ready r) (cr_current_ordinal r) of
       Some b \<Rightarrow>
         let r = r\<lparr>cr_ready := filter (\<lambda>(i, _). i \<noteq> cr_current_ordinal r) (cr_ready r)\<rparr>;
             start_in_chunk = position - cr_current_ordinal r * chunk_bytes;
             n = min (min (length b - start_in_chunk) remaining) window_room in
         if n = 0 then next_chunk script (r\<lparr>cr_current_ordinal := cr_current_ordinal r + 1\<rparr>)
           position window_end remaining
         else (Ready (Inr (take n (drop start_in_chunk b))),
           (if start_in_chunk + n < length b then r\<lparr>cr_current := Some (b, start_in_chunk + n)\<rparr>
            else r\<lparr>cr_current_ordinal := cr_current_ordinal r + 1\<rparr>),
           position + n, script)
     | None \<Rightarrow>
         if cr_in_flight r = [] then (Ready (Inr []), r, position, script)
         else (case script of
             [] \<Rightarrow> (Pending, r, position, [])
           | NotReady # script \<Rightarrow> (Pending, r, position, script)
           | Done i res # script \<Rightarrow>
               let job = cr_in_flight r ! i;
                   r = r\<lparr>cr_in_flight := remove_nth i (cr_in_flight r)\<rparr> in
               (case res of
                  Inl e \<Rightarrow> (Ready (Inl (OtherError e)), r, position, script)
                | Inr b \<Rightarrow> next_chunk script
                    (r\<lparr>cr_ready := (fst job, b) # filter (\<lambda>(j, _). j \<noteq> fst job) (cr_ready r)\<rparr>)
                    position window_end remaining)))"
  by pat_completeness auto
termination
  by (relation "measure (\<lambda>(script, r, p, e, n). 2 * length script + length (cr_ready r))")
    (auto dest: ready_shrinks simp: less_Suc_eq_le intro!: le_SucI length_filter_le)

declare next_chunk.simps [simp del]

definition poll_chunked :: "bytes event list \<Rightarrow> chunk_reader \<Rightarrow> nat \<Rightarrow> nat \<Rightarrow> nat
    \<Rightarrow> (io_error + bytes) poll \<times> chunk_reader \<times> nat \<times> bytes event list" where
  "poll_chunked script r position window_end remaining =
    (let r = prefetch r; window_room = window_end - position in
     case cr_current r of
       Some (b, offset) \<Rightarrow>
         let r = r\<lparr>cr_current := None\<rparr>;
             from = min offset (length b);
             to = min (from + min remaining window_room) (length b);
             n = to - from in
         if n = 0 then (Ready (Inr []), r\<lparr>cr_current_ordinal := cr_current_ordinal r + 1\<rparr>, position, script)
         else (Ready (Inr (take n (drop from b))),
           (if to < length b then r\<lparr>cr_current := Some (b, to)\<rparr>
            else r\<lparr>cr_current_ordinal := cr_current_ordinal r + 1\<rparr>), position + n, script)
     | None \<Rightarrow> next_chunk script r position window_end remaining)"

definition poll_read :: "bytes event list \<Rightarrow> value_reader \<Rightarrow> nat
    \<Rightarrow> (io_error + bytes) poll \<times> value_reader \<times> bytes event list" where
  "poll_read script v remaining =
    (if vr_position v \<ge> vr_end v \<or> remaining = 0 then (Ready (Inr []), v, script)
     else (case vr_source v of
         SourceInline payload \<Rightarrow>
           let from = vr_position v; to = min (vr_end v) (length payload);
               b = take (to - from) (drop from payload); n = min (length b) remaining in
           (Ready (Inr (take n b)), v\<lparr>vr_position := vr_position v + n\<rparr>, script)
       | SourceChunked r \<Rightarrow>
           (case poll_chunked script r (vr_position v) (vr_end v) remaining of
              (res, r, position, script) \<Rightarrow>
                (res, v\<lparr>vr_source := SourceChunked r, vr_position := position\<rparr>, script))))"

end
