(* ===== verification/Keyspace_Ops.thy ===== *)
theory Keyspace_Ops
  imports Value_Stream
begin

text \<open>
  The keyed I/O surface (\<open>AtomicKeyspace\<close> of \<open>atomic_keyspace.rs\<close>): create, the reads, the
  compare-and-exchange, the deletions, destruction with its witness, and the existence read.
\<close>

section \<open>Create\<close>

text \<open>The inline path: the era is read, the envelope put if absent, the era read again; a
  publication in a closed era is evicted by its observed entity tag and the loop goes on.\<close>

primrec create_inline_loop :: "string \<Rightarrow> string \<Rightarrow> key \<Rightarrow> bytes \<Rightarrow> nat \<Rightarrow> (keyspace_error + unit) io" where
  "create_inline_loop ns k path v 0 = Ret (Inl (KsUnavailable ''keyspace create (incarnation contention)''))"
| "create_inline_loop ns k path v (Suc n) =
    io_try (ks_current_incarnation ns k) (\<lambda>incarnation.
    let encoded = envelope_encode \<lparr>ve_incarnation = incarnation, ve_version = 0, ve_payload = v\<rparr> in
    io_bind (upload_conditional path encoded None) (\<lambda>r. case r of
        Inr _ \<Rightarrow> io_try (ks_current_incarnation ns k) (\<lambda>now.
          if now = incarnation then Ret (Inr ())
          else io_bind (download_with_etag path) (\<lambda>d. case d of
              Inr (data, etag) \<Rightarrow>
                lift_res (ok_or etag (KsUnavailable ''keyspace create (stale-era eviction: no etag)'')) (\<lambda>etag.
                if data = encoded
                then io_bind (delete_conditional path etag) (\<lambda>x. case x of
                    Inr _ \<Rightarrow> create_inline_loop ns k path v n
                  | Inl e \<Rightarrow> if is_NotFound e then create_inline_loop ns k path v n
                             else if is_PreconditionFailed e then Ret (Inl (KsAlreadyExists k))
                             else Ret (Inl (KsUnavailable ''keyspace create (stale-era eviction)'')))
                else Ret (Inl (KsAlreadyExists k)))
            | Inl e \<Rightarrow> if is_NotFound e then create_inline_loop ns k path v n
                       else Ret (Inl (KsUnavailable ''keyspace create (stale-era eviction check)''))))
      | Inl e \<Rightarrow> if is_PreconditionFailed e then Ret (Inl (KsAlreadyExists k))
                 else Ret (Inl (KsUnavailable ''keyspace create''))))"

definition value_too_large :: "string \<Rightarrow> bytes \<Rightarrow> keyspace_error + unit" where
  "value_too_large k v =
    (if length v > unat max_logical_bytes
     then Inl (KsValueTooLarge k (word_of_nat (length v)) max_logical_bytes) else Inr ())"

definition ks_create :: "nat \<Rightarrow> ext \<Rightarrow> (nat \<Rightarrow> bytes) \<Rightarrow> string \<Rightarrow> string \<Rightarrow> bytes \<Rightarrow> (keyspace_error + unit) io" where
  "ks_create fuel X ids ns k v =
    lift_res (ensure_not_reserved_key k) (\<lambda>_.
    lift_res (value_too_large k v) (\<lambda>_.
    if length v > inline_max then create_chunked fuel X ids ns k v
    else lift_res (ks_object_key ns k) (\<lambda>path. create_inline_loop ns k path v 8)))"

section \<open>Reads\<close>

definition ks_get :: "ext \<Rightarrow> string \<Rightarrow> string \<Rightarrow> (keyspace_error + bytes option) io" where
  "ks_get X ns k = lift_res (ks_object_key ns k) (\<lambda>path.
    io_bind (download path) (\<lambda>r. case r of
        Inr b \<Rightarrow> io_try (collect_value X ns k b) (\<lambda>v. Ret (Inr (Some v)))
      | Inl e \<Rightarrow> Ret (if is_NotFound e then Inr None else Inl (KsUnavailable ''keyspace get''))))"

definition ks_get_with_etag :: "ext \<Rightarrow> string \<Rightarrow> string \<Rightarrow> (keyspace_error + (bytes \<times> etag) option) io" where
  "ks_get_with_etag X ns k = lift_res (ks_object_key ns k) (\<lambda>path.
    io_bind (download_with_etag path) (\<lambda>r. case r of
        Inr (data, Some etag) \<Rightarrow> io_try (collect_value X ns k data) (\<lambda>v. Ret (Inr (Some (v, etag))))
      | Inr (data, None) \<Rightarrow> Ret (Inl (KsUnavailable ''keyspace get_with_etag (no etag reported)''))
      | Inl e \<Rightarrow> Ret (if is_NotFound e then Inr None else Inl (KsUnavailable ''keyspace get_with_etag''))))"

definition ks_get_with_version :: "ext \<Rightarrow> string \<Rightarrow> string
    \<Rightarrow> (keyspace_error + (bytes \<times> u64 \<times> u64 \<times> etag) option) io" where
  "ks_get_with_version X ns k = lift_res (ks_object_key ns k) (\<lambda>path.
    io_bind (download_with_etag path) (\<lambda>r. case r of
        Inr (data, etag) \<Rightarrow>
          lift_res (ok_or etag (KsUnavailable ''keyspace get_with_version (no etag reported)'')) (\<lambda>etag.
          lift_res (control_decode X k data) (\<lambda>c.
          io_try (collect_value X ns k data) (\<lambda>v.
            Ret (Inr (Some (v, control_incarnation c, control_version c, etag))))))
      | Inl e \<Rightarrow> Ret (if is_NotFound e then Inr None else Inl (KsUnavailable ''keyspace get_with_version''))))"

section \<open>Compare and exchange\<close>

definition absent_conflict :: "string \<Rightarrow> etag \<Rightarrow> keyspace_error" where
  "absent_conflict k expected = KsPreconditionFailed k expected None None None"

definition publish_inline_cas :: "ext \<Rightarrow> string \<Rightarrow> string \<Rightarrow> key \<Rightarrow> etag \<Rightarrow> u64 \<Rightarrow> u64 \<Rightarrow> bytes
    \<Rightarrow> (keyspace_error + etag) io" where
  "publish_inline_cas X ns k path expected incarnation next_version v =
    io_bind (upload_conditional path
      (envelope_encode \<lparr>ve_incarnation = incarnation, ve_version = next_version, ve_payload = v\<rparr>)
      (Some expected)) (\<lambda>r. case r of
        Inr (Some etag) \<Rightarrow> finish_value_cas_after_publish ns k incarnation etag
      | Inr None \<Rightarrow> Ret (Inl (KsUnavailable ''keyspace compare_exchange (no etag)''))
      | Inl e \<Rightarrow> if is_PreconditionFailed e then fail_cas X ns k expected
                 else Ret (Inl (KsUnavailable ''keyspace compare_exchange'')))"

definition compare_exchange :: "nat \<Rightarrow> ext \<Rightarrow> bytes \<Rightarrow> string \<Rightarrow> string \<Rightarrow> etag \<Rightarrow> bytes \<Rightarrow> (keyspace_error + etag) io" where
  "compare_exchange fuel X commit_id ns k expected v =
    lift_res (ensure_not_reserved_key k) (\<lambda>_.
    lift_res (value_too_large k v) (\<lambda>_.
    lift_res (ks_object_key ns k) (\<lambda>path.
    io_bind (download_with_etag path) (\<lambda>r. case r of
        Inl e \<Rightarrow> Ret (Inl (if is_NotFound e then absent_conflict k expected
                           else KsUnavailable ''keyspace compare_exchange read''))
      | Inr (data, etag) \<Rightarrow>
          lift_res (ok_or etag (KsUnavailable ''keyspace compare_exchange read (no etag reported)'')) (\<lambda>observed.
          if observed \<noteq> expected then fail_cas X ns k expected
          else lift_res (control_decode X k data) (\<lambda>c.
          io_try (ensure_open_value_era ns k (control_incarnation c)) (\<lambda>_.
          lift_res (ok_or (checked_add (control_version c) 1) (KsVersionExhausted k)) (\<lambda>next_version.
          if length v > inline_max
          then compare_exchange_chunked fuel X commit_id ns k expected (control_incarnation c) next_version v
          else publish_inline_cas X ns k path expected (control_incarnation c) next_version v))))))))"

section \<open>Deletions\<close>

definition ks_delete :: "string \<Rightarrow> string \<Rightarrow> (keyspace_error + unit) io" where
  "ks_delete ns k = lift_res (ensure_not_reserved_key k) (\<lambda>_.
    lift_res (ks_object_key ns k) (\<lambda>path.
    io_bind (delete_key path) (\<lambda>r. Ret (map_err r (\<lambda>_. KsUnavailable ''keyspace delete'')))))"

definition delete_if_match :: "ext \<Rightarrow> string \<Rightarrow> string \<Rightarrow> etag \<Rightarrow> (keyspace_error + unit) io" where
  "delete_if_match X ns k expected = lift_res (ensure_not_reserved_key k) (\<lambda>_.
    lift_res (ks_object_key ns k) (\<lambda>path.
    io_bind (delete_conditional path expected) (\<lambda>r. case r of
        Inr _ \<Rightarrow> Ret (Inr ())
      | Inl e \<Rightarrow> if is_PreconditionFailed e then io_bind (observed_era X k expected path) (\<lambda>err. Ret (Inl err))
                 else if is_NotFound e then Ret (Inl (absent_conflict k expected))
                 else Ret (Inl (KsUnavailable ''keyspace delete_if_match'')))))"

record ks_delete_outcome =
  kdo_key :: string
  kdo_deleted :: bool

definition ks_remaining :: "ks_delete_outcome list \<Rightarrow> string list" where
  "ks_remaining os = map kdo_key (filter (\<lambda>o1. \<not> kdo_deleted o1) os)"

fun validate_batch :: "string \<Rightarrow> string list \<Rightarrow> keyspace_error + unit" where
  "validate_batch ns [] = Inr ()"
| "validate_batch ns (k # ks) = try_res (ensure_not_reserved_key k) (\<lambda>_.
    try_res (ks_object_key ns k) (\<lambda>_. validate_batch ns ks))"

fun delete_many_loop :: "string \<Rightarrow> string list \<Rightarrow> ks_delete_outcome list \<Rightarrow> (keyspace_error + ks_delete_outcome list) io" where
  "delete_many_loop ns [] outcomes = Ret (Inr outcomes)"
| "delete_many_loop ns (k # ks) outcomes = io_bind (ks_delete ns k) (\<lambda>r. case r of
      Inr _ \<Rightarrow> delete_many_loop ns ks (outcomes @ [\<lparr>kdo_key = k, kdo_deleted = True\<rparr>])
    | Inl (KsUnavailable _) \<Rightarrow> delete_many_loop ns ks (outcomes @ [\<lparr>kdo_key = k, kdo_deleted = False\<rparr>])
    | Inl err \<Rightarrow> Ret (Inl err))"

definition delete_many :: "string \<Rightarrow> string list \<Rightarrow> (keyspace_error + ks_delete_outcome list) io" where
  "delete_many ns ks = lift_res (validate_batch ns ks) (\<lambda>_. delete_many_loop ns ks [])"

section \<open>Destruction\<close>

definition prepare_destroy :: "ext \<Rightarrow> string \<Rightarrow> string \<Rightarrow> string \<Rightarrow> string
    \<Rightarrow> (keyspace_error + (key \<times> etag) option) io" where
  "prepare_destroy X ns k cause actor = lift_res (ks_object_key ns k) (\<lambda>path.
    io_try (read_control_era_with_etag X ns k) (\<lambda>era. case era of
      None \<Rightarrow> Ret (Inr None)
    | Some (incarnation, version, observed) \<Rightarrow>
        io_bind unix_millis (\<lambda>ts.
        lift_res (tombstone_encode X (tombstone_new incarnation version cause actor ts)) (\<lambda>bytes.
        io_bind (upload_conditional (raw_key ns (ks_tombstone_key k)) bytes None) (\<lambda>r.
        if (case r of Inr _ \<Rightarrow> True | Inl e \<Rightarrow> is_PreconditionFailed e)
        then io_try (ks_bump_incarnation ns k) (\<lambda>_. Ret (Inr (Some (path, observed))))
        else Ret (Inl (KsUnavailable ''keyspace destroy: tombstone create'')))))))"

definition ks_destroy :: "ext \<Rightarrow> string \<Rightarrow> string \<Rightarrow> string \<Rightarrow> string \<Rightarrow> (keyspace_error + unit) io" where
  "ks_destroy X ns k cause actor = io_try (prepare_destroy X ns k cause actor) (\<lambda>prepared. case prepared of
      None \<Rightarrow> Ret (Inr ())
    | Some (path, observed) \<Rightarrow> io_bind (delete_conditional path observed) (\<lambda>r. case r of
          Inr _ \<Rightarrow> Ret (Inr ())
        | Inl e \<Rightarrow> if is_NotFound e then Ret (Inr ())
                   else if is_PreconditionFailed e then fail_cas X ns k observed
                   else Ret (Inl (KsUnavailable ''keyspace destroy: conditional delete''))))"

section \<open>The existence read\<close>

datatype key_state =
    KeyPresent bytes etag
  | KeyDestroyed tombstone
  | KeyOffsetExpired u64
  | KeyAbsent

definition read_state :: "nat \<Rightarrow> ext \<Rightarrow> string \<Rightarrow> string \<Rightarrow> (keyspace_error + key_state) io" where
  "read_state fuel X ns k = lift_res (ks_object_key ns k) (\<lambda>_.
    io_try (seq_retired fuel ns k) (\<lambda>retired. case retired of
      Some first_retained \<Rightarrow> Ret (Inr (KeyOffsetExpired first_retained))
    | None \<Rightarrow> io_try (ks_get_with_etag X ns k) (\<lambda>present. case present of
        Some (v, etag) \<Rightarrow> Ret (Inr (KeyPresent v etag))
      | None \<Rightarrow> io_bind (download (raw_key ns (ks_tombstone_key k))) (\<lambda>r. case r of
            Inr b \<Rightarrow> Ret (try_res (tombstone_decode X b) (\<lambda>t. Inr (KeyDestroyed t)))
          | Inl e \<Rightarrow> Ret (if is_NotFound e then Inr KeyAbsent
                          else Inl (KsUnavailable ''read_state: tombstone''))))))"

section \<open>Batched deletion\<close>

definition delete_objects_max_keys :: nat where "delete_objects_max_keys = 1000"
definition delete_objects_max_input :: nat where "delete_objects_max_input = 100000"

datatype unconfirmed_reason = RequestFailed | InvalidResponse

datatype delete_objects_failure =
    DofRejected delete_diagnostic
  | DofUnconfirmed unconfirmed_reason delete_diagnostic
  | DofUnsupported delete_diagnostic
  | DofNotAttempted

record delete_objects_outcome =
  doo_key :: string
  doo_result :: "delete_objects_failure + unit"

definition doo_remaining :: "delete_objects_outcome list \<Rightarrow> string list" where
  "doo_remaining os = map doo_key (filter (\<lambda>o1. \<not> is_ok (doo_result o1)) os)"

datatype delete_objects_input_error =
    DoiTooManyKeys nat nat
  | DoiKey nat string keyspace_error
  | DoiDuplicate string nat nat

text \<open>Position of the first equal member.\<close>

fun position_of :: "'a \<Rightarrow> 'a list \<Rightarrow> nat" where
  "position_of x [] = 0"
| "position_of x (y # ys) = (if y = x then 0 else Suc (position_of x ys))"

fun admit_keys :: "string \<Rightarrow> string list \<Rightarrow> nat \<Rightarrow> string list \<Rightarrow> delete_objects_input_error + unit" where
  "admit_keys ns keys index [] = Inr ()"
| "admit_keys ns keys index (k # rest) =
    try_res (map_err (ensure_not_reserved_key k) (DoiKey index k)) (\<lambda>_.
    try_res (map_err (ks_object_key ns k) (DoiKey index k)) (\<lambda>_.
    if k \<in> set (take index keys) then Inl (DoiDuplicate k (position_of k keys) index)
    else admit_keys ns keys (index + 1) rest))"

text \<open>The reconciliation of one chunk's members with its slots: \<open>False\<close> ends the loop, with the
  outcomes written so far.\<close>

fun fill_chunk :: "nat \<Rightarrow> (string \<rightharpoonup> nat) \<Rightarrow> delete_outcome list \<Rightarrow> bool list \<Rightarrow> delete_objects_outcome list
    \<Rightarrow> bool \<times> bool list \<times> delete_objects_outcome list" where
  "fill_chunk start index_of [] filled outcomes = (True, filled, outcomes)"
| "fill_chunk start index_of (m # ms) filled outcomes = (case index_of (out_path m) of
      None \<Rightarrow> (False, filled, outcomes)
    | Some local \<Rightarrow>
        if filled ! local then (False, filled, outcomes)
        else fill_chunk start index_of ms (filled[local := True])
          (outcomes[start + local := (outcomes ! (start + local))
            \<lparr>doo_result := map_err (out_result m) (\<lambda>f. DofRejected (failure_diagnostic f))\<rparr>]))"

definition index_of_paths :: "string list \<Rightarrow> (string \<rightharpoonup> nat)" where
  "index_of_paths paths = foldl (\<lambda>m (i, p). m(p \<mapsto> i)) Map.empty (enumerate 0 paths)"

text \<open>\<open>stop_unconfirmed\<close>: the chunk from \<open>start\<close>, of \<open>len\<close> keys, is unconfirmed where no
  failure is known, the tail is not attempted.\<close>

definition stop_unconfirmed :: "nat \<Rightarrow> nat \<Rightarrow> unconfirmed_reason \<Rightarrow> delete_diagnostic
    \<Rightarrow> delete_objects_outcome list \<Rightarrow> delete_objects_outcome list" where
  "stop_unconfirmed start len reason diagnostic outcomes =
    take start outcomes @ map (\<lambda>(offset, o1).
      if is_ok (doo_result o1)
      then o1\<lparr>doo_result := Inl (if offset < len then DofUnconfirmed reason diagnostic else DofNotAttempted)\<rparr>
      else o1) (enumerate 0 (drop start outcomes))"

definition bad_chunk_diagnostic :: delete_diagnostic where
  "bad_chunk_diagnostic = \<lparr>diag_code = Some ''InvalidResponse'',
    diag_message = ''chunk response did not reconcile to exactly one member per requested key'',
    diag_truncated = False\<rparr>"

fun delete_chunks :: "string \<Rightarrow> nat \<Rightarrow> string list list \<Rightarrow> delete_objects_outcome list
    \<Rightarrow> (delete_objects_input_error + delete_objects_outcome list) io" where
  "delete_chunks ns start [] outcomes = Ret (Inr outcomes)"
| "delete_chunks ns start (chunk # chunks) outcomes =
    (let paths = map (\<lambda>k. raw_key ns [] @ k) chunk in
     io_bind (client_delete_objects paths) (\<lambda>r. case r of
        Inr entries \<Rightarrow>
          let (ended, filled, outcomes) =
            fill_chunk start (index_of_paths paths) entries (replicate (length chunk) False) outcomes in
          if length entries = length chunk \<and> ended \<and> list_all id filled
          then delete_chunks ns (start + delete_objects_max_keys) chunks outcomes
          else Ret (Inr (stop_unconfirmed start (length chunk) InvalidResponse bad_chunk_diagnostic outcomes))
      | Inl (DelUnsupported d) \<Rightarrow> Ret (Inr (take start outcomes @
          map (\<lambda>o1. o1\<lparr>doo_result := Inl (DofUnsupported d)\<rparr>) (drop start outcomes)))
      | Inl (DelRequest d) \<Rightarrow> Ret (Inr (stop_unconfirmed start (length chunk) RequestFailed d outcomes))
      | Inl (DelInvalidResponse d) \<Rightarrow> Ret (Inr (stop_unconfirmed start (length chunk) InvalidResponse d outcomes))))"

definition delete_objects :: "string \<Rightarrow> string list \<Rightarrow> (delete_objects_input_error + delete_objects_outcome list) io" where
  "delete_objects ns keys =
    (if length keys > delete_objects_max_input
     then Ret (Inl (DoiTooManyKeys (length keys) delete_objects_max_input))
     else lift_res (admit_keys ns keys 0 keys) (\<lambda>_.
       delete_chunks ns 0 (chunks_of delete_objects_max_keys keys)
         (map (\<lambda>k. \<lparr>doo_key = k, doo_result = Inr ()\<rparr>) keys)))"

end
