(* ===== verification/Value_Streaming.thy ===== *)
theory Value_Streaming
  imports Value_Polling Keyspace_Ops
begin

text \<open>
  The streamed surface of \<open>value_stream.rs\<close>: begins, seal, commit, the windowed reader, the
  streamed existence read, the maintenance fence, and the chunk inventory and sweep.
\<close>

section \<open>The maintenance fence\<close>

definition fence_object_key :: "string \<Rightarrow> key" where
  "fence_object_key ns = keyspace_root @ ''/'' @ ns @ ''/'' @ fence_root @ ''/gc''"

definition fence_present :: "string \<Rightarrow> (keyspace_error + bool) io" where
  "fence_present ns = io_bind (download (fence_object_key ns)) (\<lambda>r. Ret (case r of
      Inr _ \<Rightarrow> Inr True
    | Inl e \<Rightarrow> if is_NotFound e then Inr False else Inl (KsUnavailable ''maintenance fence read'')))"

definition ensure_unfenced :: "string \<Rightarrow> string \<Rightarrow> (keyspace_error + unit) io" where
  "ensure_unfenced ns k = io_try (fence_present ns) (\<lambda>fenced.
    Ret (if fenced then Inl (KsMaintenanceFenced k) else Inr ()))"

definition set_maintenance_fence :: "string \<Rightarrow> bytes \<Rightarrow> (keyspace_error + unit) io" where
  "set_maintenance_fence ns commit_id =
    io_bind (upload_conditional (fence_object_key ns)
      (envelope_encode \<lparr>ve_incarnation = 0, ve_version = 0, ve_payload = commit_id\<rparr>) None) (\<lambda>r.
    Ret (if (case r of Inr _ \<Rightarrow> True | Inl e \<Rightarrow> is_PreconditionFailed e) then Inr ()
         else Inl (KsUnavailable ''keyspace set_maintenance_fence'')))"

definition release_observed_maintenance_fence :: "string \<Rightarrow> etag \<Rightarrow> (keyspace_error + unit) io" where
  "release_observed_maintenance_fence ns etag =
    io_bind (delete_conditional (fence_object_key ns) etag) (\<lambda>r. Ret (case r of
        Inr _ \<Rightarrow> Inr ()
      | Inl e \<Rightarrow> if is_NotFound e then Inr ()
                 else if is_PreconditionFailed e then Inl (KsMaintenanceFenceConflict ns)
                 else Inl (KsUnavailable ''keyspace release_maintenance_fence'')))"

definition release_maintenance_fence :: "string \<Rightarrow> (keyspace_error + unit) io" where
  "release_maintenance_fence ns = io_bind (download_with_etag (fence_object_key ns)) (\<lambda>r. case r of
      Inr (_, etag) \<Rightarrow>
        lift_res (ok_or etag (KsUnavailable ''keyspace release_maintenance_fence (no etag)'')) (\<lambda>etag.
          release_observed_maintenance_fence ns etag)
    | Inl e \<Rightarrow> Ret (if is_NotFound e then Inr ()
                    else Inl (KsUnavailable ''keyspace release_maintenance_fence read'')))"

section \<open>Streamed writes\<close>

definition new_writer :: "string \<Rightarrow> string \<Rightarrow> writer_intent \<Rightarrow> u64 \<Rightarrow> u64 \<Rightarrow> value_writer" where
  "new_writer ns k intent incarnation version =
    \<lparr>vw_namespace = ns, vw_key = k, vw_intent = intent, vw_incarnation = incarnation,
     vw_version = version, vw_buffer = [], vw_total_len = 0, vw_entries = [], vw_in_flight = [],
     vw_error = None, vw_sealed = False\<rparr>"

definition begin_stream_create :: "string \<Rightarrow> string \<Rightarrow> (keyspace_error + value_writer) io" where
  "begin_stream_create ns k =
    lift_res (ensure_not_reserved_key k) (\<lambda>_.
    lift_res (ks_object_key ns k) (\<lambda>_.
    io_try (ks_current_incarnation ns k) (\<lambda>incarnation.
    io_try (ensure_unfenced ns k) (\<lambda>_.
      Ret (Inr (new_writer ns k IntentCreate incarnation 0))))))"

definition begin_stream_compare_exchange :: "ext \<Rightarrow> string \<Rightarrow> string \<Rightarrow> etag \<Rightarrow> (keyspace_error + value_writer) io" where
  "begin_stream_compare_exchange X ns k expected =
    lift_res (ensure_not_reserved_key k) (\<lambda>_.
    lift_res (ks_object_key ns k) (\<lambda>path.
    io_bind (download_with_etag path) (\<lambda>r. case r of
        Inl e \<Rightarrow> Ret (Inl (if is_NotFound e then absent_conflict k expected
                           else KsUnavailable ''keyspace begin_stream_compare_exchange read''))
      | Inr (data, etag) \<Rightarrow>
          lift_res (ok_or etag (KsUnavailable ''keyspace begin_stream_compare_exchange read (no etag reported)'')) (\<lambda>observed.
          if observed \<noteq> expected then fail_cas X ns k expected
          else lift_res (control_decode X k data) (\<lambda>c.
          io_try (ensure_open_value_era ns k (control_incarnation c)) (\<lambda>_.
          lift_res (ok_or (checked_add (control_version c) 1) (KsVersionExhausted k)) (\<lambda>version.
          io_try (ensure_unfenced ns k) (\<lambda>_.
            Ret (Inr (new_writer ns k (IntentCompareExchange expected) (control_incarnation c) version))))))))))"

text \<open>Every started upload is driven to completion; the first failure ends the drain.\<close>

fun drain_uploads :: "ext \<Rightarrow> string \<Rightarrow> upload_job list \<Rightarrow> (keyspace_error + unit) io" where
  "drain_uploads X k [] = Ret (Inr ())"
| "drain_uploads X k (j # js) =
    io_try (put_chunk X (uj_path j) k (uj_entry j) (word_of_nat (uj_ordinal j)) (uj_bytes j)) (\<lambda>_.
      drain_uploads X k js)"

record pending_value =
  pv_namespace :: string
  pv_key :: string
  pv_intent :: writer_intent
  pv_manifest :: value_manifest

definition seal :: "ext \<Rightarrow> bytes \<Rightarrow> value_writer \<Rightarrow> (keyspace_error + pending_value) io" where
  "seal X commit_id w =
    (case vw_error w of Some e \<Rightarrow> Ret (Inl e) | None \<Rightarrow>
     io_try (drain_uploads X (vw_key w) (vw_in_flight w)) (\<lambda>_.
     io_try (if vw_buffer w = [] then Ret (Inr (vw_entries w))
       else let e = hash_entry X (vw_buffer w);
                path = chunk_path X (vw_namespace w) (vw_key w) (vw_incarnation w) (vw_version w) e in
         io_try (put_chunk X path (vw_key w) e (word_of_nat (length (vw_entries w))) (vw_buffer w)) (\<lambda>_.
           Ret (Inr (vw_entries w @ [e])))) (\<lambda>es.
     let count = (word_of_nat (length es) :: u32) in
     if \<not> (min_chunks \<le> count \<and> count \<le> max_chunks) then Ret (Inl (KsChunkCountInvalid (vw_key w) count))
     else Ret (Inr \<lparr>pv_namespace = vw_namespace w, pv_key = vw_key w, pv_intent = vw_intent w,
       pv_manifest = manifest_of X (vw_incarnation w) (vw_version w) commit_id
         (word_of_nat (vw_total_len w)) es\<rparr>))))"

record commit_receipt =
  rc_etag :: etag
  rc_logical_len :: u64
  rc_representation :: value_representation
  rc_chunk_count :: u32

definition receipt :: "pending_value \<Rightarrow> etag \<Rightarrow> commit_receipt" where
  "receipt p etag = \<lparr>rc_etag = etag, rc_logical_len = vm_logical_len (pv_manifest p),
    rc_representation = ReprChunked, rc_chunk_count = chunk_count (pv_manifest p)\<rparr>"

definition finish_create_after_publish :: "pending_value \<Rightarrow> key \<Rightarrow> etag \<Rightarrow> (keyspace_error + commit_receipt) io" where
  "finish_create_after_publish p path published =
    io_try (ks_current_incarnation (pv_namespace p) (pv_key p)) (\<lambda>now.
    if now = vm_incarnation (pv_manifest p) then Ret (Inr (receipt p published))
    else io_bind (download_with_etag path) (\<lambda>r. case r of
        Inr (data, etag) \<Rightarrow>
          lift_res (ok_or etag (KsUnavailable ''keyspace create (stale-era eviction: no etag)'')) (\<lambda>etag.
          if data = manifest_encode (pv_manifest p)
          then io_bind (delete_conditional path etag) (\<lambda>d. Ret (Inl (case d of
              Inr _ \<Rightarrow> KsStaleIncarnation (pv_key p)
            | Inl e \<Rightarrow> if is_NotFound e then KsStaleIncarnation (pv_key p)
                       else if is_PreconditionFailed e then KsAlreadyExists (pv_key p)
                       else KsUnavailable ''keyspace create (stale-era eviction)'')))
          else Ret (Inl (KsAlreadyExists (pv_key p))))
      | Inl e \<Rightarrow> Ret (Inl (if is_NotFound e then KsStaleIncarnation (pv_key p)
                          else KsUnavailable ''keyspace create (stale-era eviction check)''))))"

definition commit_create :: "nat \<Rightarrow> ext \<Rightarrow> pending_value \<Rightarrow> key \<Rightarrow> (keyspace_error + commit_receipt) io" where
  "commit_create fuel X p path =
    io_bind (upload_conditional path (manifest_encode (pv_manifest p)) None) (\<lambda>r. case r of
        Inr (Some etag) \<Rightarrow> finish_create_after_publish p path etag
      | Inr None \<Rightarrow> Ret (Inl (KsUnavailable ''keyspace create (no etag on manifest publish)''))
      | Inl e \<Rightarrow> if is_PreconditionFailed e then Ret (Inl (KsAlreadyExists (pv_key p)))
          else io_try (adjudicate_manifest_put fuel X (pv_namespace p) (pv_key p) path (pv_manifest p)) (\<lambda>a. case a of
              Landed (Some etag) \<Rightarrow> finish_create_after_publish p path etag
            | Landed None \<Rightarrow> Ret (Inl (KsUnavailable ''keyspace create (ambiguous manifest commit: no etag)''))
            | LostConflict \<Rightarrow> Ret (Inl (KsAlreadyExists (pv_key p)))
            | Ambiguous \<Rightarrow> Ret (Inl (KsUnavailable ''keyspace create (ambiguous manifest commit)''))))"

definition commit_compare_exchange :: "nat \<Rightarrow> ext \<Rightarrow> pending_value \<Rightarrow> key \<Rightarrow> etag \<Rightarrow> (keyspace_error + commit_receipt) io" where
  "commit_compare_exchange fuel X p path expected =
    (let ns = pv_namespace p; k = pv_key p; i = vm_incarnation (pv_manifest p);
         finish = (\<lambda>etag. io_try (finish_value_cas_after_publish ns k i etag) (\<lambda>etag. Ret (Inr (receipt p etag)))) in
     io_try (ensure_open_value_era ns k i) (\<lambda>_.
     io_bind (upload_conditional path (manifest_encode (pv_manifest p)) (Some expected)) (\<lambda>r. case r of
        Inr (Some etag) \<Rightarrow> finish etag
      | Inr None \<Rightarrow> Ret (Inl (KsUnavailable ''keyspace compare_exchange (no etag on manifest publish)''))
      | Inl e \<Rightarrow> if is_PreconditionFailed e then fail_cas X ns k expected
          else io_try (adjudicate_manifest_put fuel X ns k path (pv_manifest p)) (\<lambda>a. case a of
              Landed (Some etag) \<Rightarrow> finish etag
            | Landed None \<Rightarrow> Ret (Inl (KsUnavailable ''keyspace compare_exchange (ambiguous manifest commit: no etag)''))
            | LostConflict \<Rightarrow> fail_cas X ns k expected
            | Ambiguous \<Rightarrow> Ret (Inl (KsUnavailable ''keyspace compare_exchange (ambiguous manifest commit)''))))))"

definition commit :: "nat \<Rightarrow> ext \<Rightarrow> pending_value \<Rightarrow> (keyspace_error + commit_receipt) io" where
  "commit fuel X p =
    (let path = raw_key (pv_namespace p) (pv_key p) in
     case pv_intent p of
       IntentCreate \<Rightarrow> commit_create fuel X p path
     | IntentCompareExchange expected \<Rightarrow> commit_compare_exchange fuel X p path expected)"

section \<open>Streamed reads\<close>

definition open_stream_window :: "ext \<Rightarrow> string \<Rightarrow> string \<Rightarrow> (u64 \<times> u64) option \<Rightarrow> (keyspace_error + value_reader option) io" where
  "open_stream_window X ns k bounds = lift_res (ks_object_key ns k) (\<lambda>path.
    io_bind (download_with_etag path) (\<lambda>r. case r of
        Inl e \<Rightarrow> Ret (if is_NotFound e then Inr None
                      else Inl (KsUnavailable ''keyspace open_stream control read''))
      | Inr (data, etag) \<Rightarrow>
          lift_res (ok_or etag (KsUnavailable ''keyspace open_stream (no etag reported)'')) (\<lambda>etag.
          lift_res (control_decode X k data) (\<lambda>c.
          let logical_len = (case c of
              CtlInline e \<Rightarrow> length (ve_payload e) | CtlChunked m \<Rightarrow> unat (vm_logical_len m));
            metadata = \<lparr>md_logical_len = logical_len, md_etag = etag,
              md_value_root_sha256 = (case c of CtlInline _ \<Rightarrow> None | CtlChunked m \<Rightarrow> Some (vm_value_root_sha256 m)),
              md_representation = (case c of CtlInline _ \<Rightarrow> ReprInline | CtlChunked _ \<Rightarrow> ReprChunked)\<rparr>;
            digests = (case c of CtlInline _ \<Rightarrow> [] | CtlChunked m \<Rightarrow> map me_sha256 (vm_entries m)) in
          lift_res (case bounds of
              None \<Rightarrow> Inr (0, logical_len)
            | Some (start, stop) \<Rightarrow>
                if start > stop \<or> unat stop > logical_len
                then Inl (KsInvalidRange k start stop (word_of_nat logical_len))
                else Inr (unat start, unat stop)) (\<lambda>(start, stop).
          Ret (Inr (Some \<lparr>vr_metadata = metadata, vr_chunk_digests = digests,
            vr_source = (case c of
                CtlInline e \<Rightarrow> SourceInline (ve_payload e)
              | CtlChunked m \<Rightarrow>
                  let first = min (start div chunk_bytes) (2 ^ 32 - 1);
                      last_exclusive = (if stop = 0 then 0
                        else min ((stop - 1) div chunk_bytes + 1) (unat (chunk_count m))) in
                  SourceChunked \<lparr>cr_namespace = ns, cr_key = k, cr_incarnation = vm_incarnation m,
                    cr_version = vm_version m, cr_entries = vm_entries m, cr_next_fetch = first,
                    cr_last_fetch = last_exclusive, cr_in_flight = [], cr_ready = [],
                    cr_current = None, cr_current_ordinal = first\<rparr>),
            vr_position = start, vr_end = stop\<rparr>)))))))"

definition open_stream :: "ext \<Rightarrow> string \<Rightarrow> string \<Rightarrow> (keyspace_error + value_reader option) io" where
  "open_stream X ns k = open_stream_window X ns k None"

definition open_stream_range :: "ext \<Rightarrow> string \<Rightarrow> string \<Rightarrow> u64 \<Rightarrow> u64 \<Rightarrow> (keyspace_error + value_reader option) io" where
  "open_stream_range X ns k start stop =
    (if start > stop
     then io_try (open_stream X ns k) (\<lambda>r. Ret (Inl (KsInvalidRange k start stop
       (case r of None \<Rightarrow> 0 | Some v \<Rightarrow> word_of_nat (md_logical_len (vr_metadata v))))))
     else open_stream_window X ns k (Some (start, stop)))"

datatype stream_key_state =
    StreamPresent value_reader value_metadata
  | StreamDestroyed tombstone
  | StreamOffsetExpired u64
  | StreamAbsent

definition read_state_stream :: "nat \<Rightarrow> ext \<Rightarrow> string \<Rightarrow> string \<Rightarrow> (keyspace_error + stream_key_state) io" where
  "read_state_stream fuel X ns k = lift_res (ks_object_key ns k) (\<lambda>_.
    io_try (seq_retired fuel ns k) (\<lambda>retired. case retired of
      Some first_retained \<Rightarrow> Ret (Inr (StreamOffsetExpired first_retained))
    | None \<Rightarrow> io_try (open_stream X ns k) (\<lambda>present. case present of
        Some v \<Rightarrow> Ret (Inr (StreamPresent v (vr_metadata v)))
      | None \<Rightarrow> io_bind (download (raw_key ns (ks_tombstone_key k))) (\<lambda>r. case r of
            Inr b \<Rightarrow> Ret (try_res (tombstone_decode X b) (\<lambda>t. Inr (StreamDestroyed t)))
          | Inl e \<Rightarrow> Ret (if is_NotFound e then Inr StreamAbsent
                          else Inl (KsUnavailable ''read_state_stream: tombstone''))))))"

section \<open>Chunk inventory and sweep\<close>

definition chunk_root_prefix :: "string \<Rightarrow> key" where
  "chunk_root_prefix ns = chunk_root @ ''/v1/'' @ ns @ ''/''"

definition list_chunk_page :: "string \<Rightarrow> key option \<Rightarrow> (keyspace_error + (key \<times> nat) list) io" where
  "list_chunk_page ns after = io_bind (list_prefix_after_with_sizes (chunk_root_prefix ns) after 1000) (\<lambda>r.
    Ret (map_err r (\<lambda>_. KsUnavailable ''keyspace chunk root list'')))"

record page_classification =
  pc_referenced_count :: u64
  pc_orphan_candidates :: "key list"
  pc_unresolved_count :: u64

text \<open>The paths of a page by logical key, in key order; a foreign or unparseable path is
  unresolved.\<close>

fun group_push :: "string \<Rightarrow> key \<Rightarrow> (string \<times> key list) list \<Rightarrow> (string \<times> key list) list" where
  "group_push k path [] = [(k, [path])]"
| "group_push k path ((k', paths) # gs) =
    (if k = k' then (k', paths @ [path]) # gs
     else if k < k' then (k, [path]) # (k', paths) # gs
     else (k', paths) # group_push k path gs)"

fun group_page :: "ext \<Rightarrow> string \<Rightarrow> (key \<times> nat) list \<Rightarrow> (string \<times> key list) list \<Rightarrow> u64
    \<Rightarrow> (string \<times> key list) list \<times> u64" where
  "group_page X ns [] gs unresolved = (gs, unresolved)"
| "group_page X ns ((path, bytes) # page) gs unresolved = (case parse_chunk_object_key X path of
      Some parsed \<Rightarrow>
        if cop_namespace parsed = ns
        then group_page X ns page (group_push (cop_logical_key parsed) path gs) unresolved
        else group_page X ns page gs (unresolved + 1)
    | None \<Rightarrow> group_page X ns page gs (unresolved + 1))"

text \<open>The paths the current control of a key references; \<open>None\<close> when it cannot be read.\<close>

definition manifest_paths :: "ext \<Rightarrow> string \<Rightarrow> string \<Rightarrow> value_manifest \<Rightarrow> key list" where
  "manifest_paths X ns k m = map (chunk_path X ns k (vm_incarnation m) (vm_version m)) (vm_entries m)"

definition referenced_paths :: "ext \<Rightarrow> string \<Rightarrow> string \<Rightarrow> key \<Rightarrow> u64 option \<Rightarrow> key list option io" where
  "referenced_paths X ns k control_key floor =
    (if seq_retired_at_floor k floor \<noteq> None then Ret (Some [])
     else io_bind (download control_key) (\<lambda>r. Ret (case r of
         Inr b \<Rightarrow> (case control_decode X k b of
             Inr (CtlChunked m) \<Rightarrow> Some (manifest_paths X ns k m)
           | Inr (CtlInline _) \<Rightarrow> Some []
           | Inl _ \<Rightarrow> None)
       | Inl e \<Rightarrow> if is_NotFound e then Some [] else None)))"

fun classify_groups :: "ext \<Rightarrow> string \<Rightarrow> u64 option \<Rightarrow> (string \<times> key list) list \<Rightarrow> page_classification
    \<Rightarrow> (keyspace_error + page_classification) io" where
  "classify_groups X ns floor [] c = Ret (Inr c)"
| "classify_groups X ns floor ((k, paths) # gs) c =
    lift_res (ks_object_key ns k) (\<lambda>control_key.
    io_bind (referenced_paths X ns k control_key floor) (\<lambda>referenced. case referenced of
        Some refs \<Rightarrow> classify_groups X ns floor gs
          (c\<lparr>pc_referenced_count := pc_referenced_count c + word_of_nat (length (filter (\<lambda>p. p \<in> set refs) paths)),
             pc_orphan_candidates := pc_orphan_candidates c @ filter (\<lambda>p. p \<notin> set refs) paths\<rparr>)
      | None \<Rightarrow> classify_groups X ns floor gs
          (c\<lparr>pc_unresolved_count := pc_unresolved_count c + word_of_nat (length paths)\<rparr>)))"

definition classify_chunk_page :: "nat \<Rightarrow> ext \<Rightarrow> string \<Rightarrow> (key \<times> nat) list \<Rightarrow> (keyspace_error + page_classification) io" where
  "classify_chunk_page fuel X ns page =
    (let (gs, unresolved) = group_page X ns page [] 0 in
     io_try (trim_floor fuel ns []) (\<lambda>floor.
       classify_groups X ns floor gs
         \<lparr>pc_referenced_count = 0, pc_orphan_candidates = [], pc_unresolved_count = unresolved\<rparr>))"

record chunk_inventory_report =
  ci_listed_chunks :: u64
  ci_referenced_chunks :: u64
  ci_candidate_orphan_chunks :: u64
  ci_unresolved_chunks :: u64
  ci_listed_bytes :: u64
  ci_candidate_orphan_bytes :: u64

definition orphan_size :: "(key \<times> nat) list \<Rightarrow> key \<Rightarrow> u64" where
  "orphan_size page p = (case map_of page p of None \<Rightarrow> 0 | Some n \<Rightarrow> word_of_nat n)"

definition add_page :: "(key \<times> nat) list \<Rightarrow> page_classification \<Rightarrow> chunk_inventory_report \<Rightarrow> chunk_inventory_report" where
  "add_page page c i = i
    \<lparr>ci_listed_chunks := ci_listed_chunks i + word_of_nat (length page),
     ci_listed_bytes := ci_listed_bytes i + sum_list (map (\<lambda>(_, n). word_of_nat n) page),
     ci_referenced_chunks := ci_referenced_chunks i + pc_referenced_count c,
     ci_unresolved_chunks := ci_unresolved_chunks i + pc_unresolved_count c,
     ci_candidate_orphan_chunks := ci_candidate_orphan_chunks i + word_of_nat (length (pc_orphan_candidates c)),
     ci_candidate_orphan_bytes := ci_candidate_orphan_bytes i
       + sum_list (map (orphan_size page) (pc_orphan_candidates c))\<rparr>"

primrec chunk_inventory_loop :: "nat \<Rightarrow> nat \<Rightarrow> ext \<Rightarrow> string \<Rightarrow> key option \<Rightarrow> chunk_inventory_report
    \<Rightarrow> (keyspace_error + chunk_inventory_report) io" where
  "chunk_inventory_loop 0 fuel X ns after inventory = Stuck"
| "chunk_inventory_loop (Suc pages) fuel X ns after inventory = io_try (list_chunk_page ns after) (\<lambda>page.
    if page = [] then Ret (Inr inventory)
    else io_try (classify_chunk_page fuel X ns page) (\<lambda>c.
      let inventory = add_page page c inventory in
      if length page < 1000 then Ret (Inr inventory)
      else chunk_inventory_loop pages fuel X ns (Some (fst (last page))) inventory))"

definition chunk_inventory :: "nat \<Rightarrow> nat \<Rightarrow> ext \<Rightarrow> string \<Rightarrow> (keyspace_error + chunk_inventory_report) io" where
  "chunk_inventory pages fuel X ns = chunk_inventory_loop pages fuel X ns None
    \<lparr>ci_listed_chunks = 0, ci_referenced_chunks = 0, ci_candidate_orphan_chunks = 0,
     ci_unresolved_chunks = 0, ci_listed_bytes = 0, ci_candidate_orphan_bytes = 0\<rparr>"

record chunk_sweep_report =
  cs_examined :: u64
  cs_deleted :: u64
  cs_remaining :: u64
  cs_retained :: u64

fun delete_orphans :: "key list \<Rightarrow> chunk_sweep_report \<Rightarrow> chunk_sweep_report io" where
  "delete_orphans [] report = Ret report"
| "delete_orphans (p # ps) report = io_bind (delete_key p) (\<lambda>r. case r of
      Inr _ \<Rightarrow> delete_orphans ps (report\<lparr>cs_deleted := cs_deleted report + 1\<rparr>)
    | Inl _ \<Rightarrow> delete_orphans ps (report\<lparr>cs_remaining := cs_remaining report + 1\<rparr>))"

primrec sweep_loop :: "nat \<Rightarrow> nat \<Rightarrow> ext \<Rightarrow> string \<Rightarrow> key option \<Rightarrow> chunk_sweep_report
    \<Rightarrow> (keyspace_error + chunk_sweep_report) io" where
  "sweep_loop 0 fuel X ns after report = Stuck"
| "sweep_loop (Suc pages) fuel X ns after report = io_try (list_chunk_page ns after) (\<lambda>page.
    if page = [] then Ret (Inr report)
    else io_try (classify_chunk_page fuel X ns page) (\<lambda>c.
      let report = report\<lparr>cs_examined := cs_examined report + word_of_nat (length page),
        cs_retained := cs_retained report + pc_referenced_count c,
        cs_remaining := cs_remaining report + pc_unresolved_count c\<rparr> in
      io_bind (delete_orphans (pc_orphan_candidates c) report) (\<lambda>report.
      if length page < 1000 then Ret (Inr report)
      else sweep_loop pages fuel X ns (Some (fst (last page))) report)))"

definition sweep_chunks :: "nat \<Rightarrow> nat \<Rightarrow> ext \<Rightarrow> string \<Rightarrow> (keyspace_error + chunk_sweep_report) io" where
  "sweep_chunks pages fuel X ns = io_try (fence_present ns) (\<lambda>fenced.
    if \<not> fenced then Ret (Inl (KsMaintenanceFenceRequired ns))
    else sweep_loop pages fuel X ns None
      \<lparr>cs_examined = 0, cs_deleted = 0, cs_remaining = 0, cs_retained = 0\<rparr>)"

end
