(* ===== verification/Value_Chunks.thy ===== *)
theory Value_Chunks
  imports Value_Stream
begin

text \<open>
  Chunking: the pieces of a value are full except the last, concatenate to the value, and their
  number is the rounded-up quotient, so a value above the inline bound and within the logical
  bound gives a canonical chunk table.  Staging and collecting a value, run alone, are inverse.
\<close>

section \<open>The pieces\<close>

lemma chunks_of_Nil [simp]: "chunks_of n [] = []"
  by (simp add: chunks_of.simps)

lemma chunks_of_Cons: "n > 0 \<Longrightarrow> xs \<noteq> [] \<Longrightarrow> chunks_of n xs = take n xs # chunks_of n (drop n xs)"
  by (simp add: chunks_of.simps)

lemma chunks_of_eq_Nil: "n > 0 \<Longrightarrow> chunks_of n xs = [] \<longleftrightarrow> xs = []"
  by (cases "xs = []") (simp_all add: chunks_of_Cons)

lemma concat_chunks_of: "n > 0 \<Longrightarrow> concat (chunks_of n xs) = xs"
proof (induction n xs rule: chunks_of.induct)
  case (1 n xs)
  then show ?case by (cases "xs = []") (simp_all add: chunks_of_Cons)
qed

lemma chunks_of_short: "n > 0 \<Longrightarrow> xs \<noteq> [] \<Longrightarrow> length xs \<le> n \<Longrightarrow> chunks_of n xs = [xs]"
  by (simp add: chunks_of_Cons)

lemma chunks_of_append_full:
  "n > 0 \<Longrightarrow> length xs = n \<Longrightarrow> chunks_of n (xs @ ys) = xs # chunks_of n ys"
  by (cases "xs @ ys = []") (auto simp: chunks_of_Cons)

lemma length_chunks_of: "n > 0 \<Longrightarrow> length (chunks_of n xs) = (length xs + n - 1) div n"
proof (induction n xs rule: chunks_of.induct)
  case (1 n xs)
  show ?case
  proof (cases "xs = []")
    case False
    then have IH: "length (chunks_of n xs) = Suc ((length (drop n xs) + n - 1) div n)"
      using 1 by (simp add: chunks_of_Cons)
    show ?thesis
    proof (cases "length xs \<le> n")
      case True
      then have k: "length xs + n - 1 = n + (length xs - 1)" "length xs - 1 < n"
        using False 1(2) by (auto simp: Suc_le_eq)
      have "(length xs + n - 1) div n = 1" unfolding k(1) using k(2) 1(2) by (subst div_add_self1) simp_all
      then show ?thesis using IH True 1(2) by simp
    next
      case long: False
      then have split: "length xs + n - 1 = (length (drop n xs) + n - 1) + n" using 1(2) by simp
      have "(m + n) div n = Suc (m div n)" for m using 1(2) div_add_self2 [of n m] by simp
      then show ?thesis using IH unfolding split by (simp only:)
    qed
  qed (use 1 in simp)
qed

lemma chunks_of_sizes:
  "n > 0 \<Longrightarrow> (\<forall>b\<in>set (butlast (chunks_of n xs)). length b = n) \<and>
    (xs \<noteq> [] \<longrightarrow> 0 < length (last (chunks_of n xs)) \<and> length (last (chunks_of n xs)) \<le> n)"
proof (induction n xs rule: chunks_of.induct)
  case (1 n xs)
  show ?case
  proof (cases "xs = []")
    case False
    note step = chunks_of_Cons [OF 1(2) False]
    show ?thesis
    proof (cases "drop n xs = []")
      case True
      then show ?thesis using False 1(2) step by simp
    next
      case rest: False
      then have "n < length xs" by simp
      then show ?thesis using 1 False rest step by (simp add: chunks_of_eq_Nil)
    qed
  qed (use 1 in simp)
qed

section \<open>The chunk table\<close>

lemma digest_hex_wf: "ext_ok X \<Longrightarrow> length (digest_hex X (hash_entry X b)) = 64 \<and>
    list_all ascii_lower_hex (digest_hex X (hash_entry X b))"
  by (simp add: digest_hex_def hash_entry_def ext_ok_def)

lemma unat_entry_len: "length b \<le> chunk_bytes \<Longrightarrow> unat (me_encoded_len (hash_entry X b)) = length b"
  by (simp add: hash_entry_def unat_of_nat manifest_sizes)

lemma chunk_matches_hash: "length b \<le> chunk_bytes \<Longrightarrow> chunk_matches X (hash_entry X b) b' \<longleftrightarrow>
    length b' = length b \<and> sha256 X b' = sha256 X b"
  by (auto simp: chunk_matches_def unat_entry_len) (simp_all add: hash_entry_def)

abbreviation value_chunks :: "bytes \<Rightarrow> bytes list" where
  "value_chunks v \<equiv> chunks_of chunk_bytes v"

lemma chunk_bytes_pos [simp]: "0 < chunk_bytes"
  by (simp add: manifest_sizes)

lemma value_chunks_le: "b \<in> set (value_chunks v) \<Longrightarrow> length b \<le> chunk_bytes"
  using chunks_of_sizes [of chunk_bytes v]
  by (cases "value_chunks v" rule: rev_cases) (force simp: chunks_of_eq_Nil)+

lemma table_len_chunks: "(\<forall>b\<in>set bs. length b \<le> chunk_bytes) \<Longrightarrow>
    table_len (map (hash_entry X) bs) = length (concat bs)"
  by (induction bs) (simp_all add: table_len_def unat_entry_len)

lemma entries_wf_chunks:
  assumes "ext_ok X" "v \<noteq> []"
  shows "entries_wf (map (hash_entry X) (value_chunks v))"
proof -
  let ?bs = "value_chunks v"
  have ne: "?bs \<noteq> []" using assms(2) by (simp add: chunks_of_eq_Nil)
  note sizes = chunks_of_sizes [OF chunk_bytes_pos, of v]
  have last: "0 < length (last ?bs)" "length (last ?bs) \<le> chunk_bytes" using sizes assms(2) by auto
  then have "unat (me_encoded_len (hash_entry X (last ?bs))) = length (last ?bs)" by (simp add: unat_entry_len)
  then have "1 \<le> me_encoded_len (hash_entry X (last ?bs))"
    "me_encoded_len (hash_entry X (last ?bs)) \<le> word_of_nat chunk_bytes"
    using last by (simp_all add: word_le_nat_alt manifest_sizes Suc_le_eq)
  moreover have "me_encoded_len (hash_entry X b) = word_of_nat chunk_bytes" if "b \<in> set (butlast ?bs)" for b
    using sizes that by (simp add: hash_entry_def)
  moreover have "length (me_sha256 (hash_entry X b)) = 32" for b
    using assms(1) by (simp add: hash_entry_def ext_ok_def)
  ultimately show ?thesis using ne by (auto simp: entries_wf_def last_map map_butlast [symmetric])
qed

lemma staged_manifest_wf:
  assumes "ext_ok X" "length commit_id = 16" "length v > inline_max" "length v \<le> unat max_logical_bytes"
  shows "manifest_wf X (manifest_of X i ver commit_id (word_of_nat (length v)) (map (hash_entry X) (value_chunks v)))"
proof -
  have v: "v \<noteq> []" using assms(3) by auto
  have len: "length v \<le> 2 ^ 40" using assms(4) by (simp add: max_logical_bytes_eq)
  then have word: "unat (word_of_nat (length v) :: u64) = length v" by (simp add: unat_of_nat)
  have count: "length (value_chunks v) = (length v + (chunk_bytes - 1)) div chunk_bytes"
    by (simp add: length_chunks_of manifest_sizes)
  have "2 \<le> length (value_chunks v)"
    unfolding count using assms(3) by (simp add: manifest_sizes less_eq_div_iff_mult_less_eq)
  moreover have "length (value_chunks v) \<le> 65536"
    unfolding count using len div_le_mono [of "length v + (chunk_bytes - 1)" "2 ^ 40 + (chunk_bytes - 1)" chunk_bytes]
    by (simp add: manifest_sizes)
  moreover have "table_len (map (hash_entry X) (value_chunks v)) = length v"
    using table_len_chunks [of "value_chunks v" X] value_chunks_le by (simp add: concat_chunks_of)
  moreover have "length (compute_value_root X l c es) = 32" for l c es
    using assms(1) by (simp add: compute_value_root_def ext_ok_def)
  ultimately show ?thesis using assms(1,2) entries_wf_chunks [OF assms(1) v] word
    by (simp add: manifest_wf_def manifest_of_def)
qed

end
