(* ===== verification/Value_Writers.thy ===== *)
theory Value_Writers
  imports Value_Streaming Value_Chunks
begin

text \<open>
  The writer's poll machine against the pure chunking: whatever the uploads do, the accepted bytes
  are cut into the same chunks as a whole value, at most four uploads are pending, a poll on a
  non-empty buffer makes progress, and sealing builds the manifest the whole-value path builds.
\<close>

section \<open>The writer's data\<close>

definition job_ok :: "ext \<Rightarrow> value_writer \<Rightarrow> bytes list \<Rightarrow> upload_job \<Rightarrow> bool" where
  "job_ok X w bs j \<longleftrightarrow> uj_ordinal j < length bs \<and> uj_bytes j = bs ! uj_ordinal j \<and>
    uj_entry j = hash_entry X (uj_bytes j) \<and>
    uj_path j = chunk_path X (vw_namespace w) (vw_key w) (vw_incarnation w) (vw_version w) (uj_entry j)"

text \<open>\<open>writer_inv X w data\<close>: the writer has accepted exactly \<open>data\<close>.\<close>

definition writer_inv :: "ext \<Rightarrow> value_writer \<Rightarrow> bytes \<Rightarrow> bool" where
  "writer_inv X w data \<longleftrightarrow> (\<exists>bs. (\<forall>b\<in>set bs. length b = chunk_bytes) \<and> data = concat bs @ vw_buffer w \<and>
    vw_entries w = map (hash_entry X) bs \<and> (\<forall>j\<in>set (vw_in_flight w). job_ok X w bs j)) \<and>
    length (vw_buffer w) < chunk_bytes \<and> vw_total_len w = length data \<and>
    length (vw_in_flight w) \<le> max_in_flight_chunks"

text \<open>What a poll leaves alone.\<close>

definition same_target :: "value_writer \<Rightarrow> value_writer \<Rightarrow> bool" where
  "same_target w w' \<longleftrightarrow> vw_namespace w' = vw_namespace w \<and> vw_key w' = vw_key w \<and> vw_intent w' = vw_intent w \<and>
    vw_incarnation w' = vw_incarnation w \<and> vw_version w' = vw_version w \<and> vw_sealed w' = vw_sealed w"

lemma same_target_refl [simp]: "same_target w w"
  by (simp add: same_target_def)

lemma same_target_trans: "same_target w w' \<Longrightarrow> same_target w' w'' \<Longrightarrow> same_target w w''"
  by (simp add: same_target_def)

lemma new_writer_inv: "writer_inv X (new_writer ns k intent i v) []"
  by (simp add: writer_inv_def new_writer_def)

lemma value_chunks_split:
  "(\<forall>b\<in>set bs. length b = chunk_bytes) \<Longrightarrow> length r < chunk_bytes \<Longrightarrow>
    value_chunks (concat bs @ r) = bs @ (if r = [] then [] else [r])"
proof (induction bs)
  case Nil
  then show ?case by (simp add: chunks_of_short)
next
  case (Cons b bs)
  then show ?case using chunks_of_append_full [of chunk_bytes b "concat bs @ r"] by simp
qed

lemma writer_inv_chunks:
  assumes "writer_inv X w data"
  shows "vw_entries w @ (if vw_buffer w = [] then [] else [hash_entry X (vw_buffer w)])
      = map (hash_entry X) (value_chunks data)" "vw_total_len w = length data"
proof -
  obtain bs where "\<forall>b\<in>set bs. length b = chunk_bytes" "data = concat bs @ vw_buffer w"
    "vw_entries w = map (hash_entry X) bs" "length (vw_buffer w) < chunk_bytes"
    using assms by (auto simp: writer_inv_def)
  then show "vw_entries w @ (if vw_buffer w = [] then [] else [hash_entry X (vw_buffer w)])
      = map (hash_entry X) (value_chunks data)"
    using value_chunks_split [of bs "vw_buffer w"] by simp
qed (use assms in \<open>simp add: writer_inv_def\<close>)

section \<open>Polls\<close>

lemma set_remove_nth: "set (remove_nth i xs) \<subseteq> set xs" "length (remove_nth i xs) \<le> length xs"
  unfolding remove_nth_def using set_take_subset [of i xs] set_drop_subset [of "Suc i" xs] by auto

lemma writer_inv_removed:
  "writer_inv X w data \<Longrightarrow> writer_inv X (w\<lparr>vw_in_flight := remove_nth i (vw_in_flight w)\<rparr>) data"
  using set_remove_nth [of i "vw_in_flight w"] unfolding writer_inv_def job_ok_def
  by (simp; elim exE conjE) (intro exI conjI; (assumption | auto))

lemma writer_inv_error: "writer_inv X w data \<Longrightarrow> writer_inv X (w\<lparr>vw_error := e\<rparr>) data"
  by (simp add: writer_inv_def job_ok_def)

lemma backpressure_steps:
  "length (vw_in_flight w) < max_in_flight_chunks \<Longrightarrow> backpressure script w = (Ready (Inr ()), w, script)"
  "\<not> length (vw_in_flight w) < max_in_flight_chunks \<Longrightarrow> backpressure [] w = (Pending, w, [])"
  "\<not> length (vw_in_flight w) < max_in_flight_chunks \<Longrightarrow> backpressure (NotReady # s) w = (Pending, w, s)"
  "\<not> length (vw_in_flight w) < max_in_flight_chunks \<Longrightarrow> backpressure (Done i (Inl e) # s) w =
    (Ready (Inl (OtherError e)), w\<lparr>vw_in_flight := remove_nth i (vw_in_flight w), vw_error := Some e\<rparr>, s)"
  "\<not> length (vw_in_flight w) < max_in_flight_chunks \<Longrightarrow> backpressure (Done i (Inr u) # s) w =
    backpressure s (w\<lparr>vw_in_flight := remove_nth i (vw_in_flight w)\<rparr>)"
  by (subst backpressure.simps; simp add: Let_def)+

lemma consume_Nil [simp]: "consume X w [] n = Some (w, n)"
  by (simp add: consume.simps)

lemma backpressure_inv:
  "backpressure script w = (r, w', script') \<Longrightarrow> writer_inv X w data \<Longrightarrow>
    writer_inv X w' data \<and> same_target w w' \<and>
    (r = Ready (Inr ()) \<longrightarrow> length (vw_in_flight w') < max_in_flight_chunks \<and> vw_error w' = vw_error w)"
proof (induction script w rule: backpressure.induct)
  case (1 script w)
  note steps = backpressure_steps [of w]
  consider "length (vw_in_flight w) < max_in_flight_chunks"
    | "\<not> length (vw_in_flight w) < max_in_flight_chunks" "script = [] \<or> (\<exists>s. script = NotReady # s)"
    | i e s where "\<not> length (vw_in_flight w) < max_in_flight_chunks" "script = Done i (Inl e) # s"
    | i u s where "\<not> length (vw_in_flight w) < max_in_flight_chunks" "script = Done i (Inr u) # s"
    by (metis event.exhaust list.exhaust sum.exhaust)
  then show ?case
  proof cases
    case 3
    then show ?thesis using "1.prems" writer_inv_error [OF writer_inv_removed [OF "1.prems"(2), of i], of "Some e"]
      by (auto simp: steps same_target_def)
  next
    case 4
    let ?w = "w\<lparr>vw_in_flight := remove_nth i (vw_in_flight w)\<rparr>"
    have "writer_inv X w' data \<and> same_target ?w w' \<and>
        (r = Ready (Inr ()) \<longrightarrow> length (vw_in_flight w') < max_in_flight_chunks \<and> vw_error w' = vw_error ?w)"
      using "1.IH" [OF 4(1) 4(2) refl refl refl] "1.prems"(1) writer_inv_removed [OF "1.prems"(2)] 4
      by (simp add: steps)
    then show ?thesis by (auto simp: same_target_def)
  qed (use "1.prems" in \<open>auto simp: steps\<close>)
qed

text \<open>A full buffer becomes the next chunk.\<close>

lemma start_upload_inv:
  assumes "\<forall>b\<in>set bs. length b = chunk_bytes" "vw_entries w = map (hash_entry X) bs"
    "\<forall>j\<in>set (vw_in_flight w). job_ok X w bs j" "length (vw_buffer w) = chunk_bytes"
    "vw_total_len w = length (concat bs @ vw_buffer w)" "length (vw_in_flight w) < max_in_flight_chunks"
  shows "writer_inv X (start_chunk_upload X w) (concat bs @ vw_buffer w)"
    "same_target w (start_chunk_upload X w)" "vw_error (start_chunk_upload X w) = vw_error w"
proof -
  let ?w = "start_chunk_upload X w"
  have "job_ok X ?w (bs @ [vw_buffer w]) j" if "j \<in> set (vw_in_flight ?w)" for j
    using that assms(2,3) by (auto simp: start_chunk_upload_def Let_def job_ok_def nth_append)
  moreover have "vw_entries ?w = map (hash_entry X) (bs @ [vw_buffer w])" "vw_buffer ?w = []"
    "vw_total_len ?w = length (concat bs @ vw_buffer w)" "length (vw_in_flight ?w) \<le> max_in_flight_chunks"
    using assms(2,5,6) by (simp_all add: start_chunk_upload_def Let_def)
  ultimately show "writer_inv X ?w (concat bs @ vw_buffer w)"
    unfolding writer_inv_def using assms(1,4) by (auto intro!: exI [of _ "bs @ [vw_buffer w]"])
qed (simp_all add: start_chunk_upload_def Let_def same_target_def)

lemma consume_inv:
  "writer_inv X w data \<Longrightarrow> length (vw_in_flight w) < max_in_flight_chunks \<Longrightarrow>
    \<exists>w' n. consume X w b consumed = Some (w', consumed + n) \<and> n \<le> length b \<and> (b \<noteq> [] \<longrightarrow> 0 < n) \<and>
      writer_inv X w' (data @ take n b) \<and> same_target w w' \<and> vw_error w' = vw_error w"
proof (induction X w b consumed arbitrary: data rule: consume.induct)
  case (1 X w b consumed)
  show ?case
  proof (cases "b = []")
    case True
    then show ?thesis using "1.prems" by auto
  next
    case b: False
    obtain bs where bs: "\<forall>b\<in>set bs. length b = chunk_bytes" "data = concat bs @ vw_buffer w"
      "vw_entries w = map (hash_entry X) bs" "\<forall>j\<in>set (vw_in_flight w). job_ok X w bs j"
      and small: "length (vw_buffer w) < chunk_bytes" and total: "vw_total_len w = length data"
      using "1.prems"(1) by (auto simp: writer_inv_def)
    define n where "n = min (chunk_bytes - length (vw_buffer w)) (length b)"
    define w1 where "w1 = w\<lparr>vw_buffer := vw_buffer w @ take n b, vw_total_len := vw_total_len w + n\<rparr>"
    have n: "0 < n" "n \<le> length b" using b small by (auto simp: n_def)
    have jobs: "\<forall>j\<in>set (vw_in_flight w1). job_ok X w1 bs j" using bs(4) by (simp add: w1_def job_ok_def)
    have w1: "vw_entries w1 = map (hash_entry X) bs" "vw_total_len w1 = length (concat bs @ vw_buffer w1)"
      "length (vw_in_flight w1) < max_in_flight_chunks" "concat bs @ vw_buffer w1 = data @ take n b"
      "same_target w w1" "vw_error w1 = vw_error w"
      using bs total n "1.prems"(2) by (simp_all add: w1_def same_target_def)
    have not_long: "\<not> length (vw_buffer w) > chunk_bytes" using small by simp
    note unfold = consume.simps [of X w b consumed]
    have more: "\<exists>w' m. consume X w2 (drop n b) (consumed + n) = Some (w', consumed + n + m) \<and>
        m \<le> length (drop n b) \<and> writer_inv X w' ((data @ take n b) @ take m (drop n b)) \<and> same_target w2 w' \<and>
        vw_error w' = vw_error w2 \<Longrightarrow> same_target w w2 \<Longrightarrow> vw_error w2 = vw_error w \<Longrightarrow>
        consume X w b consumed = consume X w2 (drop n b) (consumed + n) \<Longrightarrow> ?thesis" for w2
    proof -
      assume "\<exists>w' m. consume X w2 (drop n b) (consumed + n) = Some (w', consumed + n + m) \<and>
        m \<le> length (drop n b) \<and> writer_inv X w' ((data @ take n b) @ take m (drop n b)) \<and> same_target w2 w' \<and>
        vw_error w' = vw_error w2" and st: "same_target w w2" "vw_error w2 = vw_error w"
        and eq: "consume X w b consumed = consume X w2 (drop n b) (consumed + n)"
      then obtain w' m where m: "consume X w2 (drop n b) (consumed + n) = Some (w', consumed + n + m)"
        "m \<le> length (drop n b)" "writer_inv X w' ((data @ take n b) @ take m (drop n b))" "same_target w2 w'"
        "vw_error w' = vw_error w2" by blast
      have "take (n + m) b = take n b @ take m (drop n b)" by (rule take_add)
      then show ?thesis using m st n eq same_target_trans
        by (intro exI [of _ w'] exI [of _ "n + m"]) (auto simp: add.assoc)
    qed
    show ?thesis
    proof (cases "length (vw_buffer w1) = chunk_bytes")
      case True
      let ?w2 = "start_chunk_upload X w1"
      note up = start_upload_inv [OF bs(1) w1(1) jobs True w1(2,3)]
      have inv: "writer_inv X ?w2 (data @ take n b)" using up(1) w1(4) by simp
      have st: "same_target w ?w2" "vw_error ?w2 = vw_error w"
        using same_target_trans [OF w1(5) up(2)] up(3) w1(6) by auto
      show ?thesis
      proof (cases "length (vw_in_flight ?w2) \<ge> max_in_flight_chunks")
        case stop: True
        then have "consume X w b consumed = Some (?w2, consumed + n)"
          using b not_long True unfolding unfold Let_def n_def [symmetric] w1_def [symmetric] by simp
        then show ?thesis using inv st n by auto
      next
        case False
        have "consume X w b consumed = consume X ?w2 (drop n b) (consumed + n)"
          using b not_long True False unfolding unfold Let_def n_def [symmetric] w1_def [symmetric] by simp
        moreover have "\<exists>w' m. consume X ?w2 (drop n b) (consumed + n) = Some (w', consumed + n + m) \<and>
            m \<le> length (drop n b) \<and> (drop n b \<noteq> [] \<longrightarrow> 0 < m) \<and>
            writer_inv X w' ((data @ take n b) @ take m (drop n b)) \<and> same_target ?w2 w' \<and> vw_error w' = vw_error ?w2"
          by (rule "1.IH" (1) [OF b not_long n_def w1_def True refl False inv])
            (use False in simp)
        ultimately show ?thesis using more [OF _ st] by blast
      qed
    next
      case False
      then have small1: "length (vw_buffer w1) < chunk_bytes" using small by (simp add: w1_def n_def)
      have inv: "writer_inv X w1 (data @ take n b)"
        unfolding writer_inv_def using bs(1) w1 jobs small1 by (auto intro!: exI [of _ bs])
      have "consume X w b consumed = consume X w1 (drop n b) (consumed + n)"
        using b not_long False unfolding unfold Let_def n_def [symmetric] w1_def [symmetric] by simp
      moreover have "\<exists>w' m. consume X w1 (drop n b) (consumed + n) = Some (w', consumed + n + m) \<and>
          m \<le> length (drop n b) \<and> (drop n b \<noteq> [] \<longrightarrow> 0 < m) \<and>
          writer_inv X w' ((data @ take n b) @ take m (drop n b)) \<and> same_target w1 w' \<and> vw_error w' = vw_error w1"
        by (rule "1.IH" (2) [OF b not_long n_def w1_def False inv w1(3)])
      ultimately show ?thesis using more [OF _ w1(5,6)] by blast
    qed
  qed
qed

lemma poll_write_inv:
  assumes "writer_inv X w data"
  shows "\<exists>r w' script'. poll_write X script w b = Some (r, w', script') \<and> same_target w w' \<and>
    (case r of
       Ready (Inr n) \<Rightarrow> n \<le> length b \<and> (b \<noteq> [] \<longrightarrow> 0 < n) \<and> writer_inv X w' (data @ take n b) \<and>
         (b \<noteq> [] \<longrightarrow> length data + length b \<le> unat max_logical_bytes)
     | _ \<Rightarrow> writer_inv X w' data)"
proof -
  consider e where "vw_error w = Some e" | "vw_error w = None" "vw_sealed w" | "vw_error w = None" "\<not> vw_sealed w" "b = []"
    | "vw_error w = None" "\<not> vw_sealed w" "b \<noteq> []" "vw_total_len w + length b > unat max_logical_bytes"
    | "vw_error w = None" "\<not> vw_sealed w" "b \<noteq> []" "vw_total_len w + length b \<le> unat max_logical_bytes"
    by (cases "vw_error w"; cases "vw_sealed w"; cases "b = []";
        cases "vw_total_len w + length b \<le> unat max_logical_bytes") (force simp: not_le)+
  then show ?thesis
  proof cases
    case 4
    then show ?thesis using assms writer_inv_error [OF assms]
      by (simp add: poll_write_def Let_def same_target_def)
  next
    case 5
    obtain r w' s' where bp: "backpressure script w = (r, w', s')" by (metis prod_cases3)
    note inv = backpressure_inv [OF bp assms]
    have len: "length data + length b \<le> unat max_logical_bytes" using 5 assms by (simp add: writer_inv_def)
    show ?thesis
    proof (cases "r = Ready (Inr ())")
      case True
      then have ready: "writer_inv X w' data" "length (vw_in_flight w') < max_in_flight_chunks" "same_target w w'"
        using inv by auto
      obtain w2 n where "consume X w' b 0 = Some (w2, n)" "n \<le> length b" "b \<noteq> [] \<longrightarrow> 0 < n"
        "writer_inv X w2 (data @ take n b)" "same_target w' w2"
        using consume_inv [OF ready(1,2), of b 0] by auto
      then show ?thesis using 5 bp True len same_target_trans [OF ready(3)]
        by (auto simp: poll_write_def)
    next
      case False
      then have "poll_write X script w b = Some (case r of Pending \<Rightarrow> Pending | Ready (Inl e) \<Rightarrow> Ready (Inl e), w', s')"
        using 5 bp by (cases r rule: poll.exhaust) (auto simp: poll_write_def split: sum.split)
      then show ?thesis using inv False by (cases r rule: poll.exhaust) (auto split: sum.splits)
    qed
  qed (use assms in \<open>auto simp: poll_write_def\<close>)
qed

text \<open>A client's polls: \<open>written X w data w'\<close> holds when some polls, with any buffers and any
  behaviour of the uploads, lead from \<open>w\<close> to \<open>w'\<close> and accept \<open>data\<close>.\<close>

inductive written :: "ext \<Rightarrow> value_writer \<Rightarrow> bytes \<Rightarrow> value_writer \<Rightarrow> bool" for X w where
  written_nothing: "written X w [] w"
| written_more: "written X w data w1 \<Longrightarrow> poll_write X script w1 b = Some (Ready (Inr n), w2, script') \<Longrightarrow>
    written X w (data @ take n b) w2"
| written_refused: "written X w data w1 \<Longrightarrow> poll_write X script w1 b = Some (r, w2, script') \<Longrightarrow>
    (\<nexists>n. r = Ready (Inr n)) \<Longrightarrow> written X w data w2"

lemma written_inv: "written X w data w' \<Longrightarrow> writer_inv X w [] \<Longrightarrow> writer_inv X w' data \<and> same_target w w'"
proof (induction rule: written.induct)
  case (written_more data w1 script b n w2 script')
  then show ?case using poll_write_inv [of X w1 data script b] same_target_trans by fastforce
next
  case (written_refused data w1 script b r w2 script')
  then have "writer_inv X w2 data \<and> same_target w1 w2"
    using poll_write_inv [of X w1 data script b] by (cases r) (auto split: sum.splits)
  then show ?case using written_refused same_target_trans by blast
qed simp

section \<open>Sealing\<close>

lemma runs_seal:
  assumes "io_runs (seal X commit_id w) tr (Inr p)" "writer_inv X w data"
  shows "p = \<lparr>pv_namespace = vw_namespace w, pv_key = vw_key w, pv_intent = vw_intent w,
    pv_manifest = manifest_of X (vw_incarnation w) (vw_version w) commit_id (word_of_nat (length data))
      (map (hash_entry X) (value_chunks data))\<rparr>"
    "min_chunks \<le> word_of_nat (length (value_chunks data))" "(word_of_nat (length (value_chunks data)) :: u32) \<le> max_chunks"
proof -
  note chunks = writer_inv_chunks [OF assms(2)]
  let ?es = "vw_entries w @ (if vw_buffer w = [] then [] else [hash_entry X (vw_buffer w)])"
  have "p = \<lparr>pv_namespace = vw_namespace w, pv_key = vw_key w, pv_intent = vw_intent w,
      pv_manifest = manifest_of X (vw_incarnation w) (vw_version w) commit_id (word_of_nat (vw_total_len w)) ?es\<rparr> \<and>
    min_chunks \<le> word_of_nat (length ?es) \<and> (word_of_nat (length ?es) :: u32) \<le> max_chunks"
    using assms(1) by (auto simp: seal_def runs_try Let_def add.commute split: option.splits if_splits)
  then show "p = \<lparr>pv_namespace = vw_namespace w, pv_key = vw_key w, pv_intent = vw_intent w,
    pv_manifest = manifest_of X (vw_incarnation w) (vw_version w) commit_id (word_of_nat (length data))
      (map (hash_entry X) (value_chunks data))\<rparr>"
    "min_chunks \<le> word_of_nat (length (value_chunks data))" "(word_of_nat (length (value_chunks data)) :: u32) \<le> max_chunks"
    unfolding chunks by (simp_all only: length_map)
qed

lemma runs_stage_chunks:
  "io_runs (stage_chunks X ns k v i ver commit_id) tr (Inr m) \<Longrightarrow>
    m = manifest_of X i ver commit_id (word_of_nat (length v)) (map (hash_entry X) (value_chunks v))"
  by (auto simp: stage_chunks_def runs_try)

text \<open>The manifest of a streamed value is the one the whole-value path stages for the same bytes.\<close>

lemma streamed_like_whole:
  assumes "written X (new_writer ns k intent i v) data w" "io_runs (seal X commit_id w) tr (Inr p)"
    and "io_runs (stage_chunks X ns k data i v commit_id) tr' (Inr m)"
  shows "pv_manifest p = m" "pv_namespace p = ns" "pv_key p = k" "pv_intent p = intent"
proof -
  have "writer_inv X w data" "same_target (new_writer ns k intent i v) w"
    using written_inv [OF assms(1) new_writer_inv] by auto
  then show "pv_manifest p = m" "pv_namespace p = ns" "pv_key p = k" "pv_intent p = intent"
    using runs_seal(1) [OF assms(2)] runs_stage_chunks [OF assms(3)]
    by (auto simp: same_target_def new_writer_def)
qed

text \<open>Where every upload succeeds, a seal of at least two chunks succeeds.\<close>

lemma runs_put_chunk: "\<exists>tr. io_runs (put_chunk X p k e n b) tr (Inr n)"
proof -
  have "io_runs (put_chunk_loop X p k e n b (Suc m)) [(UploadConditional p b None, REtag (Inr None))] (Inr n)" for m
    by (simp add: upload_conditional_def)
  from this [of 3] have "io_runs (put_chunk X p k e n b) [(UploadConditional p b None, REtag (Inr None))] (Inr n)"
    by (simp add: put_chunk_def)
  then show ?thesis by blast
qed

lemma runs_try_Inr: "io_runs m tr (Inr a) \<Longrightarrow> io_runs (f a) tr' b \<Longrightarrow> io_runs (io_try m f) (tr @ tr') b"
  unfolding runs_try by blast

lemma runs_drain: "\<exists>tr. io_runs (drain_uploads X k js) tr (Inr ())"
proof (induction js)
  case (Cons j js)
  then show ?case using runs_put_chunk by (fastforce simp: runs_try)
qed (auto intro: runs_Ret)

lemma runs_seal_ok:
  assumes "writer_inv X w data" "vw_error w = None"
    "min_chunks \<le> word_of_nat (length (value_chunks data))" "(word_of_nat (length (value_chunks data)) :: u32) \<le> max_chunks"
  shows "\<exists>tr p. io_runs (seal X commit_id w) tr (Inr p)"
proof -
  let ?es = "vw_entries w @ (if vw_buffer w = [] then [] else [hash_entry X (vw_buffer w)])"
  have len: "length ?es = length (value_chunks data)" using writer_inv_chunks(1) [OF assms(1)] by simp
  obtain tr1 where d: "io_runs (drain_uploads X (vw_key w) (vw_in_flight w)) tr1 (Inr ())" using runs_drain by blast
  have "\<exists>tr2. io_runs (if vw_buffer w = [] then Ret (Inr (vw_entries w))
       else let e = hash_entry X (vw_buffer w);
                path = chunk_path X (vw_namespace w) (vw_key w) (vw_incarnation w) (vw_version w) e in
         io_try (put_chunk X path (vw_key w) e (word_of_nat (length (vw_entries w))) (vw_buffer w)) (\<lambda>_.
           Ret (Inr (vw_entries w @ [e])))) tr2 (Inr ?es)"
  proof (cases "vw_buffer w = []")
    case False
    obtain tr where "io_runs (put_chunk X (chunk_path X (vw_namespace w) (vw_key w) (vw_incarnation w) (vw_version w)
        (hash_entry X (vw_buffer w))) (vw_key w) (hash_entry X (vw_buffer w)) (word_of_nat (length (vw_entries w))) (vw_buffer w)) tr
        (Inr (word_of_nat (length (vw_entries w))))" using runs_put_chunk by blast
    from runs_try_Inr [OF this runs_Ret, of "\<lambda>_. Inr (vw_entries w @ [hash_entry X (vw_buffer w)])"]
    show ?thesis using False by (simp add: Let_def) blast
  qed auto
  then obtain tr2 where l: "io_runs (if vw_buffer w = [] then Ret (Inr (vw_entries w))
       else let e = hash_entry X (vw_buffer w);
                path = chunk_path X (vw_namespace w) (vw_key w) (vw_incarnation w) (vw_version w) e in
         io_try (put_chunk X path (vw_key w) e (word_of_nat (length (vw_entries w))) (vw_buffer w)) (\<lambda>_.
           Ret (Inr (vw_entries w @ [e])))) tr2 (Inr ?es)" by blast
  let ?finish = "\<lambda>es. let count = (word_of_nat (length es) :: u32) in
     if \<not> (min_chunks \<le> count \<and> count \<le> max_chunks) then Ret (Inl (KsChunkCountInvalid (vw_key w) count))
     else Ret (Inr \<lparr>pv_namespace = vw_namespace w, pv_key = vw_key w, pv_intent = vw_intent w,
       pv_manifest = manifest_of X (vw_incarnation w) (vw_version w) commit_id (word_of_nat (vw_total_len w)) es\<rparr>)"
  obtain p where "io_runs (?finish ?es) [] (Inr p)" using assms(3,4) unfolding len by simp
  then have "io_runs (io_try (if vw_buffer w = [] then Ret (Inr (vw_entries w))
       else let e = hash_entry X (vw_buffer w);
                path = chunk_path X (vw_namespace w) (vw_key w) (vw_incarnation w) (vw_version w) e in
         io_try (put_chunk X path (vw_key w) e (word_of_nat (length (vw_entries w))) (vw_buffer w)) (\<lambda>_.
           Ret (Inr (vw_entries w @ [e])))) ?finish) (tr2 @ []) (Inr p)"
    by (rule runs_try_Inr [OF l])
  then have "io_runs (seal X commit_id w) (tr1 @ tr2 @ []) (Inr p)"
    unfolding seal_def assms(2) option.case by (rule runs_try_Inr [OF d])
  then show ?thesis by blast
qed

lemma runs_stage_ok: "\<exists>tr m. io_runs (stage_chunks X ns k v i ver commit_id) tr (Inr m)"
proof -
  have "\<exists>tr. io_runs (stage_from X ns k i ver n bs) tr (Inr ())" for n bs
  proof (induction bs arbitrary: n)
    case (Cons b bs)
    then show ?case using runs_put_chunk by (fastforce simp: runs_try Let_def)
  qed (auto intro: runs_Ret)
  then show ?thesis by (fastforce simp: stage_chunks_def runs_try)
qed

end
