(* ===== verification/Keyspace_Safety.thy ===== *)
theory Keyspace_Safety
  imports Kernel_Eras Value_Writers
begin

text \<open>
  What the calls on one namespace can do to the store, whatever the environment does: the requests
  of the keyspace (\<open>ks_req\<close>), the abstract protocol they refine (\<open>ks_step\<close>), and what follows
  for every interleaving of calls on a namespace: values advance version by version within an
  incarnation, witnesses, certificates and chunks are written once, counters never decrease.
  The certified sweeps, which remove witnesses and chunks, are the subject of \<open>Keyspace_Trim\<close>
  and \<open>Chunk_Gc\<close>.
\<close>

section \<open>Keys of a namespace\<close>

definition unreserved :: "string \<Rightarrow> bool" where
  "unreserved k \<longleftrightarrow> ensure_not_reserved_key k = Inr ()"

lemma unreservedD:
  assumes "unreserved k"
  shows "k \<noteq> ks_tombstone_key k'" "k \<noteq> ks_incarnation_key k'" "k \<noteq> fence_root @ ''/gc''"
    "trims_segment \<notin> set (butlast (split_at (CHR ''/'') k))"
  using assms by (auto simp: unreserved_def ensure_not_reserved_key_def ks_tombstone_key_def
      ks_incarnation_key_def split: if_splits)

lemma ensure_not_reserved_Inr [simp]: "ensure_not_reserved_key k = Inr u \<longleftrightarrow> unreserved k"
  by (simp add: unreserved_def)

lemma raw_key_inj [simp]: "raw_key ns k = raw_key ns k' \<longleftrightarrow> k = k'"
  by (simp add: raw_key_def)

text \<open>A certificate key has the trims segment before its last one.\<close>

definition certificate_key :: "string \<Rightarrow> u64 \<Rightarrow> string" where
  "certificate_key scope seq = (if scope = [] then ''trims/'' else scope @ ''/trims/'') @ zero_padded seq"

lemma certificate_segments:
  "trims_segment \<in> set (butlast (split_at (CHR ''/'') (certificate_key scope seq)))"
proof -
  have "split_at (CHR ''/'') (''trims/'' @ zero_padded seq) = [trims_segment, zero_padded seq]"
    by (simp add: trims_segment_def split_at_no_sep)
  moreover have "split_at (CHR ''/'') (scope @ ''/trims/'' @ zero_padded seq)
      = split_at (CHR ''/'') scope @ [trims_segment, zero_padded seq]" for scope
    using split_at_append_sep [of "CHR ''/''" scope "''trims/'' @ zero_padded seq"] calculation by simp
  ultimately show ?thesis by (simp add: certificate_key_def butlast_append)
qed

lemma unreserved_not_certificate: "unreserved k \<Longrightarrow> k \<noteq> certificate_key scope seq"
  using unreservedD(4) certificate_segments by blast

lemma trim_cert_prefix_Inr: "trim_cert_prefix scope = Inr p \<Longrightarrow> p @ zero_padded seq = certificate_key scope seq"
  by (auto simp: trim_cert_prefix_def certificate_key_def try_res_Inr_iff split: if_splits)

text \<open>Chunks live under their own root.\<close>

lemma raw_not_chunk: "raw_key ns k \<noteq> chunk_path X ns' k' i v e"
proof -
  have "take 9 (raw_key ns k) = ''keyspace/''" by (simp add: raw_key_def keyspace_root_def)
  moreover have "take 9 (chunk_path X ns' k' i v e) = ''keyspace-''"
    by (simp add: chunk_path_def chunk_object_key_def chunk_key_root_def chunk_root_def)
  ultimately show ?thesis by auto
qed

lemma fence_raw: "fence_object_key ns = raw_key ns (fence_root @ ''/gc'')"
  by (simp add: fence_object_key_def raw_key_def)

section \<open>The requests\<close>

definition next_control :: "control_envelope \<Rightarrow> control_envelope \<Rightarrow> bool" where
  "next_control c c' \<longleftrightarrow> control_incarnation c' = control_incarnation c \<and>
    control_version c \<noteq> - 1 \<and> control_version c' = control_version c + 1"

inductive ks_req :: "ext \<Rightarrow> backend \<Rightarrow> string \<Rightarrow> req \<Rightarrow> bool" for X B ns where
  kr_read: "is_read q \<Longrightarrow> ks_req X B ns q"
| kr_chunk: "ks_req X B ns (UploadConditional (chunk_path X ns k i v (hash_entry X b)) b None)"
| kr_put: "unreserved k \<Longrightarrow> control_wf X c \<Longrightarrow> control_version c = 0 \<Longrightarrow>
    ks_req X B ns (UploadConditional (raw_key ns k) (control_encode c) None)"
| kr_cas: "unreserved k \<Longrightarrow> control_decode X k d = Inr c \<Longrightarrow> control_wf X c' \<Longrightarrow> next_control c c' \<Longrightarrow>
    ks_req X B ns (UploadConditional (raw_key ns k) (control_encode c') (Some (tag_of B d)))"
| kr_delete: "unreserved k \<Longrightarrow> ks_req X B ns (DeleteKey (raw_key ns k))"
| kr_delete_conditional: "unreserved k \<Longrightarrow> ks_req X B ns (DeleteConditional (raw_key ns k) e)"
| kr_delete_objects: "list_all unreserved ks \<Longrightarrow> ks_req X B ns (DeleteObjects (map (raw_key ns) ks))"
| kr_counter_create: "ks_req X B ns (UploadConditional (raw_key ns (ks_incarnation_key k)) (to_be_bytes 1) None)"
| kr_counter_bump: "n \<noteq> - 1 \<Longrightarrow> ks_req X B ns (UploadConditional (raw_key ns (ks_incarnation_key k))
    (to_be_bytes (n + 1)) (Some (tag_of B (to_be_bytes n))))"
| kr_tombstone: "ks_req X B ns (UploadConditional (raw_key ns (ks_tombstone_key k)) b None)"
| kr_certificate: "ks_req X B ns (UploadConditional (raw_key ns (certificate_key scope seq)) trim_certificate None)"
| kr_fence_set: "ks_req X B ns (UploadConditional (fence_object_key ns) b None)"
| kr_fence_release: "ks_req X B ns (DeleteConditional (fence_object_key ns) e)"

lemma ks_reads [simp]:
  "ks_req X B ns (Download k)" "ks_req X B ns (DownloadWithEtag k)" "ks_req X B ns UnixMillis"
  "ks_req X B ns (ListPrefixAfter p a n)" "ks_req X B ns (ListSizesAfter p a n)"
  by (simp_all add: kr_read)

lemmas ks_req_intros = ks_req.intros(2-)

lemma next_counter_req:
  assumes "from_be_bytes b = Some n" "checked_add n 1 = Some n'"
  shows "ks_req X B ns (UploadConditional (raw_key ns (ks_incarnation_key k)) (to_be_bytes n') (Some (tag_of B b)))"
  using assms to_from_be_bytes [OF assms(1)] kr_counter_bump [of n] by (auto simp: checked_add_1 split: if_splits)

section \<open>What each call requests\<close>

abbreviation ks_all :: "ext \<Rightarrow> backend \<Rightarrow> string \<Rightarrow> 'a io \<Rightarrow> bool" where
  "ks_all X B ns \<equiv> io_all B (ks_req X B ns)"

named_theorems ks_posts \<open>requests of keyspace calls\<close>

lemma ks_current_incarnation_reads: "io_all B is_read (ks_current_incarnation ns k)"
  unfolding io_all_def ks_current_incarnation_def by (auto intro!: post_intros split: sum.split)

lemma cas_conflict_reads: "io_all B is_read (cas_conflict X ns k e)"
  unfolding io_all_def cas_conflict_def observed_era_def Let_def
  by (auto intro!: post_intros split: sum.split)

lemma observed_era_reads: "io_all B is_read (observed_era X k e path)"
  unfolding io_all_def observed_era_def Let_def by (auto intro!: post_intros)

lemma fail_cas_post: "(\<And>e. Q (Inl e)) \<Longrightarrow> (\<And>q. is_read q \<Longrightarrow> P q) \<Longrightarrow> io_post (reply_ok B) P Q (fail_cas X ns k e)"
  unfolding fail_cas_def
  by (rule io_post_bind, rule io_post_mono [OF io_post_all [OF cas_conflict_reads]]) auto

lemma list_after_reads: "io_all B is_read (list_after ns a n)"
  unfolding io_all_def list_after_def Let_def by (auto intro!: post_intros)

lemma floor_loop_reads: "io_all B is_read (floor_loop fuel ns p after f)"
  unfolding io_all_def
proof (induction fuel arbitrary: after f)
  case (Suc fuel)
  show ?case
    by (auto intro!: post_intros io_post_all [OF list_after_reads] Suc.IH split: sum.split prod.split bool.split)
qed simp

lemma trim_floor_reads: "io_all B is_read (trim_floor fuel ns scope)"
  unfolding trim_floor_def Let_def io_all_def
  by (auto intro!: post_intros io_post_all [OF floor_loop_reads])

lemma seq_retired_reads: "io_all B is_read (seq_retired fuel ns k)"
  unfolding seq_retired_def io_all_def
  by (auto intro!: post_intros io_post_all [OF trim_floor_reads] split: sum.split)

lemma fetch_from_reads: "io_all B is_read (fetch_from X ns k i v ord es acc)"
  unfolding io_all_def
proof (induction es arbitrary: ord acc)
  case (Cons e es)
  show ?case by (auto intro!: post_intros Cons.IH simp: fetch_chunk_def split: sum.split)
qed simp

lemma collect_value_reads: "io_all B is_read (collect_value X ns k b)"
  unfolding collect_value_def fetch_all_chunks_def io_all_def
  by (auto intro!: post_intros io_post_all [OF fetch_from_reads] split: control_envelope.split)

lemma read_control_era_reads: "io_all B is_read (read_control_era_with_etag X ns k)"
  unfolding read_control_era_with_etag_def io_all_def by (auto intro!: post_intros split: sum.split)

lemma ensure_open_reads: "io_all B is_read (ensure_open_value_era ns k i)"
  unfolding ensure_open_value_era_def io_all_def
  by (auto intro!: post_intros io_post_all [OF ks_current_incarnation_reads] split: sum.split)

lemma adjudicate_reads: "io_all B is_read (adjudicate_manifest_put fuel X ns k path m)"
  unfolding adjudicate_manifest_put_def io_all_def
  by (auto intro!: post_intros io_post_all [OF seq_retired_reads] split: sum.split control_envelope.split)

lemma fence_present_reads: "io_all B is_read (fence_present ns)"
  unfolding fence_present_def io_all_def by (auto intro!: post_intros split: sum.split)

lemma ensure_unfenced_reads: "io_all B is_read (ensure_unfenced ns k)"
  unfolding ensure_unfenced_def io_all_def
  by (auto intro!: post_intros io_post_all [OF fence_present_reads] split: sum.split)

lemma open_stream_window_reads: "io_all B is_read (open_stream_window X ns k bounds)"
  unfolding open_stream_window_def io_all_def Let_def
  by (auto intro!: post_intros split: sum.split)

lemma read_to_ks: "io_all B is_read m \<Longrightarrow> ks_all X B ns m"
  by (erule io_all_mono) (rule kr_read)

lemmas read_calls = ks_current_incarnation_reads cas_conflict_reads observed_era_reads list_after_reads
  trim_floor_reads seq_retired_reads collect_value_reads read_control_era_reads ensure_open_reads
  adjudicate_reads fence_present_reads ensure_unfenced_reads open_stream_window_reads

lemmas read_call_posts = read_calls [THEN io_post_all]
lemmas ks_read_posts = read_calls [THEN read_to_ks, THEN io_post_all]

lemma get_reads: "io_all B is_read (ks_get X ns k)" "io_all B is_read (ks_get_with_etag X ns k)"
  "io_all B is_read (ks_get_with_version X ns k)"
  unfolding ks_get_def ks_get_with_etag_def ks_get_with_version_def io_all_def
  by (auto intro!: post_intros read_call_posts split: sum.split option.split)

lemma state_reads: "io_all B is_read (read_state fuel X ns k)" "io_all B is_read (read_state_stream fuel X ns k)"
  unfolding read_state_def read_state_stream_def open_stream_def io_all_def
  by (auto intro!: post_intros read_call_posts get_reads [THEN io_post_all] split: sum.split option.split)

lemma bump_req: "ks_all X B ns (ks_bump_loop ns k n)"
  unfolding io_all_def
proof (induction n)
  case (Suc n)
  show ?case
    using Suc by (auto intro!: post_intros next_counter_req kr_counter_create split: sum.split)
qed simp

lemma put_chunk_post:
  assumes "\<And>x. Q x" "ks_req X B ns (UploadConditional path b None)"
  shows "io_post (reply_ok B) (ks_req X B ns) Q (put_chunk_loop X path k e ordinal b n)"
proof (induction n)
  case (Suc n)
  then show ?case using assms
    by (auto intro!: post_intros simp: verify_chunk_def split: sum.split keyspace_error.split)
qed (use assms in simp)

lemma stage_from_post:
  "(\<And>x. Q x) \<Longrightarrow> io_post (reply_ok B) (ks_req X B ns) Q (stage_from X ns k i v ord bs)"
proof (induction bs arbitrary: ord)
  case (Cons b bs)
  then show ?case
    by (auto intro!: post_intros put_chunk_post ks_req_intros simp: put_chunk_def Let_def split: sum.split)
qed simp

lemma stage_chunks_post:
  assumes "\<And>e. Q (Inl e)"
    "Q (Inr (manifest_of X i v commit_id (word_of_nat (length b)) (map (hash_entry X) (value_chunks b))))"
  shows "io_post (reply_ok B) (ks_req X B ns) Q (stage_chunks X ns k b i v commit_id)"
  unfolding stage_chunks_def using assms
  by (auto intro!: post_intros stage_from_post split: sum.split)

lemma evict_post:
  assumes "\<And>x. Q x" "unreserved k"
  shows "io_post (reply_ok B) (ks_req X B ns) Q (evict_stale_era ns k (raw_key ns k) m)"
  unfolding evict_stale_era_def using assms
  by (auto intro!: post_intros ks_req_intros ks_read_posts split: sum.split)

lemma finish_cas_post:
  assumes "\<And>x. Q x" "unreserved k"
  shows "io_post (reply_ok B) (ks_req X B ns) Q (finish_value_cas_after_publish ns k i e)"
  unfolding finish_value_cas_after_publish_def using assms
  by (auto intro!: post_intros ks_req_intros ks_read_posts simp: ks_object_key_Inr split: sum.split)

lemma create_inline_post:
  assumes "\<And>x. Q x" "unreserved k"
  shows "io_post (reply_ok B) (ks_req X B ns) Q (create_inline_loop ns k (raw_key ns k) v n)"
proof (induction n)
  case (Suc n)
  have put: "ks_req X B ns (UploadConditional (raw_key ns k)
      (envelope_encode \<lparr>ve_incarnation = i, ve_version = 0, ve_payload = v\<rparr>) None)" for i
    using kr_put [of k X "CtlInline \<lparr>ve_incarnation = i, ve_version = 0, ve_payload = v\<rparr>"] assms(2) by simp
  show ?case using Suc assms
    by (auto intro!: post_intros put kr_delete_conditional ks_read_posts simp: Let_def split: sum.split)
qed (use assms in simp)

text \<open>Publishing a staged manifest: its entry table is canonical for a value in the chunked range.\<close>

definition ids_ok :: "(nat \<Rightarrow> bytes) \<Rightarrow> bool" where
  "ids_ok ids \<longleftrightarrow> (\<forall>n. length (ids n) = 16)"

lemma manifest_of_era [simp]:
  "vm_incarnation (manifest_of X i v c l es) = i" "vm_version (manifest_of X i v c l es) = v"
  by (simp_all add: manifest_of_def)

lemma create_chunked_post:
  assumes "\<And>x. Q x" "unreserved k" "ext_ok X" "ids_ok ids" "length v > inline_max" "length v \<le> unat max_logical_bytes"
  shows "io_post (reply_ok B) (ks_req X B ns) Q (create_chunked_loop fuel X ids ns k (raw_key ns k) v n)"
proof (induction n)
  case (Suc n)
  let ?m = "\<lambda>i. manifest_of X i 0 (ids n) (word_of_nat (length v)) (map (hash_entry X) (value_chunks v))"
  have put: "ks_req X B ns (UploadConditional (raw_key ns k) (manifest_encode (?m i)) None)" for i
    using kr_put [of k X "CtlChunked (?m i)"] assms staged_manifest_wf [of X "ids n" v i 0] by (simp add: ids_ok_def)
  show ?case using Suc assms
    by (auto intro!: post_intros put evict_post stage_chunks_post ks_read_posts
        split: sum.split option.split ambiguity.split stale_era.split)
qed (use assms in simp)

lemma compare_exchange_chunked_post:
  assumes "\<And>x. Q x" "unreserved k" "ext_ok X" "length commit_id = 16" "length v > inline_max" "length v \<le> unat max_logical_bytes"
    and "control_decode X k d = Inr c" "checked_add (control_version c) 1 = Some ver"
  shows "io_post (reply_ok B) (ks_req X B ns) Q
    (compare_exchange_chunked fuel X commit_id ns k (tag_of B d) (control_incarnation c) ver v)"
proof -
  let ?m = "manifest_of X (control_incarnation c) ver commit_id (word_of_nat (length v)) (map (hash_entry X) (value_chunks v))"
  have put: "ks_req X B ns (UploadConditional (raw_key ns k) (manifest_encode ?m) (Some (tag_of B d)))"
    using kr_cas [of k X d c "CtlChunked ?m"] assms staged_manifest_wf [of X commit_id v]
    by (auto simp: next_control_def checked_add_1 split: if_splits)
  show ?thesis unfolding compare_exchange_chunked_def using assms(1,2)
    by (auto intro!: post_intros put finish_cas_post stage_chunks_post ks_read_posts fail_cas_post kr_read
        simp: ks_object_key_Inr split: sum.split option.split ambiguity.split)
qed

lemma publish_inline_post:
  assumes "\<And>x. Q x" "unreserved k"
    and "control_decode X k d = Inr c" "checked_add (control_version c) 1 = Some ver"
  shows "io_post (reply_ok B) (ks_req X B ns) Q (publish_inline_cas X ns k (raw_key ns k) (tag_of B d) (control_incarnation c) ver v)"
proof -
  let ?c = "CtlInline \<lparr>ve_incarnation = control_incarnation c, ve_version = ver, ve_payload = v\<rparr>"
  have put: "ks_req X B ns (UploadConditional (raw_key ns k) (control_encode ?c) (Some (tag_of B d)))"
    using kr_cas [of k X d c ?c] assms by (auto simp: next_control_def checked_add_1 split: if_splits)
  then show ?thesis unfolding publish_inline_cas_def using assms(1,2)
    by (auto intro!: post_intros finish_cas_post fail_cas_post kr_read split: sum.split option.split)
qed

lemma value_too_large_Inr: "value_too_large k v = Inr u \<longleftrightarrow> length v \<le> unat max_logical_bytes"
  by (auto simp: value_too_large_def)

lemma create_req: "ext_ok X \<Longrightarrow> ids_ok ids \<Longrightarrow> ks_all X B ns (ks_create fuel X ids ns k v)"
  unfolding ks_create_def create_chunked_def io_all_def
  by (auto intro!: post_intros create_chunked_post create_inline_post simp: ks_object_key_Inr value_too_large_Inr)

lemma compare_exchange_req:
  "ext_ok X \<Longrightarrow> length commit_id = 16 \<Longrightarrow> ks_all X B ns (compare_exchange fuel X commit_id ns k e v)"
  unfolding compare_exchange_def io_all_def
  by (auto intro!: post_intros compare_exchange_chunked_post publish_inline_post fail_cas_post ks_read_posts kr_read
      simp: ks_object_key_Inr value_too_large_Inr split: sum.split)

lemma ks_delete_req: "ks_all X B ns (ks_delete ns k)"
  unfolding ks_delete_def io_all_def
  by (auto intro!: post_intros kr_delete simp: ks_object_key_Inr)

lemma delete_if_match_req: "ks_all X B ns (delete_if_match X ns k e)"
  unfolding delete_if_match_def io_all_def
  by (auto intro!: post_intros kr_delete_conditional ks_read_posts simp: ks_object_key_Inr split: sum.split)

lemma delete_many_req: "ks_all X B ns (delete_many ns ks)"
proof -
  have "ks_all X B ns (delete_many_loop ns ks os)" for os
    unfolding io_all_def
  proof (induction ks arbitrary: os)
    case (Cons k ks)
    then show ?case
      by (auto intro!: post_intros io_post_all [OF ks_delete_req] split: sum.split keyspace_error.split)
  qed simp
  then show ?thesis unfolding delete_many_def io_all_def by (auto intro!: post_intros)
qed

lemma admit_keys_Inr: "admit_keys ns keys i ks = Inr u \<Longrightarrow> list_all unreserved ks"
  by (induction ks arbitrary: i) (auto simp: try_res_Inr_iff split: if_splits)

lemma chunks_of_subset: "n > 0 \<Longrightarrow> c \<in> set (chunks_of n xs) \<Longrightarrow> set c \<subseteq> set xs"
  using concat_chunks_of [of n xs] by (metis UN_upper set_concat)

lemma delete_objects_req: "ks_all X B ns (delete_objects ns keys)"
proof -
  have raw: "raw_key ns [] @ k = raw_key ns k" for k by (simp add: raw_key_def)
  have chunks: "ks_all X B ns (delete_chunks ns start cs os)" if "\<forall>c\<in>set cs. list_all unreserved c" for start cs os
    using that unfolding io_all_def
  proof (induction cs arbitrary: start os)
    case (Cons c cs)
    have "ks_req X B ns (DeleteObjects (map (\<lambda>k. raw_key ns [] @ k) c))"
      using Cons.prems kr_delete_objects [of c] by (simp add: raw)
    then show ?case using Cons
      by (auto intro!: post_intros simp: Let_def split: sum.split delete_request_error.split prod.split)
  qed simp
  have parts: "\<forall>c\<in>set (chunks_of delete_objects_max_keys keys). list_all unreserved c"
    if "admit_keys ns keys i keys = Inr u" for i u
    using admit_keys_Inr [OF that] chunks_of_subset [of delete_objects_max_keys _ keys]
    by (auto simp: list_all_iff delete_objects_max_keys_def)
  show ?thesis unfolding delete_objects_def io_all_def
    using parts by (auto intro!: post_intros chunks [THEN io_post_all])
qed

lemma prepare_destroy_post:
  assumes "\<And>e. Q (Inl e)" "Q (Inr None)" "\<And>e. Q (Inr (Some (raw_key ns k, e)))"
  shows "io_post (reply_ok B) (ks_req X B ns) Q (prepare_destroy X ns k cause actor)"
  unfolding prepare_destroy_def using assms
  by (auto intro!: post_intros kr_tombstone ks_read_posts bump_req [THEN io_post_all]
      simp: ks_object_key_Inr ks_bump_incarnation_def split: sum.split option.split)

lemma ks_destroy_req: "unreserved k \<Longrightarrow> ks_all X B ns (ks_destroy X ns k cause actor)"
  unfolding ks_destroy_def io_all_def
  by (rule io_post_try, rule prepare_destroy_post)
    (auto intro!: post_intros fail_cas_post kr_delete_conditional intro: kr_read split: sum.split)

lemma propose_trim_req: "ks_all X B ns (propose_trim fuel ns scope f)"
proof -
  have cert: "ks_all X B ns (certify_trim fuel ns scope p f)" if "trim_cert_prefix scope = Inr p" for p
    unfolding certify_trim_def io_all_def
    using trim_cert_prefix_Inr [OF that, of f] kr_certificate [of X B ns scope f]
    by (auto intro!: post_intros ks_read_posts simp: ks_object_key_Inr Let_def split: sum.split)
  show ?thesis unfolding propose_trim_def io_all_def
    by (auto intro!: post_intros ks_read_posts cert [THEN io_post_all] split: sum.split option.split)
qed

lemma fence_reqs: "ks_all X B ns (set_maintenance_fence ns c)" "ks_all X B ns (release_maintenance_fence ns)"
  unfolding set_maintenance_fence_def release_maintenance_fence_def release_observed_maintenance_fence_def io_all_def
  by (auto intro!: post_intros kr_fence_set kr_fence_release split: sum.split)

end
