(* ===== verification/Keyspace_Protocol.thy ===== *)
theory Keyspace_Protocol
  imports Keyspace_Safety
begin

text \<open>
  Interleaved calls on a namespace refine an abstract protocol.  \<open>ks_call\<close> lists the calls of
  \<open>AtomicKeyspace\<close> that work by single keys, with arbitrary arguments; \<open>ks_step\<close> is the protocol;
  write-once objects and the era counters of the protocol's runs.
\<close>

section \<open>Streamed calls\<close>

definition writer_ok :: "ext \<Rightarrow> string \<Rightarrow> value_writer \<Rightarrow> bool" where
  "writer_ok X ns w \<longleftrightarrow> vw_namespace w = ns \<and> (\<exists>data. writer_inv X w data)"

text \<open>What a sealed writer of the namespace carries (\<open>streamed_like_whole\<close>); a replacement carries
  the entity tag of the control that its begin read.\<close>

definition pending_ok :: "ext \<Rightarrow> backend \<Rightarrow> string \<Rightarrow> pending_value \<Rightarrow> bool" where
  "pending_ok X B ns p \<longleftrightarrow> pv_namespace p = ns \<and> unreserved (pv_key p) \<and> manifest_wf X (pv_manifest p) \<and>
    (case pv_intent p of
       IntentCreate \<Rightarrow> vm_version (pv_manifest p) = 0
     | IntentCompareExchange e \<Rightarrow> \<exists>d c. e = tag_of B d \<and> control_decode X (pv_key p) d = Inr c \<and>
         next_control c (CtlChunked (pv_manifest p)))"

lemma put_chunk_req: "ks_all X B ns (put_chunk X (chunk_path X ns k i v (hash_entry X b)) k (hash_entry X b) n b)"
  unfolding put_chunk_def io_all_def by (rule put_chunk_post) (simp_all add: kr_chunk)

lemma drain_req:
  assumes "\<forall>j\<in>set js. \<exists>i v. uj_path j = chunk_path X ns k i v (hash_entry X (uj_bytes j)) \<and> uj_entry j = hash_entry X (uj_bytes j)"
  shows "ks_all X B ns (drain_uploads X k js)"
  using assms unfolding io_all_def
proof (induction js)
  case (Cons j js)
  then obtain i v where j: "uj_path j = chunk_path X ns k i v (hash_entry X (uj_bytes j))" "uj_entry j = hash_entry X (uj_bytes j)"
    by auto
  have "io_post (reply_ok B) (ks_req X B ns) (\<lambda>_. True) (drain_uploads X k js)"
    using Cons.IH Cons.prems by auto
  then show ?case
    by (auto intro!: post_intros put_chunk_post simp: put_chunk_def j kr_chunk split: sum.split)
qed simp

lemma seal_req:
  assumes "writer_ok X ns w"
  shows "ks_all X B ns (seal X commit_id w)"
proof -
  have "\<forall>j\<in>set (vw_in_flight w). \<exists>i v. uj_path j = chunk_path X ns (vw_key w) i v (hash_entry X (uj_bytes j)) \<and>
      uj_entry j = hash_entry X (uj_bytes j)"
    using assms by (fastforce simp: writer_ok_def writer_inv_def job_ok_def)
  moreover have "vw_namespace w = ns" using assms by (simp add: writer_ok_def)
  ultimately show ?thesis unfolding seal_def Let_def io_all_def
    by (auto intro!: post_intros drain_req [THEN io_post_all] put_chunk_req [THEN io_post_all]
        split: option.split sum.split)
qed

lemma finish_create_post:
  assumes "pending_ok X B ns p" "\<And>x. Q x"
  shows "io_post (reply_ok B) (ks_req X B ns) Q (finish_create_after_publish p (raw_key ns (pv_key p)) e)"
  unfolding finish_create_after_publish_def using assms
  by (auto intro!: post_intros ks_read_posts kr_delete_conditional simp: pending_ok_def split: sum.split)

lemma commit_req:
  assumes "pending_ok X B ns p"
  shows "ks_all X B ns (commit fuel X p)"
proof (cases "pv_intent p")
  case IntentCreate
  have "ks_req X B ns (UploadConditional (raw_key ns (pv_key p)) (manifest_encode (pv_manifest p)) None)"
    using kr_put [of "pv_key p" X "CtlChunked (pv_manifest p)"] assms IntentCreate by (simp add: pending_ok_def)
  then show ?thesis using assms IntentCreate
    unfolding commit_def commit_create_def Let_def io_all_def
    by (auto intro!: post_intros finish_create_post ks_read_posts simp: pending_ok_def
        split: sum.split option.split ambiguity.split)
next
  case (IntentCompareExchange e)
  have ns: "pv_namespace p = ns" "unreserved (pv_key p)" using assms by (auto simp: pending_ok_def)
  have "ks_req X B ns (UploadConditional (raw_key ns (pv_key p)) (manifest_encode (pv_manifest p)) (Some e))"
    using kr_cas [of "pv_key p" X _ _ "CtlChunked (pv_manifest p)"] assms IntentCompareExchange
    by (auto simp: pending_ok_def)
  then show ?thesis using ns IntentCompareExchange
    unfolding commit_def commit_compare_exchange_def Let_def io_all_def
    by (auto intro!: post_intros finish_cas_post fail_cas_post [OF _ kr_read] ks_read_posts
        split: sum.split option.split ambiguity.split)
qed

section \<open>Calls\<close>

datatype ks_call =
    KsCreate string bytes
  | KsCompareExchange string etag bytes
  | KsGet string
  | KsGetWithEtag string
  | KsGetWithVersion string
  | KsReadState string
  | KsDelete string
  | KsDeleteIfMatch string etag
  | KsDeleteMany "string list"
  | KsDeleteObjects "string list"
  | KsDestroy string string string
  | KsBumpIncarnation string
  | KsTrimFloor string
  | KsProposeTrim string u64
  | KsUploadChunk string u64 u64 u32 bytes
  | KsSeal value_writer
  | KsCommit pending_value
  | KsOpenStream string "(u64 \<times> u64) option"
  | KsReadStateStream string
  | KsSetFence
  | KsReleaseFence

text \<open>A call runs with its fuel for floor walks and its drawn commit identifiers.\<close>

type_synonym ks_client = "string \<times> nat \<times> (nat \<Rightarrow> bytes) \<times> ks_call"

fun ks_serve :: "ext \<Rightarrow> ks_client \<Rightarrow> unit io" where
  "ks_serve X (ns, fuel, ids, KsCreate k v) = io_map (\<lambda>_. ()) (ks_create fuel X ids ns k v)"
| "ks_serve X (ns, fuel, ids, KsCompareExchange k e v) = io_map (\<lambda>_. ()) (compare_exchange fuel X (ids 0) ns k e v)"
| "ks_serve X (ns, fuel, ids, KsGet k) = io_map (\<lambda>_. ()) (ks_get X ns k)"
| "ks_serve X (ns, fuel, ids, KsGetWithEtag k) = io_map (\<lambda>_. ()) (ks_get_with_etag X ns k)"
| "ks_serve X (ns, fuel, ids, KsGetWithVersion k) = io_map (\<lambda>_. ()) (ks_get_with_version X ns k)"
| "ks_serve X (ns, fuel, ids, KsReadState k) = io_map (\<lambda>_. ()) (read_state fuel X ns k)"
| "ks_serve X (ns, fuel, ids, KsDelete k) = io_map (\<lambda>_. ()) (ks_delete ns k)"
| "ks_serve X (ns, fuel, ids, KsDeleteIfMatch k e) = io_map (\<lambda>_. ()) (delete_if_match X ns k e)"
| "ks_serve X (ns, fuel, ids, KsDeleteMany ks) = io_map (\<lambda>_. ()) (delete_many ns ks)"
| "ks_serve X (ns, fuel, ids, KsDeleteObjects ks) = io_map (\<lambda>_. ()) (delete_objects ns ks)"
| "ks_serve X (ns, fuel, ids, KsDestroy k cause actor) = io_map (\<lambda>_. ()) (ks_destroy X ns k cause actor)"
| "ks_serve X (ns, fuel, ids, KsBumpIncarnation k) = io_map (\<lambda>_. ()) (ks_bump_incarnation ns k)"
| "ks_serve X (ns, fuel, ids, KsTrimFloor scope) = io_map (\<lambda>_. ()) (trim_floor fuel ns scope)"
| "ks_serve X (ns, fuel, ids, KsProposeTrim scope f) = io_map (\<lambda>_. ()) (propose_trim fuel ns scope f)"
| "ks_serve X (ns, fuel, ids, KsUploadChunk k i v n b) = io_map (\<lambda>_. ())
    (put_chunk X (chunk_path X ns k i v (hash_entry X b)) k (hash_entry X b) n b)"
| "ks_serve X (ns, fuel, ids, KsSeal w) = io_map (\<lambda>_. ()) (seal X (ids 0) w)"
| "ks_serve X (ns, fuel, ids, KsCommit p) = io_map (\<lambda>_. ()) (commit fuel X p)"
| "ks_serve X (ns, fuel, ids, KsOpenStream k bounds) = io_map (\<lambda>_. ()) (open_stream_window X ns k bounds)"
| "ks_serve X (ns, fuel, ids, KsReadStateStream k) = io_map (\<lambda>_. ()) (read_state_stream fuel X ns k)"
| "ks_serve X (ns, fuel, ids, KsSetFence) = io_map (\<lambda>_. ()) (set_maintenance_fence ns (ids 0))"
| "ks_serve X (ns, fuel, ids, KsReleaseFence) = io_map (\<lambda>_. ()) (release_maintenance_fence ns)"

text \<open>What the protocol asks of a call: commit identifiers are sixteen bytes, a destroyed key is
  not a reserved one (\<open>destroy\<close> does not check it), a writer or a sealed value comes from the
  streamed surface.\<close>

fun ks_call_ok :: "ext \<Rightarrow> backend \<Rightarrow> ks_client \<Rightarrow> bool" where
  "ks_call_ok X B (ns, fuel, ids, KsDestroy k cause actor) = unreserved k"
| "ks_call_ok X B (ns, fuel, ids, KsSeal w) = writer_ok X ns w"
| "ks_call_ok X B (ns, fuel, ids, KsCommit p) = pending_ok X B ns p"
| "ks_call_ok X B (ns, fuel, ids, c) = ids_ok ids"

lemma ks_serve_req:
  assumes "ks_call_ok X B c" "ext_ok X" "fst c = ns"
  shows "ks_all X B ns (ks_serve X c)"
  using assms
  by (cases "(X, c)" rule: ks_serve.cases)
    (auto intro!: io_all_map create_req compare_exchange_req ks_delete_req delete_if_match_req delete_many_req
      delete_objects_req ks_destroy_req bump_req propose_trim_req put_chunk_req seal_req commit_req fence_reqs
      read_calls [THEN read_to_ks] get_reads [THEN read_to_ks] state_reads [THEN read_to_ks]
      simp: ids_ok_def ks_bump_incarnation_def)

section \<open>The protocol of a namespace\<close>

text \<open>\<open>chunk_of X ns b\<close>: the keys a chunk with the bytes \<open>b\<close> can have.\<close>

definition is_chunk_key :: "ext \<Rightarrow> string \<Rightarrow> bytes \<Rightarrow> key \<Rightarrow> bool" where
  "is_chunk_key X ns b p \<longleftrightarrow> (\<exists>k i v. p = chunk_path X ns k i v (hash_entry X b))"

definition own_key :: "ext \<Rightarrow> string \<Rightarrow> key \<Rightarrow> bool" where
  "own_key X ns p \<longleftrightarrow> (\<exists>k. p = raw_key ns k) \<or> (\<exists>b. is_chunk_key X ns b p)"

inductive ks_step :: "ext \<Rightarrow> backend \<Rightarrow> string \<Rightarrow> store \<Rightarrow> store \<Rightarrow> bool" for X B ns where
  ks_elsewhere: "(\<And>p. own_key X ns p \<Longrightarrow> st_get s' p = st_get s p) \<Longrightarrow> ks_step X B ns s s'"
| ks_chunk: "st_get s p = None \<Longrightarrow> is_chunk_key X ns b p \<Longrightarrow> ks_step X B ns s (st_put p b s)"
| ks_new: "st_get s (raw_key ns k) = None \<Longrightarrow> unreserved k \<Longrightarrow> control_wf X c \<Longrightarrow> control_version c = 0 \<Longrightarrow>
    ks_step X B ns s (st_put (raw_key ns k) (control_encode c) s)"
| ks_advance: "st_get s (raw_key ns k) = Some b \<Longrightarrow> tag_of B b = tag_of B d \<Longrightarrow> unreserved k \<Longrightarrow>
    control_decode X k d = Inr c \<Longrightarrow> control_wf X c' \<Longrightarrow> next_control c c' \<Longrightarrow>
    ks_step X B ns s (st_put (raw_key ns k) (control_encode c') s)"
| ks_remove: "unreserved k \<Longrightarrow> ks_step X B ns s (st_del (raw_key ns k) s)"
| ks_era_first: "st_get s (raw_key ns (ks_incarnation_key k)) = None \<Longrightarrow>
    ks_step X B ns s (st_put (raw_key ns (ks_incarnation_key k)) (to_be_bytes 1) s)"
| ks_era_next: "st_get s (raw_key ns (ks_incarnation_key k)) = Some b \<Longrightarrow> tag_of B b = tag_of B (to_be_bytes n) \<Longrightarrow>
    n \<noteq> - 1 \<Longrightarrow> ks_step X B ns s (st_put (raw_key ns (ks_incarnation_key k)) (to_be_bytes (n + 1)) s)"
| ks_witness: "st_get s (raw_key ns (ks_tombstone_key k)) = None \<Longrightarrow>
    ks_step X B ns s (st_put (raw_key ns (ks_tombstone_key k)) b s)"
| ks_certificate: "st_get s (raw_key ns (certificate_key scope seq)) = None \<Longrightarrow>
    ks_step X B ns s (st_put (raw_key ns (certificate_key scope seq)) trim_certificate s)"
| ks_fence: "st_get s (fence_object_key ns) = None \<Longrightarrow> ks_step X B ns s (st_put (fence_object_key ns) b s)"
| ks_unfence: "ks_step X B ns s (st_del (fence_object_key ns) s)"

inductive_cases ks_stepE: "ks_step X B ns s s'"

definition ks_steps :: "ext \<Rightarrow> backend \<Rightarrow> string \<Rightarrow> store \<Rightarrow> store \<Rightarrow> bool" where
  "ks_steps X B ns = (ks_step X B ns)\<^sup>*\<^sup>*"

lemma ks_steps_refl: "ks_steps X B ns s s"
  by (simp add: ks_steps_def)

lemma ks_steps_trans: "ks_steps X B ns s t \<Longrightarrow> ks_steps X B ns t u \<Longrightarrow> ks_steps X B ns s u"
  unfolding ks_steps_def by (rule rtranclp_trans)

lemma ks_steps_one: "ks_step X B ns s s' \<Longrightarrow> ks_steps X B ns s s'"
  by (simp add: ks_steps_def)

lemma ks_stay: "ks_step X B ns s s"
  by (rule ks_elsewhere) simp

text \<open>Namespaces that are not nested have no key in common.\<close>

definition nested :: "string \<Rightarrow> string \<Rightarrow> bool" where
  "nested ns ns' \<longleftrightarrow> prefix (ns @ ''/'') (ns' @ ''/'') \<or> prefix (ns' @ ''/'') (ns @ ''/'')"

lemma own_key_nested:
  assumes "own_key X ns p" "own_key X ns' p"
  shows "nested ns ns'"
proof -
  have common: "nested ns ns'" if "ns @ CHR ''/'' # k = ns' @ CHR ''/'' # k'" for k k'
    using that prefix_same_cases [of "ns @ ''/''" "ns @ CHR ''/'' # k" "ns' @ ''/''"]
    by (simp add: nested_def) (metis append_Cons append_assoc append_Nil prefixI)
  consider (raw) k k' where "raw_key ns k = raw_key ns' k'"
    | (chunk) b b' k k' i i' v v' where
        "chunk_path X ns k i v (hash_entry X b) = chunk_path X ns' k' i' v' (hash_entry X b')"
    using assms raw_not_chunk unfolding own_key_def is_chunk_key_def by metis
  then show ?thesis
  proof cases
    case raw
    then show ?thesis by (auto simp: raw_key_def intro: common)
  next
    case chunk
    then show ?thesis by (auto simp: chunk_path_def chunk_object_key_def chunk_key_root_def intro: common)
  qed
qed

lemma effect_del_all:
  "effect B (DeleteObjects ks) s s' \<Longrightarrow> \<exists>ks'. set ks' \<subseteq> set ks \<and> s' = st_del_all ks' s"
proof -
  assume "effect B (DeleteObjects ks) s s'"
  moreover have "s = st_del_all [] s" by (simp add: st_del_all_def)
  ultimately show ?thesis unfolding effect_def by (auto intro: exI [of _ "[]"] exI [of _ ks])
qed

lemma removes_steps:
  "set ks' \<subseteq> raw_key ns ` {k. unreserved k} \<Longrightarrow> ks_steps X B ns s (st_del_all ks' s)"
proof (induction ks' arbitrary: s)
  case (Cons k ks')
  then have "ks_steps X B ns s (st_del k s)" using ks_steps_one [OF ks_remove] by auto
  moreover have "ks_steps X B ns (st_del k s) (st_del_all ks' (st_del k s))" using Cons by simp
  moreover have "st_del_all ks' (st_del k s) = st_del_all (k # ks') s"
    by (auto simp: st_del_all_def st_del_def intro: filter_cong)
  ultimately show ?case using ks_steps_trans by metis
qed (simp add: st_del_all_def ks_steps_refl)

lemma ks_req_steps: "ks_req X B ns q \<Longrightarrow> effect B q s s' \<Longrightarrow> ks_steps X B ns s s'"
proof (induction rule: ks_req.induct)
  case (kr_read q)
  then have "s' = s" using read_effect by blast
  then show ?case by (simp add: ks_steps_refl)
next
  case (kr_delete_objects ks)
  then obtain ks' where "set ks' \<subseteq> set (map (raw_key ns) ks)" "s' = st_del_all ks' s"
    using effect_del_all by blast
  moreover have "set (map (raw_key ns) ks) \<subseteq> raw_key ns ` {k. unreserved k}"
    using kr_delete_objects by (auto simp: list_all_iff)
  ultimately show ?case using removes_steps [of ks' ns] by auto
next
  case (kr_chunk k i v b)
  have "is_chunk_key X ns b (chunk_path X ns k i v (hash_entry X b))" by (auto simp: is_chunk_key_def)
  then show ?case using kr_chunk ks_steps_one [OF ks_chunk] ks_steps_refl by (auto dest!: effect_create)
next
  case (kr_delete k)
  then have "s' = s \<or> s' = st_del (raw_key ns k) s" by (auto simp: effect_def)
  then show ?case using ks_steps_one [OF ks_remove [OF kr_delete(1)]] ks_steps_refl by auto
qed (auto dest!: effect_create effect_update effect_delete_conditional
      intro: ks_steps_refl ks_steps_one [OF ks_new] ks_steps_one [OF ks_advance]
        ks_steps_one [OF ks_remove] ks_steps_one [OF ks_era_first] ks_steps_one [OF ks_era_next]
        ks_steps_one [OF ks_witness] ks_steps_one [OF ks_certificate] ks_steps_one [OF ks_fence]
        ks_steps_one [OF ks_unfence])

text \<open>A request of a client of another namespace leaves this namespace alone.\<close>

inductive_cases ks_reqE: "ks_req X B ns q"

lemma ks_req_own: 
  assumes "ks_req X B ns q" "effect B q s s'" "\<not> own_key X ns p"
  shows "st_get s' p = st_get s p"
proof -
  have raw: "own_key X ns (raw_key ns k)" for k by (auto simp: own_key_def)
  have chunk: "own_key X ns (chunk_path X ns k i v (hash_entry X b))" for k i v b
    unfolding own_key_def is_chunk_key_def by blast
  from assms(1) show ?thesis
  proof cases
    case kr_read
    then show ?thesis using read_effect assms(2) by metis
  next
    case (kr_delete_objects ks)
    then obtain ks' where "set ks' \<subseteq> set (map (raw_key ns) ks)" "s' = st_del_all ks' s"
      using effect_del_all assms(2) by blast
    then have "p \<notin> set ks'" "s' = st_del_all ks' s" using assms(3) raw by auto
    then show ?thesis by simp
  next
    case (kr_delete k)
    then have "s' = s \<or> s' = st_del (raw_key ns k) s" using assms(2) by (auto simp: effect_def)
    then show ?thesis using raw assms(3) by auto
  qed (use assms(2,3) raw chunk in \<open>auto dest!: effect_upload effect_delete_conditional simp: fence_raw\<close>)
qed

definition ks_pool_req :: "ext \<Rightarrow> backend \<Rightarrow> string \<Rightarrow> req \<Rightarrow> bool" where
  "ks_pool_req X B ns q \<longleftrightarrow> ks_req X B ns q \<or> (\<exists>ns'. \<not> nested ns ns' \<and> ks_req X B ns' q)"

lemma ks_pool_req_steps:
  assumes "ks_pool_req X B ns q" "effect B q s s'"
  shows "ks_steps X B ns s s'"
  using assms(1) unfolding ks_pool_req_def
proof (elim disjE exE conjE)
  fix ns' assume ns': "\<not> nested ns ns'" "ks_req X B ns' q"
  have "ks_step X B ns s s'"
    by (rule ks_elsewhere, rule ks_req_own [OF ns'(2) assms(2)]) (use own_key_nested ns'(1) in blast)
  then show ?thesis by (rule ks_steps_one)
qed (rule ks_req_steps [OF _ assms(2)])

lemma keyspace_pool_refines:
  assumes "pool_reach B (s, map (ks_serve X) calls) (s', ps')" "ext_ok X"
    and "\<forall>c\<in>set calls. ks_call_ok X B c \<and> (fst c = ns \<or> \<not> nested ns (fst c))"
  shows "ks_steps X B ns s s'"
proof -
  have "io_all B (ks_pool_req X B ns) (ks_serve X c)" if "c \<in> set calls" for c
    by (rule io_all_mono [OF ks_serve_req]) (use assms(2,3) that in \<open>auto simp: ks_pool_req_def\<close>)
  then have ok: "pool_ok B (ks_pool_req X B ns) (map (ks_serve X) calls)" by (auto simp: pool_ok_def)
  have "ks_steps X B ns s s' \<and> pool_ok B (ks_pool_req X B ns) ps'"
    by (rule pool_invariant [OF assms(1) ok, where I = "ks_steps X B ns s"])
      (auto intro: ks_steps_refl ks_steps_trans ks_pool_req_steps)
  then show ?thesis by simp
qed

section \<open>Write-once objects\<close>

text \<open>A certificate of a scope inside the counters' root shares a key with a counter; all others
  are written once.\<close>

definition certified_scope :: "string \<Rightarrow> bool" where
  "certified_scope scope \<longleftrightarrow> takeWhile (\<lambda>c. c \<noteq> CHR ''/'') scope \<noteq> incarnation_root"

definition ks_write_once :: "ext \<Rightarrow> string \<Rightarrow> key \<Rightarrow> bool" where
  "ks_write_once X ns p \<longleftrightarrow> (\<exists>k. p = raw_key ns (ks_tombstone_key k)) \<or>
    (\<exists>scope seq. certified_scope scope \<and> p = raw_key ns (certificate_key scope seq)) \<or> (\<exists>b. is_chunk_key X ns b p)"

lemma takeWhile_sep: "takeWhile (\<lambda>c. c \<noteq> x) (xs @ x # ys) = takeWhile (\<lambda>c. c \<noteq> x) xs"
  by (induction xs) auto

lemma certified_not_counter:
  assumes "certified_scope scope"
  shows "certificate_key scope seq \<noteq> ks_incarnation_key k"
proof
  assume eq: "certificate_key scope seq = ks_incarnation_key k"
  have "takeWhile (\<lambda>c. c \<noteq> CHR ''/'') (ks_incarnation_key k) = incarnation_root"
    by (simp add: ks_incarnation_key_def incarnation_root_def)
  moreover have "takeWhile (\<lambda>c. c \<noteq> CHR ''/'') (certificate_key scope seq)
      = (if scope = [] then ''trims'' else takeWhile (\<lambda>c. c \<noteq> CHR ''/'') scope)"
    by (simp add: certificate_key_def takeWhile_sep)
  ultimately show False using assms eq by (auto simp: certified_scope_def incarnation_root_def split: if_splits)
qed

lemma fence_not_certificate: "fence_root @ ''/gc'' \<noteq> certificate_key scope seq"
proof
  assume eq: "fence_root @ ''/gc'' = certificate_key scope seq"
  have "length (certificate_key scope seq) \<ge> 20" by (simp add: certificate_key_def)
  then show False using arg_cong [OF eq, of length] by (simp add: fence_root_def)
qed

lemma ks_write_once_keys:
  assumes "ks_write_once X ns p"
  shows "own_key X ns p" "unreserved k \<Longrightarrow> p \<noteq> raw_key ns k" "p \<noteq> raw_key ns (ks_incarnation_key k)"
    "p \<noteq> fence_object_key ns"
proof -
  have chunk: "is_chunk_key X ns b p \<Longrightarrow> p \<noteq> raw_key ns k'" for b k'
    using raw_not_chunk [of ns k'] unfolding is_chunk_key_def by metis
  have tomb: "ks_tombstone_key k1 \<noteq> ks_incarnation_key k2" "fence_root @ ''/gc'' \<noteq> ks_tombstone_key k1" for k1 k2
    by (simp_all add: ks_key_defs)
  show "own_key X ns p" using assms by (auto simp: ks_write_once_def own_key_def)
  show "unreserved k \<Longrightarrow> p \<noteq> raw_key ns k"
    using assms chunk unreservedD(1) unreserved_not_certificate by (auto simp: ks_write_once_def)
  show "p \<noteq> raw_key ns (ks_incarnation_key k)"
    using assms chunk tomb(1) certified_not_counter unfolding ks_write_once_def by (metis raw_key_inj)
  show "p \<noteq> fence_object_key ns"
    using assms chunk tomb fence_not_certificate by (auto simp: ks_write_once_def fence_raw)
qed

lemma ks_step_write_once:
  assumes "ks_step X B ns s s'" "ks_write_once X ns p" "st_get s p = Some b"
  shows "st_get s' p = Some b"
  using assms(1)
  by cases (use ks_write_once_keys [OF assms(2)] assms(3) in auto)

lemma ks_steps_write_once:
  assumes "ks_steps X B ns s s'" "ks_write_once X ns p" "st_get s p = Some b"
  shows "st_get s' p = Some b"
  using assms(1) unfolding ks_steps_def
  by (induction rule: rtranclp_induct) (use assms(2,3) ks_step_write_once in auto)

section \<open>Era counters\<close>

definition ks_counter :: "string \<Rightarrow> store \<Rightarrow> string \<Rightarrow> u64 option" where
  "ks_counter ns s k = (case st_get s (raw_key ns (ks_incarnation_key k)) of None \<Rightarrow> Some 0 | Some b \<Rightarrow> from_be_bytes b)"

text \<open>The keys of the namespace whose counters are counters: no certificate shadows them.\<close>

definition counter_key :: "string \<Rightarrow> bool" where
  "counter_key k \<longleftrightarrow> (\<forall>scope seq. ks_incarnation_key k \<noteq> certificate_key scope seq)"

definition ks_counters_wf :: "string \<Rightarrow> store \<Rightarrow> bool" where
  "ks_counters_wf ns s \<longleftrightarrow> (\<forall>k. counter_key k \<longrightarrow> ks_counter ns s k \<noteq> None)"

definition ks_counters_le :: "string \<Rightarrow> store \<Rightarrow> store \<Rightarrow> bool" where
  "ks_counters_le ns s s' \<longleftrightarrow> (\<forall>k. counter_key k \<longrightarrow> the (ks_counter ns s k) \<le> the (ks_counter ns s' k))"

lemma ks_incarnation_key_inj [simp]: "ks_incarnation_key k = ks_incarnation_key k' \<longleftrightarrow> k = k'"
  by (simp add: ks_incarnation_key_def)

lemma ks_counter_other:
  "st_get s' (raw_key ns (ks_incarnation_key k)) = st_get s (raw_key ns (ks_incarnation_key k)) \<Longrightarrow>
    ks_counter ns s' k = ks_counter ns s k"
  by (simp add: ks_counter_def)

lemma unreserved_counter_key: "unreserved k \<Longrightarrow> counter_key k"
proof -
  assume "unreserved k"
  then have "trims_segment \<notin> set (butlast (split_at (CHR ''/'') k))" by (rule unreservedD)
  then have "trims_segment \<notin> set (butlast (split_at (CHR ''/'') (ks_incarnation_key k)))"
    using split_at_append_sep [of "CHR ''/''" incarnation_root k]
    by (cases "split_at (CHR ''/'') k") (auto simp: ks_incarnation_key_def butlast_append split_at_no_sep incarnation_root_def trims_segment_def)
  then show ?thesis using certificate_segments unfolding counter_key_def by metis
qed

text \<open>What a step does to a counter.\<close>

lemma ks_step_counter:
  assumes "ks_step X B ns s s'" "counter_key k" "ks_counter ns s k = Some n" "counter_tags B"
  shows "ks_counter ns s' k = Some n \<or> n \<noteq> - 1 \<and> ks_counter ns s' k = Some (n + 1)"
proof -
  let ?p = "raw_key ns (ks_incarnation_key k)"
  have own: "own_key X ns ?p" by (auto simp: own_key_def)
  have chunk: "\<not> is_chunk_key X ns b ?p" for b
    using raw_not_chunk unfolding is_chunk_key_def by metis
  have keys: "ks_tombstone_key k' \<noteq> ks_incarnation_key k" "fence_object_key ns \<noteq> ?p" for k'
    by (simp_all add: ks_key_defs fence_raw)
  show ?thesis
    using assms(1)
  proof cases
    case ks_elsewhere
    then show ?thesis using own assms(3) by (simp add: ks_counter_def)
  next
    case (ks_chunk p b)
    then have "p \<noteq> ?p" using chunk by metis
    then show ?thesis using ks_chunk assms(3) by (simp add: ks_counter_def)
  next
    case (ks_new k' c)
    then show ?thesis using unreservedD(2) [of k' k] assms(3) by (auto simp: ks_counter_def)
  next
    case (ks_advance k' b d c c')
    then show ?thesis using unreservedD(2) [of k' k] assms(3) by (auto simp: ks_counter_def)
  next
    case (ks_remove k')
    then show ?thesis using unreservedD(2) [of k' k] assms(3) by (auto simp: ks_counter_def)
  next
    case (ks_era_first k')
    then show ?thesis using assms(3) by (auto simp: ks_counter_def)
  next
    case (ks_era_next k' b m)
    show ?thesis
    proof (cases "k' = k")
      case True
      then have "from_be_bytes b = Some n" using ks_era_next assms(3) by (simp add: ks_counter_def)
      then have "length b = 8" using from_be_length [of b] by simp
      then have "b = to_be_bytes m" using ks_era_next(3) assms(4) by (auto simp: counter_tags_def inj_on_def)
      then show ?thesis using ks_era_next True assms(3) by (simp add: ks_counter_def)
    qed (use ks_era_next assms(3) in \<open>simp add: ks_counter_def\<close>)
  next
    case (ks_certificate scope seq)
    then have "raw_key ns (certificate_key scope seq) \<noteq> ?p" using assms(2) unfolding counter_key_def raw_key_inj by metis
    then show ?thesis using ks_certificate assms(3) by (simp add: ks_counter_def)
  qed (use keys keys [symmetric] assms(3) in \<open>auto simp: ks_counter_def\<close>)
qed

lemma ks_steps_counter:
  assumes "ks_steps X B ns s s'" "counter_key k" "ks_counter ns s k = Some n" "counter_tags B"
  shows "\<exists>m. ks_counter ns s' k = Some m \<and> n \<le> m"
  using assms(1) unfolding ks_steps_def
proof (induction rule: rtranclp_induct)
  case (step t t')
  then obtain m where m: "ks_counter ns t k = Some m" "n \<le> m" by auto
  then have "ks_counter ns t' k = Some m \<or> m \<noteq> - 1 \<and> ks_counter ns t' k = Some (m + 1)"
    using ks_step_counter [OF step.hyps(2) assms(2) _ assms(4)] by simp
  moreover have "m \<noteq> - 1 \<Longrightarrow> m \<le> m + 1" using unat_plus1 [of m] by (simp add: word_le_nat_alt)
  ultimately show ?case using m by (metis order_trans)
qed (use assms(3) in simp)

end
