(* ===== verification/Keyspace_Functional.thy ===== *)
theory Keyspace_Functional
  imports Keyspace_Protocol
begin

text \<open>
  What the keyed operations compute in a store at rest: staging and collecting a value's chunks,
  and create, get, replace and destroy on every branch.
\<close>

section \<open>Chunks\<close>

definition put_if_absent :: "key \<Rightarrow> bytes \<Rightarrow> store \<Rightarrow> store" where
  "put_if_absent p b s = (case st_get s p of None \<Rightarrow> st_put p b s | Some _ \<Rightarrow> s)"

lemma st_get_put_if_absent [simp]:
  "st_get (put_if_absent p b s) p' = (if p' = p \<and> st_get s p = None then Some b else st_get s p')"
  by (simp add: put_if_absent_def split: option.split)

abbreviation chunk_slot :: "ext \<Rightarrow> string \<Rightarrow> string \<Rightarrow> u64 \<Rightarrow> u64 \<Rightarrow> bytes \<Rightarrow> key" where
  "chunk_slot X ns k i v b \<equiv> chunk_path X ns k i v (hash_entry X b)"

text \<open>A slot is free, or holds the chunk from an earlier attempt; digests tell the value's chunks apart.\<close>

definition slots_clean :: "ext \<Rightarrow> string \<Rightarrow> string \<Rightarrow> u64 \<Rightarrow> u64 \<Rightarrow> bytes list \<Rightarrow> store \<Rightarrow> bool" where
  "slots_clean X ns k i v bs s \<longleftrightarrow> (\<forall>b\<in>set bs. st_get s (chunk_slot X ns k i v b) \<in> {None, Some b})"

lemma run_put_chunk:
  assumes "st_get s p \<in> {None, Some b}" "length b \<le> chunk_bytes"
  shows "run B (put_chunk X p k (hash_entry X b) n b) s = (Some (Inr n), put_if_absent p b s)"
proof -
  have "run B (put_chunk_loop X p k (hash_entry X b) n b (Suc m)) s = (Some (Inr n), put_if_absent p b s)" for m
    using assms(1) chunk_matches_hash [OF assms(2), of X b]
    by (auto simp: run_bind io_simps put_if_absent_def verify_chunk_def)
  from this [of 3] show ?thesis by (simp add: put_chunk_def)
qed

definition staged :: "ext \<Rightarrow> string \<Rightarrow> string \<Rightarrow> u64 \<Rightarrow> u64 \<Rightarrow> bytes list \<Rightarrow> store \<Rightarrow> store" where
  "staged X ns k i v = fold (\<lambda>b. put_if_absent (chunk_slot X ns k i v b) b)"

lemma chunk_slot_inj:
  assumes "ext_ok X" "chunk_slot X ns k i v b = chunk_slot X ns k i v b'"
  shows "sha256 X b = sha256 X b'"
proof -
  have "hex_decode X (hex_encode X d) = Some d" for d using assms(1) by (simp add: ext_ok_def)
  moreover have "hex_encode X (sha256 X b) = hex_encode X (sha256 X b')"
    using assms(2) by (simp add: chunk_path_def chunk_object_key_def digest_hex_def hash_entry_def)
  ultimately show ?thesis by (metis option.inject)
qed

lemma slots_clean_step:
  assumes "slots_clean X ns k i v (b # bs) s" "inj_on (sha256 X) (set (b # bs))" "ext_ok X"
  shows "slots_clean X ns k i v bs (put_if_absent (chunk_slot X ns k i v b) b s)"
  unfolding slots_clean_def
proof
  fix b' assume b': "b' \<in> set bs"
  have "chunk_slot X ns k i v b' = chunk_slot X ns k i v b \<Longrightarrow> b' = b"
    using chunk_slot_inj [OF assms(3)] inj_onD [OF assms(2)] b' by (metis list.set_intros)
  then show "st_get (put_if_absent (chunk_slot X ns k i v b) b s) (chunk_slot X ns k i v b') \<in> {None, Some b'}"
    using assms(1) b' by (auto simp: slots_clean_def)
qed

lemma staged_get:
  assumes "slots_clean X ns k i v bs s" "inj_on (sha256 X) (set bs)" "ext_ok X"
  shows "(\<forall>b\<in>set bs. st_get (staged X ns k i v bs s) (chunk_slot X ns k i v b) = Some b) \<and>
    (\<forall>p. p \<notin> chunk_slot X ns k i v ` set bs \<longrightarrow> st_get (staged X ns k i v bs s) p = st_get s p)"
  using assms(1,2)
proof (induction bs arbitrary: s)
  case (Cons b bs)
  let ?s' = "put_if_absent (chunk_slot X ns k i v b) b s"
  have clean: "slots_clean X ns k i v bs ?s'" using slots_clean_step Cons.prems assms(3) .
  note IH = Cons.IH [OF clean inj_on_subset [OF Cons.prems(2) set_subset_Cons]]
  have first: "st_get ?s' (chunk_slot X ns k i v b) = Some b" using Cons.prems(1) by (auto simp: slots_clean_def)
  have "st_get (staged X ns k i v bs ?s') (chunk_slot X ns k i v b) = Some b"
  proof (cases "chunk_slot X ns k i v b \<in> chunk_slot X ns k i v ` set bs")
    case True
    then obtain b' where b': "b' \<in> set bs" "chunk_slot X ns k i v b = chunk_slot X ns k i v b'" by auto
    then have "b = b'" using chunk_slot_inj [OF assms(3) b'(2)] inj_onD [OF Cons.prems(2)] by (metis list.set_intros)
    then show ?thesis using IH b' by auto
  next
    case False
    then show ?thesis using IH first by auto
  qed
  then show ?case using IH by (auto simp: staged_def)
qed (simp add: staged_def)

lemma run_stage_from:
  assumes "slots_clean X ns k i v bs s" "inj_on (sha256 X) (set bs)" "ext_ok X" "\<forall>b\<in>set bs. length b \<le> chunk_bytes"
  shows "run B (stage_from X ns k i v n bs) s = (Some (Inr ()), staged X ns k i v bs s)"
  using assms(1,2,4)
proof (induction bs arbitrary: s n)
  case (Cons b bs)
  have "st_get s (chunk_slot X ns k i v b) \<in> {None, Some b}" using Cons.prems(1) by (simp add: slots_clean_def)
  then show ?case
    using Cons.IH [OF slots_clean_step [OF Cons.prems(1,2) assms(3)] inj_on_subset [OF Cons.prems(2) set_subset_Cons]] Cons.prems(3)
      run_put_chunk [of s "chunk_slot X ns k i v b" b]
    by (auto simp: run_try Let_def staged_def)
qed (simp add: staged_def)

lemma run_fetch_from:
  assumes "\<forall>b\<in>set bs. st_get s (chunk_slot X ns k i v b) = Some b \<and> length b \<le> chunk_bytes"
  shows "run B (fetch_from X ns k i v n (map (hash_entry X) bs) acc) s = (Some (Inr (acc @ concat bs)), s)"
  using assms
  by (induction bs arbitrary: n acc)
    (simp_all add: run_try run_bind io_simps fetch_chunk_def chunk_matches_hash)

section \<open>Values\<close>

text \<open>A store in which a value can be written at a key in an open era: the value's control and
  its chunks.\<close>

definition control_of :: "ext \<Rightarrow> u64 \<Rightarrow> u64 \<Rightarrow> bytes \<Rightarrow> bytes \<Rightarrow> control_envelope" where
  "control_of X i ver cid v =
    (if length v > inline_max
     then CtlChunked (manifest_of X i ver cid (word_of_nat (length v)) (map (hash_entry X) (value_chunks v)))
     else CtlInline \<lparr>ve_incarnation = i, ve_version = ver, ve_payload = v\<rparr>)"

definition chunks_for :: "bytes \<Rightarrow> bytes list" where
  "chunks_for v = (if length v > inline_max then value_chunks v else [])"

definition writable :: "ext \<Rightarrow> string \<Rightarrow> string \<Rightarrow> u64 \<Rightarrow> u64 \<Rightarrow> bytes \<Rightarrow> store \<Rightarrow> bool" where
  "writable X ns k i ver v s \<longleftrightarrow> unreserved k \<and> ks_object_key ns k = Inr (raw_key ns k) \<and>
    length v \<le> unat max_logical_bytes \<and> ks_counter ns s k = Some i \<and>
    slots_clean X ns k i ver (chunks_for v) s \<and> inj_on (sha256 X) (set (chunks_for v))"

definition written_store :: "ext \<Rightarrow> string \<Rightarrow> string \<Rightarrow> u64 \<Rightarrow> u64 \<Rightarrow> bytes \<Rightarrow> bytes \<Rightarrow> store \<Rightarrow> store" where
  "written_store X ns k i ver cid v s =
    st_put (raw_key ns k) (control_encode (control_of X i ver cid v)) (staged X ns k i ver (chunks_for v) s)"

lemma run_current: "ks_counter ns s k = Some i \<Longrightarrow> run B (ks_current_incarnation ns k) s = (Some (Inr i), s)"
  by (auto simp: ks_current_incarnation_def ks_counter_def run_bind io_simps split: option.splits)

lemma lift_unreserved [simp]: "unreserved k \<Longrightarrow> lift_res (ensure_not_reserved_key k) f = f ()"
  by (simp only: unreserved_def lift_res_def sum.case)

lemma chunk_slots_apart: "raw_key ns k' \<notin> chunk_slot X ns k i v ` A"
  using raw_not_chunk by (metis imageE)

lemma written_store_get:
  assumes "writable X ns k i ver v s" "ext_ok X"
  shows "st_get (written_store X ns k i ver cid v s) (raw_key ns k) = Some (control_encode (control_of X i ver cid v))"
    "\<And>b. b \<in> set (chunks_for v) \<Longrightarrow> st_get (written_store X ns k i ver cid v s) (chunk_slot X ns k i ver b) = Some b"
    "\<And>k'. k' \<noteq> k \<Longrightarrow> st_get (written_store X ns k i ver cid v s) (raw_key ns k') = st_get s (raw_key ns k')"
    "\<And>k'. unreserved k \<Longrightarrow> ks_counter ns (written_store X ns k i ver cid v s) k' = ks_counter ns s k'"
proof -
  note S = staged_get [of X ns k i ver "chunks_for v" s, OF _ _ assms(2)]
  have S: "\<forall>b\<in>set (chunks_for v). st_get (staged X ns k i ver (chunks_for v) s) (chunk_slot X ns k i ver b) = Some b"
    "\<And>k'. st_get (staged X ns k i ver (chunks_for v) s) (raw_key ns k') = st_get s (raw_key ns k')"
    using S assms(1) chunk_slots_apart unfolding writable_def by blast+
  show "st_get (written_store X ns k i ver cid v s) (raw_key ns k) = Some (control_encode (control_of X i ver cid v))"
    by (simp add: written_store_def)
  show "b \<in> set (chunks_for v) \<Longrightarrow> st_get (written_store X ns k i ver cid v s) (chunk_slot X ns k i ver b) = Some b" for b
    using S(1) raw_not_chunk by (simp add: written_store_def raw_not_chunk [symmetric])
  show "k' \<noteq> k \<Longrightarrow> st_get (written_store X ns k i ver cid v s) (raw_key ns k') = st_get s (raw_key ns k')" for k'
    using S(2) by (simp add: written_store_def)
  then show "unreserved k \<Longrightarrow> ks_counter ns (written_store X ns k i ver cid v s) k' = ks_counter ns s k'" for k'
    using unreservedD(2) [of k k'] by (simp add: ks_counter_def)
qed

lemma control_of_era [simp]:
  "control_incarnation (control_of X i ver cid v) = i" "control_version (control_of X i ver cid v) = ver"
  by (simp_all add: control_of_def)

lemma control_of_wf:
  "ext_ok X \<Longrightarrow> length cid = 16 \<Longrightarrow> length v \<le> unat max_logical_bytes \<Longrightarrow> control_wf X (control_of X i ver cid v)"
  using staged_manifest_wf by (simp add: control_of_def)

text \<open>Reading back a written value.\<close>

lemma run_collect:
  assumes "writable X ns k i ver v s" "ext_ok X" "length cid = 16"
  shows "run B (collect_value X ns k (control_encode (control_of X i ver cid v))) (written_store X ns k i ver cid v s)
    = (Some (Inr v), written_store X ns k i ver cid v s)"
proof -
  let ?s = "written_store X ns k i ver cid v s"
  have wf: "control_wf X (control_of X i ver cid v)" using control_of_wf assms by (simp add: writable_def)
  have "run B (fetch_from X ns k i ver 0 (map (hash_entry X) (value_chunks v)) []) ?s = (Some (Inr v), ?s)"
    if "length v > inline_max"
    using run_fetch_from [of "value_chunks v" ?s X ns k i ver] written_store_get(2) [OF assms(1,2)] that
    by (simp add: chunks_for_def value_chunks_le concat_chunks_of)
  then show ?thesis
    using control_decode_encode [OF wf]
    by (auto simp: collect_value_def fetch_all_chunks_def control_of_def manifest_of_def io_simps)
qed

lemma run_stage_chunks:
  assumes "writable X ns k i ver v s" "ext_ok X" "length v > inline_max"
  shows "run B (stage_chunks X ns k v i ver cid) s =
    (Some (Inr (manifest_of X i ver cid (word_of_nat (length v)) (map (hash_entry X) (value_chunks v)))),
     staged X ns k i ver (chunks_for v) s)"
  using assms run_stage_from [of X ns k i ver "chunks_for v" s B 0]
  by (simp add: stage_chunks_def run_try writable_def chunks_for_def value_chunks_le)

text \<open>Create: put if absent.\<close>

lemma run_ks_create:
  assumes "writable X ns k i 0 v s" "ext_ok X" "ids_ok ids"
  shows "run B (ks_create fuel X ids ns k v) s =
    (if st_get s (raw_key ns k) = None
     then (Some (Inr ()), written_store X ns k i 0 (ids 7) v s)
     else (Some (Inl (KsAlreadyExists k)), staged X ns k i 0 (chunks_for v) s))"
proof -
  have k: "unreserved k" "ks_object_key ns k = Inr (raw_key ns k)" "length v \<le> unat max_logical_bytes"
    "ks_counter ns s k = Some i" using assms(1) by (auto simp: writable_def)
  show ?thesis
  proof (cases "length v > inline_max")
    case False
    have "run B (create_inline_loop ns k (raw_key ns k) v (Suc n)) s =
      (if st_get s (raw_key ns k) = None then (Some (Inr ()), written_store X ns k i 0 (ids 7) v s)
       else (Some (Inl (KsAlreadyExists k)), s))" for n
      using False run_current [OF k(4)] k(4) written_store_get(4) [OF assms(1,2) k(1), of "ids 7" k]
        run_current [of ns "written_store X ns k i 0 (ids 7) v s" k i B]
      by (auto simp: run_try run_bind io_simps Let_def control_of_def chunks_for_def staged_def written_store_def
          split: option.split)
    from this [of 7] show ?thesis
      using k False by (simp add: ks_create_def value_too_large_def io_simps chunks_for_def staged_def)
  next
    case True
    let ?s1 = "staged X ns k i 0 (chunks_for v) s" and ?s2 = "\<lambda>n. written_store X ns k i 0 (ids n) v s"
    have s1: "st_get ?s1 (raw_key ns k) = st_get s (raw_key ns k)"
      using staged_get [of X ns k i 0 "chunks_for v" s] assms chunk_slots_apart by (auto simp: writable_def)
    have "run B (create_chunked_loop fuel X ids ns k (raw_key ns k) v (Suc n)) s =
      (if st_get s (raw_key ns k) = None then (Some (Inr ()), ?s2 n) else (Some (Inl (KsAlreadyExists k)), ?s1))" for n
      using run_current [OF k(4)] run_stage_chunks [OF assms(1,2) True, of B "ids n"] s1
        run_current [of ns "?s2 n" k i B] written_store_get(4) [OF assms(1,2) k(1), of "ids n" k] k(4) True
      by (auto simp: run_try run_bind io_simps evict_stale_era_def written_store_def control_of_def split: option.split)
    from this [of 7] show ?thesis
      using k True by (simp add: ks_create_def create_chunked_def value_too_large_def io_simps)
  qed
qed

lemma run_get:
  assumes "writable X ns k i ver v s" "ext_ok X" "length cid = 16"
  defines "s' \<equiv> written_store X ns k i ver cid v s"
  shows "run B (ks_get X ns k) s' = (Some (Inr (Some v)), s')"
    "run B (ks_get_with_version X ns k) s' =
      (Some (Inr (Some (v, i, ver, tag_of B (control_encode (control_of X i ver cid v))))), s')"
proof -
  have k: "ks_object_key ns k = Inr (raw_key ns k)" using assms(1) by (simp add: writable_def)
  have wf: "control_wf X (control_of X i ver cid v)" using control_of_wf assms by (simp add: writable_def)
  note C = run_collect [OF assms(1-3), folded s'_def] and G = written_store_get(1) [OF assms(1,2), of cid, folded s'_def]
  show "run B (ks_get X ns k) s' = (Some (Inr (Some v)), s')"
    using C G k by (simp add: ks_get_def run_bind run_try io_simps)
  show "run B (ks_get_with_version X ns k) s' =
      (Some (Inr (Some (v, i, ver, tag_of B (control_encode (control_of X i ver cid v))))), s')"
    using C G k control_decode_encode [OF wf] by (simp add: ks_get_with_version_def run_bind run_try io_simps)
qed

text \<open>Replace: the control named by the entity tag gives way to the next version.\<close>

lemma run_compare_exchange:
  fixes cid :: bytes
  assumes "writable X ns k (control_incarnation c) (control_version c + 1) v s" "ext_ok X"
    and d: "st_get s (raw_key ns k) = Some d" "control_decode X k d = Inr c" "control_version c \<noteq> - 1"
  defines "c' \<equiv> control_of X (control_incarnation c) (control_version c + 1) cid v"
  shows "run B (compare_exchange fuel X cid ns k (tag_of B d) v) s =
    (Some (Inr (tag_of B (control_encode c'))),
     written_store X ns k (control_incarnation c) (control_version c + 1) cid v s)"
proof -
  let ?i = "control_incarnation c" and ?ver = "control_version c + 1"
  have k: "unreserved k" "ks_object_key ns k = Inr (raw_key ns k)" "length v \<le> unat max_logical_bytes"
    "ks_counter ns s k = Some ?i" using assms(1) by (auto simp: writable_def)
  have era: "run B (ensure_open_value_era ns k ?i) t = (Some (Inr ()), t)" if "ks_counter ns t k = Some ?i" for t
    using run_current [OF that] by (simp add: ensure_open_value_era_def run_try)
  have finish: "run B (finish_value_cas_after_publish ns k ?i e) t = (Some (Inr e), t)" if "ks_counter ns t k = Some ?i" for e t
    using run_current [OF that] by (simp add: finish_value_cas_after_publish_def run_try)
  let ?s1 = "staged X ns k ?i ?ver (chunks_for v) s" and ?s2 = "written_store X ns k ?i ?ver cid v s"
  have s1: "st_get ?s1 (raw_key ns k') = st_get s (raw_key ns k')" for k'
    using staged_get [of X ns k ?i ?ver "chunks_for v" s] assms(1,2) chunk_slots_apart by (auto simp: writable_def)
  have c1: "ks_counter ns ?s1 k = Some ?i" using k(4) s1 by (simp add: ks_counter_def)
  have c2: "ks_counter ns ?s2 k = Some ?i" using written_store_get(4) [OF assms(1,2) k(1), of cid k] k(4) by simp
  have next_ver: "checked_add (control_version c) 1 = Some ?ver" using d(3) by (simp add: checked_add_1)
  have publish: "run B (if length v > inline_max
      then compare_exchange_chunked fuel X cid ns k (tag_of B d) ?i ?ver v
      else publish_inline_cas X ns k (raw_key ns k) (tag_of B d) ?i ?ver v) s
    = (Some (Inr (tag_of B (control_encode c'))), ?s2)"
  proof (cases "length v > inline_max")
    case True
    then show ?thesis
      using run_stage_chunks [OF assms(1,2) True, of B cid] era [OF c1] s1 d(1) finish [OF c2] k(2)
      by (simp add: compare_exchange_chunked_def run_try run_bind io_simps c'_def control_of_def written_store_def)
  next
    case False
    then show ?thesis using d(1) finish [OF c2]
      by (simp add: publish_inline_cas_def run_bind io_simps c'_def control_of_def written_store_def chunks_for_def staged_def)
  qed
  show ?thesis
    using k d era [OF k(4)] next_ver publish
    by (simp add: compare_exchange_def value_too_large_def run_bind run_try io_simps)
qed

text \<open>A stale entity tag is refused, with the control found in place as evidence.\<close>

lemma run_fail_cas:
  assumes "ks_object_key ns k = Inr (raw_key ns k)" "st_get s (raw_key ns k) = Some d" "control_decode X k d = Inr c"
  shows "run B (fail_cas X ns k e) s = (Some (Inl (KsPreconditionFailed k e (Some (tag_of B d))
    (Some (control_incarnation c)) (Some (control_version c)))), s)"
  using assms by (simp add: fail_cas_def cas_conflict_def observed_era_def Let_def run_bind io_simps)

lemma run_compare_exchange_stale:
  assumes "unreserved k" "ks_object_key ns k = Inr (raw_key ns k)" "length v \<le> unat max_logical_bytes"
    and "st_get s (raw_key ns k) = Some d" "control_decode X k d = Inr c" "e \<noteq> tag_of B d"
  shows "run B (compare_exchange fuel X cid ns k e v) s = (Some (Inl (KsPreconditionFailed k e (Some (tag_of B d))
    (Some (control_incarnation c)) (Some (control_version c)))), s)"
  using assms run_fail_cas [OF assms(2,4,5)]
  by (simp add: compare_exchange_def value_too_large_def run_bind io_simps)

text \<open>Destroy: the witness, the next era, and the end of the value.\<close>

lemma run_destroy:
  assumes "ks_object_key ns k = Inr (raw_key ns k)" "st_get s (raw_key ns k) = Some d" "control_decode X k d = Inr c"
    and "ks_counter ns s k = Some i" "i \<noteq> - 1"
    and "tombstone_encode X (tombstone_new (control_incarnation c) (control_version c) cause actor (clock_reading B)) = Inr w"
  shows "run B (ks_destroy X ns k cause actor) s = (Some (Inr ()),
    st_del (raw_key ns k) (st_put (raw_key ns (ks_incarnation_key k)) (to_be_bytes (i + 1))
      (put_if_absent (raw_key ns (ks_tombstone_key k)) w s)))"
proof -
  let ?t = "raw_key ns (ks_tombstone_key k)" and ?n = "raw_key ns (ks_incarnation_key k)"
  let ?s1 = "put_if_absent ?t w s"
  have keys: "?t \<noteq> raw_key ns k" "?n \<noteq> raw_key ns k" "?t \<noteq> ?n"
    by (auto simp: ks_key_defs dest: arg_cong [of _ _ length])
  have era: "run B (read_control_era_with_etag X ns k) s =
      (Some (Inr (Some (control_incarnation c, control_version c, tag_of B d))), s)"
    using assms(1-3) by (simp add: read_control_era_with_etag_def run_bind io_simps)
  have counter: "ks_counter ns ?s1 k = Some i" using assms(4) keys by (simp add: ks_counter_def)
  have bump: "run B (ks_bump_loop ns k (Suc n)) ?s1 = (Some (Inr (i + 1)), st_put ?n (to_be_bytes (i + 1)) ?s1)" for n
    using counter assms(5) by (auto simp: ks_counter_def run_bind io_simps checked_add_1 split: option.splits)
  have tomb: "run B (upload_conditional ?t w None) s = (Some (if st_get s ?t = None then Inr (Some (tag_of B w))
      else Inl (PreconditionFailed ?t)), ?s1)"
    by (simp add: io_simps put_if_absent_def split: option.split)
  show ?thesis
    using era tomb bump [of 7] assms(1,2,6) keys
    by (auto simp: ks_destroy_def prepare_destroy_def ks_bump_incarnation_def run_bind run_try io_simps)
qed

lemma staged_raw:
  "writable X ns k i ver v s \<Longrightarrow> ext_ok X \<Longrightarrow>
    st_get (staged X ns k i ver (chunks_for v) s) (raw_key ns k') = st_get s (raw_key ns k')"
  using staged_get [of X ns k i ver "chunks_for v" s] chunk_slots_apart by (auto simp: writable_def)

end
