(* ===== verification/Keyspace_Eras.thy ===== *)
theory Keyspace_Eras
  imports Keyspace_Protocol
begin

text \<open>
  Eras of a key: what a successful \<open>compare_exchange\<close> and a successful \<open>destroy\<close> say about the
  era counter, when other calls run in between.  A call is an \<open>env_run\<close> whose environment makes
  steps of the namespace's protocol.
\<close>

abbreviation ks_run :: "ext \<Rightarrow> backend \<Rightarrow> string \<Rightarrow> 'a io \<Rightarrow> store \<Rightarrow> entry list \<Rightarrow> 'a \<Rightarrow> store \<Rightarrow> bool" where
  "ks_run X B ns \<equiv> env_run (ks_steps X B ns) B"

lemma ks_run_steps: "ks_run X B ns m s h a s' \<Longrightarrow> ks_all X B ns m \<Longrightarrow> ks_steps X B ns s s'"
  by (rule env_run_steps [OF _ _ ks_steps_refl ks_steps_trans ks_req_steps])

text \<open>A run of a case distinction is a run of one of its branches.\<close>

lemma env_run_cases:
  "env_run R B (case r of Inl e \<Rightarrow> f e | Inr a \<Rightarrow> g a) s h b s' \<longleftrightarrow>
    (\<exists>e. r = Inl e \<and> env_run R B (f e) s h b s') \<or> (\<exists>a. r = Inr a \<and> env_run R B (g a) s h b s')"
  "env_run R B (case p of None \<Rightarrow> m | Some x \<Rightarrow> k x) s h b s' \<longleftrightarrow>
    p = None \<and> env_run R B m s h b s' \<or> (\<exists>x. p = Some x \<and> env_run R B (k x) s h b s')"
  "env_run R B (case y of (x1, x2) \<Rightarrow> l x1 x2) s h b s' \<longleftrightarrow> (\<exists>x1 x2. y = (x1, x2) \<and> env_run R B (l x1 x2) s h b s')"
  "env_run R B (case c of CtlInline v \<Rightarrow> ci v | CtlChunked m' \<Rightarrow> cc m') s h b s' \<longleftrightarrow>
    (\<exists>v. c = CtlInline v \<and> env_run R B (ci v) s h b s') \<or> (\<exists>m'. c = CtlChunked m' \<and> env_run R B (cc m') s h b s')"
  "env_run R B (case a of Landed t \<Rightarrow> l1 t | LostConflict \<Rightarrow> l2 | Ambiguous \<Rightarrow> l3) s h b s' \<longleftrightarrow>
    (\<exists>t. a = Landed t \<and> env_run R B (l1 t) s h b s') \<or> a = LostConflict \<and> env_run R B l2 s h b s' \<or>
    a = Ambiguous \<and> env_run R B l3 s h b s'"
  "env_run R B (if q then m1 else m2) s h b s' \<longleftrightarrow> q \<and> env_run R B m1 s h b s' \<or> \<not> q \<and> env_run R B m2 s h b s'"
  by (cases r; simp; fail | cases p; simp; fail | cases y; simp; fail | cases c; simp; fail | cases a; simp; fail | simp)+

lemma env_run_tryE:
  assumes "env_run R B (io_try m f) s h (Inr b) s'"
  obtains h1 h2 a t where "h = h1 @ h2" "env_run R B m s h1 (Inr a) t" "env_run R B (f a) t h2 (Inr b) s'"
  using assms unfolding env_run_try_Inr by blast

lemma env_run_bindE:
  assumes "env_run R B (io_bind m f) s h b s'"
  obtains h1 h2 a t where "h = h1 @ h2" "env_run R B m s h1 a t" "env_run R B (f a) t h2 b s'"
  using assms unfolding env_run_bind by blast

lemma env_run_liftE:
  assumes "env_run R B (lift_res r f) s h (Inr b) s'"
  obtains a where "r = Inr a" "env_run R B (f a) s h (Inr b) s'"
  using assms by (auto simp: env_run_lift_res)

lemmas env_run_caseE = env_run_cases [THEN iffD1, elim_format]
lemmas run_elims = env_run_tryE env_run_bindE env_run_liftE env_run_caseE

lemmas run_simps = env_run_try_Inr env_run_bind env_run_lift_res env_run_cases

section \<open>What single calls establish\<close>

lemma ks_run_current:
  assumes "ks_run X B ns (ks_current_incarnation ns k) s h (Inr i) s'"
  shows "ks_steps X B ns s s' \<and> ks_counter ns s' k = Some i"
proof -
  from assms obtain h1 h2 x t where d: "ks_run X B ns (download (raw_key ns (ks_incarnation_key k))) s h1 x t"
    and k: "ks_run X B ns (case x of
        Inr b \<Rightarrow> Ret (ok_or (from_be_bytes b) (KsValueEnvelopeMalformed (ks_incarnation_key k)))
      | Inl e \<Rightarrow> Ret (if is_NotFound e then Inr 0 else Inl (KsUnavailable ''incarnation counter read''))) t h2 (Inr i) s'"
    unfolding ks_current_incarnation_def env_run_bind by blast
  note D = env_run_download_at [OF d]
  show ?thesis
    using D k by (cases x) (auto simp: ks_counter_def eq_commute [of "Inr i"] split: if_splits)
qed

lemma ks_run_ensure_open:
  "ks_run X B ns (ensure_open_value_era ns k i) s h (Inr u) s' \<Longrightarrow>
    ks_steps X B ns s s' \<and> ks_counter ns s' k = Some i"
  unfolding ensure_open_value_era_def env_run_try_Inr by (auto dest!: ks_run_current split: if_splits)

lemma ks_run_fail_cas: "\<not> ks_run X B ns (fail_cas X ns k e) s h (Inr a) s'"
  by (auto simp: fail_cas_def env_run_bind)

lemma ks_run_finish_cas:
  assumes "ks_run X B ns (finish_value_cas_after_publish ns k i e) s h (Inr e') s'"
  shows "e' = e \<and> ks_steps X B ns s s' \<and> ks_counter ns s' k = Some i"
proof -
  from assms obtain h1 h2 n t where c: "ks_run X B ns (ks_current_incarnation ns k) s h1 (Inr n) t"
    and k: "ks_run X B ns (if n = i then Ret (Inr e)
      else lift_res (ks_object_key ns k) (\<lambda>path. io_bind (delete_conditional path e) (\<lambda>r. Ret (Inl (
        if (case r of Inr _ \<Rightarrow> True | Inl e \<Rightarrow> is_NotFound e \<or> is_PreconditionFailed e)
        then KsStaleIncarnation k
        else KsUnavailable ''keyspace compare_exchange (closed-era eviction)''))))) t h2 (Inr e') s'"
    unfolding finish_value_cas_after_publish_def env_run_try_Inr by blast
  then show ?thesis using ks_run_current [OF c]
    by (auto simp: env_run_lift_res env_run_bind split: if_splits)
qed

lemma ks_counter_between:
  assumes "ks_steps X B ns s t" "ks_steps X B ns t u" "ks_counter ns s k = Some i" "ks_counter ns u k = Some i"
    and "counter_key k" "counter_tags B"
  shows "ks_counter ns t k = Some i"
proof -
  obtain m where m: "ks_counter ns t k = Some m" "i \<le> m" using ks_steps_counter assms by blast
  moreover obtain m' where "ks_counter ns u k = Some m'" "m \<le> m'" using ks_steps_counter assms m by blast
  ultimately show ?thesis using assms(4) by simp
qed

section \<open>Replacements linearize in an open era\<close>

text \<open>\<open>published\<close>: the moment \<open>s1\<close> of a call's history at which the control \<open>c'\<close> replaces the
  control the caller expected, in an open era.\<close>

definition replaced_at :: "ext \<Rightarrow> backend \<Rightarrow> string \<Rightarrow> string \<Rightarrow> etag \<Rightarrow> control_envelope \<Rightarrow> entry list \<Rightarrow> etag \<Rightarrow> store \<Rightarrow> bool" where
  "replaced_at X B ns k expected c' h etag s1 \<longleftrightarrow>
    (s1, UploadConditional (raw_key ns k) (control_encode c') (Some expected), REtag (Inr (Some etag)),
      st_put (raw_key ns k) (control_encode c') s1) \<in> set h \<and>
    etag = tag_of B (control_encode c') \<and>
    (\<exists>b. st_get s1 (raw_key ns k) = Some b \<and> tag_of B b = expected) \<and>
    ks_counter ns s1 k = Some (control_incarnation c')"

text \<open>A lost response is adjudicated by a later read, which finds the staged manifest in place
  in an open era.\<close>

definition adjudicated_at :: "ext \<Rightarrow> backend \<Rightarrow> string \<Rightarrow> string \<Rightarrow> value_manifest \<Rightarrow> etag \<Rightarrow> store \<Rightarrow> bool" where
  "adjudicated_at X B ns k m etag s1 \<longleftrightarrow> (\<exists>b m'. st_get s1 (raw_key ns k) = Some b \<and> etag = tag_of B b \<and>
    control_decode X k b = Inr (CtlChunked m') \<and> vm_commit_id m' = vm_commit_id m \<and>
    vm_incarnation m' = vm_incarnation m \<and> vm_version m' = vm_version m) \<and>
    ks_counter ns s1 k = Some (vm_incarnation m)"

text \<open>The publication shared by the inline and the chunked path.\<close>

lemma ks_run_publish:
  assumes "ks_run X B ns (upload_conditional (raw_key ns k) (control_encode c') (Some e)) s h1 (Inr (Some t)) s2"
    and "ks_run X B ns (finish_value_cas_after_publish ns k (control_incarnation c') t) s2 h2 (Inr etag) s'"
    and "ks_counter ns s0 k = Some (control_incarnation c')" "ks_steps X B ns s0 s" "counter_key k" "counter_tags B"
    and put: "ks_req X B ns (UploadConditional (raw_key ns k) (control_encode c') (Some e))"
  shows "\<exists>s1. ks_steps X B ns s s1 \<and> replaced_at X B ns k e c' h1 etag s1"
proof -
  from env_run_put [OF assms(1)] obtain s1 b where s1: "ks_steps X B ns s s1"
    "s2 = st_put (raw_key ns k) (control_encode c') s1" "t = tag_of B (control_encode c')"
    "h1 = [(s1, UploadConditional (raw_key ns k) (control_encode c') (Some e), REtag (Inr (Some t)), s2)]"
    "st_get s1 (raw_key ns k) = Some b" "tag_of B b = e" by auto
  from ks_run_finish_cas [OF assms(2)] have fin: "etag = t" "ks_steps X B ns s2 s'"
    "ks_counter ns s' k = Some (control_incarnation c')" by auto
  have "effect B (UploadConditional (raw_key ns k) (control_encode c') (Some e)) s1 s2"
    using s1(2,5,6) by (simp add: effect_def)
  then have "ks_steps X B ns s1 s2" using ks_req_steps [OF put] by blast
  then have "ks_counter ns s1 k = Some (control_incarnation c')"
    using ks_counter_between [OF ks_steps_trans [OF assms(4) s1(1)] ks_steps_trans [OF _ fin(2)] assms(3) fin(3) assms(5,6)]
    by blast
  then show ?thesis using s1 fin(1) by (auto simp: replaced_at_def)
qed

lemma ks_run_stage:
  assumes "ks_run X B ns (stage_chunks X ns k v i ver cid) s h (Inr m) s'"
  shows "m = manifest_of X i ver cid (word_of_nat (length v)) (map (hash_entry X) (value_chunks v)) \<and> ks_steps X B ns s s'"
proof -
  have "ks_all X B ns (stage_chunks X ns k v i ver cid)"
    unfolding io_all_def by (rule stage_chunks_post) simp_all
  from ks_run_steps [OF assms this] assms show ?thesis
    by (auto simp: stage_chunks_def env_run_try_Inr)
qed

lemma ks_run_adjudicate:
  assumes "ks_run X B ns (adjudicate_manifest_put fuel X ns k path m) s h (Inr (Landed et)) s'"
  shows "ks_steps X B ns s s' \<and> (\<exists>b m'. st_get s' path = Some b \<and> et = Some (tag_of B b) \<and>
    control_decode X k b = Inr (CtlChunked m') \<and> vm_commit_id m' = vm_commit_id m \<and>
    vm_incarnation m' = vm_incarnation m \<and> vm_version m' = vm_version m)"
proof -
  have "ks_steps X B ns s s'" using ks_run_steps [OF assms read_to_ks [OF adjudicate_reads]] .
  then show ?thesis using assms
    by (auto simp: adjudicate_manifest_put_def run_simps dest!: env_run_download_with_etag split: if_splits)
qed

lemma ks_run_publish_inline:
  assumes "ks_run X B ns (publish_inline_cas X ns k (raw_key ns k) e i ver v) s h (Inr etag) s'"
  shows "\<exists>h1 h2 t s2. h = h1 @ h2 \<and>
    ks_run X B ns (upload_conditional (raw_key ns k)
      (control_encode (CtlInline \<lparr>ve_incarnation = i, ve_version = ver, ve_payload = v\<rparr>)) (Some e)) s h1 (Inr (Some t)) s2 \<and>
    ks_run X B ns (finish_value_cas_after_publish ns k i t) s2 h2 (Inr etag) s'"
  using assms by (auto simp: publish_inline_cas_def run_simps ks_run_fail_cas)

text \<open>The chunked path: the staged manifest is put, or found in place after a lost response.\<close>

lemma ks_run_publish_chunked:
  fixes i ver cid v
  defines "m X \<equiv> manifest_of X i ver cid (word_of_nat (length v)) (map (hash_entry X) (value_chunks v))"
  assumes run: "ks_run X B ns (compare_exchange_chunked fuel X cid ns k e i ver v) s h (Inr etag) s'"
    and "ks_req X B ns (UploadConditional (raw_key ns k) (manifest_encode (m X)) (Some e))"
    and key: "counter_key k" "counter_tags B"
  shows "\<exists>s1. ks_steps X B ns s s1 \<and>
    (replaced_at X B ns k e (CtlChunked (m X)) h etag s1 \<or> adjudicated_at X B ns k (m X) etag s1)"
proof -
  consider (put) h1 h2 h3 h4 m' u1 u s1 t u2 where "h = h1 @ h2 @ h3 @ h4"
      "ks_run X B ns (stage_chunks X ns k v i ver cid) s h1 (Inr m') u1"
      "ks_run X B ns (ensure_open_value_era ns k i) u1 h2 (Inr u) s1"
      "ks_run X B ns (upload_conditional (raw_key ns k) (manifest_encode m') (Some e)) s1 h3 (Inr (Some t)) u2"
      "ks_run X B ns (finish_value_cas_after_publish ns k i t) u2 h4 (Inr etag) s'"
    | (lost) h1 h2 h3 h4 h5 m' u1 u s1 t u2 u3 err where
      "ks_run X B ns (stage_chunks X ns k v i ver cid) s h1 (Inr m') u1"
      "ks_run X B ns (ensure_open_value_era ns k i) u1 h2 (Inr u) s1"
      "ks_run X B ns (upload_conditional (raw_key ns k) (manifest_encode m') (Some e)) s1 h3 (Inl err) u2"
      "ks_run X B ns (adjudicate_manifest_put fuel X ns k (raw_key ns k) m') u2 h4 (Inr (Landed (Some t))) u3"
      "ks_run X B ns (finish_value_cas_after_publish ns k i t) u3 h5 (Inr etag) s'"
    using run unfolding compare_exchange_chunked_def ks_object_key_Inr
    by (elim run_elims exE disjE conjE; simp add: ks_run_fail_cas ks_object_key_Inr; blast)
  then show ?thesis
  proof cases
    case put
    note st = ks_run_stage [OF put(2)] and op = ks_run_ensure_open [OF put(3)]
    have m': "m' = m X" using st by (simp add: m_def)
    have s1: "ks_steps X B ns s s1" "ks_counter ns s1 k = Some i" using st op ks_steps_trans by auto
    have "control_incarnation (CtlChunked (m X)) = i" by (simp add: m_def)
    then obtain s2 where "ks_steps X B ns s1 s2" "replaced_at X B ns k e (CtlChunked (m X)) h3 etag s2"
      using ks_run_publish [of X B ns k "CtlChunked (m X)" e s1 h3 t u2 h4 etag s' s1] put(4,5) assms(3) s1 key ks_steps_refl m'
      by auto
    then show ?thesis using put(1) s1 ks_steps_trans by (fastforce simp: replaced_at_def)
  next
    case lost
    note st = ks_run_stage [OF lost(1)] and op = ks_run_ensure_open [OF lost(2)]
    have m': "m' = m X" using st by (simp add: m_def)
    have s1: "ks_steps X B ns s s1" "ks_counter ns s1 k = Some i" using st op ks_steps_trans by auto
    have u2: "ks_steps X B ns s1 u2"
      using ks_run_steps [OF lost(3)] assms(3) m' by (auto simp: io_all_def intro!: post_intros)
    note A = ks_run_adjudicate [OF lost(4)] and F = ks_run_finish_cas [OF lost(5)]
    have "ks_counter ns u3 k = Some i"
      using ks_counter_between [OF ks_steps_trans [OF u2 conjunct1 [OF A]] _ s1(2) _ key] F by blast
    then have "adjudicated_at X B ns k (m X) etag u3"
      using A F by (auto simp: adjudicated_at_def m' m_def)
    then show ?thesis using s1(1) u2 A ks_steps_trans by blast
  qed
qed

text \<open>What a replacement publishes: the control \<open>d\<close> that the caller's entity tag names, one version
  on, with the value's inline payload or its staged manifest.\<close>

definition replacement :: "ext \<Rightarrow> bytes \<Rightarrow> control_envelope \<Rightarrow> bytes \<Rightarrow> control_envelope" where
  "replacement X cid c v =
    (if length v > inline_max
     then CtlChunked (manifest_of X (control_incarnation c) (control_version c + 1) cid
       (word_of_nat (length v)) (map (hash_entry X) (value_chunks v)))
     else CtlInline \<lparr>ve_incarnation = control_incarnation c, ve_version = control_version c + 1, ve_payload = v\<rparr>)"

lemma replacement_next:
  assumes "control_version c \<noteq> - 1" "ext_ok X" "length cid = 16" "length v \<le> unat max_logical_bytes"
  shows "control_wf X (replacement X cid c v)" "next_control c (replacement X cid c v)"
    "control_incarnation (replacement X cid c v) = control_incarnation c"
  using assms staged_manifest_wf [of X cid v]
  by (auto simp: replacement_def next_control_def)

lemma compare_exchange_linear:
  assumes run: "ks_run X B ns (compare_exchange fuel X cid ns k e v) s h (Inr etag) s'"
    and "ext_ok X" "length cid = 16" "counter_tags B"
  shows "unreserved k \<and> (\<exists>s0 d c s1. ks_steps X B ns s s0 \<and> st_get s0 (raw_key ns k) = Some d \<and> tag_of B d = e \<and>
    control_decode X k d = Inr c \<and> control_version c \<noteq> - 1 \<and> ks_steps X B ns s0 s1 \<and>
    (replaced_at X B ns k e (replacement X cid c v) h etag s1 \<or>
     (\<exists>m. replacement X cid c v = CtlChunked m \<and> adjudicated_at X B ns k m etag s1)))"
proof -
  obtain h0 ho h1 d c s0 s2 u ver where h: "h = h0 @ ho @ h1" and
    k: "unreserved k" "length v \<le> unat max_logical_bytes" and
    rd: "ks_run X B ns (download_with_etag (raw_key ns k)) s h0 (Inr (d, Some e)) s0" and
    c: "control_decode X k d = Inr c" "checked_add (control_version c) 1 = Some ver" and
    op: "ks_run X B ns (ensure_open_value_era ns k (control_incarnation c)) s0 ho (Inr u) s2" and
    pub: "inline_max < length v \<and> ks_run X B ns (compare_exchange_chunked fuel X cid ns k e (control_incarnation c) ver v) s2 h1 (Inr etag) s' \<or>
      \<not> inline_max < length v \<and> ks_run X B ns (publish_inline_cas X ns k (raw_key ns k) e (control_incarnation c) ver v) s2 h1 (Inr etag) s'"
    using run unfolding compare_exchange_def
    by (elim run_elims exE disjE conjE; simp add: ks_run_fail_cas ks_object_key_Inr value_too_large_Inr; blast)
  note R = env_run_download_with_etag [OF rd]
  then have d: "ks_steps X B ns s s0" "st_get s0 (raw_key ns k) = Some d" "e = tag_of B d" by auto
  have ver: "ver = control_version c + 1" "control_version c \<noteq> - 1" using c(2) by (auto simp: checked_add_1 split: if_splits)
  have O: "ks_steps X B ns s0 s2" "ks_counter ns s2 k = Some (control_incarnation c)" using ks_run_ensure_open [OF op] by auto
  let ?c' = "replacement X cid c v"
  note next_c = replacement_next [OF ver(2) assms(2,3) k(2)]
  have put: "ks_req X B ns (UploadConditional (raw_key ns k) (control_encode ?c') (Some e))"
    unfolding d(3) by (rule kr_cas [OF k(1) c(1) next_c(1,2)])
  note key = unreserved_counter_key [OF k(1)] assms(4)
  have "\<exists>s1. ks_steps X B ns s2 s1 \<and> (replaced_at X B ns k e ?c' h1 etag s1 \<or>
     (\<exists>m. ?c' = CtlChunked m \<and> adjudicated_at X B ns k m etag s1))"
  proof (cases "length v > inline_max")
    case True
    then show ?thesis
      using ks_run_publish_chunked [of X B ns fuel cid k e "control_incarnation c" ver v s2 h1 etag s'] pub put key ver(1)
      by (auto simp: replacement_def)
  next
    case False
    obtain h2 h3 t s3 where "h1 = h2 @ h3"
      "ks_run X B ns (upload_conditional (raw_key ns k) (control_encode ?c') (Some e)) s2 h2 (Inr (Some t)) s3"
      "ks_run X B ns (finish_value_cas_after_publish ns k (control_incarnation c) t) s3 h3 (Inr etag) s'"
      using ks_run_publish_inline [of X B ns k e "control_incarnation c" ver v s2 h1 etag s'] pub False ver(1)
      by (auto simp: replacement_def)
    then show ?thesis
      using ks_run_publish [of X B ns k ?c' e s2 h2 t s3 h3 etag s' s2] O(2) ks_steps_refl key put next_c(3)
      by (fastforce simp: replaced_at_def)
  qed
  then obtain s1 where s1: "ks_steps X B ns s2 s1" "replaced_at X B ns k e ?c' h1 etag s1 \<or>
     (\<exists>m. ?c' = CtlChunked m \<and> adjudicated_at X B ns k m etag s1)" by blast
  moreover have "replaced_at X B ns k e ?c' h1 etag s1 \<Longrightarrow> replaced_at X B ns k e ?c' h etag s1"
    using h by (auto simp: replaced_at_def)
  ultimately show ?thesis
    using k(1) d c(1) ver(2) ks_steps_trans [OF O(1) s1(1)] by blast
qed

section \<open>Destruction closes an era\<close>

lemma ks_counter_put:
  "ks_counter ns (st_put (raw_key ns (ks_incarnation_key k)) (to_be_bytes n) s) k = Some n"
  by (simp add: ks_counter_def)

lemma ks_run_bump:
  assumes "ks_run X B ns (ks_bump_loop ns k n) s h (Inr i) s'" "ks_counter ns s k = Some c0"
    and key: "counter_key k" "counter_tags B"
  shows "\<exists>c1. ks_counter ns s' k = Some c1 \<and> c0 < c1"
  using assms(1,2)
proof (induction n arbitrary: s c0 h)
  case (Suc n)
  let ?p = "raw_key ns (ks_incarnation_key k)"
  consider (bump) h1 h2 b t nxt et u where "ks_run X B ns (download_with_etag ?p) s h1 (Inr b) t"
        "from_be_bytes (fst b) = Some nxt" "checked_add nxt 1 = Some i"
        "ks_run X B ns (upload_conditional ?p (to_be_bytes i) (Some et)) t h2 (Inr u) s'"
    | (first) h1 h2 e t u where "ks_run X B ns (download_with_etag ?p) s h1 (Inl e) t" "is_NotFound e" "i = 1"
        "ks_run X B ns (upload_conditional ?p (to_be_bytes 1) None) t h2 (Inr u) s'"
    | (again_bump) h1 h2 h3 b t nxt j et e t2 where "ks_run X B ns (download_with_etag ?p) s h1 (Inr b) t"
        "from_be_bytes (fst b) = Some nxt" "checked_add nxt 1 = Some j" "snd b = Some et"
        "ks_run X B ns (upload_conditional ?p (to_be_bytes j) (Some et)) t h2 (Inl e) t2"
        "ks_run X B ns (ks_bump_loop ns k n) t2 h3 (Inr i) s'"
    | (again_first) h1 h2 h3 e e2 t t2 where "ks_run X B ns (download_with_etag ?p) s h1 (Inl e) t"
        "ks_run X B ns (upload_conditional ?p (to_be_bytes 1) None) t h2 (Inl e2) t2"
        "ks_run X B ns (ks_bump_loop ns k n) t2 h3 (Inr i) s'"
    using Suc.prems(1) unfolding ks_bump_loop.simps
    by (elim run_elims exE disjE conjE; simp; fastforce)
  then show ?case
  proof cases
    case bump
    note D = env_run_download_with_etag [OF bump(1)]
    have "ks_counter ns t k = Some nxt" using D bump(2) by (cases b) (simp add: ks_counter_def)
    moreover obtain m where "ks_counter ns t k = Some m" "c0 \<le> m"
      using ks_steps_counter [OF conjunct1 [OF D] key(1) Suc.prems(2) key(2)] by blast
    moreover have "ks_counter ns s' k = Some i" "nxt < i"
      using env_run_put [OF bump(4)] ks_counter_put bump(3) unat_plus1 [of nxt]
      by (auto simp: checked_add_1 word_less_nat_alt split: if_splits)
    ultimately show ?thesis by auto
  next
    case first
    note D = env_run_download_with_etag [OF first(1)]
    have "ks_counter ns t k = Some 0" using D first(2) by (simp add: ks_counter_def)
    moreover obtain m where "ks_counter ns t k = Some m" "c0 \<le> m"
      using ks_steps_counter [OF conjunct1 [OF D] key(1) Suc.prems(2) key(2)] by blast
    moreover have "ks_counter ns s' k = Some 1" using env_run_put [OF first(4)] ks_counter_put by auto
    ultimately show ?thesis by auto
  next
    case again_bump
    note D = env_run_download_with_etag [OF again_bump(1)]
    have "et = tag_of B (fst b)" using D again_bump(4) by (cases b) simp
    then have "ks_req X B ns (UploadConditional ?p (to_be_bytes j) (Some et))"
      using next_counter_req [OF again_bump(2,3)] by simp
    then have "ks_steps X B ns t t2"
      using ks_run_steps [OF again_bump(5)] by (auto simp: io_all_def intro!: post_intros)
    then obtain m where "ks_counter ns t2 k = Some m" "c0 \<le> m"
      using ks_steps_counter [OF ks_steps_trans [OF conjunct1 [OF D]] key(1) Suc.prems(2) key(2)] by blast
    then show ?thesis using Suc.IH [OF again_bump(6)] by fastforce
  next
    case again_first
    note D = env_run_download_with_etag [OF again_first(1)]
    have "ks_steps X B ns t t2"
      using ks_run_steps [OF again_first(2)] kr_counter_create by (auto simp: io_all_def intro!: post_intros)
    then obtain m where "ks_counter ns t2 k = Some m" "c0 \<le> m"
      using ks_steps_counter [OF ks_steps_trans [OF conjunct1 [OF D]] key(1) Suc.prems(2) key(2)] by blast
    then show ?thesis using Suc.IH [OF again_first(3)] by fastforce
  qed
qed simp

lemma ks_destroy_closes:
  assumes run: "ks_run X B ns (ks_destroy X ns k cause actor) s h (Inr ()) s'" and found: "1 < length h"
    and k: "unreserved k" and "ks_counter ns s k = Some c0" "counter_tags B"
  shows "ks_steps X B ns s s' \<and> (\<exists>c1. ks_counter ns s' k = Some c1 \<and> c0 < c1) \<and>
    st_get s' (raw_key ns (ks_tombstone_key k)) \<noteq> None"
proof -
  let ?w = "raw_key ns (ks_tombstone_key k)"
  have steps: "ks_steps X B ns s s'" using ks_run_steps [OF run ks_destroy_req [OF k]] .
  consider (absent) h2 where "h = h2 @ []" "ks_run X B ns (read_control_era_with_etag X ns k) s h2 (Inr None) s'"
    | (found) h1 h2 h3 h4 h5 o1 ts b r i x t1 t2 t3 t4 where
      "ks_run X B ns (read_control_era_with_etag X ns k) s h1 (Inr (Some o1)) t1" "ks_run X B ns unix_millis t1 h2 ts t2"
      "ks_run X B ns (upload_conditional ?w b None) t2 h3 r t3" "case r of Inr _ \<Rightarrow> True | Inl e \<Rightarrow> is_PreconditionFailed e"
      "ks_run X B ns (ks_bump_incarnation ns k) t3 h4 (Inr i) t4"
      "ks_run X B ns (delete_conditional (raw_key ns k) (snd (snd o1))) t4 h5 x s'"
    using run unfolding ks_destroy_def prepare_destroy_def
    by (elim run_elims exE disjE conjE; simp add: ks_object_key_Inr ks_run_fail_cas; fastforce)
  then show ?thesis
  proof cases
    case absent
    then have "length h = 1" 
      by (auto simp: read_control_era_with_etag_def run_simps dest!: env_run_download_with_etag)
    then show ?thesis using found by simp
  next
    case found
    have "ks_all X B ns unix_millis" by (auto simp: io_all_def intro!: post_intros)
    then have t2: "ks_steps X B ns s t2"
      using ks_run_steps [OF found(1) read_to_ks [OF read_control_era_reads]] ks_run_steps [OF found(2)] ks_steps_trans
      by blast
    have t3: "ks_steps X B ns t2 t3"
      using ks_run_steps [OF found(3)] by (auto simp: io_all_def intro!: post_intros kr_tombstone)
    have t4: "ks_steps X B ns t3 t4"
      using ks_run_steps [OF found(5)] bump_req by (simp add: ks_bump_incarnation_def)
    have end_steps: "ks_steps X B ns t4 s'"
      using ks_run_steps [OF found(6)] k by (auto simp: io_all_def intro!: post_intros kr_delete_conditional)
    note key = unreserved_counter_key [OF k] assms(5)
    obtain m where "ks_counter ns t3 k = Some m" "c0 \<le> m"
      using ks_steps_counter [OF ks_steps_trans [OF t2 t3] key(1) assms(4) key(2)] by blast
    then obtain m' where "ks_counter ns t4 k = Some m'" "m < m'"
      using ks_run_bump [OF found(5) [unfolded ks_bump_incarnation_def] _ key] by blast
    then obtain c1 where c1: "ks_counter ns s' k = Some c1" "c0 < c1"
      using ks_steps_counter [OF end_steps key(1) _ key(2)] \<open>c0 \<le> m\<close> by fastforce
    obtain w where "st_get t3 ?w = Some w"
      using env_run_put [of "ks_steps X B ns" B ?w b None t2 h3 _ t3]
        env_run_create_taken [of "ks_steps X B ns" B ?w b t2 h3 _ t3] found(3,4)
      by (cases r) fastforce+
    moreover have "ks_write_once X ns ?w" by (auto simp: ks_write_once_def)
    ultimately have "st_get s' ?w = Some w"
      using ks_steps_write_once [OF ks_steps_trans [OF t4 end_steps]] by blast
    then show ?thesis using steps c1 by auto
  qed
qed

lemma destroyed_refuses_replacement:
  assumes "ks_run X B ns (ks_destroy X ns k cause actor) s h (Inr ()) s1" "1 < length h" "unreserved k"
    and "ks_counter ns s k = Some c0" "counter_tags B" "ext_ok X" "length cid = 16" "ks_steps X B ns s1 s2"
    and "ks_run X B ns (compare_exchange fuel X cid ns k e v) s2 h' (Inr etag) s3"
  shows "\<exists>t d c. ks_steps X B ns s2 t \<and> st_get t (raw_key ns k) = Some d \<and> tag_of B d = e \<and>
    control_decode X k d = Inr c \<and> c0 < control_incarnation c"
proof -
  obtain c1 where c1: "ks_counter ns s1 k = Some c1" "c0 < c1"
    using ks_destroy_closes [OF assms(1-5)] by blast
  obtain t d c t1 where t: "ks_steps X B ns s2 t" "st_get t (raw_key ns k) = Some d" "tag_of B d = e"
    "control_decode X k d = Inr c" "control_version c \<noteq> - 1" "ks_steps X B ns t t1" and
    at: "replaced_at X B ns k e (replacement X cid c v) h' etag t1 \<or>
      (\<exists>m. replacement X cid c v = CtlChunked m \<and> adjudicated_at X B ns k m etag t1)"
    using compare_exchange_linear [OF assms(9,6,7,5)] by blast
  have "control_incarnation (replacement X cid c v) = control_incarnation c" by (simp add: replacement_def)
  then have "ks_counter ns t1 k = Some (control_incarnation c)"
    using at by (auto simp: replaced_at_def adjudicated_at_def)
  moreover obtain m where "ks_counter ns t1 k = Some m" "c1 \<le> m"
    using ks_steps_counter [OF ks_steps_trans [OF assms(8) ks_steps_trans [OF t(1,6)]] unreserved_counter_key [OF assms(3)] c1(1) assms(5)]
    by blast
  ultimately show ?thesis using t c1(2) by fastforce
qed

end
