(* ===== verification/Keyspace_Trim.thy ===== *)
theory Keyspace_Trim
  imports Keyspace_Protocol
begin

text \<open>
  Trim certificates and the certified collection: in a store at rest the floor walk finds the
  largest certificate, with the fuel given by the number of objects; across interleaved calls the
  certified floor never decreases; a collection deletes positions below a certified floor only.
\<close>

section \<open>Order of keys\<close>

lemma prefix_less_append: "(p :: string) @ a < p @ b \<longleftrightarrow> a < b"
  by (induction p) auto

text \<open>A key between a prefix and one of its extensions has the prefix.\<close>

lemma between_prefix:
  assumes "(p :: string) < k" "k < p @ r"
  shows "prefix p k"
  using assms
proof (induction p arbitrary: k)
  case (Cons c p)
  then show ?case by (cases k) auto
qed simp

lemma less_prefix: "prefix (p :: string) k \<Longrightarrow> k \<noteq> p \<Longrightarrow> p < k"
proof -
  assume "prefix p k" "k \<noteq> p"
  then obtain c r where "k = p @ c # r" by (metis append_Nil2 neq_Nil_conv prefix_def)
  then show ?thesis using prefix_less_append [of p "[]" "c # r"] by simp
qed

section \<open>Listings of a store at rest\<close>

text \<open>The keys of a namespace in key order.\<close>

definition ns_keys :: "string \<Rightarrow> store \<Rightarrow> string list" where
  "ns_keys ns s = List.map_filter (strip_prefix (raw_key ns [])) (map fst s)"

definition ns_after :: "string \<Rightarrow> store \<Rightarrow> string \<Rightarrow> string list" where
  "ns_after ns s a = filter (\<lambda>k. a < k) (ns_keys ns s)"

lemma raw_key_split: "raw_key ns k = raw_key ns [] @ k"
  by (simp add: raw_key_def)

lemma raw_key_append: "(@) (raw_key ns []) = raw_key ns"
  by (rule ext) (rule raw_key_split [symmetric])

lemma map_filter_strip: "List.map_filter (strip_prefix p) (map ((@) p) ks) = ks"
  by (induction ks) (auto simp: List.map_filter_simps strip_prefix_def)

lemma filter_prefix_keys: "filter (prefix p) ks = map ((@) p) (List.map_filter (strip_prefix p) ks)"
  by (induction ks) (auto simp: List.map_filter_simps strip_prefix_def prefix_def)

lemma st_get_iff: "st_get s k \<noteq> None \<longleftrightarrow> k \<in> fst ` set s"
  unfolding st_get_def by (metis domIff dom_map_of_conv_image_fst)

lemma ns_keys_iff: "k \<in> set (ns_keys ns s) \<longleftrightarrow> st_get s (raw_key ns k) \<noteq> None"
proof -
  have "k \<in> set (ns_keys ns s) \<longleftrightarrow> raw_key ns [] @ k \<in> set (filter (prefix (raw_key ns [])) (map fst s))"
    unfolding filter_prefix_keys ns_keys_def by auto
  then show ?thesis unfolding st_get_iff raw_key_split [of ns k] by simp
qed

lemma sorted_wrt_map_append: "sorted_wrt (<) (map ((@) (p :: string)) ks) = sorted_wrt (<) ks"
  by (induction ks) (auto simp: prefix_less_append)

lemma ns_keys_sorted: "st_wf s \<Longrightarrow> sorted_wrt (<) (ns_keys ns s)"
  using sorted_wrt_filter [of "(<)" "map fst s" "prefix (raw_key ns [])"]
  unfolding st_wf_def filter_prefix_keys ns_keys_def sorted_wrt_map_append by simp

text \<open>A namespace is an identifier, so its listing directory is its own prefix.\<close>

lemma dir_prefix_ns:
  assumes "ns \<noteq> []" "last ns \<noteq> CHR ''/''"
  shows "dir_prefix (raw_key ns []) = raw_key ns []"
proof -
  obtain ns' c where ns: "ns = ns' @ [c]" "c \<noteq> CHR ''/''"
    using assms by (metis append_butlast_last_id)
  show ?thesis by (simp add: dir_prefix_def raw_key_def ns keyspace_root_def)
qed

lemma map_fst_filter: "map fst (filter (\<lambda>x. P (fst x)) s) = filter P (map fst s)"
  by (induction s) auto

lemma filter_map_append: "filter (\<lambda>k. p @ a < k) (map ((@) p) ks) = map ((@) p) (filter (\<lambda>k. (a :: string) < k) ks)"
  by (induction ks) (simp_all add: prefix_less_append)

lemma list_matching_ns:
  assumes "ns \<noteq> []" "last ns \<noteq> CHR ''/''"
  shows "map fst (list_matching s (raw_key ns []) (Some (raw_key ns a))) = map (raw_key ns) (ns_after ns s a)"
proof -
  let ?p = "raw_key ns []"
  have "map fst (list_matching s ?p (Some (?p @ a))) = filter (\<lambda>k. prefix ?p k \<and> ?p @ a < k) (map fst s)"
    using map_fst_filter [of "\<lambda>k. prefix ?p k \<and> ?p @ a < k" s]
    by (simp add: list_matching_def dir_prefix_ns [OF assms] comp_def case_prod_beta')
  also have "\<dots> = filter (\<lambda>k. ?p @ a < k) (filter (prefix ?p) (map fst s))"
    by (simp add: conj_commute)
  also have "\<dots> = map ((@) ?p) (ns_after ns s a)"
    unfolding filter_prefix_keys ns_after_def ns_keys_def filter_map_append by (rule refl)
  finally show ?thesis by (simp only: raw_key_split [symmetric] raw_key_append)
qed

lemma run_list_after:
  assumes "identifier_ok ns" "identifier_ok a" "n > 0"
  shows "run B (list_after ns (Some a) n) s = (Some (Inr (take n (ns_after ns s a))), s)"
proof -
  have ns: "ns \<noteq> []" "last ns \<noteq> CHR ''/''"
    using assms(1) by (auto simp: identifier_ok_def validate_identifier_def split: if_splits)
  have "List.map_filter (strip_prefix (raw_key ns [])) (map (raw_key ns) ks) = ks" for ks
    using map_filter_strip [of "raw_key ns []" ks] unfolding raw_key_append .
  moreover have "validate_identifier ''start_after'' a = Inr ()" using assms(2) by (simp only: validate_identifier_Inr)
  ultimately show ?thesis
    using assms(3) list_matching_ns [OF ns]
    by (simp only: list_after_def io_simps run_bind raw_key_append take_map Let_def option.case option.map sum.case
        prod.case run.simps if_False neq0_conv [symmetric] if_not_P)
qed

text \<open>The page after a page.\<close>

lemma filter_sorted_after:
  assumes "sorted_wrt (<) (xs :: string list)" "0 < n" "n \<le> length xs"
  shows "filter (\<lambda>k. xs ! (n - 1) < k) xs = drop n xs"
  using assms
proof (induction xs arbitrary: n)
  case (Cons x xs)
  show ?case
  proof (cases "n = 1")
    case True
    then show ?thesis using Cons.prems by (auto simp: filter_id_conv)
  next
    case False
    then obtain m where m: "n = Suc m" "0 < m" using Cons.prems by (cases n) auto
    have "x < xs ! (m - 1)" using Cons.prems m by auto
    then show ?thesis using Cons.IH [of m] Cons.prems m by (auto dest: order.asym simp: nth_Cons')
  qed
qed simp

lemma ns_after_page:
  assumes "st_wf s" "0 < n" "n \<le> length (ns_after ns s a)"
  shows "ns_after ns s (ns_after ns s a ! (n - 1)) = drop n (ns_after ns s a)"
proof -
  let ?k = "ns_after ns s a ! (n - 1)"
  have "?k \<in> set (ns_after ns s a)" using assms by simp
  then have "a < ?k" by (simp add: ns_after_def)
  then have "ns_after ns s ?k = filter (\<lambda>k. ?k < k) (ns_after ns s a)"
    by (auto simp: ns_after_def intro: filter_cong)
  also have "\<dots> = drop n (ns_after ns s a)"
    using filter_sorted_after [of "ns_after ns s a" n] ns_keys_sorted [OF assms(1), of ns] assms(2,3)
    by (simp add: ns_after_def sorted_wrt_filter)
  finally show ?thesis .
qed

section \<open>The floor walk\<close>

definition max_seq :: "u64 option \<Rightarrow> u64 \<Rightarrow> u64 option" where
  "max_seq c seq = Some (case c of None \<Rightarrow> seq | Some current \<Rightarrow> max current seq)"

definition floor_step :: "string \<Rightarrow> string \<Rightarrow> u64 option \<Rightarrow> u64 option" where
  "floor_step p k c = (case Option.bind (strip_prefix p k) parse_zero_padded of
      None \<Rightarrow> c | Some seq \<Rightarrow> max_seq c seq)"

text \<open>What the walk keeps of a list of keys: the largest parsed position below the prefix.\<close>

definition seen_floor :: "string \<Rightarrow> string list \<Rightarrow> u64 option \<Rightarrow> u64 option" where
  "seen_floor p ks c = fold (floor_step p) ks c"

lemma floor_page_step:
  "floor_page p (k # ks) after c =
    (if prefix p k \<or> k < p then floor_page p ks (Some k) (floor_step p k c) else (True, after, c))"
  by (auto simp: strip_prefix_def floor_step_def max_seq_def split: option.split)

declare floor_page.simps(2) [simp del] floor_page_step [simp]

lemma floor_page_append:
  "floor_page p (ks @ ks') after c = (case floor_page p ks after c of
      (True, r) \<Rightarrow> (True, r) | (False, after', c') \<Rightarrow> floor_page p ks' after' c')"
  by (induction ks arbitrary: after c) auto

lemma floor_page_last:
  "floor_page p ks after c = (False, after', c') \<Longrightarrow>
    after' = (if ks = [] then after else Some (last ks)) \<and> (\<forall>k\<in>set ks. prefix p k \<or> k < p)"
  by (induction ks arbitrary: after c) (auto split: if_splits)

lemma seen_floor_none: "\<forall>k\<in>set ks. \<not> prefix p k \<Longrightarrow> seen_floor p ks c = c"
  by (induction ks arbitrary: c) (auto simp: seen_floor_def floor_step_def strip_prefix_def)

lemma floor_page_sorted:
  "sorted_wrt (<) ks \<Longrightarrow> snd (snd (floor_page p ks after c)) = seen_floor p ks c"
proof (induction ks arbitrary: after c)
  case (Cons k ks)
  show ?case
  proof (cases "prefix p k \<or> k < p")
    case True
    then show ?thesis using Cons by (simp add: seen_floor_def)
  next
    case False
    then have "p < k" by (metis linorder_less_linear prefix_order.refl)
    then have "\<forall>k'\<in>set (k # ks). \<not> prefix p k'"
      using Cons.prems False between_prefix by (fastforce simp: prefix_def)
    then show ?thesis using seen_floor_none [of "k # ks" p c] False by simp
  qed
qed (simp add: seen_floor_def)

lemma last_page: "0 < n \<Longrightarrow> n \<le> length xs \<Longrightarrow> take n xs \<noteq> [] \<and> last (take n xs) = xs ! (n - 1) \<and> xs ! (n - 1) \<in> set (take n xs)"
  by (cases "take n xs = []") (auto simp: last_conv_nth min_def in_set_conv_nth intro!: exI [of _ "n - 1"])

lemma run_floor_loop:
  assumes "st_wf s" "identifier_ok ns" "identifier_ok a"
    and "\<forall>k\<in>set (ns_after ns s a). identifier_ok k \<or> p < k \<and> \<not> prefix p k"
    and "length (ns_after ns s a) < fuel * 1000"
  shows "run B (floor_loop fuel ns p (Some a) c) s = (Some (Inr (seen_floor p (ns_after ns s a) c)), s)"
  using assms(3-5)
proof (induction fuel arbitrary: a c)
  case (Suc fuel)
  let ?L = "ns_after ns s a"
  have sorted: "sorted_wrt (<) ?L" using ns_keys_sorted [OF assms(1)] by (simp add: ns_after_def sorted_wrt_filter)
  obtain stop after' c' where page: "floor_page p (take 1000 ?L) (Some a) c = (stop, after', c')" by (cases "floor_page p (take 1000 ?L) (Some a) c")
  have whole: "seen_floor p ?L c = snd (snd (floor_page p ?L (Some a) c))" using floor_page_sorted [OF sorted] by simp
  have split: "floor_page p ?L (Some a) c = (case floor_page p (take 1000 ?L) (Some a) c of
      (True, r) \<Rightarrow> (True, r) | (False, after', c') \<Rightarrow> floor_page p (drop 1000 ?L) after' c')"
    using floor_page_append [of p "take 1000 ?L" "drop 1000 ?L"] by simp
  have list: "run B (list_after ns (Some a) 1000) s = (Some (Inr (take 1000 ?L)), s)"
    using run_list_after assms(2) Suc.prems(1) by simp
  show ?case
  proof (cases stop)
    case True
    then have "seen_floor p ?L c = c'" using whole split page by simp
    then show ?thesis using list page True by (simp add: run_try)
  next
    case False
    note cont = False
    have last': "after' = (if take 1000 ?L = [] then Some a else Some (last (take 1000 ?L)))"
      using floor_page_last [of p "take 1000 ?L"] page cont by simp
    have inside: "\<forall>k\<in>set (take 1000 ?L). prefix p k \<or> k < p"
      using floor_page_last [of p "take 1000 ?L"] page cont by simp
    show ?thesis
    proof (cases "length ?L < 1000")
      case True
      then have all: "drop 1000 ?L = []" by simp
      have "seen_floor p ?L c = c'"
        unfolding whole split page using cont all by (simp only: prod.case bool.case floor_page.simps(1) snd_conv)
      then show ?thesis using list page cont True by (simp add: run_try)
    next
      case False
      let ?k = "?L ! (1000 - 1)"
      have len: "1000 \<le> length ?L" using False by simp
      note page_end = last_page [OF _ len, simplified]
      have k: "after' = Some ?k" using last' page_end by simp
      have next_page: "ns_after ns s ?k = drop 1000 ?L" using ns_after_page [OF assms(1) _ len] by simp
      have "\<not> (p < ?k \<and> \<not> prefix p ?k)" using inside page_end by fastforce
      then have "identifier_ok ?k" using Suc.prems(2) len by auto
      moreover have "\<forall>k\<in>set (drop 1000 ?L). identifier_ok k \<or> p < k \<and> \<not> prefix p k"
        using Suc.prems(2) in_set_dropD by fast
      moreover have "length (drop 1000 ?L) < fuel * 1000" using Suc.prems(3) len by simp
      ultimately have "run B (floor_loop fuel ns p (Some ?k) c') s = (Some (Inr (seen_floor p (drop 1000 ?L) c')), s)"
        using Suc.IH [of ?k c'] unfolding next_page by blast
      moreover have "seen_floor p ?L c = seen_floor p (drop 1000 ?L) c'"
        using whole split page cont floor_page_sorted [of "drop 1000 ?L"] sorted by (simp add: sorted_wrt_drop)
      ultimately show ?thesis using list page cont len k by (simp add: run_try)
    qed
  qed
qed simp

section \<open>The certified floor\<close>

definition certificates :: "string \<Rightarrow> store \<Rightarrow> string \<Rightarrow> u64 set" where
  "certificates ns s scope = {seq. st_get s (raw_key ns (certificate_key scope seq)) \<noteq> None}"

definition certified_floor :: "string \<Rightarrow> store \<Rightarrow> string \<Rightarrow> u64 option" where
  "certified_floor ns s scope = (if certificates ns s scope = {} then None else Some (Max (certificates ns s scope)))"

text \<open>The keys that follow the sentinel of the scope and that a page may end at are identifiers:
  witnesses and counters of very long keys are elsewhere.\<close>

definition trim_listable :: "string \<Rightarrow> store \<Rightarrow> string \<Rightarrow> bool" where
  "trim_listable ns s scope \<longleftrightarrow> (\<forall>k. st_get s (raw_key ns k) \<noteq> None \<longrightarrow>
    prefix (if scope = [] then ''trims'' else scope @ ''/trims'') k \<longrightarrow> identifier_ok k)"

lemma max_seq_fold:
  "fold (\<lambda>q c. max_seq c q) qs c = (if qs = [] then c else Some (case c of None \<Rightarrow> Max (set qs) | Some m \<Rightarrow> max m (Max (set qs))))"
proof (induction qs arbitrary: c)
  case (Cons q qs)
  then show ?case by (cases "qs = []") (auto simp: max_seq_def max.assoc split: option.split)
qed simp

lemma seen_floor_seqs:
  "seen_floor p ks c = fold (\<lambda>q c. max_seq c q) (List.map_filter (\<lambda>k. Option.bind (strip_prefix p k) parse_zero_padded) ks) c"
  by (induction ks arbitrary: c) (auto simp: seen_floor_def floor_step_def List.map_filter_simps split: option.split)

lemma map_filter_set: "set (List.map_filter f xs) = {y. \<exists>x\<in>set xs. f x = Some y}"
  by (force simp: List.map_filter_def)

lemma trim_sentinel:
  assumes "trim_cert_prefix scope = Inr p"
  defines "start \<equiv> if scope = [] then ''trims'' else scope @ ''/trims''"
  shows "p = start @ ''/''" "\<And>seq. certificate_key scope seq = p @ zero_padded seq"
proof -
  show p: "p = start @ ''/''" using assms by (auto simp: trim_cert_prefix_def try_res_Inr_iff split: if_splits)
  show "certificate_key scope seq = p @ zero_padded seq" for seq using trim_cert_prefix_Inr [OF assms(1)] by simp
qed

lemma run_trim_floor:
  assumes "st_wf s" "identifier_ok ns" "trim_cert_prefix scope = Inr p" "length s < fuel * 1000"
    and "identifier_ok (if scope = [] then ''trims'' else scope @ ''/trims'')" "trim_listable ns s scope"
  shows "run B (trim_floor fuel ns scope) s = (Some (Inr (certified_floor ns s scope)), s)"
proof -
  let ?start = "if scope = [] then ''trims'' else scope @ ''/trims''" and ?f = "\<lambda>k. Option.bind (strip_prefix p k) parse_zero_padded"
  let ?L = "ns_after ns s ?start"
  note p = trim_sentinel [OF assms(3)]
  have "length ?L \<le> length (ns_keys ns s)" by (simp add: ns_after_def)
  also have "\<dots> \<le> length s" unfolding ns_keys_def by (metis length_filter_le length_map filter_prefix_keys)
  finally have len: "length ?L < fuel * 1000" using assms(4) by simp
  have "identifier_ok k \<or> p < k \<and> \<not> prefix p k" if "k \<in> set ?L" for k
  proof (cases "prefix ?start k")
    case True
    then show ?thesis using that assms(6) by (auto simp: ns_after_def ns_keys_iff trim_listable_def)
  next
    case False
    have "?start < k" using that by (simp add: ns_after_def)
    then have "\<not> k < ?start @ r" for r using False between_prefix by blast
    then have "\<not> k < p" "\<not> prefix p k" unfolding p(1) using False by (auto simp: prefix_def)
    then show ?thesis by (metis linorder_less_linear prefix_order.refl)
  qed
  then have loop: "run B (floor_loop fuel ns p (Some ?start) None) s = (Some (Inr (seen_floor p ?L None)), s)"
    using run_floor_loop [OF assms(1,2,5)] len by blast
  have after: "?start < certificate_key scope seq" for seq
    unfolding p by (rule less_prefix) (auto simp: prefix_def)
  have "set (List.map_filter ?f ?L) = certificates ns s scope"
    using after by (auto simp: map_filter_set certificates_def ns_after_def ns_keys_iff p(2) parse_zero_padded_iff bind_eq_Some_conv)
  then have "seen_floor p ?L None = certified_floor ns s scope"
    unfolding seen_floor_seqs max_seq_fold certified_floor_def by (metis (no_types, lifting) option.case(1) set_empty)
  then show ?thesis using loop by (simp add: trim_floor_def assms(3) io_simps Let_def)
qed

text \<open>Across interleaved calls the certified floor never decreases.\<close>

lemma finite_seqs: "finite (A :: u64 set)"
  by (rule finite_subset [OF subset_UNIV]) simp

lemma certificates_grow:
  assumes "ks_steps X B ns s s'" "certified_scope scope"
  shows "certificates ns s scope \<subseteq> certificates ns s' scope"
proof
  fix seq assume "seq \<in> certificates ns s scope"
  then obtain b where b: "st_get s (raw_key ns (certificate_key scope seq)) = Some b" by (auto simp: certificates_def)
  have "ks_write_once X ns (raw_key ns (certificate_key scope seq))" using assms(2) by (auto simp: ks_write_once_def)
  then show "seq \<in> certificates ns s' scope"
    using ks_steps_write_once [OF assms(1) _ b] by (simp add: certificates_def)
qed

lemma floor_monotone:
  assumes "ks_steps X B ns s s'" "certified_scope scope" "certified_floor ns s scope = Some f"
  shows "\<exists>f'. certified_floor ns s' scope = Some f' \<and> f \<le> f'"
proof -
  have "certificates ns s scope \<noteq> {}" "f = Max (certificates ns s scope)"
    using assms(3) by (auto simp: certified_floor_def split: if_splits)
  then show ?thesis
    using certificates_grow [OF assms(1,2)] Max_mono [OF _ _ finite_seqs] by (auto simp: certified_floor_def)
qed

section \<open>Scopes\<close>

text \<open>The scopes whose certificates fit the length of an identifier.\<close>

definition trim_scope :: "string \<Rightarrow> bool" where
  "trim_scope scope \<longleftrightarrow> scope = [] \<or> identifier_ok scope \<and> length scope \<le> 228"

lemma segment_trims [simp]: "segment_ok ''trims''"
  by code_simp

lemma segment_digits: "list_all ascii_digit ds \<Longrightarrow> ds \<noteq> [] \<Longrightarrow> segment_ok ds"
  by (cases ds) (auto simp: list_all_iff ascii_alphanumeric_def)

lemma identifier_append:
  assumes "identifier_ok v" "segment_ok seg" "CHR ''/'' \<notin> set seg" "length v + length seg < 255"
  shows "identifier_ok (v @ CHR ''/'' # seg)"
proof -
  have "seg \<noteq> []" using assms(2) by auto
  then have "last seg \<noteq> CHR ''/''" using assms(3) last_in_set by metis
  then show ?thesis using identifier_okD [OF assms(1)] assms(2-4) \<open>seg \<noteq> []\<close>
    by (auto simp: identifier_ok_def validate_identifier_def split_at_append_sep split_at_no_sep)
qed

lemma trim_scope_ok:
  assumes "trim_scope scope"
  shows "\<exists>p. trim_cert_prefix scope = Inr p" "identifier_ok (if scope = [] then ''trims'' else scope @ ''/trims'')"
    "identifier_ok (certificate_key scope seq)"
proof -
  show "\<exists>p. trim_cert_prefix scope = Inr p" using assms by (auto simp: trim_scope_def trim_cert_prefix_def try_res_Inr_iff)
  have trims: "identifier_ok ''trims''" by code_simp
  then show start: "identifier_ok (if scope = [] then ''trims'' else scope @ ''/trims'')"
    using assms identifier_append [OF _ segment_trims, of scope] by (auto simp: trim_scope_def)
  have "length (if scope = [] then ''trims'' else scope @ ''/trims'') \<le> 234" using assms by (auto simp: trim_scope_def)
  then have "identifier_ok ((if scope = [] then ''trims'' else scope @ ''/trims'') @ CHR ''/'' # zero_padded seq)"
    using start segment_digits [of "zero_padded seq"] by (intro identifier_append) auto
  then show "identifier_ok (certificate_key scope seq)" by (simp add: certificate_key_def split: if_splits)
qed

section \<open>Proposals\<close>

lemma max_insert: "A \<noteq> {} \<Longrightarrow> Max (insert x A) = max x (Max (A :: u64 set))"
  using Max_insert finite_seqs by blast

lemma certificates_put:
  "certificates ns (st_put (raw_key ns (certificate_key scope f)) b s) scope = insert f (certificates ns s scope)"
  by (auto simp: certificates_def certificate_key_def)

lemma trim_listable_put:
  assumes "trim_listable ns s scope" "identifier_ok k"
  shows "trim_listable ns (st_put (raw_key ns k) b s) scope"
  using assms by (simp add: trim_listable_def)

lemma length_st_put: "length (st_put k b s) \<le> Suc (length s)"
  by (induction k b s rule: st_put.induct) auto

lemma seq_key_not_fence: "\<not> suffix ''/fences/gc'' (x @ zero_padded f)"
proof
  assume "suffix ''/fences/gc'' (x @ zero_padded f)"
  then obtain q where "x @ zero_padded f = q @ ''/fences/gc''" by (auto simp: suffix_def)
  then have "last (x @ zero_padded f) = last (q @ ''/fences/gc'')" by (rule arg_cong)
  then have "last (zero_padded f) = CHR ''c''" by simp
  then have "CHR ''c'' \<in> set (zero_padded f)" using last_in_set [of "zero_padded f"] by simp
  then show False using digits_zero_padded [of f] by (auto simp: list_all_iff ascii_digit_def)
qed

text \<open>A proposal in a store at rest: below the floor it is refused, at the floor it changes nothing,
  above the floor it becomes the floor.\<close>

lemma run_propose_trim:
  assumes "st_wf s" "identifier_ok ns" "trim_cert_prefix scope = Inr p" "Suc (length s) < fuel * 1000"
    and "identifier_ok (if scope = [] then ''trims'' else scope @ ''/trims'')" "trim_listable ns s scope"
    and "identifier_ok (certificate_key scope f)"
  shows "run B (propose_trim fuel ns scope f) s =
    (case certified_floor ns s scope of
       Some c \<Rightarrow> if f < c then (Some (Inl (KsTrimNotMonotone f c)), s)
                 else if f = c then (Some (Inr \<lparr>trim_first_retained = c, trim_advanced = False\<rparr>), s)
                 else (Some (Inr \<lparr>trim_first_retained = f, trim_advanced = True\<rparr>),
                       st_put (raw_key ns (certificate_key scope f)) trim_certificate s)
     | None \<Rightarrow> (Some (Inr \<lparr>trim_first_retained = f, trim_advanced = True\<rparr>),
               st_put (raw_key ns (certificate_key scope f)) trim_certificate s))"
proof -
  let ?k = "certificate_key scope f" and ?s' = "st_put (raw_key ns (certificate_key scope f)) trim_certificate s"
  have p: "p @ zero_padded f = ?k" using trim_cert_prefix_Inr [OF assms(3)] .
  have floor: "run B (trim_floor fuel ns scope) s = (Some (Inr (certified_floor ns s scope)), s)"
    using run_trim_floor [OF assms(1-3)] assms(4-6) by simp
  have floor': "run B (trim_floor fuel ns scope) ?s' = (Some (Inr (certified_floor ns ?s' scope)), ?s')"
    using run_trim_floor [OF st_wf_put [OF assms(1)] assms(2,3) _ assms(5) trim_listable_put [OF assms(6,7)]]
      assms(4) length_st_put le_less_trans by blast
  have obj: "ks_object_key ns ?k = Inr (raw_key ns ?k)"
    using assms(7) seq_key_not_fence [of "raw_key ns p" f] p [symmetric]
    by (auto simp: ks_object_key_Inr raw_key_def)
  have advance: "run B (certify_trim fuel ns scope p f) s = (Some (Inr \<lparr>trim_first_retained = f, trim_advanced = True\<rparr>), ?s')"
    if "\<And>c. certified_floor ns s scope = Some c \<Longrightarrow> c < f"
  proof -
    have "f \<notin> certificates ns s scope"
    proof
      assume f: "f \<in> certificates ns s scope"
      then have "certified_floor ns s scope = Some (Max (certificates ns s scope))" by (auto simp: certified_floor_def)
      then have "Max (certificates ns s scope) < f" by (rule that)
      then show False using Max_ge [OF finite_seqs f] by simp
    qed
    then have absent: "st_get s (raw_key ns ?k) = None" by (simp add: certificates_def)
    have "certified_floor ns ?s' scope = Some f"
    proof (cases "certificates ns s scope = {}")
      case False
      then have "Max (certificates ns s scope) < f" using that by (simp add: certified_floor_def)
      then show ?thesis using False max_insert by (simp add: certified_floor_def certificates_put max_absorb1 less_imp_le)
    qed (simp add: certified_floor_def certificates_put)
    then show ?thesis
      using floor' by (simp add: certify_trim_def p obj run_bind run_try io_simps absent)
  qed
  show ?thesis
    using advance floor by (auto simp: propose_trim_def assms(3) run_try io_simps split: option.split)
qed

section \<open>Certified collection\<close>

text \<open>What a collection may delete: a position of the data keys, of their witnesses or of their
  counters, above the genesis and below the bound.\<close>

definition collectable :: "string \<Rightarrow> u64 \<Rightarrow> string \<Rightarrow> bool" where
  "collectable data_prefix bound k \<longleftrightarrow> (\<exists>q seq. q \<in> {data_prefix, ks_tombstone_key data_prefix, ks_incarnation_key data_prefix} \<and>
    k = q @ zero_padded seq \<and> 0 < seq \<and> seq < bound)"

lemma walk_page_pending:
  "walk_page kg p f ks after pending = (stop, after', pending') \<Longrightarrow>
    \<forall>k\<in>set pending'. k \<in> set pending \<or> (\<exists>seq. k = p @ zero_padded seq \<and> 0 < seq \<and> seq < f)"
proof (induction ks arbitrary: after pending)
  case (Cons k ks)
  show ?case
  proof (cases "Option.bind (strip_prefix p k) parse_zero_padded")
    case None
    then show ?thesis using Cons.prems by auto
  next
    case (Some seq)
    then have k: "k = p @ zero_padded seq" by (auto simp: bind_eq_Some_conv parse_zero_padded_iff)
    consider "seq = 0" | "seq \<noteq> 0" "seq \<ge> f" | "seq \<noteq> 0" "0 < seq" "\<not> f \<le> seq" "seq < f" by (metis word_neq_0_conv not_le)
    then show ?thesis
    proof cases
      case 3
      then have "walk_page kg p f ks (Some k) (pending @ [k]) = (stop, after', pending')"
        using Cons.prems Some 3 by auto
      from Cons.IH [OF this] show ?thesis using 3 k by auto
    qed (use Cons Some in \<open>auto split: if_splits\<close>)
  qed
qed simp

text \<open>In any environment: the requests of a walk are listings, and what it collects is
  collectable.\<close>

definition walked :: "string \<Rightarrow> u64 \<Rightarrow> string list \<Rightarrow> string list \<Rightarrow> bool" where
  "walked p f pending pending' \<longleftrightarrow> (\<forall>k\<in>set pending'. k \<in> set pending \<or> (\<exists>seq. k = p @ zero_padded seq \<and> 0 < seq \<and> seq < f))"

lemma walk_loop_post:
  assumes "\<And>e. Q (Inl e)" "\<And>pending'. walked p f pending pending' \<Longrightarrow> Q (Inr pending')" "\<And>q. is_read q \<Longrightarrow> P q"
  shows "io_post V P Q (walk_loop fuel kg ns p f after pending)"
  using assms(2)
proof (induction fuel arbitrary: after pending)
  case (Suc fuel)
  have list: "io_post V P (\<lambda>r. case r of Inl e \<Rightarrow> Q (Inl e) | Inr ks \<Rightarrow> Q' ks) (list_after ns after n)"
    if "\<And>ks. Q' ks" for Q' n
    unfolding list_after_def Let_def using that assms(1,3)
    by (auto intro!: post_intros split: sum.split option.split)
  have "Q (Inr pending)" using Suc.prems by (simp add: walked_def)
  moreover have "Q (Inr pending')" if "walk_page kg p f ks after pending = (True, after', pending')" for ks after' pending'
    by (rule Suc.prems) (use walk_page_pending [OF that] in \<open>simp add: walked_def\<close>)
  moreover have "io_post V P Q (walk_loop fuel kg ns p f after' pending')"
    if "walk_page kg p f ks after pending = (False, after', pending')" for ks after' pending'
  proof (rule Suc.IH)
    fix p' assume "walked p f pending' p'"
    then have "walked p f pending p'" using walk_page_pending [OF that] unfolding walked_def by blast
    then show "Q (Inr p')" by (rule Suc.prems)
  qed
  ultimately show ?case
    by (auto intro!: io_post_try list split: prod.split bool.split)
qed simp

definition collect_req :: "string \<Rightarrow> string \<Rightarrow> u64 \<Rightarrow> req \<Rightarrow> bool" where
  "collect_req ns data_prefix bound q \<longleftrightarrow> is_read q \<or> (\<exists>k. collectable data_prefix bound k \<and> q = DeleteKey (raw_key ns k))"

lemma sweep_pending_req:
  "\<forall>k\<in>set ks. collectable d f k \<Longrightarrow> io_all B (collect_req ns d f) (sweep_pending ns ks r)"
  unfolding io_all_def
proof (induction ks arbitrary: r)
  case (Cons k ks)
  then show ?case
    by (auto intro!: post_intros simp: Let_def ks_object_key_Inr collect_req_def split: sum.split)
qed simp

lemma delete_below_req: "io_all B (collect_req ns d f) (delete_below fuel ns scope d f)"
proof -
  have read: "\<And>q. is_read q \<Longrightarrow> collect_req ns d f q" by (simp add: collect_req_def)
  have trim: "io_post (reply_ok B) (collect_req ns d f) (\<lambda>_. True) (trim_floor fuel ns scope)"
    using io_all_mono [OF trim_floor_reads read] by (simp add: io_all_def)
  have coll: "walked d f [] p1 \<Longrightarrow> walked (ks_tombstone_key d) f p1 p2 \<Longrightarrow> walked (ks_incarnation_key d) f p2 p3 \<Longrightarrow>
      k \<in> set p3 \<Longrightarrow> collectable d f k" for p1 p2 p3 k
    unfolding walked_def collectable_def by fastforce
  show ?thesis unfolding delete_below_def Let_def io_all_def
    by (auto intro!: post_intros walk_loop_post read sweep_pending_req [unfolded io_all_def] coll io_post_mono [OF trim]
        split: sum.split)
qed

end
