(* ===== verification/Keyspace_Scenario.thy ===== *)
theory Keyspace_Scenario
  imports Keyspace_Functional Keyspace_Eras Keyspace_Trim Kernel_Scenario
begin

text \<open>
  A concrete namespace for the witnesses: a value is created, replaced and destroyed; a scope is
  trimmed.
\<close>

section \<open>A value\<close>

definition demo_ns :: string where "demo_ns = ''shop''"
definition demo_key :: string where "demo_key = ''cart''"
definition demo_ids :: "nat \<Rightarrow> bytes" where "demo_ids n = replicate 16 0"

abbreviation demo_control :: "u64 \<Rightarrow> bytes \<Rightarrow> control_envelope" where
  "demo_control ver v \<equiv> CtlInline \<lparr>ve_incarnation = 0, ve_version = ver, ve_payload = v\<rparr>"

definition cart_store :: store where
  "cart_store = st_put (raw_key demo_ns demo_key) (control_encode (demo_control 0 [1])) []"

definition next_store :: store where
  "next_store = st_put (raw_key demo_ns demo_key) (control_encode (demo_control 1 [2])) cart_store"

definition cart_tag :: etag where
  "cart_tag = tag_of demo_backend (control_encode (demo_control 0 [1]))"

lemma demo_identifiers [simp]: "identifier_ok demo_ns" "identifier_ok demo_key" "unreserved demo_key"
  "ks_object_key demo_ns demo_key = Inr (raw_key demo_ns demo_key)"
proof -
  show "identifier_ok demo_ns" "identifier_ok demo_key" "unreserved demo_key" by code_simp+
  then show "ks_object_key demo_ns demo_key = Inr (raw_key demo_ns demo_key)"
    by (simp add: ks_object_key_Inr raw_key_def demo_ns_def demo_key_def keyspace_root_def suffix_def)
qed

lemma demo_ids_ok [simp]: "ids_ok demo_ids" "length (demo_ids n) = 16"
  by (simp_all add: ids_ok_def demo_ids_def)

lemma short_inline: "length v \<le> 1 \<Longrightarrow> \<not> inline_max < length v \<and> length v \<le> unat max_logical_bytes"
  by (simp add: manifest_sizes max_logical_bytes_eq)

lemma demo_writable: "length v \<le> 1 \<Longrightarrow> ks_counter demo_ns s demo_key = Some i \<Longrightarrow> writable demo_ext demo_ns demo_key i ver v s"
  using short_inline [of v] by (simp add: writable_def chunks_for_def slots_clean_def)

lemma cart_facts:
  "ks_counter demo_ns [] demo_key = Some 0" "ks_counter demo_ns cart_store demo_key = Some 0"
  "st_get cart_store (raw_key demo_ns demo_key) = Some (control_encode (demo_control 0 [1]))"
  "control_decode demo_ext demo_key (control_encode (demo_control 0 [1])) = Inr (demo_control 0 [1])"
  using unreservedD(2) [of demo_key demo_key]
  by (simp_all add: ks_counter_def cart_store_def control_decode_encode del: control_encode.simps st_put.simps)

lemma cart_create_run:
  "run demo_backend (ks_create 2 demo_ext demo_ids demo_ns demo_key [1]) [] = (Some (Inr ()), cart_store)"
  using run_ks_create [of demo_ext demo_ns demo_key 0 "[1]" "[]" demo_ids demo_backend 2] cart_facts(1) demo_writable [of "[1]" "[]" 0 0]
    short_inline [of "[1]"]
  by (simp add: written_store_def control_of_def chunks_for_def staged_def cart_store_def)

lemma cart_replace_run:
  "run demo_backend (compare_exchange 2 demo_ext (demo_ids 0) demo_ns demo_key cart_tag [2]) cart_store =
    (Some (Inr (tag_of demo_backend (control_encode (demo_control 1 [2])))), next_store)"
  using run_compare_exchange [of demo_ext demo_ns demo_key "demo_control 0 [1]" "[2]" cart_store
      "control_encode (demo_control 0 [1])" demo_backend 2 "demo_ids 0"] cart_facts demo_writable [of "[2]" cart_store 0 1]
    short_inline [of "[2]"]
  by (simp add: written_store_def control_of_def chunks_for_def staged_def next_store_def cart_tag_def)

section \<open>Its end\<close>

definition cart_witness :: bytes where
  "cart_witness = (case tombstone_encode demo_ext (tombstone_new 0 0 ''why'' ''me'' 42) of Inr b \<Rightarrow> b | Inl _ \<Rightarrow> [])"

definition gone_store :: store where
  "gone_store = snd (run demo_backend (ks_destroy demo_ext demo_ns demo_key ''why'' ''me'') cart_store)"

lemma cart_destroy_run:
  "run demo_backend (ks_destroy demo_ext demo_ns demo_key ''why'' ''me'') cart_store = (Some (Inr ()), gone_store)"
  "ks_counter demo_ns gone_store demo_key = Some 1" "st_get gone_store (raw_key demo_ns demo_key) = None"
proof -
  obtain w where w: "tombstone_encode demo_ext (tombstone_new 0 0 ''why'' ''me'' 42) = Inr w"
    using tombstone_encode_total [OF demo_ext_ok] by blast
  have "clock_reading demo_backend = 42" by (simp add: clock_reading_def demo_backend_def)
  then have run: "run demo_backend (ks_destroy demo_ext demo_ns demo_key ''why'' ''me'') cart_store = (Some (Inr ()),
    st_del (raw_key demo_ns demo_key) (st_put (raw_key demo_ns (ks_incarnation_key demo_key)) (to_be_bytes 1)
      (put_if_absent (raw_key demo_ns (ks_tombstone_key demo_key)) w cart_store)))"
    using run_destroy [of demo_ns demo_key cart_store "control_encode (demo_control 0 [1])" demo_ext "demo_control 0 [1]" 0
        "''why''" "''me''" demo_backend w] cart_facts w by simp
  then show "run demo_backend (ks_destroy demo_ext demo_ns demo_key ''why'' ''me'') cart_store = (Some (Inr ()), gone_store)"
    by (simp add: gone_store_def)
  show "ks_counter demo_ns gone_store demo_key = Some 1"
    using run unreservedD(2) [of demo_key demo_key] by (simp add: gone_store_def ks_counter_def)
  show "st_get gone_store (raw_key demo_ns demo_key) = None"
    using run by (simp add: gone_store_def)
qed

lemmas gone_store_value = cart_destroy_run(3)

lemma cart_destroy_history:
  "1 < length (hist demo_backend (ks_destroy demo_ext demo_ns demo_key ''why'' ''me'') cart_store)"
proof -
  have "run demo_backend (read_control_era_with_etag demo_ext demo_ns demo_key) cart_store =
      (Some (Inr (Some (0, 0, cart_tag))), cart_store)"
    using cart_facts by (simp add: read_control_era_with_etag_def run_bind io_simps cart_tag_def)
  then show ?thesis
    by (simp add: ks_destroy_def prepare_destroy_def io_try_def hist_bind unix_millis_def run_bind lift_res_def
        read_control_era_with_etag_def download_with_etag_def split: option.split sum.split)
qed

section \<open>A second era\<close>

definition second_control :: "u64 \<Rightarrow> bytes \<Rightarrow> control_envelope" where
  "second_control ver v = CtlInline \<lparr>ve_incarnation = 1, ve_version = ver, ve_payload = v\<rparr>"

definition reborn_store :: store where
  "reborn_store = st_put (raw_key demo_ns demo_key) (control_encode (second_control 0 [3])) gone_store"

lemma reborn_run:
  "run demo_backend (ks_create 2 demo_ext demo_ids demo_ns demo_key [3]) gone_store = (Some (Inr ()), reborn_store)"
proof -
  have "st_get gone_store (raw_key demo_ns demo_key) = None" by (simp add: gone_store_value)
  then show ?thesis
    using run_ks_create [of demo_ext demo_ns demo_key 1 "[3]" gone_store demo_ids demo_backend 2] cart_destroy_run(2)
      demo_writable [of "[3]" gone_store 1 0] short_inline [of "[3]"]
    by (simp add: written_store_def control_of_def chunks_for_def staged_def reborn_store_def second_control_def)
qed

lemma reborn_counter: "ks_counter demo_ns reborn_store demo_key = Some 1"
  using unreservedD(2) [of demo_key demo_key] cart_destroy_run(2)
  by (simp add: ks_counter_def reborn_store_def del: st_put.simps control_encode.simps)

lemma reborn_replace_run:
  "\<exists>t. run demo_backend (compare_exchange 2 demo_ext (demo_ids 0) demo_ns demo_key
      (tag_of demo_backend (control_encode (second_control 0 [3]))) [4]) reborn_store =
    (Some (Inr (tag_of demo_backend (control_encode (second_control 1 [4])))), t)"
proof -
  have "control_decode demo_ext demo_key (control_encode (second_control 0 [3])) = Inr (second_control 0 [3])"
    by (rule control_decode_encode) (simp add: second_control_def)
  then show ?thesis
    using run_compare_exchange [of demo_ext demo_ns demo_key "second_control 0 [3]" "[4]" reborn_store
        "control_encode (second_control 0 [3])" demo_backend 2 "demo_ids 0"]
      demo_writable [of "[4]" reborn_store 1 1] reborn_counter short_inline [of "[4]"]
    by (simp add: second_control_def control_of_def reborn_store_def del: st_put.simps control_encode.simps)
qed

section \<open>A pool\<close>

lemma run_ks_run: "run B m s = (Some a, s') \<Longrightarrow> ks_run X B ns m s (hist B m s) a s'"
  by (erule run_env_run) (rule ks_steps_refl)

lemma cart_pool:
  "pool_reach demo_backend ([], map (ks_serve demo_ext) [(demo_ns, 2, demo_ids, KsCreate demo_key [1])])
    (cart_store, [Ret ()])"
  using run_pool [of demo_backend "ks_serve demo_ext (demo_ns, 2, demo_ids, KsCreate demo_key [1])" "[]" "()" cart_store]
  by (simp add: io_map_def run_bind cart_create_run)

lemma end_pool:
  "pool_reach demo_backend (cart_store, map (ks_serve demo_ext) [(demo_ns, 2, demo_ids, KsDestroy demo_key ''why'' ''me'')])
    (gone_store, [Ret ()])"
  using run_pool [of demo_backend "ks_serve demo_ext (demo_ns, 2, demo_ids, KsDestroy demo_key ''why'' ''me'')" cart_store "()" gone_store]
  by (simp add: io_map_def run_bind cart_destroy_run)

lemma rebirth_pool:
  "pool_reach demo_backend (gone_store, map (ks_serve demo_ext) [(demo_ns, 2, demo_ids, KsCreate demo_key [3])])
    (reborn_store, [Ret ()])"
  using run_pool [of demo_backend "ks_serve demo_ext (demo_ns, 2, demo_ids, KsCreate demo_key [3])" gone_store "()" reborn_store]
  by (simp add: io_map_def run_bind reborn_run)

section \<open>A trimmed scope\<close>

definition demo_scope :: string where "demo_scope = ''log''"

definition trimmed_store :: store where
  "trimmed_store = st_put (raw_key demo_ns (certificate_key demo_scope 5)) trim_certificate []"

lemma demo_scope_ok [simp]: "trim_scope demo_scope" "certified_scope demo_scope"
  by (simp_all add: trim_scope_def certified_scope_def demo_scope_def incarnation_root_def) code_simp

lemma trimmed_facts:
  "st_wf trimmed_store" "trim_listable demo_ns trimmed_store demo_scope" "length trimmed_store = 1"
  "certified_floor demo_ns trimmed_store demo_scope = Some 5" "trim_listable demo_ns [] demo_scope"
  "certified_floor demo_ns [] demo_scope = None"
proof -
  have certs: "certificates demo_ns trimmed_store demo_scope = {5}" "certificates demo_ns [] demo_scope = {}"
    using certificates_put [of demo_ns demo_scope 5 trim_certificate "[]"]
    by (simp_all add: trimmed_store_def certificates_def del: st_put.simps)
  show "certified_floor demo_ns trimmed_store demo_scope = Some 5" "certified_floor demo_ns [] demo_scope = None"
    by (simp_all add: certified_floor_def certs)
  show "st_wf trimmed_store" "length trimmed_store = 1" by (simp_all add: trimmed_store_def st_wf_def)
  show empty: "trim_listable demo_ns [] demo_scope" by (simp add: trim_listable_def)
  show "trim_listable demo_ns trimmed_store demo_scope"
    using trim_listable_put [OF empty trim_scope_ok(3) [OF demo_scope_ok(1), of 5]] by (simp add: trimmed_store_def)
qed

end
