(* ===== verification/Keyspace_Theorems.thy ===== *)
theory Keyspace_Theorems
  imports Keyspace_Scenario
begin

text \<open>
  The properties of the keyspace: interleaved calls and eras, create and replace in a store at
  rest, trim certificates, the canonical forms and the streamed writer, each with the witness that
  applies it to the namespace of \<open>Keyspace_Scenario\<close>.
\<close>

section \<open>Interleaved calls\<close>



text \<open>Once written, a deletion witness, a trim certificate and a chunk keep their bytes under
  every interleaving of such calls.\<close>

theorem written_objects_stay:
  assumes "pool_reach B (s, map (ks_serve X) calls) (s', ps')" "ext_ok X"
    and "\<forall>c\<in>set calls. ks_call_ok X B c \<and> (fst c = ns \<or> \<not> nested ns (fst c))"
    and "ks_write_once X ns p" "st_get s p = Some b"
  shows "st_get s' p = Some b"
  using ks_steps_write_once keyspace_pool_refines assms by blast

lemma gone_witness: "\<exists>w. st_get gone_store (raw_key demo_ns (ks_tombstone_key demo_key)) = Some w"
  using ks_destroy_closes [OF run_ks_run [OF cart_destroy_run(1)] cart_destroy_history demo_identifiers(3) cart_facts(2) demo_counter_tags]
  by auto

theorem written_objects_stay_witness:
  "\<exists>w. st_get gone_store (raw_key demo_ns (ks_tombstone_key demo_key)) = Some w \<and>
    st_get reborn_store (raw_key demo_ns (ks_tombstone_key demo_key)) = Some w"
proof -
  obtain w where w: "st_get gone_store (raw_key demo_ns (ks_tombstone_key demo_key)) = Some w"
    using gone_witness by blast
  have "ks_write_once demo_ext demo_ns (raw_key demo_ns (ks_tombstone_key demo_key))" by (auto simp: ks_write_once_def)
  from written_objects_stay [OF rebirth_pool demo_ext_ok _ this w, simplified] show ?thesis using w by blast
qed



section \<open>Replacement and destruction\<close>

text \<open>C6: A successful \<open>compare_exchange\<close> replaces the control that the caller's entity tag names
  by the next version of the same era, with the new value, at one moment at which the era counter
  equals the control's era; when the response of a chunked publication is lost, a later read finds
  the staged commit in place while that era is open.  Other calls may run between all requests.\<close>

theorem replacement_linearizes:
  assumes "ks_run X B ns (compare_exchange fuel X cid ns k e v) s h (Inr etag) s'"
    and "ext_ok X" "length cid = 16" "counter_tags B"
  shows "unreserved k \<and> (\<exists>s0 d c s1. ks_steps X B ns s s0 \<and> st_get s0 (raw_key ns k) = Some d \<and> tag_of B d = e \<and>
    control_decode X k d = Inr c \<and> control_version c \<noteq> - 1 \<and> ks_steps X B ns s0 s1 \<and>
    (replaced_at X B ns k e (replacement X cid c v) h etag s1 \<or>
     (\<exists>m. replacement X cid c v = CtlChunked m \<and> adjudicated_at X B ns k m etag s1)))"
  using assms by (rule compare_exchange_linear)

theorem replacement_linearizes_witness:
  "\<exists>h c s1 etag. ks_run demo_ext demo_backend demo_ns
      (compare_exchange 2 demo_ext (demo_ids 0) demo_ns demo_key cart_tag [2]) cart_store h (Inr etag) next_store \<and>
    replaced_at demo_ext demo_backend demo_ns demo_key cart_tag (replacement demo_ext (demo_ids 0) c [2]) h etag s1"
proof -
  note run = run_ks_run [OF cart_replace_run, of demo_ext demo_ns]
  have "replacement demo_ext (demo_ids 0) c [2] \<noteq> CtlChunked m" for c m
    using short_inline [of "[2]"] by (simp add: replacement_def)
  then show ?thesis using replacement_linearizes [OF run demo_ext_ok demo_ids_ok(2) demo_counter_tags] run by blast
qed



text \<open>In a store at rest, \<open>create\<close> puts a value where the key has none, inline or in chunks, and
  the reads give it back, at version 0 of the key's current era; where the key has a value it is
  refused and the value stays.\<close>

theorem create_reads_back:
  assumes "writable X ns k i 0 v s" "ext_ok X" "ids_ok ids"
  shows "case st_get s (raw_key ns k) of
      None \<Rightarrow> (\<exists>s' etag. run B (ks_create fuel X ids ns k v) s = (Some (Inr ()), s') \<and>
        run B (ks_get X ns k) s' = (Some (Inr (Some v)), s') \<and>
        run B (ks_get_with_version X ns k) s' = (Some (Inr (Some (v, i, 0, etag))), s'))
    | Some d \<Rightarrow> (\<exists>s'. run B (ks_create fuel X ids ns k v) s = (Some (Inl (KsAlreadyExists k)), s') \<and>
        st_get s' (raw_key ns k) = Some d)"
proof -
  have "length (ids 7) = 16" using assms(3) by (simp add: ids_ok_def)
  then show ?thesis
    using run_ks_create [OF assms] run_get [OF assms(1,2)] staged_raw [OF assms(1,2)]
    by (simp split: option.split)
qed

theorem create_reads_back_witness:
  "\<exists>s'. run demo_backend (ks_create 2 demo_ext demo_ids demo_ns demo_key [1]) [] = (Some (Inr ()), s') \<and>
      run demo_backend (ks_get demo_ext demo_ns demo_key) s' = (Some (Inr (Some [1])), s')"
  using create_reads_back [OF demo_writable demo_ext_ok demo_ids_ok(1), of "[1]" "[]" 0 demo_backend 2] cart_facts(1) by auto

section \<open>Trim certificates\<close>

text \<open>In a store at rest the floor walk returns the largest certificate of the scope, with one
  unit of fuel per thousand objects.\<close>

theorem trim_floor_is_largest_certificate:
  assumes "st_wf s" "identifier_ok ns" "trim_scope scope" "trim_listable ns s scope" "length s < fuel * 1000"
  shows "run B (trim_floor fuel ns scope) s = (Some (Inr (certified_floor ns s scope)), s)"
  using run_trim_floor assms trim_scope_ok [OF assms(3)] by blast

theorem trim_floor_is_largest_certificate_witness:
  "run demo_backend (trim_floor 1 demo_ns demo_scope) trimmed_store = (Some (Inr (Some 5)), trimmed_store)"
  using trim_floor_is_largest_certificate [OF trimmed_facts(1) demo_identifiers(1) demo_scope_ok(1) trimmed_facts(2), of 1]
  by (simp add: trimmed_facts)

text \<open>C19: A proposal in a store at rest is refused below the floor, changes nothing at the floor, and
  becomes the floor above it.\<close>

theorem proposals_raise_the_floor:
  assumes "st_wf s" "identifier_ok ns" "trim_scope scope" "trim_listable ns s scope" "Suc (length s) < fuel * 1000"
  shows "run B (propose_trim fuel ns scope f) s =
    (case certified_floor ns s scope of
       Some c \<Rightarrow> if f < c then (Some (Inl (KsTrimNotMonotone f c)), s)
                 else if f = c then (Some (Inr \<lparr>trim_first_retained = c, trim_advanced = False\<rparr>), s)
                 else (Some (Inr \<lparr>trim_first_retained = f, trim_advanced = True\<rparr>),
                       st_put (raw_key ns (certificate_key scope f)) trim_certificate s)
     | None \<Rightarrow> (Some (Inr \<lparr>trim_first_retained = f, trim_advanced = True\<rparr>),
               st_put (raw_key ns (certificate_key scope f)) trim_certificate s))"
  using run_propose_trim assms trim_scope_ok [OF assms(3)] by blast

theorem proposals_raise_the_floor_witness:
  "run demo_backend (propose_trim 1 demo_ns demo_scope 5) [] =
    (Some (Inr \<lparr>trim_first_retained = 5, trim_advanced = True\<rparr>), trimmed_store) \<and>
   run demo_backend (propose_trim 1 demo_ns demo_scope 3) trimmed_store = (Some (Inl (KsTrimNotMonotone 3 5)), trimmed_store)"
  using proposals_raise_the_floor [OF _ demo_identifiers(1) demo_scope_ok(1) trimmed_facts(5), of 1 demo_backend 5]
    proposals_raise_the_floor [OF trimmed_facts(1) demo_identifiers(1) demo_scope_ok(1) trimmed_facts(2), of 1 demo_backend 3]
  by (simp add: trimmed_facts st_wf_def trimmed_store_def [symmetric] del: st_put.simps)



text \<open>C21: In any environment, whatever the listings say, a collection deletes only positions
  strictly between the genesis and its bound: of the data keys, of their witnesses, and of their
  counters.\<close>

theorem collection_stays_below_the_bound:
  "io_all B (collect_req ns data_prefix bound) (delete_below fuel ns scope data_prefix bound)"
  by (rule delete_below_req)

end
