(* ===== verification/Chunk_Gc.thy ===== *)
theory Chunk_Gc
  imports Keyspace_Protocol
begin

text \<open>
  The chunk sweep: as long as the control of a key stays what it is, no sweep deletes a chunk that
  the control references, whatever the listings say and whatever runs in between.
\<close>

section \<open>Requests over restricted replies\<close>

text \<open>The history of a call whose requests and replies satisfy a condition on replies.\<close>

lemma env_run_requests:
  assumes "env_run R B m s h a s'" "io_post V P Q m" "I s"
    and "\<And>t t'. R t t' \<Longrightarrow> I t \<Longrightarrow> I t'"
    and "\<And>q t r t'. I t \<Longrightarrow> answer B q t r t' \<Longrightarrow> V q r"
    and "\<And>q t r t'. P q \<Longrightarrow> I t \<Longrightarrow> answer B q t r t' \<Longrightarrow> I t'"
  shows "I s' \<and> Q a \<and> (\<forall>(t, q, r, t')\<in>set h. P q)"
  using assms(1-3)
proof (induction rule: env_run.induct)
  case (env_Req s s1 q r s2 k h a s')
  have "I s1" using assms(4) env_Req(1,5) env_Req.prems(2) by blast
  moreover have "P q" "V q r \<Longrightarrow> io_post V P Q (k r)" using env_Req.prems(1) by auto
  moreover have "V q r" using assms(5) calculation(1) env_Req(2) by blast
  ultimately have "I s2" "io_post V P Q (k r)" using assms(6) env_Req(2) by blast+
  then show ?case using env_Req.IH \<open>P q\<close> by auto
qed simp

section \<open>Classification\<close>

lemma parse_raw_key: "parse_chunk_object_key X (raw_key ns k) = None"
  by (auto simp: parse_chunk_object_key_def raw_key_def keyspace_root_def chunk_key_root_def chunk_root_def strip_prefix_def prefix_def)

text \<open>A read of the control of \<open>k\<close> finds \<open>d\<close>, or fails.\<close>

definition control_seen :: "string \<Rightarrow> string \<Rightarrow> bytes \<Rightarrow> req \<Rightarrow> resp \<Rightarrow> bool" where
  "control_seen ns k d q r \<longleftrightarrow> (q = Download (raw_key ns k) \<longrightarrow>
    (\<forall>x. r = RBytes x \<longrightarrow> (case x of Inr b \<Rightarrow> b = d | Inl e \<Rightarrow> \<not> is_NotFound e)))"

text \<open>\<open>kept\<close>: the candidates are chunk keys, the referenced chunks of the key are not among them.\<close>

definition kept :: "ext \<Rightarrow> string \<Rightarrow> string \<Rightarrow> value_manifest \<Rightarrow> page_classification \<Rightarrow> bool" where
  "kept X ns k m c \<longleftrightarrow> (\<forall>p\<in>set (pc_orphan_candidates c).
    p \<notin> set (manifest_paths X ns k m) \<and> parse_chunk_object_key X p \<noteq> None)"

definition grouped :: "ext \<Rightarrow> (string \<times> key list) list \<Rightarrow> bool" where
  "grouped X gs \<longleftrightarrow> (\<forall>(k, ps)\<in>set gs. \<forall>p\<in>set ps. \<exists>c. parse_chunk_object_key X p = Some c \<and> cop_logical_key c = k)"

lemma group_push_set: "set (group_push k p gs) \<subseteq>
    insert (k, [p]) (set gs) \<union> {(k, ps @ [p]) | ps. (k, ps) \<in> set gs}"
  by (induction k p gs rule: group_push.induct) auto

lemma grouped_push:
  assumes "grouped X gs" "parse_chunk_object_key X p = Some c" "cop_logical_key c = k"
  shows "grouped X (group_push k p gs)"
  unfolding grouped_def
proof (rule ballI, clarify)
  fix k' ps q assume g: "(k', ps) \<in> set (group_push k p gs)" "q \<in> set ps"
  then consider "(k', ps) \<in> set gs" | "k' = k" "ps = [p]" | ps' where "k' = k" "ps = ps' @ [p]" "(k, ps') \<in> set gs"
    using group_push_set [of k p gs] by auto
  then show "\<exists>c. parse_chunk_object_key X q = Some c \<and> cop_logical_key c = k'"
    using assms g(2) by cases (auto simp: grouped_def)
qed

lemma grouped_page: "grouped X gs \<Longrightarrow> grouped X (fst (group_page X ns page gs u))"
  by (induction page arbitrary: gs u) (auto simp: grouped_push split: option.split)

lemma manifest_path_parse:
  assumes "ext_ok X" "identifier_ok ns" "identifier_ok k" "manifest_wf X m" "p \<in> set (manifest_paths X ns k m)"
  shows "\<exists>c. parse_chunk_object_key X p = Some c \<and> cop_logical_key c = k"
  using assms parse_chunk_object_key_of [OF assms(1-3)]
  by (fastforce simp: manifest_paths_def chunk_path_def digest_hex_def manifest_wf_def entries_wf_def ext_ok_def)

section \<open>The sweep\<close>

lemma io_post_anti: "io_post V P Q m \<Longrightarrow> (\<And>q r. V' q r \<Longrightarrow> V q r) \<Longrightarrow> io_post V' P Q m"
  by (induction m) auto

definition spares :: "ext \<Rightarrow> string \<Rightarrow> string \<Rightarrow> value_manifest \<Rightarrow> req \<Rightarrow> bool" where
  "spares X ns k m q \<longleftrightarrow> is_read q \<or> (\<exists>p. q = DeleteKey p \<and>
    p \<notin> set (manifest_paths X ns k m) \<and> parse_chunk_object_key X p \<noteq> None)"

lemma read_spares [simp]: "is_read q \<Longrightarrow> spares X ns k m q"
  by (simp add: spares_def)

text \<open>The setting: a chunked value whose control stays in place, at a key that is no trimmed
  position.\<close>

definition live_control :: "ext \<Rightarrow> string \<Rightarrow> string \<Rightarrow> bytes \<Rightarrow> value_manifest \<Rightarrow> bool" where
  "live_control X ns k d m \<longleftrightarrow> ext_ok X \<and> identifier_ok ns \<and> identifier_ok k \<and>
    control_decode X k d = Inr (CtlChunked m) \<and> (\<forall>f. seq_retired_at_floor k f = None)"

lemma live_control_path:
  assumes "live_control X ns k d m" "p \<in> set (manifest_paths X ns k m)"
  shows "\<exists>c. parse_chunk_object_key X p = Some c \<and> cop_logical_key c = k"
proof -
  have "control_decode X k d = Inr (CtlChunked m)" using assms(1) by (simp add: live_control_def)
  then have "control_wf X (CtlChunked m)" using control_encode_decode by blast
  then show ?thesis using manifest_path_parse [of X ns k m p] assms by (simp add: live_control_def)
qed

abbreviation swept_view :: "backend \<Rightarrow> string \<Rightarrow> string \<Rightarrow> bytes \<Rightarrow> req \<Rightarrow> resp \<Rightarrow> bool" where
  "swept_view B ns k d q r \<equiv> reply_ok B q r \<and> control_seen ns k d q r"

lemma referenced_paths_post:
  assumes "live_control X ns k d m"
  shows "io_post (swept_view B ns k d) (spares X ns k m)
    (\<lambda>r. k0 = k \<longrightarrow> r = None \<or> r = Some (manifest_paths X ns k m)) (referenced_paths X ns k0 (raw_key ns k0) f)"
  using assms by (auto simp: referenced_paths_def download_def live_control_def control_seen_def spares_def
      split: resp.split sum.split control_envelope.split)

lemma classify_groups_post:
  assumes "live_control X ns k d m" "grouped X gs" "kept X ns k m c"
  shows "io_post (swept_view B ns k d) (spares X ns k m)
    (\<lambda>r. case r of Inl _ \<Rightarrow> True | Inr c' \<Rightarrow> kept X ns k m c') (classify_groups X ns f gs c)"
  using assms(2,3)
proof (induction gs arbitrary: c)
  case (Cons g gs)
  obtain k0 ps where g: "g = (k0, ps)" by (cases g)
  have gs: "grouped X gs" using Cons.prems(1) by (auto simp: grouped_def)
  have own: "p \<in> set (manifest_paths X ns k m) \<Longrightarrow> p \<in> set ps \<Longrightarrow> k0 = k" for p
    using live_control_path [OF assms(1)] Cons.prems(1) by (fastforce simp: g grouped_def)
  have kept': "kept X ns k m (c\<lparr>pc_referenced_count := n, pc_orphan_candidates := pc_orphan_candidates c @ filter (\<lambda>p. p \<notin> set refs) ps\<rparr>)"
    if "k0 = k \<longrightarrow> refs = manifest_paths X ns k m" for n refs
    using Cons.prems own that by (auto simp: kept_def g grouped_def)
  have kept'': "kept X ns k m (c\<lparr>pc_unresolved_count := n\<rparr>)" for n using Cons.prems(2) by (simp add: kept_def)
  show ?case
    unfolding g classify_groups.simps
    by (rule io_post_lift_res, simp, rule io_post_bind, simp only: ks_object_key_Inr, elim conjE, hypsubst,
        rule io_post_mono [OF referenced_paths_post [OF assms(1)]])
      (auto intro!: Cons.IH gs kept' kept'' split: option.split)
qed (simp add: assms)

lemma classify_page_post:
  assumes "live_control X ns k d m"
  shows "io_post (swept_view B ns k d) (spares X ns k m)
    (\<lambda>r. case r of Inl _ \<Rightarrow> True | Inr c' \<Rightarrow> kept X ns k m c') (classify_chunk_page fuel X ns page)"
proof -
  have floor: "io_post (swept_view B ns k d) (spares X ns k m) (\<lambda>_. True) (trim_floor fuel ns [])"
    by (rule io_post_anti [OF io_post_mono [OF trim_floor_reads [unfolded io_all_def]]]) (auto intro: read_spares)
  have "grouped X (fst (group_page X ns page [] 0))" by (rule grouped_page) (simp add: grouped_def)
  then show ?thesis unfolding classify_chunk_page_def Let_def case_prod_beta
    by (intro io_post_try io_post_mono [OF floor])
      (auto intro!: classify_groups_post [OF assms] simp: kept_def split: sum.split)
qed

lemma delete_orphans_post:
  "\<forall>p\<in>set ps. p \<notin> set (manifest_paths X ns k m) \<and> parse_chunk_object_key X p \<noteq> None \<Longrightarrow> (\<And>r. Q r) \<Longrightarrow>
    io_post V (spares X ns k m) Q (delete_orphans ps r)"
  by (induction ps arbitrary: r) (auto intro!: post_intros simp: spares_def split: sum.split)

lemma sweep_loop_post:
  assumes "live_control X ns k d m"
  shows "io_post (swept_view B ns k d) (spares X ns k m) (\<lambda>_. True) (sweep_loop pages fuel X ns after report)"
proof (induction pages arbitrary: after report)
  case (Suc pages)
  have spared: "io_post (swept_view B ns k d) (spares X ns k m) Q (delete_orphans (pc_orphan_candidates c) r)"
    if "kept X ns k m c" "\<And>r. Q r" for c r Q
    by (rule delete_orphans_post) (use that in \<open>auto simp: kept_def\<close>)
  show ?case
    unfolding sweep_loop.simps list_chunk_page_def Let_def
    by (auto intro!: io_post_try io_post_bind io_post_list_sizes io_post_mono [OF classify_page_post [OF assms]] spared Suc
        split: sum.split)
qed simp

lemma sweep_post:
  assumes "live_control X ns k d m"
  shows "io_post (swept_view B ns k d) (spares X ns k m) (\<lambda>_. True) (sweep_chunks pages fuel X ns)"
proof -
  have fence: "io_post (swept_view B ns k d) (spares X ns k m) (\<lambda>_. True) (fence_present ns)"
    by (rule io_post_anti [OF io_post_mono [OF fence_present_reads [unfolded io_all_def]]]) (auto intro: read_spares)
  show ?thesis unfolding sweep_chunks_def
    by (intro io_post_try io_post_mono [OF fence]) (auto intro: sweep_loop_post [OF assms] split: sum.split)
qed

text \<open>In an environment that keeps the control and its chunks, so does the sweep.\<close>

lemma sweep_keeps:
  assumes "env_run R B (sweep_chunks pages fuel X ns) s h a s'" "live_control X ns k d m"
    and "\<And>t t' p. R t t' \<Longrightarrow> p \<in> insert (raw_key ns k) (set (manifest_paths X ns k m)) \<Longrightarrow> st_get t' p = st_get t p"
    and "st_get s (raw_key ns k) = Some d" "p \<in> set (manifest_paths X ns k m)"
  shows "st_get s' p = st_get s p"
proof -
  let ?I = "\<lambda>t. st_get t (raw_key ns k) = Some d \<and> (\<forall>p\<in>set (manifest_paths X ns k m). st_get t p = st_get s p)"
  have keep: "?I t'" if "spares X ns k m q" "?I t" "answer B q t r t'" for q t r t'
  proof -
    have eff: "effect B q t t'" using answer_effect that(3) by blast
    show ?thesis using that(1) unfolding spares_def
    proof (elim disjE exE conjE)
      assume "is_read q"
      then show ?thesis using read_effect eff that(2) by metis
    next
      fix x assume x: "q = DeleteKey x" "x \<notin> set (manifest_paths X ns k m)" "parse_chunk_object_key X x \<noteq> None"
      then have "t' = t \<or> t' = st_del x t" using eff by (auto simp: effect_def)
      moreover have "x \<noteq> raw_key ns k" using x(3) parse_raw_key by auto
      ultimately show ?thesis using that(2) x by auto
    qed
  qed
  have view: "swept_view B ns k d q r" if "?I t" "answer B q t r t'" for q t r t'
  proof -
    have d: "st_get t (raw_key ns k) = Some d" using that(1) by blast
    have "control_seen ns k d q r" unfolding control_seen_def
    proof (intro impI allI)
      fix x assume "q = Download (raw_key ns k)" "r = RBytes x"
      then have "answer B (Download (raw_key ns k)) t (RBytes x) t'" using that(2) by simp
      then show "case x of Inr b \<Rightarrow> b = d | Inl e \<Rightarrow> \<not> is_NotFound e"
        by cases (use d in \<open>auto split: option.splits sum.splits\<close>)
    qed
    then show ?thesis using answer_reply_ok [OF that(2)] by blast
  qed
  have start: "?I s" using assms(4) by simp
  have env: "?I t'" if "R t t'" "?I t" for t t'
    using assms(3) [OF that(1)] that(2) by (metis insertCI insertI1)
  have "?I s'" using env_run_requests [where I = ?I, OF assms(1) sweep_post [OF assms(2)] start env view keep] by simp
  then show ?thesis using assms(5) by blast
qed

end
