(* ===== verification/Value_Theorems.thy ===== *)
theory Value_Theorems
  imports Keyspace_Theorems Chunk_Gc Value_Writers
begin

text \<open>
  The properties of chunked values: the sweep, the canonical manifest, the chunk keys, the streamed
  writer; and a destruction that reaches a trim certificate.
\<close>

section \<open>The chunk sweep\<close>










section \<open>Canonical forms\<close>

text \<open>C38: The manifest decoder accepts exactly the encodings of the well-formed manifests, each by
  one byte string: magic, framing, counts, full chunks but the last, total length, value root and
  no trailing bytes.\<close>

theorem manifest_decoding_is_canonical:
  "manifest_decode X k b = Inr m \<longleftrightarrow> manifest_wf X m \<and> b = manifest_encode m"
  using manifest_encode_decode manifest_decode_encode by metis

text \<open>A chunk's object key fits 892 bytes and parses back to its parts; a parsed key is the key
  of its parts.\<close>

theorem chunk_keys_read_back:
  assumes "ext_ok X" "hex_lower_inverse X" "identifier_ok ns" "identifier_ok k" "length dhex = 64" "list_all ascii_lower_hex dhex"
  shows "length (chunk_object_key X ns k i v dhex) \<le> 892 \<and>
    (\<forall>p c. parse_chunk_object_key X p = Some c \<and> cop_namespace c = ns \<and> cop_logical_key c = k \<and> cop_incarnation c = i \<and>
      cop_version c = v \<and> cop_digest_hex c = dhex \<longleftrightarrow>
      p = chunk_object_key X ns k i v dhex \<and> c = \<lparr>cop_namespace = ns, cop_logical_key = k, cop_incarnation = i,
        cop_version = v, cop_digest_hex = dhex\<rparr>)"
  using chunk_object_key_length [OF assms(1,3-5)] parse_chunk_object_key_of [OF assms(1,3-6)]
    parse_chunk_object_key_Some(1) [OF assms(2)] by fastforce

lemma demo_lower_inverse: "hex_lower_inverse demo_ext"
  using demo_hex_lower by (simp add: hex_lower_inverse_def demo_ext_def)

theorem chunk_keys_read_back_witness:
  "length (chunk_object_key demo_ext demo_ns demo_key 0 0 (replicate 64 (CHR ''a''))) \<le> 892"
  by (rule conjunct1 [OF chunk_keys_read_back [OF demo_ext_ok demo_lower_inverse]])
    (simp_all add: list_all_iff ascii_lower_hex_def)

section \<open>The streamed writer\<close>

text \<open>C39: However a client cuts its bytes into writes, and in whatever order the uploads finish, a
  sealed writer carries the manifest that the whole-value path stages for the same bytes.\<close>

theorem streamed_writes_equal_whole:
  assumes "written X (new_writer ns k intent i v) data w" "io_runs (seal X commit_id w) tr (Inr p)"
    and "io_runs (stage_chunks X ns k data i v commit_id) tr' (Inr m)"
  shows "p = \<lparr>pv_namespace = ns, pv_key = k, pv_intent = intent, pv_manifest = m\<rparr>"
  using streamed_like_whole [OF assms] by (cases p) simp

text \<open>A value of one full chunk and one more byte, in one write.\<close>

definition two_chunks :: bytes where "two_chunks = replicate chunk_bytes 0 @ [0]"

lemma two_chunks_value: "value_chunks two_chunks = [replicate chunk_bytes 0, [0]]" "length two_chunks = chunk_bytes + 1"
  by (simp_all add: two_chunks_def chunks_of_append_full chunks_of_short Suc_le_eq)

lemma two_chunks_written: "\<exists>w. written demo_ext (new_writer demo_ns demo_key IntentCreate 0 0) two_chunks w \<and> vw_error w = None"
proof -
  let ?w = "new_writer demo_ns demo_key IntentCreate 0 0"
  let ?full = "start_chunk_upload demo_ext (?w\<lparr>vw_buffer := replicate chunk_bytes 0, vw_total_len := chunk_bytes\<rparr>)"
  let ?w' = "?full\<lparr>vw_buffer := [0], vw_total_len := chunk_bytes + 1\<rparr>"
  have c: "1 < chunk_bytes" "chunk_bytes + 1 \<le> unat max_logical_bytes" by (simp_all add: manifest_sizes max_logical_bytes_eq)
  have full: "vw_buffer ?full = []" "length (vw_in_flight ?full) = 1" "vw_total_len ?full = chunk_bytes"
    by (simp_all add: start_chunk_upload_def Let_def new_writer_def)
  have "consume demo_ext ?full [0] chunk_bytes = Some (?w', chunk_bytes + 1)"
    using c(1) full by (simp add: consume.simps [of _ _ "[0]"] Let_def)
  then have "consume demo_ext ?w two_chunks 0 = Some (?w', chunk_bytes + 1)"
    using full c(1) by (subst consume.simps) (simp add: two_chunks_def new_writer_def Let_def max_in_flight_chunks_def)
  moreover have "two_chunks \<noteq> []" by (simp add: two_chunks_def)
  ultimately have "poll_write demo_ext [] ?w two_chunks = Some (Ready (Inr (chunk_bytes + 1)), ?w', [])"
    using c(2) backpressure_steps(1) [of ?w "[]"] two_chunks_value(2)
    by (simp add: poll_write_def new_writer_def max_in_flight_chunks_def)
  then have "written demo_ext ?w ([] @ take (chunk_bytes + 1) two_chunks) ?w'" by (rule written_more [OF written_nothing])
  moreover have "take (chunk_bytes + 1) two_chunks = two_chunks" using two_chunks_value(2) by simp
  ultimately show ?thesis by (auto simp: start_chunk_upload_def Let_def new_writer_def)
qed

theorem streamed_writes_equal_whole_witness:
  "\<exists>w tr p. written demo_ext (new_writer demo_ns demo_key IntentCreate 0 0) two_chunks w \<and>
    io_runs (seal demo_ext (demo_ids 0) w) tr (Inr p) \<and>
    p = \<lparr>pv_namespace = demo_ns, pv_key = demo_key, pv_intent = IntentCreate,
      pv_manifest = manifest_of demo_ext 0 0 (demo_ids 0) (word_of_nat (length two_chunks)) (map (hash_entry demo_ext) (value_chunks two_chunks))\<rparr>"
proof -
  obtain w where w: "written demo_ext (new_writer demo_ns demo_key IntentCreate 0 0) two_chunks w" "vw_error w = None"
    using two_chunks_written by blast
  have inv: "writer_inv demo_ext w two_chunks" using written_inv [OF w(1) new_writer_inv] by blast
  have "\<exists>tr p. io_runs (seal demo_ext (demo_ids 0) w) tr (Inr p)"
    by (rule runs_seal_ok [OF inv w(2)]) (simp_all add: two_chunks_value(1) min_chunks_def max_chunks_def)
  then obtain tr p where seal: "io_runs (seal demo_ext (demo_ids 0) w) tr (Inr p)" by blast
  obtain tr' m where stage: "io_runs (stage_chunks demo_ext demo_ns demo_key two_chunks 0 0 (demo_ids 0)) tr' (Inr m)"
    using runs_stage_ok by blast
  show ?thesis
    using streamed_writes_equal_whole [OF w(1) seal stage] runs_stage_chunks [OF stage] w(1) seal by blast
qed

section \<open>Destroying a certificate\<close>

lemma era_keys_not_certificate:
  "ks_incarnation_key (certificate_key scope seq) \<noteq> certificate_key scope q"
  "ks_tombstone_key (certificate_key scope seq) \<noteq> certificate_key scope q"
  by (auto dest!: arg_cong [of _ _ length] simp: ks_incarnation_key_def ks_tombstone_key_def certificate_key_def)

text \<open>\<open>destroy\<close> does not check for reserved keys: called with the key of a trim certificate, in a
  store at rest, it succeeds and the certificate is gone, so the certified floor can fall.\<close>

theorem destroy_removes_certificate:
  assumes "st_get s (raw_key ns (certificate_key scope seq)) = Some trim_certificate" "identifier_ok (certificate_key scope seq)"
    and "ext_ok X" "ks_counter ns s (certificate_key scope seq) = Some i" "i \<noteq> - 1"
  shows "\<exists>s'. run B (ks_destroy X ns (certificate_key scope seq) cause actor) s = (Some (Inr ()), s') \<and>
    certificates ns s' scope \<subseteq> certificates ns s scope - {seq}"
proof -
  let ?k = "certificate_key scope seq"
  obtain p where "raw_key ns ?k = p @ zero_padded seq" by (auto simp: certificate_key_def raw_key_def split: if_splits)
  then have "\<not> suffix ''/fences/gc'' (raw_key ns ?k)" using seq_key_not_fence by simp
  then have obj: "ks_object_key ns ?k = Inr (raw_key ns ?k)" using assms(2) by (simp add: ks_object_key_Inr)
  have c: "control_decode X ?k trim_certificate = Inr (CtlInline \<lparr>ve_incarnation = 0, ve_version = 0, ve_payload = as_bytes ''trim-certificate''\<rparr>)"
    using control_decode_encode [of X "CtlInline \<lparr>ve_incarnation = 0, ve_version = 0, ve_payload = as_bytes ''trim-certificate''\<rparr>" ?k]
    by (simp add: trim_certificate_def)
  obtain w where "tombstone_encode X (tombstone_new 0 0 cause actor (clock_reading B)) = Inr w"
    using tombstone_encode_total [OF assms(3)] by blast
  then have "run B (ks_destroy X ns ?k cause actor) s = (Some (Inr ()),
    st_del (raw_key ns ?k) (st_put (raw_key ns (ks_incarnation_key ?k)) (to_be_bytes (i + 1))
      (put_if_absent (raw_key ns (ks_tombstone_key ?k)) w s)))"
    using run_destroy [OF obj assms(1) c assms(4,5)] by simp
  moreover have "certificates ns (st_del (raw_key ns ?k) (st_put (raw_key ns (ks_incarnation_key ?k)) (to_be_bytes (i + 1))
      (put_if_absent (raw_key ns (ks_tombstone_key ?k)) w s))) scope \<subseteq> certificates ns s scope - {seq}"
    using era_keys_not_certificate [of scope seq] by (auto simp: certificates_def split: if_splits) metis+
  ultimately show ?thesis by blast
qed

lemma trimmed_certificate:
  "st_get trimmed_store (raw_key demo_ns (certificate_key demo_scope 5)) = Some trim_certificate"
  "ks_counter demo_ns trimmed_store (certificate_key demo_scope 5) = Some 0"
  "certificates demo_ns trimmed_store demo_scope = {5}"
  using era_keys_not_certificate(1) [of demo_scope 5 5]
    certificates_put [of demo_ns demo_scope 5 trim_certificate "[]"]
  by (simp_all add: trimmed_store_def ks_counter_def certificates_def del: st_put.simps)

theorem destroy_removes_certificate_witness:
  "certified_floor demo_ns trimmed_store demo_scope = Some 5 \<and>
    (\<exists>s'. run demo_backend (ks_destroy demo_ext demo_ns (certificate_key demo_scope 5) [] []) trimmed_store = (Some (Inr ()), s') \<and>
      certified_floor demo_ns s' demo_scope = None)"
proof -
  have "i \<noteq> - 1" if "i = (0 :: u64)" for i using that by simp
  then obtain s' where "run demo_backend (ks_destroy demo_ext demo_ns (certificate_key demo_scope 5) [] []) trimmed_store = (Some (Inr ()), s')"
    "certificates demo_ns s' demo_scope \<subseteq> certificates demo_ns trimmed_store demo_scope - {5}"
    using destroy_removes_certificate [OF trimmed_certificate(1) trim_scope_ok(3) [OF demo_scope_ok(1)] demo_ext_ok trimmed_certificate(2)]
    by blast
  then show ?thesis using trimmed_facts(4) trimmed_certificate(3) by (auto simp: certified_floor_def)
qed

end
