(* ===== verification/Stream_Types.thy ===== *)
theory Stream_Types
  imports Value_Manifest
begin

text \<open>
  The data of the event streams (\<open>yeetz-s3-streams\<close>: \<open>envelope.rs\<close>, \<open>error.rs\<close>, and the types of
  \<open>lib.rs\<close>): identifiers and object keys, the event envelope with its decoder, tail hints and
  cursors, errors and the outcomes of a read.  The base64 and serde_json crates are fields of the
  record \<open>streams_env\<close>, under \<open>streams_env_ok\<close>; identifiers are strings that their constructors
  validate.
\<close>

section \<open>Errors\<close>

text \<open>A message is its literal text with the strings and numbers that are formatted into it.\<close>

datatype message =
    Message string "string list" "u64 list"
  | OfKeyspace keyspace_error

datatype streams_error =
    InvalidArgument message
  | EnvelopeTooLarge u64 u64
  | StreamNotFound string
  | AppendBudgetExhausted string u64 u32
  | IdempotencyConflict string string u64
  | SeqExhausted string
  | StreamUnavailable string
  | BackendUnqualified message
  | StreamCorrupt string "u64 list"
  | MigrationSealCorrupt string string
  | CursorCorrupt string string string
  | EventMissing string u64
  | CursorNotMonotonic string u64 u64
  | OffsetExpired string u64

definition map_keyspace :: "string \<Rightarrow> keyspace_error \<Rightarrow> streams_error" where
  "map_keyspace operation err =
    (case err of KsUnavailable _ \<Rightarrow> StreamUnavailable operation | other \<Rightarrow> InvalidArgument (OfKeyspace other))"

definition map_event_read_error :: "string \<Rightarrow> u64 \<Rightarrow> string \<Rightarrow> keyspace_error \<Rightarrow> streams_error" where
  "map_event_read_error stream seq operation err = (case err of
      KsValueEnvelopeMalformed _ \<Rightarrow> StreamCorrupt stream [seq]
    | KsManifestMalformed _ \<Rightarrow> StreamCorrupt stream [seq]
    | KsManifestRootMismatch _ \<Rightarrow> StreamCorrupt stream [seq]
    | KsManifestTooLarge _ _ _ \<Rightarrow> StreamCorrupt stream [seq]
    | KsChunkCountInvalid _ _ \<Rightarrow> StreamCorrupt stream [seq]
    | KsValueTooLarge _ _ _ \<Rightarrow> StreamCorrupt stream [seq]
    | KsChunkMissing _ _ \<Rightarrow> StreamCorrupt stream [seq]
    | KsChunkIntegrity _ _ \<Rightarrow> StreamCorrupt stream [seq]
    | KsInvalidIdentifier kind value \<Rightarrow> InvalidArgument (OfKeyspace (KsInvalidIdentifier kind value))
    | KsUnavailable _ \<Rightarrow> StreamUnavailable operation
    | _ \<Rightarrow> StreamUnavailable operation)"

section \<open>Identifiers and keys\<close>

definition validate_segment :: "string \<Rightarrow> string \<Rightarrow> streams_error + unit" where
  "validate_segment kind value =
    (if value \<noteq> [] \<and> length value \<le> 255 \<and> hd value \<noteq> CHR ''/'' \<and> last value \<noteq> CHR ''/'' \<and>
        list_all segment_ok (split_at (CHR ''/'') value)
     then Inr () else Inl (InvalidArgument (Message kind [value] [])))"

lemma validate_segment_Inr [simp]: "validate_segment kind value = Inr u \<longleftrightarrow> identifier_ok value"
  by (auto simp: validate_segment_def identifier_ok_def validate_identifier_def)

definition stream_id_new :: "string \<Rightarrow> streams_error + string" where
  "stream_id_new opaque = try_res (validate_segment ''stream id'' opaque) (\<lambda>_. Inr opaque)"

definition schema_id_new :: "string \<Rightarrow> streams_error + string" where
  "schema_id_new value = try_res (validate_segment ''schema id'' value) (\<lambda>_. Inr value)"

definition stable_event_id_new :: "string \<Rightarrow> streams_error + string" where
  "stable_event_id_new value = try_res (validate_segment ''stable event id'' value) (\<lambda>_. Inr value)"

definition streams_namespace :: string where
  "streams_namespace = ''streams/v1''"

definition log_key :: "string \<Rightarrow> u64 \<Rightarrow> string" where
  "log_key stream seq = stream @ ''/log/'' @ zero_padded seq"

definition tail_key :: "string \<Rightarrow> string" where
  "tail_key stream = stream @ ''/tail''"

definition cursor_key :: "string \<Rightarrow> string \<Rightarrow> streams_error + string" where
  "cursor_key stream consumer =
    try_res (validate_segment ''consumer'' consumer) (\<lambda>_. Inr (stream @ ''/cursors/'' @ consumer))"

definition migration_seal_key :: "string \<Rightarrow> string" where
  "migration_seal_key stream = stream @ ''/migration-seal''"

section \<open>Events\<close>

record event_ref =
  er_stream_id :: string
  er_seq :: u64
  er_stable_event_id :: string
  er_payload_sha256 :: string

record append_receipt =
  ar_stream_id :: string
  ar_seq :: u64
  ar_stable_event_id :: string
  ar_payload_sha256 :: string

definition receipt_ref :: "append_receipt \<Rightarrow> event_ref" where
  "receipt_ref r = \<lparr>er_stream_id = ar_stream_id r, er_seq = ar_seq r,
    er_stable_event_id = ar_stable_event_id r, er_payload_sha256 = ar_payload_sha256 r\<rparr>"

record tail_hint =
  th_format_version :: u32
  th_highest_validated_dense_seq :: u64
  th_terminal_record_digest :: string

record cursor =
  cu_format_version :: u32
  cu_stream_id :: string
  cu_seq :: u64
  cu_event_id :: string

record migration_seal =
  ms_format_version :: u32
  ms_source_lineage :: string
  ms_source_head_digest :: string
  ms_event_count :: u64
  ms_event_root_digest :: string

record wire_envelope =
  we_format_version :: u32
  we_stream_id :: string
  we_seq :: u64
  we_stable_event_id :: string
  we_schema_id :: string
  we_payload_len :: u64
  we_payload_sha256 :: string
  we_payload :: string

record event_envelope =
  ee_format_version :: u32
  ee_identity :: event_ref
  ee_schema_id :: string
  ee_payload :: bytes
  ee_encoded :: bytes

text \<open>\<open>se_fuel\<close> bounds the page walks and contention loops, \<open>se_ids\<close> gives the commit identifiers
  the keyspace draws; the other fields are the external crates.\<close>

record streams_env =
  se_ext :: ext
  se_envelope_json :: "wire_envelope codec"
  se_hint_json :: "tail_hint codec"
  se_cursor_json :: "cursor codec"
  se_seal_json :: "migration_seal codec"
  se_base64_encode :: "bytes \<Rightarrow> string"
  se_base64_decode :: "string \<Rightarrow> bytes option"
  se_fuel :: nat
  se_ids :: "nat \<Rightarrow> bytes"

definition streams_env_ok :: "streams_env \<Rightarrow> bool" where
  "streams_env_ok E \<longleftrightarrow> ext_ok (se_ext E) \<and> codec_ok (se_envelope_json E) \<and> codec_ok (se_hint_json E) \<and>
    codec_ok (se_cursor_json E) \<and> codec_ok (se_seal_json E) \<and>
    (\<forall>b. se_base64_decode E (se_base64_encode E b) = Some b) \<and> (\<forall>n. length (se_ids E n) = 16)"

definition sha256_hex :: "streams_env \<Rightarrow> bytes \<Rightarrow> string" where
  "sha256_hex E b = hex_encode (se_ext E) (sha256 (se_ext E) b)"

definition envelope_format_version :: u32 where
  "envelope_format_version = 1"

definition genesis_schema_id :: string where
  "genesis_schema_id = ''stream.genesis.v1''"

definition max_encoded_envelope_bytes :: nat where
  "max_encoded_envelope_bytes = 16 * 1024 * 1024"

definition encode_event :: "streams_env \<Rightarrow> string \<Rightarrow> u64 \<Rightarrow> string \<Rightarrow> string \<Rightarrow> bytes \<Rightarrow> streams_error + event_envelope" where
  "encode_event E stream seq schema_id stable_event_id payload =
    (let wire = \<lparr>we_format_version = envelope_format_version, we_stream_id = stream, we_seq = seq,
           we_stable_event_id = stable_event_id, we_schema_id = schema_id,
           we_payload_len = word_of_nat (length payload), we_payload_sha256 = sha256_hex E payload,
           we_payload = se_base64_encode E payload\<rparr> in
     try_res (ok_or (cenc (se_envelope_json E) wire)
       (InvalidArgument (Message ''envelope serialization'' [] []))) (\<lambda>encoded.
     if length encoded > max_encoded_envelope_bytes
     then Inl (EnvelopeTooLarge (word_of_nat (length encoded)) (word_of_nat max_encoded_envelope_bytes))
     else Inr \<lparr>ee_format_version = we_format_version wire,
       ee_identity = \<lparr>er_stream_id = stream, er_seq = seq, er_stable_event_id = stable_event_id,
         er_payload_sha256 = we_payload_sha256 wire\<rparr>,
       ee_schema_id = schema_id, ee_payload = payload, ee_encoded = encoded\<rparr>))"

definition genesis_event :: "streams_env \<Rightarrow> string \<Rightarrow> bytes \<Rightarrow> streams_error + event_envelope" where
  "genesis_event E stream config = encode_event E stream 0 genesis_schema_id ''genesis'' config"

definition event_digest_hex :: "streams_env \<Rightarrow> event_envelope \<Rightarrow> string" where
  "event_digest_hex E e = sha256_hex E (ee_encoded e)"

definition decode_event :: "streams_env \<Rightarrow> string \<Rightarrow> u64 \<Rightarrow> bytes \<Rightarrow> event_envelope option" where
  "decode_event E expected_stream expected_seq b =
    Option.bind (cdec (se_envelope_json E) b) (\<lambda>wire.
    if we_format_version wire \<noteq> envelope_format_version then None
    else if we_stream_id wire \<noteq> expected_stream \<or> we_seq wire \<noteq> expected_seq then None
    else Option.bind (se_base64_decode E (we_payload wire)) (\<lambda>payload.
    if word_of_nat (length payload) \<noteq> we_payload_len wire then None
    else if sha256_hex E payload \<noteq> we_payload_sha256 wire then None
    else Option.bind (ok_opt (stream_id_new (we_stream_id wire))) (\<lambda>stream.
    Option.bind (ok_opt (stable_event_id_new (we_stable_event_id wire))) (\<lambda>event_id.
    Option.bind (ok_opt (schema_id_new (we_schema_id wire))) (\<lambda>schema.
    Some \<lparr>ee_format_version = we_format_version wire,
      ee_identity = \<lparr>er_stream_id = stream, er_seq = we_seq wire, er_stable_event_id = event_id,
        er_payload_sha256 = we_payload_sha256 wire\<rparr>,
      ee_schema_id = schema, ee_payload = payload, ee_encoded = b\<rparr>)))))"

abbreviation ee_seq :: "event_envelope \<Rightarrow> u64" where
  "ee_seq e \<equiv> er_seq (ee_identity e)"

abbreviation ee_stable_event_id :: "event_envelope \<Rightarrow> string" where
  "ee_stable_event_id e \<equiv> er_stable_event_id (ee_identity e)"

abbreviation ee_payload_sha256 :: "event_envelope \<Rightarrow> string" where
  "ee_payload_sha256 e \<equiv> er_payload_sha256 (ee_identity e)"

section \<open>The outcome of a read\<close>

datatype replay =
    ReplayNotFound string
  | ReplayEmpty
  | ReplayPage "event_envelope list" bool
  | ReplayCorrupt "u64 list"
  | ReplayOffsetExpired u64
  | ReplayUnavailable string
  | ReplayUnqualified message

definition replay_events :: "replay \<Rightarrow> event_envelope list" where
  "replay_events r = (case r of ReplayPage events _ \<Rightarrow> events | _ \<Rightarrow> [])"

end
