(* ===== verification/Stream_Log.thy ===== *)
theory Stream_Log
  imports Stream_Types Keyspace_Ops
begin

text \<open>
  The handlers of \<open>Streams\<close> in \<open>lib.rs\<close> of \<open>yeetz-s3-streams\<close> over the keyspace operations of
  \<open>Keyspace_Ops\<close>: creation, append, replay, cursors, the tail hint and its recovery, trim and
  garbage collection.  Each is a request tree.  A panic (\<open>expect\<close>) is \<open>Stuck\<close>.  Concurrent reads of
  one chunk are issued in order before any reply is examined.  Pauses between attempts are not
  modelled.
\<close>

definition expect_some :: "'a option \<Rightarrow> ('a \<Rightarrow> 'b io) \<Rightarrow> 'b io" where
  "expect_some x f = (case x of None \<Rightarrow> Stuck | Some a \<Rightarrow> f a)"

definition io_map_err :: "('e + 'a) io \<Rightarrow> ('e \<Rightarrow> 'f) \<Rightarrow> ('f + 'a) io" where
  "io_map_err m f = io_bind m (\<lambda>r. Ret (map_err r f))"

section \<open>Access to the keyspace\<close>

definition log_create :: "streams_env \<Rightarrow> string \<Rightarrow> bytes \<Rightarrow> (keyspace_error + unit) io" where
  "log_create E k v = ks_create (se_fuel E) (se_ext E) (se_ids E) streams_namespace k v"

definition log_get :: "streams_env \<Rightarrow> string \<Rightarrow> (keyspace_error + bytes option) io" where
  "log_get E k = ks_get (se_ext E) streams_namespace k"

definition log_get_with_etag :: "streams_env \<Rightarrow> string \<Rightarrow> (keyspace_error + (bytes \<times> etag) option) io" where
  "log_get_with_etag E k = ks_get_with_etag (se_ext E) streams_namespace k"

definition log_compare_exchange :: "streams_env \<Rightarrow> string \<Rightarrow> etag \<Rightarrow> bytes \<Rightarrow> (keyspace_error + etag) io" where
  "log_compare_exchange E k e v = compare_exchange (se_fuel E) (se_ext E) (se_ids E 0) streams_namespace k e v"

definition log_floor :: "streams_env \<Rightarrow> string \<Rightarrow> (keyspace_error + u64 option) io" where
  "log_floor E stream = trim_floor (se_fuel E) streams_namespace stream"

definition parse_seq :: "string \<Rightarrow> u64 option" where
  "parse_seq component = parse_zero_padded component"

definition log_prefix :: "string \<Rightarrow> string" where
  "log_prefix stream = stream @ ''/log/''"

section \<open>The tail hint\<close>

definition read_tail_hint :: "streams_env \<Rightarrow> string \<Rightarrow> (streams_error + tail_hint option) io" where
  "read_tail_hint E stream =
    io_try (io_map_err (log_get E (tail_key stream)) (map_keyspace ''read tail hint'')) (\<lambda>found. case found of
      Some b \<Rightarrow> lift_res (ok_or (cdec (se_hint_json E) b) (StreamCorrupt stream [])) (\<lambda>hint.
        if th_format_version hint \<noteq> envelope_format_version then Ret (Inl (StreamCorrupt stream []))
        else Ret (Inr (Some hint)))
    | None \<Rightarrow> Ret (Inr None))"

definition verified_tail_hint :: "streams_env \<Rightarrow> string \<Rightarrow> tail_hint option io" where
  "verified_tail_hint E stream = io_bind (read_tail_hint E stream) (\<lambda>r. case r of
      Inr (Some hint) \<Rightarrow>
        let seq = th_highest_validated_dense_seq hint in
        io_bind (log_get E (log_key stream seq)) (\<lambda>g. Ret (case g of
            Inr (Some b) \<Rightarrow> (case decode_event E stream seq b of
                Some e \<Rightarrow> if event_digest_hex E e = th_terminal_record_digest hint then Some hint else None
              | None \<Rightarrow> None)
          | _ \<Rightarrow> None))
    | _ \<Rightarrow> Ret None)"

text \<open>Whether the stored hint is to be replaced by one at \<open>landed\<close>.\<close>

definition hint_replaceable :: "streams_env \<Rightarrow> string \<Rightarrow> u64 \<Rightarrow> tail_hint \<Rightarrow> bytes \<Rightarrow> bool io" where
  "hint_replaceable E stream landed desired b = (case cdec (se_hint_json E) b of
      None \<Rightarrow> Ret True
    | Some current \<Rightarrow>
        if th_format_version current \<noteq> envelope_format_version then Ret True
        else if th_highest_validated_dense_seq current < landed then Ret True
        else if th_highest_validated_dense_seq current = landed
        then Ret (th_terminal_record_digest current \<noteq> th_terminal_record_digest desired)
        else let seq = th_highest_validated_dense_seq current in
          io_bind (log_get E (log_key stream seq)) (\<lambda>g. Ret (case g of
              Inr (Some b) \<Rightarrow> (case decode_event E stream seq b of
                  Some e \<Rightarrow> event_digest_hex E e \<noteq> th_terminal_record_digest current
                | None \<Rightarrow> True)
            | Inr None \<Rightarrow> True
            | Inl _ \<Rightarrow> False)))"

definition advance_tail_hint :: "streams_env \<Rightarrow> string \<Rightarrow> u64 \<Rightarrow> event_envelope \<Rightarrow> unit io" where
  "advance_tail_hint E stream landed e =
    (let desired = \<lparr>th_format_version = envelope_format_version, th_highest_validated_dense_seq = landed,
           th_terminal_record_digest = event_digest_hex E e\<rparr>;
         key = tail_key stream in
     expect_some (cenc (se_hint_json E) desired) (\<lambda>desired_bytes.
     io_bind (log_get_with_etag E key) (\<lambda>r. case r of
         Inr None \<Rightarrow> io_map (\<lambda>_. ()) (log_create E key desired_bytes)
       | Inr (Some (b, etag)) \<Rightarrow> io_bind (hint_replaceable E stream landed desired b) (\<lambda>replace.
           if replace then io_map (\<lambda>_. ()) (log_compare_exchange E key etag desired_bytes) else Ret ())
       | Inl _ \<Rightarrow> Ret ())))"

definition heal_tail_hint :: "streams_env \<Rightarrow> string \<Rightarrow> u64 \<Rightarrow> event_envelope option \<Rightarrow> unit io" where
  "heal_tail_hint E stream after_seq events = (case events of
      None \<Rightarrow> Ret ()
    | Some e \<Rightarrow>
        let landed = ee_seq e in
        io_bind (verified_tail_hint E stream) (\<lambda>hint.
        let prefix_trusted = (after_seq = 0 \<or>
              (case hint of None \<Rightarrow> False | Some h \<Rightarrow> th_highest_validated_dense_seq h \<ge> after_seq)) in
        if \<not> prefix_trusted then Ret ()
        else if (case hint of None \<Rightarrow> False | Some h \<Rightarrow> th_highest_validated_dense_seq h \<ge> landed) then Ret ()
        else advance_tail_hint E stream landed e))"

definition saturating_mul :: "u64 \<Rightarrow> u64 \<Rightarrow> u64" where
  "saturating_mul a b = (if unat a * unat b < 2 ^ 64 then a * b else - 1)"

text \<open>The exponential probe: the last hit and the span of the first miss, or \<open>None\<close> after a failed
  read.\<close>

primrec probe_loop :: "nat \<Rightarrow> streams_env \<Rightarrow> string \<Rightarrow> u64 \<Rightarrow> u64 \<Rightarrow> u64 \<Rightarrow> (u64 \<times> u64) option io" where
  "probe_loop 0 E stream start low span = Stuck"
| "probe_loop (Suc fuel) E stream start low span =
    (let probe = saturating_add start span in
     if probe = start then Ret (Some (low, span))
     else io_bind (log_get E (log_key stream probe)) (\<lambda>r. case r of
         Inr (Some _) \<Rightarrow> probe_loop fuel E stream start probe (saturating_mul span 2)
       | Inr None \<Rightarrow> Ret (Some (low, span))
       | Inl _ \<Rightarrow> Ret None))"

lemma word_half:
  fixes d :: u64
  assumes "1 < d"
  shows "0 < unat (d div 2)" "unat (d div 2) < unat d" "unat (d - d div 2) < unat d"
proof -
  have h: "unat (d div 2) = unat d div 2" by (simp add: unat_div)
  have d: "1 < unat d" using assms by (simp add: word_less_nat_alt)
  then show pos: "0 < unat (d div 2)" and less: "unat (d div 2) < unat d" using h by auto
  then show "unat (d - d div 2) < unat d" by (simp add: unat_sub word_le_nat_alt)
qed

text \<open>The binary search between the last hit and the first miss.\<close>

function search_loop :: "streams_env \<Rightarrow> string \<Rightarrow> u64 \<Rightarrow> u64 \<Rightarrow> u64 option io" where
  "search_loop E stream low high =
    (if high - low > 1
     then let mid = low + (high - low) div 2 in
       io_bind (log_get E (log_key stream mid)) (\<lambda>r. case r of
           Inr (Some _) \<Rightarrow> search_loop E stream mid high
         | Inr None \<Rightarrow> search_loop E stream low mid
         | Inl _ \<Rightarrow> Ret None)
     else Ret (Some low))"
  by auto
termination
  by (relation "measure (\<lambda>(E, stream, low, high). unat (high - low))")
    (simp_all add: word_half diff_diff_eq [symmetric])

declare search_loop.simps [simp del]

definition recover_tail_hint :: "streams_env \<Rightarrow> string \<Rightarrow> u64 \<Rightarrow> unit io" where
  "recover_tail_hint E stream start = io_bind (log_get E (log_key stream start)) (\<lambda>r. case r of
      Inr (Some _) \<Rightarrow>
        io_bind (probe_loop (se_fuel E) E stream start start 1) (\<lambda>probed. case probed of
          None \<Rightarrow> Ret ()
        | Some (low, span) \<Rightarrow>
            let high_bound = saturating_add start span in
            io_bind (search_loop E stream low high_bound) (\<lambda>searched. case searched of
              None \<Rightarrow> Ret ()
            | Some low \<Rightarrow> io_bind (log_get E (log_key stream low)) (\<lambda>g. case g of
                Inr (Some b) \<Rightarrow> (case decode_event E stream low b of
                    Some e \<Rightarrow> advance_tail_hint E stream low e
                  | None \<Rightarrow> Ret ())
              | _ \<Rightarrow> Ret ())))
    | _ \<Rightarrow> Ret ())"

section \<open>The listed end\<close>

fun max_page :: "string \<Rightarrow> string list \<Rightarrow> string option \<Rightarrow> u64 \<Rightarrow> bool \<Rightarrow> string option \<times> u64 \<times> bool" where
  "max_page pre [] after m advanced = (after, m, advanced)"
| "max_page pre (k # ks) after m advanced = (case Option.bind (strip_prefix pre k) parse_seq of
      Some seq \<Rightarrow> max_page pre ks (Some k) (max m seq) True
    | None \<Rightarrow> max_page pre ks after m advanced)"

primrec list_max_loop :: "nat \<Rightarrow> streams_env \<Rightarrow> string \<Rightarrow> string option \<Rightarrow> u64 \<Rightarrow> (streams_error + u64) io" where
  "list_max_loop 0 E stream after m = Stuck"
| "list_max_loop (Suc fuel) E stream after m =
    io_try (io_map_err (list_after streams_namespace after 1000) (map_keyspace ''append: list floor'')) (\<lambda>keys.
    if keys = [] then Ret (Inr m)
    else case max_page (log_prefix stream) keys after m False of
      (after, m, advanced) \<Rightarrow> if \<not> advanced then Ret (Inr m) else list_max_loop fuel E stream after m)"

definition idempotent_scan_window :: u64 where
  "idempotent_scan_window = 16"

definition list_log_max :: "streams_env \<Rightarrow> string \<Rightarrow> (streams_error + u64) io" where
  "list_log_max E stream = io_bind (verified_tail_hint E stream) (\<lambda>hint.
    let seed = (case hint of
        Some h \<Rightarrow> saturating_sub (th_highest_validated_dense_seq h) idempotent_scan_window
      | None \<Rightarrow> 0) in
    list_max_loop (se_fuel E) E stream (Some (log_key stream seed)) seed)"

definition next_log_key_after :: "streams_env \<Rightarrow> string \<Rightarrow> u64 \<Rightarrow> (keyspace_error + u64 option) io" where
  "next_log_key_after E stream after =
    io_try (list_after streams_namespace (Some (log_key stream after)) 2) (\<lambda>keys.
    let seqs = filter (\<lambda>seq. seq > after)
          (List.map_filter (\<lambda>k. Option.bind (strip_prefix (log_prefix stream) k) parse_seq) keys) in
    Ret (Inr (if seqs = [] then None else Some (Min (set seqs)))))"

section \<open>Creation, configuration, retention\<close>

text \<open>\<open>mint_stream_id\<close> with the clock, the counter and the process identifier as arguments.\<close>

definition mint_stream_id :: "streams_env \<Rightarrow> bytes \<Rightarrow> u64 \<Rightarrow> bytes \<Rightarrow> string" where
  "mint_stream_id E nanos_le count pid_le =
    ''s'' @ hex_encode (se_ext E) (take 16 (sha256 (se_ext E) (nanos_le @ rev (to_be_bytes count) @ pid_le)))"

definition create_stream :: "streams_env \<Rightarrow> bytes \<Rightarrow> u64 \<Rightarrow> bytes \<Rightarrow> bytes \<Rightarrow> (streams_error + string) io" where
  "create_stream E nanos_le count pid_le config =
    (let stream = mint_stream_id E nanos_le count pid_le in
     lift_res (genesis_event E stream config) (\<lambda>genesis.
     io_try (io_map_err (log_create E (log_key stream 0) (ee_encoded genesis)) (map_keyspace ''create_stream'')) (\<lambda>_.
     Ret (Inr stream))))"

definition read_config :: "streams_env \<Rightarrow> string \<Rightarrow> (streams_error + bytes option) io" where
  "read_config E stream =
    io_try (io_map_err (log_get E (log_key stream 0)) (map_keyspace ''read_config'')) (\<lambda>found. case found of
      None \<Rightarrow> Ret (Inr None)
    | Some b \<Rightarrow> lift_res (ok_or (decode_event E stream 0 b) (StreamCorrupt stream [0])) (\<lambda>e.
        Ret (Inr (Some (ee_payload e)))))"

definition stream_trim_floor :: "streams_env \<Rightarrow> string \<Rightarrow> (streams_error + u64 option) io" where
  "stream_trim_floor E stream = io_map_err (log_floor E stream) (map_keyspace ''trim_floor'')"

text \<open>The sum \<open>end + 1\<close> wraps around, as in a release build.\<close>

definition stream_trim :: "streams_env \<Rightarrow> string \<Rightarrow> u64 \<Rightarrow> (streams_error + trim_state) io" where
  "stream_trim E stream first_retained =
    (if first_retained = 0
     then Ret (Inl (InvalidArgument (Message ''trim floor must retain the genesis (first_retained >= 1)'' [] [])))
     else io_try (io_map_err (log_get E (log_key stream 0)) (map_keyspace ''trim: genesis'')) (\<lambda>genesis.
       if genesis = None then Ret (Inl (StreamNotFound stream))
       else io_try (list_log_max E stream) (\<lambda>listed.
         io_bind (verified_tail_hint E stream) (\<lambda>hint.
         let last_seq = max listed (case hint of None \<Rightarrow> 0 | Some h \<Rightarrow> th_highest_validated_dense_seq h) in
         if first_retained > last_seq + 1
         then Ret (Inl (InvalidArgument (Message ''trim floor exceeds the observable log end'' [] [first_retained, last_seq])))
         else io_map_err (propose_trim (se_fuel E) streams_namespace stream first_retained)
           (map_keyspace ''trim: propose'')))))"

definition stream_gc :: "streams_env \<Rightarrow> string \<Rightarrow> (streams_error + delete_below_report) io" where
  "stream_gc E stream = io_try (stream_trim_floor E stream) (\<lambda>floor. case floor of
      None \<Rightarrow> Ret (Inr \<lparr>db_examined = 0, db_deleted = 0, db_remaining = 0\<rparr>)
    | Some floor \<Rightarrow> io_map_err (delete_below (se_fuel E) streams_namespace stream (log_prefix stream) floor)
        (map_keyspace ''gc: delete_below''))"

section \<open>Append\<close>

definition append_budget :: nat where
  "append_budget = 64"

definition receipt_of :: "string \<Rightarrow> u64 \<Rightarrow> string \<Rightarrow> event_envelope \<Rightarrow> append_receipt" where
  "receipt_of stream seq stable_event_id e = \<lparr>ar_stream_id = stream, ar_seq = seq,
    ar_stable_event_id = stable_event_id, ar_payload_sha256 = ee_payload_sha256 e\<rparr>"

fun idempotent_scan :: "streams_env \<Rightarrow> string \<Rightarrow> string \<Rightarrow> string \<Rightarrow> bytes \<Rightarrow> u64 list
    \<Rightarrow> (streams_error + append_receipt option) io" where
  "idempotent_scan E stream schema event_id payload [] = Ret (Inr None)"
| "idempotent_scan E stream schema event_id payload (seq # seqs) =
    io_try (io_map_err (log_get E (log_key stream seq)) (map_keyspace ''append: idempotent scan'')) (\<lambda>found.
    lift_res (ok_or found (StreamCorrupt stream [seq])) (\<lambda>existing.
    lift_res (ok_or (decode_event E stream seq existing) (StreamCorrupt stream [seq])) (\<lambda>e.
    if ee_stable_event_id e \<noteq> event_id then idempotent_scan E stream schema event_id payload seqs
    else if ee_schema_id e = schema \<and> ee_payload e = payload
    then io_bind (advance_tail_hint E stream seq e) (\<lambda>_. Ret (Inr (Some (receipt_of stream seq event_id e))))
    else Ret (Inl (IdempotencyConflict stream event_id seq)))))"

text \<open>One attempt at the slot \<open>guess\<close>; \<open>retry\<close> is what follows when another event holds it.\<close>

definition append_at :: "streams_env \<Rightarrow> string \<Rightarrow> string \<Rightarrow> string \<Rightarrow> bytes \<Rightarrow> u64
    \<Rightarrow> (streams_error + append_receipt) io \<Rightarrow> (streams_error + append_receipt) io" where
  "append_at E stream schema event_id payload guess retry =
    lift_res (encode_event E stream guess schema event_id payload) (\<lambda>e.
    io_bind (log_create E (log_key stream guess) (ee_encoded e)) (\<lambda>r. case r of
        Inr _ \<Rightarrow> io_bind (advance_tail_hint E stream guess e) (\<lambda>_. Ret (Inr (receipt_of stream guess event_id e)))
      | Inl (KsAlreadyExists _) \<Rightarrow>
          io_try (io_map_err (log_get E (log_key stream guess)) (map_keyspace ''append: readback'')) (\<lambda>found. case found of
              Some existing \<Rightarrow>
                if existing = ee_encoded e
                then io_bind (advance_tail_hint E stream guess e) (\<lambda>_. Ret (Inr (receipt_of stream guess event_id e)))
                else lift_res (ok_or (decode_event E stream guess existing) (StreamCorrupt stream [guess])) (\<lambda>landed.
                  if ee_stable_event_id landed = event_id then Ret (Inl (IdempotencyConflict stream event_id guess))
                  else retry)
            | None \<Rightarrow> Ret (Inl (BackendUnqualified (Message ''append readback absent after create conflict'' [] [guess]))))
      | Inl err \<Rightarrow> Ret (Inl (map_keyspace ''append: create'' err))))"

text \<open>\<open>left\<close> conflicts are still tolerated.\<close>

primrec append_loop :: "nat \<Rightarrow> streams_env \<Rightarrow> string \<Rightarrow> string \<Rightarrow> string \<Rightarrow> bytes \<Rightarrow> u64
    \<Rightarrow> (streams_error + append_receipt) io" where
  "append_loop 0 E stream schema event_id payload guess = append_at E stream schema event_id payload guess
    (Ret (Inl (AppendBudgetExhausted stream guess (word_of_nat append_budget))))"
| "append_loop (Suc left) E stream schema event_id payload guess = append_at E stream schema event_id payload guess
    (if guess = - 1 then Ret (Inl (SeqExhausted stream))
     else append_loop left E stream schema event_id payload (guess + 1))"

text \<open>The positions of \<open>a..=b\<close>.\<close>

definition seq_range :: "u64 \<Rightarrow> u64 \<Rightarrow> u64 list" where
  "seq_range a b = map word_of_nat [unat a..<Suc (unat b)]"

definition stream_append :: "streams_env \<Rightarrow> string \<Rightarrow> string \<Rightarrow> string \<Rightarrow> bytes \<Rightarrow> (streams_error + append_receipt) io" where
  "stream_append E stream schema event_id payload =
    io_try (io_map_err (log_get E (log_key stream 0)) (map_keyspace ''append: genesis'')) (\<lambda>found.
    lift_res (ok_or found (StreamNotFound stream)) (\<lambda>genesis.
    lift_res (ok_or (decode_event E stream 0 genesis) (StreamCorrupt stream [0])) (\<lambda>_.
    io_try (list_log_max E stream) (\<lambda>list_max.
    io_bind (verified_tail_hint E stream) (\<lambda>hint.
    let hint_seq = (case hint of None \<Rightarrow> 0 | Some h \<Rightarrow> th_highest_validated_dense_seq h) in
    io_try (stream_trim_floor E stream) (\<lambda>floor.
    let trim = (case floor of None \<Rightarrow> 0 | Some f \<Rightarrow> f);
        event_max = max list_max hint_seq in
    if event_max = - 1 then Ret (Inl (SeqExhausted stream))
    else
      let scan_from = max (max (max hint_seq (saturating_sub list_max idempotent_scan_window)) 1) trim in
      io_try (if event_max \<ge> scan_from
              then idempotent_scan E stream schema event_id payload (seq_range scan_from event_max)
              else Ret (Inr None)) (\<lambda>landed. case landed of
          Some receipt \<Rightarrow> Ret (Inr receipt)
        | None \<Rightarrow> append_loop append_budget E stream schema event_id payload (max (event_max + 1) trim))))))))"

end
