(* ===== verification/Stream_Replay.thy ===== *)
theory Stream_Replay
  imports Stream_Log
begin

text \<open>
  Replay and cursors (\<open>lib.rs\<close>: \<open>read\<close>, \<open>read_cursor\<close>, \<open>advance_cursor\<close>), and the strict reads of
  \<open>bounded.rs\<close>.
\<close>

section \<open>Bounded chunks of reads\<close>

definition fetch_parallelism :: nat where
  "fetch_parallelism = 8"

text \<open>At most \<open>want\<close> positions from \<open>seq\<close> on; the chunk ends at the largest position.\<close>

primrec seq_chunk :: "nat \<Rightarrow> u64 \<Rightarrow> u64 list" where
  "seq_chunk 0 seq = []"
| "seq_chunk (Suc want) seq = seq # (case checked_add seq 1 of Some next \<Rightarrow> seq_chunk want next | None \<Rightarrow> [])"

lemma seq_chunk_Nil [simp]: "seq_chunk want seq = [] \<longleftrightarrow> want = 0"
  by (cases want) auto

lemma seq_chunk_shrinks: "0 < n \<Longrightarrow> 0 < want \<Longrightarrow> n - length (seq_chunk want seq) < n"
  by (cases want) auto

primrec get_all :: "('k \<Rightarrow> 'a io) \<Rightarrow> 'k list \<Rightarrow> ('k \<times> 'a) list io" where
  "get_all f [] = Ret []"
| "get_all f (k # ks) = io_bind (f k) (\<lambda>r. io_bind (get_all f ks) (\<lambda>rs. Ret ((k, r) # rs)))"

section \<open>Replay\<close>

text \<open>The replies of one chunk: an early outcome, or the events, the last position and the absent one.\<close>

fun take_results :: "streams_env \<Rightarrow> string \<Rightarrow> (u64 \<times> (keyspace_error + bytes option)) list
    \<Rightarrow> event_envelope list \<Rightarrow> u64 option \<Rightarrow> replay + (event_envelope list \<times> u64 option \<times> u64 option)" where
  "take_results E stream [] events last_fetched = Inr (events, last_fetched, None)"
| "take_results E stream ((seq, r) # rs) events last_fetched = (case r of
      Inr (Some b) \<Rightarrow> (case decode_event E stream seq b of
          Some e \<Rightarrow> take_results E stream rs (events @ [e]) (Some seq)
        | None \<Rightarrow> Inl (ReplayCorrupt [seq]))
    | Inr None \<Rightarrow> Inr (events, last_fetched, Some seq)
    | Inl _ \<Rightarrow> Inl (ReplayUnavailable ''read: fetch''))"

text \<open>\<open>left\<close> is \<open>limit - events.len()\<close>.\<close>

function fetch_loop :: "streams_env \<Rightarrow> string \<Rightarrow> nat \<Rightarrow> u64 \<Rightarrow> event_envelope list \<Rightarrow> u64 option
    \<Rightarrow> (replay + (event_envelope list \<times> u64 option \<times> u64 option)) io" where
  "fetch_loop E stream left chunk_start events last_fetched =
    (let chunk = seq_chunk (min fetch_parallelism left) chunk_start in
     if chunk = [] then Ret (Inr (events, last_fetched, None))
     else io_bind (get_all (\<lambda>seq. log_get E (log_key stream seq)) chunk) (\<lambda>results.
       case take_results E stream results events last_fetched of
         Inl outcome \<Rightarrow> Ret (Inl outcome)
       | Inr (events, last_fetched, Some absent) \<Rightarrow> Ret (Inr (events, last_fetched, Some absent))
       | Inr (events, last_fetched, None) \<Rightarrow>
           if left \<le> length chunk then Ret (Inr (events, last_fetched, None))
           else (case checked_add (last chunk) 1 of
               Some next \<Rightarrow> fetch_loop E stream (left - length chunk) next events last_fetched
             | None \<Rightarrow> Ret (Inr (events, last_fetched, None)))))"
  by auto
termination
  by (relation "measure (\<lambda>(E, stream, left, chunk_start, events, last_fetched). left)")
    (auto simp: neq_Nil_conv)

declare fetch_loop.simps [simp del]

text \<open>The end of a read whose listing named a later position.\<close>

definition finish_listed :: "streams_env \<Rightarrow> string \<Rightarrow> event_envelope list \<Rightarrow> u64 option \<Rightarrow> u64 option \<Rightarrow> u64 \<Rightarrow> replay io" where
  "finish_listed E stream events last_fetched stopped_at_absent next = (case stopped_at_absent of
      Some absent \<Rightarrow>
        if next = absent then Ret (ReplayUnqualified (Message ''LIST contradicts GET'' [] [absent]))
        else Ret (ReplayCorrupt (if absent < next then butlast (seq_range absent next) else []))
    | None \<Rightarrow> expect_some last_fetched (\<lambda>final.
        if next > final
        then io_bind (verified_tail_hint E stream) (\<lambda>hint.
          io_bind (if hint = None then recover_tail_hint E stream final else Ret ()) (\<lambda>_.
          Ret (ReplayPage events False)))
        else Ret (ReplayUnqualified (Message ''LIST probe contradicted the fetched page'' [] []))))"

text \<open>The end of a read whose listing was empty: \<open>finish_served\<close> serves the page, \<open>finish_unlisted\<close>
  checks the witnesses first.\<close>

definition finish_served :: "streams_env \<Rightarrow> string \<Rightarrow> u64 \<Rightarrow> event_envelope list \<Rightarrow> u64 option \<Rightarrow> bool \<Rightarrow> replay io" where
  "finish_served E stream after_seq events last_fetched end_witnessed =
    io_bind (if \<not> end_witnessed
        then recover_tail_hint E stream (case last_fetched of None \<Rightarrow> after_seq | Some final \<Rightarrow> final)
        else heal_tail_hint E stream after_seq (if events = [] then None else Some (last events))) (\<lambda>_.
    Ret (if events = [] then ReplayEmpty else ReplayPage events end_witnessed))"

definition finish_unlisted :: "streams_env \<Rightarrow> string \<Rightarrow> u64 \<Rightarrow> event_envelope list \<Rightarrow> u64 option \<Rightarrow> u64 option \<Rightarrow> replay io" where
  "finish_unlisted E stream after_seq events last_fetched stopped_at_absent =
    (let end = (case last_fetched of None \<Rightarrow> after_seq | Some final \<Rightarrow> final) in
     io_bind (verified_tail_hint E stream) (\<lambda>verified.
     if (case verified of None \<Rightarrow> False | Some h \<Rightarrow> th_highest_validated_dense_seq h > end)
     then Ret (ReplayUnqualified (Message ''stale LIST: verified hint exceeds the qualified end'' []
       [th_highest_validated_dense_seq (the verified), end]))
     else
       let end_witnessed = (case verified of None \<Rightarrow> False | Some h \<Rightarrow> th_highest_validated_dense_seq h = end) in
       if end_witnessed \<and> stopped_at_absent = None \<and> end < - 1
       then io_bind (log_get E (log_key stream (end + 1))) (\<lambda>r. case r of
           Inr (Some b) \<Rightarrow> Ret (case decode_event E stream (end + 1) b of
               Some _ \<Rightarrow> ReplayUnqualified (Message ''LIST omitted GET-visible successor'' [] [end + 1])
             | None \<Rightarrow> ReplayCorrupt [end + 1])
         | Inr None \<Rightarrow> finish_served E stream after_seq events last_fetched end_witnessed
         | Inl _ \<Rightarrow> Ret (ReplayUnavailable ''read: terminal successor''))
       else finish_served E stream after_seq events last_fetched end_witnessed))"

definition read_from :: "streams_env \<Rightarrow> string \<Rightarrow> u64 \<Rightarrow> nat \<Rightarrow> replay io" where
  "read_from E stream after_seq limit =
    io_bind (fetch_loop E stream limit (after_seq + 1) [] None) (\<lambda>fetched. case fetched of
      Inl outcome \<Rightarrow> Ret outcome
    | Inr (events, last_fetched, stopped_at_absent) \<Rightarrow>
        let probe_from = (case last_fetched of None \<Rightarrow> after_seq | Some final \<Rightarrow> final) in
        io_bind (next_log_key_after E stream probe_from) (\<lambda>listed. case listed of
            Inl _ \<Rightarrow> Ret (ReplayUnqualified (Message ''completeness LIST probe failed'' [] []))
          | Inr (Some next) \<Rightarrow> finish_listed E stream events last_fetched stopped_at_absent next
          | Inr None \<Rightarrow> finish_unlisted E stream after_seq events last_fetched stopped_at_absent))"

definition stream_read :: "streams_env \<Rightarrow> string \<Rightarrow> u64 \<Rightarrow> nat \<Rightarrow> replay io" where
  "stream_read E stream after_seq limit =
    (if limit = 0 then Ret (ReplayUnqualified (Message ''read called with limit 0'' [] []))
     else io_bind (log_get E (log_key stream 0)) (\<lambda>g. case g of
       Inl _ \<Rightarrow> Ret (ReplayUnavailable ''read: genesis'')
     | Inr None \<Rightarrow> Ret (ReplayNotFound stream)
     | Inr (Some genesis) \<Rightarrow> (case decode_event E stream 0 genesis of
         None \<Rightarrow> Ret (ReplayCorrupt [0])
       | Some _ \<Rightarrow>
           if after_seq = - 1 then Ret ReplayEmpty
           else io_bind (log_floor E stream) (\<lambda>f. case f of
             Inl _ \<Rightarrow> Ret (ReplayUnavailable ''read: trim floor'')
           | Inr floor \<Rightarrow>
               (case floor of
                 Some first_retained \<Rightarrow>
                   if after_seq + 1 < first_retained then Ret (ReplayOffsetExpired first_retained)
                   else read_from E stream after_seq limit
               | None \<Rightarrow> read_from E stream after_seq limit)))))"

section \<open>Cursors\<close>

definition decode_and_verify_cursor :: "streams_env \<Rightarrow> string \<Rightarrow> string \<Rightarrow> bytes \<Rightarrow> string \<Rightarrow> (streams_error + cursor) io" where
  "decode_and_verify_cursor E stream consumer b event_operation =
    (let corrupt = CursorCorrupt stream consumer in
     lift_res (ok_or (cdec (se_cursor_json E) b) (corrupt ''payload is malformed'')) (\<lambda>cursor.
     if cu_format_version cursor \<noteq> envelope_format_version then Ret (Inl (corrupt ''format version is unsupported''))
     else if cu_stream_id cursor \<noteq> stream then Ret (Inl (corrupt ''stream id does not match its key''))
     else if cu_seq cursor = 0 then Ret (Inl (corrupt ''seq does not name an event''))
     else io_try (io_map_err (log_get E (log_key stream (cu_seq cursor))) (map_keyspace event_operation)) (\<lambda>found.
       case found of
         None \<Rightarrow> io_bind (stream_trim_floor E stream) (\<lambda>floor. Ret (case floor of
             Inr (Some first_retained) \<Rightarrow>
               if cu_seq cursor < first_retained then Inl (OffsetExpired stream first_retained)
               else Inl (corrupt ''referenced event is absent'')
           | _ \<Rightarrow> Inl (corrupt ''referenced event is absent'')))
       | Some event \<Rightarrow>
           lift_res (ok_or (decode_event E stream (cu_seq cursor) event) (corrupt ''referenced event is corrupt'')) (\<lambda>e.
           if cu_event_id cursor \<noteq> ee_stable_event_id e
           then Ret (Inl (corrupt ''event id does not match the referenced event''))
           else Ret (Inr cursor)))))"

definition read_cursor :: "streams_env \<Rightarrow> string \<Rightarrow> string \<Rightarrow> (streams_error + cursor option) io" where
  "read_cursor E stream consumer = lift_res (cursor_key stream consumer) (\<lambda>key.
    io_try (io_map_err (log_get E key) (map_keyspace ''read_cursor'')) (\<lambda>found. case found of
        Some b \<Rightarrow> io_try (decode_and_verify_cursor E stream consumer b ''read_cursor: event'') (\<lambda>c. Ret (Inr (Some c)))
      | None \<Rightarrow> Ret (Inr None)))"

text \<open>The position of a stored cursor: verified, or, below the floor, as stored.\<close>

definition current_cursor :: "streams_env \<Rightarrow> string \<Rightarrow> string \<Rightarrow> bytes \<Rightarrow> (streams_error + cursor) io" where
  "current_cursor E stream consumer b =
    io_bind (decode_and_verify_cursor E stream consumer b ''advance_cursor: current event'') (\<lambda>r. case r of
        Inr cursor \<Rightarrow> Ret (Inr cursor)
      | Inl (OffsetExpired _ _) \<Rightarrow>
          lift_res (ok_or (cdec (se_cursor_json E) b) (CursorCorrupt stream consumer ''payload is malformed'')) (\<lambda>cursor.
          if cu_format_version cursor \<noteq> envelope_format_version \<or> cu_stream_id cursor \<noteq> stream \<or> cu_seq cursor = 0
          then Ret (Inl (CursorCorrupt stream consumer ''payload is malformed''))
          else Ret (Inr cursor))
      | Inl err \<Rightarrow> Ret (Inl err))"

primrec cursor_loop :: "nat \<Rightarrow> streams_env \<Rightarrow> string \<Rightarrow> string \<Rightarrow> string \<Rightarrow> cursor \<Rightarrow> (streams_error + cursor) io" where
  "cursor_loop 0 E stream consumer key desired = Stuck"
| "cursor_loop (Suc fuel) E stream consumer key desired = io_bind (log_get_with_etag E key) (\<lambda>r. case r of
      Inr None \<Rightarrow>
        expect_some (cenc (se_cursor_json E) desired) (\<lambda>cursor_bytes.
        io_bind (log_create E key cursor_bytes) (\<lambda>c. case c of
            Inr _ \<Rightarrow> Ret (Inr desired)
          | Inl (KsAlreadyExists _) \<Rightarrow> cursor_loop fuel E stream consumer key desired
          | Inl err \<Rightarrow> Ret (Inl (map_keyspace ''advance_cursor: create'' err))))
    | Inr (Some (b, etag)) \<Rightarrow> io_try (current_cursor E stream consumer b) (\<lambda>current.
        if cu_seq current > cu_seq desired then Ret (Inl (CursorNotMonotonic stream (cu_seq current) (cu_seq desired)))
        else if cu_seq current = cu_seq desired then Ret (Inr current)
        else expect_some (cenc (se_cursor_json E) desired) (\<lambda>cursor_bytes.
          io_bind (log_compare_exchange E key etag cursor_bytes) (\<lambda>c. case c of
              Inr _ \<Rightarrow> Ret (Inr desired)
            | Inl (KsPreconditionFailed _ _ _ _ _) \<Rightarrow> cursor_loop fuel E stream consumer key desired
            | Inl err \<Rightarrow> Ret (Inl (map_keyspace ''advance_cursor: cas'' err)))))
    | Inl _ \<Rightarrow> Ret (Inl (StreamUnavailable ''advance_cursor: read'')))"

definition advance_cursor :: "streams_env \<Rightarrow> string \<Rightarrow> string \<Rightarrow> u64 \<Rightarrow> (streams_error + cursor) io" where
  "advance_cursor E stream consumer target_seq =
    (if target_seq = 0
     then Ret (Inl (InvalidArgument (Message ''cursor target must be an event seq (>= 1)'' [] [])))
     else io_try (io_map_err (log_get E (log_key stream target_seq)) (map_keyspace ''advance_cursor: target'')) (\<lambda>event.
       case event of
         None \<Rightarrow> io_bind (stream_trim_floor E stream) (\<lambda>floor. Ret (case floor of
             Inr (Some first_retained) \<Rightarrow>
               if target_seq < first_retained then Inl (OffsetExpired stream first_retained)
               else Inl (EventMissing stream target_seq)
           | _ \<Rightarrow> Inl (EventMissing stream target_seq)))
       | Some b \<Rightarrow>
           lift_res (ok_or (decode_event E stream target_seq b) (StreamCorrupt stream [target_seq])) (\<lambda>e.
           let desired = \<lparr>cu_format_version = envelope_format_version, cu_stream_id = stream,
                 cu_seq = target_seq, cu_event_id = ee_stable_event_id e\<rparr> in
           lift_res (cursor_key stream consumer) (\<lambda>key.
           cursor_loop (se_fuel E) E stream consumer key desired))))"

section \<open>Strict reads\<close>

record range_page =
  rp_events :: "event_envelope list"
  rp_reached_end :: bool

definition strict_fetch :: "streams_env \<Rightarrow> string \<Rightarrow> u64 \<Rightarrow> string \<Rightarrow> (streams_error + event_envelope option) io" where
  "strict_fetch E stream seq operation =
    io_try (io_map_err (log_get E (log_key stream seq)) (map_event_read_error stream seq operation)) (\<lambda>found.
    case found of
      Some b \<Rightarrow> Ret (ok_or (map_option Some (decode_event E stream seq b)) (StreamCorrupt stream [seq]))
    | None \<Rightarrow> Ret (Inr None))"

definition strict_genesis :: "streams_env \<Rightarrow> string \<Rightarrow> string \<Rightarrow> (streams_error + event_envelope) io" where
  "strict_genesis E stream operation =
    io_try (strict_fetch E stream 0 operation) (\<lambda>found. Ret (ok_or found (StreamNotFound stream)))"

definition strict_floor :: "streams_env \<Rightarrow> string \<Rightarrow> string \<Rightarrow> (streams_error + u64 option) io" where
  "strict_floor E stream operation = io_map_err (log_floor E stream) (map_keyspace operation)"

definition read_event :: "streams_env \<Rightarrow> string \<Rightarrow> u64 \<Rightarrow> (streams_error + event_envelope) io" where
  "read_event E stream seq = lift_res (validate_segment ''stream id'' stream) (\<lambda>_.
    io_try (strict_genesis E stream ''read_event: genesis'') (\<lambda>genesis.
    if seq = 0 then Ret (Inr genesis)
    else io_try (strict_floor E stream ''read_event: trim floor'') (\<lambda>floor.
      if (case floor of None \<Rightarrow> False | Some first_retained \<Rightarrow> seq < first_retained)
      then Ret (Inl (OffsetExpired stream (the floor)))
      else io_try (strict_fetch E stream seq ''read_event: fetch'') (\<lambda>found.
        Ret (ok_or found (EventMissing stream seq))))))"

fun take_strict :: "string \<Rightarrow> (u64 \<times> (streams_error + event_envelope option)) list \<Rightarrow> event_envelope list
    \<Rightarrow> streams_error + event_envelope list" where
  "take_strict stream [] events = Inr events"
| "take_strict stream ((seq, r) # rs) events = (case r of
      Inr (Some e) \<Rightarrow> take_strict stream rs (events @ [e])
    | Inr None \<Rightarrow> Inl (EventMissing stream seq)
    | Inl err \<Rightarrow> Inl err)"

text \<open>\<open>remaining\<close> is \<open>page_end - next + 1\<close>, which the loop condition keeps from wrapping.\<close>

function range_loop :: "streams_env \<Rightarrow> string \<Rightarrow> nat \<Rightarrow> u64 \<Rightarrow> event_envelope list
    \<Rightarrow> (streams_error + event_envelope list) io" where
  "range_loop E stream remaining next events =
    (if remaining = 0 then Ret (Inr events)
     else
       let chunk = seq_chunk (min fetch_parallelism remaining) next in
       io_bind (get_all (\<lambda>seq. strict_fetch E stream seq ''read_range: fetch'') chunk) (\<lambda>results.
       lift_res (take_strict stream results events) (\<lambda>events.
       case checked_add (last chunk) 1 of
         Some later \<Rightarrow> range_loop E stream (remaining - length chunk) later events
       | None \<Rightarrow> Ret (Inr events))))"
  by auto
termination
  by (relation "measure (\<lambda>(E, stream, remaining, next, events). remaining)")
    (simp_all add: seq_chunk_shrinks fetch_parallelism_def)

declare range_loop.simps [simp del]

definition read_range :: "streams_env \<Rightarrow> string \<Rightarrow> u64 \<Rightarrow> u64 \<Rightarrow> nat \<Rightarrow> (streams_error + range_page) io" where
  "read_range E stream after_seq through_seq limit = lift_res (validate_segment ''stream id'' stream) (\<lambda>_.
    if limit = 0 then Ret (Inl (InvalidArgument (Message ''read_range limit must be at least 1'' [] [])))
    else if after_seq \<ge> through_seq
    then Ret (Inl (InvalidArgument (Message ''read_range window is empty'' [] [after_seq, through_seq])))
    else io_try (strict_genesis E stream ''read_range: genesis'') (\<lambda>_.
      io_try (strict_floor E stream ''read_range: trim floor'') (\<lambda>floor.
      if (case floor of None \<Rightarrow> False | Some first_retained \<Rightarrow> after_seq + 1 < first_retained)
      then Ret (Inl (OffsetExpired stream (the floor)))
      else
        let page_end = min through_seq (saturating_add after_seq (word_of_nat limit));
            first = after_seq + 1;
            remaining = (if first \<le> page_end then Suc (unat (page_end - first)) else 0) in
        io_try (range_loop E stream remaining first []) (\<lambda>events.
        Ret (Inr \<lparr>rp_events = events,
          rp_reached_end = (events \<noteq> [] \<and> ee_seq (last events) = through_seq)\<rparr>)))))"

end
