(* ===== verification/Stream_Conditional.thy ===== *)
theory Stream_Conditional
  imports Stream_Replay
begin

text \<open>
  Conditional writes (\<open>conditional.rs\<close>): creation under a caller's identifier, and the append at
  exactly the successor of a named predecessor, with what each failure proves about its effect.
  The maximum floor observed within one call is passed as a state.
\<close>

datatype create_outcome = StreamCreated | StreamExisting

datatype create_error =
    CreateStorage streams_error
  | ConfigurationConflict string

datatype append_effect = NotAttempted | PossiblyCommitted | Committed append_receipt

datatype expired_subject = ExpiredPredecessor | ExpiredTarget

datatype append_failure =
    AfStorage streams_error
  | PredecessorMismatch event_ref event_ref
  | PositionConflict string u64 event_ref
  | HoleWitnessed string u64 event_ref
  | AfExpired string u64 u64 expired_subject

record append_error =
  ae_kind :: append_failure
  ae_effect :: append_effect

definition failed :: "append_failure \<Rightarrow> append_effect \<Rightarrow> append_error" where
  "failed kind eff = \<lparr>ae_kind = kind, ae_effect = eff\<rparr>"

definition storage_failure :: "streams_error \<Rightarrow> append_effect \<Rightarrow> append_error" where
  "storage_failure err eff = failed (AfStorage err) eff"

definition is_canonical_sha256_hex :: "string \<Rightarrow> bool" where
  "is_canonical_sha256_hex v \<longleftrightarrow> length v = 64 \<and> list_all ascii_lower_hex v"

definition classify_occupant :: "streams_env \<Rightarrow> string \<Rightarrow> string \<Rightarrow> u64 \<Rightarrow> bytes \<Rightarrow> streams_error + event_ref" where
  "classify_occupant E stream event_id target_seq b =
    try_res (ok_or (decode_event E stream target_seq b) (StreamCorrupt stream [target_seq])) (\<lambda>occupant.
    if ee_stable_event_id occupant = event_id then Inl (IdempotencyConflict stream event_id target_seq)
    else Inr (ee_identity occupant))"

section \<open>Creation under a given identifier\<close>

definition create_stream_with_id :: "streams_env \<Rightarrow> string \<Rightarrow> bytes \<Rightarrow> (create_error + create_outcome) io" where
  "create_stream_with_id E stream config =
    lift_res (map_err (validate_segment ''stream id'' stream) CreateStorage) (\<lambda>_.
    lift_res (map_err (genesis_event E stream config) CreateStorage) (\<lambda>genesis.
    io_bind (log_create E (log_key stream 0) (ee_encoded genesis)) (\<lambda>r. case r of
        Inr _ \<Rightarrow> Ret (Inr StreamCreated)
      | Inl (KsAlreadyExists _) \<Rightarrow>
          io_try (io_map_err (log_get E (log_key stream 0))
            (\<lambda>err. CreateStorage (map_event_read_error stream 0 ''create_stream_with_id: incumbent readback'' err)))
          (\<lambda>incumbent. case incumbent of
              None \<Rightarrow> Ret (Inl (CreateStorage (BackendUnqualified
                (Message ''create_stream_with_id: genesis absent after AlreadyExists'' [] []))))
            | Some b \<Rightarrow>
                if b = ee_encoded genesis then Ret (Inr StreamExisting)
                else (case decode_event E stream 0 b of
                    None \<Rightarrow> Ret (Inl (CreateStorage (StreamCorrupt stream [0])))
                  | Some _ \<Rightarrow> Ret (Inl (ConfigurationConflict stream))))
      | Inl err \<Rightarrow> Ret (Inl (CreateStorage
          (if (case err of KsInvalidIdentifier _ _ \<Rightarrow> True | KsTombstoneImmutable _ \<Rightarrow> True
                | KsIncarnationCounterImmutable _ \<Rightarrow> True | KsMaintenanceFenceImmutable _ \<Rightarrow> True
                | KsTrimCertificateImmutable _ \<Rightarrow> True | _ \<Rightarrow> False)
           then InvalidArgument (OfKeyspace err)
           else StreamUnavailable ''create_stream_with_id''))))))"

section \<open>Floors observed within one call\<close>

definition observe_floor :: "streams_env \<Rightarrow> string \<Rightarrow> string \<Rightarrow> u64 option
    \<Rightarrow> ((streams_error + u64) \<times> u64 option) io" where
  "observe_floor E stream operation max_observed =
    io_bind (io_map_err (log_floor E stream) (map_keyspace operation)) (\<lambda>r. Ret (case r of
      Inl err \<Rightarrow> (Inl err, max_observed)
    | Inr (Some floor) \<Rightarrow>
        if (case max_observed of None \<Rightarrow> False | Some m \<Rightarrow> floor < m)
        then (Inl (BackendUnqualified (Message ''certified trim floor regressed within one append_expected'' []
          [the max_observed, floor])), max_observed)
        else (Inr floor, Some floor)
    | Inr None \<Rightarrow> (case max_observed of
          Some m \<Rightarrow> (Inl (BackendUnqualified
            (Message ''certified trim floor vanished from a later observation within one append_expected'' [] [m])), max_observed)
        | None \<Rightarrow> (Inr 0, None))))"

text \<open>The target or a predecessor other than the genesis below the observed floor.\<close>

definition refuse_expired :: "string \<Rightarrow> event_ref \<Rightarrow> u64 \<Rightarrow> u64 \<Rightarrow> append_error + unit" where
  "refuse_expired stream predecessor target_seq floor =
    (if target_seq < floor then Inl (failed (AfExpired stream target_seq floor ExpiredTarget) NotAttempted)
     else if er_seq predecessor > 0 \<and> er_seq predecessor < floor
     then Inl (failed (AfExpired stream target_seq floor ExpiredPredecessor) NotAttempted)
     else Inr ())"

definition floor_admits :: "streams_env \<Rightarrow> string \<Rightarrow> event_ref \<Rightarrow> u64 \<Rightarrow> string \<Rightarrow> u64 option
    \<Rightarrow> (append_error + u64 option) io" where
  "floor_admits E stream predecessor target_seq operation max_observed =
    io_bind (observe_floor E stream operation max_observed) (\<lambda>(r, max_observed).
    lift_res (map_err r (\<lambda>err. storage_failure err NotAttempted)) (\<lambda>floor.
    lift_res (refuse_expired stream predecessor target_seq floor) (\<lambda>_. Ret (Inr max_observed))))"

definition adjudicate_committed :: "streams_env \<Rightarrow> string \<Rightarrow> u64 \<Rightarrow> append_receipt \<Rightarrow> u64 option
    \<Rightarrow> (append_error + append_receipt) io" where
  "adjudicate_committed E stream target_seq receipt max_observed =
    io_bind (observe_floor E stream ''append_expected: final floor'' max_observed) (\<lambda>(r, _). Ret (case r of
      Inl err \<Rightarrow> Inl (failed (AfStorage err) (Committed receipt))
    | Inr floor \<Rightarrow>
        if target_seq < floor then Inl (failed (AfExpired stream target_seq floor ExpiredTarget) (Committed receipt))
        else Inr receipt))"

definition adjudicate_unresolved :: "streams_env \<Rightarrow> string \<Rightarrow> u64 \<Rightarrow> u64 option \<Rightarrow> append_error io" where
  "adjudicate_unresolved E stream target_seq max_observed =
    io_bind (observe_floor E stream ''append_expected: final floor'' max_observed) (\<lambda>(r, _). Ret (case r of
      Inr floor \<Rightarrow>
        if target_seq < floor then failed (AfExpired stream target_seq floor ExpiredTarget) PossiblyCommitted
        else storage_failure (StreamUnavailable ''append_expected: create outcome unresolved'') PossiblyCommitted
    | Inl err \<Rightarrow> storage_failure err PossiblyCommitted))"

section \<open>The reads before the attempt\<close>

definition verified_genesis :: "streams_env \<Rightarrow> string \<Rightarrow> (append_error + event_envelope) io" where
  "verified_genesis E stream =
    io_try (io_map_err (log_get E (log_key stream 0))
      (\<lambda>err. storage_failure (map_event_read_error stream 0 ''append_expected: genesis'' err) NotAttempted)) (\<lambda>found.
    lift_res (ok_or found (storage_failure (StreamNotFound stream) NotAttempted)) (\<lambda>b.
    Ret (ok_or (decode_event E stream 0 b) (storage_failure (StreamCorrupt stream [0]) NotAttempted))))"

definition verify_predecessor :: "streams_env \<Rightarrow> string \<Rightarrow> event_ref \<Rightarrow> event_envelope \<Rightarrow> u64 \<Rightarrow> u64 option
    \<Rightarrow> (append_error + u64 option) io" where
  "verify_predecessor E stream predecessor genesis target_seq max_observed =
    (if er_seq predecessor = 0
     then Ret (if ee_identity genesis = predecessor then Inr max_observed
       else Inl (failed (PredecessorMismatch predecessor (ee_identity genesis)) NotAttempted))
     else io_try (io_map_err (log_get E (log_key stream (er_seq predecessor)))
         (\<lambda>err. storage_failure (map_event_read_error stream (er_seq predecessor) ''append_expected: predecessor'' err) NotAttempted))
       (\<lambda>found. case found of
         None \<Rightarrow> io_try (floor_admits E stream predecessor target_seq ''append_expected: floor reread'' max_observed) (\<lambda>_.
           Ret (Inl (storage_failure (EventMissing stream (er_seq predecessor)) NotAttempted)))
       | Some b \<Rightarrow>
           lift_res (ok_or (decode_event E stream (er_seq predecessor) b)
             (storage_failure (StreamCorrupt stream [er_seq predecessor]) NotAttempted)) (\<lambda>e.
           Ret (if ee_identity e \<noteq> predecessor
             then Inl (failed (PredecessorMismatch predecessor (ee_identity e)) NotAttempted)
             else Inr max_observed))))"

definition probe_later_witness :: "streams_env \<Rightarrow> string \<Rightarrow> u64 \<Rightarrow> (append_error + unit) io" where
  "probe_later_witness E stream target_seq =
    io_try (io_map_err (next_log_key_after E stream target_seq)
      (\<lambda>err. storage_failure (map_keyspace ''append_expected: suffix probe'' err) NotAttempted)) (\<lambda>listed. case listed of
      None \<Rightarrow> Ret (Inr ())
    | Some later \<Rightarrow>
        io_try (io_map_err (log_get E (log_key stream later))
          (\<lambda>err. storage_failure (map_event_read_error stream later ''append_expected: suffix witness'' err) NotAttempted))
        (\<lambda>found.
        lift_res (ok_or found (storage_failure (BackendUnqualified
          (Message ''append_expected suffix probe: LIST named a seq that GET found absent'' [] [later, target_seq])) NotAttempted)) (\<lambda>b.
        lift_res (ok_or (decode_event E stream later b) (storage_failure (StreamCorrupt stream [later]) NotAttempted)) (\<lambda>e.
        Ret (Inl (failed (HoleWitnessed stream target_seq (ee_identity e)) NotAttempted))))))"

section \<open>The attempt\<close>

text \<open>The readback after a failed create.\<close>

definition reconcile_readback :: "streams_env \<Rightarrow> string \<Rightarrow> string \<Rightarrow> u64 \<Rightarrow> event_envelope \<Rightarrow> append_receipt \<Rightarrow> u64 option
    \<Rightarrow> (append_error + append_receipt) io" where
  "reconcile_readback E stream event_id target_seq e receipt max_observed =
    io_bind (log_get E (log_key stream target_seq)) (\<lambda>readback. case readback of
      Inr (Some b) \<Rightarrow>
        if b = ee_encoded e then adjudicate_committed E stream target_seq receipt max_observed
        else io_bind (observe_floor E stream ''append_expected: final floor'' max_observed) (\<lambda>(r, _). Ret (case r of
            Inl err \<Rightarrow> Inl (storage_failure err PossiblyCommitted)
          | Inr floor \<Rightarrow>
              if target_seq < floor then Inl (failed (AfExpired stream target_seq floor ExpiredTarget) PossiblyCommitted)
              else (case classify_occupant E stream event_id target_seq b of
                  Inr occupant \<Rightarrow> Inl (failed (PositionConflict stream target_seq occupant) PossiblyCommitted)
                | Inl err \<Rightarrow> Inl (storage_failure err PossiblyCommitted))))
    | Inr None \<Rightarrow> io_bind (adjudicate_unresolved E stream target_seq max_observed) (\<lambda>err. Ret (Inl err))
    | Inl readback_err \<Rightarrow>
        let witness = map_event_read_error stream target_seq ''append_expected: create readback'' readback_err in
        io_bind (observe_floor E stream ''append_expected: final floor'' max_observed) (\<lambda>(r, _). Ret (Inl (case r of
            Inr floor \<Rightarrow>
              if target_seq < floor then failed (AfExpired stream target_seq floor ExpiredTarget) PossiblyCommitted
              else storage_failure witness PossiblyCommitted
          | Inl (BackendUnqualified m) \<Rightarrow> storage_failure (BackendUnqualified m) PossiblyCommitted
          | Inl _ \<Rightarrow> storage_failure witness PossiblyCommitted))))"

text \<open>An absent target: sections E to J of the source.\<close>

definition append_absent :: "streams_env \<Rightarrow> string \<Rightarrow> event_ref \<Rightarrow> string \<Rightarrow> event_envelope \<Rightarrow> u64 \<Rightarrow> event_envelope
    \<Rightarrow> append_receipt \<Rightarrow> (append_error + append_receipt) io" where
  "append_absent E stream predecessor event_id genesis target_seq e receipt =
    io_try (floor_admits E stream predecessor target_seq ''append_expected: trim floor'' None) (\<lambda>max_observed.
    io_try (verify_predecessor E stream predecessor genesis target_seq max_observed) (\<lambda>max_observed.
    io_try (probe_later_witness E stream target_seq) (\<lambda>_.
    io_try (floor_admits E stream predecessor target_seq ''append_expected: floor before create'' max_observed) (\<lambda>max_observed.
    io_bind (log_create E (log_key stream target_seq) (ee_encoded e)) (\<lambda>create. case create of
        Inr _ \<Rightarrow> adjudicate_committed E stream target_seq receipt max_observed
      | Inl _ \<Rightarrow> reconcile_readback E stream event_id target_seq e receipt max_observed)))))"

text \<open>A target that holds other bytes: section D.\<close>

definition append_occupied :: "streams_env \<Rightarrow> string \<Rightarrow> string \<Rightarrow> u64 \<Rightarrow> bytes \<Rightarrow> (append_error + append_receipt) io" where
  "append_occupied E stream event_id target_seq b =
    io_bind (observe_floor E stream ''append_expected: trim floor'' None) (\<lambda>(r, _). Ret (case r of
      Inl err \<Rightarrow> Inl (storage_failure err NotAttempted)
    | Inr floor \<Rightarrow>
        if target_seq < floor then Inl (failed (AfExpired stream target_seq floor ExpiredTarget) NotAttempted)
        else (case classify_occupant E stream event_id target_seq b of
            Inr occupant \<Rightarrow> Inl (failed (PositionConflict stream target_seq occupant) NotAttempted)
          | Inl err \<Rightarrow> Inl (storage_failure err NotAttempted))))"

text \<open>A target that cannot be read.\<close>

definition append_unreadable :: "streams_env \<Rightarrow> string \<Rightarrow> u64 \<Rightarrow> streams_error \<Rightarrow> (append_error + append_receipt) io" where
  "append_unreadable E stream target_seq mapped = (case mapped of
      StreamCorrupt _ _ \<Rightarrow> io_bind (observe_floor E stream ''append_expected: trim floor'' None) (\<lambda>(r, _). Ret (case r of
          Inl floor_err \<Rightarrow> Inl (storage_failure floor_err NotAttempted)
        | Inr floor \<Rightarrow>
            if target_seq < floor then Inl (failed (AfExpired stream target_seq floor ExpiredTarget) NotAttempted)
            else Inl (storage_failure mapped NotAttempted)))
    | _ \<Rightarrow> Ret (Inl (storage_failure mapped NotAttempted)))"

text \<open>The arguments, checked before any request: the target, its envelope and the receipt.\<close>

definition admit_expected :: "streams_env \<Rightarrow> event_ref \<Rightarrow> string \<Rightarrow> string \<Rightarrow> bytes
    \<Rightarrow> streams_error + (u64 \<times> event_envelope \<times> append_receipt)" where
  "admit_expected E predecessor schema event_id payload =
    (let stream = er_stream_id predecessor in
     try_res (validate_segment ''stream id'' stream) (\<lambda>_.
     try_res (validate_segment ''schema id'' schema) (\<lambda>_.
     try_res (validate_segment ''stable event id'' event_id) (\<lambda>_.
     try_res (validate_segment ''predecessor stable event id'' (er_stable_event_id predecessor)) (\<lambda>_.
     if \<not> is_canonical_sha256_hex (er_payload_sha256 predecessor)
     then Inl (InvalidArgument (Message ''predecessor payload digest is not canonical lowercase 64-hex''
       [er_payload_sha256 predecessor] []))
     else try_res (ok_or (checked_add (er_seq predecessor) 1) (SeqExhausted stream)) (\<lambda>target_seq.
       try_res (encode_event E stream target_seq schema event_id payload) (\<lambda>e.
       Inr (target_seq, e, receipt_of stream target_seq event_id e))))))))"

definition append_expected :: "streams_env \<Rightarrow> event_ref \<Rightarrow> string \<Rightarrow> string \<Rightarrow> bytes \<Rightarrow> (append_error + append_receipt) io" where
  "append_expected E predecessor schema event_id payload =
    (let stream = er_stream_id predecessor in
     lift_res (map_err (admit_expected E predecessor schema event_id payload) (\<lambda>err. storage_failure err NotAttempted))
       (\<lambda>(target_seq, e, receipt).
     io_try (verified_genesis E stream) (\<lambda>genesis.
     io_bind (log_get E (log_key stream target_seq)) (\<lambda>target. case target of
         Inl err \<Rightarrow> append_unreadable E stream target_seq
           (map_event_read_error stream target_seq ''append_expected: target'' err)
       | Inr (Some b) \<Rightarrow>
           if b = ee_encoded e then adjudicate_committed E stream target_seq receipt None
           else append_occupied E stream event_id target_seq b
       | Inr None \<Rightarrow> append_absent E stream predecessor event_id genesis target_seq e receipt))))"

end
