(* ===== verification/Stream_Migration.thy ===== *)
theory Stream_Migration
  imports Stream_Replay
begin

text \<open>
  Migration (\<open>migration.rs\<close>): a log copied to explicit positions, its verification through the
  public replay, and the immutable seal.
\<close>

record migration_entry =
  me_seq :: u64
  me_schema_id :: string
  me_stable_event_id :: string
  me_payload :: bytes

record migration_receipt =
  mr_count :: u64
  mr_event_root_digest :: string

text \<open>The first entry, in the order of positions, that is not at its place.\<close>

fun dense_from :: "nat \<Rightarrow> migration_entry list \<Rightarrow> streams_error + unit" where
  "dense_from position [] = Inr ()"
| "dense_from position (e # es) =
    (if me_seq e \<noteq> word_of_nat position + 1
     then Inl (InvalidArgument (Message ''migration entries must be dense from 1'' [] [me_seq e, word_of_nat position]))
     else dense_from (Suc position) es)"

definition verify_migration_genesis :: "streams_env \<Rightarrow> string \<Rightarrow> (streams_error + unit) io" where
  "verify_migration_genesis E stream = io_bind (log_get E (log_key stream 0)) (\<lambda>r. Ret (case r of
      Inr (Some b) \<Rightarrow> (case decode_event E stream 0 b of
          None \<Rightarrow> Inl (StreamCorrupt stream [0])
        | Some _ \<Rightarrow> Inr ())
    | Inr None \<Rightarrow> Inl (StreamNotFound stream)
    | Inl (KsValueEnvelopeMalformed _) \<Rightarrow> Inl (StreamCorrupt stream [0])
    | Inl _ \<Rightarrow> Inl (StreamUnavailable ''migration: read genesis'')))"

text \<open>\<open>root\<close> is what has been fed to the hasher.\<close>

fun write_entries :: "streams_env \<Rightarrow> string \<Rightarrow> migration_entry list \<Rightarrow> bytes \<Rightarrow> event_envelope option
    \<Rightarrow> (streams_error + bytes \<times> event_envelope option) io" where
  "write_entries E stream [] root terminal = Ret (Inr (root, terminal))"
| "write_entries E stream (entry # rest) root terminal =
    lift_res (encode_event E stream (me_seq entry) (me_schema_id entry) (me_stable_event_id entry) (me_payload entry)) (\<lambda>e.
    io_try (io_bind (log_create E (log_key stream (me_seq entry)) (ee_encoded e)) (\<lambda>r. case r of
        Inr _ \<Rightarrow> Ret (Inr ())
      | Inl (KsAlreadyExists _) \<Rightarrow>
          io_try (io_map_err (log_get E (log_key stream (me_seq entry))) (\<lambda>_. StreamUnavailable ''migrate_log: get'')) (\<lambda>found.
          lift_res (ok_or found (BackendUnqualified
            (Message ''migration: create conflict but readback absent'' [] [me_seq entry]))) (\<lambda>existing.
          if existing \<noteq> ee_encoded e
          then lift_res (ok_or (decode_event E stream (me_seq entry) existing) (StreamCorrupt stream [me_seq entry])) (\<lambda>_.
            Ret (Inl (InvalidArgument (Message ''migration conflict: destination holds different bytes'' [] [me_seq entry]))))
          else Ret (Inr ())))
      | Inl _ \<Rightarrow> Ret (Inl (StreamUnavailable ''migrate_log: create'')))) (\<lambda>_.
    expect_some (hex_decode (se_ext E) (event_digest_hex E e)) (\<lambda>digest.
    write_entries E stream rest (root @ digest) (Some e))))"

text \<open>The positions of a page continue \<open>after\<close>: the last one, or the position expected and the one found.\<close>

fun follow_page :: "u64 \<Rightarrow> event_envelope list \<Rightarrow> streams_error + u64" where
  "follow_page after [] = Inr after"
| "follow_page after (e # es) =
    (if ee_seq e \<noteq> after + 1
     then Inl (BackendUnqualified (Message ''migration verification: unexpected seq'' [] [after + 1, ee_seq e]))
     else follow_page (ee_seq e) es)"

primrec verify_loop :: "nat \<Rightarrow> streams_env \<Rightarrow> string \<Rightarrow> u64 \<Rightarrow> (streams_error + u64) io" where
  "verify_loop 0 E stream after = Stuck"
| "verify_loop (Suc fuel) E stream after = io_bind (stream_read E stream after 256) (\<lambda>r. case r of
      ReplayPage events complete \<Rightarrow> lift_res (follow_page after events) (\<lambda>after.
        if complete then Ret (Inr after) else verify_loop fuel E stream after)
    | ReplayEmpty \<Rightarrow> Ret (Inr after)
    | ReplayCorrupt seqs \<Rightarrow> Ret (Inl (StreamCorrupt stream seqs))
    | ReplayUnavailable operation \<Rightarrow> Ret (Inl (StreamUnavailable operation))
    | ReplayUnqualified witness \<Rightarrow> Ret (Inl (BackendUnqualified witness))
    | ReplayNotFound _ \<Rightarrow> Ret (Inl (StreamNotFound stream))
    | ReplayOffsetExpired first_retained \<Rightarrow> Ret (Inl (InvalidArgument
        (Message ''stream is trimmed; migration requires the full log'' [] [first_retained]))))"

definition migrate_log :: "streams_env \<Rightarrow> string \<Rightarrow> migration_entry list \<Rightarrow> (streams_error + migration_receipt) io" where
  "migrate_log E stream entries =
    (let ordered = sort_key me_seq entries in
     lift_res (dense_from 0 ordered) (\<lambda>_.
     io_try (verify_migration_genesis E stream) (\<lambda>_.
     io_try (write_entries E stream ordered [] None) (\<lambda>(root, terminal).
     let expected_count = word_of_nat (length ordered) in
     io_try (verify_loop (se_fuel E) E stream 0) (\<lambda>after.
     if after \<noteq> expected_count
     then Ret (Inl (BackendUnqualified (Message ''migration verification: count differs'' [] [after, expected_count])))
     else io_bind (case terminal of None \<Rightarrow> Ret () | Some e \<Rightarrow> advance_tail_hint E stream expected_count e) (\<lambda>_.
       Ret (Inr \<lparr>mr_count = expected_count,
         mr_event_root_digest = hex_encode (se_ext E) (sha256 (se_ext E) root)\<rparr>)))))))"

section \<open>The seal\<close>

definition decode_migration_seal :: "streams_env \<Rightarrow> string \<Rightarrow> bytes \<Rightarrow> streams_error + migration_seal" where
  "decode_migration_seal E stream b =
    try_res (ok_or (cdec (se_seal_json E) b) (MigrationSealCorrupt stream ''payload is malformed'')) (\<lambda>seal.
    if ms_format_version seal \<noteq> envelope_format_version
    then Inl (MigrationSealCorrupt stream ''format version is unsupported'')
    else Inr seal)"

definition write_migration_seal :: "streams_env \<Rightarrow> string \<Rightarrow> migration_seal \<Rightarrow> (streams_error + unit) io" where
  "write_migration_seal E stream seal =
    (if ms_format_version seal \<noteq> envelope_format_version
     then Ret (Inl (InvalidArgument (Message ''unsupported migration seal format'' [] [ucast (ms_format_version seal)])))
     else io_try (verify_migration_genesis E stream) (\<lambda>_.
       lift_res (ok_or (cenc (se_seal_json E) seal) (InvalidArgument (Message ''seal JSON'' [] []))) (\<lambda>b.
       io_bind (log_create E (migration_seal_key stream) b) (\<lambda>r. case r of
           Inr _ \<Rightarrow> Ret (Inr ())
         | Inl (KsAlreadyExists _) \<Rightarrow> io_bind (log_get E (migration_seal_key stream)) (\<lambda>g. Ret (case g of
               Inr (Some existing) \<Rightarrow> try_res (decode_migration_seal E stream existing) (\<lambda>landed.
                 if landed = seal then Inr ()
                 else Inl (InvalidArgument (Message ''migration seal already exists with different content'' [] [])))
             | Inr None \<Rightarrow> Inl (BackendUnqualified (Message ''seal create conflict but readback absent'' [] []))
             | Inl (KsValueEnvelopeMalformed _) \<Rightarrow> Inl (MigrationSealCorrupt stream ''keyspace value envelope is malformed'')
             | Inl _ \<Rightarrow> Inl (StreamUnavailable ''write_migration_seal: readback'')))
         | Inl _ \<Rightarrow> Ret (Inl (StreamUnavailable ''write_migration_seal''))))))"

definition read_migration_seal :: "streams_env \<Rightarrow> string \<Rightarrow> (streams_error + migration_seal option) io" where
  "read_migration_seal E stream = io_bind (log_get E (migration_seal_key stream)) (\<lambda>r. case r of
      Inr (Some b) \<Rightarrow> io_try (verify_migration_genesis E stream) (\<lambda>_.
        Ret (try_res (decode_migration_seal E stream b) (\<lambda>seal. Inr (Some seal))))
    | Inr None \<Rightarrow> Ret (Inr None)
    | Inl (KsValueEnvelopeMalformed _) \<Rightarrow> Ret (Inl (MigrationSealCorrupt stream ''keyspace value envelope is malformed''))
    | Inl _ \<Rightarrow> Ret (Inl (StreamUnavailable ''read_migration_seal'')))"

end
