(* ===== verification/Stream_Safety.thy ===== *)
theory Stream_Safety
  imports Stream_Conditional Stream_Migration Keyspace_Protocol
begin

text \<open>
  Interleaved calls on streams.  \<open>key_req\<close> bounds a keyspace write to its own key and its chunks;
  \<open>stream_call\<close> lists the calls of \<open>Streams\<close> (the garbage collection apart, which removes
  events by design) with arbitrary arguments; by rely-guarantee every stored event stays as it is and every
  stored event verifies against its key, whatever calls run.
\<close>

section \<open>Writes of one key\<close>

inductive key_req :: "ext \<Rightarrow> string \<Rightarrow> string \<Rightarrow> req \<Rightarrow> bool" for X ns k where
  key_read: "is_read q \<Longrightarrow> key_req X ns k q"
| key_chunk: "key_req X ns k (UploadConditional (chunk_path X ns k i v (hash_entry X b)) b None)"
| key_put: "key_req X ns k (UploadConditional (raw_key ns k) b e)"
| key_delete: "key_req X ns k (DeleteConditional (raw_key ns k) e)"

lemma key_reads [simp]:
  "key_req X ns k (Download p)" "key_req X ns k (DownloadWithEtag p)" "key_req X ns k UnixMillis"
  "key_req X ns k (ListPrefixAfter p a n)"
  by (simp_all add: key_read)

lemmas key_writes [simp] = key_chunk key_put key_delete

abbreviation key_post :: "ext \<Rightarrow> backend \<Rightarrow> string \<Rightarrow> string \<Rightarrow> ('a \<Rightarrow> bool) \<Rightarrow> 'a io \<Rightarrow> bool" where
  "key_post X B ns k \<equiv> io_post (reply_ok B) (key_req X ns k)"

lemma key_read_post: "io_all B is_read m \<Longrightarrow> (\<And>x. Q x) \<Longrightarrow> key_post X B ns k Q m"
  unfolding io_all_def by (erule io_post_mono) (auto intro: key_read)

lemmas key_read_posts = read_calls [THEN key_read_post] get_reads [THEN key_read_post]

lemma key_put_chunk:
  "(\<And>x. Q x) \<Longrightarrow> key_post X B ns k Q (put_chunk_loop X (chunk_path X ns k i v (hash_entry X b)) k e ordinal b n)"
proof (induction n)
  case (Suc n)
  then show ?case
    by (auto intro!: post_intros simp: verify_chunk_def split: sum.split keyspace_error.split)
qed simp

lemma key_stage_from: "(\<And>x. Q x) \<Longrightarrow> key_post X B ns k Q (stage_from X ns k i v ord bs)"
proof (induction bs arbitrary: ord)
  case (Cons b bs)
  then show ?case
    by (auto intro!: post_intros key_put_chunk simp: put_chunk_def Let_def split: sum.split)
qed simp

lemma key_stage_chunks: "(\<And>x. Q x) \<Longrightarrow> key_post X B ns k Q (stage_chunks X ns k b i v commit_id)"
  unfolding stage_chunks_def by (auto intro!: post_intros key_stage_from split: sum.split)

lemma key_evict: "(\<And>x. Q x) \<Longrightarrow> key_post X B ns k Q (evict_stale_era ns k (raw_key ns k) m)"
  unfolding evict_stale_era_def by (auto intro!: post_intros key_read_posts split: sum.split)

lemma key_finish: "(\<And>x. Q x) \<Longrightarrow> key_post X B ns k Q (finish_value_cas_after_publish ns k i e)"
  unfolding finish_value_cas_after_publish_def
  by (auto intro!: post_intros key_read_posts simp: ks_object_key_Inr split: sum.split)

lemma key_create_inline: "(\<And>x. Q x) \<Longrightarrow> key_post X B ns k Q (create_inline_loop ns k (raw_key ns k) v n)"
proof (induction n)
  case (Suc n)
  then show ?case by (auto intro!: post_intros key_read_posts simp: Let_def split: sum.split)
qed simp

lemma key_create_chunked: "(\<And>x. Q x) \<Longrightarrow> key_post X B ns k Q (create_chunked_loop fuel X ids ns k (raw_key ns k) v n)"
proof (induction n)
  case (Suc n)
  then show ?case
    by (auto intro!: post_intros key_evict key_stage_chunks key_read_posts
        split: sum.split option.split ambiguity.split stale_era.split)
qed simp

lemma key_create: "(\<And>x. Q x) \<Longrightarrow> key_post X B ns k Q (ks_create fuel X ids ns k v)"
  unfolding ks_create_def create_chunked_def
  by (auto intro!: post_intros key_create_chunked key_create_inline simp: ks_object_key_Inr)

lemma key_compare_exchange: "(\<And>x. Q x) \<Longrightarrow> key_post X B ns k Q (compare_exchange fuel X commit_id ns k e v)"
  unfolding compare_exchange_def compare_exchange_chunked_def publish_inline_cas_def
  by (auto intro!: post_intros key_finish key_stage_chunks key_read_posts fail_cas_post [OF _ key_read]
      simp: ks_object_key_Inr split: sum.split option.split ambiguity.split)

section \<open>The keys of a stream\<close>

definition log_shaped :: "string \<Rightarrow> bool" where
  "log_shaped k \<longleftrightarrow> (\<exists>p seq. k = p @ ''/log/'' @ zero_padded seq)"

lemma log_key_shaped [simp]: "log_shaped (log_key stream seq)"
  by (auto simp: log_shaped_def log_key_def)

lemma log_key_inj [simp]: "log_key stream seq = log_key stream' seq' \<longleftrightarrow> stream = stream' \<and> seq = seq'"
  by (auto simp: log_key_def)

lemma log_counter_shaped [simp]: "log_shaped (ks_incarnation_key (log_key stream seq))"
  unfolding log_shaped_def log_key_def ks_incarnation_key_def by (metis append_assoc)

lemma not_log_shaped: "last k \<noteq> last (zero_padded seq) \<Longrightarrow> k \<noteq> p @ ''/log/'' @ zero_padded seq"
  by auto

lemma digit_last: "ascii_digit (last (zero_padded seq))"
  using digits_zero_padded [of seq] by (simp add: list_all_iff)

lemma tail_not_log [simp]: "\<not> log_shaped (tail_key stream)" "\<not> log_shaped (migration_seal_key stream)"
proof -
  have "\<not> ascii_digit (CHR ''l'')" by code_simp
  moreover have "last (tail_key stream) = CHR ''l''" "last (migration_seal_key stream) = CHR ''l''"
    by (simp_all add: tail_key_def migration_seal_key_def)
  ultimately show "\<not> log_shaped (tail_key stream)" "\<not> log_shaped (migration_seal_key stream)"
    using digit_last not_log_shaped unfolding log_shaped_def by metis+
qed

lemma certificate_not_log: "\<not> log_shaped (certificate_key scope seq)"
proof -
  have "p @ CHR ''s'' # CHR ''/'' # zero_padded a \<noteq> q @ CHR ''g'' # CHR ''/'' # zero_padded b" for p q a b
  proof
    assume "p @ CHR ''s'' # CHR ''/'' # zero_padded a = q @ CHR ''g'' # CHR ''/'' # zero_padded b"
    then have "(p @ ''s/'') @ zero_padded a = (q @ ''g/'') @ zero_padded b" by simp
    then have "p @ ''s/'' = q @ ''g/''" by (subst (asm) append_eq_append_conv) auto
    then have "last (butlast (p @ ''s/'')) = last (butlast (q @ ''g/''))" by (rule arg_cong)
    then show False by (simp add: butlast_append)
  qed
  note differ = this
  show ?thesis
  proof
    assume "log_shaped (certificate_key scope seq)"
    then obtain p n where "certificate_key scope seq = p @ ''/log/'' @ zero_padded n" by (auto simp: log_shaped_def)
    then show False
      using differ [of "''trim''" seq "p @ ''/lo''" n] differ [of "scope @ ''/trim''" seq "p @ ''/lo''" n]
      by (simp add: certificate_key_def split: if_splits)
  qed
qed

definition log_raw :: "string \<Rightarrow> u64 \<Rightarrow> key" where
  "log_raw stream seq = raw_key streams_namespace (log_key stream seq)"

lemma log_raw_inj [simp]: "log_raw stream seq = log_raw stream' seq' \<longleftrightarrow> stream = stream' \<and> seq = seq'"
  by (simp add: log_raw_def)

lemma raw_log_raw: "\<not> log_shaped k \<Longrightarrow> raw_key streams_namespace k \<noteq> log_raw stream seq"
  "\<not> log_shaped k \<Longrightarrow> raw_key streams_namespace k \<noteq> raw_key streams_namespace (ks_incarnation_key (log_key stream seq))"
  unfolding log_raw_def raw_key_inj by auto

section \<open>Events\<close>

lemma ids_new [simp]:
  "ok_opt (stream_id_new v) = (if identifier_ok v then Some v else None)"
  "ok_opt (schema_id_new v) = (if identifier_ok v then Some v else None)"
  "ok_opt (stable_event_id_new v) = (if identifier_ok v then Some v else None)"
  by (auto simp: stream_id_new_def schema_id_new_def stable_event_id_new_def validate_segment_def
      identifier_ok_def validate_identifier_def)

lemma decode_encode_event:
  assumes "encode_event E stream seq schema event_id payload = Inr e" "streams_env_ok E"
    and "identifier_ok stream" "identifier_ok schema" "identifier_ok event_id"
  shows "decode_event E stream seq (ee_encoded e) = Some e"
proof -
  have "codec_ok (se_envelope_json E)" "\<And>b. se_base64_decode E (se_base64_encode E b) = Some b"
    using assms(2) by (simp_all add: streams_env_ok_def)
  then show ?thesis
    using assms(1,3-) codec_okD [of "se_envelope_json E"]
    by (auto simp: encode_event_def decode_event_def Let_def try_res_Inr_iff split: if_splits)
qed

lemma decode_event_identity:
  assumes "decode_event E stream seq b = Some e"
  shows "er_stream_id (ee_identity e) = stream" "ee_seq e = seq" "ee_encoded e = b" "ee_format_version e = envelope_format_version"
    "ee_payload_sha256 e = sha256_hex E (ee_payload e)"
    "identifier_ok stream" "identifier_ok (ee_stable_event_id e)" "identifier_ok (ee_schema_id e)"
  using assms
  by (auto simp: decode_event_def bind_eq_Some_conv split: if_splits)

lemma encode_event_fields:
  assumes "encode_event E stream seq schema event_id payload = Inr e"
  shows "ee_identity e = \<lparr>er_stream_id = stream, er_seq = seq, er_stable_event_id = event_id, er_payload_sha256 = sha256_hex E payload\<rparr>"
    "ee_schema_id e = schema" "ee_payload e = payload" "length (ee_encoded e) \<le> max_encoded_envelope_bytes"
  using assms by (auto simp: encode_event_def Let_def try_res_Inr_iff split: if_splits)

text \<open>The stored form of an event in the first era of its key.\<close>

definition stored_event :: "bytes \<Rightarrow> bytes" where
  "stored_event b = envelope_encode \<lparr>ve_incarnation = 0, ve_version = 0, ve_payload = b\<rparr>"

definition verified_event :: "streams_env \<Rightarrow> string \<Rightarrow> u64 \<Rightarrow> bytes \<Rightarrow> bool" where
  "verified_event E stream seq b \<longleftrightarrow> (\<exists>v e. b = stored_event v \<and> decode_event E stream seq v = Some e)"

end
