(* ===== verification/Stream_Events.thy ===== *)
theory Stream_Events
  imports Stream_Safety
begin

text \<open>
  Interleaved stream calls keep the events: by rely-guarantee, a stored event never changes, and an
  event that is stored verifies against its key.  The era counters of log keys are never raised by
  stream calls, so that a create never evicts what it has published.
\<close>

section \<open>Rely and guarantee\<close>

definition events_inv :: "streams_env \<Rightarrow> store \<Rightarrow> bool" where
  "events_inv E s \<longleftrightarrow> (\<forall>stream seq.
    st_get s (raw_key streams_namespace (ks_incarnation_key (log_key stream seq))) = None \<and>
    (\<forall>b. st_get s (log_raw stream seq) = Some b \<longrightarrow> verified_event E stream seq b))"

definition events_rely :: "streams_env \<Rightarrow> store \<Rightarrow> store \<Rightarrow> bool" where
  "events_rely E s s' \<longleftrightarrow> events_inv E s' \<and>
    (\<forall>stream seq b. st_get s (log_raw stream seq) = Some b \<longrightarrow> st_get s' (log_raw stream seq) = Some b)"

inductive events_req :: "streams_env \<Rightarrow> req \<Rightarrow> bool" for E where
  er_read: "is_read q \<Longrightarrow> events_req E q"
| er_chunk: "events_req E (UploadConditional (chunk_path X ns k i v e) b None)"
| er_other: "\<not> log_shaped k \<Longrightarrow> events_req E (UploadConditional (raw_key streams_namespace k) b e)"
| er_event: "verified_event E stream seq b \<Longrightarrow> unreserved (log_key stream seq) \<Longrightarrow>
    events_req E (UploadConditional (log_raw stream seq) b None)"
| er_delete: "\<not> log_shaped k \<Longrightarrow> events_req E (DeleteConditional (raw_key streams_namespace k) e)"

lemma events_guarantee:
  assumes "events_inv E s" "events_req E q" "answer B q s r s'"
  shows "events_rely E s s'"
proof -
  have eff: "effect B q s s'" by (rule answer_effect [OF assms(3)])
  have keep: "events_rely E s (st_put p b s)"
    if "\<And>stream seq. p \<noteq> log_raw stream seq" "\<And>stream seq. p \<noteq> raw_key streams_namespace (ks_incarnation_key (log_key stream seq))"
    for p b
    using assms(1) that [symmetric] by (simp add: events_rely_def events_inv_def)
  have stay: "events_rely E s s" using assms(1) by (simp add: events_rely_def)
  from assms(2) show ?thesis
  proof cases
    case er_read
    then show ?thesis using stay read_effect [OF _ eff] by simp
  next
    case (er_chunk X ns k i v e b)
    have "events_rely E s (st_put (chunk_path X ns k i v e) b s)"
      by (rule keep) (use raw_not_chunk in \<open>unfold log_raw_def, metis+\<close>)
    then show ?thesis using stay eff er_chunk by (auto dest!: effect_create)
  next
    case (er_other k b e)
    have "events_rely E s (st_put (raw_key streams_namespace k) b s)" by (rule keep) (use raw_log_raw [OF er_other(2)] in auto)
    then show ?thesis using stay eff er_other by (auto dest!: effect_upload)
  next
    case (er_event stream seq b)
    have counter: "log_raw stream seq \<noteq> raw_key streams_namespace (ks_incarnation_key (log_key stream' seq'))" for stream' seq'
      using unreservedD(2) [OF er_event(3)] by (simp add: log_raw_def)
    have "events_rely E s (st_put (log_raw stream seq) b s)" if "st_get s (log_raw stream seq) = None"
      using assms(1) er_event(2) that counter [symmetric] by (auto simp: events_rely_def events_inv_def)
    then show ?thesis using stay eff er_event by (auto dest!: effect_create)
  next
    case (er_delete k e)
    have "events_rely E s (st_del (raw_key streams_namespace k) s)"
      using assms(1) raw_log_raw [OF er_delete(2)] raw_log_raw(1) [OF er_delete(2), symmetric] by (auto simp: events_rely_def events_inv_def)
    then show ?thesis using stay eff er_delete by (auto dest!: effect_delete_conditional)
  qed
qed

interpretation events_rg: rely_guarantee B "events_rely E" "\<lambda>q s. events_req E q" "events_inv E" for B E
proof
  show "events_rely E a b \<Longrightarrow> events_rely E b c \<Longrightarrow> events_rely E a c" for a b c
    by (auto simp: events_rely_def)
  show "events_rely E s s'" if "events_inv E s" "events_req E q" "answer B q s r s'" for s q r s'
    using events_guarantee that .
qed (simp_all add: events_rely_def)

section \<open>The parts of the calls\<close>

abbreviation keeps :: "backend \<Rightarrow> streams_env \<Rightarrow> 'a io \<Rightarrow> bool" where
  "keeps B E m \<equiv> events_rg.triple B E (\<lambda>_. True) m (\<lambda>_ _. True)"

lemma keeps_all:
  assumes "io_all B (events_req E) m"
  shows "keeps B E m"
  by (rule events_rg.t_all [OF events_rg.stable_True assms])

named_theorems keeps_intros \<open>calls that keep the events\<close>

lemma keeps_ret [keeps_intros]: "keeps B E (Ret a)"
  by (rule events_rg.t_ret) simp

lemma keeps_bind [keeps_intros]: "keeps B E m \<Longrightarrow> (\<And>a. keeps B E (f a)) \<Longrightarrow> keeps B E (io_bind m f)"
  by (rule events_rg.t_bind) auto

lemma keeps_try [keeps_intros]: "keeps B E m \<Longrightarrow> (\<And>a. keeps B E (f a)) \<Longrightarrow> keeps B E (io_try m f)"
  by (rule events_rg.t_try) auto

lemma keeps_lift [keeps_intros]: "(\<And>a. r = Inr a \<Longrightarrow> keeps B E (f a)) \<Longrightarrow> keeps B E (lift_res r f)"
  by (rule events_rg.t_lift) auto

lemma keeps_stuck [keeps_intros]: "keeps B E Stuck"
  by (rule keeps_all) (simp add: io_all_def)

lemma keeps_expect [keeps_intros]: "(\<And>a. x = Some a \<Longrightarrow> keeps B E (f a)) \<Longrightarrow> keeps B E (expect_some x f)"
  by (cases x) (auto simp: expect_some_def intro: keeps_stuck)

lemma keeps_map [keeps_intros]: "keeps B E m \<Longrightarrow> keeps B E (io_map f m)"
  unfolding io_map_def by (intro keeps_intros)

lemma keeps_map_err [keeps_intros]: "keeps B E m \<Longrightarrow> keeps B E (io_map_err m f)"
  unfolding io_map_err_def by (intro keeps_intros)

lemma keeps_reads: "io_all B is_read m \<Longrightarrow> keeps B E m"
  by (rule keeps_all, erule io_all_mono) (rule er_read)

lemma key_events_req: "key_req X streams_namespace k q \<Longrightarrow> \<not> log_shaped k \<Longrightarrow> events_req E q"
  by (induction rule: key_req.induct) (auto intro: events_req.intros)

lemma keeps_key: "io_post (reply_ok B) (key_req X streams_namespace k) (\<lambda>_. True) m \<Longrightarrow> \<not> log_shaped k \<Longrightarrow> keeps B E m"
  by (rule keeps_all, unfold io_all_def, erule io_post_mono) (auto intro: key_events_req)

lemma keeps_get [keeps_intros]: "keeps B E (log_get E' k)" "keeps B E (log_get_with_etag E' k)" "keeps B E (log_floor E' stream)"
  "keeps B E (list_after ns a n)"
  unfolding log_get_def log_get_with_etag_def log_floor_def
  by (rule keeps_reads, rule get_reads read_calls)+

lemma keeps_create: "\<not> log_shaped k \<Longrightarrow> keeps B E (log_create E' k v)"
  unfolding log_create_def by (rule keeps_key [OF key_create]) simp

lemma keeps_compare_exchange [keeps_intros]: "\<not> log_shaped k \<Longrightarrow> keeps B E (log_compare_exchange E' k e v)"
  unfolding log_compare_exchange_def by (rule keeps_key [OF key_compare_exchange]) simp

text \<open>An event that is in the store stays, so that what a reply shows of it remains true.\<close>

definition holds_event :: "streams_env \<Rightarrow> store \<Rightarrow> string \<Rightarrow> u64 \<Rightarrow> event_envelope \<Rightarrow> bool" where
  "holds_event E s stream seq e \<longleftrightarrow>
    (\<exists>b. st_get s (log_raw stream seq) = Some (stored_event b) \<and> decode_event E stream seq b = Some e)"

lemma stable_event [intro]: "events_rg.stable E (\<lambda>s. st_get s (log_raw stream seq) = Some b)"
  "events_rg.stable E (\<lambda>s. holds_event E s stream seq e)"
  by (auto simp: events_rg.stable_def events_rely_def holds_event_def)

text \<open>The create of an event: its counter is absent, so the era read twice is 0.\<close>

lemma t_counter_read:
  assumes "events_rg.stable E F"
  shows "events_rg.triple B E F (ks_current_incarnation streams_namespace (log_key stream seq))
    (\<lambda>x s. F s \<and> (\<forall>i. x = Inr i \<longrightarrow> i = 0))"
  unfolding ks_current_incarnation_def
  by (rule events_rg.t_bind [OF events_rg.t_download [OF assms]])
    (auto intro: events_rg.t_ret er_read simp: events_inv_def split: sum.split)

lemma t_zero:
  "(i = 0 \<Longrightarrow> events_rg.triple B E F m G) \<Longrightarrow>
    events_rg.triple B E (\<lambda>s. F s \<and> (\<forall>i'. (Inr i :: keyspace_error + u64) = Inr i' \<longrightarrow> i' = 0)) m G"
  by (cases "i = 0") (auto simp: events_rg.triple_def)

lemma t_create_event:
  assumes "decode_event E stream seq b = Some e" "length b \<le> max_encoded_envelope_bytes"
  shows "events_rg.triple B E (\<lambda>_. True) (log_create E' (log_key stream seq) b)
    (\<lambda>x s. x = Inr () \<longrightarrow> st_get s (log_raw stream seq) = Some (stored_event b))"
proof -
  let ?stored = "\<lambda>s. st_get s (log_raw stream seq) = Some (stored_event b)"
  let ?post = "\<lambda>(x :: keyspace_error + unit) s. x = Inr () \<longrightarrow> ?stored s"
  have inline: "\<not> inline_max < length b"
    using assms(2) by (simp add: max_encoded_envelope_bytes_def inline_max_def)
  have put: "events_rg.triple B E (\<lambda>_. True) (upload_conditional (log_raw stream seq) (stored_event b) None)
      (\<lambda>x s. True \<and> (\<forall>t. x = Inr t \<longrightarrow> ?stored s))" if "unreserved (log_key stream seq)"
    using er_event [of E stream seq "stored_event b"] assms(1) that
    by (intro events_rg.t_put) (auto simp: verified_event_def)
  have again: "events_rg.triple B E ?stored (io_try (ks_current_incarnation streams_namespace (log_key stream seq)) (\<lambda>now.
      if now = 0 then Ret (Inr ()) else f now)) ?post" for f
    by (rule events_rg.t_try [OF t_counter_read [OF stable_event(1)]], simp, rule t_zero) (auto intro: events_rg.t_ret)
  have loop: "events_rg.triple B E (\<lambda>_. True)
      (create_inline_loop streams_namespace (log_key stream seq) (log_raw stream seq) b (Suc n)) ?post"
    if "unreserved (log_key stream seq)" for n
    unfolding create_inline_loop.simps Let_def
    by (rule events_rg.t_try [OF t_counter_read [OF events_rg.stable_True]], simp, rule t_zero, hypsubst, rule events_rg.t_bind,
        rule put [OF that, unfolded stored_event_def])
      (auto intro!: again [unfolded stored_event_def] events_rg.t_ret simp: stored_event_def split: sum.split)
  show ?thesis unfolding log_create_def ks_create_def
    using inline loop [of 7]
    by (auto intro!: events_rg.t_lift simp: ks_object_key_Inr log_raw_def)
qed

lemma keeps_create_event:
  assumes "decode_event E stream seq b = Some e" "length b \<le> max_encoded_envelope_bytes"
  shows "keeps B E (log_create E' (log_key stream seq) b)"
  by (rule events_rg.t_post [OF t_create_event [OF assms]]) simp

text \<open>The read of an event shows what is stored.\<close>

lemma collect_stored [simp]: "collect_value X ns k (stored_event v) = Ret (Inr v)"
  using control_decode_encode [of X "CtlInline \<lparr>ve_incarnation = 0, ve_version = 0, ve_payload = v\<rparr>" k]
  by (simp add: collect_value_def stored_event_def)

lemma t_get_event:
  assumes "events_rg.stable E F"
  shows "events_rg.triple B E F (log_get E' (log_key stream seq))
    (\<lambda>x s. F s \<and> (\<forall>v. x = Inr (Some v) \<longrightarrow> st_get s (log_raw stream seq) = Some (stored_event v)))"
proof -
  have found: "events_rg.triple B E (\<lambda>s. F s \<and> st_get s (log_raw stream seq) = Some b)
      (io_try (collect_value X ns k b) (\<lambda>v. Ret (Inr (Some v))))
      (\<lambda>x s. F s \<and> (\<forall>v. x = Inr (Some v) \<longrightarrow> st_get s (log_raw stream seq) = Some (stored_event v)))" for b X ns k
  proof (cases "\<exists>v. b = stored_event v")
    case True
    then show ?thesis by (auto simp: io_try_def intro: events_rg.t_ret)
  next
    case False
    have "\<not> (events_inv E s \<and> st_get s (log_raw stream seq) = Some b)" for s
      using False unfolding events_inv_def verified_event_def by metis
    then show ?thesis by (auto simp: events_rg.triple_def)
  qed
  show ?thesis unfolding log_get_def ks_get_def
    by (auto intro!: events_rg.t_lift events_rg.t_bind [OF events_rg.t_download [OF assms er_read]] found
        events_rg.t_ret simp: ks_object_key_Inr log_raw_def [symmetric] split: sum.split)
qed

section \<open>The handlers\<close>

lemma keeps_verified_hint [keeps_intros]: "keeps B E (read_tail_hint E' stream)" "keeps B E (verified_tail_hint E' stream)"
proof -
  show hint: "keeps B E (read_tail_hint E' stream)"
    unfolding read_tail_hint_def by (auto intro!: keeps_intros split: option.split)
  show "keeps B E (verified_tail_hint E' stream)"
    unfolding verified_tail_hint_def Let_def by (auto intro!: keeps_intros hint split: sum.split option.split)
qed

lemma keeps_advance [keeps_intros]: "keeps B E (advance_tail_hint E' stream landed e)"
  unfolding advance_tail_hint_def hint_replaceable_def Let_def
  by (auto intro!: keeps_intros keeps_create split: sum.split option.split)

lemma keeps_heal [keeps_intros]: "keeps B E (heal_tail_hint E' stream after_seq e)"
  unfolding heal_tail_hint_def Let_def by (auto intro!: keeps_intros split: option.split)

lemma keeps_probe [keeps_intros]: "keeps B E (probe_loop fuel E' stream start low span)"
proof (induction fuel arbitrary: low span)
  case (Suc fuel)
  then show ?case by (auto intro!: keeps_intros simp: Let_def split: sum.split option.split)
qed (simp add: keeps_stuck)

lemma keeps_search [keeps_intros]: "keeps B E (search_loop E' stream low high)"
proof (induction E' stream low high rule: search_loop.induct)
  case (1 E' stream low high)
  then show ?case
    by (subst search_loop.simps) (auto intro!: keeps_intros simp: Let_def split: sum.split option.split)
qed

lemma keeps_recover [keeps_intros]: "keeps B E (recover_tail_hint E' stream start)"
  unfolding recover_tail_hint_def Let_def by (auto intro!: keeps_intros split: sum.split option.split)

lemma keeps_list_max [keeps_intros]: "keeps B E (list_log_max E' stream)"
proof -
  have "keeps B E (list_max_loop fuel E' stream after m)" for fuel after m
  proof (induction fuel arbitrary: after m)
    case (Suc fuel)
    then show ?case by (auto intro!: keeps_intros split: prod.split)
  qed (simp add: keeps_stuck)
  then show ?thesis unfolding list_log_max_def Let_def by (auto intro!: keeps_intros)
qed

lemma keeps_next_key [keeps_intros]: "keeps B E (next_log_key_after E' stream after)"
  unfolding next_log_key_after_def Let_def by (auto intro!: keeps_intros)

lemma keeps_trim_floor [keeps_intros]: "keeps B E (stream_trim_floor E' stream)"
  unfolding stream_trim_floor_def by (auto intro!: keeps_intros)

lemma keeps_propose [keeps_intros]: "keeps B E (propose_trim fuel streams_namespace scope f)"
proof -
  have floor: "keeps B E (trim_floor fuel streams_namespace scope)"
    by (rule keeps_reads [OF trim_floor_reads])
  have "keeps B E (upload_conditional (raw_key streams_namespace (certificate_key scope f)) b None)" for b
    using certificate_not_log [of scope f] by (intro keeps_all)
      (auto simp: io_all_def upload_conditional_def intro: er_other split: resp.split)
  then have "keeps B E (certify_trim fuel streams_namespace scope p f)" if "trim_cert_prefix scope = Inr p" for p
    unfolding certify_trim_def Let_def using trim_cert_prefix_Inr [OF that, of f]
    by (auto intro!: keeps_intros floor simp: ks_object_key_Inr)
  then show ?thesis unfolding propose_trim_def
    by (auto intro!: keeps_intros floor split: option.split)
qed

lemma keeps_trim: "keeps B E (stream_trim E' stream f)"
  unfolding stream_trim_def Let_def by (auto intro!: keeps_intros)

lemma keeps_event:
  assumes "encode_event E stream seq schema event_id payload = Inr e" "streams_env_ok E"
    and "identifier_ok stream" "identifier_ok schema" "identifier_ok event_id"
  shows "keeps B E (log_create E (log_key stream seq) (ee_encoded e))"
  by (rule keeps_create_event [OF decode_encode_event [OF assms] encode_event_fields(4) [OF assms(1)]])

lemma keeps_scan [keeps_intros]: "keeps B E (idempotent_scan E' stream schema event_id payload seqs)"
  by (induction seqs) (auto intro!: keeps_intros)

lemma keeps_append_at:
  assumes "streams_env_ok E" "identifier_ok stream" "identifier_ok schema" "identifier_ok event_id" "keeps B E retry"
  shows "keeps B E (append_at E stream schema event_id payload guess retry)"
  unfolding append_at_def using assms
  by (auto intro!: keeps_intros keeps_event split: sum.split keyspace_error.split option.split)

lemma keeps_append:
  assumes "streams_env_ok E" "identifier_ok stream" "identifier_ok schema" "identifier_ok event_id"
  shows "keeps B E (stream_append E stream schema event_id payload)"
proof -
  have "keeps B E (append_loop left E stream schema event_id payload guess)" for left guess
    by (induction left arbitrary: guess) (auto intro!: keeps_append_at keeps_ret assms)
  then show ?thesis unfolding stream_append_def Let_def
    by (auto intro!: keeps_intros split: option.split)
qed

lemma keeps_get_all [keeps_intros]: "(\<And>k. keeps B E (f k)) \<Longrightarrow> keeps B E (get_all f ks)"
  by (induction ks) (auto intro!: keeps_intros)

lemma keeps_read: "keeps B E (stream_read E' stream after_seq limit)"
proof -
  have fetch: "keeps B E (fetch_loop E' stream left chunk_start events last_fetched)" for left chunk_start events last_fetched
  proof (induction E' stream left chunk_start events last_fetched rule: fetch_loop.induct)
    case (1 E' stream left chunk_start events last_fetched)
    then show ?case
      by (subst fetch_loop.simps) (auto intro!: keeps_intros simp: Let_def split: sum.split option.split)
  qed
  have served: "keeps B E (finish_served E' stream start events last_fetched w)" for start events last_fetched w
    unfolding finish_served_def by (auto intro!: keeps_intros)
  have "keeps B E (finish_listed E' stream events last_fetched stopped later)" for events last_fetched stopped later
    unfolding finish_listed_def by (auto intro!: keeps_intros split: option.split)
  moreover have "keeps B E (finish_unlisted E' stream after_seq events last_fetched stopped)" for events last_fetched stopped
    unfolding finish_unlisted_def Let_def by (auto intro!: keeps_intros served split: sum.split option.split)
  ultimately show ?thesis unfolding stream_read_def read_from_def Let_def
    by (auto intro!: keeps_intros fetch split: sum.split option.split)
qed

lemma keeps_fetch [keeps_intros]: "keeps B E (strict_fetch E' stream seq op)" "keeps B E (strict_genesis E' stream op)"
  "keeps B E (strict_floor E' stream op)"
  unfolding strict_genesis_def strict_fetch_def strict_floor_def by (auto intro!: keeps_intros split: option.split)

lemma keeps_strict: "keeps B E (read_event E' stream seq)" "keeps B E (read_range E' stream after_seq through_seq limit)"
proof -
  show "keeps B E (read_event E' stream seq)"
    unfolding read_event_def by (auto intro!: keeps_intros)
  have "keeps B E (range_loop E' stream remaining start events)" for remaining start events
  proof (induction E' stream remaining start events rule: range_loop.induct)
    case (1 E' stream remaining start events)
    then show ?case
      by (subst range_loop.simps) (auto intro!: keeps_intros simp: Let_def split: option.split)
  qed
  then show "keeps B E (read_range E' stream after_seq through_seq limit)"
    unfolding read_range_def Let_def by (auto intro!: keeps_intros)
qed

lemma keeps_decode_cursor [keeps_intros]: "keeps B E (decode_and_verify_cursor E' stream consumer b op)"
  unfolding decode_and_verify_cursor_def Let_def by (auto intro!: keeps_intros split: option.split)

lemma keeps_cursor_loop:
  assumes "\<not> log_shaped key"
  shows "keeps B E (cursor_loop fuel E' stream consumer key desired)"
proof (induction fuel)
  case (Suc fuel)
  then show ?case
    by (auto intro!: keeps_intros keeps_create keeps_compare_exchange assms simp: current_cursor_def
        split: sum.split option.split keyspace_error.split streams_error.split)
qed (simp add: keeps_stuck)

definition consumer_ok :: "string \<Rightarrow> string \<Rightarrow> bool" where
  "consumer_ok stream consumer \<longleftrightarrow> \<not> log_shaped (stream @ ''/cursors/'' @ consumer)"

lemma keeps_cursors:
  "keeps B E (read_cursor E' stream consumer)"
  "consumer_ok stream consumer \<Longrightarrow> keeps B E (advance_cursor E' stream consumer target_seq)"
  unfolding read_cursor_def advance_cursor_def Let_def cursor_key_def
  by (auto intro!: keeps_intros keeps_cursor_loop simp: try_res_Inr_iff consumer_ok_def split: option.split)

lemma keeps_create_stream:
  assumes "streams_env_ok E"
  shows "identifier_ok (mint_stream_id E nanos count pid) \<Longrightarrow> keeps B E (create_stream E nanos count pid config)"
    "keeps B E (create_stream_with_id E stream config)"
proof -
  have ids: "identifier_ok genesis_schema_id" "identifier_ok ''genesis''" by code_simp+
  then show "identifier_ok (mint_stream_id E nanos count pid) \<Longrightarrow> keeps B E (create_stream E nanos count pid config)"
    unfolding create_stream_def Let_def genesis_event_def
    by (auto intro!: keeps_intros keeps_event assms)
  show "keeps B E (create_stream_with_id E stream config)"
    unfolding create_stream_with_id_def genesis_event_def using ids
    by (auto intro!: keeps_intros keeps_event assms simp: map_err_Inr_iff split: sum.split keyspace_error.split option.split)
qed

lemma keeps_observe [keeps_intros]: "keeps B E (observe_floor E' stream op m)"
  unfolding observe_floor_def by (auto intro!: keeps_intros)

lemma keeps_admits [keeps_intros]: "keeps B E (floor_admits E' stream predecessor target op m)"
  "keeps B E (adjudicate_committed E' stream target landed m)" "keeps B E (adjudicate_unresolved E' stream target m)"
  unfolding floor_admits_def adjudicate_committed_def adjudicate_unresolved_def
  by (auto intro!: keeps_intros split: prod.split)

lemma keeps_before [keeps_intros]: "keeps B E (verified_genesis E' stream)"
  "keeps B E (verify_predecessor E' stream predecessor genesis target m)" "keeps B E (probe_later_witness E' stream target)"
  unfolding verified_genesis_def verify_predecessor_def probe_later_witness_def
  by (auto intro!: keeps_intros split: option.split)

lemma keeps_readback [keeps_intros]: "keeps B E (reconcile_readback E' stream event_id target e landed m)"
  "keeps B E (append_occupied E' stream event_id target b)" "keeps B E (append_unreadable E' stream target err)"
  unfolding reconcile_readback_def append_occupied_def append_unreadable_def Let_def
  by (auto intro!: keeps_intros split: sum.split option.split prod.split streams_error.split)

lemma keeps_expected:
  assumes "streams_env_ok E"
  shows "keeps B E (append_expected E predecessor schema event_id payload)"
proof -
  have "keeps B E (append_absent E (er_stream_id predecessor) predecessor event_id genesis target e landed)"
    if "admit_expected E predecessor schema event_id payload = Inr (target, e, landed)" for genesis target e landed
  proof -
    have "identifier_ok (er_stream_id predecessor)" "identifier_ok schema" "identifier_ok event_id"
      "encode_event E (er_stream_id predecessor) target schema event_id payload = Inr e"
      using that by (auto simp: admit_expected_def Let_def try_res_Inr_iff split: if_splits)
    then show ?thesis unfolding append_absent_def
      by (auto intro!: keeps_intros keeps_event assms split: sum.split)
  qed
  then show ?thesis unfolding append_expected_def Let_def
    by (auto intro!: keeps_intros simp: map_err_Inr_iff split: sum.split option.split)
qed

lemma keeps_migration_genesis [keeps_intros]: "keeps B E (verify_migration_genesis E' stream)"
  unfolding verify_migration_genesis_def by (auto intro!: keeps_intros)

lemma keeps_migrate:
  assumes "streams_env_ok E" "identifier_ok stream"
    and "\<forall>entry\<in>set entries. identifier_ok (me_schema_id entry) \<and> identifier_ok (me_stable_event_id entry)"
  shows "keeps B E (migrate_log E stream entries)"
proof -
  have "keeps B E (write_entries E stream es root terminal)"
    if "\<forall>entry\<in>set es. identifier_ok (me_schema_id entry) \<and> identifier_ok (me_stable_event_id entry)" for es root terminal
    using that
    by (induction es arbitrary: root terminal)
      (auto intro!: keeps_intros keeps_event assms split: sum.split keyspace_error.split)
  moreover have "keeps B E (verify_loop fuel E stream after)" for fuel after
    by (induction fuel arbitrary: after) (auto intro!: keeps_intros keeps_read split: replay.split)
  ultimately show ?thesis unfolding migrate_log_def Let_def
    using assms(3) by (auto intro!: keeps_intros split: prod.split option.split)
qed

lemma keeps_seals: "keeps B E (write_migration_seal E' stream sl)" "keeps B E (read_migration_seal E' stream)"
  unfolding write_migration_seal_def read_migration_seal_def
  by (auto intro!: keeps_intros keeps_create split: sum.split keyspace_error.split option.split)

section \<open>Pools of calls\<close>

datatype stream_call =
    ScCreate bytes u64 bytes bytes
  | ScCreateWithId string bytes
  | ScReadConfig string
  | ScTrimFloor string
  | ScTrim string u64
  | ScAppend string string string bytes
  | ScAppendExpected event_ref string string bytes
  | ScRead string u64 nat
  | ScReadEvent string u64
  | ScReadRange string u64 u64 nat
  | ScReadCursor string string
  | ScAdvanceCursor string string u64
  | ScMigrate string "migration_entry list"
  | ScWriteSeal string migration_seal
  | ScReadSeal string

fun stream_serve :: "streams_env \<Rightarrow> stream_call \<Rightarrow> unit io" where
  "stream_serve E (ScCreate nanos count pid config) = io_map (\<lambda>_. ()) (create_stream E nanos count pid config)"
| "stream_serve E (ScCreateWithId stream config) = io_map (\<lambda>_. ()) (create_stream_with_id E stream config)"
| "stream_serve E (ScReadConfig stream) = io_map (\<lambda>_. ()) (read_config E stream)"
| "stream_serve E (ScTrimFloor stream) = io_map (\<lambda>_. ()) (stream_trim_floor E stream)"
| "stream_serve E (ScTrim stream f) = io_map (\<lambda>_. ()) (stream_trim E stream f)"
| "stream_serve E (ScAppend stream schema event_id payload) = io_map (\<lambda>_. ()) (stream_append E stream schema event_id payload)"
| "stream_serve E (ScAppendExpected predecessor schema event_id payload) =
    io_map (\<lambda>_. ()) (append_expected E predecessor schema event_id payload)"
| "stream_serve E (ScRead stream after_seq limit) = io_map (\<lambda>_. ()) (stream_read E stream after_seq limit)"
| "stream_serve E (ScReadEvent stream seq) = io_map (\<lambda>_. ()) (read_event E stream seq)"
| "stream_serve E (ScReadRange stream after_seq through_seq limit) =
    io_map (\<lambda>_. ()) (read_range E stream after_seq through_seq limit)"
| "stream_serve E (ScReadCursor stream consumer) = io_map (\<lambda>_. ()) (read_cursor E stream consumer)"
| "stream_serve E (ScAdvanceCursor stream consumer seq) = io_map (\<lambda>_. ()) (advance_cursor E stream consumer seq)"
| "stream_serve E (ScMigrate stream entries) = io_map (\<lambda>_. ()) (migrate_log E stream entries)"
| "stream_serve E (ScWriteSeal stream sl) = io_map (\<lambda>_. ()) (write_migration_seal E stream sl)"
| "stream_serve E (ScReadSeal stream) = io_map (\<lambda>_. ()) (read_migration_seal E stream)"

text \<open>The identifiers went through their constructors; a consumer's name does not make its cursor
  key a log key of another stream.\<close>

fun stream_call_ok :: "stream_call \<Rightarrow> bool" where
  "stream_call_ok (ScAppend stream schema event_id payload) \<longleftrightarrow> identifier_ok stream \<and> identifier_ok schema \<and> identifier_ok event_id"
| "stream_call_ok (ScAdvanceCursor stream consumer seq) \<longleftrightarrow> consumer_ok stream consumer"
| "stream_call_ok (ScMigrate stream entries) \<longleftrightarrow> identifier_ok stream \<and>
    list_all (\<lambda>entry. identifier_ok (me_schema_id entry) \<and> identifier_ok (me_stable_event_id entry)) entries"
| "stream_call_ok c \<longleftrightarrow> True"

lemma lower_hex_alphanumeric: "ascii_lower_hex c \<Longrightarrow> ascii_alphanumeric c"
  unfolding ascii_lower_hex_def ascii_alphanumeric_def by (auto intro: order_trans simp: less_eq_char_def)

lemma mint_identifier:
  assumes "streams_env_ok E"
  shows "identifier_ok (mint_stream_id E nanos count pid)"
proof -
  obtain h where h: "mint_stream_id E nanos count pid = CHR ''s'' # h" "length h = 32" "list_all ascii_lower_hex h"
    using assms by (simp add: mint_stream_id_def streams_env_ok_def ext_ok_def)
  have "CHR ''/'' \<notin> set h" using h(3) lower_hex_no_slash by blast
  moreover have "ascii_alphanumeric (CHR ''s'')" by code_simp
  moreover have "h \<noteq> []" using h(2) by auto
  moreover have "last h \<noteq> CHR ''/''" using calculation(1,3) last_in_set by metis
  ultimately show ?thesis
    using h lower_hex_alphanumeric
    by (auto simp: identifier_ok_def validate_identifier_def split_at_no_sep list_all_iff)
qed

lemma serve_keeps:
  assumes "streams_env_ok E" "stream_call_ok c"
  shows "keeps B E (stream_serve E c)"
  using assms
  by (cases c) (auto intro!: keeps_map keeps_create_stream mint_identifier keeps_trim keeps_append keeps_expected keeps_read
      keeps_strict keeps_cursors keeps_migrate keeps_seals keeps_trim_floor keeps_intros simp: read_config_def list_all_iff
      split: option.split)

lemma stream_pool_keeps:
  assumes "pool_reach B (s, map (stream_serve E) calls) (s', ps')" "streams_env_ok E"
    and "\<forall>c\<in>set calls. stream_call_ok c" "events_inv E s"
  shows "events_rely E s s'"
proof -
  have "events_rg.client_ok B E (stream_serve E c) s" if "c \<in> set calls" for c
    by (rule events_rg.triple_client_ok [OF serve_keeps]) (use assms that in auto)
  then show ?thesis using events_rg.pool_reach_rg [OF assms(1,4)] by auto
qed

end
