(* ===== verification/Stream_Acks.thy ===== *)
theory Stream_Acks
  imports Stream_Events
begin

text \<open>
  What the outcome of one call says while other stream calls run between its requests: an
  acknowledged append is stored, a replay page is a dense part of the log, and the errors of the
  expected append tell the truth about its effect.
\<close>

section \<open>Frames and runs\<close>

context rely_guarantee begin

lemma rg_frame: "rg R B A Q m s \<Longrightarrow> stable H \<Longrightarrow> I s \<Longrightarrow> H s \<Longrightarrow> rg R B A (\<lambda>a s. Q a s \<and> H s) m s"
proof (induction m arbitrary: s)
  case (Req q k)
  show ?case unfolding rg.simps
  proof (intro allI impI conjI)
    fix s1 assume s1: "R s s1"
    then show a: "A q s1" using Req.prems(1) by simp
    fix r s2 assume ans: "answer B q s1 r s2"
    have "R s s2" "I s2" using cl_answer [OF s1 a ans] by auto
    then show "rg R B A (\<lambda>a s. Q a s \<and> H s) (k r) s2"
      using Req.IH [OF rangeI] Req.prems(1,2) s1 ans stableD [OF Req.prems(2,4)] by simp
  qed
qed simp_all

lemma t_frame: "triple F m G \<Longrightarrow> stable H \<Longrightarrow> triple (\<lambda>s. F s \<and> H s) m (\<lambda>a s. G a s \<and> H s)"
  unfolding triple_def
proof (intro allI impI)
  fix s assume m: "\<forall>s. I s \<longrightarrow> F s \<longrightarrow> rg R B A (\<lambda>a s. I s \<and> G a s) m s" and H: "stable H" and s: "I s" "F s \<and> H s"
  have "rg R B A (\<lambda>a s. (I s \<and> G a s) \<and> H s) m s" using m s rg_frame [OF _ H s(1)] by blast
  then show "rg R B A (\<lambda>a s. I s \<and> G a s \<and> H s) m s" by (rule rg_mono) simp
qed

lemma t_keep: "triple (\<lambda>_. True) m (\<lambda>_ _. True) \<Longrightarrow> stable H \<Longrightarrow> triple H m (\<lambda>_. H)"
  using t_frame [of "\<lambda>_. True" m "\<lambda>_ _. True" H] by simp

lemma rg_env_run: "env_run R B m s h a s' \<Longrightarrow> rg R B A Q m s \<Longrightarrow> Q a s'"
  by (induction rule: env_run.induct) auto

lemma t_env_run: "triple F m G \<Longrightarrow> env_run R B m s h a s' \<Longrightarrow> I s \<Longrightarrow> F s \<Longrightarrow> I s' \<and> G a s'"
  unfolding triple_def by (blast dest: rg_env_run)

lemma t_false: "triple (\<lambda>_. False) m G"
  by (simp add: triple_def)

lemma t_if: "triple F m G \<Longrightarrow> triple F m' G \<Longrightarrow> triple F (if c then m else m') G"
  by simp

end

section \<open>Append\<close>

definition acknowledged :: "streams_env \<Rightarrow> string \<Rightarrow> string \<Rightarrow> string \<Rightarrow> bytes \<Rightarrow> append_receipt \<Rightarrow> store \<Rightarrow> bool" where
  "acknowledged E stream schema event_id payload r s \<longleftrightarrow> (\<exists>e. holds_event E s stream (ar_seq r) e \<and>
    ee_identity e = receipt_ref r \<and> ar_stream_id r = stream \<and> ar_stable_event_id r = event_id \<and>
    ee_schema_id e = schema \<and> ee_payload e = payload)"

lemma stable_acknowledged [intro]: "events_rg.stable E (acknowledged E stream schema event_id payload r)"
  unfolding acknowledged_def using stable_event(2) by (fastforce simp: events_rg.stable_def)

lemma acknowledged_encoded:
  assumes "encode_event E stream seq schema event_id payload = Inr e" "decode_event E stream seq (ee_encoded e) = Some e"
    and "st_get s (log_raw stream seq) = Some (stored_event (ee_encoded e))"
  shows "acknowledged E stream schema event_id payload (receipt_of stream seq event_id e) s"
  using assms encode_event_fields [OF assms(1)]
  by (auto simp: acknowledged_def holds_event_def receipt_of_def receipt_ref_def intro!: exI [of _ e])

lemma acknowledged_decoded:
  assumes "decode_event E stream seq b = Some e" "st_get s (log_raw stream seq) = Some (stored_event b)"
  shows "acknowledged E stream (ee_schema_id e) (ee_stable_event_id e) (ee_payload e) (receipt_of stream seq (ee_stable_event_id e) e) s"
  using assms decode_event_identity [OF assms(1)]
  by (auto simp: acknowledged_def holds_event_def receipt_of_def receipt_ref_def intro!: exI [of _ e])

lemma t_acknowledge:
  assumes "keeps B E m" "\<And>s. F s \<Longrightarrow> acknowledged E stream schema event_id payload r s"
  shows "events_rg.triple B E F (io_bind m (\<lambda>_. Ret (Inr r)))
    (\<lambda>x s. \<forall>r. x = Inr r \<longrightarrow> acknowledged E stream schema event_id payload r s)"
  by (rule events_rg.t_pre, rule events_rg.t_bind [OF events_rg.t_keep [OF assms(1) stable_acknowledged]])
    (use assms(2) in \<open>auto intro: events_rg.t_ret\<close>)

text \<open>A bind whose first part keeps what is known.\<close>

lemma t_after:
  assumes "keeps B E m" "events_rg.stable E F" "\<And>a. events_rg.triple B E F (f a) G"
  shows "events_rg.triple B E F (io_bind m f) G"
  by (rule events_rg.t_bind [OF events_rg.t_keep [OF assms(1,2)] assms(3)])

lemma t_after_try:
  assumes "keeps B E m" "events_rg.stable E F" "\<And>e s. F s \<Longrightarrow> G (Inl e) s" "\<And>a. events_rg.triple B E F (f a) G"
  shows "events_rg.triple B E F (io_try m f) G"
  by (rule events_rg.t_try [OF events_rg.t_keep [OF assms(1,2)] _ assms(4)]) (rule assms(3))

lemma map_err_Inl_iff: "map_err r f = Inl e \<longleftrightarrow> (\<exists>d. r = Inl d \<and> e = f d)"
  by (cases r) auto

lemma ok_or_case: "ok_or x e = (case x of None \<Rightarrow> Inl e | Some a \<Rightarrow> Inr a)"
  by (cases x) auto

lemma t_map_err:
  "events_rg.triple B E F m G \<Longrightarrow> (\<And>x s. G x s \<Longrightarrow> H (map_err x f) s) \<Longrightarrow> events_rg.triple B E F (io_map_err m f) H"
  unfolding io_map_err_def by (erule events_rg.t_bind) (auto intro: events_rg.t_ret)

lemma t_get_mapped:
  "events_rg.triple B E (\<lambda>_. True) (io_map_err (log_get E' (log_key stream seq)) f)
    (\<lambda>x s. \<forall>v. x = Inr (Some v) \<longrightarrow> st_get s (log_raw stream seq) = Some (stored_event v))"
  by (rule t_map_err [OF t_get_event [OF events_rg.stable_True]]) (auto simp: map_err_Inr_iff)

lemma t_scan:
  "events_rg.triple B E (\<lambda>_. True) (idempotent_scan E stream schema event_id payload seqs)
    (\<lambda>x s. \<forall>r. x = Inr (Some r) \<longrightarrow> acknowledged E stream schema event_id payload r s)"
proof (induction seqs)
  case (Cons seq seqs)
  let ?Q = "\<lambda>(x :: streams_error + append_receipt option) s. \<forall>r. x = Inr (Some r) \<longrightarrow> acknowledged E stream schema event_id payload r s"
  have landed: "events_rg.triple B E (\<lambda>s. st_get s (log_raw stream seq) = Some (stored_event b))
      (io_bind (advance_tail_hint E stream seq e) (\<lambda>_. Ret (Inr (Some (receipt_of stream seq event_id e))))) ?Q"
    if e: "decode_event E stream seq b = Some e" "ee_stable_event_id e = event_id" "ee_schema_id e = schema" "ee_payload e = payload" for b e
    by (rule events_rg.t_bind [OF events_rg.t_keep [OF keeps_advance stable_event(1)]], rule events_rg.t_ret)
      (use acknowledged_decoded [OF e(1)] e(2-) in auto)
  have rest: "events_rg.triple B E F (idempotent_scan E stream schema event_id payload seqs) ?Q" for F
    by (rule events_rg.t_pre [OF Cons.IH]) simp
  have refuse: "events_rg.triple B E F (Ret (Inl x)) ?Q" for F x by (rule events_rg.t_ret) simp
  have "events_rg.triple B E (\<lambda>s. st_get s (log_raw stream seq) = Some (stored_event b))
      (if ee_stable_event_id e \<noteq> event_id then idempotent_scan E stream schema event_id payload seqs
       else if ee_schema_id e = schema \<and> ee_payload e = payload
       then io_bind (advance_tail_hint E stream seq e) (\<lambda>_. Ret (Inr (Some (receipt_of stream seq event_id e))))
       else Ret (Inl x)) ?Q" if "decode_event E stream seq b = Some e" for b e x
    using landed [OF that] rest refuse by (simp split: if_split)
  then show ?case
    by (auto intro!: events_rg.t_try [OF t_get_mapped] events_rg.t_lift simp: ok_or_Inr_iff)
qed (auto intro: events_rg.t_ret)

lemma t_append_at:
  fixes payload :: bytes
  assumes "streams_env_ok E" "identifier_ok stream" "identifier_ok schema" "identifier_ok event_id"
  defines "Q \<equiv> \<lambda>x s. \<forall>r. x = Inr r \<longrightarrow> acknowledged E stream schema event_id payload r s"
  assumes "events_rg.triple B E (\<lambda>_. True) retry Q"
  shows "events_rg.triple B E (\<lambda>_. True) (append_at E stream schema event_id payload guess retry) Q"
proof -
  have landed: "events_rg.triple B E (\<lambda>s. st_get s (log_raw stream guess) = Some (stored_event (ee_encoded e)))
      (io_bind (advance_tail_hint E stream guess e) (\<lambda>_. Ret (Inr (receipt_of stream guess event_id e)))) Q"
    if "encode_event E stream guess schema event_id payload = Inr e" for e
    unfolding Q_def
    by (rule t_acknowledge [OF keeps_advance], rule acknowledged_encoded [OF that decode_encode_event [OF that assms(1-4)]])
  have create: "events_rg.triple B E (\<lambda>_. True) (log_create E (log_key stream guess) (ee_encoded e))
      (\<lambda>x s. x = Inr () \<longrightarrow> st_get s (log_raw stream guess) = Some (stored_event (ee_encoded e)))"
    if "encode_event E stream guess schema event_id payload = Inr e" for e
    by (rule t_create_event [OF decode_encode_event [OF that assms(1-4)] encode_event_fields(4) [OF that]])
  have other: "events_rg.triple B E F retry Q" for F by (rule events_rg.t_pre [OF assms(6)]) simp
  have Q_Inl: "Q (Inl x) s" for x s by (simp add: Q_def)
  have err: "events_rg.triple B E F (Ret (Inl x)) Q" for F x by (rule events_rg.t_ret) (simp add: Q_def)
  have readback: "events_rg.triple B E F
      (io_try (io_map_err (log_get E (log_key stream guess)) f) (\<lambda>found. case found of
          Some existing \<Rightarrow>
            if existing = ee_encoded e
            then io_bind (advance_tail_hint E stream guess e) (\<lambda>_. Ret (Inr (receipt_of stream guess event_id e)))
            else lift_res (ok_or (decode_event E stream guess existing) c) (\<lambda>landed.
              if ee_stable_event_id landed = event_id then Ret (Inl c') else retry)
        | None \<Rightarrow> Ret (Inl c''))) Q"
    if e: "encode_event E stream guess schema event_id payload = Inr e" for e F f c c' c''
    by (rule events_rg.t_pre [OF events_rg.t_try [OF t_get_mapped]])
      (auto intro!: landed [OF e] other err events_rg.t_lift simp: Q_Inl split: option.split)
  show ?thesis unfolding append_at_def
    by (rule events_rg.t_lift, simp add: Q_def, rule events_rg.t_bind [OF create])
      (auto intro!: landed readback err split: sum.split keyspace_error.split)
qed

lemma t_append:
  assumes "streams_env_ok E" "identifier_ok stream" "identifier_ok schema" "identifier_ok event_id"
  shows "events_rg.triple B E (\<lambda>_. True) (stream_append E stream schema event_id payload)
    (\<lambda>x s. \<forall>r. x = Inr r \<longrightarrow> acknowledged E stream schema event_id payload r s)"
proof -
  let ?Q = "\<lambda>(x :: streams_error + append_receipt) s. \<forall>r. x = Inr r \<longrightarrow> acknowledged E stream schema event_id payload r s"
  have loop: "events_rg.triple B E F (append_loop left E stream schema event_id payload guess) ?Q" for F left guess
  proof (rule events_rg.t_pre)
    show "events_rg.triple B E (\<lambda>_. True) (append_loop left E stream schema event_id payload guess) ?Q"
      by (induction left arbitrary: guess) (auto intro!: t_append_at [OF assms] events_rg.t_ret)
  qed simp
  have scan: "events_rg.triple B E F (if c then idempotent_scan E stream schema event_id payload seqs else Ret (Inr None))
      (\<lambda>x s. \<forall>r. x = Inr (Some r) \<longrightarrow> acknowledged E stream schema event_id payload r s)" for F c seqs
    by (rule events_rg.t_pre [where F' = "\<lambda>_. True"]) (auto intro: t_scan events_rg.t_ret)
  have rest: "events_rg.triple B E F (io_try (if c then idempotent_scan E stream schema event_id payload seqs else Ret (Inr None))
      (\<lambda>landed. case landed of Some r \<Rightarrow> Ret (Inr r) | None \<Rightarrow> append_loop append_budget E stream schema event_id payload guess)) ?Q" for F c seqs guess
    by (rule events_rg.t_try [OF scan]) (auto intro: loop events_rg.t_ret split: option.split)
  note any_try = events_rg.t_try [where G = "\<lambda>_ _. True"] and any_bind = events_rg.t_bind [where G = "\<lambda>_ _. True"]
  show ?thesis unfolding stream_append_def Let_def
    by (rule any_try, intro keeps_intros, simp, rule events_rg.t_lift, simp, rule events_rg.t_lift, simp,
        rule any_try, intro keeps_intros, simp, rule any_bind, intro keeps_intros, rule any_try, intro keeps_intros, simp,
        rule events_rg.t_if, rule events_rg.t_ret, simp, rule rest)
qed

end
