(* ===== verification/Stream_Pages.thy ===== *)
theory Stream_Pages
  imports Stream_Acks
begin

text \<open>
  Replay: a page is a dense part of the log that starts after the asked position, and what a read
  reports as absent was absent when the call started, whatever other stream calls run meanwhile.
  \<open>s0\<close> is the store at the start of the call.
\<close>

section \<open>Absent keys\<close>

context rely_guarantee begin

lemma cl_download_absent:
  assumes "\<And>s1. R s s1 \<Longrightarrow> A (Download k) s1"
    and "\<And>e s1. R s s1 \<Longrightarrow> (is_NotFound e \<longrightarrow> st_get s1 k = None) \<Longrightarrow> Q (Inl e) s1"
    and "\<And>b s1. R s s1 \<Longrightarrow> st_get s1 k = Some b \<Longrightarrow> Q (Inr b) s1"
  shows "rg R B A Q (download k) s"
  unfolding download_def rg.simps
proof (intro allI impI conjI)
  fix s1 assume s1: "R s s1"
  then show a: "A (Download k) s1" using assms by simp
  fix r s2 assume ans: "answer B (Download k) s1 r s2"
  have R: "R s s2" using cl_answer [OF s1 a ans] by simp
  have get: "r = RBytes (Inr b) \<Longrightarrow> st_get s2 k = Some b" for b
    using ans by cases (auto split: option.splits)
  have none: "r = RBytes (Inl e) \<Longrightarrow> is_NotFound e \<Longrightarrow> st_get s2 k = None" for e
    using ans by cases (auto split: option.splits)
  show "rg R B A Q (case r of RBytes x \<Rightarrow> Ret x | _ \<Rightarrow> Stuck) s2"
  proof (cases r)
    case (RBytes x)
    then show ?thesis using assms(2,3) R get none by (cases x) auto
  qed auto
qed

lemma t_download_absent:
  assumes "stable F" "\<And>s. I s \<Longrightarrow> F s \<Longrightarrow> A (Download k) s"
  shows "triple F (download k) (\<lambda>x s. F s \<and> (\<forall>b. x = Inr b \<longrightarrow> st_get s k = Some b) \<and>
    (\<forall>e. x = Inl e \<longrightarrow> is_NotFound e \<longrightarrow> st_get s k = None))"
  unfolding triple_def
  using assms(2) stableD [OF assms(1)] R_inv by (auto intro!: cl_download_absent)

lemma t_given: "(\<And>s. I s \<Longrightarrow> F s \<Longrightarrow> triple F m G) \<Longrightarrow> triple F m G"
  unfolding triple_def by blast

end

definition since :: "streams_env \<Rightarrow> store \<Rightarrow> store \<Rightarrow> bool" where
  "since E s0 s \<longleftrightarrow> events_rely E s0 s"

lemma stable_since [intro]: "events_rg.stable E (since E s0)"
  unfolding since_def events_rg.stable_def by (auto simp: events_rely_def)

lemma later_absent: "since E s0 s \<Longrightarrow> st_get s (log_raw stream seq) = None \<Longrightarrow> st_get s0 (log_raw stream seq) = None"
  unfolding since_def events_rely_def by (metis not_None_eq)

lemma t_get_since:
  "events_rg.triple B E (since E s0) (log_get E' (log_key stream seq))
    (\<lambda>x s. since E s0 s \<and> (\<forall>v. x = Inr (Some v) \<longrightarrow> st_get s (log_raw stream seq) = Some (stored_event v)) \<and>
      (x = Inr None \<longrightarrow> st_get s0 (log_raw stream seq) = None))"
proof -
  let ?G = "\<lambda>x s. since E s0 s \<and> (\<forall>v. x = Inr (Some v) \<longrightarrow> st_get s (log_raw stream seq) = Some (stored_event v)) \<and>
      (x = Inr None \<longrightarrow> st_get s0 (log_raw stream seq) = None)"
  have found: "events_rg.triple B E (\<lambda>s. since E s0 s \<and> st_get s (log_raw stream seq) = Some b)
      (io_try (collect_value X ns k b) (\<lambda>v. Ret (Inr (Some v)))) ?G" for b X ns k
  proof (cases "\<exists>v. b = stored_event v")
    case True
    then show ?thesis by (auto simp: io_try_def intro: events_rg.t_ret)
  next
    case False
    have "\<not> (events_inv E s \<and> st_get s (log_raw stream seq) = Some b)" for s
      using False unfolding events_inv_def verified_event_def by metis
    then show ?thesis by (auto simp: events_rg.triple_def)
  qed
  show ?thesis unfolding log_get_def ks_get_def
    by (auto intro!: events_rg.t_lift events_rg.t_bind [OF events_rg.t_download_absent [OF stable_since er_read]] found
        events_rg.t_ret simp: ks_object_key_Inr log_raw_def [symmetric] later_absent split: sum.split)
qed

text \<open>A call that keeps the events keeps the start of the call.\<close>

lemma t_keep_since: "keeps B E m \<Longrightarrow> events_rg.triple B E (since E s0) m (\<lambda>_. since E s0)"
  by (erule events_rg.t_keep) (rule stable_since)

section \<open>Pages\<close>

primrec page_from :: "streams_env \<Rightarrow> store \<Rightarrow> string \<Rightarrow> u64 \<Rightarrow> event_envelope list \<Rightarrow> bool" where
  "page_from E s stream after [] \<longleftrightarrow> True"
| "page_from E s stream after (e # es) \<longleftrightarrow>
    after \<noteq> - 1 \<and> holds_event E s stream (after + 1) e \<and> page_from E s stream (after + 1) es"

definition page_end :: "u64 \<Rightarrow> event_envelope list \<Rightarrow> u64" where
  "page_end after events = after + word_of_nat (length events)"

lemma page_end_simps [simp]:
  "page_end after [] = after" "page_end after (e # es) = page_end (after + 1) es"
  "page_end after (es @ es') = page_end (page_end after es) es'"
  by (simp_all add: page_end_def algebra_simps)

lemma page_from_append [simp]:
  "page_from E s stream after (es @ es') \<longleftrightarrow> page_from E s stream after es \<and> page_from E s stream (page_end after es) es'"
  by (induction es arbitrary: after) auto

lemma page_from_seq: "page_from E s stream after events \<Longrightarrow> events \<noteq> [] \<Longrightarrow> ee_seq (last events) = page_end after events"
  by (induction events rule: rev_induct) (auto dest: decode_event_identity simp: holds_event_def)

lemma stable_page: "events_rg.stable E (\<lambda>s. page_from E s stream after events)"
proof (induction events arbitrary: after)
  case (Cons e es)
  then show ?case using stable_event(2) [of E stream "after + 1" e]
    by (auto simp: events_rg.stable_def)
qed simp

lemma page_from_later: "since E s0 s \<Longrightarrow> page_from E s0 stream after events \<Longrightarrow> page_from E s stream after events"
  using stable_page by (auto simp: since_def events_rg.stable_def)

text \<open>The replies of a chunk.\<close>

definition chunk_replies :: "store \<Rightarrow> store \<Rightarrow> string \<Rightarrow> (u64 \<times> (keyspace_error + bytes option)) list \<Rightarrow> bool" where
  "chunk_replies s0 s stream rs \<longleftrightarrow> (\<forall>(k, r)\<in>set rs.
    (\<forall>v. r = Inr (Some v) \<longrightarrow> st_get s (log_raw stream k) = Some (stored_event v)) \<and>
    (r = Inr None \<longrightarrow> st_get s0 (log_raw stream k) = None))"

lemma stable_replies: "events_rg.stable E (\<lambda>s. chunk_replies s0 s stream rs)"
  unfolding chunk_replies_def events_rg.stable_def events_rely_def by fast

lemma t_get_all:
  "events_rg.triple B E (since E s0) (get_all (\<lambda>seq. log_get E' (log_key stream seq)) ks)
    (\<lambda>rs s. since E s0 s \<and> map fst rs = ks \<and> chunk_replies s0 s stream rs)"
proof (induction ks)
  case (Cons k ks)
  let ?one = "\<lambda>r s. chunk_replies s0 s stream [(k, r)]"
  have rest: "events_rg.triple B E (\<lambda>s. since E s0 s \<and> ?one r s) (get_all (\<lambda>seq. log_get E' (log_key stream seq)) ks)
      (\<lambda>rs s. (since E s0 s \<and> map fst rs = ks \<and> chunk_replies s0 s stream rs) \<and> ?one r s)" for r
    by (rule events_rg.t_frame [OF Cons.IH stable_replies])
  show ?case unfolding get_all.simps
  proof (rule events_rg.t_bind [OF t_get_since], goal_cases)
    case (1 r)
    have "events_rg.triple B E (\<lambda>s. since E s0 s \<and> ?one r s) (io_bind (get_all (\<lambda>seq. log_get E' (log_key stream seq)) ks)
        (\<lambda>rs. Ret ((k, r) # rs))) (\<lambda>rs s. since E s0 s \<and> map fst rs = k # ks \<and> chunk_replies s0 s stream rs)"
      by (rule events_rg.t_bind [OF rest], rule events_rg.t_ret) (auto simp: chunk_replies_def)
    then show ?case by (rule events_rg.t_pre) (auto simp: chunk_replies_def)
  qed
qed (auto intro!: events_rg.t_ret simp: chunk_replies_def)

lemma take_results_page:
  assumes "map fst rs = seq_chunk want (page_end after events + 1)" "page_end after events \<noteq> - 1"
    and "chunk_replies s0 s stream rs" "page_from E s stream after events"
    and "take_results E stream rs events last_fetched = Inr (events', last', stopped)"
    and "last_fetched = (if events = [] then None else Some (page_end after events))"
  shows "page_from E s stream after events' \<and> last' = (if events' = [] then None else Some (page_end after events')) \<and>
    length events' \<le> length events + want \<and>
    (case stopped of
      None \<Rightarrow> length events' = length events + length rs \<and> (rs \<noteq> [] \<longrightarrow> page_end after events' = last (map fst rs))
    | Some absent \<Rightarrow> page_end after events' \<noteq> - 1 \<and> absent = page_end after events' + 1 \<and>
        st_get s0 (log_raw stream absent) = None)"
  using assms
proof (induction rs arbitrary: want events last_fetched)
  case (Cons kr rs)
  obtain k r where kr: "kr = (k, r)" by (cases kr)
  obtain want' where w: "want = Suc want'" using Cons.prems(1) by (cases want) auto
  have k: "k = page_end after events + 1"
    and rs: "map fst rs = (case checked_add k 1 of Some n \<Rightarrow> seq_chunk want' n | None \<Rightarrow> [])"
    using Cons.prems(1) by (auto simp: kr w)
  have replies: "chunk_replies s0 s stream rs" and one: "chunk_replies s0 s stream [(k, r)]"
    using Cons.prems(3) by (auto simp: chunk_replies_def kr)
  consider e where "r = Inl e" | "r = Inr None" | b where "r = Inr (Some b)" by (metis not_None_eq sum.exhaust)
  then show ?case
  proof cases
    case 1
    then show ?thesis using Cons.prems(5) by (simp add: kr)
  next
    case 2
    then show ?thesis using Cons.prems one by (auto simp: kr k chunk_replies_def)
  next
    case (3 b)
    then obtain e where e: "decode_event E stream k b = Some e"
      and rest: "take_results E stream rs (events @ [e]) (Some k) = Inr (events', last', stopped)"
      using Cons.prems(5) by (auto simp: kr split: option.splits)
    have held: "holds_event E s stream k e" using one e 3 by (auto simp: chunk_replies_def holds_event_def)
    have page: "page_from E s stream after (events @ [e])" and "end": "page_end after (events @ [e]) = k"
      using Cons.prems(2,4) held by (auto simp: k)
    show ?thesis
    proof (cases "rs = []")
      case True
      then show ?thesis using rest page "end" Cons.prems(6) by (auto simp: kr w)
    next
      case False
      then have "k \<noteq> - 1" "map fst rs = seq_chunk want' (k + 1)" using rs by (auto simp: checked_add_1 split: if_splits)
      from Cons.IH [OF _ _ replies page rest, of want'] this "end" show ?thesis
        using False by (auto simp: kr w split: option.splits)
    qed
  qed
qed auto

lemma stored_event_inj [simp]: "stored_event v = stored_event v' \<longleftrightarrow> v = v'"
  by (metis collect_stored io.inject(1) sum.inject(2))

lemma stored_decodes:
  "events_inv E s \<Longrightarrow> st_get s (log_raw stream seq) = Some (stored_event v) \<Longrightarrow> \<exists>e. decode_event E stream seq v = Some e"
  unfolding events_inv_def verified_event_def by (metis stored_event_inj)

lemma take_results_fails:
  "take_results E stream rs events last_fetched = Inl outcome \<Longrightarrow> chunk_replies s0 s stream rs \<Longrightarrow> events_inv E s \<Longrightarrow>
    outcome = ReplayUnavailable ''read: fetch''"
proof (induction E stream rs events last_fetched rule: take_results.induct)
  case (2 E stream seq r rs events last_fetched)
  have "chunk_replies s0 s stream rs" "\<And>v. r = Inr (Some v) \<Longrightarrow> st_get s (log_raw stream seq) = Some (stored_event v)"
    using 2(3) by (auto simp: chunk_replies_def)
  then show ?case using 2(1,2,4) stored_decodes by (fastforce split: sum.splits option.splits)
qed simp

definition fetched :: "streams_env \<Rightarrow> store \<Rightarrow> store \<Rightarrow> string \<Rightarrow> u64 \<Rightarrow> nat
    \<Rightarrow> replay + (event_envelope list \<times> u64 option \<times> u64 option) \<Rightarrow> bool" where
  "fetched E s0 s stream after most x \<longleftrightarrow> (case x of
      Inl outcome \<Rightarrow> outcome = ReplayUnavailable ''read: fetch''
    | Inr (events, last_fetched, stopped) \<Rightarrow> page_from E s stream after events \<and> length events \<le> most \<and>
        last_fetched = (if events = [] then None else Some (page_end after events)) \<and>
        (case stopped of
            None \<Rightarrow> (events = [] \<longrightarrow> most = 0) \<and> (length events = most \<or> page_end after events = - 1)
          | Some absent \<Rightarrow> page_end after events \<noteq> - 1 \<and> absent = page_end after events + 1 \<and>
              st_get s0 (log_raw stream absent) = None))"

lemma t_fetch:
  assumes "page_end after events \<noteq> - 1" "chunk_start = page_end after events + 1"
    and "last_fetched = (if events = [] then None else Some (page_end after events))"
  shows "events_rg.triple B E (\<lambda>s. since E s0 s \<and> page_from E s stream after events)
    (fetch_loop E stream left chunk_start events last_fetched)
    (\<lambda>x s. since E s0 s \<and> fetched E s0 s stream after (length events + left) x)"
  using assms
proof (induction E stream left chunk_start events last_fetched rule: fetch_loop.induct)
  case (1 E stream left chunk_start events last_fetched)
  let ?want = "min fetch_parallelism left"
  let ?chunk = "seq_chunk ?want chunk_start"
  let ?post = "\<lambda>x s. since E s0 s \<and> fetched E s0 s stream after (length events + left) x"
  have get: "events_rg.triple B E (\<lambda>s. since E s0 s \<and> page_from E s stream after events)
      (get_all (\<lambda>seq. log_get E (log_key stream seq)) ?chunk)
      (\<lambda>rs s. (since E s0 s \<and> map fst rs = ?chunk \<and> chunk_replies s0 s stream rs) \<and> page_from E s stream after events)"
    by (rule events_rg.t_frame [OF t_get_all stable_page])
  have next_chunk: "events_rg.triple B E
      (\<lambda>s. (since E s0 s \<and> map fst rs = ?chunk \<and> chunk_replies s0 s stream rs) \<and> page_from E s stream after events)
      (case take_results E stream rs events last_fetched of
         Inl outcome \<Rightarrow> Ret (Inl outcome)
       | Inr (events, last_fetched, Some absent) \<Rightarrow> Ret (Inr (events, last_fetched, Some absent))
       | Inr (events, last_fetched, None) \<Rightarrow>
           if left \<le> length ?chunk then Ret (Inr (events, last_fetched, None))
           else (case checked_add (last ?chunk) 1 of
               Some later \<Rightarrow> fetch_loop E stream (left - length ?chunk) later events last_fetched
             | None \<Rightarrow> Ret (Inr (events, last_fetched, None)))) ?post"
    if nonempty: "?chunk \<noteq> []" for rs
  proof (rule events_rg.t_given)
    fix s assume "events_inv E s"
      and s: "(since E s0 s \<and> map fst rs = ?chunk \<and> chunk_replies s0 s stream rs) \<and> page_from E s stream after events"
    have len: "length rs = length ?chunk" "rs \<noteq> []" using s nonempty by (metis length_map list.map_disc_iff)+
    show ?thesis
    proof (cases "take_results E stream rs events last_fetched")
      case (Inl outcome)
      then show ?thesis by (auto intro!: events_rg.t_ret simp: fetched_def dest!: take_results_fails)
    next
      case (Inr fetched')
      obtain events' last' stopped where r: "fetched' = (events', last', stopped)" by (cases fetched')
      note taken = Inr [unfolded r]
      have page: "page_from E s stream after events' \<and> last' = (if events' = [] then None else Some (page_end after events')) \<and>
          length events' \<le> length events + ?want \<and>
          (case stopped of
            None \<Rightarrow> length events' = length events + length rs \<and> (rs \<noteq> [] \<longrightarrow> page_end after events' = last (map fst rs))
          | Some absent \<Rightarrow> page_end after events' \<noteq> - 1 \<and> absent = page_end after events' + 1 \<and>
              st_get s0 (log_raw stream absent) = None)"
        if "map fst rs = ?chunk" "chunk_replies s0 s stream rs" "page_from E s stream after events" for s
        by (rule take_results_page [OF _ 1(2) that(2,3) taken 1(4)]) (use that(1) 1(3) in simp)
      show ?thesis
      proof (cases stopped)
        case (Some absent)
        then show ?thesis unfolding taken r by (auto intro!: events_rg.t_ret simp: fetched_def dest!: page)
      next
        case None
        have e: "page_end after events' = last ?chunk" "length events' = length events + length ?chunk" "events' \<noteq> []"
          "last' = Some (last ?chunk)"
          using page [of s] s None len nonempty by auto
        have stop: "events_rg.triple B E
            (\<lambda>s. (since E s0 s \<and> map fst rs = ?chunk \<and> chunk_replies s0 s stream rs) \<and> page_from E s stream after events)
            (Ret (Inr (events', last', None))) ?post"
          if "left \<le> length ?chunk \<or> last ?chunk = - 1"
        proof -
          have "length ?chunk \<le> left" using page [of s] s e(2) by auto
          then have "length ?chunk = left" if "left \<le> length ?chunk" using that by (rule antisym)
          then have "length events' = length events + left \<or> page_end after events' = - 1" using that e(1,2) by metis
          then show ?thesis using e(3) by (auto intro!: events_rg.t_ret simp: fetched_def None dest!: page)
        qed
        show ?thesis
        proof (cases "left \<le> length ?chunk \<or> last ?chunk = - 1")
          case True
          then show ?thesis using stop by (auto simp: taken r None checked_add_1)
        next
          case False
          then have add: "checked_add (last ?chunk) 1 = Some (last ?chunk + 1)" and whole: "(left \<le> length ?chunk) = False"
            by (simp_all add: checked_add_1)
          have loop: "events_rg.triple B E (\<lambda>s. since E s0 s \<and> page_from E s stream after events')
              (fetch_loop E stream (left - length ?chunk) (last ?chunk + 1) events' last')
              (\<lambda>x s. since E s0 s \<and> fetched E s0 s stream after (length events' + (left - length ?chunk)) x)"
            by (rule 1(1) [OF refl nonempty taken refl refl None _ add]) (use False e in simp_all)
          have most: "length events' + (left - length ?chunk) = length events + left" using False e by auto
          show ?thesis
            unfolding taken r None
            by (simp only: sum.case prod.case option.case add whole if_False)
              (rule events_rg.t_pre [OF loop [unfolded most]], use page in blast)
        qed
      qed
    qed
  qed
  show ?case
  proof (cases "?chunk = []")
    case True
    then show ?thesis using 1(2-4)
      by (subst fetch_loop.simps) (auto intro!: events_rg.t_ret simp: fetched_def Let_def fetch_parallelism_def split: if_splits)
  next
    case False
    show ?thesis
      by (subst fetch_loop.simps) (simp only: Let_def False if_False, rule events_rg.t_bind [OF get next_chunk [OF False]])
  qed
qed

section \<open>What a read tells\<close>

definition replay_told :: "streams_env \<Rightarrow> store \<Rightarrow> string \<Rightarrow> u64 \<Rightarrow> nat \<Rightarrow> replay \<Rightarrow> store \<Rightarrow> bool" where
  "replay_told E s0 stream after limit x s \<longleftrightarrow> (case x of
      ReplayNotFound missing \<Rightarrow> missing = stream \<and> st_get s0 (log_raw stream 0) = None
    | ReplayEmpty \<Rightarrow> after = - 1 \<or> st_get s0 (log_raw stream (after + 1)) = None
    | ReplayPage events complete \<Rightarrow> events \<noteq> [] \<and> length events \<le> limit \<and> page_from E s stream after events \<and>
        (complete \<or> length events < limit \<longrightarrow>
          page_end after events = - 1 \<or> st_get s0 (log_raw stream (page_end after events + 1)) = None)
    | ReplayCorrupt seqs \<Rightarrow> seqs \<noteq> [] \<longrightarrow> st_get s0 (log_raw stream (hd seqs)) = None
    | _ \<Rightarrow> True)"

lemma replay_told_simps [simp]:
  "replay_told E s0 stream after limit (ReplayUnavailable op) s"
  "replay_told E s0 stream after limit (ReplayUnqualified m) s"
  "replay_told E s0 stream after limit (ReplayOffsetExpired f) s"
  by (simp_all add: replay_told_def)

lemma stable_since_page [intro]: "events_rg.stable E (\<lambda>s. since E s0 s \<and> page_from E s stream after events)"
  by (rule events_rg.stable_conj [OF stable_since stable_page])

lemma hd_seq_range: "a < b \<Longrightarrow> hd (butlast (seq_range a b)) = a"
proof -
  assume "a < b"
  then have "unat a < unat b" by (simp add: word_less_nat_alt)
  then have "seq_range a b = a # map word_of_nat [Suc (unat a)..<Suc (unat b)]" "unat b \<noteq> unat a"
    by (simp_all add: seq_range_def upt_conv_Cons del: upt_Suc)
  moreover have "[Suc (unat a)..<Suc (unat b)] \<noteq> []" using \<open>unat a < unat b\<close> by simp
  ultimately show ?thesis by simp
qed

lemma t_served:
  assumes "length events \<le> limit" "limit > 0"
    and "w \<or> events = [] \<or> length events < limit \<Longrightarrow> page_end after events = - 1 \<or> st_get s0 (log_raw stream (page_end after events + 1)) = None"
  shows "events_rg.triple B E (\<lambda>s. since E s0 s \<and> page_from E s stream after events)
    (finish_served E stream after events last_fetched w) (replay_told E s0 stream after limit)"
proof -
  have "keeps B E (if \<not> w then recover_tail_hint E stream (case last_fetched of None \<Rightarrow> after | Some final \<Rightarrow> final)
      else heal_tail_hint E stream after (if events = [] then None else Some (last events)))"
    by (auto intro!: keeps_intros)
  then show ?thesis unfolding finish_served_def
    by (rule t_after [OF _ stable_since_page]) (use assms in \<open>auto intro!: events_rg.t_ret simp: replay_told_def\<close>)
qed

lemma t_unlisted:
  assumes "fetched E s0 s stream after limit (Inr (events, last_fetched, stopped))" "limit > 0"
  shows "events_rg.triple B E (\<lambda>s. since E s0 s \<and> page_from E s stream after events)
    (finish_unlisted E stream after events last_fetched stopped) (replay_told E s0 stream after limit)"
proof -
  have f: "length events \<le> limit" "last_fetched = (if events = [] then None else Some (page_end after events))"
    "stopped = None \<Longrightarrow> events \<noteq> [] \<and> (length events = limit \<or> page_end after events = - 1)"
    "stopped = Some absent \<Longrightarrow> st_get s0 (log_raw stream (page_end after events + 1)) = None" for absent
    using assms by (auto simp: fetched_def split: option.splits)
  have end_is: "(case last_fetched of None \<Rightarrow> after | Some final \<Rightarrow> final) = page_end after events"
    using f(2) by simp
  have served: "events_rg.triple B E (\<lambda>s. since E s0 s \<and> page_from E s stream after events)
      (finish_served E stream after events last_fetched w) (replay_told E s0 stream after limit)"
    if "w \<Longrightarrow> stopped = None \<Longrightarrow> page_end after events = - 1 \<or> st_get s0 (log_raw stream (page_end after events + 1)) = None" for w
    by (rule t_served [OF f(1) assms(2)]) (use f(3,4) that in \<open>cases stopped; auto\<close>)
  let ?successor = "page_end after events + 1"
  have probe: "events_rg.triple B E (\<lambda>s. since E s0 s \<and> page_from E s stream after events)
      (io_bind (log_get E (log_key stream ?successor)) (\<lambda>r. case r of
           Inr (Some b) \<Rightarrow> Ret (case decode_event E stream ?successor b of
               Some _ \<Rightarrow> ReplayUnqualified (m b)
             | None \<Rightarrow> ReplayCorrupt [?successor])
         | Inr None \<Rightarrow> finish_served E stream after events last_fetched True
         | Inl _ \<Rightarrow> Ret (ReplayUnavailable op))) (replay_told E s0 stream after limit)" for m op
  proof (rule events_rg.t_bind [OF events_rg.t_frame [OF t_get_since stable_page]], goal_cases)
    case (1 found)
    consider err where "found = Inl err" | "found = Inr None" | b where "found = Inr (Some b)"
      by (metis not_None_eq sum.exhaust)
    then show ?case
    proof cases
      case 2
      show ?thesis unfolding 2 sum.case option.case
        by (rule events_rg.t_given, rule events_rg.t_pre [OF served]) auto
    qed (auto intro!: events_rg.t_ret dest: stored_decodes split: option.split)
  qed
  show ?thesis unfolding finish_unlisted_def Let_def end_is
  proof (rule t_after [OF keeps_verified_hint(2) stable_since_page], rule events_rg.t_if, rule events_rg.t_ret, simp, goal_cases)
    case (1 verified)
    let ?w = "case verified of None \<Rightarrow> False | Some h \<Rightarrow> th_highest_validated_dense_seq h = page_end after events"
    show ?case
    proof (cases "?w \<and> stopped = None \<and> page_end after events < - 1")
      case True
      then have w: "?w" by simp
      show ?thesis using True probe by (simp only: w simp_thms if_True)
    next
      case False
      have "page_end after events = - 1" if "\<not> page_end after events < - 1"
        using that by (metis word_order.not_eq_extremum word_order.extremum_strict)
      then show ?thesis using False by (simp only: if_False) (rule served, auto)
    qed
  qed
qed

lemma t_listed:
  assumes "fetched E s0 s stream after limit (Inr (events, last_fetched, stopped))" "limit > 0"
  shows "events_rg.triple B E (\<lambda>s. since E s0 s \<and> page_from E s stream after events)
    (finish_listed E stream events last_fetched stopped listed) (replay_told E s0 stream after limit)"
proof (cases stopped)
  case (Some absent)
  then have "st_get s0 (log_raw stream absent) = None" using assms by (auto simp: fetched_def)
  then show ?thesis unfolding finish_listed_def Some
    by (auto intro!: events_rg.t_ret simp: replay_told_def hd_seq_range)
next
  case None
  then have f: "events \<noteq> []" "length events \<le> limit" "last_fetched = Some (page_end after events)"
    "length events = limit \<or> page_end after events = - 1"
    using assms by (auto simp: fetched_def)
  have keep: "keeps B E (if hint = None then recover_tail_hint E stream seq else Ret ())" for hint seq
    by (auto intro!: keeps_intros)
  show ?thesis unfolding finish_listed_def None f(3) option.case expect_some_def
    by (rule events_rg.t_if, rule t_after [OF keeps_verified_hint(2) stable_since_page], rule t_after [OF keep stable_since_page])
      (use f in \<open>auto intro!: events_rg.t_ret simp: replay_told_def\<close>)
qed

lemma t_read_from:
  assumes "after \<noteq> - 1" "limit > 0"
  shows "events_rg.triple B E (since E s0) (read_from E stream after limit) (replay_told E s0 stream after limit)"
proof -
  have fetch: "events_rg.triple B E (since E s0) (fetch_loop E stream limit (after + 1) [] None)
      (\<lambda>x s. since E s0 s \<and> fetched E s0 s stream after limit x)"
    using t_fetch [of after "[]" "after + 1" None B E s0 stream limit] assms(1) by simp
  show ?thesis unfolding read_from_def Let_def
  proof (rule events_rg.t_bind [OF fetch], rule events_rg.t_given, goal_cases)
    case (1 x s)
    show ?case
    proof (cases x)
      case (Inl outcome)
      then show ?thesis using 1 by (auto intro!: events_rg.t_ret simp: fetched_def)
    next
      case (Inr found)
      obtain events last_fetched stopped where found: "found = (events, last_fetched, stopped)" by (cases found)
      note x = Inr [unfolded found]
      have now: "fetched E s0 s stream after limit (Inr (events, last_fetched, stopped))" using 1 x by simp
      have "events_rg.triple B E (\<lambda>s. since E s0 s \<and> page_from E s stream after events)
          (io_bind (next_log_key_after E stream seq) (\<lambda>listed. case listed of
            Inl _ \<Rightarrow> Ret (ReplayUnqualified m)
          | Inr (Some seq) \<Rightarrow> finish_listed E stream events last_fetched stopped seq
          | Inr None \<Rightarrow> finish_unlisted E stream after events last_fetched stopped))
          (replay_told E s0 stream after limit)" for seq m
        by (rule t_after [OF keeps_next_key stable_since_page])
          (auto intro!: events_rg.t_ret t_listed [OF now assms(2)] t_unlisted [OF now assms(2)] split: sum.split option.split)
      then show ?thesis unfolding x sum.case prod.case
        by (rule events_rg.t_pre) (auto simp: fetched_def)
    qed
  qed
qed

lemma t_read:
  "events_rg.triple B E (since E s0) (stream_read E stream after limit) (replay_told E s0 stream after limit)"
proof -
  have start: "events_rg.triple B E (since E s0) (io_bind (log_floor E stream) (\<lambda>f. case f of
             Inl _ \<Rightarrow> Ret (ReplayUnavailable op)
           | Inr floor \<Rightarrow>
               (case floor of
                 Some first_retained \<Rightarrow>
                   if after + 1 < first_retained then Ret (ReplayOffsetExpired first_retained)
                   else read_from E stream after limit
               | None \<Rightarrow> read_from E stream after limit))) (replay_told E s0 stream after limit)"
    if "after \<noteq> - 1" "limit > 0" for op
    by (rule t_after [OF keeps_get(3) stable_since])
      (auto intro!: events_rg.t_ret t_read_from [OF that] split: sum.split option.split)
  have genesis: "events_rg.triple B E (\<lambda>s. since E s0 s \<and>
      (\<forall>v. x = Inr (Some v) \<longrightarrow> st_get s (log_raw stream 0) = Some (stored_event v)) \<and>
      (x = Inr None \<longrightarrow> st_get s0 (log_raw stream 0) = None)) (case x of
       Inl _ \<Rightarrow> Ret (ReplayUnavailable op)
     | Inr None \<Rightarrow> Ret (ReplayNotFound stream)
     | Inr (Some genesis) \<Rightarrow> (case decode_event E stream 0 genesis of
         None \<Rightarrow> Ret (ReplayCorrupt [0])
       | Some _ \<Rightarrow> if after = - 1 then Ret ReplayEmpty else k)) (replay_told E s0 stream after limit)"
    if "after \<noteq> - 1 \<Longrightarrow> events_rg.triple B E (since E s0) k (replay_told E s0 stream after limit)"
    for x k and op :: string
  proof -
    consider err where "x = Inl err" | "x = Inr None" | b where "x = Inr (Some b)"
      by (metis not_None_eq sum.exhaust)
    then show ?thesis
    proof cases
      case (3 b)
      show ?thesis unfolding 3 sum.case option.case
      proof (rule events_rg.t_given, goal_cases)
        case (1 s)
        then obtain e where e: "decode_event E stream 0 b = Some e" by (auto dest: stored_decodes)
        have "events_rg.triple B E (since E s0) (if after = - 1 then Ret ReplayEmpty else k) (replay_told E s0 stream after limit)"
          using that by (cases "after = - 1") (auto intro!: events_rg.t_ret simp: replay_told_def)
        then show ?case unfolding e option.case by (rule events_rg.t_pre) simp
      qed
    qed (auto intro!: events_rg.t_ret simp: replay_told_def)
  qed
  show ?thesis
  proof (cases "limit = 0")
    case True
    then show ?thesis unfolding stream_read_def by (auto intro!: events_rg.t_ret)
  next
    case False
    show ?thesis unfolding stream_read_def using False
      by (simp only: if_False) (rule events_rg.t_bind [OF t_get_since], rule genesis, rule start, simp_all)
  qed
qed

end
