(* ===== verification/Stream_Rest.thy ===== *)
theory Stream_Rest
  imports Stream_Acks Stream_Pages Keyspace_Functional Keyspace_Trim
begin

text \<open>
  One client alone: on a dense log at rest an append lands at the next position, a retry of the
  append returns the first receipt, and a read returns the events after the asked position.
\<close>

section \<open>Keys of a plain stream\<close>

text \<open>A stream whose keys are identifiers and not reserved by the keyspace.\<close>

definition plain_stream :: "string \<Rightarrow> bool" where
  "plain_stream stream \<longleftrightarrow> identifier_ok stream \<and> length stream \<le> 228 \<and> \<not> prefix tombstone_root stream \<and>
    \<not> prefix incarnation_root stream \<and> \<not> prefix fence_root stream \<and>
    trims_segment \<notin> set (split_at (CHR ''/'') stream)"

lemma prefix_no_slash: "CHR ''/'' \<notin> set p \<Longrightarrow> prefix p (stream @ CHR ''/'' # r) \<Longrightarrow> prefix p stream"
proof (induction p arbitrary: stream)
  case (Cons c p)
  note IH = Cons.IH and prems = Cons.prems
  show ?case
  proof (cases stream)
    case Nil
    then show ?thesis using prems by simp
  next
    case (Cons d t)
    have "prefix p t" by (rule IH) (use prems Cons in simp_all)
    then show ?thesis using prems(2) Cons by simp
  qed
qed simp

lemma unreserved_under:
  assumes "plain_stream stream" "trims_segment \<notin> set (butlast (split_at (CHR ''/'') r))"
  shows "unreserved (stream @ CHR ''/'' # r)"
proof -
  have "CHR ''/'' \<notin> set tombstone_root" "CHR ''/'' \<notin> set incarnation_root" "CHR ''/'' \<notin> set fence_root"
    by code_simp+
  from this [THEN prefix_no_slash] have
    "\<not> prefix tombstone_root (stream @ CHR ''/'' # r)" "\<not> prefix incarnation_root (stream @ CHR ''/'' # r)"
    "\<not> prefix fence_root (stream @ CHR ''/'' # r)" using assms(1) unfolding plain_stream_def by metis+
  then show ?thesis using assms
    by (simp add: plain_stream_def unreserved_def ensure_not_reserved_key_def split_at_append_sep butlast_append)
qed

lemma plain_keys:
  assumes "plain_stream stream"
  shows "identifier_ok (log_key stream seq)" "unreserved (log_key stream seq)"
    "identifier_ok (tail_key stream)" "unreserved (tail_key stream)" "trim_scope stream" "identifier_ok stream"
proof -
  have id: "identifier_ok stream" "length stream \<le> 228" using assms by (auto simp: plain_stream_def)
  have segs: "segment_ok ''log''" "segment_ok ''tail''" by code_simp+
  have "identifier_ok ((stream @ CHR ''/'' # ''log'') @ CHR ''/'' # zero_padded seq)"
    using id segs segment_digits [of "zero_padded seq"] by (intro identifier_append) auto
  then show "identifier_ok (log_key stream seq)" by (simp add: log_key_def)
  show "identifier_ok (tail_key stream)"
    using identifier_append [OF id(1) segs(2)] id(2) by (simp add: tail_key_def)
  have "split_at (CHR ''/'') (''log/'' @ zero_padded seq) = [''log'', zero_padded seq]"
    using split_at_append_sep [of "CHR ''/''" "''log''" "zero_padded seq"] by (simp add: split_at_no_sep)
  then show "unreserved (log_key stream seq)"
    using unreserved_under [OF assms, of "''log/'' @ zero_padded seq"] by (simp add: log_key_def trims_segment_def)
  show "unreserved (tail_key stream)"
    using unreserved_under [OF assms, of "''tail''"] by (simp add: tail_key_def)
  show "trim_scope stream" "identifier_ok stream" using id by (simp_all add: trim_scope_def)
qed

lemma not_fence: "last k \<noteq> CHR ''c'' \<Longrightarrow> k \<noteq> [] \<Longrightarrow> \<not> suffix ''/fences/gc'' (raw_key ns k)"
proof -
  assume k: "last k \<noteq> CHR ''c''" "k \<noteq> []"
  have "last (raw_key ns k) = last k" using k by (simp add: raw_key_def)
  moreover have "suffix ''/fences/gc'' x \<Longrightarrow> last x = CHR ''c''" for x by (auto simp: suffix_def)
  ultimately show ?thesis using k by metis
qed

lemma plain_paths:
  assumes "plain_stream stream"
  shows "ks_object_key streams_namespace (log_key stream seq) = Inr (log_raw stream seq)"
    "ks_object_key streams_namespace (tail_key stream) = Inr (raw_key streams_namespace (tail_key stream))"
proof -
  have "ascii_digit (last (log_key stream seq))" using digit_last [of seq] by (simp add: log_key_def)
  moreover have "\<not> ascii_digit (CHR ''c'')" by code_simp
  ultimately have "last (log_key stream seq) \<noteq> CHR ''c''" "log_key stream seq \<noteq> []" by (auto simp: log_key_def)
  then show "ks_object_key streams_namespace (log_key stream seq) = Inr (log_raw stream seq)"
    using plain_keys(1) [OF assms] not_fence by (auto simp: ks_object_key_Inr log_raw_def)
  show "ks_object_key streams_namespace (tail_key stream) = Inr (raw_key streams_namespace (tail_key stream))"
    using plain_keys(3) [OF assms] not_fence [of "tail_key stream"] by (auto simp: ks_object_key_Inr tail_key_def)
qed

section \<open>A dense log at rest\<close>

text \<open>The tail hint, where there is one, names a stored event.\<close>

definition hint_at :: "streams_env \<Rightarrow> store \<Rightarrow> string \<Rightarrow> tail_hint option \<Rightarrow> bool" where
  "hint_at E s stream hint \<longleftrightarrow> (case hint of
      None \<Rightarrow> st_get s (raw_key streams_namespace (tail_key stream)) = None
    | Some h \<Rightarrow> \<exists>ver p. st_get s (raw_key streams_namespace (tail_key stream)) =
          Some (control_encode (CtlInline \<lparr>ve_incarnation = 0, ve_version = ver, ve_payload = p\<rparr>)) \<and>
        cdec (se_hint_json E) p = Some h \<and> th_format_version h = envelope_format_version \<and>
        (\<exists>e. holds_event E s stream (th_highest_validated_dense_seq h) e \<and> event_digest_hex E e = th_terminal_record_digest h))"

definition rest_log :: "streams_env \<Rightarrow> store \<Rightarrow> string \<Rightarrow> u64 \<Rightarrow> bool" where
  "rest_log E s stream n \<longleftrightarrow> plain_stream stream \<and> st_wf s \<and> events_inv E s \<and>
    (\<forall>seq. st_get s (log_raw stream seq) \<noteq> None \<longleftrightarrow> seq \<le> n) \<and>
    (\<forall>k. st_get s (raw_key streams_namespace k) \<noteq> None \<longrightarrow> prefix (log_prefix stream) k \<longrightarrow> (\<exists>seq. k = log_key stream seq)) \<and>
    certificates streams_namespace s stream = {} \<and> trim_listable streams_namespace s stream \<and>
    st_get s (raw_key streams_namespace (ks_incarnation_key (tail_key stream))) = None \<and>
    (\<exists>hint. hint_at E s stream hint)"

text \<open>The fuel covers the pages of a listing of the whole store and of the log.\<close>

definition fuel_for :: "streams_env \<Rightarrow> store \<Rightarrow> u64 \<Rightarrow> bool" where
  "fuel_for E s n \<longleftrightarrow> length s < se_fuel E * 1000 \<and> unat n + 1000 \<le> se_fuel E * 1000"

lemma streams_namespace_ok [simp]: "identifier_ok streams_namespace"
  by code_simp

lemma rest_held: "rest_log E s stream n \<Longrightarrow> seq \<le> n \<Longrightarrow> \<exists>e. holds_event E s stream seq e"
  unfolding rest_log_def events_inv_def holds_event_def verified_event_def by blast

lemma holds_unique: "holds_event E s stream seq e \<Longrightarrow> holds_event E s stream seq e' \<Longrightarrow> e' = e"
  by (auto simp: holds_event_def)

lemma run_log_get:
  assumes "rest_log E s stream n"
  shows "holds_event E s stream seq e \<Longrightarrow> run B (log_get E (log_key stream seq)) s = (Some (Inr (Some (ee_encoded e))), s)"
    "seq > n \<Longrightarrow> run B (log_get E (log_key stream seq)) s = (Some (Inr None), s)"
proof -
  note path = plain_paths(1) [of stream seq]
  have plain: "plain_stream stream" using assms by (simp add: rest_log_def)
  show "holds_event E s stream seq e \<Longrightarrow> run B (log_get E (log_key stream seq)) s = (Some (Inr (Some (ee_encoded e))), s)"
    using path [OF plain] decode_event_identity(3)
    by (fastforce simp: log_get_def ks_get_def run_bind run_try io_simps holds_event_def)
  assume "seq > n"
  then have "st_get s (log_raw stream seq) = None" using assms by (force simp: rest_log_def)
  then show "run B (log_get E (log_key stream seq)) s = (Some (Inr None), s)"
    using path [OF plain] by (simp add: log_get_def ks_get_def run_bind io_simps)
qed

section \<open>Listings of the log\<close>

lemma log_key_less: "log_key stream a < log_key stream b \<longleftrightarrow> a < b"
  using prefix_less_append [of "stream @ ''/log/''" "zero_padded a" "zero_padded b"]
  by (simp add: log_key_def zero_padded_less)

lemma log_key_parse: "Option.bind (strip_prefix (log_prefix stream) (log_key stream seq)) parse_seq = Some seq"
  by (simp add: log_prefix_def log_key_def strip_prefix_def parse_seq_def)

text \<open>What follows a log key in a dense log: the later log keys in order, then keys outside the log.\<close>

definition later_seqs :: "u64 \<Rightarrow> u64 \<Rightarrow> u64 list" where
  "later_seqs seed n = map word_of_nat [Suc (unat seed)..<Suc (unat n)]"

lemma unat_word_of_nat: "i \<le> unat (n :: u64) \<Longrightarrow> unat (word_of_nat i :: u64) = i"
  using unat_lt2p [of n] by (simp add: unat_of_nat take_bit_nat_eq_self)

lemma later_seqs_set: "set (later_seqs seed n) = {seq. seed < seq \<and> seq \<le> n}"
proof -
  have "seq \<in> set (later_seqs seed n) \<longleftrightarrow> seed < seq \<and> seq \<le> n" for seq
  proof
    assume "seq \<in> set (later_seqs seed n)"
    then obtain i where "seq = word_of_nat i" "unat seed < i" "i \<le> unat n"
      unfolding later_seqs_def set_map image_iff Bex_def set_upt atLeastLessThan_iff less_Suc_eq_le Suc_le_eq by blast
    then show "seed < seq \<and> seq \<le> n" using unat_word_of_nat [of i n] by (simp add: word_less_nat_alt word_le_nat_alt)
  next
    assume "seed < seq \<and> seq \<le> n"
    then have "unat seq \<in> set [Suc (unat seed)..<Suc (unat n)]" by (auto simp: word_less_nat_alt word_le_nat_alt)
    then show "seq \<in> set (later_seqs seed n)" unfolding later_seqs_def set_map by (rule image_eqI [rotated]) simp
  qed
  then show ?thesis by blast
qed

lemma later_seqs_sorted: "sorted_wrt (<) (later_seqs seed n)"
proof -
  have "sorted_wrt (\<lambda>i j. i < j \<and> j \<le> unat n) [Suc (unat seed)..<Suc (unat n)]"
    by (rule sorted_wrt_mono_rel [OF _ sorted_wrt_upt]) auto
  then show ?thesis unfolding later_seqs_def sorted_wrt_map
  proof (rule sorted_wrt_mono_rel [rotated])
    fix i j assume "i < j \<and> j \<le> unat n"
    then have "unat (word_of_nat i :: u64) = i" "unat (word_of_nat j :: u64) = j" "i < j"
      using unat_word_of_nat [of i n] unat_word_of_nat [of j n] by auto
    then show "(word_of_nat i :: u64) < word_of_nat j" by (simp only: word_less_nat_alt)
  qed
qed

lemma sorted_split:
  assumes "sorted_wrt (<) (xs :: string list)" "\<forall>x\<in>set xs. p < x"
  shows "\<exists>ys zs. xs = ys @ zs \<and> (\<forall>y\<in>set ys. prefix p y) \<and> (\<forall>z\<in>set zs. \<not> prefix p z)"
proof -
  have "\<not> prefix p z" if "z \<in> set (dropWhile (prefix p) xs)" for z
  proof (cases "dropWhile (prefix p) xs")
    case Nil
    then have False using that by (simp only: list.set empty_iff)
    then show ?thesis ..
  next
    case (Cons d ds)
    have d: "\<not> prefix p d" using Cons hd_dropWhile [of "prefix p" xs] by simp
    have "sorted_wrt (<) (dropWhile (prefix p) xs)" using assms(1) by (metis sorted_wrt_append takeWhile_dropWhile_id)
    then have "d < z \<or> z = d" using that Cons by auto
    moreover have "p < d" using assms(2) Cons set_dropWhileD by (metis list.set_intros(1))
    ultimately show ?thesis using d between_prefix by (metis prefixE)
  qed
  then show ?thesis
    by (metis set_takeWhileD takeWhile_dropWhile_id)
qed

lemma later_keys:
  assumes "rest_log E s stream n"
  shows "\<exists>others. ns_after streams_namespace s (log_key stream seed) = map (log_key stream) (later_seqs seed n) @ others \<and>
    (\<forall>k\<in>set others. \<not> prefix (log_prefix stream) k)"
proof -
  let ?L = "ns_after streams_namespace s (log_key stream seed)"
  have wf: "st_wf s" using assms by (simp add: rest_log_def)
  have sorted: "sorted_wrt (<) ?L" using ns_keys_sorted [OF wf] by (simp add: ns_after_def sorted_wrt_filter)
  have seed: "log_prefix stream < log_key stream seed"
    using less_prefix [of "log_prefix stream" "log_key stream seed"] by (auto simp: log_prefix_def log_key_def)
  then have "\<forall>k\<in>set ?L. log_prefix stream < k" by (auto simp: ns_after_def)
  from sorted_split [OF sorted this] obtain ys others where split: "?L = ys @ others"
    "\<forall>y\<in>set ys. prefix (log_prefix stream) y" "\<forall>z\<in>set others. \<not> prefix (log_prefix stream) z" by blast
  have mem: "k \<in> set ys \<longleftrightarrow> (\<exists>seq. k = log_key stream seq \<and> seed < seq \<and> seq \<le> n)" for k
  proof
    assume k: "k \<in> set ys"
    then have "k \<in> set ?L" using split by simp
    then have st: "st_get s (raw_key streams_namespace k) \<noteq> None" "log_key stream seed < k" by (auto simp: ns_after_def ns_keys_iff)
    then obtain seq where "k = log_key stream seq" using assms split(2) k by (auto simp: rest_log_def)
    then show "\<exists>seq. k = log_key stream seq \<and> seed < seq \<and> seq \<le> n"
      using assms st log_key_less by (auto simp: rest_log_def log_raw_def)
  next
    assume "\<exists>seq. k = log_key stream seq \<and> seed < seq \<and> seq \<le> n"
    then obtain seq where seq: "k = log_key stream seq" "seed < seq" "seq \<le> n" by blast
    have "st_get s (log_raw stream seq) \<noteq> None" using assms seq(3) by (simp add: rest_log_def)
    then have "k \<in> set ?L" using seq log_key_less by (simp add: ns_after_def ns_keys_iff log_raw_def)
    moreover have "prefix (log_prefix stream) k" by (simp add: seq(1) log_prefix_def log_key_def)
    ultimately show "k \<in> set ys" using split by auto
  qed
  have "sorted_wrt (<) (map (log_key stream) (later_seqs seed n))"
    unfolding sorted_wrt_map log_key_less by (rule later_seqs_sorted)
  moreover have "sorted_wrt (<) ys" using sorted split(1) by (simp add: sorted_wrt_append)
  moreover have "set ys = set (map (log_key stream) (later_seqs seed n))"
    using mem by (auto simp: later_seqs_set)
  ultimately have "ys = map (log_key stream) (later_seqs seed n)" by (metis strict_sorted_equal)
  then show ?thesis using split by auto
qed

lemma not_prefix_strip: "\<not> prefix p k \<Longrightarrow> strip_prefix p k = None"
  by (auto simp: strip_prefix_def prefix_def)

lemma max_page_log:
  assumes "\<forall>k\<in>set others. \<not> prefix (log_prefix stream) k"
  shows "max_page (log_prefix stream) (map (log_key stream) seqs @ others) after m advanced =
    (if seqs = [] then after else Some (log_key stream (last seqs)), fold (\<lambda>q m. max m q) seqs m, advanced \<or> seqs \<noteq> [])"
proof (induction seqs arbitrary: after m advanced)
  case Nil
  have "max_page (log_prefix stream) others after m advanced = (after, m, advanced)"
    using assms by (induction others) (simp_all add: not_prefix_strip)
  then show ?case by simp
qed (simp add: log_key_parse)

lemma later_seqs_simps:
  "later_seqs n n = []" "seed < n \<Longrightarrow> later_seqs seed n \<noteq> []" "length (later_seqs seed n) = unat n - unat seed"
  by (auto simp: later_seqs_def word_less_nat_alt)

lemma fold_max_sorted:
  "sorted_wrt (<) (seqs :: u64 list) \<Longrightarrow> seqs \<noteq> [] \<Longrightarrow> \<forall>q\<in>set seqs. m < q \<Longrightarrow> fold (\<lambda>q m. max m q) seqs m = last seqs"
proof (induction seqs arbitrary: m)
  case (Cons q seqs)
  then show ?case by (cases "seqs = []") (auto simp: max_def)
qed simp

lemma later_page:
  assumes "seed < n" "0 < k"
  shows "last (take k (later_seqs seed n)) = word_of_nat (unat seed + min k (unat n - unat seed))"
    "fold (\<lambda>q m. max m q) (take k (later_seqs seed n)) seed = last (take k (later_seqs seed n))"
proof -
  let ?seqs = "take k (later_seqs seed n)"
  have ne: "?seqs \<noteq> []" using later_seqs_simps(2) [OF assms(1)] assms(2) by simp
  have lt: "unat seed < unat n" using assms(1) by (simp add: word_less_nat_alt)
  have "length ?seqs = min k (unat n - unat seed)" by (simp add: later_seqs_simps)
  then have "last ?seqs = later_seqs seed n ! (min k (unat n - unat seed) - 1)"
    using ne assms(2) lt by (simp add: last_conv_nth)
  also have "\<dots> = word_of_nat (unat seed + min k (unat n - unat seed))"
    using lt assms(2) by (simp add: later_seqs_def del: upt_Suc)
  finally show "last ?seqs = word_of_nat (unat seed + min k (unat n - unat seed))" .
  show "fold (\<lambda>q m. max m q) ?seqs seed = last ?seqs"
    by (rule fold_max_sorted [OF sorted_wrt_take [OF later_seqs_sorted] ne])
      (use later_seqs_set [of seed n] in \<open>auto dest: in_set_takeD\<close>)
qed

lemma run_list_max_loop:
  assumes "rest_log E s stream n" "seed \<le> n" "unat n - unat seed + 1000 \<le> fuel * 1000"
  shows "run B (list_max_loop fuel E stream (Some (log_key stream seed)) seed) s = (Some (Inr n), s)"
  using assms(2,3)
proof (induction fuel arbitrary: seed)
  case (Suc fuel)
  obtain others where L: "ns_after streams_namespace s (log_key stream seed) = map (log_key stream) (later_seqs seed n) @ others"
    "\<forall>k\<in>set others. \<not> prefix (log_prefix stream) k" using later_keys [OF assms(1)] by blast
  have plain: "plain_stream stream" using assms(1) by (simp add: rest_log_def)
  let ?seqs = "take 1000 (later_seqs seed n)" and ?others = "take (1000 - length (later_seqs seed n)) others"
  have list: "run B (list_after streams_namespace (Some (log_key stream seed)) 1000) s =
      (Some (Inr (map (log_key stream) ?seqs @ ?others)), s)"
    using run_list_after [OF streams_namespace_ok plain_keys(1) [OF plain], of 1000 B seed s]
    by (simp add: L take_map)
  have others: "\<forall>k\<in>set ?others. \<not> prefix (log_prefix stream) k" using L(2) in_set_takeD by fast
  note page = max_page_log [OF others, of ?seqs]
  show ?case
  proof (cases "seed = n")
    case True
    then show ?thesis using list page by (simp add: later_seqs_simps io_map_err_def run_try run_bind)
  next
    case False
    then have lt: "seed < n" using Suc.prems(1) by simp
    then have lt': "unat seed < unat n" by (simp add: word_less_nat_alt)
    have ne: "?seqs \<noteq> []" using later_seqs_simps(2) [OF lt] by simp
    let ?seed = "last ?seqs"
    have seed': "unat ?seed = unat seed + min 1000 (unat n - unat seed)"
      unfolding later_page(1) [OF lt, of 1000, simplified]
      using unat_word_of_nat [of "unat seed + min 1000 (unat n - unat seed)" n] lt' by simp
    have "run B (list_max_loop fuel E stream (Some (log_key stream ?seed)) ?seed) s = (Some (Inr n), s)"
    proof (rule Suc.IH)
      show "?seed \<le> n" using seed' lt' by (simp add: word_le_nat_alt)
      have "1 \<le> fuel" using Suc.prems(2) lt' by (cases fuel) auto
      then show "unat n - unat ?seed + 1000 \<le> fuel * 1000" unfolding seed' using Suc.prems(2) lt' by (auto simp: min_def)
    qed
    then show ?thesis using list page ne later_page(2) [OF lt, of 1000]
      by (simp add: io_map_err_def run_try run_bind)
  qed
qed simp

lemma run_next_key:
  assumes "rest_log E s stream n"
  shows "run B (next_log_key_after E stream after) s = (Some (Inr (if after < n then Some (after + 1) else None)), s)"
proof -
  obtain others where L: "ns_after streams_namespace s (log_key stream after) = map (log_key stream) (later_seqs after n) @ others"
    "\<forall>k\<in>set others. \<not> prefix (log_prefix stream) k" using later_keys [OF assms] by blast
  have plain: "plain_stream stream" using assms by (simp add: rest_log_def)
  let ?seqs = "take 2 (later_seqs after n)" and ?others = "take (2 - length (later_seqs after n)) others"
  have list: "run B (list_after streams_namespace (Some (log_key stream after)) 2) s =
      (Some (Inr (map (log_key stream) ?seqs @ ?others)), s)"
    using run_list_after [OF streams_namespace_ok plain_keys(1) [OF plain], of 2 B after s] by (simp add: L take_map)
  let ?f = "\<lambda>k. Option.bind (strip_prefix (log_prefix stream) k) parse_seq"
  have "List.map_filter ?f (map (log_key stream) xs) = xs" for xs
    by (induction xs) (simp_all add: List.map_filter_simps log_key_parse)
  moreover have "List.map_filter ?f ks = []" if "\<forall>k\<in>set ks. \<not> prefix (log_prefix stream) k" for ks
    using that by (induction ks) (simp_all add: List.map_filter_simps not_prefix_strip)
  moreover have "\<forall>k\<in>set ?others. \<not> prefix (log_prefix stream) k" using L(2) in_set_takeD by fast
  ultimately have "List.map_filter ?f (map (log_key stream) ?seqs @ ?others) = ?seqs"
    by (simp add: List.map_filter_def)
  moreover have "filter (\<lambda>q. after < q) ?seqs = ?seqs"
    using later_seqs_set [of after n] by (auto simp: filter_id_conv dest: in_set_takeD)
  moreover have "Min (set ?seqs) = after + 1" "?seqs \<noteq> []" if "after < n"
  proof -
    have lt: "unat after < unat n" using that by (simp add: word_less_nat_alt)
    then obtain rest where r: "later_seqs after n = word_of_nat (Suc (unat after)) # rest"
      by (simp add: later_seqs_def upt_conv_Cons del: upt_Suc)
    show "?seqs \<noteq> []" using r by simp
    have "sorted_wrt (<) ?seqs" by (rule sorted_wrt_take [OF later_seqs_sorted])
    moreover have hd: "?seqs = (after + 1) # take 1 rest" by (simp add: r add.commute)
    ultimately show "Min (set ?seqs) = after + 1" by (intro Min_eqI) auto
  qed
  moreover have "later_seqs after n = []" if "\<not> after < n"
    using that by (simp add: later_seqs_def word_less_nat_alt)
  ultimately show ?thesis using list
    by (simp add: next_log_key_after_def Let_def run_try)
qed

lemma run_log_floor:
  assumes "rest_log E s stream n" "fuel_for E s n"
  shows "run B (log_floor E stream) s = (Some (Inr None), s)"
proof -
  have "trim_scope stream" "stream \<noteq> []" using assms(1) plain_keys(5,6) [of stream]
    by (auto simp: rest_log_def dest: identifier_okD)
  then show ?thesis
    using run_trim_floor [of s streams_namespace stream _ "se_fuel E" B] trim_scope_ok [of stream] assms
    by (auto simp: log_floor_def rest_log_def fuel_for_def certified_floor_def)
qed

section \<open>The hint\<close>

lemma run_verified_hint:
  assumes "rest_log E s stream n" "hint_at E s stream hint"
  shows "run B (verified_tail_hint E stream) s = (Some hint, s)"
proof -
  have path: "ks_object_key streams_namespace (tail_key stream) = Inr (raw_key streams_namespace (tail_key stream))"
    using assms(1) plain_paths(2) by (simp add: rest_log_def)
  show ?thesis
  proof (cases hint)
    case None
    then show ?thesis using assms(2) path
      by (simp add: hint_at_def verified_tail_hint_def read_tail_hint_def log_get_def ks_get_def io_map_err_def run_bind run_try io_simps)
  next
    case (Some h)
    then obtain ver p e where h: "st_get s (raw_key streams_namespace (tail_key stream)) =
          Some (control_encode (CtlInline \<lparr>ve_incarnation = 0, ve_version = ver, ve_payload = p\<rparr>))"
        "cdec (se_hint_json E) p = Some h" "th_format_version h = envelope_format_version"
        "holds_event E s stream (th_highest_validated_dense_seq h) e" "event_digest_hex E e = th_terminal_record_digest h"
      using assms(2) by (auto simp: hint_at_def)
    have "control_decode X k (control_encode (CtlInline v)) = Inr (CtlInline v)" for X k v
      by (rule control_decode_encode) simp
    then have get: "run B (log_get E (tail_key stream)) s = (Some (Inr (Some p)), s)"
      using h(1) path by (simp add: log_get_def ks_get_def collect_value_def run_bind run_try io_simps del: control_encode.simps)
    have "decode_event E stream (th_highest_validated_dense_seq h) (ee_encoded e) = Some e"
      using h(4) decode_event_identity(3) by (fastforce simp: holds_event_def)
    then show ?thesis using get h(2,3,5) run_log_get(1) [OF assms(1) h(4)]
      by (simp add: Some verified_tail_hint_def read_tail_hint_def io_map_err_def run_bind run_try io_simps Let_def)
  qed
qed

lemma run_list_log_max:
  assumes "rest_log E s stream n" "fuel_for E s n"
  shows "run B (list_log_max E stream) s = (Some (Inr n), s)"
proof -
  obtain hint where hint: "hint_at E s stream hint" using assms(1) by (auto simp: rest_log_def)
  let ?seed = "case hint of Some h \<Rightarrow> saturating_sub (th_highest_validated_dense_seq h) idempotent_scan_window | None \<Rightarrow> 0"
  have "th_highest_validated_dense_seq h \<le> n" if "hint = Some h" for h
    using hint that assms(1) by (auto simp: hint_at_def holds_event_def rest_log_def)
  then have "?seed \<le> n"
    by (auto simp: saturating_sub_def word_le_nat_alt unat_sub split: option.split)
  then have "run B (list_max_loop (se_fuel E) E stream (Some (log_key stream ?seed)) ?seed) s = (Some (Inr n), s)"
    by (rule run_list_max_loop [OF assms(1)]) (use assms(2) in \<open>unfold fuel_for_def, linarith\<close>)
  then show ?thesis using run_verified_hint [OF assms(1) hint] by (simp add: list_log_max_def run_bind Let_def)
qed

text \<open>The encoded hint fits in the control object.\<close>

definition hints_inline :: "streams_env \<Rightarrow> bool" where
  "hints_inline E \<longleftrightarrow> (\<forall>h b. length (th_terminal_record_digest h) = 64 \<longrightarrow> cenc (se_hint_json E) h = Some b \<longrightarrow> length b \<le> inline_max)"

lemma digest_length: "streams_env_ok E \<Longrightarrow> length (event_digest_hex E e) = 64"
  by (simp add: streams_env_ok_def ext_ok_def event_digest_hex_def sha256_hex_def)

text \<open>Objects that a call on a log at rest adds.\<close>

lemma rest_put_tail:
  assumes "rest_log E s stream n" "holds_event E s stream seq e" "event_digest_hex E e = d"
    and "cdec (se_hint_json E) p = Some \<lparr>th_format_version = envelope_format_version,
      th_highest_validated_dense_seq = seq, th_terminal_record_digest = d\<rparr>"
  shows "rest_log E (st_put (raw_key streams_namespace (tail_key stream))
    (control_encode (CtlInline \<lparr>ve_incarnation = 0, ve_version = ver, ve_payload = p\<rparr>)) s) stream n"
    (is "rest_log E ?s stream n")
proof -
  have plain: "plain_stream stream" using assms(1) by (simp add: rest_log_def)
  note k = plain_keys [OF plain]
  have log: "st_get ?s (log_raw stream' seq) = st_get s (log_raw stream' seq)"
    "st_get ?s (raw_key streams_namespace (ks_incarnation_key (log_key stream' seq))) =
      st_get s (raw_key streams_namespace (ks_incarnation_key (log_key stream' seq)))" for stream' seq
    using raw_log_raw [OF tail_not_log(1), of stream] by (simp_all add: eq_commute del: control_encode.simps raw_key_inj)
  have counter: "ks_incarnation_key (tail_key stream) \<noteq> tail_key stream" using unreservedD(2) [OF k(4)] by metis
  have "certificates streams_namespace ?s stream = certificates streams_namespace s stream"
    using unreserved_not_certificate [OF k(4), symmetric] by (auto simp: certificates_def simp del: control_encode.simps)
  moreover have "hint_at E ?s stream (Some \<lparr>th_format_version = envelope_format_version,
      th_highest_validated_dense_seq = seq, th_terminal_record_digest = d\<rparr>)"
    using assms(2-4) log(1) by (auto simp: hint_at_def holds_event_def simp del: control_encode.simps)
  moreover have "\<not> prefix (log_prefix stream) (tail_key stream)" by (auto simp: log_prefix_def tail_key_def)
  ultimately show ?thesis
    using assms(1) log counter k(3) trim_listable_put [of streams_namespace s stream "tail_key stream"] st_wf_put
    by (simp add: rest_log_def events_inv_def del: control_encode.simps) blast
qed

lemma rest_put_event:
  assumes "rest_log E s stream n" "n \<noteq> - 1" "decode_event E stream (n + 1) b = Some e"
  shows "rest_log E (st_put (log_raw stream (n + 1)) (stored_event b) s) stream (n + 1)" (is "rest_log E ?s stream _")
proof -
  have plain: "plain_stream stream" using assms(1) by (simp add: rest_log_def)
  note k = plain_keys [OF plain]
  have counter: "log_raw stream (n + 1) \<noteq> raw_key streams_namespace (ks_incarnation_key k')" for k'
    using unreservedD(2) [OF k(2), of "n + 1"] by (simp add: log_raw_def)
  have "certificates streams_namespace ?s stream = certificates streams_namespace s stream"
    using unreserved_not_certificate [OF k(2), of "n + 1", symmetric] by (auto simp: certificates_def log_raw_def)
  moreover have "events_inv E ?s"
    using assms(1,3) counter [symmetric] by (auto simp: rest_log_def events_inv_def verified_event_def)
  moreover have tail: "st_get ?s (raw_key streams_namespace (tail_key stream)) = st_get s (raw_key streams_namespace (tail_key stream))"
    using raw_log_raw(1) [OF tail_not_log(1), of stream] by simp
  moreover have "holds_event E ?s stream seq e'" if "holds_event E s stream seq e'" for seq e'
  proof -
    have "\<not> n + 1 \<le> n" using unat_plus1 [OF assms(2)] by (simp add: word_le_nat_alt)
    then have "st_get s (log_raw stream (n + 1)) = None" using assms(1) unfolding rest_log_def by metis
    then show ?thesis using that by (auto simp: holds_event_def)
  qed
  then have "hint_at E ?s stream hint" if "hint_at E s stream hint" for hint
    using that tail unfolding hint_at_def by (fastforce split: option.splits)
  moreover have "seq \<le> n + 1 \<longleftrightarrow> seq \<le> n \<or> seq = n + 1" for seq
  proof -
    have "unat seq \<le> unat n + 1 \<longleftrightarrow> unat seq \<le> unat n \<or> unat seq = unat n + 1" by auto
    then show ?thesis using unat_plus1 [OF assms(2)] by (metis word_le_nat_alt unsigned_word_eqI)
  qed
  moreover have "trim_listable streams_namespace ?s stream"
    using assms(1) trim_listable_put [OF _ k(1)] by (simp add: rest_log_def log_raw_def)
  moreover have "st_wf ?s" using assms(1) st_wf_put by (simp add: rest_log_def)
  ultimately show ?thesis
    using assms(1) counter [symmetric] unfolding rest_log_def by (auto simp: log_raw_def)
qed

text \<open>An advance of the hint ends and touches the hint only.\<close>

definition tail_moved :: "streams_env \<Rightarrow> string \<Rightarrow> u64 \<Rightarrow> store \<Rightarrow> store \<Rightarrow> bool" where
  "tail_moved E stream n s s' \<longleftrightarrow> rest_log E s' stream n \<and> length s' \<le> Suc (length s) \<and>
    (\<forall>k. k \<noteq> raw_key streams_namespace (tail_key stream) \<longrightarrow> st_get s' k = st_get s k)"

lemma tail_moved_held: "tail_moved E stream n s s' \<Longrightarrow> holds_event E s' stream' seq e \<longleftrightarrow> holds_event E s stream' seq e"
  using raw_log_raw(1) [OF tail_not_log(1), of stream, symmetric] by (simp add: tail_moved_def holds_event_def)

lemma run_advance:
  assumes "rest_log E s stream n" "holds_event E s stream seq e" "streams_env_ok E" "hints_inline E"
  shows "\<exists>s'. run B (advance_tail_hint E stream seq e) s = (Some (), s') \<and> tail_moved E stream n s s'"
proof -
  let ?k = "tail_key stream" and ?ns = streams_namespace
  let ?hint = "\<lparr>th_format_version = envelope_format_version, th_highest_validated_dense_seq = seq,
    th_terminal_record_digest = event_digest_hex E e\<rparr>"
  let ?object = "\<lambda>ver b. control_encode (CtlInline \<lparr>ve_incarnation = 0, ve_version = ver, ve_payload = b\<rparr>)"
  have plain: "plain_stream stream" using assms(1) by (simp add: rest_log_def)
  have X: "ext_ok (se_ext E)" "ids_ok (se_ids E)" using assms(3) by (simp_all add: streams_env_ok_def ids_ok_def)
  obtain b where b: "cenc (se_hint_json E) ?hint = Some b" "cdec (se_hint_json E) b = Some ?hint"
    using assms(3) unfolding streams_env_ok_def codec_ok_def by blast
  have "length (th_terminal_record_digest ?hint) = 64" using digest_length [OF assms(3)] by simp
  then have small: "length b \<le> inline_max" using assms(4) b(1) unfolding hints_inline_def by blast
  have fits: "writable (se_ext E) ?ns ?k 0 ver b s" for ver
    using small plain_keys(4) [OF plain] plain_paths(2) [OF plain] assms(1)
    by (simp add: writable_def rest_log_def ks_counter_def chunks_for_def slots_clean_def max_logical_bytes_eq inline_max_def)
  have stored: "written_store (se_ext E) ?ns ?k 0 ver cid b s = st_put (raw_key ?ns ?k) (?object ver b) s" for ver cid
    using small by (simp add: written_store_def control_of_def chunks_for_def staged_def)
  have moved: "tail_moved E stream n s (st_put (raw_key ?ns ?k) (?object ver b) s)" for ver
    using rest_put_tail [OF assms(1,2) refl b(2)] length_st_put by (simp add: tail_moved_def del: control_encode.simps)
  have stay: "tail_moved E stream n s s" using assms(1) by (simp add: tail_moved_def)
  obtain hint where hint: "hint_at E s stream hint" using assms(1) by (auto simp: rest_log_def)
  show ?thesis
  proof (cases hint)
    case None
    then have "st_get s (raw_key ?ns ?k) = None" using hint by (simp add: hint_at_def)
    then show ?thesis
      using run_ks_create [OF fits X] plain_paths(2) [OF plain] b(1) stored moved
      by (simp add: advance_tail_hint_def Let_def expect_some_def log_get_with_etag_def ks_get_with_etag_def log_create_def
          io_map_def run_bind io_simps del: control_encode.simps)
  next
    case (Some h)
    then obtain ver p e' where h: "st_get s (raw_key ?ns ?k) = Some (?object ver p)"
        "cdec (se_hint_json E) p = Some h" "th_format_version h = envelope_format_version"
        "holds_event E s stream (th_highest_validated_dense_seq h) e'" "event_digest_hex E e' = th_terminal_record_digest h"
      using hint by (auto simp: hint_at_def simp del: control_encode.simps)
    have decode: "control_decode (se_ext E) ?k (?object ver p) = Inr (CtlInline \<lparr>ve_incarnation = 0, ve_version = ver, ve_payload = p\<rparr>)"
      by (rule control_decode_encode) simp
    have get: "run B (log_get_with_etag E ?k) s = (Some (Inr (Some (p, tag_of B (?object ver p)))), s)"
      using h(1) plain_paths(2) [OF plain] decode
      by (simp add: log_get_with_etag_def ks_get_with_etag_def collect_value_def run_bind run_try io_simps del: control_encode.simps)
    have "decode_event E stream (th_highest_validated_dense_seq h) (ee_encoded e') = Some e'"
      using h(4) decode_event_identity(3) by (fastforce simp: holds_event_def)
    moreover have "e' = e" if "th_highest_validated_dense_seq h = seq" using that h(4) assms(2) holds_unique by blast
    ultimately have replace: "\<exists>r. run B (hint_replaceable E stream seq ?hint p) s = (Some r, s)"
      using h(2,3,5) run_log_get(1) [OF assms(1) h(4)] by (auto simp: hint_replaceable_def Let_def run_bind)
    have cas: "\<exists>r s'. run B (log_compare_exchange E ?k (tag_of B (?object ver p)) b) s = (Some r, s') \<and> tail_moved E stream n s s'"
    proof (cases "ver = - 1")
      case True
      have "ks_counter ?ns s ?k = Some 0" using assms(1) by (simp add: rest_log_def ks_counter_def)
      then have era: "run B (ensure_open_value_era ?ns ?k 0) s = (Some (Inr ()), s)"
        using run_current by (simp add: ensure_open_value_era_def run_try)
      have "run B (log_compare_exchange E ?k (tag_of B (?object ver p)) b) s = (Some (Inl (KsVersionExhausted ?k)), s)"
        using h(1) plain_paths(2) [OF plain] plain_keys(4) [OF plain] decode era fits [of 0] True
        by (simp add: log_compare_exchange_def compare_exchange_def value_too_large_def writable_def checked_add_1
            run_bind run_try io_simps del: control_encode.simps)
      then show ?thesis using stay by blast
    next
      case False
      then show ?thesis
        using run_compare_exchange [of "se_ext E" ?ns ?k "CtlInline \<lparr>ve_incarnation = 0, ve_version = ver, ve_payload = p\<rparr>" b s
            "?object ver p" B "se_fuel E" "se_ids E 0"] fits X(1) h(1) decode stored moved
        by (simp add: log_compare_exchange_def del: control_encode.simps)
    qed
    show ?thesis using get replace cas stay b(1)
      by (auto simp: advance_tail_hint_def Let_def expect_some_def io_map_def run_bind simp del: control_encode.simps)
  qed
qed

section \<open>Append\<close>

text \<open>No event of the window that an append scans has the identifier.\<close>

definition fresh_id :: "streams_env \<Rightarrow> store \<Rightarrow> string \<Rightarrow> u64 \<Rightarrow> string \<Rightarrow> bool" where
  "fresh_id E s stream n event_id \<longleftrightarrow> (\<forall>seq e. 1 \<le> seq \<longrightarrow> seq \<le> n \<longrightarrow> unat n \<le> unat seq + 16 \<longrightarrow>
    holds_event E s stream seq e \<longrightarrow> ee_stable_event_id e \<noteq> event_id)"

lemma held_decodes: "holds_event E s stream seq e \<Longrightarrow> decode_event E stream seq (ee_encoded e) = Some e"
  using decode_event_identity(3) by (fastforce simp: holds_event_def)

lemma run_scan_fresh:
  assumes "rest_log E s stream n" "\<forall>q\<in>set seqs. q \<le> n"
    and "\<And>q e. q \<in> set seqs \<Longrightarrow> holds_event E s stream q e \<Longrightarrow> ee_stable_event_id e \<noteq> event_id"
  shows "run B (idempotent_scan E stream schema event_id payload (seqs @ rest)) s =
    run B (idempotent_scan E stream schema event_id payload rest) s"
  using assms(2,3)
proof (induction seqs)
  case (Cons q seqs)
  obtain e where e: "holds_event E s stream q e" using rest_held [OF assms(1), of q] Cons.prems(1) by auto
  have "run B (idempotent_scan E stream schema event_id payload (seqs @ rest)) s =
      run B (idempotent_scan E stream schema event_id payload rest) s"
    by (rule Cons.IH) (use Cons.prems in auto)
  then show ?case
    using run_log_get(1) [OF assms(1) e] held_decodes [OF e] Cons.prems(2) [OF _ e]
    by (simp add: io_map_err_def run_bind run_try io_simps)
qed simp

lemma scan_start:
  fixes n hint_seq :: u64
  assumes "hint_seq \<le> n" "q \<in> set (seq_range (max (max hint_seq (saturating_sub n idempotent_scan_window)) 1) n)"
  shows "1 \<le> q \<and> q \<le> n \<and> unat n \<le> unat q + 16"
proof -
  let ?from = "max (max hint_seq (saturating_sub n idempotent_scan_window)) 1"
  obtain i where i: "q = word_of_nat i" "unat ?from \<le> i" "i \<le> unat n"
    using assms(2) unfolding seq_range_def set_map image_iff Bex_def set_upt atLeastLessThan_iff less_Suc_eq_le by blast
  have q: "unat q = i" using unat_word_of_nat [OF i(3)] i(1) by simp
  have "unat (1::u64) \<le> unat ?from" by (simp only: word_le_nat_alt [symmetric]) simp
  moreover have "saturating_sub n idempotent_scan_window \<le> ?from" by (simp add: le_max_iff_disj)
  then have "unat (saturating_sub n idempotent_scan_window) \<le> unat ?from" by (simp only: word_le_nat_alt)
  moreover have "unat n - 16 \<le> unat (saturating_sub n idempotent_scan_window)"
    by (auto simp: saturating_sub_def idempotent_scan_window_def unat_sub word_le_nat_alt)
  ultimately show ?thesis using q i by (auto simp: word_le_nat_alt)
qed

text \<open>The reads before the attempt, and what the append does next.\<close>

lemma run_append_start:
  assumes "rest_log E s stream n" "fuel_for E s n" "n \<noteq> - 1"
  obtains hint_seq where "hint_seq \<le> n"
    "run B (stream_append E stream schema event_id payload) s = run B (io_try
        (if n \<ge> max (max hint_seq (saturating_sub n idempotent_scan_window)) 1
         then idempotent_scan E stream schema event_id payload
           (seq_range (max (max hint_seq (saturating_sub n idempotent_scan_window)) 1) n)
         else Ret (Inr None))
        (\<lambda>landed. case landed of Some r \<Rightarrow> Ret (Inr r)
          | None \<Rightarrow> append_loop append_budget E stream schema event_id payload (n + 1))) s"
proof -
  obtain g where g: "holds_event E s stream 0 g" using rest_held [OF assms(1), of 0] by auto
  obtain hint where hint: "hint_at E s stream hint" using assms(1) by (auto simp: rest_log_def)
  let ?hint_seq = "case hint of None \<Rightarrow> 0 | Some h \<Rightarrow> th_highest_validated_dense_seq h"
  have le: "?hint_seq \<le> n"
    using hint assms(1) by (auto simp: hint_at_def holds_event_def rest_log_def split: option.splits)
  show thesis
  proof (rule that [OF le])
    show "run B (stream_append E stream schema event_id payload) s = run B (io_try
        (if n \<ge> max (max ?hint_seq (saturating_sub n idempotent_scan_window)) 1
         then idempotent_scan E stream schema event_id payload
           (seq_range (max (max ?hint_seq (saturating_sub n idempotent_scan_window)) 1) n)
         else Ret (Inr None))
        (\<lambda>landed. case landed of Some r \<Rightarrow> Ret (Inr r)
          | None \<Rightarrow> append_loop append_budget E stream schema event_id payload (n + 1))) s"
      using run_log_get(1) [OF assms(1) g] held_decodes [OF g] run_list_log_max [OF assms(1,2)]
        run_verified_hint [OF assms(1) hint] run_log_floor [OF assms(1,2)] le assms(3)
      by (simp add: stream_append_def stream_trim_floor_def io_map_err_def run_bind run_try io_simps Let_def max_absorb1)
  qed
qed

lemma run_create_log:
  assumes "plain_stream stream" "events_inv E s" "streams_env_ok E" "length b \<le> max_encoded_envelope_bytes"
  shows "run B (log_create E (log_key stream seq) b) s =
    (if st_get s (log_raw stream seq) = None
     then (Some (Inr ()), st_put (log_raw stream seq) (stored_event b) s)
     else (Some (Inl (KsAlreadyExists (log_key stream seq))), s))"
proof -
  have X: "ext_ok (se_ext E)" "ids_ok (se_ids E)" using assms(3) by (simp_all add: streams_env_ok_def ids_ok_def)
  have small: "length b \<le> inline_max" using assms(4) by (simp add: max_encoded_envelope_bytes_def inline_max_def)
  have fits: "writable (se_ext E) streams_namespace (log_key stream seq) 0 0 b s"
    using small plain_keys(2) [OF assms(1)] plain_paths(1) [OF assms(1)] assms(2)
    by (simp add: writable_def events_inv_def ks_counter_def chunks_for_def slots_clean_def max_logical_bytes_eq
        inline_max_def log_raw_def)
  show ?thesis using run_ks_create [OF fits X] small
    by (simp add: log_create_def written_store_def control_of_def chunks_for_def staged_def stored_event_def log_raw_def)
qed

lemma run_create_event:
  assumes "rest_log E s stream n" "n \<noteq> - 1" "streams_env_ok E" "length b \<le> max_encoded_envelope_bytes"
  shows "run B (log_create E (log_key stream (n + 1)) b) s = (Some (Inr ()), st_put (log_raw stream (n + 1)) (stored_event b) s)"
proof -
  have "\<not> n + 1 \<le> n" using unat_plus1 [OF assms(2)] by (simp add: word_le_nat_alt)
  then show ?thesis using run_create_log [OF _ _ assms(3,4), of stream s B "n + 1"] assms(1) unfolding rest_log_def by metis
qed

text \<open>An append at rest: the receipt names the next position, where the event is then stored.\<close>

definition appended :: "streams_env \<Rightarrow> string \<Rightarrow> u64 \<Rightarrow> event_envelope \<Rightarrow> store \<Rightarrow> store \<Rightarrow> bool" where
  "appended E stream seq e s s' \<longleftrightarrow> rest_log E s' stream seq \<and> holds_event E s' stream seq e \<and> length s' \<le> length s + 2 \<and>
    (\<forall>k. k \<noteq> raw_key streams_namespace (tail_key stream) \<longrightarrow> k \<noteq> log_raw stream seq \<longrightarrow> st_get s' k = st_get s k)"

lemma run_append_at:
  assumes "rest_log E s stream n" "n \<noteq> - 1" "streams_env_ok E" "hints_inline E"
    and "identifier_ok schema" "identifier_ok event_id" "encode_event E stream (n + 1) schema event_id payload = Inr e"
  shows "\<exists>s'. run B (append_at E stream schema event_id payload (n + 1) retry) s =
      (Some (Inr (receipt_of stream (n + 1) event_id e)), s') \<and> appended E stream (n + 1) e s s'"
proof -
  have plain: "plain_stream stream" using assms(1) by (simp add: rest_log_def)
  have decode: "decode_event E stream (n + 1) (ee_encoded e) = Some e"
    by (rule decode_encode_event [OF assms(7,3) plain_keys(6) [OF plain] assms(5,6)])
  let ?s1 = "st_put (log_raw stream (n + 1)) (stored_event (ee_encoded e)) s"
  have create: "run B (log_create E (log_key stream (n + 1)) (ee_encoded e)) s = (Some (Inr ()), ?s1)"
    by (rule run_create_event [OF assms(1-3) encode_event_fields(4) [OF assms(7)]])
  have rest: "rest_log E ?s1 stream (n + 1)" by (rule rest_put_event [OF assms(1,2) decode])
  have held: "holds_event E ?s1 stream (n + 1) e" using decode by (simp add: holds_event_def)
  obtain s' where advance: "run B (advance_tail_hint E stream (n + 1) e) ?s1 = (Some (), s')" "tail_moved E stream (n + 1) ?s1 s'"
    using run_advance [OF rest held assms(3,4)] by blast
  have "appended E stream (n + 1) e s s'"
    using advance(2) held tail_moved_held [OF advance(2)] length_st_put [of "log_raw stream (n + 1)" "stored_event (ee_encoded e)" s]
    by (auto simp: appended_def tail_moved_def)
  then show ?thesis using create advance(1) assms(7)
    by (simp add: append_at_def run_bind io_simps)
qed

lemma run_append:
  assumes "rest_log E s stream n" "fuel_for E s n" "n \<noteq> - 1" "streams_env_ok E" "hints_inline E"
    and "identifier_ok schema" "identifier_ok event_id" "encode_event E stream (n + 1) schema event_id payload = Inr e"
    and "fresh_id E s stream n event_id"
  shows "\<exists>s'. run B (stream_append E stream schema event_id payload) s =
      (Some (Inr (receipt_of stream (n + 1) event_id e)), s') \<and> appended E stream (n + 1) e s s'"
proof -
  obtain hint_seq where hint: "hint_seq \<le> n"
    "run B (stream_append E stream schema event_id payload) s = run B (io_try
        (if n \<ge> max (max hint_seq (saturating_sub n idempotent_scan_window)) 1
         then idempotent_scan E stream schema event_id payload
           (seq_range (max (max hint_seq (saturating_sub n idempotent_scan_window)) 1) n)
         else Ret (Inr None))
        (\<lambda>landed. case landed of Some r \<Rightarrow> Ret (Inr r)
          | None \<Rightarrow> append_loop append_budget E stream schema event_id payload (n + 1))) s"
    using run_append_start [OF assms(1-3)] by blast
  let ?seqs = "seq_range (max (max hint_seq (saturating_sub n idempotent_scan_window)) 1) n"
  have "run B (idempotent_scan E stream schema event_id payload (?seqs @ [])) s =
      run B (idempotent_scan E stream schema event_id payload []) s"
    by (rule run_scan_fresh [OF assms(1)]) (use scan_start [OF hint(1)] assms(9) in \<open>auto simp: fresh_id_def\<close>)
  then have scan: "run B (idempotent_scan E stream schema event_id payload ?seqs) s = (Some (Inr None), s)" by simp
  have "\<exists>s'. run B (append_loop append_budget E stream schema event_id payload (n + 1)) s =
      (Some (Inr (receipt_of stream (n + 1) event_id e)), s') \<and> appended E stream (n + 1) e s s'"
    using run_append_at [OF assms(1,3,4,5,6,7,8)] by (simp add: append_budget_def numeral_eq_Suc)
  then show ?thesis unfolding hint(2) using scan by (auto simp: run_try)
qed

text \<open>The retry of the append that wrote the end of the log.\<close>

lemma run_append_retry:
  assumes "rest_log E s stream n" "fuel_for E s n" "n \<noteq> - 1" "streams_env_ok E" "hints_inline E" "1 \<le> n"
    and "holds_event E s stream n e" "ee_stable_event_id e = event_id" "ee_schema_id e = schema" "ee_payload e = payload"
    and "\<And>seq e'. seq < n \<Longrightarrow> holds_event E s stream seq e' \<Longrightarrow> ee_stable_event_id e' \<noteq> event_id"
  shows "\<exists>s'. run B (stream_append E stream schema event_id payload) s =
      (Some (Inr (receipt_of stream n event_id e)), s') \<and> tail_moved E stream n s s'"
proof -
  obtain hint_seq where hint: "hint_seq \<le> n"
    "run B (stream_append E stream schema event_id payload) s = run B (io_try
        (if n \<ge> max (max hint_seq (saturating_sub n idempotent_scan_window)) 1
         then idempotent_scan E stream schema event_id payload
           (seq_range (max (max hint_seq (saturating_sub n idempotent_scan_window)) 1) n)
         else Ret (Inr None))
        (\<lambda>landed. case landed of Some r \<Rightarrow> Ret (Inr r)
          | None \<Rightarrow> append_loop append_budget E stream schema event_id payload (n + 1))) s"
    using run_append_start [OF assms(1-3)] by blast
  let ?from = "max (max hint_seq (saturating_sub n idempotent_scan_window)) 1"
  have sat: "saturating_sub n idempotent_scan_window \<le> n"
    by (auto simp: saturating_sub_def idempotent_scan_window_def word_le_nat_alt unat_sub)
  then have from_le: "?from \<le> n" using hint(1) assms(6) by simp
  then have nat_le: "unat ?from \<le> unat n" by (simp only: word_le_nat_alt)
  define before where "before = map (word_of_nat :: nat \<Rightarrow> u64) [unat ?from..<unat n]"
  have seqs: "seq_range ?from n = before @ [n]"
    using nat_le by (simp add: seq_range_def before_def)
  have less: "q < n" if q: "q \<in> set before" for q
  proof -
    obtain i where i: "q = word_of_nat i" "i < unat n"
      using q unfolding before_def set_map image_iff Bex_def set_upt atLeastLessThan_iff by blast
    then show ?thesis using unat_word_of_nat [of i n] by (simp add: word_less_nat_alt)
  qed
  have "run B (idempotent_scan E stream schema event_id payload (before @ [n])) s =
      run B (idempotent_scan E stream schema event_id payload [n]) s"
    by (rule run_scan_fresh [OF assms(1)]) (use less assms(11) in \<open>auto intro: less_imp_le\<close>)
  moreover obtain s' where "run B (advance_tail_hint E stream n e) s = (Some (), s')" "tail_moved E stream n s s'"
    using run_advance [OF assms(1,7,4,5)] by blast
  ultimately show ?thesis
    unfolding hint(2) seqs using from_le run_log_get(1) [OF assms(1,7)] held_decodes [OF assms(7)] assms(8-10)
    by (simp add: io_map_err_def run_bind run_try io_simps)
qed

end
