(* ===== verification/Stream_Reading.thy ===== *)
theory Stream_Reading
  imports Stream_Rest
begin

text \<open>
  Reads of a dense log at rest: the recovery of the tail hint ends, and a replay returns exactly the
  events that follow the asked position, up to its limit.
\<close>

section \<open>The recovery of the hint\<close>

lemma later_seqs_step:
  assumes "cur < n"
  shows "later_seqs cur n = (cur + 1) # later_seqs (cur + 1) n"
proof -
  have lt: "unat cur < unat n" using assms by (simp add: word_less_nat_alt)
  then have "cur \<noteq> - 1" using unat_lt2p [of n] by (auto simp: unat_max64)
  then have "unat (cur + 1) = Suc (unat cur)" by (simp add: unat_plus1)
  then show ?thesis using lt by (simp add: later_seqs_def upt_conv_Cons add.commute del: upt_Suc)
qed

lemma unat_not_max: "(n :: u64) \<noteq> - 1 \<Longrightarrow> unat n < 2 ^ 64 - 1"
  using unat_plus1 [of n] unat_lt2p [of "n + 1"] by simp

lemma unat_saturating:
  fixes a b :: u64
  shows "unat (saturating_add a b) = min (2 ^ 64 - 1) (unat a + unat b)"
    "unat (saturating_mul a b) = min (2 ^ 64 - 1) (unat a * unat b)"
  using unat_max64 by (auto simp: saturating_add_def saturating_mul_def unat_word_ariths)

lemma run_present:
  assumes "rest_log E s stream n"
  shows "\<exists>r. run B (log_get E (log_key stream seq)) s = (Some (Inr r), s) \<and> (r = None \<longleftrightarrow> n < seq)"
proof (cases "seq \<le> n")
  case True
  then obtain e where "holds_event E s stream seq e" using rest_held [OF assms] by blast
  then show ?thesis using run_log_get(1) [OF assms] True by fastforce
next
  case False
  then show ?thesis using run_log_get(2) [OF assms, of seq] by (simp add: not_le)
qed

lemma run_probe:
  assumes "rest_log E s stream n" "n \<noteq> - 1" "start \<le> n" "low \<le> n"
    and "min (2 ^ i) (2 ^ 64 - 1) \<le> unat span" "i \<le> 64" "64 - i < fuel"
  shows "\<exists>low' span'. run B (probe_loop fuel E stream start low span) s = (Some (Some (low', span')), s) \<and>
    low' \<le> n \<and> n < saturating_add start span'"
  using assms(4-7)
proof (induction fuel arbitrary: low span i)
  case (Suc fuel)
  let ?probe = "saturating_add start span"
  have n: "unat start \<le> unat n" "unat n < 2 ^ 64 - 1" using assms(3) unat_not_max [OF assms(2)]
    by (simp_all add: word_le_nat_alt)
  have probe: "unat ?probe = min (2 ^ 64 - 1) (unat start + unat span)" by (rule unat_saturating)
  have "0 < min (2 ^ i) (2 ^ 64 - 1 :: nat)" by simp
  then have "0 < unat span" using Suc.prems(2) by linarith
  then have moves: "?probe \<noteq> start" using probe n by (auto dest!: arg_cong [where f = unat])
  obtain r where r: "run B (log_get E (log_key stream ?probe)) s = (Some (Inr r), s)" "r = None \<longleftrightarrow> n < ?probe"
    using run_present [OF assms(1)] by blast
  show ?case
  proof (cases r)
    case None
    then show ?thesis using r moves Suc.prems(1) by (simp add: Let_def run_bind)
  next
    case (Some b)
    then have hit: "?probe \<le> n" using r by (simp add: not_less)
    then have sum: "unat start + unat span \<le> unat n" using probe n by (simp add: word_le_nat_alt min_def split: if_splits)
    then have "i \<noteq> 64" using Suc.prems(2) n by auto
    then have i: "i < 64" using Suc.prems(3) by simp
    have "min (2 ^ Suc i) (2 ^ 64 - 1) \<le> unat (saturating_mul span 2)"
      using Suc.prems(2) unat_saturating(2) [of span 2] by (auto simp: min_def split: if_splits)
    from Suc.IH [OF hit this] show ?thesis using r moves Some i Suc.prems(4) by (simp add: Let_def run_bind)
  qed
qed simp

lemma run_search:
  assumes "rest_log E s stream n" "low \<le> n" "n < high"
  shows "run B (search_loop E stream low high) s = (Some (Some n), s)"
  using assms
proof (induction E stream low high rule: search_loop.induct)
  case (1 E stream low high)
  have le: "low \<le> high" "unat low \<le> unat n" "unat n < unat high" using 1(4,5) by (auto simp: word_le_nat_alt word_less_nat_alt)
  have d: "unat (high - low) = unat high - unat low" using le(1) by (rule unat_sub)
  show ?case
  proof (cases "high - low > 1")
    case False
    then have "unat (high - low) \<le> 1" by (simp add: word_less_nat_alt)
    then have "unat low = unat n" using d le by simp
    then have "low = n" by (rule unsigned_word_eqI)
    then show ?thesis using False by (simp add: search_loop.simps)
  next
    case True
    let ?mid = "low + (high - low) div 2"
    obtain r where r: "run B (log_get E (log_key stream ?mid)) s = (Some (Inr r), s)" "r = None \<longleftrightarrow> n < ?mid"
      using run_present [OF 1(3)] by blast
    show ?thesis
    proof (cases r)
      case None
      have "run B (search_loop E stream low ?mid) s = (Some (Some n), s)"
        by (rule 1(1) [OF True refl 1(3,4)]) (use None r in simp)
      then show ?thesis using True r None by (subst search_loop.simps) (simp add: Let_def run_bind)
    next
      case (Some b)
      have "run B (search_loop E stream ?mid high) s = (Some (Some n), s)"
        by (rule 1(2) [OF True refl 1(3) _ 1(5)]) (use Some r in \<open>simp add: not_less\<close>)
      then show ?thesis using True r Some by (subst search_loop.simps) (simp add: Let_def run_bind)
    qed
  qed
qed

lemma run_recover:
  assumes "rest_log E s stream n" "n \<noteq> - 1" "start \<le> n" "64 < se_fuel E" "streams_env_ok E" "hints_inline E"
  shows "\<exists>s'. run B (recover_tail_hint E stream start) s = (Some (), s') \<and> tail_moved E stream n s s'"
proof -
  obtain r where r: "run B (log_get E (log_key stream start)) s = (Some (Inr (Some r)), s)"
    using run_present [OF assms(1), of B start] assms(3) by (auto simp: not_less)
  obtain low span where probe: "run B (probe_loop (se_fuel E) E stream start start 1) s = (Some (Some (low, span)), s)"
      "low \<le> n" "n < saturating_add start span"
    using run_probe [OF assms(1-3) assms(3), of 0 1 "se_fuel E" B] assms(4) by auto
  obtain e where e: "holds_event E s stream n e" using rest_held [OF assms(1), of n] by auto
  obtain s' where "run B (advance_tail_hint E stream n e) s = (Some (), s')" "tail_moved E stream n s s'"
    using run_advance [OF assms(1) e assms(5,6)] by blast
  then show ?thesis
    using r probe(1) run_search [OF assms(1) probe(2,3)] run_log_get(1) [OF assms(1) e] held_decodes [OF e]
    by (simp add: recover_tail_hint_def Let_def run_bind)
qed

end
