(* ===== verification/Stream_Strict.thy ===== *)
theory Stream_Strict
  imports Stream_Pages
begin

text \<open>
  Strict reads: an event they return is the stored one, a range is complete or an error, and an event
  they report as missing was absent when the call started.
\<close>

section \<open>One event\<close>

lemma stable_held: "events_rg.stable E (\<lambda>s. \<forall>e. x = Inr (Some e) \<longrightarrow> holds_event E s stream seq e)"
  using stable_event(2) by (auto simp: events_rg.stable_def)

definition missing_told :: "store \<Rightarrow> string \<Rightarrow> streams_error \<Rightarrow> bool" where
  "missing_told s0 stream err \<longleftrightarrow> (case err of
      EventMissing stream' seq \<Rightarrow> stream' = stream \<and> st_get s0 (log_raw stream seq) = None
    | StreamNotFound stream' \<Rightarrow> stream' = stream \<and> st_get s0 (log_raw stream 0) = None
    | _ \<Rightarrow> True)"

lemma missing_told_map [simp]: "missing_told s0 stream (map_keyspace op err)"
  "missing_told s0 stream (map_event_read_error stream seq op err)"
  by (auto simp: missing_told_def map_keyspace_def map_event_read_error_def split: keyspace_error.split)

lemma missing_told_simps [simp]:
  "missing_told s0 stream (InvalidArgument m)" "missing_told s0 stream (StreamCorrupt x xs)" "missing_told s0 stream (OffsetExpired x f)"
  "missing_told s0 stream (EventMissing stream seq) \<longleftrightarrow> st_get s0 (log_raw stream seq) = None"
  "missing_told s0 stream (StreamNotFound stream) \<longleftrightarrow> st_get s0 (log_raw stream 0) = None"
  by (auto simp: missing_told_def)

definition strict_told :: "streams_env \<Rightarrow> store \<Rightarrow> string \<Rightarrow> u64 \<Rightarrow> streams_error + event_envelope option \<Rightarrow> store \<Rightarrow> bool" where
  "strict_told E s0 stream seq x s \<longleftrightarrow> (case x of
      Inl err \<Rightarrow> missing_told s0 stream err
    | Inr None \<Rightarrow> st_get s0 (log_raw stream seq) = None
    | Inr (Some e) \<Rightarrow> holds_event E s stream seq e)"

lemma stable_strict: "events_rg.stable E (strict_told E s0 stream seq x)"
  using stable_event(2) by (auto simp: events_rg.stable_def strict_told_def split: sum.split option.split)

lemma t_strict_fetch:
  "events_rg.triple B E (since E s0) (strict_fetch E stream seq op) (\<lambda>x s. since E s0 s \<and> strict_told E s0 stream seq x s)"
  unfolding strict_fetch_def
  by (rule events_rg.t_try [OF t_map_err [OF t_get_since, where H = "\<lambda>x s. since E s0 s \<and>
        (\<forall>v. x = Inr (Some v) \<longrightarrow> st_get s (log_raw stream seq) = Some (stored_event v)) \<and>
        (x = Inr None \<longrightarrow> st_get s0 (log_raw stream seq) = None) \<and> (\<forall>err. x = Inl err \<longrightarrow> missing_told s0 stream err)"]])
    (auto intro!: events_rg.t_ret simp: strict_told_def holds_event_def map_err_Inl_iff ok_or_case split: option.split)

lemma t_genesis:
  "events_rg.triple B E (since E s0) (strict_genesis E stream op) (\<lambda>x s. since E s0 s \<and> (case x of
      Inl err \<Rightarrow> missing_told s0 stream err
    | Inr e \<Rightarrow> holds_event E s stream 0 e))"
  unfolding strict_genesis_def
  by (rule events_rg.t_try [OF t_strict_fetch])
    (auto intro!: events_rg.t_ret simp: strict_told_def ok_or_case split: option.split)

lemma t_floor:
  assumes "events_rg.stable E F"
  shows "events_rg.triple B E F (strict_floor E stream op) (\<lambda>x s. F s \<and> (\<forall>err. x = Inl err \<longrightarrow> missing_told init stream err))"
  unfolding strict_floor_def
  by (rule t_map_err [OF events_rg.t_keep [OF keeps_get(3) assms]]) (auto simp: map_err_Inl_iff)

definition event_told :: "streams_env \<Rightarrow> store \<Rightarrow> string \<Rightarrow> u64 \<Rightarrow> streams_error + event_envelope \<Rightarrow> store \<Rightarrow> bool" where
  "event_told E s0 stream seq x s \<longleftrightarrow> (case x of
      Inl err \<Rightarrow> missing_told s0 stream err
    | Inr e \<Rightarrow> holds_event E s stream seq e)"

lemma t_read_event:
  "events_rg.triple B E (since E s0) (read_event E stream seq) (event_told E s0 stream seq)"
proof -
  have fetch: "events_rg.triple B E F (io_try (strict_fetch E stream seq op) (\<lambda>found. Ret (ok_or found (EventMissing stream seq))))
      (event_told E s0 stream seq)" if "\<And>s. F s \<Longrightarrow> since E s0 s" for F op
    by (rule events_rg.t_pre, rule events_rg.t_try [OF t_strict_fetch])
      (auto intro!: events_rg.t_ret that simp: strict_told_def event_told_def ok_or_case split: option.split)
  have genesis: "events_rg.triple B E (\<lambda>s. since E s0 s \<and> holds_event E s stream 0 g)
      (if seq = 0 then Ret (Inr g) else k) (event_told E s0 stream seq)"
    if "events_rg.triple B E (since E s0) k (event_told E s0 stream seq)" for g k
    using that by (cases "seq = 0") (auto intro!: events_rg.t_ret simp: event_told_def elim!: events_rg.t_pre)
  have validated: "validate_segment k v = Inl err \<Longrightarrow> missing_told s0 stream err" for k v err
    by (auto simp: validate_segment_def split: if_splits)
  have rest: "events_rg.triple B E (since E s0) (io_try (strict_floor E stream op) (\<lambda>floor.
      if (case floor of None \<Rightarrow> False | Some first_retained \<Rightarrow> seq < first_retained)
      then Ret (Inl (OffsetExpired stream (the floor)))
      else io_try (strict_fetch E stream seq op') (\<lambda>found. Ret (ok_or found (EventMissing stream seq)))))
      (event_told E s0 stream seq)" for op op'
    by (rule events_rg.t_try [OF t_floor [where init = s0, OF stable_since]], simp add: event_told_def,
        rule events_rg.t_if, rule events_rg.t_ret, simp add: event_told_def, rule fetch, simp)
  show ?thesis unfolding read_event_def
    by (rule events_rg.t_lift, simp add: event_told_def validated, rule events_rg.t_try [OF t_genesis], simp add: event_told_def,
        simp only: sum.case, rule genesis [OF rest])
qed

section \<open>A range\<close>

lemma unat_advance:
  fixes a :: u64
  assumes "unat a + n < 2 ^ 64"
  shows "unat (a + word_of_nat n) = unat a + n"
proof -
  have "unat (word_of_nat n :: u64) = n" using assms by (simp add: unat_of_nat take_bit_nat_eq_self)
  then show ?thesis using assms by (simp add: unat_word_ariths)
qed

lemma seq_chunk_full:
  assumes "unat a + want < 2 ^ 64"
  shows "length (seq_chunk want (a + 1)) = want \<and> (want > 0 \<longrightarrow> last (seq_chunk want (a + 1)) = a + word_of_nat want)"
  using assms
proof (induction want arbitrary: a)
  case (Suc want)
  have a: "unat (a + 1) = unat a + 1" using Suc.prems unat_advance [of a 1] by simp
  have IH: "length (seq_chunk want (a + 1 + 1)) = want \<and>
      (want > 0 \<longrightarrow> last (seq_chunk want (a + 1 + 1)) = a + 1 + word_of_nat want)"
    by (rule Suc.IH) (use Suc.prems a in simp)
  show ?case
  proof (cases "want = 0")
    case False
    have "a + 1 \<noteq> - 1"
    proof
      assume "a + 1 = - 1"
      then have "unat (a + 1) = 2 ^ 64 - 1" by (simp only: unat_max64)
      then show False using a Suc.prems False by simp
    qed
    then show ?thesis using IH False by (simp add: checked_add_1 algebra_simps)
  qed (simp split: option.split)
qed simp

lemma take_strict_page:
  assumes "map fst rs = seq_chunk want (page_end after events + 1)" "page_end after events \<noteq> - 1"
    and "\<forall>(k, r)\<in>set rs. strict_told E s0 stream k r s" "page_from E s stream after events"
    and "take_strict stream rs events = Inr events'"
  shows "page_from E s stream after events' \<and> length events' = length events + length rs"
  using assms
proof (induction rs arbitrary: want events)
  case (Cons kr rs)
  obtain k r where kr: "kr = (k, r)" by (cases kr)
  obtain want' where w: "want = Suc want'" using Cons.prems(1) by (cases want) auto
  obtain e where e: "r = Inr (Some e)" using Cons.prems(5) by (auto simp: kr split: sum.splits option.splits)
  have k: "k = page_end after events + 1"
    and rs: "map fst rs = (case checked_add k 1 of Some n \<Rightarrow> seq_chunk want' n | None \<Rightarrow> [])"
    using Cons.prems(1) by (auto simp: kr w)
  have page: "page_from E s stream after (events @ [e])" and end_k: "page_end after (events @ [e]) = k"
    using Cons.prems(2,3,4) by (auto simp: k kr e strict_told_def)
  show ?case
  proof (cases "rs = []")
    case True
    then show ?thesis using Cons.prems(5) page by (auto simp: kr e)
  next
    case False
    then have next_k: "k \<noteq> - 1" "map fst rs = seq_chunk want' (k + 1)" using rs by (auto simp: checked_add_1 split: if_splits)
    have "page_from E s stream after events' \<and> length events' = length (events @ [e]) + length rs"
      by (rule Cons.IH [of want' "events @ [e]"]) (use Cons.prems(3,5) page end_k next_k in \<open>auto simp: kr e\<close>)
    then show ?thesis by (simp add: kr)
  qed
qed simp

lemma take_strict_fails:
  "take_strict stream rs events = Inl err \<Longrightarrow> \<forall>(k, r)\<in>set rs. strict_told E s0 stream k r s \<Longrightarrow> missing_told s0 stream err"
  by (induction stream rs events rule: take_strict.induct) (auto simp: strict_told_def split: sum.splits option.splits)

lemma stable_all_strict: "events_rg.stable E (\<lambda>s. \<forall>(k, r)\<in>set rs. strict_told E s0 stream k r s)"
  using stable_strict [of E s0 stream] unfolding events_rg.stable_def by blast

lemma t_get_all_strict:
  "events_rg.triple B E (since E s0) (get_all (\<lambda>seq. strict_fetch E stream seq op) ks)
    (\<lambda>rs s. since E s0 s \<and> map fst rs = ks \<and> (\<forall>(k, r)\<in>set rs. strict_told E s0 stream k r s))"
proof (induction ks)
  case (Cons k ks)
  show ?case unfolding get_all.simps
  proof (rule events_rg.t_bind [OF t_strict_fetch], goal_cases)
    case (1 r)
    show ?case
      by (rule events_rg.t_bind [OF events_rg.t_frame [OF Cons.IH stable_strict]], rule events_rg.t_ret) auto
  qed
qed (auto intro!: events_rg.t_ret)

definition pages_told :: "streams_env \<Rightarrow> store \<Rightarrow> string \<Rightarrow> u64 \<Rightarrow> nat \<Rightarrow> streams_error + event_envelope list \<Rightarrow> store \<Rightarrow> bool" where
  "pages_told E s0 stream after n x s \<longleftrightarrow> (case x of
      Inl err \<Rightarrow> missing_told s0 stream err
    | Inr events \<Rightarrow> page_from E s stream after events \<and> length events = n)"

lemma t_range:
  assumes "unat after + length events + remaining < 2 ^ 64" "start = page_end after events + 1"
  shows "events_rg.triple B E (\<lambda>s. since E s0 s \<and> page_from E s stream after events)
    (range_loop E stream remaining start events)
    (\<lambda>x s. since E s0 s \<and> pages_told E s0 stream after (length events + remaining) x s)"
  using assms
proof (induction E stream remaining start events rule: range_loop.induct)
  case (1 E stream remaining start events)
  let ?want = "min fetch_parallelism remaining"
  let ?chunk = "seq_chunk ?want start"
  let ?post = "\<lambda>x s. since E s0 s \<and> pages_told E s0 stream after (length events + remaining) x s"
  note IH = 1(1)
  have at: "unat (page_end after events) = unat after + length events"
    unfolding page_end_def by (rule unat_advance) (use 1(2) in simp)
  have chunk: "length ?chunk = ?want" "?want > 0 \<longrightarrow> last ?chunk = page_end after events + word_of_nat ?want"
    using seq_chunk_full [of "page_end after events" ?want] at 1(2,3) by auto
  show ?case
  proof (cases "remaining = 0")
    case True
    then show ?thesis
      by (subst range_loop.simps) (auto intro!: events_rg.t_ret simp: pages_told_def)
  next
    case False
    then have want: "?want > 0" by (simp add: fetch_parallelism_def)
    have "page_end after events \<noteq> - 1" using at 1(2) False unat_max64 by auto
    note full = this want chunk
    have step: "events_rg.triple B E (\<lambda>s. (since E s0 s \<and> map fst rs = ?chunk \<and> (\<forall>(k, r)\<in>set rs. strict_told E s0 stream k r s)) \<and>
        page_from E s stream after events)
        (lift_res (take_strict stream rs events) (\<lambda>events.
           case checked_add (last ?chunk) 1 of
             Some onward \<Rightarrow> range_loop E stream (remaining - length ?chunk) onward events
           | None \<Rightarrow> Ret (Inr events))) ?post" for rs
    proof (rule events_rg.t_lift, goal_cases)
      case (1 err s)
      then show ?case by (auto simp: pages_told_def dest: take_strict_fails)
    next
      case (2 events')
      show ?case
      proof (rule events_rg.t_given, goal_cases)
        case (1 s)
        have page: "page_from E s stream after events' \<and> length events' = length events + ?want"
          if "(since E s0 s \<and> map fst rs = ?chunk \<and> (\<forall>(k, r)\<in>set rs. strict_told E s0 stream k r s)) \<and>
            page_from E s stream after events" for s
        proof -
          have "page_from E s stream after events' \<and> length events' = length events + length rs"
            by (rule take_strict_page [OF _ full(1) _ _ 2]) (use that \<open>start = page_end after events + 1\<close> in auto)
          moreover have "length rs = ?want" using that chunk(1) by (metis length_map)
          ultimately show ?thesis by simp
        qed
        have len: "length events' = length events + ?want" using page [OF 1(2)] by simp
        have at': "page_end after events' = last ?chunk" using full len by (simp add: page_end_def algebra_simps)
        have most: "length events' + (remaining - length ?chunk) = length events + remaining"
          using len chunk(1) by simp
        have stop: "events_rg.triple B E (\<lambda>s. (since E s0 s \<and> map fst rs = ?chunk \<and> (\<forall>(k, r)\<in>set rs. strict_told E s0 stream k r s)) \<and>
            page_from E s stream after events) (Ret (Inr events'))
            (\<lambda>x s. since E s0 s \<and> pages_told E s0 stream after (length events + ?want) x s)"
          by (rule events_rg.t_ret) (use page len in \<open>simp add: pages_told_def\<close>)
        show ?case
        proof (cases "last ?chunk = - 1")
          case True
          have "unat (page_end after events') = unat after + length events'"
            unfolding page_end_def by (rule unat_advance) (use \<open>unat after + length events + remaining < 2 ^ 64\<close> len in simp)
          then have "remaining = ?want" using True at' len \<open>unat after + length events + remaining < 2 ^ 64\<close> unat_max64 by simp
          then show ?thesis using True stop by (simp only: checked_add_1 if_True option.case simp_thms)
        next
          case no_end: False
          have loop: "events_rg.triple B E (\<lambda>s. since E s0 s \<and> page_from E s stream after events')
              (range_loop E stream (remaining - length ?chunk) (last ?chunk + 1) events')
              (\<lambda>x s. since E s0 s \<and> pages_told E s0 stream after (length events' + (remaining - length ?chunk)) x s)"
            by (rule IH [OF False refl]) (use no_end at' most \<open>unat after + length events + remaining < 2 ^ 64\<close> in
              \<open>simp_all add: checked_add_1 add.assoc\<close>)
          show ?thesis using no_end
            by (simp only: checked_add_1 if_False option.case)
              (rule events_rg.t_pre [OF loop [unfolded most]], use page in blast)
        qed
      qed
    qed
    show ?thesis
      by (subst range_loop.simps)
        (simp only: False if_False Let_def, rule events_rg.t_bind [OF events_rg.t_frame [OF t_get_all_strict stable_page]], rule step)
  qed
qed

text \<open>The number of events of a page of \<open>after..=through\<close>.\<close>

lemma page_size:
  fixes after through_seq :: u64
  assumes "after < through_seq" "0 < limit" "limit < 2 ^ 64"
  defines "last_seq \<equiv> min through_seq (saturating_add after (word_of_nat limit))"
  shows "after + 1 \<le> last_seq" "Suc (unat (last_seq - (after + 1))) = min limit (unat through_seq - unat after)"
proof -
  have lt: "unat after < unat through_seq" "unat through_seq < 2 ^ 64"
    using assms(1) unat_lt2p [of through_seq] by (simp_all add: word_less_nat_alt)
  have limit: "unat (word_of_nat limit :: u64) = limit" using assms(3) by (simp add: unat_of_nat take_bit_nat_eq_self)
  have "unat (saturating_add after (word_of_nat limit)) = min (2 ^ 64 - 1) (unat after + limit)"
    using limit unat_advance [of after limit] unat_max64 by (auto simp: saturating_add_def)
  then have last_seq: "unat last_seq = min (unat through_seq) (unat after + limit)"
    using lt by (auto simp: last_seq_def min_def word_le_nat_alt)
  have first: "unat (after + 1) = unat after + 1" using unat_advance [of after 1] lt by simp
  show le: "after + 1 \<le> last_seq" using first last_seq lt assms(2) by (simp add: word_le_nat_alt)
  show "Suc (unat (last_seq - (after + 1))) = min limit (unat through_seq - unat after)"
    unfolding unat_sub [OF le] first last_seq using lt assms(2) by auto
qed

definition range_told :: "streams_env \<Rightarrow> store \<Rightarrow> string \<Rightarrow> u64 \<Rightarrow> u64 \<Rightarrow> nat \<Rightarrow> streams_error + range_page \<Rightarrow> store \<Rightarrow> bool" where
  "range_told E s0 stream after through_seq limit x s \<longleftrightarrow> (case x of
      Inl err \<Rightarrow> missing_told s0 stream err
    | Inr page \<Rightarrow> page_from E s stream after (rp_events page) \<and>
        length (rp_events page) = min limit (unat through_seq - unat after) \<and>
        rp_reached_end page = (unat through_seq - unat after \<le> limit))"

lemma page_reaches:
  fixes after through_seq :: u64
  assumes "page_from E s stream after events" "length events = min limit (unat through_seq - unat after)" "after < through_seq" "0 < limit"
  shows "(events \<noteq> [] \<and> ee_seq (last events) = through_seq) = (unat through_seq - unat after \<le> limit)"
proof -
  have lt: "unat after < unat through_seq" "unat through_seq < 2 ^ 64"
    using assms(3) unat_lt2p [of through_seq] by (simp_all add: word_less_nat_alt)
  have ne: "events \<noteq> []" using assms(2,4) lt by auto
  have "unat (page_end after events) = unat after + length events"
    unfolding page_end_def by (rule unat_advance) (use assms(2) lt in linarith)
  then have "page_end after events = through_seq \<longleftrightarrow> unat after + length events = unat through_seq"
    by (metis unsigned_word_eqI)
  then show ?thesis using page_from_seq [OF assms(1) ne] ne assms(2) lt by auto
qed

lemma t_read_range:
  assumes "limit < 2 ^ 64"
  shows "events_rg.triple B E (since E s0) (read_range E stream after through_seq limit)
    (range_told E s0 stream after through_seq limit)"
proof -
  let ?last = "min through_seq (saturating_add after (word_of_nat limit))"
  let ?remaining = "if after + 1 \<le> ?last then Suc (unat (?last - (after + 1))) else 0"
  have validated: "validate_segment k v = Inl err \<Longrightarrow> missing_told s0 stream err" for k v err
    by (auto simp: validate_segment_def split: if_splits)
  have range: "events_rg.triple B E (since E s0) (io_try (range_loop E stream ?remaining (after + 1) []) (\<lambda>events.
        Ret (Inr \<lparr>rp_events = events, rp_reached_end = (events \<noteq> [] \<and> ee_seq (last events) = through_seq)\<rparr>)))
      (range_told E s0 stream after through_seq limit)" if "\<not> limit = 0" "\<not> after \<ge> through_seq"
  proof -
    have size: "?remaining = min limit (unat through_seq - unat after)" "after < through_seq" "0 < limit"
      using page_size [of after through_seq limit] that assms by auto
    have loop: "events_rg.triple B E (since E s0) (range_loop E stream ?remaining (after + 1) [])
        (\<lambda>x s. since E s0 s \<and> pages_told E s0 stream after (min limit (unat through_seq - unat after)) x s)"
      using t_range [of after "[]" "min limit (unat through_seq - unat after)" "after + 1" B E s0 stream]
        size unat_lt2p [of through_seq] by (simp add: word_less_nat_alt)
    show ?thesis
      by (rule events_rg.t_try [OF loop])
        (use size page_reaches in \<open>auto intro!: events_rg.t_ret simp: pages_told_def range_told_def\<close>)
  qed
  have rest: "events_rg.triple B E (since E s0) (io_try (strict_floor E stream op) (\<lambda>floor.
        if (case floor of None \<Rightarrow> False | Some first_retained \<Rightarrow> after + 1 < first_retained)
        then Ret (Inl (OffsetExpired stream (the floor)))
        else io_try (range_loop E stream ?remaining (after + 1) []) (\<lambda>events.
          Ret (Inr \<lparr>rp_events = events, rp_reached_end = (events \<noteq> [] \<and> ee_seq (last events) = through_seq)\<rparr>))))
      (range_told E s0 stream after through_seq limit)" if "\<not> limit = 0" "\<not> after \<ge> through_seq" for op
    by (rule events_rg.t_try [OF t_floor [where init = s0, OF stable_since]], simp add: range_told_def,
        rule events_rg.t_if, rule events_rg.t_ret, simp add: range_told_def, rule events_rg.t_pre [OF range [OF that]], simp)
  have genesis: "events_rg.triple B E (since E s0) (io_try (strict_genesis E stream op) (\<lambda>_. k))
      (range_told E s0 stream after through_seq limit)"
    if "events_rg.triple B E (since E s0) k (range_told E s0 stream after through_seq limit)" for op k
    by (rule events_rg.t_try [OF t_genesis], simp add: range_told_def, rule events_rg.t_pre [OF that], simp)
  have refuse: "events_rg.triple B E (since E s0) (Ret (Inl (InvalidArgument m))) (range_told E s0 stream after through_seq n)" for m n
    by (rule events_rg.t_ret) (simp add: range_told_def)
  show ?thesis unfolding read_range_def Let_def
  proof (rule events_rg.t_lift, simp add: range_told_def validated, goal_cases)
    case (1 u)
    show ?case
      by (cases "limit = 0"; cases "after \<ge> through_seq")
        (simp_all only: if_True if_False simp_thms refuse genesis [OF rest])
  qed
qed

end
