(* ===== verification/Stream_Life.thy ===== *)
theory Stream_Life
  imports Stream_Reading Stream_Strict
begin

text \<open>
  The life of a stream with one client alone: its creation under a given identifier, appends at a
  named predecessor, and replays.
\<close>

section \<open>Creation\<close>

text \<open>No object of the stream exists.\<close>

definition blank_stream :: "streams_env \<Rightarrow> store \<Rightarrow> string \<Rightarrow> bool" where
  "blank_stream E s stream \<longleftrightarrow> plain_stream stream \<and> st_wf s \<and> events_inv E s \<and>
    (\<forall>k. prefix (log_prefix stream) k \<longrightarrow> st_get s (raw_key streams_namespace k) = None) \<and>
    certificates streams_namespace s stream = {} \<and> trim_listable streams_namespace s stream \<and>
    st_get s (raw_key streams_namespace (ks_incarnation_key (tail_key stream))) = None \<and>
    st_get s (raw_key streams_namespace (tail_key stream)) = None"

lemma validate_ok: "identifier_ok value \<Longrightarrow> validate_segment kind value = Inr ()"
  by simp

lemma run_get_stored:
  assumes "plain_stream stream"
  shows "st_get s (log_raw stream seq) = Some (stored_event v) \<Longrightarrow>
      run B (log_get E (log_key stream seq)) s = (Some (Inr (Some v)), s)"
    "st_get s (log_raw stream seq) = None \<Longrightarrow> run B (log_get E (log_key stream seq)) s = (Some (Inr None), s)"
  using plain_paths(1) [OF assms] by (simp_all add: log_get_def ks_get_def run_bind run_try io_simps)

lemma genesis_decodes:
  assumes "genesis_event E stream config = Inr e" "streams_env_ok E" "identifier_ok stream"
  shows "decode_event E stream 0 (ee_encoded e) = Some e" "length (ee_encoded e) \<le> max_encoded_envelope_bytes"
proof -
  have enc: "encode_event E stream 0 genesis_schema_id ''genesis'' config = Inr e" using assms(1) by (simp add: genesis_event_def)
  have "identifier_ok genesis_schema_id" "identifier_ok ''genesis''" by code_simp+
  then show "decode_event E stream 0 (ee_encoded e) = Some e" using decode_encode_event [OF enc assms(2,3)] by blast
  show "length (ee_encoded e) \<le> max_encoded_envelope_bytes" by (rule encode_event_fields(4) [OF enc])
qed

text \<open>The first creation writes the genesis; a repetition finds its own genesis; any other
  configuration is refused.\<close>

lemma run_create_with_id:
  assumes "plain_stream stream" "events_inv E s" "streams_env_ok E" "genesis_event E stream config = Inr e"
  shows "run B (create_stream_with_id E stream config) s = (case st_get s (log_raw stream 0) of
      None \<Rightarrow> (Some (Inr StreamCreated), st_put (log_raw stream 0) (stored_event (ee_encoded e)) s)
    | Some b \<Rightarrow> (Some (if b = stored_event (ee_encoded e) then Inr StreamExisting
        else Inl (ConfigurationConflict stream)), s))"
proof -
  have id: "identifier_ok stream" using plain_keys(6) [OF assms(1)] .
  note g = genesis_decodes [OF assms(4,3) id]
  note create = run_create_log [OF assms(1-3) g(2), of B 0]
  note valid = validate_ok [OF id]
  show ?thesis
  proof (cases "st_get s (log_raw stream 0)")
    case None
    then show ?thesis using create assms(4)
      by (simp add: create_stream_with_id_def valid run_bind io_simps)
  next
    case (Some b)
    then obtain v e' where v: "b = stored_event v" "decode_event E stream 0 v = Some e'"
      using assms(2) unfolding events_inv_def verified_event_def by blast
    show ?thesis using create assms(4) Some v run_get_stored(1) [OF assms(1), of s 0 v]
      by (simp add: create_stream_with_id_def valid run_bind run_try io_map_err_def io_simps)
  qed
qed

lemma blank_put_genesis:
  assumes "blank_stream E s stream" "decode_event E stream 0 b = Some e"
  shows "rest_log E (st_put (log_raw stream 0) (stored_event b) s) stream 0" (is "rest_log E ?s stream _")
proof -
  have plain: "plain_stream stream" using assms(1) by (simp add: blank_stream_def)
  note k = plain_keys [OF plain]
  have counter: "log_raw stream 0 \<noteq> raw_key streams_namespace (ks_incarnation_key k')" for k'
    using unreservedD(2) [OF k(2), of 0] by (simp add: log_raw_def)
  have "certificates streams_namespace ?s stream = certificates streams_namespace s stream"
    using unreserved_not_certificate [OF k(2), of 0, symmetric] by (auto simp: certificates_def log_raw_def)
  moreover have "events_inv E ?s"
    using assms counter [symmetric] by (auto simp: blank_stream_def events_inv_def verified_event_def)
  moreover have "st_get ?s (raw_key streams_namespace (tail_key stream)) = st_get s (raw_key streams_namespace (tail_key stream))"
    using raw_log_raw(1) [OF tail_not_log(1), of stream] by simp
  then have "hint_at E ?s stream None" using assms(1) by (simp add: hint_at_def blank_stream_def)
  moreover have "st_get ?s (log_raw stream seq) \<noteq> None \<longleftrightarrow> seq \<le> 0" for seq
  proof -
    have "prefix (log_prefix stream) (log_key stream seq)" by (simp add: log_prefix_def log_key_def)
    then have "st_get s (log_raw stream seq) = None" using assms(1) by (simp add: blank_stream_def log_raw_def)
    then show ?thesis by simp
  qed
  moreover have "trim_listable streams_namespace ?s stream"
    using assms(1) trim_listable_put [OF _ k(1)] by (simp add: blank_stream_def log_raw_def)
  moreover have "st_wf ?s" using assms(1) st_wf_put by (simp add: blank_stream_def)
  ultimately show ?thesis
    using assms(1) counter [symmetric] unfolding rest_log_def blank_stream_def by (auto simp: log_raw_def)
qed

section \<open>The append at a named predecessor\<close>

lemma stored_digest_canonical:
  "decode_event E stream seq b = Some e \<Longrightarrow> streams_env_ok E \<Longrightarrow> is_canonical_sha256_hex (ee_payload_sha256 e)"
  using decode_event_identity(5) by (simp add: is_canonical_sha256_hex_def streams_env_ok_def ext_ok_def sha256_hex_def)

lemma run_observe:
  assumes "rest_log E s stream n" "fuel_for E s n"
  shows "run B (observe_floor E stream op None) s = (Some (Inr 0, None), s)"
  using run_log_floor [OF assms] by (simp add: observe_floor_def io_map_err_def run_bind io_simps)

text \<open>The checks of the arguments pass when the predecessor is a stored event that has a successor.\<close>

lemma admit_stored:
  assumes "rest_log E s stream n" "holds_event E s stream seq p" "seq \<noteq> - 1" "streams_env_ok E" "identifier_ok schema"
    and "identifier_ok event_id" "encode_event E stream (seq + 1) schema event_id payload = Inr e"
  shows "admit_expected E (ee_identity p) schema event_id payload = Inr (seq + 1, e, receipt_of stream (seq + 1) event_id e)"
    "er_stream_id (ee_identity p) = stream" "ee_seq p = seq"
proof -
  obtain b where b: "decode_event E stream seq b = Some p" using assms(2) by (auto simp: holds_event_def)
  note p = decode_event_identity [OF b]
  have "identifier_ok stream" using assms(1) plain_keys(6) by (simp add: rest_log_def)
  moreover have "checked_add seq 1 = Some (seq + 1)" using assms(3) by (auto simp: checked_add_1)
  ultimately show "admit_expected E (ee_identity p) schema event_id payload = Inr (seq + 1, e, receipt_of stream (seq + 1) event_id e)"
    using p stored_digest_canonical [OF b assms(4)] assms(5-7)
    by (simp add: admit_expected_def Let_def validate_ok)
  show "er_stream_id (ee_identity p) = stream" "ee_seq p = seq" using p by simp_all
qed


lemma run_expected_start:
  assumes "rest_log E s stream n" "holds_event E s stream seq p" "seq \<noteq> - 1" "streams_env_ok E" "identifier_ok schema"
    and "identifier_ok event_id" "encode_event E stream (seq + 1) schema event_id payload = Inr e" "holds_event E s stream 0 g"
  shows "run B (append_expected E (ee_identity p) schema event_id payload) s =
      run B (io_bind (log_get E (log_key stream (seq + 1))) (\<lambda>target. case target of
         Inl err \<Rightarrow> append_unreadable E stream (seq + 1)
           (map_event_read_error stream (seq + 1) ''append_expected: target'' err)
       | Inr (Some b) \<Rightarrow>
           if b = ee_encoded e
           then adjudicate_committed E stream (seq + 1) (receipt_of stream (seq + 1) event_id e) None
           else append_occupied E stream event_id (seq + 1) b
       | Inr None \<Rightarrow> append_absent E stream (ee_identity p) event_id g (seq + 1) e (receipt_of stream (seq + 1) event_id e))) s"
proof -
  have "run B (verified_genesis E stream) s = (Some (Inr g), s)"
    using run_log_get(1) [OF assms(1,8)] held_decodes [OF assms(8)]
    by (simp add: verified_genesis_def io_map_err_def run_bind run_try io_simps)
  then show ?thesis using admit_stored [OF assms(1-7)] by (simp add: append_expected_def Let_def lift_res_def run_try)
qed

text \<open>A caller that names the last event writes the next one; nothing else changes.\<close>

lemma run_expected:
  assumes "rest_log E s stream n" "fuel_for E s n" "Suc (length s) < se_fuel E * 1000" "unat n + 1001 \<le> se_fuel E * 1000"
    and "n \<noteq> - 1" "holds_event E s stream n p" "streams_env_ok E" "identifier_ok schema" "identifier_ok event_id"
    and "encode_event E stream (n + 1) schema event_id payload = Inr e"
  shows "run B (append_expected E (ee_identity p) schema event_id payload) s =
      (Some (Inr (receipt_of stream (n + 1) event_id e)), st_put (log_raw stream (n + 1)) (stored_event (ee_encoded e)) s)"
proof -
  have plain: "plain_stream stream" using assms(1) by (simp add: rest_log_def)
  obtain g where g: "holds_event E s stream 0 g" using rest_held [OF assms(1), of 0] by auto
  note start = run_expected_start [OF assms(1,6,5,7-10) g, of B]
  let ?s1 = "st_put (log_raw stream (n + 1)) (stored_event (ee_encoded e)) s"
  have lt: "n < n + 1" "\<not> n + 1 < n" using unat_plus1 [OF assms(5)] by (simp_all add: word_less_nat_alt)
  have decode: "decode_event E stream (n + 1) (ee_encoded e) = Some e"
    by (rule decode_encode_event [OF assms(10,7) plain_keys(6) [OF plain] assms(8,9)])
  have rest: "rest_log E ?s1 stream (n + 1)" by (rule rest_put_event [OF assms(1,5) decode])
  have "fuel_for E ?s1 (n + 1)"
    using assms(3,4) length_st_put [of "log_raw stream (n + 1)" "stored_event (ee_encoded e)" s] unat_plus1 [OF assms(5)]
    by (simp add: fuel_for_def)
  note floor1 = run_observe [OF rest this]
  note id = admit_stored(2,3) [OF assms(1,6,5,7-10)]
  have admits: "run B (floor_admits E stream (ee_identity p) (n + 1) op None) s = (Some (Inr None), s)" for op
    using run_observe [OF assms(1,2)] by (simp add: floor_admits_def refuse_expired_def run_bind run_try lift_res_def)
  have predecessor: "run B (verify_predecessor E stream (ee_identity p) g (n + 1) None) s = (Some (Inr None), s)"
  proof (cases "n = 0")
    case True
    then show ?thesis using holds_unique [OF g] assms(6) id by (simp add: verify_predecessor_def)
  next
    case False
    then show ?thesis using id run_log_get(1) [OF assms(1,6)] held_decodes [OF assms(6)]
      by (simp add: verify_predecessor_def run_bind run_try io_map_err_def io_simps)
  qed
  have probe: "run B (probe_later_witness E stream (n + 1)) s = (Some (Inr ()), s)"
    using run_next_key [OF assms(1), of B "n + 1"] lt
    by (simp add: probe_later_witness_def run_bind run_try io_map_err_def io_simps)
  have "run B (log_create E (log_key stream (n + 1)) (ee_encoded e)) s = (Some (Inr ()), ?s1)"
    by (rule run_create_event [OF assms(1,5,7) encode_event_fields(4) [OF assms(10)]])
  then show ?thesis
    using start run_log_get(2) [OF assms(1) lt(1)] admits predecessor probe floor1
    by (simp add: append_absent_def adjudicate_committed_def run_bind run_try io_simps)
qed

text \<open>A caller that names an earlier event is told which event follows it, and changes nothing.\<close>

lemma run_expected_stale:
  assumes "rest_log E s stream n" "fuel_for E s n" "seq < n" "holds_event E s stream seq p" "streams_env_ok E"
    and "identifier_ok schema" "identifier_ok event_id" "encode_event E stream (seq + 1) schema event_id payload = Inr e"
    and "holds_event E s stream (seq + 1) q" "ee_stable_event_id q \<noteq> event_id"
  shows "run B (append_expected E (ee_identity p) schema event_id payload) s =
      (Some (Inl (failed (PositionConflict stream (seq + 1) (ee_identity q)) NotAttempted)), s)"
proof -
  have max: "seq \<noteq> - 1" using assms(3) unat_lt2p [of n] by (auto simp: word_less_nat_alt unat_max64)
  have other: "ee_encoded q \<noteq> ee_encoded e"
  proof
    assume same: "ee_encoded q = ee_encoded e"
    have "decode_event E stream (seq + 1) (ee_encoded e) = Some e"
      using decode_encode_event [OF assms(8,5) _ assms(6,7)] plain_keys(6) assms(1) by (simp add: rest_log_def)
    then have "q = e" using held_decodes [OF assms(9)] same by simp
    then show False using assms(10) encode_event_fields(1) [OF assms(8)] by simp
  qed
  obtain g where g: "holds_event E s stream 0 g" using rest_held [OF assms(1), of 0] by auto
  show ?thesis
    using run_expected_start [OF assms(1,4) max assms(5-8) g, of B] run_log_get(1) [OF assms(1,9)] held_decodes [OF assms(9)]
      run_observe [OF assms(1,2)] other assms(10)
    by (simp add: append_occupied_def classify_occupant_def storage_failure_def run_bind io_simps)
qed

section \<open>Replays\<close>

context rely_guarantee
begin

lemma rg_run: "run B m s = (Some a, s') \<Longrightarrow> rg R B A Q m s \<Longrightarrow> I s \<Longrightarrow> Q a s'"
proof (induction m arbitrary: s)
  case (Req q k)
  have refl: "R s s" by (rule R_refl [OF Req.prems(3)])
  obtain r t where rt: "st_exec B q s = (r, t)" by (cases "st_exec B q s")
  then have ans: "answer B q s r t" by (rule served)
  have t: "A q s" "rg R B A Q (k r) t" using Req.prems(2) refl ans by auto
  then have "I t" using guarantee [OF Req.prems(3) _ ans] R_inv by blast
  moreover have "run B (k r) t = (Some a, s')" using Req.prems(1) rt by simp
  ultimately show ?case using Req.IH [OF rangeI] t(2) by blast
qed auto

lemma t_run: "triple F m G \<Longrightarrow> run B m s = (Some a, s') \<Longrightarrow> I s \<Longrightarrow> F s \<Longrightarrow> I s' \<and> G a s'"
  unfolding triple_def by (blast dest: rg_run)

end

lemma run_get_all:
  assumes "rest_log E s stream n"
  shows "\<exists>rs. run B (get_all (\<lambda>seq. log_get E (log_key stream seq)) ks) s = (Some rs, s) \<and>
    (\<forall>(k, r)\<in>set rs. r = Inr None \<or> (\<exists>v e. r = Inr (Some v) \<and> decode_event E stream k v = Some e))"
proof (induction ks)
  case (Cons k ks)
  then obtain rs where rs: "run B (get_all (\<lambda>seq. log_get E (log_key stream seq)) ks) s = (Some rs, s)"
    "\<forall>(k, r)\<in>set rs. r = Inr None \<or> (\<exists>v e. r = Inr (Some v) \<and> decode_event E stream k v = Some e)" by blast
  have "\<exists>r. run B (log_get E (log_key stream k)) s = (Some r, s) \<and>
      (r = Inr None \<or> (\<exists>v e. r = Inr (Some v) \<and> decode_event E stream k v = Some e))"
  proof (cases "k \<le> n")
    case True
    then obtain e where "holds_event E s stream k e" using rest_held [OF assms] by blast
    then show ?thesis using run_log_get(1) [OF assms] held_decodes by blast
  next
    case False
    then show ?thesis using run_log_get(2) [OF assms, of k] by (simp add: not_le)
  qed
  then show ?case using rs by (auto simp: run_bind)
qed simp

lemma take_results_present:
  assumes "\<forall>(k, r)\<in>set rs. r = Inr None \<or> (\<exists>v e. r = Inr (Some v) \<and> decode_event E stream k v = Some e)"
  shows "\<exists>x. take_results E stream rs events last_fetched = Inr x"
  using assms by (induction E stream rs events last_fetched rule: take_results.induct) (auto split: sum.split option.split)

lemma run_fetch:
  assumes "rest_log E s stream n"
  shows "\<exists>x. run B (fetch_loop E stream left start events last_fetched) s = (Some (Inr x), s)"
  using assms
proof (induction E stream left start events last_fetched rule: fetch_loop.induct)
  case (1 E stream left start events last_fetched)
  let ?chunk = "seq_chunk (min fetch_parallelism left) start"
  show ?case
  proof (cases "?chunk = []")
    case True
    then show ?thesis by (simp add: fetch_loop.simps Let_def)
  next
    case False
    obtain rs where rs: "run B (get_all (\<lambda>seq. log_get E (log_key stream seq)) ?chunk) s = (Some rs, s)"
      "\<forall>(k, r)\<in>set rs. r = Inr None \<or> (\<exists>v e. r = Inr (Some v) \<and> decode_event E stream k v = Some e)"
      using run_get_all [OF 1(2)] by blast
    obtain es final stopped where taken: "take_results E stream rs events last_fetched = Inr (es, final, stopped)"
      using take_results_present [OF rs(2)] by (metis prod_cases3)
    have step: "run B (fetch_loop E stream left start events last_fetched) s = run B (case stopped of
        Some absent \<Rightarrow> Ret (Inr (es, final, Some absent))
      | None \<Rightarrow> if left \<le> length ?chunk then Ret (Inr (es, final, None))
          else (case checked_add (last ?chunk) 1 of
              Some later \<Rightarrow> fetch_loop E stream (left - length ?chunk) later es final
            | None \<Rightarrow> Ret (Inr (es, final, None)))) s"
      by (subst fetch_loop.simps) (simp only: Let_def False if_False run_bind rs(1) taken sum.case prod.case option.case)
    show ?thesis
    proof (cases "stopped = None \<and> \<not> left \<le> length ?chunk \<and> checked_add (last ?chunk) 1 \<noteq> None")
      case True
      then obtain later where later: "checked_add (last ?chunk) 1 = Some later" by blast
      have "\<exists>x. run B (fetch_loop E stream (left - length ?chunk) later es final) s = (Some (Inr x), s)"
        by (rule 1(1) [OF refl False taken refl refl _ _ later 1(2)]) (use True in auto)
      then show ?thesis using step True later by simp
    next
      case False
      then show ?thesis using step by (auto split: option.splits)
    qed
  qed
qed

lemma page_within:
  assumes "rest_log E s stream n" "page_from E s stream after events" "events \<noteq> []"
  shows "unat after + length events \<le> unat n"
  using assms(2,3)
proof (induction events arbitrary: after)
  case (Cons e es)
  then have at: "after \<noteq> - 1" "holds_event E s stream (after + 1) e" "page_from E s stream (after + 1) es" by auto
  then have "st_get s (log_raw stream (after + 1)) \<noteq> None" by (auto simp: holds_event_def)
  then have "after + 1 \<le> n" using assms(1) unfolding rest_log_def by blast
  then have "unat after + 1 \<le> unat n" using unat_plus1 [OF at(1)] by (simp add: word_le_nat_alt)
  then show ?case using Cons.IH [OF at(3)] unat_plus1 [OF at(1)] by (cases es) auto
qed simp

text \<open>The walk of a read stops at its limit or at the end of the log.\<close>

lemma run_walk:
  assumes "rest_log E s stream n" "after \<noteq> - 1" "0 < limit"
  obtains events stopped where
    "run B (fetch_loop E stream limit (after + 1) [] None) s =
      (Some (Inr (events, if events = [] then None else Some (page_end after events), stopped)), s)"
    "page_from E s stream after events" "length events = min limit (unat n - unat after)"
    "unat (page_end after events) = unat after + length events" "stopped = None \<Longrightarrow> events \<noteq> []"
    "page_end after events < n \<Longrightarrow> stopped = None"
proof -
  obtain events final stopped where run: "run B (fetch_loop E stream limit (after + 1) [] None) s = (Some (Inr (events, final, stopped)), s)"
    using run_fetch [OF assms(1)] by (metis prod_cases3)
  have inv: "events_inv E s" using assms(1) by (simp add: rest_log_def)
  then have now: "since E s s" by (simp add: since_def events_rely_def)
  have "fetched E s s stream after limit (Inr (events, final, stopped))"
    using events_rg.t_run [OF t_fetch [of after "[]" "after + 1" None B E s stream limit] run inv] now assms(2) by simp
  then have f: "page_from E s stream after events" "length events \<le> limit"
      "final = (if events = [] then None else Some (page_end after events))"
      "stopped = None \<Longrightarrow> events \<noteq> [] \<and> (length events = limit \<or> page_end after events = - 1)"
      "stopped \<noteq> None \<Longrightarrow> page_end after events \<noteq> - 1 \<and> st_get s (log_raw stream (page_end after events + 1)) = None"
    using assms(3) by (auto simp: fetched_def split: option.splits)
  have within: "events \<noteq> [] \<Longrightarrow> unat after + length events \<le> unat n" by (rule page_within [OF assms(1) f(1)])
  have "unat after + length events < 2 ^ 64"
    using within unat_lt2p [of n] unat_lt2p [of after] by (cases "events = []") auto
  then have ends: "unat (page_end after events) = unat after + length events"
    unfolding page_end_def by (rule unat_advance)
  have past: "unat n \<le> unat after + length events" if "stopped \<noteq> None"
  proof -
    have "\<not> page_end after events + 1 \<le> n" using f(5) [OF that] assms(1) unfolding rest_log_def by metis
    then show ?thesis using ends unat_plus1 f(5) [OF that] by (simp add: word_le_nat_alt)
  qed
  have "length events = min limit (unat n - unat after)"
  proof (cases stopped)
    case None
    then have "events \<noteq> []" "length events = limit \<or> page_end after events = - 1" using f(4) by auto
    then show ?thesis using within ends unat_max64 unat_lt2p [of n] f(2) by (auto simp: min_def)
  next
    case (Some absent)
    then show ?thesis using past within f(2) by (cases "events = []") auto
  qed
  moreover have "stopped = None" if "page_end after events < n"
    using that past ends by (fastforce simp: word_less_nat_alt)
  ultimately show thesis using that run f(1,3,4) ends by blast
qed

text \<open>Past the log there is nothing to recover; at its end there is nothing to heal.\<close>

lemma run_recover_any:
  assumes "rest_log E s stream n" "n \<noteq> - 1" "64 < se_fuel E" "streams_env_ok E" "hints_inline E"
  shows "\<exists>s'. run B (recover_tail_hint E stream start) s = (Some (), s') \<and> tail_moved E stream n s s'"
proof (cases "start \<le> n")
  case True
  then show ?thesis by (rule run_recover [OF assms(1,2) _ assms(3-5)])
next
  case False
  then have "run B (recover_tail_hint E stream start) s = (Some (), s)"
    using run_log_get(2) [OF assms(1), of start B] by (simp add: recover_tail_hint_def run_bind not_le)
  then show ?thesis using assms(1) by (auto simp: tail_moved_def)
qed

lemma run_heal_ended:
  assumes "rest_log E s stream n" "hint_at E s stream (Some h)" "th_highest_validated_dense_seq h = n"
    and "events \<noteq> [] \<Longrightarrow> ee_seq (last events) \<le> n"
  shows "run B (heal_tail_hint E stream after (if events = [] then None else Some (last events))) s = (Some (), s)"
  using run_verified_hint [OF assms(1,2), of B] assms(3,4) by (simp add: heal_tail_hint_def Let_def run_bind)

text \<open>What a read returns at rest: the events after the asked position, marked complete exactly when
  they reach the end and the tail hint names it.\<close>

definition replay_at_rest :: "streams_env \<Rightarrow> store \<Rightarrow> string \<Rightarrow> u64 \<Rightarrow> tail_hint option \<Rightarrow> u64 \<Rightarrow> nat \<Rightarrow> replay \<Rightarrow> bool" where
  "replay_at_rest E s stream n hint after limit x \<longleftrightarrow>
    (if n \<le> after then x = ReplayEmpty
     else \<exists>events. x = ReplayPage events (unat n - unat after \<le> limit \<and>
         (case hint of None \<Rightarrow> False | Some h \<Rightarrow> th_highest_validated_dense_seq h = n)) \<and>
       page_from E s stream after events \<and> length events = min limit (unat n - unat after))"

lemma run_read:
  assumes "rest_log E s stream n" "fuel_for E s n" "n \<noteq> - 1" "64 < se_fuel E" "streams_env_ok E" "hints_inline E"
    and "0 < limit" "hint_at E s stream hint"
  shows "\<exists>x s'. run B (stream_read E stream after limit) s = (Some x, s') \<and> tail_moved E stream n s s' \<and>
    replay_at_rest E s stream n hint after limit x"
proof (cases "after = - 1")
  case True
  obtain g where g: "holds_event E s stream 0 g" using rest_held [OF assms(1), of 0] by auto
  have "run B (stream_read E stream after limit) s = (Some ReplayEmpty, s)"
    using run_log_get(1) [OF assms(1) g] held_decodes [OF g] True assms(7) by (simp add: stream_read_def run_bind)
  then show ?thesis using assms(1) True by (auto simp: tail_moved_def replay_at_rest_def)
next
  case False
  obtain g where g: "holds_event E s stream 0 g" using rest_held [OF assms(1), of 0] by auto
  obtain events stopped where w: "run B (fetch_loop E stream limit (after + 1) [] None) s =
      (Some (Inr (events, if events = [] then None else Some (page_end after events), stopped)), s)"
    "page_from E s stream after events" "length events = min limit (unat n - unat after)"
    "unat (page_end after events) = unat after + length events" "stopped = None \<Longrightarrow> events \<noteq> []"
    "page_end after events < n \<Longrightarrow> stopped = None"
    using run_walk [OF assms(1) False assms(7)] by metis
  let ?fin = "page_end after events"
  let ?finish = "\<lambda>listed. case listed of
      Inl _ \<Rightarrow> Ret (ReplayUnqualified (Message ''completeness LIST probe failed'' [] []))
    | Inr (Some later) \<Rightarrow> finish_listed E stream events (if events = [] then None else Some ?fin) stopped later
    | Inr None \<Rightarrow> finish_unlisted E stream after events (if events = [] then None else Some ?fin) stopped"
  have start: "run B (stream_read E stream after limit) s = run B (?finish (Inr (if ?fin < n then Some (?fin + 1) else None))) s"
    using run_log_get(1) [OF assms(1) g] held_decodes [OF g] False assms(7) run_log_floor [OF assms(1,2)] w(1)
    by (cases "events = []") (simp_all add: stream_read_def read_from_def run_bind Let_def run_next_key [OF assms(1)])
  have order: "?fin < n \<longleftrightarrow> unat after + limit < unat n" "n \<le> after \<longleftrightarrow> events = []"
    using w(3,4) assms(7) by (auto simp: word_less_nat_alt word_le_nat_alt)
  note hinted = run_verified_hint [OF assms(1,8), of B]
  note recovered = run_recover_any [OF assms(1,3-6), of B]
  show ?thesis
  proof (cases "?fin < n")
    case True
    have max: "?fin \<noteq> - 1" using True unat_lt2p [of n] by (auto simp: word_less_nat_alt unat_max64)
    have "events \<noteq> []" "stopped = None" "?fin < ?fin + 1"
      using True w(5,6) unat_plus1 [OF max] by (auto simp: word_less_nat_alt)
    moreover have "\<exists>s'. run B (if hint = None then recover_tail_hint E stream ?fin else Ret ()) s = (Some (), s') \<and> tail_moved E stream n s s'"
      using recovered assms(1) by (auto simp: tail_moved_def)
    ultimately have "\<exists>s'. run B (stream_read E stream after limit) s = (Some (ReplayPage events False), s') \<and> tail_moved E stream n s s'"
      using start True hinted by (auto simp: finish_listed_def expect_some_def run_bind)
    then show ?thesis using True order w(2,3) by (auto simp: replay_at_rest_def)
  next
    case False
    note whole = False
    let ?w = "case hint of None \<Rightarrow> False | Some h \<Rightarrow> th_highest_validated_dense_seq h = ?fin"
    have low: "case hint of None \<Rightarrow> True | Some h \<Rightarrow> th_highest_validated_dense_seq h \<le> n"
      using assms(1,8) by (auto simp: hint_at_def holds_event_def rest_log_def split: option.splits)
    have past: "?fin = n" if "?w \<or> events \<noteq> []"
    proof -
      have "unat ?fin \<le> unat n" using that low order whole w(3,4) by (auto simp: word_le_nat_alt split: option.splits)
      then show ?thesis using whole by (metis antisym_conv3 word_less_nat_alt not_le)
    qed
    have served: "\<exists>s'. run B (finish_served E stream after events (if events = [] then None else Some ?fin) ?w) s =
        (Some (if events = [] then ReplayEmpty else ReplayPage events ?w), s') \<and> tail_moved E stream n s s'"
    proof (cases ?w)
      case True
      then obtain h where h: "hint = Some h" "th_highest_validated_dense_seq h = n" using past by (auto split: option.splits)
      have "events \<noteq> [] \<Longrightarrow> ee_seq (last events) \<le> n" using page_from_seq [OF w(2)] past by simp
      from run_heal_ended [OF assms(1) assms(8) [unfolded h(1)] h(2) this, of B after] show ?thesis
        using True assms(1) by (simp add: finish_served_def run_bind tail_moved_def)
    next
      case False
      have "(case if events = [] then None else Some ?fin of None \<Rightarrow> after | Some final \<Rightarrow> final) = ?fin" by simp
      then show ?thesis
        using recovered [of ?fin] False by (auto simp: finish_served_def run_bind simp del: option.case_distrib)
    qed
    have "run B (log_get E (log_key stream (?fin + 1))) s = (Some (Inr None), s)" if "?fin < - 1"
    proof -
      have "?fin \<noteq> - 1" using that by auto
      then have "n < ?fin + 1" using whole unat_plus1 [of ?fin] by (simp add: word_less_nat_alt)
      then show ?thesis by (rule run_log_get(2) [OF assms(1)])
    qed
    then have "\<exists>s'. run B (stream_read E stream after limit) s =
        (Some (if events = [] then ReplayEmpty else ReplayPage events ?w), s') \<and> tail_moved E stream n s s'"
      using start whole served hinted low
      by (auto simp: finish_unlisted_def Let_def run_bind split: option.splits)
    then show ?thesis using order whole w(2,3) past by (auto simp: replay_at_rest_def)
  qed
qed

end
