(* ===== verification/Stream_Ranges.thy ===== *)
theory Stream_Ranges
  imports Stream_Life
begin

text \<open>
  The strict range reads of \<open>bounded.rs\<close> on a dense log at rest: a range inside the log is returned
  without an error.
\<close>

section \<open>Strict ranges\<close>

lemma run_strict_fetch:
  assumes "rest_log E s stream n" "seq \<le> n"
  shows "\<exists>e. run B (strict_fetch E stream seq op) s = (Some (Inr (Some e)), s)"
proof -
  obtain e where e: "holds_event E s stream seq e" using rest_held [OF assms] by blast
  then show ?thesis using run_log_get(1) [OF assms(1) e] held_decodes [OF e]
    by (simp add: strict_fetch_def io_map_err_def run_bind run_try io_simps)
qed

lemma run_strict_all:
  assumes "rest_log E s stream n" "\<forall>k\<in>set ks. k \<le> n"
  shows "\<exists>rs. run B (get_all (\<lambda>seq. strict_fetch E stream seq op) ks) s = (Some rs, s) \<and> (\<forall>(k, r)\<in>set rs. \<exists>e. r = Inr (Some e))"
  using assms(2)
proof (induction ks)
  case (Cons k ks)
  then obtain rs where rs: "run B (get_all (\<lambda>seq. strict_fetch E stream seq op) ks) s = (Some rs, s)"
    "\<forall>(k, r)\<in>set rs. \<exists>e. r = Inr (Some e)" by auto
  obtain e where "run B (strict_fetch E stream k op) s = (Some (Inr (Some e)), s)"
    using run_strict_fetch [OF assms(1), of k B op] Cons.prems by auto
  then show ?case using rs by (auto simp: run_bind)
qed simp

lemma take_strict_present:
  "(\<forall>(k, r)\<in>set rs. \<exists>e. r = Inr (Some e)) \<Longrightarrow> \<exists>es. take_strict stream rs events = Inr es"
  by (induction stream rs events rule: take_strict.induct) (auto split: sum.split option.split)

lemma seq_chunk_bound:
  assumes "k \<in> set (seq_chunk want start)"
  shows "unat start \<le> unat k \<and> unat k < unat start + want"
  using assms
proof (induction want arbitrary: start)
  case (Suc want)
  then show ?case
  proof (cases "k = start")
    case False
    then have max: "start \<noteq> - 1" "k \<in> set (seq_chunk want (start + 1))" using Suc.prems by (auto simp: checked_add_1 split: if_splits)
    then show ?thesis using Suc.IH [OF max(2)] unat_plus1 [OF max(1)] by simp
  qed simp
qed simp

lemma seq_chunk_end:
  "0 < want \<Longrightarrow> unat (last (seq_chunk want start)) + 1 = unat start + length (seq_chunk want start)"
  "length (seq_chunk want start) \<le> want"
proof (induction want arbitrary: start)
  case (Suc want)
  {
    case 1
    show ?case using Suc(1) [of "start + 1"] unat_plus1 [of start] by (cases "want = 0") (auto simp: checked_add_1)
  next
    case 2
    show ?case using Suc(2) by (auto split: option.split)
  }
qed simp_all

lemma run_range_loop:
  assumes "rest_log E s stream n" "unat start + remaining \<le> Suc (unat n)"
  shows "\<exists>es. run B (range_loop E stream remaining start events) s = (Some (Inr es), s)"
  using assms
proof (induction E stream remaining start events rule: range_loop.induct)
  case (1 E stream remaining start events)
  let ?chunk = "seq_chunk (min fetch_parallelism remaining) start"
  show ?case
  proof (cases "remaining = 0")
    case True
    then show ?thesis by (simp add: range_loop.simps)
  next
    case False
    have within: "\<forall>k\<in>set ?chunk. k \<le> n"
      using 1(3) seq_chunk_bound by (fastforce simp: word_le_nat_alt)
    obtain rs where rs: "run B (get_all (\<lambda>seq. strict_fetch E stream seq ''read_range: fetch'') ?chunk) s = (Some rs, s)"
        "\<forall>(k, r)\<in>set rs. \<exists>e. r = Inr (Some e)"
      using run_strict_all [OF 1(2) within] by blast
    obtain es where taken: "take_strict stream rs events = Inr es" using take_strict_present [OF rs(2)] by blast
    have step: "run B (range_loop E stream remaining start events) s = run B (case checked_add (last ?chunk) 1 of
         Some later \<Rightarrow> range_loop E stream (remaining - length ?chunk) later es
       | None \<Rightarrow> Ret (Inr es)) s"
      by (subst range_loop.simps) (simp only: False if_False Let_def run_bind rs(1) taken lift_res_simps prod.case option.case)
    show ?thesis
    proof (cases "last ?chunk = - 1")
      case True
      then show ?thesis using step by (simp add: checked_add_1)
    next
      case max: False
      then have add: "checked_add (last ?chunk) 1 = Some (last ?chunk + 1)" by (simp add: checked_add_1)
      have nonempty: "?chunk \<noteq> []" using False by (simp add: fetch_parallelism_def)
      have "unat (last ?chunk + 1) + (remaining - length ?chunk) \<le> Suc (unat n)"
        using seq_chunk_end [of "min fetch_parallelism remaining" start] 1(3) unat_plus1 [OF max] nonempty by (simp add: min_def split: if_splits)
      from 1(1) [OF False refl add 1(2) this] show ?thesis using step add by simp
    qed
  qed
qed

text \<open>A range inside the log is read without an error.\<close>

lemma run_range:
  assumes "rest_log E s stream n" "fuel_for E s n" "after < through_seq" "through_seq \<le> n" "0 < limit" "limit < 2 ^ 64"
  shows "\<exists>page. run B (read_range E stream after through_seq limit) s = (Some (Inr page), s) \<and>
    range_told E s stream after through_seq limit (Inr page) s"
proof -
  let ?last = "min through_seq (saturating_add after (word_of_nat limit))"
  let ?remaining = "if after + 1 \<le> ?last then Suc (unat (?last - (after + 1))) else 0"
  have id: "identifier_ok stream" using assms(1) plain_keys(6) by (simp add: rest_log_def)
  have max: "after \<noteq> - 1" using assms(3) unat_lt2p [of through_seq] by (auto simp: word_less_nat_alt unat_max64)
  have "unat (after + 1) + ?remaining \<le> Suc (unat n)"
  proof (cases "after + 1 \<le> ?last")
    case True
    have "unat ?last \<le> unat n" using assms(4) by (simp add: word_le_nat_alt [symmetric] min_le_iff_disj)
    then show ?thesis using True unat_sub [OF True] by (simp add: word_le_nat_alt)
  next
    case False
    have "after + 1 \<le> n" using assms(3,4) unat_plus1 [OF max] by (simp add: word_le_nat_alt word_less_nat_alt)
    then show ?thesis using False by (simp add: word_le_nat_alt)
  qed
  then obtain events where loop: "run B (range_loop E stream ?remaining (after + 1) []) s = (Some (Inr events), s)"
    using run_range_loop [OF assms(1), where start = "after + 1" and remaining = ?remaining] by blast
  obtain g where genesis: "run B (strict_fetch E stream 0 ''read_range: genesis'') s = (Some (Inr (Some g)), s)"
    using run_strict_fetch [OF assms(1), of 0] by auto
  have run: "\<exists>page. run B (read_range E stream after through_seq limit) s = (Some (Inr page), s)"
    using assms(3,5) genesis run_log_floor [OF assms(1,2), of B] loop
    by (simp add: read_range_def validate_ok [OF id] leD strict_genesis_def strict_floor_def io_map_err_def run_bind run_try Let_def not_le io_simps)
  then obtain page where page: "run B (read_range E stream after through_seq limit) s = (Some (Inr page), s)" by blast
  have inv: "events_inv E s" using assms(1) by (simp add: rest_log_def)
  then have "since E s s" by (simp add: since_def events_rely_def)
  then have "range_told E s stream after through_seq limit (Inr page) s"
    using events_rg.t_run [OF t_read_range [OF assms(6)] page inv] by simp
  then show ?thesis using page by blast
qed

end
