(* ===== verification/Stream_Copies.thy ===== *)
theory Stream_Copies
  imports Stream_Acks
begin

text \<open>
  What a successful migration and a successful cursor advance show, under any interference that keeps
  the events: every entry of the migration is stored at its position, and the event a cursor was
  moved to exists.
\<close>

section \<open>Migration\<close>

definition entry_stored :: "streams_env \<Rightarrow> string \<Rightarrow> migration_entry \<Rightarrow> store \<Rightarrow> bool" where
  "entry_stored E stream entry s \<longleftrightarrow> (\<exists>e. holds_event E s stream (me_seq entry) e \<and>
    ee_stable_event_id e = me_stable_event_id entry \<and> ee_schema_id e = me_schema_id entry \<and> ee_payload e = me_payload entry)"

abbreviation entry_ok :: "migration_entry \<Rightarrow> bool" where
  "entry_ok entry \<equiv> identifier_ok (me_schema_id entry) \<and> identifier_ok (me_stable_event_id entry)"

lemma stable_entry [intro]: "events_rg.stable E (entry_stored E stream entry)"
  "events_rg.stable E (\<lambda>s. \<forall>entry\<in>X. entry_stored E stream entry s)"
proof -
  show "events_rg.stable E (entry_stored E stream entry)" for entry
    unfolding entry_stored_def using stable_event(2) by (fastforce simp: events_rg.stable_def)
  then show "events_rg.stable E (\<lambda>s. \<forall>entry\<in>X. entry_stored E stream entry s)"
    by (auto simp: events_rg.stable_def)
qed

text \<open>One entry: written, or found with the same bytes.\<close>

lemma t_write_entry:
  assumes "streams_env_ok E" "identifier_ok stream" "entry_ok entry"
    and e: "encode_event E stream (me_seq entry) (me_schema_id entry) (me_stable_event_id entry) (me_payload entry) = Inr e"
  shows "events_rg.triple B E (\<lambda>_. True) (io_bind (log_create E (log_key stream (me_seq entry)) (ee_encoded e)) (\<lambda>r. case r of
        Inr _ \<Rightarrow> Ret (Inr ())
      | Inl (KsAlreadyExists _) \<Rightarrow>
          io_try (io_map_err (log_get E (log_key stream (me_seq entry))) f) (\<lambda>found.
          lift_res (ok_or found c) (\<lambda>existing.
          if existing \<noteq> ee_encoded e
          then lift_res (ok_or (decode_event E stream (me_seq entry) existing) c') (\<lambda>_. Ret (Inl c''))
          else Ret (Inr ())))
      | Inl _ \<Rightarrow> Ret (Inl c''')))
    (\<lambda>x s. x = Inr () \<longrightarrow> entry_stored E stream entry s)"
proof -
  have decode: "decode_event E stream (me_seq entry) (ee_encoded e) = Some e"
    using decode_encode_event [OF e assms(1,2)] assms(3) by blast
  have stored: "entry_stored E stream entry s"
    if "st_get s (log_raw stream (me_seq entry)) = Some (stored_event (ee_encoded e))" for s
    using that decode encode_event_fields(1-3) [OF e] by (auto simp: entry_stored_def holds_event_def)
  have readback: "events_rg.triple B E F (io_try (io_map_err (log_get E (log_key stream (me_seq entry))) f) (\<lambda>found.
          lift_res (ok_or found c) (\<lambda>existing.
          if existing \<noteq> ee_encoded e
          then lift_res (ok_or (decode_event E stream (me_seq entry) existing) c') (\<lambda>_. Ret (Inl c''))
          else Ret (Inr ())))) (\<lambda>x s. x = Inr () \<longrightarrow> entry_stored E stream entry s)" for F
    by (rule events_rg.t_pre [OF events_rg.t_try [OF t_get_mapped]])
      (auto intro!: events_rg.t_lift events_rg.t_ret simp: ok_or_Inr_iff stored)
  show ?thesis
    by (rule events_rg.t_bind [OF t_create_event [OF decode encode_event_fields(4) [OF e]]])
      (auto intro!: events_rg.t_ret readback simp: stored split: sum.split keyspace_error.split)
qed

lemma t_write_entries:
  assumes "streams_env_ok E" "identifier_ok stream" "\<forall>entry\<in>set es. entry_ok entry"
  shows "events_rg.triple B E (\<lambda>s. \<forall>entry\<in>X. entry_stored E stream entry s) (write_entries E stream es root terminal)
    (\<lambda>x s. \<forall>y. x = Inr y \<longrightarrow> (\<forall>entry\<in>X \<union> set es. entry_stored E stream entry s))"
  using assms(3)
proof (induction es arbitrary: X root terminal)
  case (Cons entry es)
  let ?Q = "\<lambda>(x :: streams_error + bytes \<times> event_envelope option) s. \<forall>y. x = Inr y \<longrightarrow> (\<forall>a\<in>X \<union> set (entry # es). entry_stored E stream a s)"
  have ids: "entry_ok entry" "\<forall>a\<in>set es. entry_ok a" using Cons.prems by auto
  have rest: "events_rg.triple B E (\<lambda>s. \<forall>a\<in>insert entry X. entry_stored E stream a s)
      (expect_some digest (\<lambda>d. write_entries E stream es (f d) final)) ?Q" for digest f final
  proof (cases digest)
    case (Some d)
    show ?thesis unfolding expect_some_def Some option.case
      by (rule events_rg.t_post [OF Cons.IH [OF ids(2), of "insert entry X"]]) auto
  qed (simp add: expect_some_def events_rg.triple_def)
  show ?case unfolding write_entries.simps
    by (rule events_rg.t_lift, simp,
        rule events_rg.t_try [OF events_rg.t_pre [OF events_rg.t_frame [OF t_write_entry [OF assms(1,2) ids(1)] stable_entry(2) [of E X stream]]]],
        assumption, simp, simp, rule events_rg.t_pre [OF rest], simp)
qed (auto intro: events_rg.t_ret)

text \<open>The positions of the entries.\<close>

lemma dense_positions:
  "dense_from position es = Inr () \<Longrightarrow> map me_seq es = map (\<lambda>i. word_of_nat i + 1) [position..<position + length es]"
  by (induction position es rule: dense_from.induct) (auto simp: upt_conv_Cons split: if_splits simp del: upt_Suc)

definition migrated :: "streams_env \<Rightarrow> string \<Rightarrow> migration_entry list \<Rightarrow> streams_error + migration_receipt \<Rightarrow> store \<Rightarrow> bool" where
  "migrated E stream entries x s \<longleftrightarrow> (\<forall>r. x = Inr r \<longrightarrow> mr_count r = word_of_nat (length entries) \<and>
    map me_seq (sort_key me_seq entries) = map (\<lambda>i. word_of_nat i + 1) [0..<length entries] \<and>
    (\<forall>entry\<in>set entries. entry_stored E stream entry s))"

lemma t_migrate:
  assumes "streams_env_ok E" "identifier_ok stream" "\<forall>entry\<in>set entries. entry_ok entry"
  shows "events_rg.triple B E (\<lambda>_. True) (migrate_log E stream entries) (migrated E stream entries)"
proof -
  let ?ordered = "sort_key me_seq entries"
  let ?all = "\<lambda>s. \<forall>entry\<in>set ?ordered. entry_stored E stream entry s"
  have verify: "keeps B E (verify_loop fuel E stream after)" for fuel after
    by (induction fuel arbitrary: after) (auto intro!: keeps_intros keeps_read split: replay.split)
  have err: "migrated E stream entries (Inl x) s" for x s by (simp add: migrated_def)
  have hint: "keeps B E (case terminal of None \<Rightarrow> Ret () | Some e \<Rightarrow> advance_tail_hint E stream n e)" for terminal n
    by (auto intro!: keeps_intros split: option.split)
  have finish: "events_rg.triple B E ?all (io_try (verify_loop (se_fuel E) E stream 0) (\<lambda>after.
      if after \<noteq> n then Ret (Inl (c after))
      else io_bind (case terminal of None \<Rightarrow> Ret () | Some e \<Rightarrow> advance_tail_hint E stream n e) (\<lambda>_.
        Ret (Inr \<lparr>mr_count = word_of_nat (length ?ordered), mr_event_root_digest = d\<rparr>)))) (migrated E stream entries)"
    if "dense_from 0 ?ordered = Inr ()" for c d n terminal
  proof (rule t_after_try [OF verify stable_entry(2)], rule err, rule events_rg.t_if, rule events_rg.t_ret, rule err,
      rule t_after [OF hint stable_entry(2)], rule events_rg.t_ret)
    fix s assume "\<forall>entry\<in>set ?ordered. entry_stored E stream entry s"
    then show "migrated E stream entries (Inr \<lparr>mr_count = word_of_nat (length ?ordered), mr_event_root_digest = d\<rparr>) s"
      using dense_positions [OF that] by (simp add: migrated_def)
  qed
  have written: "events_rg.triple B E (\<lambda>_. True) (write_entries E stream ?ordered [] None) (\<lambda>x s. \<forall>y. x = Inr y \<longrightarrow> ?all s)"
    using t_write_entries [of E stream ?ordered B "{}" "[]" None] assms by simp
  show ?thesis unfolding migrate_log_def Let_def
  proof (rule events_rg.t_lift, rule err, rule t_after_try [OF keeps_migration_genesis events_rg.stable_True], rule err,
      rule events_rg.t_try [OF written], rule err, goal_cases)
    case (1 u v y)
    obtain root terminal where y: "y = (root, terminal)" by (cases y)
    show ?case unfolding y prod.case by (rule events_rg.t_pre [OF finish]) (use 1 in auto)
  qed
qed

section \<open>Cursors\<close>

text \<open>A cursor that was advanced stands at the target, whose event is stored.\<close>

definition cursor_told :: "streams_env \<Rightarrow> string \<Rightarrow> u64 \<Rightarrow> streams_error + cursor \<Rightarrow> store \<Rightarrow> bool" where
  "cursor_told E stream target x s \<longleftrightarrow> (\<forall>c. x = Inr c \<longrightarrow> cu_seq c = target \<and> target \<noteq> 0 \<and> (\<exists>e. holds_event E s stream target e))"

lemma keeps_current [keeps_intros]: "keeps B E (current_cursor E' stream consumer b)"
  unfolding current_cursor_def by (auto intro!: keeps_intros split: sum.split option.split streams_error.split)

lemma t_cursor_loop:
  assumes "\<not> log_shaped key" "cu_seq desired = target" "target \<noteq> 0"
  shows "events_rg.triple B E (\<lambda>s. holds_event E s stream target e) (cursor_loop fuel E stream consumer key desired)
    (cursor_told E stream target)"
proof (induction fuel)
  case (Suc fuel)
  have desired: "events_rg.triple B E (\<lambda>s. holds_event E s stream target e) (Ret (Inr desired)) (cursor_told E stream target)"
    using assms(2,3) by (auto intro!: events_rg.t_ret simp: cursor_told_def)
  have err: "cursor_told E stream target (Inl x) s" for x s by (simp add: cursor_told_def)
  have fail: "events_rg.triple B E F (Ret (Inl x)) (cursor_told E stream target)" for F x by (rule events_rg.t_ret) (rule err)
  have encoded: "events_rg.triple B E (\<lambda>s. holds_event E s stream target e) (expect_some (cenc (se_cursor_json E) desired) f) (cursor_told E stream target)"
    if "\<And>b. events_rg.triple B E (\<lambda>s. holds_event E s stream target e) (f b) (cursor_told E stream target)" for f
    unfolding expect_some_def using that by (auto simp: events_rg.triple_def split: option.split)
  have create: "events_rg.triple B E (\<lambda>s. holds_event E s stream target e) (io_bind (log_create E key b) f) (cursor_told E stream target)"
    if "\<And>c. events_rg.triple B E (\<lambda>s. holds_event E s stream target e) (f c) (cursor_told E stream target)" for f b
    by (rule t_after [OF keeps_create [OF assms(1)] stable_event(2) that])
  have exchange: "events_rg.triple B E (\<lambda>s. holds_event E s stream target e) (io_bind (log_compare_exchange E key tag b) f) (cursor_told E stream target)"
    if "\<And>c. events_rg.triple B E (\<lambda>s. holds_event E s stream target e) (f c) (cursor_told E stream target)" for f tag b
    by (rule t_after [OF keeps_compare_exchange [OF assms(1)] stable_event(2) that])
  have same: "events_rg.triple B E (\<lambda>s. holds_event E s stream target e) (Ret (Inr current)) (cursor_told E stream target)"
    if "cu_seq current = cu_seq desired" for current
    using assms(2,3) that by (auto intro!: events_rg.t_ret simp: cursor_told_def)
  show ?case unfolding cursor_loop.simps
    by (rule t_after [OF keeps_get(2) stable_event(2)])
      (auto intro!: encoded create exchange desired fail same Suc.IH t_after_try [OF keeps_current stable_event(2)] err
        split: sum.split option.split keyspace_error.split)
qed (simp add: events_rg.triple_def)

lemma t_advance_cursor:
  assumes "consumer_ok stream consumer"
  shows "events_rg.triple B E (\<lambda>_. True) (advance_cursor E stream consumer target) (cursor_told E stream target)"
proof -
  have err: "cursor_told E stream target (Inl x) s" for x s by (simp add: cursor_told_def)
  have fail: "events_rg.triple B E F (Ret (Inl x)) (cursor_told E stream target)" for F x by (rule events_rg.t_ret) (rule err)
  have key: "\<not> log_shaped key" if "cursor_key stream consumer = Inr key" for key
    using that assms by (auto simp: cursor_key_def consumer_ok_def try_res_Inr_iff)
  have present: "events_rg.triple B E (\<lambda>s. st_get s (log_raw stream target) = Some (stored_event b))
      (cursor_loop fuel E stream consumer key desired) (cursor_told E stream target)"
    if "decode_event E stream target b = Some e" "cursor_key stream consumer = Inr key" "target \<noteq> 0" "cu_seq desired = target"
    for b e key desired fuel
    by (rule events_rg.t_pre [OF t_cursor_loop [OF key [OF that(2)] that(4,3)]]) (use that(1) in \<open>auto simp: holds_event_def\<close>)
  have absent: "events_rg.triple B E F (io_bind (stream_trim_floor E stream) (\<lambda>floor. Ret (case floor of
             Inr (Some first_retained) \<Rightarrow>
               if target < first_retained then Inl (x first_retained) else Inl y
           | _ \<Rightarrow> Inl y))) (cursor_told E stream target)" for F x y
    by (rule events_rg.t_pre [OF t_after [OF keeps_trim_floor events_rg.stable_True]])
      (auto intro!: events_rg.t_ret simp: err split: sum.split option.split)
  show ?thesis
  proof (cases "target = 0")
    case False
    show ?thesis unfolding advance_cursor_def Let_def
      by (simp only: False if_False, rule events_rg.t_try [OF t_get_mapped], rule err)
        (auto intro!: events_rg.t_lift present False absent fail simp: err ok_or_Inr_iff split: option.split)
  qed (use fail in \<open>simp add: advance_cursor_def\<close>)
qed

end
