(* ===== verification/Stream_Expected.thy ===== *)
theory Stream_Expected
  imports Stream_Acks
begin

text \<open>
  The expected append tells the truth: a commitment it reports is in the log, the event a refusal
  names is in the log, and a failure that reports no attempt made no write.
\<close>

section \<open>What an outcome says of the log\<close>

definition names_event :: "streams_env \<Rightarrow> store \<Rightarrow> event_ref \<Rightarrow> bool" where
  "names_event E s r \<longleftrightarrow> (\<exists>e. holds_event E s (er_stream_id r) (er_seq r) e \<and> ee_identity e = r)"

definition expected_committed :: "streams_env \<Rightarrow> event_ref \<Rightarrow> string \<Rightarrow> string \<Rightarrow> bytes \<Rightarrow> append_receipt \<Rightarrow> store \<Rightarrow> bool" where
  "expected_committed E predecessor schema event_id payload r s \<longleftrightarrow>
    acknowledged E (er_stream_id predecessor) schema event_id payload r s \<and> ar_seq r = er_seq predecessor + 1"

fun failure_witnessed :: "streams_env \<Rightarrow> event_ref \<Rightarrow> string \<Rightarrow> append_failure \<Rightarrow> store \<Rightarrow> bool" where
  "failure_witnessed E predecessor event_id (PredecessorMismatch expected actual) s \<longleftrightarrow>
    expected = predecessor \<and> actual \<noteq> predecessor \<and> names_event E s actual \<and>
    er_stream_id actual = er_stream_id predecessor \<and> er_seq actual = er_seq predecessor"
| "failure_witnessed E predecessor event_id (PositionConflict stream seq occupant) s \<longleftrightarrow>
    stream = er_stream_id predecessor \<and> seq = er_seq predecessor + 1 \<and> names_event E s occupant \<and>
    er_stream_id occupant = stream \<and> er_seq occupant = seq \<and> er_stable_event_id occupant \<noteq> event_id"
| "failure_witnessed E predecessor event_id (HoleWitnessed stream seq later) s \<longleftrightarrow>
    stream = er_stream_id predecessor \<and> seq = er_seq predecessor + 1 \<and> names_event E s later \<and>
    er_stream_id later = stream \<and> er_seq later > seq"
| "failure_witnessed E predecessor event_id kind s \<longleftrightarrow> True"

definition expected_told :: "streams_env \<Rightarrow> event_ref \<Rightarrow> string \<Rightarrow> string \<Rightarrow> bytes
    \<Rightarrow> append_error + append_receipt \<Rightarrow> store \<Rightarrow> bool" where
  "expected_told E predecessor schema event_id payload x s \<longleftrightarrow> (case x of
      Inr r \<Rightarrow> expected_committed E predecessor schema event_id payload r s
    | Inl err \<Rightarrow> failure_witnessed E predecessor event_id (ae_kind err) s \<and>
        (\<forall>r. ae_effect err = Committed r \<longrightarrow> expected_committed E predecessor schema event_id payload r s))"

lemma told_simps [simp]:
  "expected_told E p schema i payload (Inr r) s = expected_committed E p schema i payload r s"
  "expected_told E p schema i payload (Inl (failed kind NotAttempted)) s = failure_witnessed E p i kind s"
  "expected_told E p schema i payload (Inl (failed kind PossiblyCommitted)) s = failure_witnessed E p i kind s"
  "expected_told E p schema i payload (Inl (failed kind (Committed r))) s =
    (failure_witnessed E p i kind s \<and> expected_committed E p schema i payload r s)"
  "storage_failure err eff = failed (AfStorage err) eff"
  by (auto simp: expected_told_def failed_def storage_failure_def)

lemma stable_committed [intro]: "events_rg.stable E (expected_committed E p schema i payload r)"
  unfolding expected_committed_def using stable_acknowledged by (auto simp: events_rg.stable_def)

lemma holds_named: "holds_event E s stream seq e \<Longrightarrow> names_event E s (ee_identity e) \<and>
    er_stream_id (ee_identity e) = stream \<and> ee_seq e = seq"
  unfolding names_event_def holds_event_def using decode_event_identity by metis

lemma t_adjudicate_committed:
  "events_rg.triple B E (expected_committed E p schema i payload r) (adjudicate_committed E stream target r m)
    (expected_told E p schema i payload)"
  unfolding adjudicate_committed_def
  by (rule t_after [OF keeps_observe stable_committed]) (auto intro!: events_rg.t_ret split: sum.split prod.split)

lemma t_observe:
  assumes "events_rg.stable E F" "\<And>r m' s. F s \<Longrightarrow> G (f (r, m')) s"
  shows "events_rg.triple B E F (io_bind (observe_floor E stream op m) (\<lambda>x. Ret (f x))) G"
  by (rule t_after [OF keeps_observe assms(1)]) (use assms(2) in \<open>auto intro!: events_rg.t_ret\<close>)

lemma classify_names:
  assumes "st_get s (log_raw stream target) = Some (stored_event b)"
  shows "case classify_occupant E stream event_id target b of
      Inr occupant \<Rightarrow> names_event E s occupant \<and> er_stream_id occupant = stream \<and> er_seq occupant = target \<and>
        er_stable_event_id occupant \<noteq> event_id
    | Inl _ \<Rightarrow> True"
proof -
  have "names_event E s (ee_identity e) \<and> er_stream_id (ee_identity e) = stream \<and> ee_seq e = target"
    if "decode_event E stream target b = Some e" for e
    by (rule holds_named) (use assms that in \<open>auto simp: holds_event_def\<close>)
  then show ?thesis
    by (auto simp: classify_occupant_def try_res_Inr_iff ok_or_Inr_iff split: sum.split if_splits)
qed

section \<open>The parts\<close>

lemma t_readback:
  assumes "target = er_seq p + 1" "stream = er_stream_id p"
    and "\<And>s. st_get s (log_raw stream target) = Some (stored_event (ee_encoded e)) \<Longrightarrow>
      expected_committed E p schema event_id payload r s"
  shows "events_rg.triple B E (\<lambda>_. True) (reconcile_readback E stream event_id target e r m)
    (expected_told E p schema event_id payload)"
proof -
  let ?at = "\<lambda>b s. st_get s (log_raw stream target) = Some (stored_event b)"
  let ?told = "expected_told E p schema event_id payload"
  have same: "events_rg.triple B E (?at (ee_encoded e)) (adjudicate_committed E stream target r m) ?told"
    by (rule events_rg.t_pre [OF t_adjudicate_committed]) (rule assms(3))
  have other: "events_rg.triple B E (?at b) (io_bind (observe_floor E stream op m) (\<lambda>(r, _). Ret (case r of
        Inl err \<Rightarrow> Inl (failed (AfStorage err) PossiblyCommitted)
      | Inr floor \<Rightarrow>
          if target < floor then Inl (failed (AfExpired stream target floor ExpiredTarget) PossiblyCommitted)
          else (case classify_occupant E stream event_id target b of
              Inr occupant \<Rightarrow> Inl (failed (PositionConflict stream target occupant) PossiblyCommitted)
            | Inl err \<Rightarrow> Inl (failed (AfStorage err) PossiblyCommitted))))) ?told" for b op
    by (rule t_after [OF keeps_observe stable_event(1)])
      (use assms(1,2) in \<open>auto intro!: events_rg.t_ret dest!: classify_names [where E = E and event_id = event_id]
        split: sum.split prod.split\<close>)
  have unresolved: "events_rg.triple B E F (adjudicate_unresolved E stream target m) (\<lambda>err s. ?told (Inl err) s)" for F
    unfolding adjudicate_unresolved_def
    by (rule events_rg.t_pre [OF t_after [OF keeps_observe events_rg.stable_True]]) (auto intro!: events_rg.t_ret split: sum.split prod.split)
  have readback: "events_rg.triple B E F (io_bind (observe_floor E stream op m) (\<lambda>(r, _). Ret (Inl (case r of
            Inr floor \<Rightarrow>
              if target < floor then failed (AfExpired stream target floor ExpiredTarget) PossiblyCommitted
              else failed (AfStorage w) PossiblyCommitted
          | Inl (BackendUnqualified m) \<Rightarrow> failed (AfStorage (BackendUnqualified m)) PossiblyCommitted
          | Inl _ \<Rightarrow> failed (AfStorage w) PossiblyCommitted)))) ?told" for F op w
    by (rule events_rg.t_pre [OF t_after [OF keeps_observe events_rg.stable_True]])
      (auto intro!: events_rg.t_ret split: sum.split prod.split streams_error.split)
  show ?thesis unfolding reconcile_readback_def Let_def told_simps(5)
  proof (rule events_rg.t_bind [OF t_get_event [OF events_rg.stable_True]], goal_cases)
    case (1 found)
    consider err where "found = Inl err" | "found = Inr None" | b where "found = Inr (Some b)"
      by (metis not_None_eq sum.exhaust)
    then show ?case
    proof cases
      case 1
      then show ?thesis by (simp only: sum.case) (rule readback)
    next
      case 2
      then show ?thesis
        by (simp only: sum.case option.case) (rule events_rg.t_bind [OF unresolved], rule events_rg.t_ret)
    next
      case (3 b)
      have "events_rg.triple B E (?at b) (if b = ee_encoded e then adjudicate_committed E stream target r m else k) ?told"
        if "events_rg.triple B E (?at b) k ?told" for k
        using same that by simp
      from this [OF other] show ?thesis
        unfolding 3 by (simp only: sum.case option.case) (rule events_rg.t_pre, assumption, simp)
    qed
  qed
qed

abbreviation refuses :: "streams_env \<Rightarrow> event_ref \<Rightarrow> string \<Rightarrow> string \<Rightarrow> bytes \<Rightarrow> append_error + 'a \<Rightarrow> store \<Rightarrow> bool" where
  "refuses E p schema event_id payload x s \<equiv> \<forall>err. x = Inl err \<longrightarrow> expected_told E p schema event_id payload (Inl err) s"

lemma t_admits:
  "events_rg.triple B E F (floor_admits E stream p target op m) (refuses E p schema event_id payload)"
  unfolding floor_admits_def told_simps(5)
  by (rule events_rg.t_pre [OF t_after [OF keeps_observe events_rg.stable_True]])
    (auto intro!: events_rg.t_lift events_rg.t_ret simp: map_err_Inl_iff refuse_expired_def split: if_splits)

lemma t_predecessor:
  assumes "\<And>s. F s \<Longrightarrow> holds_event E s stream 0 genesis" "events_rg.stable E F" "stream = er_stream_id p"
  shows "events_rg.triple B E F (verify_predecessor E stream p genesis target m) (refuses E p schema event_id payload)"
proof -
  have found: "events_rg.triple B E (\<lambda>s. st_get s (log_raw stream (er_seq p)) = Some (stored_event b))
      (lift_res (ok_or (decode_event E stream (er_seq p) b) (failed (AfStorage err) NotAttempted)) (\<lambda>e.
        Ret (if ee_identity e \<noteq> p then Inl (failed (PredecessorMismatch p (ee_identity e)) NotAttempted) else Inr m)))
      (refuses E p schema event_id payload)" for b err
    by (rule events_rg.t_lift, simp add: ok_or_Inl_iff, rule events_rg.t_ret)
      (use assms(3) in \<open>auto simp: ok_or_Inr_iff dest!: holds_named [unfolded holds_event_def, OF exI, OF conjI]\<close>)
  have get: "events_rg.triple B E F (io_map_err (log_get E (log_key stream seq)) (\<lambda>err. failed (AfStorage (f err)) NotAttempted))
      (\<lambda>x s. refuses E p schema event_id payload x s \<and> (\<forall>v. x = Inr (Some v) \<longrightarrow> st_get s (log_raw stream seq) = Some (stored_event v)))" for seq f
    by (rule t_map_err [OF t_get_event [OF assms(2)]]) (auto simp: map_err_Inr_iff map_err_Inl_iff)
  show ?thesis
  proof (cases "er_seq p = 0")
    case True
    then show ?thesis unfolding verify_predecessor_def
      using assms(3) by (auto intro!: events_rg.t_ret dest!: assms(1) holds_named)
  next
    case False
    have absent: "events_rg.triple B E F (io_try (floor_admits E stream p target op m)
        (\<lambda>_. Ret (Inl (failed (AfStorage err) NotAttempted)))) (refuses E p schema event_id payload)" for F op err
      by (rule events_rg.t_try [OF t_admits]) (auto intro!: events_rg.t_ret)
    show ?thesis using False unfolding verify_predecessor_def told_simps(5)
      by simp (rule events_rg.t_try [OF get], simp, split option.split, intro conjI allI impI, rule absent,
          rule events_rg.t_pre [OF found], simp)
  qed
qed

lemma t_next_later:
  "events_rg.triple B E F (next_log_key_after E' stream after) (\<lambda>x s. \<forall>later. x = Inr (Some later) \<longrightarrow> later > after)"
proof -
  have least: "P (Min (set (filter P xs)))" if "filter P xs \<noteq> []" for P and xs :: "u64 list"
  proof -
    have "Min (set (filter P xs)) \<in> set (filter P xs)" using that by (intro Min_in) (auto simp: filter_empty_conv)
    then show ?thesis by simp
  qed
  show ?thesis unfolding next_log_key_after_def Let_def
    by (intro events_rg.t_pre [OF events_rg.t_try [where F = "\<lambda>_. True" and G = "\<lambda>_ _. True"]])
      (auto intro!: keeps_intros events_rg.t_ret dest: least [unfolded set_filter])
qed

lemma t_later:
  assumes "target = er_seq p + 1" "stream = er_stream_id p"
  shows "events_rg.triple B E F (probe_later_witness E stream target) (refuses E p schema event_id payload)"
proof -
  have get: "events_rg.triple B E F (io_map_err (log_get E (log_key stream seq)) (\<lambda>err. failed (AfStorage (f err)) NotAttempted))
      (\<lambda>x s. refuses E p schema event_id payload x s \<and> (\<forall>v. x = Inr (Some v) \<longrightarrow> st_get s (log_raw stream seq) = Some (stored_event v)))" for seq f F
    by (rule events_rg.t_pre [OF t_map_err [OF t_get_event [OF events_rg.stable_True]]]) (auto simp: map_err_Inr_iff map_err_Inl_iff)
  have found: "events_rg.triple B E (\<lambda>s. st_get s (log_raw stream later) = Some (stored_event b))
      (lift_res (ok_or (decode_event E stream later b) (failed (AfStorage err) NotAttempted)) (\<lambda>e.
        Ret (Inl (failed (HoleWitnessed stream target (ee_identity e)) NotAttempted))))
      (refuses E p schema event_id payload)" if "later > target" for b err later
    by (rule events_rg.t_lift, simp add: ok_or_Inl_iff, rule events_rg.t_ret)
      (use assms that in \<open>auto simp: ok_or_Inr_iff dest!: holds_named [unfolded holds_event_def, OF exI, OF conjI]\<close>)
  have err: "events_rg.triple B E F (io_map_err (next_log_key_after E stream target) (\<lambda>err. failed (AfStorage (f err)) NotAttempted))
      (\<lambda>x s. refuses E p schema event_id payload x s \<and> (\<forall>later. x = Inr (Some later) \<longrightarrow> later > target))" for f
    by (rule t_map_err [OF t_next_later]) (auto simp: map_err_Inr_iff map_err_Inl_iff)
  show ?thesis unfolding probe_later_witness_def told_simps(5)
  proof (rule events_rg.t_try [OF err], simp, goal_cases)
    case (1 listed)
    show ?case
    proof (cases "\<exists>later. listed = Some later \<and> later > target")
      case True
      then obtain later where l: "listed = Some later" "later > target" by blast
      show ?thesis unfolding l(1) option.case
        by (rule events_rg.t_try [OF get], simp, rule events_rg.t_lift, simp add: ok_or_Inl_iff,
            rule events_rg.t_pre [OF found [OF l(2)]]) (simp add: ok_or_Inr_iff)
    next
      case False
      then show ?thesis
        by (cases listed) (auto intro: events_rg.t_ret events_rg.t_pre [OF events_rg.t_false])
    qed
  qed
qed

section \<open>The call\<close>

lemma t_absent:
  assumes "target = er_seq p + 1" "stream = er_stream_id p" "events_rg.stable E F"
    and "\<And>s. F s \<Longrightarrow> holds_event E s stream 0 genesis"
    and "decode_event E stream target (ee_encoded e) = Some e" "length (ee_encoded e) \<le> max_encoded_envelope_bytes"
    and "\<And>s. st_get s (log_raw stream target) = Some (stored_event (ee_encoded e)) \<Longrightarrow>
      expected_committed E p schema event_id payload r s"
  shows "events_rg.triple B E F (append_absent E stream p event_id genesis target e r) (expected_told E p schema event_id payload)"
proof -
  have keep: "events_rg.triple B E F m (\<lambda>x s. refuses E p schema event_id payload x s \<and> F s)"
    if "events_rg.triple B E F m (refuses E p schema event_id payload)" for m :: "(append_error + 'b) io"
    by (rule events_rg.t_pre [OF events_rg.t_frame [OF that assms(3)]]) simp
  have committed: "events_rg.triple B E (\<lambda>s. st_get s (log_raw stream target) = Some (stored_event (ee_encoded e)))
      (adjudicate_committed E stream target r m) (expected_told E p schema event_id payload)" for m
    by (rule events_rg.t_pre [OF t_adjudicate_committed]) (rule assms(7))
  have create: "events_rg.triple B E F (log_create E (log_key stream target) (ee_encoded e))
      (\<lambda>x s. x = Inr () \<longrightarrow> st_get s (log_raw stream target) = Some (stored_event (ee_encoded e)))" for F
    by (rule events_rg.t_pre [OF t_create_event [OF assms(5,6)]]) simp
  have readback: "events_rg.triple B E F (reconcile_readback E stream event_id target e r m)
      (expected_told E p schema event_id payload)" for F m
    by (rule events_rg.t_pre [OF t_readback [OF assms(1,2,7)]]) simp_all
  show ?thesis unfolding append_absent_def
    by (rule events_rg.t_try [OF keep [OF t_admits]], simp, simp,
        rule events_rg.t_try [OF keep [OF t_predecessor [OF assms(4,3,2)]]], simp, simp, simp,
        rule events_rg.t_try [OF t_later [OF assms(1,2)]], simp,
        rule events_rg.t_try [OF t_admits], simp, rule events_rg.t_bind [OF create])
      (auto intro: committed readback split: sum.split)
qed

lemma t_occupied:
  assumes "target = er_seq p + 1" "stream = er_stream_id p"
  shows "events_rg.triple B E (\<lambda>s. st_get s (log_raw stream target) = Some (stored_event b))
    (append_occupied E stream event_id target b) (expected_told E p schema event_id payload)"
  unfolding append_occupied_def told_simps(5)
  by (rule t_after [OF keeps_observe stable_event(1)])
    (use assms in \<open>auto intro!: events_rg.t_ret dest!: classify_names [where E = E and event_id = event_id]
      split: sum.split prod.split\<close>)

lemma t_unreadable:
  "events_rg.triple B E F (append_unreadable E stream target err) (expected_told E p schema event_id payload)"
  unfolding append_unreadable_def told_simps(5)
  by (auto intro!: events_rg.t_ret events_rg.t_pre [OF t_after [OF keeps_observe events_rg.stable_True]]
      split: streams_error.split sum.split prod.split)

lemma t_expected:
  assumes "streams_env_ok E"
  shows "events_rg.triple B E (\<lambda>_. True) (append_expected E p schema event_id payload) (expected_told E p schema event_id payload)"
proof -
  let ?told = "expected_told E p schema event_id payload" and ?stream = "er_stream_id p"
  let ?F = "\<lambda>genesis s. holds_event E s ?stream 0 genesis"
  have genesis: "events_rg.triple B E (\<lambda>_. True) (verified_genesis E ?stream)
      (\<lambda>x s. refuses E p schema event_id payload x s \<and> (\<forall>g. x = Inr g \<longrightarrow> ?F g s))"
    unfolding verified_genesis_def told_simps(5)
    by (rule events_rg.t_try [OF t_map_err [OF t_get_event [OF events_rg.stable_True], where H = "\<lambda>x s.
        refuses E p schema event_id payload x s \<and> (\<forall>v. x = Inr (Some v) \<longrightarrow> st_get s (log_raw ?stream 0) = Some (stored_event v))"]])
      (auto intro!: events_rg.t_lift events_rg.t_ret simp: map_err_Inl_iff ok_or_Inl_iff ok_or_Inr_iff holds_event_def)
  have call: "events_rg.triple B E (?F g) (io_bind (log_get E (log_key ?stream target)) (\<lambda>found. case found of
         Inl err \<Rightarrow> append_unreadable E ?stream target (f err)
       | Inr (Some b) \<Rightarrow>
           if b = ee_encoded e then adjudicate_committed E ?stream target r None
           else append_occupied E ?stream event_id target b
       | Inr None \<Rightarrow> append_absent E ?stream p event_id g target e r)) ?told"
    if ok: "admit_expected E p schema event_id payload = Inr (target, e, r)" for target e r g f
  proof -
    have a: "target = er_seq p + 1" "identifier_ok ?stream" "identifier_ok schema" "identifier_ok event_id"
      "encode_event E ?stream target schema event_id payload = Inr e" "r = receipt_of ?stream target event_id e"
      using ok by (auto simp: admit_expected_def Let_def try_res_Inr_iff ok_or_Inr_iff checked_add_1 split: if_splits)
    note decoded = decode_encode_event [OF a(5) assms a(2-4)]
    have committed_at: "expected_committed E p schema event_id payload r s"
      if "st_get s (log_raw ?stream target) = Some (stored_event (ee_encoded e))" for s
      unfolding expected_committed_def a(6)
      using acknowledged_encoded [OF a(5) decoded that] a(1) by (simp add: receipt_of_def)
    have committed: "events_rg.triple B E (\<lambda>s. st_get s (log_raw ?stream target) = Some (stored_event (ee_encoded e)))
        (adjudicate_committed E ?stream target r m) ?told" for m
      by (rule events_rg.t_pre [OF t_adjudicate_committed]) (rule committed_at)
    have absent: "events_rg.triple B E (?F g) (append_absent E ?stream p event_id g target e r) ?told"
      by (rule t_absent [OF a(1) refl stable_event(2) _ decoded encode_event_fields(4) [OF a(5)] committed_at])
    have occupied: "events_rg.triple B E (\<lambda>s. st_get s (log_raw ?stream target) = Some (stored_event b))
        (append_occupied E ?stream event_id target b) ?told" for b
      by (rule t_occupied [OF a(1) refl])
    show ?thesis
    proof (rule events_rg.t_bind [OF t_get_event [OF stable_event(2)]], goal_cases)
      case (1 found)
      consider err where "found = Inl err" | "found = Inr None" | b where "found = Inr (Some b)"
        by (metis not_None_eq sum.exhaust)
      then show ?case
      proof cases
        case 1
        then show ?thesis by (simp add: t_unreadable)
      next
        case 2
        then show ?thesis by (simp add: events_rg.t_pre [OF absent])
      next
        case (3 b)
        then show ?thesis
          by simp (intro conjI impI events_rg.t_pre [OF committed] events_rg.t_pre [OF occupied]; simp)
      qed
    qed
  qed
  show ?thesis unfolding append_expected_def Let_def told_simps(5)
    by (rule events_rg.t_lift, auto simp: map_err_Inl_iff)
      (rule events_rg.t_try [OF genesis], simp, rule events_rg.t_pre [OF call], simp_all)
qed

section \<open>Calls that end without a write\<close>

text \<open>Along a path of reads \<open>m\<close> may end as it likes; after a write its value is not in \<open>N\<close>.\<close>

primrec silent :: "backend \<Rightarrow> ('a \<Rightarrow> bool) \<Rightarrow> 'a io \<Rightarrow> bool" where
  "silent B N (Req q k) \<longleftrightarrow> (is_read q \<and> (\<forall>r. reply_ok B q r \<longrightarrow> silent B N (k r))) \<or>
    io_post (reply_ok B) (\<lambda>_. True) (\<lambda>a. \<not> N a) (Req q k)"
| "silent B N (Ret a) \<longleftrightarrow> True"
| "silent B N Stuck \<longleftrightarrow> True"

lemma silent_never: "io_post (reply_ok B) (\<lambda>_. True) (\<lambda>a. \<not> N a) m \<Longrightarrow> silent B N m"
  by (cases m) auto

lemma silent_reads_bind: "io_all B is_read m \<Longrightarrow> (\<And>a. silent B N (f a)) \<Longrightarrow> silent B N (io_bind m f)"
  unfolding io_all_def by (induction m) auto

lemma never_env_run: "env_run R B m s h a s' \<Longrightarrow> io_post (reply_ok B) P Q m \<Longrightarrow> Q a"
  by (induction rule: env_run.induct) (auto dest: answer_reply_ok)

lemma silent_env_run:
  assumes "env_run R B m s h a s'" "silent B N m" "N a"
  shows "\<forall>(s1, q, r, s2)\<in>set h. is_read q"
  using assms
proof (induction rule: env_run.induct)
  case (env_Req s s1 q r s2 k h a s')
  have "env_run R B (Req q k) s ((s1, q, r, s2) # h) a s'" using env_Req.hyps by auto
  from never_env_run [OF this] have "\<not> io_post (reply_ok B) (\<lambda>_. True) (\<lambda>a. \<not> N a) (Req q k)"
    using env_Req.prems(2) by blast
  then show ?case using env_Req answer_reply_ok [OF env_Req.hyps(2)] by auto
qed simp

definition not_attempted :: "append_error + append_receipt \<Rightarrow> bool" where
  "not_attempted x \<longleftrightarrow> (case x of Inl err \<Rightarrow> ae_effect err = NotAttempted | Inr _ \<Rightarrow> False)"

lemma not_attempted_simps [simp]:
  "\<not> not_attempted (Inr r)" "not_attempted (Inl (failed kind eff)) \<longleftrightarrow> eff = NotAttempted"
  by (simp_all add: not_attempted_def failed_def)

lemma reads_post: "io_all B is_read m \<Longrightarrow> (\<And>x. Q x) \<Longrightarrow> io_post (reply_ok B) is_read Q m"
  unfolding io_all_def by (erule io_post_mono) auto

lemma log_read_posts:
  "(\<And>x. Q x) \<Longrightarrow> io_post (reply_ok B) is_read Q (log_get E k)"
  "(\<And>x. Q' x) \<Longrightarrow> io_post (reply_ok B) is_read Q' (log_floor E stream)"
  "(\<And>x. Q' x) \<Longrightarrow> io_post (reply_ok B) is_read Q' (next_log_key_after E stream after)"
proof -
  show "(\<And>x. Q x) \<Longrightarrow> io_post (reply_ok B) is_read Q (log_get E k)"
    unfolding log_get_def by (rule reads_post [OF get_reads(1)])
  show "(\<And>x. Q' x) \<Longrightarrow> io_post (reply_ok B) is_read Q' (log_floor E stream)"
    unfolding log_floor_def by (rule reads_post [OF trim_floor_reads])
  show "(\<And>x. Q' x) \<Longrightarrow> io_post (reply_ok B) is_read Q' (next_log_key_after E stream after)"
    unfolding next_log_key_after_def Let_def
    by (auto intro!: post_intros reads_post [OF list_after_reads] split: sum.split)
qed

lemma io_post_map_err [post_intros]: "io_post V P (\<lambda>x. Q (map_err x f)) m \<Longrightarrow> io_post V P Q (io_map_err m f)"
  unfolding io_map_err_def by (rule io_post_bind, erule io_post_mono) auto

lemma expected_reads:
  "(\<And>x. Q x) \<Longrightarrow> io_post (reply_ok B) is_read Q (observe_floor E stream op m)"
  "(\<And>x. Q' x) \<Longrightarrow> io_post (reply_ok B) is_read Q' (floor_admits E stream p target op m)"
  "(\<And>x. Q'' x) \<Longrightarrow> io_post (reply_ok B) is_read Q'' (verified_genesis E stream)"
  "(\<And>x. Q' x) \<Longrightarrow> io_post (reply_ok B) is_read Q' (verify_predecessor E stream p genesis target m)"
  "(\<And>x. Q3 x) \<Longrightarrow> io_post (reply_ok B) is_read Q3 (probe_later_witness E stream target)"
  "(\<And>x. Q4 x) \<Longrightarrow> io_post (reply_ok B) is_read Q4 (adjudicate_committed E stream target r m)"
  "(\<And>x. Q4 x) \<Longrightarrow> io_post (reply_ok B) is_read Q4 (append_occupied E stream event_id target b)"
  "(\<And>x. Q4 x) \<Longrightarrow> io_post (reply_ok B) is_read Q4 (append_unreadable E stream target err)"
proof -
  show observe: "(\<And>x. Q x) \<Longrightarrow> io_post (reply_ok B) is_read Q (observe_floor E stream op m)" for Q op m
    unfolding observe_floor_def by (intro post_intros log_read_posts) simp
  show admits: "(\<And>x. Q' x) \<Longrightarrow> io_post (reply_ok B) is_read Q' (floor_admits E stream p target op m)" for Q' op m
    unfolding floor_admits_def by (auto intro!: post_intros observe)
  show "(\<And>x. Q'' x) \<Longrightarrow> io_post (reply_ok B) is_read Q'' (verified_genesis E stream)"
    unfolding verified_genesis_def by (auto intro!: post_intros log_read_posts split: sum.split)
  show "(\<And>x. Q' x) \<Longrightarrow> io_post (reply_ok B) is_read Q' (verify_predecessor E stream p genesis target m)"
    unfolding verify_predecessor_def by (auto intro!: post_intros log_read_posts admits split: sum.split option.split)
  show "(\<And>x. Q3 x) \<Longrightarrow> io_post (reply_ok B) is_read Q3 (probe_later_witness E stream target)"
    unfolding probe_later_witness_def by (auto intro!: post_intros log_read_posts split: sum.split option.split)
  show "(\<And>x. Q4 x) \<Longrightarrow> io_post (reply_ok B) is_read Q4 (adjudicate_committed E stream target r m)"
    unfolding adjudicate_committed_def by (auto intro!: post_intros observe)
  show "(\<And>x. Q4 x) \<Longrightarrow> io_post (reply_ok B) is_read Q4 (append_occupied E stream event_id target b)"
    unfolding append_occupied_def by (auto intro!: post_intros observe)
  show "(\<And>x. Q4 x) \<Longrightarrow> io_post (reply_ok B) is_read Q4 (append_unreadable E stream target err)"
    unfolding append_unreadable_def by (auto intro!: post_intros observe split: streams_error.split)
qed

lemma any_post: "io_post (reply_ok B) P (\<lambda>_. True) m \<Longrightarrow> (\<And>x. Q x) \<Longrightarrow> io_post (reply_ok B) (\<lambda>_. True) Q m"
  by (erule io_post_mono) auto

lemma any_reads: "(\<And>x. Q x) \<Longrightarrow> io_post (reply_ok B) (\<lambda>_. True) Q (log_create E k v)"
  unfolding log_create_def by (rule any_post [OF key_create]) simp

lemma read_any: "io_post (reply_ok B) is_read Q m \<Longrightarrow> io_post (reply_ok B) (\<lambda>_. True) Q m"
  by (erule io_post_mono) auto

lemma committed_attempted:
  "io_post (reply_ok B) (\<lambda>_. True) (\<lambda>a. \<not> not_attempted a) (adjudicate_committed E stream target r m)"
  unfolding adjudicate_committed_def
  by (auto intro!: post_intros read_any [OF expected_reads(1)] split: sum.split)

lemma readback_attempted:
  "io_post (reply_ok B) (\<lambda>_. True) (\<lambda>a. \<not> not_attempted a) (reconcile_readback E stream event_id target e r m)"
  unfolding reconcile_readback_def Let_def adjudicate_unresolved_def told_simps(5)
  by (intro post_intros read_any [OF log_read_posts(1)])
    (auto intro!: post_intros read_any [OF expected_reads(1)] committed_attempted split: sum.split option.split streams_error.split)

lemma silent_reads_try: "io_all B is_read m \<Longrightarrow> (\<And>a. silent B N (f a)) \<Longrightarrow> silent B N (io_try m f)"
  unfolding io_try_def by (rule silent_reads_bind) (auto split: sum.split)

lemma expected_silent: "silent B not_attempted (append_expected E p schema event_id payload)"
proof -
  have reads: "io_all B is_read m" if "io_post (reply_ok B) is_read (\<lambda>_. True) m" for m :: "'b io"
    using that by (simp add: io_all_def)
  have all: "io_post (reply_ok B) is_read (\<lambda>_. True) m \<Longrightarrow> silent B not_attempted m" for m
    using silent_reads_bind [OF reads, of m not_attempted Ret] by simp
  have absent: "silent B not_attempted (append_absent E stream p event_id g target e r)" for stream g target e r
    unfolding append_absent_def
    by (intro silent_reads_try reads expected_reads silent_never post_intros any_reads TrueI)
      (auto intro: committed_attempted readback_attempted split: sum.split)
  show ?thesis unfolding append_expected_def Let_def
    by (auto intro!: silent_reads_try silent_reads_bind reads expected_reads log_read_posts absent
        all [OF expected_reads(6)] all [OF expected_reads(7)] all [OF expected_reads(8)]
        split: sum.split option.split simp: lift_res_def)
qed

lemma expected_not_attempted:
  assumes "env_run R B (append_expected E p schema event_id payload) s h x s'" "not_attempted x"
  shows "\<forall>(s1, q, r, s2)\<in>set h. is_read q"
  by (rule silent_env_run [OF assms(1) expected_silent assms(2)])

text \<open>Whatever it writes is the target, or a chunk under the target's key.\<close>

lemma expected_key_req:
  "io_all B (key_req (se_ext E) streams_namespace (log_key (er_stream_id p) (er_seq p + 1))) (append_expected E p schema event_id payload)"
proof -
  let ?P = "\<lambda>target. key_req (se_ext E) streams_namespace (log_key (er_stream_id p) target)"
  have read: "io_post (reply_ok B) (?P target) Q m" if "io_post (reply_ok B) is_read Q m" for target Q and m :: "'b io"
    using that by (rule io_post_mono) (auto intro: key_read)
  have create: "(\<And>x. Q x) \<Longrightarrow> io_post (reply_ok B) (?P target) Q (log_create E (log_key (er_stream_id p) target) v)" for target v Q
    unfolding log_create_def by (rule key_create)
  have readback: "io_post (reply_ok B) is_read (\<lambda>_. True) (reconcile_readback E stream event_id target e r m)" for stream target e r m
    unfolding reconcile_readback_def Let_def adjudicate_unresolved_def
    by (intro post_intros log_read_posts(1)) (auto intro!: post_intros expected_reads split: sum.split option.split)
  have absent: "io_post (reply_ok B) (?P target) (\<lambda>_. True) (append_absent E (er_stream_id p) p event_id g target e r)" for g target e r
    unfolding append_absent_def
    by (auto intro!: post_intros read [OF expected_reads(2)] read [OF expected_reads(4)] read [OF expected_reads(5)] create
        read [OF expected_reads(6)] read [OF readback] split: sum.split)
  show ?thesis unfolding append_expected_def Let_def io_all_def
    by (auto intro!: post_intros read [OF expected_reads(3)] read [OF log_read_posts(1)] read [OF expected_reads(6)]
        read [OF expected_reads(7)] read [OF expected_reads(8)] absent
        simp: map_err_Inr_iff admit_expected_def Let_def try_res_Inr_iff ok_or_Inr_iff checked_add_1
        split: sum.split option.split if_splits)
qed

end
