(* ===== verification/Stream_Demo.thy ===== *)
theory Stream_Demo
  imports Stream_Ranges Stream_Copies Stream_Expected Keyspace_Scenario
begin

text \<open>
  A concrete stream for the witnesses: the external crates of \<open>Kernel_Demo\<close> with codecs for the
  objects of a stream, and a stream that is created and grows by two events.
\<close>

section \<open>The crates\<close>

definition p_u32 :: "u32 pickle" where
  "p_u32 = p_iso ucast ucast p_u64"

lemma p_u32_ok [intro]: "pickle_ok p_u32"
  unfolding p_u32_def by (intro p_iso_ok p_u64_ok) (simp add: ucast_narrow)

definition p_envelope :: "wire_envelope pickle" where
  "p_envelope = p_iso
    (\<lambda>w. (we_format_version w, we_stream_id w, we_seq w, we_stable_event_id w, we_schema_id w, we_payload_len w,
      we_payload_sha256 w, we_payload w))
    (\<lambda>(f, s, q, i, c, l, d, p). \<lparr>we_format_version = f, we_stream_id = s, we_seq = q, we_stable_event_id = i,
      we_schema_id = c, we_payload_len = l, we_payload_sha256 = d, we_payload = p\<rparr>)
    (p_pair p_u32 (p_pair p_string (p_pair p_u64 (p_pair p_string (p_pair p_string (p_pair p_u64 (p_pair p_string p_string)))))))"

definition p_hint :: "tail_hint pickle" where
  "p_hint = p_iso (\<lambda>h. (th_format_version h, th_highest_validated_dense_seq h, th_terminal_record_digest h))
    (\<lambda>(f, q, d). \<lparr>th_format_version = f, th_highest_validated_dense_seq = q, th_terminal_record_digest = d\<rparr>)
    (p_pair p_u32 (p_pair p_u64 p_string))"

definition p_cursor :: "cursor pickle" where
  "p_cursor = p_iso (\<lambda>c. (cu_format_version c, cu_stream_id c, cu_seq c, cu_event_id c))
    (\<lambda>(f, s, q, i). \<lparr>cu_format_version = f, cu_stream_id = s, cu_seq = q, cu_event_id = i\<rparr>)
    (p_pair p_u32 (p_pair p_string (p_pair p_u64 p_string)))"

definition p_seal :: "migration_seal pickle" where
  "p_seal = p_iso
    (\<lambda>m. (ms_format_version m, ms_source_lineage m, ms_source_head_digest m, ms_event_count m, ms_event_root_digest m))
    (\<lambda>(f, l, h, n, d). \<lparr>ms_format_version = f, ms_source_lineage = l, ms_source_head_digest = h, ms_event_count = n,
      ms_event_root_digest = d\<rparr>)
    (p_pair p_u32 (p_pair p_string (p_pair p_string (p_pair p_u64 p_string))))"

lemma stream_pickles_ok: "pickle_ok p_envelope" "pickle_ok p_hint" "pickle_ok p_cursor" "pickle_ok p_seal"
proof -
  note intros = p_iso_ok p_pair_ok p_string_ok p_u64_ok p_u32_ok
  show "pickle_ok p_envelope" unfolding p_envelope_def by (intro intros) simp
  show "pickle_ok p_hint" unfolding p_hint_def by (intro intros) simp
  show "pickle_ok p_cursor" unfolding p_cursor_def by (intro intros) simp
  show "pickle_ok p_seal" unfolding p_seal_def by (intro intros) simp
qed

definition demo_env :: streams_env where
  "demo_env = \<lparr>se_ext = demo_ext, se_envelope_json = codec_of 8 p_envelope, se_hint_json = codec_of 9 p_hint,
    se_cursor_json = codec_of 10 p_cursor, se_seal_json = codec_of 11 p_seal, se_base64_encode = demo_hex,
    se_base64_decode = demo_unhex, se_fuel = 100, se_ids = demo_ids\<rparr>"

lemma demo_env_ok [simp]: "streams_env_ok demo_env"
  using stream_pickles_ok demo_hex_ok by (auto simp: streams_env_ok_def demo_env_def)

lemma demo_hints_inline [simp]: "hints_inline demo_env"
  by (auto simp: hints_inline_def demo_env_def codec_of_def p_hint_def p_iso_def p_pair_def p_u32_def p_string_def p_u64_def
      inline_max_def)

lemma demo_fuel [simp]: "se_fuel demo_env = 100"
  by (simp add: demo_env_def)

lemma demo_encodes:
  assumes "length stream + length event_id + length schema + length payload \<le> 1000"
  obtains e where "encode_event demo_env stream seq schema event_id payload = Inr e"
proof -
  have "length (sha256_hex demo_env payload) = 64"
    using demo_env_ok by (simp add: sha256_hex_def streams_env_ok_def ext_ok_def)
  then have "\<exists>e. encode_event demo_env stream seq schema event_id payload = Inr e"
    using assms demo_hex_ok
    by (auto simp: encode_event_def Let_def demo_env_def codec_of_def p_envelope_def p_iso_def p_pair_def p_u32_def p_string_def
        p_u64_def max_encoded_envelope_bytes_def)
  then show ?thesis using that by blast
qed

section \<open>Runs as histories of the streams\<close>

context rely_guarantee
begin

lemma rg_hist: "run B m s = (Some a, s') \<Longrightarrow> rg R B A Q m s \<Longrightarrow> I s \<Longrightarrow> env_run R B m s (hist B m s) a s'"
proof (induction m arbitrary: s)
  case (Req q k)
  let ?r = "fst (st_exec B q s)" and ?t = "snd (st_exec B q s)"
  have refl: "R s s" by (rule R_refl [OF Req.prems(3)])
  have ans: "answer B q s ?r ?t" by (rule served) (rule surjective_pairing)
  have "A q s" "rg R B A Q (k ?r) ?t" using Req.prems(2) refl ans by auto
  then have t: "I ?t" "rg R B A Q (k ?r) ?t" using guarantee [OF Req.prems(3) _ ans] R_inv by auto
  have "run B (k ?r) ?t = (Some a, s')" using Req.prems(1) by simp
  then have "env_run R B (k ?r) ?t (hist B (k ?r) ?t) a s'" using Req.IH [OF rangeI] t by blast
  then show ?case unfolding hist.simps using refl ans by (intro env_Req)
qed (auto intro: env_Ret)

lemma t_hist: "run B m s = (Some a, s') \<Longrightarrow> triple F m G \<Longrightarrow> I s \<Longrightarrow> F s \<Longrightarrow> env_run R B m s (hist B m s) a s'"
  unfolding triple_def by (blast intro: rg_hist)

end

section \<open>A stream of two events\<close>

definition demo_event :: "u64 \<Rightarrow> string \<Rightarrow> bytes \<Rightarrow> event_envelope" where
  "demo_event seq event_id payload = (case encode_event demo_env ''s'' seq ''t'' event_id payload of Inr e \<Rightarrow> e)"

definition demo_genesis :: event_envelope where
  "demo_genesis = (case genesis_event demo_env ''s'' [7] of Inr e \<Rightarrow> e)"

lemma demo_event: "length event_id + length payload \<le> 900 \<Longrightarrow>
    encode_event demo_env ''s'' seq ''t'' event_id payload = Inr (demo_event seq event_id payload)"
  by (rule demo_encodes [of "''s''" event_id "''t''" payload seq]) (auto simp: demo_event_def)

lemma demo_genesis: "genesis_event demo_env ''s'' [7] = Inr demo_genesis"
  by (rule demo_encodes [of "''s''" "''genesis''" genesis_schema_id "[7]" 0])
    (auto simp: demo_genesis_def genesis_event_def genesis_schema_id_def)

lemma demo_names [simp]: "plain_stream ''s''" "identifier_ok ''s''" "identifier_ok ''t''" "identifier_ok ''e1''" "identifier_ok ''e2''"
  by code_simp+

definition new_store :: store where
  "new_store = snd (run demo_backend (create_stream_with_id demo_env ''s'' [7]) [])"

definition one_store :: store where
  "one_store = snd (run demo_backend (stream_append demo_env ''s'' ''t'' ''e1'' [1]) new_store)"

definition two_store :: store where
  "two_store = snd (run demo_backend (append_expected demo_env (ee_identity (demo_event 1 ''e1'' [1])) ''t'' ''e2'' [2]) one_store)"

lemma blank_empty: "blank_stream demo_env [] ''s''" "events_inv demo_env []"
  by (simp_all add: blank_stream_def events_inv_def certificates_def trim_listable_def st_wf_def)

lemma new_stream:
  "run demo_backend (create_stream_with_id demo_env ''s'' [7]) [] = (Some (Inr StreamCreated), new_store)"
  "rest_log demo_env new_store ''s'' 0" "length new_store \<le> 1" "holds_event demo_env new_store ''s'' 0 demo_genesis"
  "k \<noteq> log_raw ''s'' 0 \<Longrightarrow> st_get new_store k = None"
proof -
  note g = genesis_decodes [OF demo_genesis demo_env_ok demo_names(2)]
  have run: "run demo_backend (create_stream_with_id demo_env ''s'' [7]) [] =
      (Some (Inr StreamCreated), st_put (log_raw ''s'' 0) (stored_event (ee_encoded demo_genesis)) [])"
    using run_create_with_id [OF demo_names(1) blank_empty(2) demo_env_ok demo_genesis, of demo_backend] by simp
  then have store: "new_store = st_put (log_raw ''s'' 0) (stored_event (ee_encoded demo_genesis)) []"
    by (simp add: new_store_def)
  show "run demo_backend (create_stream_with_id demo_env ''s'' [7]) [] = (Some (Inr StreamCreated), new_store)"
    using run store by simp
  show "rest_log demo_env new_store ''s'' 0" unfolding store by (rule blank_put_genesis [OF blank_empty(1) g(1)])
  show "length new_store \<le> 1" unfolding store by simp
  show "st_get new_store k = None" if "k \<noteq> log_raw ''s'' 0" unfolding store using that by (simp del: st_put.simps)
  show "holds_event demo_env new_store ''s'' 0 demo_genesis"
    unfolding store using g(1) by (simp add: holds_event_def del: st_put.simps)
qed

lemma one_event:
  "run demo_backend (stream_append demo_env ''s'' ''t'' ''e1'' [1]) new_store =
    (Some (Inr (receipt_of ''s'' 1 ''e1'' (demo_event 1 ''e1'' [1]))), one_store)"
  "appended demo_env ''s'' 1 (demo_event 1 ''e1'' [1]) new_store one_store" "length one_store \<le> 3"
proof -
  have fuel: "fuel_for demo_env new_store 0" using new_stream(3) by (simp add: fuel_for_def)
  have enc: "encode_event demo_env ''s'' (0 + 1) ''t'' ''e1'' [1] = Inr (demo_event 1 ''e1'' [1])"
    using demo_event [of "''e1''" "[1]" 1] by simp
  have fresh: "fresh_id demo_env new_store ''s'' 0 ''e1''" by (simp add: fresh_id_def)
  obtain t where t: "run demo_backend (stream_append demo_env ''s'' ''t'' ''e1'' [1]) new_store =
      (Some (Inr (receipt_of ''s'' 1 ''e1'' (demo_event 1 ''e1'' [1]))), t)"
      "appended demo_env ''s'' 1 (demo_event 1 ''e1'' [1]) new_store t"
    using run_append [OF new_stream(2) fuel _ demo_env_ok demo_hints_inline demo_names(3,4) enc fresh, of demo_backend] by auto
  then have "one_store = t" by (simp add: one_store_def)
  then show "run demo_backend (stream_append demo_env ''s'' ''t'' ''e1'' [1]) new_store =
      (Some (Inr (receipt_of ''s'' 1 ''e1'' (demo_event 1 ''e1'' [1]))), one_store)"
    "appended demo_env ''s'' 1 (demo_event 1 ''e1'' [1]) new_store one_store" "length one_store \<le> 3"
    using t new_stream(3) by (auto simp: appended_def)
qed

lemma one_log: "rest_log demo_env one_store ''s'' 1" "holds_event demo_env one_store ''s'' 1 (demo_event 1 ''e1'' [1])"
  "fuel_for demo_env one_store 1"
  using one_event(2,3) by (simp_all add: appended_def fuel_for_def)

lemma two_events:
  "run demo_backend (append_expected demo_env (ee_identity (demo_event 1 ''e1'' [1])) ''t'' ''e2'' [2]) one_store =
    (Some (Inr (receipt_of ''s'' 2 ''e2'' (demo_event 2 ''e2'' [2]))), two_store)"
  "rest_log demo_env two_store ''s'' 2" "fuel_for demo_env two_store 2"
  "holds_event demo_env two_store ''s'' 2 (demo_event 2 ''e2'' [2])"
  "holds_event demo_env one_store ''s'' seq e \<Longrightarrow> seq \<le> 1 \<Longrightarrow> holds_event demo_env two_store ''s'' seq e"
proof -
  have enc: "encode_event demo_env ''s'' (1 + 1) ''t'' ''e2'' [2] = Inr (demo_event 2 ''e2'' [2])"
    using demo_event [of "''e2''" "[2]" 2] by simp
  have run: "run demo_backend (append_expected demo_env (ee_identity (demo_event 1 ''e1'' [1])) ''t'' ''e2'' [2]) one_store =
      (Some (Inr (receipt_of ''s'' 2 ''e2'' (demo_event 2 ''e2'' [2]))),
        st_put (log_raw ''s'' (1 + 1)) (stored_event (ee_encoded (demo_event 2 ''e2'' [2]))) one_store)"
    using run_expected [OF one_log(1,3) _ _ _ one_log(2) demo_env_ok demo_names(3,5) enc, of demo_backend] one_event(3) by simp
  then have store: "two_store = st_put (log_raw ''s'' (1 + 1)) (stored_event (ee_encoded (demo_event 2 ''e2'' [2]))) one_store"
    by (simp add: two_store_def)
  show "run demo_backend (append_expected demo_env (ee_identity (demo_event 1 ''e1'' [1])) ''t'' ''e2'' [2]) one_store =
      (Some (Inr (receipt_of ''s'' 2 ''e2'' (demo_event 2 ''e2'' [2]))), two_store)" using run store by simp
  have decode: "decode_event demo_env ''s'' (1 + 1) (ee_encoded (demo_event 2 ''e2'' [2])) = Some (demo_event 2 ''e2'' [2])"
    using decode_encode_event [OF enc demo_env_ok demo_names(2,3,5)] by simp
  have "rest_log demo_env two_store ''s'' (1 + 1)" unfolding store by (rule rest_put_event [OF one_log(1) _ decode]) simp
  then show "rest_log demo_env two_store ''s'' 2" by simp
  show "holds_event demo_env two_store ''s'' 2 (demo_event 2 ''e2'' [2])"
    unfolding store using decode by (simp add: holds_event_def)
  show "holds_event demo_env two_store ''s'' seq e" if "holds_event demo_env one_store ''s'' seq e" "seq \<le> 1"
    unfolding store using that by (auto simp: holds_event_def word_le_nat_alt)
  show "fuel_for demo_env two_store 2"
    using one_event(3) length_st_put [of "log_raw ''s'' (1 + 1)" "stored_event (ee_encoded (demo_event 2 ''e2'' [2]))" one_store]
    by (simp add: fuel_for_def store)
qed

text \<open>A caller that still names the first event is told of the second.\<close>

lemma stale_run:
  "run demo_backend (append_expected demo_env (ee_identity (demo_event 1 ''e1'' [1])) ''t'' ''e3'' [3]) two_store =
    (Some (Inl (failed (PositionConflict ''s'' 2 (ee_identity (demo_event 2 ''e2'' [2]))) NotAttempted)), two_store)"
proof -
  have enc: "encode_event demo_env ''s'' (1 + 1) ''t'' ''e3'' [3] = Inr (demo_event 2 ''e3'' [3])"
    "encode_event demo_env ''s'' 2 ''t'' ''e2'' [2] = Inr (demo_event 2 ''e2'' [2])"
    using demo_event [of "''e3''" "[3]" 2] demo_event [of "''e2''" "[2]" 2] by simp_all
  have first: "holds_event demo_env two_store ''s'' 1 (demo_event 1 ''e1'' [1])"
    using two_events(5) one_log(2) by blast
  have "identifier_ok ''e3''" by code_simp
  moreover have "ee_stable_event_id (demo_event 2 ''e2'' [2]) \<noteq> ''e3''" using encode_event_fields(1) [OF enc(2)] by simp
  ultimately show ?thesis
    using run_expected_stale [OF two_events(2,3) _ first demo_env_ok demo_names(3) _ enc(1) _, of "demo_event 2 ''e2'' [2]" demo_backend]
      two_events(4) by simp
qed

section \<open>A migration\<close>

abbreviation demo_entry :: migration_entry where
  "demo_entry \<equiv> \<lparr>me_seq = 1, me_schema_id = ''t'', me_stable_event_id = ''e1'', me_payload = [1]\<rparr>"

lemma copied_run:
  "\<exists>r s'. run demo_backend (migrate_log demo_env ''s'' [demo_entry]) new_store = (Some (Inr r), s')"
proof -
  let ?e = "demo_event 1 ''e1'' [1]"
  have enc: "encode_event demo_env ''s'' (0 + 1) ''t'' ''e1'' [1] = Inr ?e" using demo_event [of "''e1''" "[1]" 1] by simp
  have decode: "decode_event demo_env ''s'' (0 + 1) (ee_encoded ?e) = Some ?e"
    by (rule decode_encode_event [OF enc demo_env_ok demo_names(2-4)])
  let ?s1 = "st_put (log_raw ''s'' (0 + 1)) (stored_event (ee_encoded ?e)) new_store"
  have create: "run demo_backend (log_create demo_env (log_key ''s'' (0 + 1)) (ee_encoded ?e)) new_store = (Some (Inr ()), ?s1)"
    by (rule run_create_event [OF new_stream(2) _ demo_env_ok encode_event_fields(4) [OF enc]]) simp
  have rest: "rest_log demo_env ?s1 ''s'' 1" using rest_put_event [OF new_stream(2) _ decode] by simp
  have held: "holds_event demo_env ?s1 ''s'' 1 ?e" using decode by (simp add: holds_event_def)
  have fuel: "fuel_for demo_env s 1" if "length s \<le> 3" for s using that by (simp add: fuel_for_def)
  have small: "length ?s1 \<le> 2"
    using length_st_put [of "log_raw ''s'' (0 + 1)" "stored_event (ee_encoded ?e)" new_store] new_stream(3) by simp
  have genesis: "run demo_backend (verify_migration_genesis demo_env ''s'') new_store = (Some (Inr ()), new_store)"
    using run_log_get(1) [OF new_stream(2,4), of demo_backend] held_decodes [OF new_stream(4)]
    by (simp add: verify_migration_genesis_def run_bind)
  have written: "run demo_backend (write_entries demo_env ''s'' [demo_entry] [] None) new_store =
      (Some (Inr (d, Some ?e)), ?s1)" if "hex_decode (se_ext demo_env) (event_digest_hex demo_env ?e) = Some d" for d
    using create enc that by (simp add: expect_some_def run_bind run_try io_simps)
  obtain d where digest: "hex_decode (se_ext demo_env) (event_digest_hex demo_env ?e) = Some d"
    using demo_env_ok by (simp add: streams_env_ok_def event_digest_hex_def sha256_hex_def)
  obtain hint where hint: "hint_at demo_env ?s1 ''s'' hint" using rest by (auto simp: rest_log_def)
  obtain x s2 where first: "run demo_backend (stream_read demo_env ''s'' 0 256) ?s1 = (Some x, s2)"
      "tail_moved demo_env ''s'' 1 ?s1 s2" "replay_at_rest demo_env ?s1 ''s'' 1 hint 0 256 x"
    using run_read [OF rest fuel _ _ demo_env_ok demo_hints_inline _ hint, of 256 demo_backend 0] small by auto
  obtain events complete where page: "x = ReplayPage events complete" "page_from demo_env ?s1 ''s'' 0 events" "length events = 1"
    using first(3) by (auto simp: replay_at_rest_def)
  have seqs: "follow_page 0 events = Inr 1"
  proof -
    obtain e where "events = [e]" using page(3) by (auto simp: length_Suc_conv)
    then show ?thesis using page_from_seq [OF page(2)] by simp
  qed
  have rest2: "rest_log demo_env s2 ''s'' 1" "length s2 \<le> 3" using first(2) small by (auto simp: tail_moved_def)
  obtain hint2 where hint2: "hint_at demo_env s2 ''s'' hint2" using rest2(1) by (auto simp: rest_log_def)
  obtain s3 where second: "run demo_backend (stream_read demo_env ''s'' 1 256) s2 = (Some ReplayEmpty, s3)"
      "tail_moved demo_env ''s'' 1 s2 s3"
    using run_read [OF rest2(1) fuel _ _ demo_env_ok demo_hints_inline _ hint2, of 256 demo_backend 1] rest2(2)
    by (auto simp: replay_at_rest_def)
  have "\<exists>fuel. se_fuel demo_env = Suc (Suc fuel)" by (rule exI [of _ 98]) simp
  then obtain fuel where fuel_eq: "se_fuel demo_env = Suc (Suc fuel)" by blast
  have "\<exists>s'. run demo_backend (verify_loop (Suc (Suc fuel)) demo_env ''s'' 0) ?s1 = (Some (Inr 1), s') \<and> s' \<in> {s2, s3}"
    using first(1) second(1) seqs unfolding page(1) by (simp add: run_bind)
  moreover have "rest_log demo_env s ''s'' 1 \<and> holds_event demo_env s ''s'' 1 ?e" if "s \<in> {s2, s3}" for s
    using that first(2) second(2) held tail_moved_held [OF first(2)] tail_moved_held [OF second(2)] by (auto simp: tail_moved_def)
  ultimately obtain t where t: "run demo_backend (verify_loop (Suc (Suc fuel)) demo_env ''s'' 0) ?s1 = (Some (Inr 1), t)"
    "rest_log demo_env t ''s'' 1" "holds_event demo_env t ''s'' 1 ?e" by blast
  obtain t' where advance: "run demo_backend (advance_tail_hint demo_env ''s'' 1 ?e) t = (Some (), t')"
    using run_advance [OF t(2,3) demo_env_ok demo_hints_inline] by blast
  show ?thesis
    using genesis written [OF digest] t(1) advance
    by (simp add: migrate_log_def run_bind run_try Let_def fuel_eq del: write_entries.simps verify_loop.simps demo_fuel)
qed

section \<open>A cursor\<close>

lemma cursor_run:
  "\<exists>c s'. run demo_backend (advance_cursor demo_env ''s'' ''c'' 1) one_store = (Some (Inr c), s')"
proof -
  let ?e = "demo_event 1 ''e1'' [1]" and ?k = "''s/cursors/c''"
  have path: "ks_object_key streams_namespace ?k = Inr (raw_key streams_namespace ?k)" "unreserved ?k" "identifier_ok ''c''"
    by code_simp+
  let ?c = "\<lparr>cu_format_version = envelope_format_version, cu_stream_id = ''s'', cu_seq = 1, cu_event_id = ee_stable_event_id ?e\<rparr>"
  have enc: "encode_event demo_env ''s'' 1 ''t'' ''e1'' [1] = Inr ?e" using demo_event [of "''e1''" "[1]" 1] by simp
  obtain b where b: "cenc (se_cursor_json demo_env) ?c = Some b" "length b \<le> inline_max"
    using encode_event_fields(1) [OF enc]
    by (simp add: demo_env_def codec_of_def p_cursor_def p_iso_def p_pair_def p_u32_def p_string_def p_u64_def inline_max_def)
  have shape: "\<not> log_shaped ?k"
  proof -
    have "\<not> ascii_digit (CHR ''c'')" "last ?k = CHR ''c''" by code_simp+
    then show ?thesis using digit_last not_log_shaped unfolding log_shaped_def by metis
  qed
  have counter: "raw_key streams_namespace (ks_incarnation_key ?k) \<noteq> log_raw ''s'' seq" for seq
    by (simp add: log_raw_def ks_incarnation_key_def incarnation_root_def log_key_def)
  have tail: "?k \<noteq> tail_key ''s''" "ks_incarnation_key ?k \<noteq> tail_key ''s''"
    by (simp_all add: tail_key_def ks_incarnation_key_def incarnation_root_def)
  have absent: "st_get one_store (raw_key streams_namespace ?k) = None" "st_get one_store (raw_key streams_namespace (ks_incarnation_key ?k)) = None"
    using one_event(2) new_stream(5) raw_log_raw(1) [OF shape] counter tail by (simp_all add: appended_def)
  have "writable (se_ext demo_env) streams_namespace ?k 0 0 b one_store"
    using b(2) path absent by (simp add: writable_def ks_counter_def chunks_for_def slots_clean_def max_logical_bytes_eq inline_max_def)
  then have create: "\<exists>s'. run demo_backend (log_create demo_env ?k b) one_store = (Some (Inr ()), s')"
    using run_ks_create [of "se_ext demo_env" streams_namespace ?k 0 b one_store "se_ids demo_env" demo_backend] absent demo_env_ok
    by (simp add: log_create_def streams_env_ok_def ids_ok_def)
  have read: "run demo_backend (log_get_with_etag demo_env ?k) one_store = (Some (Inr None), one_store)"
    using path absent by (simp add: log_get_with_etag_def ks_get_with_etag_def run_bind io_simps)
  have "\<exists>fuel. se_fuel demo_env = Suc fuel" by (rule exI [of _ 99]) simp
  then obtain fuel where fuel: "se_fuel demo_env = Suc fuel" by blast
  show ?thesis
    using run_log_get(1) [OF one_log(1,2), of demo_backend] held_decodes [OF one_log(2)] create read b(1) path(3)
    by (auto simp: advance_cursor_def cursor_key_def validate_ok fuel expect_some_def io_map_err_def run_bind run_try io_simps Let_def
        simp del: demo_fuel)
qed

end
