(* ===== verification/Stream_Theorems.thy ===== *)
theory Stream_Theorems
  imports Stream_Demo
begin

text \<open>The properties of the event streams, each with a witness on the concrete stream of
  \<open>Stream_Demo\<close>.\<close>

section \<open>Any number of clients\<close>



lemma demo_invs [simp]: "events_inv demo_env []" "events_inv demo_env new_store" "events_inv demo_env one_store" "events_inv demo_env two_store"
  using blank_empty(2) new_stream(2) one_log(1) two_events(2) by (simp_all add: rest_log_def)

lemma held_stored: "holds_event E s stream seq e \<Longrightarrow> st_get s (log_raw stream seq) = Some (stored_event (ee_encoded e))"
  using decode_event_identity(3) by (fastforce simp: holds_event_def)




section \<open>One client among others\<close>

text \<open>C8: An append that returns a receipt has its event in the store, at the position of the receipt,
  with the caller's identifier, schema and payload, whatever the other clients of the streams do
  meanwhile: in a lost-response retry as in a fresh landing.\<close>

theorem acknowledged_appends_are_stored:
  assumes "env_run (events_rely E) B (stream_append E stream schema event_id payload) s h (Inr r) s'"
    and "streams_env_ok E" "events_inv E s" "identifier_ok stream" "identifier_ok schema" "identifier_ok event_id"
  shows "\<exists>e. holds_event E s' stream (ar_seq r) e \<and> ee_identity e = receipt_ref r \<and>
    ar_stream_id r = stream \<and> ar_stable_event_id r = event_id \<and> ee_schema_id e = schema \<and> ee_payload e = payload"
  using events_rg.t_env_run [OF t_append [OF assms(2,4-6)] assms(1,3)]
  unfolding acknowledged_def by blast

lemma acknowledged_appends_are_stored_witness:
  "\<exists>e. holds_event demo_env one_store ''s'' 1 e \<and> ee_payload e = [1]"
proof -
  have "env_run (events_rely demo_env) demo_backend (stream_append demo_env ''s'' ''t'' ''e1'' [1]) new_store
      (hist demo_backend (stream_append demo_env ''s'' ''t'' ''e1'' [1]) new_store)
      (Inr (receipt_of ''s'' 1 ''e1'' (demo_event 1 ''e1'' [1]))) one_store"
    by (rule events_rg.t_hist [OF one_event(1) keeps_append]) simp_all
  from acknowledged_appends_are_stored [OF this] show ?thesis by (auto simp: receipt_of_def)
qed

text \<open>C9: What a conditional append tells is true of the store, under any interference.  A receipt,
  whether returned or carried by an error, names an event that is stored right after the
  predecessor.  A mismatch, an occupied position and a hole come with the stored event that shows
  them.\<close>

theorem expected_append_tells_the_truth:
  assumes "env_run (events_rely E) B (append_expected E p schema event_id payload) s h x s'"
    and "streams_env_ok E" "events_inv E s"
  shows "expected_told E p schema event_id payload x s'"
  using events_rg.t_env_run [OF t_expected [OF assms(2)] assms(1,3)] by simp

lemma expected_append_tells_the_truth_witness:
  "acknowledged demo_env ''s'' ''t'' ''e2'' [2] (receipt_of ''s'' 2 ''e2'' (demo_event 2 ''e2'' [2])) two_store \<and>
   names_event demo_env two_store (ee_identity (demo_event 2 ''e2'' [2]))"
proof -
  have "er_stream_id (ee_identity (demo_event 1 ''e1'' [1])) = ''s''"
    using encode_event_fields(1) [OF demo_event [of "''e1''" "[1]" 1]] by simp
  moreover have "env_run (events_rely demo_env) demo_backend
      (append_expected demo_env (ee_identity (demo_event 1 ''e1'' [1])) ''t'' ''e2'' [2]) one_store
      (hist demo_backend (append_expected demo_env (ee_identity (demo_event 1 ''e1'' [1])) ''t'' ''e2'' [2]) one_store)
      (Inr (receipt_of ''s'' 2 ''e2'' (demo_event 2 ''e2'' [2]))) two_store"
    by (rule events_rg.t_hist [OF two_events(1) keeps_expected]) simp_all
  moreover have "env_run (events_rely demo_env) demo_backend
      (append_expected demo_env (ee_identity (demo_event 1 ''e1'' [1])) ''t'' ''e3'' [3]) two_store
      (hist demo_backend (append_expected demo_env (ee_identity (demo_event 1 ''e1'' [1])) ''t'' ''e3'' [3]) two_store)
      (Inl (failed (PositionConflict ''s'' 2 (ee_identity (demo_event 2 ''e2'' [2]))) NotAttempted)) two_store"
    by (rule events_rg.t_hist [OF stale_run keeps_expected]) simp_all
  ultimately show ?thesis
    using expected_append_tells_the_truth [of demo_env demo_backend] by (fastforce simp: expected_committed_def)
qed

text \<open>C10: A conditional append that fails with \<open>NotAttempted\<close> has only read: no request of it could
  change the store, whatever its environment does.\<close>

theorem unattempted_appends_write_nothing:
  assumes "env_run R B (append_expected E p schema event_id payload) s h (Inl err) s'" "ae_effect err = NotAttempted"
  shows "\<forall>(s1, q, r, s2)\<in>set h. is_read q"
  using expected_not_attempted [OF assms(1)] assms(2) by (simp add: not_attempted_def)

lemma unattempted_appends_write_nothing_witness:
  "list_all (\<lambda>(s1, q, r, s2). is_read q) (hist demo_backend
    (append_expected demo_env (ee_identity (demo_event 1 ''e1'' [1])) ''t'' ''e3'' [3]) two_store)"
  unfolding list_all_iff
  by (rule unattempted_appends_write_nothing [OF run_env_run [OF stale_run, where R = "(=)"]]) (simp_all add: failed_def)




text \<open>C24: A strict range read that succeeds holds exactly the positions after the first bound up to
  the second, or the first \<open>limit\<close> of them, without a gap; it says that it reached the end exactly
  when it did.  A missing event or stream that it reports was absent at the start of the call.\<close>

theorem strict_ranges_are_complete:
  assumes "env_run (events_rely E) B (read_range E stream after through_seq limit) s h x s'" "events_inv E s" "limit < 2 ^ 64"
  shows "range_told E s stream after through_seq limit x s'"
proof -
  have "since E s s" using assms(2) by (simp add: since_def events_rely_def)
  then show ?thesis using events_rg.t_env_run [OF t_read_range [OF assms(3)] assms(1,2)] by blast
qed

lemma strict_ranges_are_complete_witness:
  "\<exists>page. run demo_backend (read_range demo_env ''s'' 0 2 10) two_store = (Some (Inr page), two_store) \<and>
    page_from demo_env two_store ''s'' 0 (rp_events page) \<and> length (rp_events page) = 2 \<and> rp_reached_end page"
proof -
  obtain page where page: "run demo_backend (read_range demo_env ''s'' 0 2 10) two_store = (Some (Inr page), two_store)"
    using run_range [OF two_events(2,3), of 0 2 10 demo_backend] by auto
  have "env_run (events_rely demo_env) demo_backend (read_range demo_env ''s'' 0 2 10) two_store
      (hist demo_backend (read_range demo_env ''s'' 0 2 10) two_store) (Inr page) two_store"
    by (rule events_rg.t_hist [OF page keeps_strict(2)]) simp_all
  from strict_ranges_are_complete [OF this] page show ?thesis by (simp add: range_told_def)
qed

text \<open>C30: A migration that returns a receipt has every one of its entries in the store, at its own
  position, with its identifier, schema and payload; the positions are 1 to the count of the receipt.\<close>

theorem migrations_store_every_entry:
  assumes "env_run (events_rely E) B (migrate_log E stream entries) s h (Inr r) s'" "streams_env_ok E" "events_inv E s"
    and "identifier_ok stream" "\<forall>entry\<in>set entries. identifier_ok (me_schema_id entry) \<and> identifier_ok (me_stable_event_id entry)"
  shows "mr_count r = word_of_nat (length entries) \<and>
    map me_seq (sort_key me_seq entries) = map (\<lambda>i. word_of_nat i + 1) [0..<length entries] \<and>
    (\<forall>entry\<in>set entries. entry_stored E stream entry s')"
  using events_rg.t_env_run [OF t_migrate [OF assms(2,4,5)] assms(1,3)] by (simp add: migrated_def)

lemma migrations_store_every_entry_witness:
  "\<exists>r s'. run demo_backend (migrate_log demo_env ''s'' [demo_entry]) new_store = (Some (Inr r), s') \<and>
    entry_stored demo_env ''s'' demo_entry s' \<and> mr_count r = 1"
proof -
  obtain r s' where run: "run demo_backend (migrate_log demo_env ''s'' [demo_entry]) new_store = (Some (Inr r), s')"
    using copied_run by blast
  have "env_run (events_rely demo_env) demo_backend (migrate_log demo_env ''s'' [demo_entry]) new_store
      (hist demo_backend (migrate_log demo_env ''s'' [demo_entry]) new_store) (Inr r) s'"
    by (rule events_rg.t_hist [OF run keeps_migrate]) simp_all
  from migrations_store_every_entry [OF this] run show ?thesis by auto
qed




section \<open>One client alone\<close>

text \<open>Creation under a given identifier: the first call writes the genesis, a repetition with the
  same configuration finds it, any other configuration is refused and changes nothing.\<close>

theorem streams_are_created_once:
  assumes "plain_stream stream" "events_inv E s" "streams_env_ok E" "genesis_event E stream config = Inr e"
  shows "run B (create_stream_with_id E stream config) s = (case st_get s (log_raw stream 0) of
      None \<Rightarrow> (Some (Inr StreamCreated), st_put (log_raw stream 0) (stored_event (ee_encoded e)) s)
    | Some b \<Rightarrow> (Some (if b = stored_event (ee_encoded e) then Inr StreamExisting
        else Inl (ConfigurationConflict stream)), s))"
  by (rule run_create_with_id [OF assms])

lemma streams_are_created_once_witness:
  "run demo_backend (create_stream_with_id demo_env ''s'' [7]) new_store = (Some (Inr StreamExisting), new_store)"
  using streams_are_created_once [OF demo_names(1) demo_invs(2) demo_env_ok demo_genesis, of demo_backend]
  by (simp add: held_stored [OF new_stream(4)])

text \<open>C25: On a dense log at rest an append succeeds: the receipt names the next position, the event is
  stored there, the log stays dense, and only that event and the tail hint have changed.\<close>

theorem appends_at_rest_succeed:
  assumes "rest_log E s stream n" "fuel_for E s n" "n \<noteq> - 1" "streams_env_ok E" "hints_inline E"
    and "identifier_ok schema" "identifier_ok event_id" "encode_event E stream (n + 1) schema event_id payload = Inr e"
    and "fresh_id E s stream n event_id"
  shows "\<exists>s'. run B (stream_append E stream schema event_id payload) s = (Some (Inr (receipt_of stream (n + 1) event_id e)), s') \<and>
    appended E stream (n + 1) e s s'"
  by (rule run_append [OF assms])

lemma appends_at_rest_succeed_witness:
  "\<exists>s'. run demo_backend (stream_append demo_env ''s'' ''t'' ''e1'' [1]) new_store =
      (Some (Inr (receipt_of ''s'' 1 ''e1'' (demo_event 1 ''e1'' [1]))), s') \<and> rest_log demo_env s' ''s'' 1"
proof -
  have fuel: "fuel_for demo_env new_store 0" using new_stream(3) by (simp add: fuel_for_def)
  have enc: "encode_event demo_env ''s'' (0 + 1) ''t'' ''e1'' [1] = Inr (demo_event 1 ''e1'' [1])"
    using demo_event [of "''e1''" "[1]" 1] by simp
  have fresh: "fresh_id demo_env new_store ''s'' 0 ''e1''" by (simp add: fresh_id_def)
  show ?thesis
    using appends_at_rest_succeed [OF new_stream(2) fuel _ demo_env_ok demo_hints_inline demo_names(3,4) enc fresh, of demo_backend]
    by (auto simp: appended_def)
qed

text \<open>C27: A retry of the last append returns the receipt of the first landing and writes no second
  event: the identifier lies inside the window of the scan.\<close>

theorem retried_appends_converge:
  assumes "rest_log E s stream n" "fuel_for E s n" "n \<noteq> - 1" "streams_env_ok E" "hints_inline E" "1 \<le> n"
    and "holds_event E s stream n e" "ee_stable_event_id e = event_id" "ee_schema_id e = schema" "ee_payload e = payload"
    and "\<forall>seq e'. seq < n \<longrightarrow> holds_event E s stream seq e' \<longrightarrow> ee_stable_event_id e' \<noteq> event_id"
  shows "\<exists>s'. run B (stream_append E stream schema event_id payload) s = (Some (Inr (receipt_of stream n event_id e)), s') \<and>
    rest_log E s' stream n \<and> (\<forall>k. k \<noteq> raw_key streams_namespace (tail_key stream) \<longrightarrow> st_get s' k = st_get s k)"
  using run_append_retry [OF assms(1-10), of B] assms(11) unfolding tail_moved_def by blast

lemma retried_appends_converge_witness:
  "\<exists>s'. run demo_backend (stream_append demo_env ''s'' ''t'' ''e1'' [1]) one_store =
      (Some (Inr (receipt_of ''s'' 1 ''e1'' (demo_event 1 ''e1'' [1]))), s') \<and> rest_log demo_env s' ''s'' 1"
proof -
  note e = encode_event_fields [OF demo_event [of "''e1''" "[1]" 1]]
  have g: "ee_stable_event_id e' \<noteq> ''e1''" if "seq < 1" "holds_event demo_env one_store ''s'' seq e'" for seq e'
  proof -
    have "seq = 0" using that(1) by (simp add: word_less_nat_alt unat_eq_0)
    moreover have "holds_event demo_env one_store ''s'' 0 demo_genesis"
      using new_stream(4) one_event(2) raw_log_raw(1) [OF tail_not_log(1), of "''s''", symmetric] by (simp add: appended_def holds_event_def)
    ultimately have "e' = demo_genesis" using that(2) holds_unique by blast
    then show ?thesis using encode_event_fields(1) [of demo_env "''s''" 0 genesis_schema_id "''genesis''" "[7]" demo_genesis] demo_genesis
      by (simp add: genesis_event_def)
  qed
  show ?thesis
    using retried_appends_converge [OF one_log(1,3) _ demo_env_ok demo_hints_inline _ one_log(2), of "''e1''" "''t''" "[1]" demo_backend] e g
    by auto
qed

text \<open>C26: A caller that names the last event of a dense log at rest, and no other, writes the next one:
  the conditional append succeeds and the new event is all that changes.\<close>

theorem named_successors_are_written:
  assumes "rest_log E s stream n" "fuel_for E s n" "Suc (length s) < se_fuel E * 1000" "unat n + 1001 \<le> se_fuel E * 1000"
    and "n \<noteq> - 1" "holds_event E s stream n p" "streams_env_ok E" "identifier_ok schema" "identifier_ok event_id"
    and "encode_event E stream (n + 1) schema event_id payload = Inr e"
  shows "run B (append_expected E (ee_identity p) schema event_id payload) s =
      (Some (Inr (receipt_of stream (n + 1) event_id e)), st_put (log_raw stream (n + 1)) (stored_event (ee_encoded e)) s)"
  by (rule run_expected [OF assms])

lemma named_successors_are_written_witness:
  "fst (run demo_backend (append_expected demo_env (ee_identity (demo_event 1 ''e1'' [1])) ''t'' ''e2'' [2]) one_store) =
    Some (Inr (receipt_of ''s'' 2 ''e2'' (demo_event 2 ''e2'' [2])))"
proof -
  have enc: "encode_event demo_env ''s'' (1 + 1) ''t'' ''e2'' [2] = Inr (demo_event 2 ''e2'' [2])"
    using demo_event [of "''e2''" "[2]" 2] by simp
  show ?thesis
    using named_successors_are_written [OF one_log(1,3) _ _ _ one_log(2) demo_env_ok demo_names(3,5) enc, of demo_backend] one_event(3)
    by simp
qed

text \<open>C28: On a dense log at rest a replay ends and returns exactly the next events up to its limit; it
  claims to be complete exactly when it reaches the end and the tail hint names that end; it leaves
  the log as it was.\<close>

theorem replays_at_rest_return_the_log:
  assumes "rest_log E s stream n" "fuel_for E s n" "n \<noteq> - 1" "64 < se_fuel E" "streams_env_ok E" "hints_inline E"
    and "0 < limit" "hint_at E s stream hint"
  shows "\<exists>x s'. run B (stream_read E stream after limit) s = (Some x, s') \<and> tail_moved E stream n s s' \<and>
    (if n \<le> after then x = ReplayEmpty
     else \<exists>events. x = ReplayPage events (unat n - unat after \<le> limit \<and>
         (case hint of None \<Rightarrow> False | Some h \<Rightarrow> th_highest_validated_dense_seq h = n)) \<and>
       page_from E s stream after events \<and> length events = min limit (unat n - unat after))"
  using run_read [OF assms] by (simp add: replay_at_rest_def)

lemma replays_at_rest_return_the_log_witness:
  "\<exists>s'. run demo_backend (stream_read demo_env ''s'' 2 5) two_store = (Some ReplayEmpty, s')"
proof -
  obtain hint where hint: "hint_at demo_env two_store ''s'' hint" using two_events(2) by (auto simp: rest_log_def)
  show ?thesis
    using replays_at_rest_return_the_log [OF two_events(2,3) _ _ demo_env_ok demo_hints_inline _ hint, of 5 demo_backend 2] by auto
qed

text \<open>C29: The recovery of a tail hint ends on every dense log below the largest position: 65 units of
  fuel bound the exponential probe from any start, and the log is left as it was.\<close>

theorem hint_recovery_ends:
  assumes "rest_log E s stream n" "n \<noteq> - 1" "64 < se_fuel E" "streams_env_ok E" "hints_inline E"
  shows "\<exists>s'. run B (recover_tail_hint E stream start) s = (Some (), s') \<and> tail_moved E stream n s s'"
  by (rule run_recover_any [OF assms])

lemma hint_recovery_ends_witness:
  "\<exists>s'. run demo_backend (recover_tail_hint demo_env ''s'' 0) two_store = (Some (), s') \<and> rest_log demo_env s' ''s'' 2"
  using hint_recovery_ends [OF two_events(2) _ _ demo_env_ok demo_hints_inline, of demo_backend 0] by (auto simp: tail_moved_def)

end
