(* ===== verification/Stream_Limits.thy ===== *)
theory Stream_Limits
  imports Stream_Life
begin

text \<open>
  Boundary cases of the code that the properties exclude by hypothesis: the recovery of a tail hint
  when the last position is taken, and keys that two owners share.
\<close>

section \<open>The last position\<close>

text \<open>An event at \<open>u64::MAX\<close> keeps the exponential probe at that position for ever: no amount of fuel
  is enough.\<close>

lemma saturated_probe:
  fixes start span :: u64
  assumes "saturating_add start span = - 1"
  shows "saturating_add start (saturating_mul span 2) = - 1"
proof -
  have "2 ^ 64 - 1 \<le> unat start + unat span"
    using arg_cong [OF assms, of unat] unat_saturating(1) [of start span] unat_max64 by simp
  then have "unat (saturating_add start (saturating_mul span 2)) = 2 ^ 64 - 1"
    using unat_saturating(1) [of start "saturating_mul span 2"] unat_saturating(2) [of span 2] by (simp add: min_def)
  then have "unat (saturating_add start (saturating_mul span 2)) = unat (- 1 :: u64)" by (simp only: unat_max64)
  then show ?thesis by (rule unsigned_word_eqI)
qed

lemma probe_never_ends:
  assumes "plain_stream stream" "st_get s (log_raw stream (- 1)) = Some (stored_event v)"
    and "start \<noteq> - 1" "saturating_add start span = - 1"
  shows "run B (probe_loop fuel E stream start low span) s = (None, s)"
  using assms(4)
proof (induction fuel arbitrary: low span)
  case (Suc fuel)
  then show ?case
    using run_get_stored(1) [OF assms(1,2), of B E] assms(3) saturated_probe [OF Suc.prems]
    by (simp add: Let_def run_bind)
qed simp

lemma recovery_never_ends:
  assumes "plain_stream stream" "st_get s (log_raw stream (- 1)) = Some (stored_event v)"
    and "st_get s (log_raw stream (- 2)) = Some (stored_event u)"
  shows "run B (recover_tail_hint E stream (- 2)) s = (None, s)"
proof -
  have "saturating_add (- 2) 1 = (- 1 :: u64)" "(- 2 :: u64) \<noteq> - 1" by (simp_all add: saturating_add_def)
  then show ?thesis
    using run_get_stored(1) [OF assms(1,3), of B E] probe_never_ends [OF assms(1,2), of "- 2" 1 B "se_fuel E" E "- 2"]
    by (simp add: recover_tail_hint_def run_bind)
qed

section \<open>Shared keys\<close>

text \<open>The cursor of a consumer whose name is a log suffix is a log object of another stream, and two
  nested namespaces share objects.\<close>

lemma cursor_meets_log:
  "cursor_key stream (''log/'' @ zero_padded seq) = Inr (log_key (stream @ ''/cursors'') seq)"
proof -
  have "identifier_ok ''log''" by code_simp
  then have "identifier_ok (''log'' @ CHR ''/'' # zero_padded seq)"
    by (rule identifier_append) (simp_all add: segment_digits)
  then have "identifier_ok (''log/'' @ zero_padded seq)" by simp
  then show ?thesis by (simp add: cursor_key_def validate_ok log_key_def)
qed

lemma namespaces_overlap: "raw_key a (b @ ''/'' @ k) = raw_key (a @ ''/'' @ b) k"
  by (simp add: raw_key_def)

end
