(* ===== verification/Sdk_Client.thy ===== *)
theory Sdk_Client
  imports S3_Io
begin

text \<open>
  The object store client (\<open>crates/yeetz-sdk-s3/src/store.rs\<close>) and its configuration
  (\<open>config.rs\<close>) over the two libraries it calls: the \<open>object_store\<close> crate (record \<open>store_api\<close>) and the
  AWS client (record \<open>aws_api\<close>), both acting on a world \<open>'w\<close>.  Log lines are left out; the texts of
  the libraries' errors are data.
\<close>

section \<open>Configuration\<close>

record s3_config =
  cf_bucket :: string
  cf_region :: string
  cf_endpoint :: "string option"
  cf_access_key_id :: string
  cf_secret_access_key :: string
  cf_allow_insecure_http :: bool

definition config_custom_with_insecure_http ::
  "string \<Rightarrow> string \<Rightarrow> string \<Rightarrow> string \<Rightarrow> string \<Rightarrow> bool \<Rightarrow> s3_config" where
  "config_custom_with_insecure_http bucket region endpoint access_key_id secret_access_key allow =
    \<lparr>cf_bucket = bucket, cf_region = region, cf_endpoint = Some endpoint, cf_access_key_id = access_key_id,
     cf_secret_access_key = secret_access_key, cf_allow_insecure_http = allow\<rparr>"

definition config_custom :: "string \<Rightarrow> string \<Rightarrow> string \<Rightarrow> string \<Rightarrow> string \<Rightarrow> s3_config" where
  "config_custom bucket region endpoint access_key_id secret_access_key =
    \<lparr>cf_bucket = bucket, cf_region = region, cf_endpoint = Some endpoint, cf_access_key_id = access_key_id,
     cf_secret_access_key = secret_access_key, cf_allow_insecure_http = False\<rparr>"

definition config_aws :: "string \<Rightarrow> string \<Rightarrow> string \<Rightarrow> string \<Rightarrow> s3_config" where
  "config_aws bucket region access_key_id secret_access_key =
    \<lparr>cf_bucket = bucket, cf_region = region, cf_endpoint = None, cf_access_key_id = access_key_id,
     cf_secret_access_key = secret_access_key, cf_allow_insecure_http = False\<rparr>"

definition ascii_lower :: "char \<Rightarrow> char" where
  "ascii_lower c = (if CHR ''A'' \<le> c \<and> c \<le> CHR ''Z'' then char_of (of_char c + (32 :: nat)) else c)"

definition eq_ignore_ascii_case :: "string \<Rightarrow> string \<Rightarrow> bool" where
  "eq_ignore_ascii_case a b \<longleftrightarrow> map ascii_lower a = map ascii_lower b"

text \<open>\<open>env\<close> is \<open>std::env::var(..).ok()\<close>.\<close>

definition config_from_env :: "(string \<Rightarrow> string option) \<Rightarrow> string + s3_config" where
  "config_from_env env =
    try_res (ok_or (env ''S3_BUCKET'') ''S3_BUCKET not set'') (\<lambda>bucket.
    let region = (case env ''S3_REGION'' of None \<Rightarrow> ''us-east-1'' | Some r \<Rightarrow> r) in
    try_res (ok_or (env ''S3_ACCESS_KEY_ID'') ''S3_ACCESS_KEY_ID not set'') (\<lambda>access_key.
    try_res (ok_or (env ''S3_SECRET_ACCESS_KEY'') ''S3_SECRET_ACCESS_KEY not set'') (\<lambda>secret_key.
    let allow_insecure_http = (case env ''S3_ALLOW_INSECURE_HTTP'' of None \<Rightarrow> False
          | Some v \<Rightarrow> v = ''1'' \<or> eq_ignore_ascii_case v ''true'') in
    case env ''S3_ENDPOINT'' of
      Some endpoint \<Rightarrow> Inr ((config_custom bucket region endpoint access_key secret_key)
        \<lparr>cf_allow_insecure_http := allow_insecure_http\<rparr>)
    | None \<Rightarrow> Inr (config_aws bucket region access_key secret_key))))"

text \<open>The TOML parser is a parameter; so is reading the file.\<close>

definition config_from_toml_str :: "(string \<Rightarrow> string + s3_config) \<Rightarrow> string \<Rightarrow> string + s3_config" where
  "config_from_toml_str from_toml source =
    map_err (from_toml source) (\<lambda>err. ''failed to parse S3 object-store config: '' @ err)"

definition config_from_toml_file ::
  "(string \<Rightarrow> string + s3_config) \<Rightarrow> string \<Rightarrow> string + string \<Rightarrow> string + s3_config" where
  "config_from_toml_file from_toml path file =
    try_res (map_err file (\<lambda>err. ''failed to read S3 object-store config '' @ path @ '': '' @ err)) (\<lambda>source.
    map_err (config_from_toml_str from_toml source) (\<lambda>err. err @ '' ('' @ path @ '')''))"

text \<open>The \<open>Debug\<close> form: the fields and what is printed for them.\<close>

datatype debug_value = DebugText string | DebugOption "string option" | DebugBool bool

definition config_debug :: "s3_config \<Rightarrow> (string \<times> debug_value) list" where
  "config_debug c =
    [(''bucket'', DebugText (cf_bucket c)),
     (''region'', DebugText (cf_region c)),
     (''endpoint'', DebugOption (cf_endpoint c)),
     (''allow_insecure_http'', DebugBool (cf_allow_insecure_http c)),
     (''access_key_id'', DebugText ''<redacted>''),
     (''secret_access_key'', DebugText ''<redacted>'')]"

definition s3_env_forwarding :: "(string \<Rightarrow> string option) \<Rightarrow> (string \<times> string) list" where
  "s3_env_forwarding env = List.map_filter (\<lambda>k. map_option (\<lambda>v. (k, v)) (env k))
    [''S3_BUCKET'', ''S3_REGION'', ''S3_ENDPOINT'', ''S3_ACCESS_KEY_ID'', ''S3_SECRET_ACCESS_KEY'',
     ''S3_ALLOW_INSECURE_HTTP'']"

section \<open>The libraries\<close>

text \<open>The variants of \<open>object_store::Error\<close> the client tells apart, with the two renderings of an
  error.\<close>

datatype error_kind = KindNotFound | KindNotModified | KindPrecondition | KindAlreadyExists | KindOther

record provider_error =
  pe_kind :: error_kind
  pe_display :: string
  pe_debug :: string

datatype put_mode = PutOverwrite | PutCreate | PutUpdate etag

text \<open>The body of a \<open>GetResult\<close> is the stream of its chunks; \<open>bytes()\<close> collects it.\<close>

record get_result =
  gr_size :: nat
  gr_etag :: "etag option"
  gr_content_type :: "string option"
  gr_chunks :: "(provider_error + bytes) list"

record get_options =
  go_head :: bool
  go_if_none_match :: "etag option"

record 'w store_api =
  api_path :: "string \<Rightarrow> string"
  api_put :: "string \<Rightarrow> bytes \<Rightarrow> put_mode \<Rightarrow> string option \<Rightarrow> 'w \<Rightarrow> (provider_error + etag option) \<times> 'w"
  api_get :: "string \<Rightarrow> get_options \<Rightarrow> 'w \<Rightarrow> (provider_error + get_result) \<times> 'w"
  api_list :: "string \<Rightarrow> string option \<Rightarrow> 'w \<Rightarrow> (provider_error + string \<times> nat) list \<times> 'w"
  api_delete :: "string \<Rightarrow> 'w \<Rightarrow> (provider_error + unit) \<times> 'w"
  api_begin :: "string \<Rightarrow> 'w \<Rightarrow> (provider_error + nat) \<times> 'w"
  api_put_part :: "nat \<Rightarrow> bytes \<Rightarrow> 'w \<Rightarrow> (provider_error + unit) \<times> 'w"
  api_complete :: "nat \<Rightarrow> 'w \<Rightarrow> (provider_error + unit) \<times> 'w"
  api_abort :: "nat \<Rightarrow> 'w \<Rightarrow> (provider_error + unit) \<times> 'w"

text \<open>A failed AWS request: its service error, if any, and its renderings (of the service error where
  there is one and the client prints that).\<close>

record aws_failure =
  af_error :: sdk_error
  af_display :: string
  af_debug :: string

record 'w aws_api =
  aws_delete_object :: "string \<Rightarrow> etag \<Rightarrow> 'w \<Rightarrow> (aws_failure + unit) \<times> 'w"
  aws_identifiers :: "string list \<Rightarrow> string + unit"
  aws_delete_objects :: "string list \<Rightarrow> 'w \<Rightarrow> (sdk_error + string option list \<times> error_entry list) \<times> 'w"
  aws_create_multipart :: "string \<Rightarrow> string \<Rightarrow> 'w \<Rightarrow> (string + string option) \<times> 'w"
  aws_presigning :: "nat \<Rightarrow> string + unit"
  aws_presign_part :: "string \<Rightarrow> string \<Rightarrow> int \<Rightarrow> nat \<Rightarrow> 'w \<Rightarrow> (string + string + string) \<times> 'w"
  aws_complete_multipart :: "string \<Rightarrow> string \<Rightarrow> (int \<times> etag) list \<Rightarrow> etag option \<Rightarrow> 'w
    \<Rightarrow> (aws_failure + string option) \<times> 'w"
  aws_abort_multipart :: "string \<Rightarrow> string \<Rightarrow> 'w \<Rightarrow> (string + unit) \<times> 'w"
  aws_upload_part :: "string \<Rightarrow> string \<Rightarrow> int \<Rightarrow> bytes \<Rightarrow> 'w \<Rightarrow> (aws_failure + etag option) \<times> 'w"
  aws_get_part :: "string \<Rightarrow> int \<Rightarrow> 'w \<Rightarrow> (aws_failure + (string + bytes)) \<times> 'w"
  aws_list_uploads :: "string \<Rightarrow> nat \<Rightarrow> 'w
    \<Rightarrow> (aws_failure + bool option \<times> (string option \<times> string option) list) \<times> 'w"

type_synonym 'w signer = "string \<Rightarrow> string \<Rightarrow> nat \<Rightarrow> 'w \<Rightarrow> (string + string) \<times> 'w"

record 'w store_client =
  sc_store :: "'w store_api"
  sc_bucket :: string
  sc_signer :: "'w signer option"
  sc_aws :: "'w aws_api option"

definition provider_error_text :: "string \<Rightarrow> string \<Rightarrow> string" where
  "provider_error_text display debug =
    (if debug = display \<or> sublist display debug then debug else display @ '' | debug='' @ debug)"

text \<open>\<open>build_store\<close> is the builder of the S3 store, told whether plain HTTP is allowed; its result
  also signs.\<close>

definition client_new ::
  "(s3_config \<Rightarrow> bool \<Rightarrow> string + 'w store_api \<times> 'w signer) \<Rightarrow> (s3_config \<Rightarrow> 'w aws_api) \<Rightarrow> s3_config
    \<Rightarrow> store_error + 'w store_client" where
  "client_new build_store build_aws config =
    (let http = (case cf_endpoint config of None \<Rightarrow> False | Some endpoint \<Rightarrow> prefix ''http://'' endpoint) in
     if http \<and> \<not> cf_allow_insecure_http config
     then Inl (ConfigError (''HTTP endpoint '' @ [CHR 0x27] @ the (cf_endpoint config) @ [CHR 0x27] @
       '' requires allow_insecure_http=true (or S3_ALLOW_INSECURE_HTTP=true) - refusing to send credentials over cleartext''))
     else try_res (map_err (build_store config http) ConfigError) (\<lambda>(store, signer).
       Inr \<lparr>sc_store = store, sc_bucket = cf_bucket config, sc_signer = Some signer,
         sc_aws = Some (build_aws config)\<rparr>))"

definition client_in_memory :: "'w store_api \<Rightarrow> string \<Rightarrow> 'w store_client" where
  "client_in_memory memory bucket = \<lparr>sc_store = memory, sc_bucket = bucket, sc_signer = None, sc_aws = None\<rparr>"

section \<open>Objects\<close>

definition st_map :: "('e + 'a) \<times> 'w \<Rightarrow> ('e \<Rightarrow> 'f) \<Rightarrow> ('a \<Rightarrow> 'f + 'b) \<Rightarrow> ('f + 'b) \<times> 'w" where
  "st_map x on_error f = (case x of (r, w) \<Rightarrow> (try_res (map_err r on_error) f, w))"

definition client_put ::
  "'w store_client \<Rightarrow> string \<Rightarrow> bytes \<Rightarrow> string option \<Rightarrow> 'w \<Rightarrow> (store_error + unit) \<times> 'w" where
  "client_put C path data content_type w =
    st_map (api_put (sc_store C) (api_path (sc_store C) path) data PutOverwrite content_type w)
      (\<lambda>e. UploadFailed (provider_error_text (pe_display e) (pe_debug e))) (\<lambda>_. Inr ())"

definition client_upload where
  "client_upload C path data w = client_put C path data None w"

definition client_upload_with_content_type where
  "client_upload_with_content_type C path data content_type w = client_put C path data (Some content_type) w"

text \<open>\<open>file\<close> is what reading the local file gives.\<close>

definition client_upload_file ::
  "'w store_client \<Rightarrow> string \<Rightarrow> string + bytes \<Rightarrow> 'w \<Rightarrow> (store_error + unit) \<times> 'w" where
  "client_upload_file C path file w =
    (case file of
       Inl e \<Rightarrow> (Inl (UploadFailed (''Read file: '' @ e)), w)
     | Inr data \<Rightarrow> client_upload C path data w)"

definition collect_bytes :: "(provider_error + bytes) list \<Rightarrow> provider_error + bytes" where
  "collect_bytes chunks = try_res (collect_res id chunks) (\<lambda>cs. Inr (concat cs))"

definition get_error :: "string \<Rightarrow> provider_error \<Rightarrow> store_error" where
  "get_error path e =
    (case pe_kind e of KindNotFound \<Rightarrow> NotFound path | _ \<Rightarrow> DownloadFailed (pe_display e))"

definition plain_get :: get_options where
  "plain_get = \<lparr>go_head = False, go_if_none_match = None\<rparr>"

definition head_get :: get_options where
  "head_get = \<lparr>go_head = True, go_if_none_match = None\<rparr>"

definition client_download :: "'w store_client \<Rightarrow> string \<Rightarrow> 'w \<Rightarrow> (store_error + bytes) \<times> 'w" where
  "client_download C path w =
    st_map (api_get (sc_store C) (api_path (sc_store C) path) plain_get w) (get_error path) (\<lambda>result.
      map_err (collect_bytes (gr_chunks result)) (\<lambda>e. DownloadFailed (pe_display e)))"

text \<open>\<open>save\<close> is what writing the local file gives.\<close>

definition client_download_file ::
  "'w store_client \<Rightarrow> string \<Rightarrow> (bytes \<Rightarrow> string + unit) \<Rightarrow> 'w \<Rightarrow> (store_error + unit) \<times> 'w" where
  "client_download_file C path save w =
    st_map (client_download C path w) id (\<lambda>b. map_err (save b) (\<lambda>e. DownloadFailed (''Write file: '' @ e)))"

definition with_meta :: "get_result \<Rightarrow> store_error + bytes \<times> etag option" where
  "with_meta result =
    try_res (map_err (collect_bytes (gr_chunks result)) (\<lambda>e. DownloadFailed (pe_display e))) (\<lambda>b.
    Inr (b, map_option normalize_etag (gr_etag result)))"

definition client_download_with_etag ::
  "'w store_client \<Rightarrow> string \<Rightarrow> 'w \<Rightarrow> (store_error + bytes \<times> etag option) \<times> 'w" where
  "client_download_with_etag C path w =
    st_map (api_get (sc_store C) (api_path (sc_store C) path) plain_get w) (get_error path) with_meta"

datatype download_if_changed = NotModified | Changed "bytes \<times> etag option"

definition client_download_if_changed ::
  "'w store_client \<Rightarrow> string \<Rightarrow> etag \<Rightarrow> 'w \<Rightarrow> (store_error + download_if_changed) \<times> 'w" where
  "client_download_if_changed C path known_etag w =
    (case api_get (sc_store C) (api_path (sc_store C) path)
        \<lparr>go_head = False, go_if_none_match = Some known_etag\<rparr> w of
       (Inr result, w') \<Rightarrow> (try_res (with_meta result) (\<lambda>m. Inr (Changed m)), w')
     | (Inl e, w') \<Rightarrow> (if pe_kind e = KindNotModified then Inr NotModified else Inl (get_error path e), w'))"

definition client_exists :: "'w store_client \<Rightarrow> string \<Rightarrow> 'w \<Rightarrow> (store_error + bool) \<times> 'w" where
  "client_exists C path w =
    (case api_get (sc_store C) (api_path (sc_store C) path) head_get w of
       (Inr _, w') \<Rightarrow> (Inr True, w')
     | (Inl e, w') \<Rightarrow> (if pe_kind e = KindNotFound then Inr False else Inl (ListFailed (pe_display e)), w'))"

record object_head =
  oh_content_length :: nat
  oh_content_type :: "string option"

definition client_head :: "'w store_client \<Rightarrow> string \<Rightarrow> 'w \<Rightarrow> (store_error + object_head) \<times> 'w" where
  "client_head C path w =
    st_map (api_get (sc_store C) (api_path (sc_store C) path) head_get w) (get_error path) (\<lambda>result.
      Inr \<lparr>oh_content_length = gr_size result, oh_content_type = gr_content_type result\<rparr>)"

definition conditional_error :: "string \<Rightarrow> provider_error \<Rightarrow> store_error" where
  "conditional_error path e = (case pe_kind e of
      KindPrecondition \<Rightarrow> PreconditionFailed (''CAS failed for '' @ path @ '': etag mismatch'')
    | KindAlreadyExists \<Rightarrow> PreconditionFailed (''CAS failed for '' @ path @ '': object already exists'')
    | _ \<Rightarrow> UploadFailed (pe_display e))"

definition client_put_conditional ::
  "'w store_client \<Rightarrow> string \<Rightarrow> bytes \<Rightarrow> etag option \<Rightarrow> string option \<Rightarrow> 'w
    \<Rightarrow> (store_error + etag option) \<times> 'w" where
  "client_put_conditional C path data expected_etag content_type w =
    (let mode = (case expected_etag of Some e \<Rightarrow> PutUpdate e | None \<Rightarrow> PutCreate) in
     st_map (api_put (sc_store C) (api_path (sc_store C) path) data mode content_type w)
       (conditional_error path) (\<lambda>new_etag. Inr (map_option normalize_etag new_etag)))"

definition client_upload_conditional where
  "client_upload_conditional C path data expected_etag w = client_put_conditional C path data expected_etag None w"

definition client_upload_conditional_with_content_type where
  "client_upload_conditional_with_content_type C path data content_type expected_etag w =
    client_put_conditional C path data expected_etag (Some content_type) w"

definition client_delete :: "'w store_client \<Rightarrow> string \<Rightarrow> 'w \<Rightarrow> (store_error + unit) \<times> 'w" where
  "client_delete C path w =
    st_map (api_delete (sc_store C) (api_path (sc_store C) path) w)
      (\<lambda>e. DeleteFailed (pe_display e)) (\<lambda>_. Inr ())"

definition quoted_etag :: "etag \<Rightarrow> etag" where
  "quoted_etag e = [CHR 0x22] @ trim_quotes e @ [CHR 0x22]"

definition client_delete_conditional ::
  "'w store_client \<Rightarrow> string \<Rightarrow> etag \<Rightarrow> 'w \<Rightarrow> (store_error + unit) \<times> 'w" where
  "client_delete_conditional C path expected_etag w =
    (case sc_aws C of
       None \<Rightarrow> (Inl (DeleteFailed ''conditional delete requires an S3 endpoint backend; in-memory test stores do not support it''), w)
     | Some aws \<Rightarrow> st_map (aws_delete_object aws path (quoted_etag expected_etag) w)
         (\<lambda>f. map_delete_conditional_error path (af_error f) (provider_error_text (af_display f) (af_debug f)))
         (\<lambda>_. Inr ()))"

definition plain_diagnostic :: "string \<Rightarrow> delete_diagnostic" where
  "plain_diagnostic message = \<lparr>diag_code = None, diag_message = message, diag_truncated = False\<rparr>"

definition store_delete_objects ::
  "'w store_client \<Rightarrow> string list \<Rightarrow> 'w \<Rightarrow> (delete_request_error + delete_outcome list) \<times> 'w" where
  "store_delete_objects C paths w =
    (if paths = [] then (Inr [], w)
     else (case sc_aws C of
        None \<Rightarrow> (Inl (DelUnsupported (plain_diagnostic
          ''DeleteObjects requires an S3 endpoint backend; in-memory stores have no multi-object delete wire'')), w)
      | Some aws \<Rightarrow>
         (case aws_identifiers aws paths of
            Inl e \<Rightarrow> (Inl (DelRequest (plain_diagnostic e)), w)
          | Inr _ \<Rightarrow>
             (case aws_delete_objects aws paths w of
                (Inr (deleted, errors), w') \<Rightarrow> (reconcile_delete_objects paths deleted errors, w')
              | (Inl e, w') \<Rightarrow> (Inl (map_delete_objects_error e), w')))))"

section \<open>Listings\<close>

definition collect_listing :: "(provider_error + string \<times> nat) list \<Rightarrow> store_error + (string \<times> nat) list" where
  "collect_listing items = map_err (collect_res id items) (\<lambda>e. ListFailed (pe_display e))"

definition client_list_prefix :: "'w store_client \<Rightarrow> string \<Rightarrow> 'w \<Rightarrow> (store_error + string list) \<times> 'w" where
  "client_list_prefix C below w =
    (case api_list (sc_store C) (api_path (sc_store C) below) None w of
       (items, w') \<Rightarrow> (try_res (collect_listing items) (\<lambda>objects. Inr (map fst objects)), w'))"

definition client_list_with_sizes ::
  "'w store_client \<Rightarrow> string \<Rightarrow> string option \<Rightarrow> nat \<Rightarrow> 'w \<Rightarrow> (store_error + (string \<times> nat) list) \<times> 'w" where
  "client_list_with_sizes C below after limit w =
    (if limit = 0 then (Inr [], w)
     else (case api_list (sc_store C) (api_path (sc_store C) below) (map_option (api_path (sc_store C)) after) w of
        (items, w') \<Rightarrow> (collect_listing (take limit items), w')))"

definition client_list_prefix_after ::
  "'w store_client \<Rightarrow> string \<Rightarrow> string option \<Rightarrow> nat \<Rightarrow> 'w \<Rightarrow> (store_error + string list) \<times> 'w" where
  "client_list_prefix_after C below after limit w =
    (if limit = 0 then (Inr [], w)
     else (case api_list (sc_store C) (api_path (sc_store C) below) (map_option (api_path (sc_store C)) after) w of
        (items, w') \<Rightarrow> (try_res (collect_listing (take limit items)) (\<lambda>objects. Inr (map fst objects)), w')))"

section \<open>Presigned URLs and explicit multipart uploads\<close>

datatype signed_url_method = MethodGet | MethodPut | MethodPost | MethodDelete | MethodHead | MethodPatch

fun method_as_str :: "signed_url_method \<Rightarrow> string" where
  "method_as_str MethodGet = ''GET''"
| "method_as_str MethodPut = ''PUT''"
| "method_as_str MethodPost = ''POST''"
| "method_as_str MethodDelete = ''DELETE''"
| "method_as_str MethodHead = ''HEAD''"
| "method_as_str MethodPatch = ''PATCH''"

text \<open>\<open>parse_method\<close> is the parser of the HTTP library.\<close>

definition client_signed_url ::
  "(string \<Rightarrow> string + string) \<Rightarrow> 'w store_client \<Rightarrow> string \<Rightarrow> signed_url_method \<Rightarrow> nat \<Rightarrow> 'w
    \<Rightarrow> (store_error + string) \<times> 'w" where
  "client_signed_url parse_method C path method expires_in w =
    (case sc_signer C of
       None \<Rightarrow> (Inl (PresignUnsupported ''this object store backend does not support presigned URLs''), w)
     | Some signer \<Rightarrow>
        (case parse_method (method_as_str method) of
           Inl e \<Rightarrow> (Inl (SignedUrlFailed (''invalid method: '' @ e)), w)
         | Inr m \<Rightarrow> st_map (signer m (api_path (sc_store C) path) expires_in w) SignedUrlFailed Inr))"

definition client_signed_upload_url where
  "client_signed_upload_url parse_method C path expires_in w =
    client_signed_url parse_method C path MethodPut expires_in w"

definition client_signed_download_url where
  "client_signed_download_url parse_method C path expires_in w =
    client_signed_url parse_method C path MethodGet expires_in w"

definition no_multipart :: store_error where
  "no_multipart = PresignUnsupported ''multipart operations are unsupported for this backend''"

definition initiate_multipart_upload ::
  "'w store_client \<Rightarrow> string \<Rightarrow> string \<Rightarrow> 'w \<Rightarrow> (store_error + string) \<times> 'w" where
  "initiate_multipart_upload C path content_type w =
    (case sc_aws C of
       None \<Rightarrow> (Inl no_multipart, w)
     | Some aws \<Rightarrow> st_map (aws_create_multipart aws path content_type w)
         (\<lambda>e. UploadFailed (''initiate multipart upload failed: '' @ e))
         (\<lambda>upload_id. ok_or upload_id (UploadFailed ''initiate multipart upload returned no upload id'')))"

record part_upload_url =
  pu_part_number :: int
  pu_url :: string

text \<open>A presigned request carries a URI, which then has to parse as a URL.  The part number in the
  error text is left out.\<close>

fun presign_parts :: "'w aws_api \<Rightarrow> string \<Rightarrow> string \<Rightarrow> nat \<Rightarrow> int list \<Rightarrow> 'w
    \<Rightarrow> (store_error + part_upload_url list) \<times> 'w" where
  "presign_parts aws path upload_id expires_in [] w = (Inr [], w)"
| "presign_parts aws path upload_id expires_in (n # ns) w =
    (case aws_presign_part aws path upload_id n expires_in w of
       (Inl e, w') \<Rightarrow> (Inl (SignedUrlFailed (''failed to presign multipart part: '' @ e)), w')
     | (Inr (Inl e), w') \<Rightarrow> (Inl (SignedUrlFailed (''invalid presigned URL for part: '' @ e)), w')
     | (Inr (Inr url), w') \<Rightarrow> st_map (presign_parts aws path upload_id expires_in ns w') id
         (\<lambda>urls. Inr (\<lparr>pu_part_number = n, pu_url = url\<rparr> # urls)))"

definition multipart_part_upload_urls ::
  "'w store_client \<Rightarrow> string \<Rightarrow> string \<Rightarrow> int \<Rightarrow> nat \<Rightarrow> 'w \<Rightarrow> (store_error + part_upload_url list) \<times> 'w" where
  "multipart_part_upload_urls C path upload_id part_count expires_in w =
    (if part_count \<le> 0 then (Inl (SignedUrlFailed ''part_count must be positive''), w)
     else (case sc_aws C of
        None \<Rightarrow> (Inl no_multipart, w)
      | Some aws \<Rightarrow>
         (case aws_presigning aws expires_in of
            Inl e \<Rightarrow> (Inl (SignedUrlFailed (''invalid presign expiry: '' @ e)), w)
          | Inr _ \<Rightarrow> presign_parts aws path upload_id expires_in [1..part_count] w)))"

definition complete_error :: "string \<Rightarrow> string \<Rightarrow> aws_failure \<Rightarrow> store_error" where
  "complete_error path upload_id f =
    (let code = (case af_error f of ServiceError code _ _ \<Rightarrow> code | _ \<Rightarrow> None) in
     if code = Some ''PreconditionFailed'' \<or> code = Some ''ConditionalRequestConflict''
     then PreconditionFailed (''conditional multipart completion failed for '' @ path @ '': etag mismatch'')
     else if code = Some ''NoSuchUpload'' then NotFound upload_id
     else UploadFailed (''complete multipart upload failed: '' @
       provider_error_text (af_display f) (af_debug f)))"

definition complete_multipart_inner ::
  "'w store_client \<Rightarrow> string \<Rightarrow> string \<Rightarrow> (int \<times> etag) list \<Rightarrow> etag option \<Rightarrow> 'w
    \<Rightarrow> (store_error + string option) \<times> 'w" where
  "complete_multipart_inner C path upload_id parts expected_etag w =
    (if parts = [] then (Inl (UploadFailed ''multipart completion requires at least one part''), w)
     else (case sc_aws C of
        None \<Rightarrow> (Inl no_multipart, w)
      | Some aws \<Rightarrow> st_map (aws_complete_multipart aws path upload_id (sort_key fst parts)
            (map_option quoted_etag expected_etag) w) (complete_error path upload_id) Inr))"

definition complete_multipart_upload where
  "complete_multipart_upload C path upload_id parts w = complete_multipart_inner C path upload_id parts None w"

definition complete_multipart_if_match ::
  "'w store_client \<Rightarrow> string \<Rightarrow> string \<Rightarrow> (int \<times> etag) list \<Rightarrow> etag \<Rightarrow> 'w \<Rightarrow> (store_error + unit) \<times> 'w" where
  "complete_multipart_if_match C path upload_id parts expected_etag w =
    st_map (complete_multipart_inner C path upload_id parts (Some expected_etag) w) id (\<lambda>_. Inr ())"

definition abort_multipart_upload ::
  "'w store_client \<Rightarrow> string \<Rightarrow> string \<Rightarrow> 'w \<Rightarrow> (store_error + unit) \<times> 'w" where
  "abort_multipart_upload C path upload_id w =
    (case sc_aws C of
       None \<Rightarrow> (Inl no_multipart, w)
     | Some aws \<Rightarrow> st_map (aws_abort_multipart aws path upload_id w)
         (\<lambda>e. UploadFailed (''abort multipart upload failed: '' @ e)) Inr)"

text \<open>The operations of the probes: one part, one part of a completed object, the open uploads (a
  truncated listing is refused).  Part numbers are left out of the error texts.\<close>

definition failure_text :: "aws_failure \<Rightarrow> string" where
  "failure_text f = provider_error_text (af_display f) (af_debug f)"

definition upload_multipart_part ::
  "'w store_client \<Rightarrow> string \<Rightarrow> string \<Rightarrow> int \<Rightarrow> bytes \<Rightarrow> 'w \<Rightarrow> (store_error + int \<times> etag) \<times> 'w" where
  "upload_multipart_part C path upload_id part_number data w =
    (case sc_aws C of
       None \<Rightarrow> (Inl no_multipart, w)
     | Some aws \<Rightarrow> st_map (aws_upload_part aws path upload_id part_number data w)
         (\<lambda>f. UploadFailed (''upload multipart part failed: '' @ failure_text f))
         (\<lambda>e_tag. try_res (ok_or e_tag (UploadFailed ''upload multipart part returned no etag''))
            (\<lambda>e. Inr (part_number, e))))"

definition download_multipart_part ::
  "'w store_client \<Rightarrow> string \<Rightarrow> int \<Rightarrow> 'w \<Rightarrow> (store_error + bytes) \<times> 'w" where
  "download_multipart_part C path part_number w =
    (case sc_aws C of
       None \<Rightarrow> (Inl no_multipart, w)
     | Some aws \<Rightarrow> st_map (aws_get_part aws path part_number w)
         (\<lambda>f. DownloadFailed (''download multipart part failed: '' @ failure_text f))
         (\<lambda>body. map_err body (\<lambda>e. DownloadFailed (''download multipart part body failed: '' @ e))))"

definition list_multipart_uploads ::
  "'w store_client \<Rightarrow> string \<Rightarrow> 'w \<Rightarrow> (store_error + (string \<times> string) list) \<times> 'w" where
  "list_multipart_uploads C below w =
    (case sc_aws C of
       None \<Rightarrow> (Inl no_multipart, w)
     | Some aws \<Rightarrow> st_map (aws_list_uploads aws below 1000 w)
         (\<lambda>f. ListFailed (''list multipart uploads failed: '' @ failure_text f))
         (\<lambda>(truncated, uploads).
            if truncated = Some True
            then Inl (ListFailed (''multipart upload list for '' @ below @ '' was unexpectedly truncated''))
            else Inr (List.map_filter (\<lambda>(k, u). case (k, u) of (Some k, Some u) \<Rightarrow> Some (k, u) | _ \<Rightarrow> None) uploads)))"

section \<open>Streams\<close>

record stream_download =
  sd_stream :: "(store_error + bytes) list"
  sd_content_length :: nat
  sd_content_type :: "string option"
  sd_etag :: "etag option"

definition client_download_stream ::
  "'w store_client \<Rightarrow> string \<Rightarrow> 'w \<Rightarrow> (store_error + stream_download) \<times> 'w" where
  "client_download_stream C path w =
    st_map (api_get (sc_store C) (api_path (sc_store C) path) plain_get w) (get_error path) (\<lambda>result.
      Inr \<lparr>sd_stream = map (\<lambda>r. map_err r (\<lambda>e. DownloadFailed (pe_display e))) (gr_chunks result),
        sd_content_length = gr_size result, sd_content_type = gr_content_type result,
        sd_etag = map_option normalize_etag (gr_etag result)\<rparr>)"

definition part_size :: nat where
  "part_size = 64 * 1024 * 1024"

lemma part_size_pos [simp]: "0 < part_size"
  by (simp add: part_size_def)

text \<open>\<open>put_part\<close> of the buffer, with the error of an upload.\<close>

definition send_part :: "'w store_api \<Rightarrow> nat \<Rightarrow> bytes \<Rightarrow> 'w \<Rightarrow> (store_error + unit) \<times> 'w" where
  "send_part A handle part w = st_map (api_put_part A handle part w) (\<lambda>e. UploadFailed (pe_display e)) Inr"

text \<open>The inner loop: full parts leave the front of the buffer.\<close>

function flush_parts :: "'w store_api \<Rightarrow> nat \<Rightarrow> bytes \<Rightarrow> 'w \<Rightarrow> (store_error + bytes) \<times> 'w" where
  "flush_parts A handle buf w =
    (if length buf < part_size then (Inr buf, w)
     else (case send_part A handle (take part_size buf) w of
        (Inl e, w') \<Rightarrow> (Inl e, w')
      | (Inr _, w') \<Rightarrow> flush_parts A handle (drop part_size buf) w'))"
  by pat_completeness auto
termination
  by (relation "measure (\<lambda>(A, handle, buf, w). length buf)") (auto simp: not_less intro!: diff_less less_le_trans [OF part_size_pos])

declare flush_parts.simps [simp del]

fun drive_stream :: "'w store_api \<Rightarrow> nat \<Rightarrow> (string + bytes) list \<Rightarrow> bytes \<Rightarrow> 'w \<Rightarrow> (store_error + unit) \<times> 'w" where
  "drive_stream A handle [] buf w = (if buf = [] then (Inr (), w) else send_part A handle buf w)"
| "drive_stream A handle (Inl e # chunks) buf w = (Inl (UploadFailed (''Stream read error: '' @ e)), w)"
| "drive_stream A handle (Inr chunk # chunks) buf w =
    (case flush_parts A handle (buf @ chunk) w of
       (Inl e, w') \<Rightarrow> (Inl e, w')
     | (Inr buf', w') \<Rightarrow> drive_stream A handle chunks buf' w')"

definition client_upload_stream ::
  "'w store_client \<Rightarrow> string \<Rightarrow> (string + bytes) list \<Rightarrow> 'w \<Rightarrow> (store_error + unit) \<times> 'w" where
  "client_upload_stream C path chunks w =
    (case api_begin (sc_store C) (api_path (sc_store C) path) w of
       (Inl e, w1) \<Rightarrow> (Inl (UploadFailed (pe_display e)), w1)
     | (Inr handle, w1) \<Rightarrow>
        (case (case drive_stream (sc_store C) handle chunks [] w1 of
                 (Inl e, w2) \<Rightarrow> (Inl e, w2)
               | (Inr _, w2) \<Rightarrow> st_map (api_complete (sc_store C) handle w2) (\<lambda>e. UploadFailed (pe_display e)) Inr) of
           (Inr _, w3) \<Rightarrow> (Inr (), w3)
         | (Inl e, w3) \<Rightarrow> (Inl e, snd (api_abort (sc_store C) handle w3))))"

end
