(* ===== verification/Sdk_Semantics.thy ===== *)
theory Sdk_Semantics
  imports Sdk_Client
begin

text \<open>
  What the client does on a store.  First the request semantics \<open>st_exec\<close> the other components use is
  compared with the client over the loopback store; then the streamed upload is followed over any
  library that keeps multipart uploads.
\<close>

section \<open>The client over the loopback store\<close>

text \<open>The libraries on top of the loopback counterpart of \<open>state_kernel.rs\<close>: entity tags travel in
  quotes; a failed creation is \<open>AlreadyExists\<close>, a failed replacement \<open>Precondition\<close>.\<close>

definition provider_fault :: "error_kind \<Rightarrow> string \<Rightarrow> provider_error" where
  "provider_fault kind k = \<lparr>pe_kind = kind, pe_display = k, pe_debug = k\<rparr>"

definition quoted_tag :: "backend \<Rightarrow> bytes \<Rightarrow> etag" where
  "quoted_tag B b = [CHR 0x22] @ tag_of B b @ [CHR 0x22]"

definition loopback_put ::
  "backend \<Rightarrow> string \<Rightarrow> bytes \<Rightarrow> put_mode \<Rightarrow> string option \<Rightarrow> store \<Rightarrow> (provider_error + etag option) \<times> store" where
  "loopback_put B k b mode content_type s =
    (let stored = (Inr (Some (quoted_tag B b)), st_put k b s) in
     case mode of
       PutOverwrite \<Rightarrow> stored
     | PutCreate \<Rightarrow> if st_get s k = None then stored else (Inl (provider_fault KindAlreadyExists k), s)
     | PutUpdate e \<Rightarrow> (case st_get s k of
           None \<Rightarrow> (Inl (provider_fault KindPrecondition k), s)
         | Some b' \<Rightarrow> if tag_of B b' = trim_quotes e then stored else (Inl (provider_fault KindPrecondition k), s)))"

definition loopback_get ::
  "backend \<Rightarrow> string \<Rightarrow> get_options \<Rightarrow> store \<Rightarrow> (provider_error + get_result) \<times> store" where
  "loopback_get B k options s =
    (case st_get s k of
       None \<Rightarrow> (Inl (provider_fault KindNotFound k), s)
     | Some b \<Rightarrow>
        if go_if_none_match options = Some (tag_of B b) then (Inl (provider_fault KindNotModified k), s)
        else (Inr \<lparr>gr_size = length b, gr_etag = Some (quoted_tag B b), gr_content_type = None,
               gr_chunks = (if go_head options then [] else [Inr b])\<rparr>, s))"

definition loopback_delete :: "backend \<Rightarrow> string \<Rightarrow> etag \<Rightarrow> store \<Rightarrow> (aws_failure + unit) \<times> store" where
  "loopback_delete B k e s =
    (let refusal = (\<lambda>code. \<lparr>af_error = ServiceError (Some code) None 0, af_display = k, af_debug = k\<rparr>) in
     case st_get s k of
       None \<Rightarrow> (Inl (refusal ''NoSuchKey''), s)
     | Some b \<Rightarrow> if tag_of B b = trim_quotes e then (Inr (), st_del k s)
                 else (Inl (refusal ''PreconditionFailed''), s))"

definition loopback_store :: "backend \<Rightarrow> store store_api" where
  "loopback_store B = \<lparr>api_path = id, api_put = loopback_put B, api_get = loopback_get B,
    api_list = (\<lambda>p after s. (map Inr (list_matching s p after), s)),
    api_delete = (\<lambda>k s. (Inr (), st_del k s)),
    api_begin = (\<lambda>k s. (Inr 0, s)), api_put_part = (\<lambda>u b s. (Inr (), s)),
    api_complete = (\<lambda>u s. (Inr (), s)), api_abort = (\<lambda>u s. (Inr (), s))\<rparr>"

definition loopback_aws :: "backend \<Rightarrow> store aws_api" where
  "loopback_aws B = \<lparr>aws_delete_object = loopback_delete B, aws_identifiers = (\<lambda>ks. Inr ()),
    aws_delete_objects = (\<lambda>ks s. (Inr (map Some ks, []), st_del_all ks s)),
    aws_create_multipart = (\<lambda>k ct s. (Inr (Some k), s)), aws_presigning = (\<lambda>n. Inr ()),
    aws_presign_part = (\<lambda>k u n x s. (Inr (Inr k), s)), aws_complete_multipart = (\<lambda>k u ps e s. (Inr None, s)),
    aws_abort_multipart = (\<lambda>k u s. (Inr (), s)), aws_upload_part = (\<lambda>k u n b s. (Inr (Some k), s)),
    aws_get_part = (\<lambda>k n s. (Inr (Inr []), s)), aws_list_uploads = (\<lambda>p n s. (Inr (None, []), s))\<rparr>"

definition loopback_client :: "backend \<Rightarrow> store store_client" where
  "loopback_client B = \<lparr>sc_store = loopback_store B, sc_bucket = ''loopback'', sc_signer = None,
    sc_aws = Some (loopback_aws B)\<rparr>"

text \<open>The request of a tree, served by the client.\<close>

fun client_serve :: "'w store_client \<Rightarrow> nat option \<Rightarrow> req \<Rightarrow> 'w \<Rightarrow> resp \<times> 'w" where
  "client_serve C now (Upload k b) w = map_prod RUnit id (client_upload C k b w)"
| "client_serve C now (UploadConditional k b e) w = map_prod REtag id (client_upload_conditional C k b e w)"
| "client_serve C now (Download k) w = map_prod RBytes id (client_download C k w)"
| "client_serve C now (DownloadWithEtag k) w = map_prod RMeta id (client_download_with_etag C k w)"
| "client_serve C now (DeleteKey k) w = map_prod RUnit id (client_delete C k w)"
| "client_serve C now (DeleteConditional k e) w = map_prod RUnit id (client_delete_conditional C k e w)"
| "client_serve C now (DeleteObjects ks) w = map_prod ROutcomes id (store_delete_objects C ks w)"
| "client_serve C now (ListPrefix p) w = map_prod RKeys id (client_list_prefix C p w)"
| "client_serve C now (ListPrefixAfter p a n) w = map_prod RKeys id (client_list_prefix_after C p a n w)"
| "client_serve C now (ListSizesAfter p a n) w = map_prod RSizes id (client_list_with_sizes C p a n w)"
| "client_serve C now (Exists k) w = map_prod RBool id (client_exists C k w)"
| "client_serve C now UnixMillis w = (RTime now, w)"

text \<open>\<open>st_exec\<close> puts the key where the code formats a text into a failed precondition.\<close>

fun plain_text :: "key \<Rightarrow> store_error \<Rightarrow> store_error" where
  "plain_text k (PreconditionFailed _) = PreconditionFailed k"
| "plain_text k e = e"

fun plain_reply :: "req \<Rightarrow> resp \<Rightarrow> resp" where
  "plain_reply (UploadConditional k b e) (REtag r) = REtag (map_err r (plain_text k))"
| "plain_reply (DeleteConditional k e) (RUnit r) = RUnit (map_err r (plain_text k))"
| "plain_reply q r = r"

definition quote_free :: "etag \<Rightarrow> bool" where
  "quote_free e \<longleftrightarrow> CHR 0x22 \<notin> set e"

text \<open>A request names tags as reads return them, without quotes.\<close>

fun plain_request :: "req \<Rightarrow> bool" where
  "plain_request (UploadConditional k b (Some e)) = quote_free e"
| "plain_request (DeleteConditional k e) = quote_free e"
| "plain_request q = True"

lemma trim_quote_free [simp]: "quote_free e \<Longrightarrow> trim_quotes e = e"
proof -
  have "dropWhile (\<lambda>c. c = CHR 0x22) xs = xs" if "CHR 0x22 \<notin> set xs" for xs
    using that by (cases xs) auto
  then show "quote_free e \<Longrightarrow> trim_quotes e = e" by (simp add: trim_quotes_def quote_free_def)
qed

lemma trim_quoted [simp]: "quote_free e \<Longrightarrow> trim_quotes (CHR 0x22 # e @ [CHR 0x22]) = e"
proof -
  have drop: "dropWhile (\<lambda>c. c = CHR 0x22) (CHR 0x22 # xs) = xs" if "CHR 0x22 \<notin> set xs" for xs
    using that by (cases xs) auto
  assume e: "quote_free e"
  then show ?thesis
  proof (cases e)
    case (Cons c cs)
    then have "c \<noteq> CHR 0x22" using e by (auto simp: quote_free_def)
    then have "dropWhile (\<lambda>c. c = CHR 0x22) ([CHR 0x22] @ e @ [CHR 0x22]) = e @ [CHR 0x22]" using Cons by simp
    moreover have "dropWhile (\<lambda>c. c = CHR 0x22) (CHR 0x22 # rev e) = rev e" using e by (intro drop) (simp add: quote_free_def)
    ultimately show ?thesis by (simp add: trim_quotes_def)
  qed (simp add: trim_quotes_def)
qed

lemma normalize_quoted [simp]: "quote_free (tag_of B b) \<Longrightarrow> normalize_etag (quoted_tag B b) = tag_of B b"
  by (simp add: quoted_tag_def normalize_etag_def Let_def)

lemma collect_listing_Inr [simp]: "collect_listing (map Inr xs) = Inr xs"
proof -
  have "collect_res id (map Inr xs) = Inr xs" by (induction xs) simp_all
  then show ?thesis by (simp add: collect_listing_def)
qed

lemmas client_defs = client_upload_def client_put_def client_upload_conditional_def client_put_conditional_def
  client_download_def client_download_with_etag_def client_delete_def client_delete_conditional_def
  store_delete_objects_def client_list_prefix_def client_list_prefix_after_def client_list_with_sizes_def
  client_exists_def st_map_def
lemmas loopback_defs = loopback_client_def loopback_store_def loopback_aws_def loopback_put_def loopback_get_def
  loopback_delete_def provider_fault_def

lemma loopback_serves:
  assumes "\<And>b. quote_free (tag_of B b)" "plain_request q"
  shows "map_prod (plain_reply q) id (client_serve (loopback_client B) (now_millis B) q s) = st_exec B q s"
proof (cases q)
  case (UploadConditional k b e)
  then show ?thesis using assms
    by (cases e) (auto simp: client_defs loopback_defs conditional_error_def Let_def split: option.split)
next
  case (Download k)
  then show ?thesis
    by (auto simp: client_defs loopback_defs plain_get_def get_error_def collect_bytes_def split: option.split)
next
  case (DownloadWithEtag k)
  then show ?thesis using assms(1)
    by (auto simp: client_defs loopback_defs plain_get_def get_error_def collect_bytes_def with_meta_def split: option.split)
next
  case (DeleteConditional k e)
  then show ?thesis using assms(2)
    by (auto simp: client_defs loopback_defs quoted_etag_def trim_quoted Let_def split: option.split)
next
  case (DeleteObjects ks)
  then show ?thesis
    by (auto simp: client_defs loopback_defs reconcile_delete_objects_def st_del_all_def)
next
  case (ListPrefixAfter p a n)
  then show ?thesis by (auto simp: client_defs loopback_defs take_map option.map_id)
next
  case (ListSizesAfter p a n)
  then show ?thesis by (auto simp: client_defs loopback_defs take_map option.map_id)
next
  case (Exists k)
  then show ?thesis by (auto simp: client_defs loopback_defs head_get_def split: option.split)
qed (simp_all add: client_defs loopback_defs)

section \<open>Streamed uploads\<close>

text \<open>The parts a stream is cut into.\<close>

function part_split :: "bytes \<Rightarrow> bytes list" where
  "part_split b = (if length b < part_size then (if b = [] then [] else [b])
    else take part_size b # part_split (drop part_size b))"
  by pat_completeness auto
termination
  by (relation "measure length") (auto simp: not_less intro!: diff_less less_le_trans [OF part_size_pos])

declare part_split.simps [simp del]

lemma concat_part_split [simp]: "concat (part_split b) = b"
  by (induction b rule: part_split.induct) (subst part_split.simps, simp)

lemma part_sizes: "p \<in> set (butlast (part_split b)) \<Longrightarrow> length p = part_size"
proof (induction b rule: part_split.induct)
  case (1 b)
  show ?case
  proof (cases "length b < part_size")
    case False
    then have split: "part_split b = take part_size b # part_split (drop part_size b)" by (simp add: part_split.simps)
    show ?thesis using 1 False by (auto simp: split split: if_splits)
  qed (use 1 in \<open>simp add: part_split.simps [of b] split: if_splits\<close>)
qed

text \<open>A library with multipart uploads: \<open>open_upload w h\<close> is the target and the parts of an open upload,
  \<open>object_parts w k\<close> the parts an object was completed from.  A failed part or completion leaves the
  upload open; an abortion closes it.\<close>

definition begins_uploads ::
  "'w store_api \<Rightarrow> ('w \<Rightarrow> nat \<Rightarrow> (string \<times> bytes list) option) \<Rightarrow> bool" where
  "begins_uploads A open_upload \<longleftrightarrow>
    (\<forall>k w h w'. api_begin A k w = (Inr h, w') \<longrightarrow> open_upload w h = None \<and> open_upload w' = (open_upload w)(h \<mapsto> (k, []))) \<and>
    (\<forall>k w e w'. api_begin A k w = (Inl e, w') \<longrightarrow> open_upload w' = open_upload w)"

definition takes_parts ::
  "'w store_api \<Rightarrow> ('w \<Rightarrow> nat \<Rightarrow> (string \<times> bytes list) option) \<Rightarrow> bool" where
  "takes_parts A open_upload \<longleftrightarrow>
    (\<forall>h k ps b w r w'. open_upload w h = Some (k, ps) \<longrightarrow> api_put_part A h b w = (r, w') \<longrightarrow>
      open_upload w' = (open_upload w)(h \<mapsto> (k, if r = Inr () then ps @ [b] else ps)))"

definition ends_uploads ::
  "'w store_api \<Rightarrow> ('w \<Rightarrow> nat \<Rightarrow> (string \<times> bytes list) option) \<Rightarrow> ('w \<Rightarrow> string \<Rightarrow> bytes list option) \<Rightarrow> bool" where
  "ends_uploads A open_upload object_parts \<longleftrightarrow>
    (\<forall>h k ps w r w'. open_upload w h = Some (k, ps) \<longrightarrow> api_complete A h w = (r, w') \<longrightarrow>
      (if r = Inr () then open_upload w' = (open_upload w)(h := None) \<and> object_parts w' k = Some ps
       else open_upload w' = open_upload w)) \<and>
    (\<forall>h k ps w. open_upload w h = Some (k, ps) \<longrightarrow> open_upload (snd (api_abort A h w)) = (open_upload w)(h := None))"

lemma part_split_full: "length p = part_size \<Longrightarrow> part_split (p @ b) = p # part_split b"
  by (subst part_split.simps) simp

lemma part_split_short: "length b < part_size \<Longrightarrow> part_split b = (if b = [] then [] else [b])"
  by (simp add: part_split.simps)

lemma parts_nonempty: "[] \<notin> set (part_split b)"
proof (induction b rule: part_split.induct)
  case (1 b)
  have "take part_size b \<noteq> []" if "\<not> length b < part_size" using that part_size_pos by auto
  then show ?case using 1 by (simp add: part_split.simps [of b])
qed

lemma sent_part:
  assumes "takes_parts A open_upload" "open_upload w h = Some (k, ps)" "send_part A h b w = (r, w')"
  shows "open_upload w' = (open_upload w)(h \<mapsto> (k, if r = Inr () then ps @ [b] else ps))"
proof -
  obtain x where x: "api_put_part A h b w = (x, w')" "r = Inr () \<longleftrightarrow> x = Inr ()"
    using assms(3) by (cases "fst (api_put_part A h b w)") (auto simp: send_part_def st_map_def split: prod.splits)
  have "open_upload w' = (open_upload w)(h \<mapsto> (k, if x = Inr () then ps @ [b] else ps))"
    using assms(1,2) x(1) unfolding takes_parts_def by blast
  then show ?thesis by (simp add: x(2))
qed

lemma flushed_parts:
  "takes_parts A open_upload \<Longrightarrow> flush_parts A h buf w = (r, w') \<Longrightarrow> open_upload w h = Some (k, ps) \<Longrightarrow>
    \<exists>ps'. open_upload w' = (open_upload w)(h \<mapsto> (k, ps')) \<and> (\<forall>rest. r = Inr rest \<longrightarrow> length rest < part_size \<and>
      (\<forall>more. ps' @ part_split (rest @ more) = ps @ part_split (buf @ more)))"
proof (induction A h buf w arbitrary: ps rule: flush_parts.induct)
  case (1 A h buf w)
  show ?case
  proof (cases "length buf < part_size")
    case True
    then have "r = Inr buf" "w' = w" using "1.prems"(2) by (simp_all add: flush_parts.simps)
    then show ?thesis using "1.prems"(3) True by (intro exI [of _ ps]) auto
  next
    case False
    obtain x w1 where x: "send_part A h (take part_size buf) w = (x, w1)" by force
    note sent = sent_part [OF "1.prems"(1,3) x]
    show ?thesis
    proof (cases x)
      case (Inl e)
      then have "r = Inl e" "w' = w1" using "1.prems"(2) False x by (simp_all add: flush_parts.simps [of A h buf])
      then show ?thesis using sent Inl by (intro exI [of _ ps]) simp
    next
      case (Inr u)
      have rest: "flush_parts A h (drop part_size buf) w1 = (r, w')"
        using "1.prems"(2) False x Inr by (simp add: flush_parts.simps [of A h buf])
      have "open_upload w1 h = Some (k, ps @ [take part_size buf])" using sent Inr by simp
      from "1.IH" [OF False x [symmetric] Inr "1.prems"(1) rest this] obtain ps' where
        ps': "open_upload w' = (open_upload w1)(h \<mapsto> (k, ps'))" "\<forall>rest. r = Inr rest \<longrightarrow> length rest < part_size \<and>
          (\<forall>more. ps' @ part_split (rest @ more) = (ps @ [take part_size buf]) @ part_split (drop part_size buf @ more))"
        by blast
      have "part_split (buf @ more) = take part_size buf # part_split (drop part_size buf @ more)" for more
      proof -
        have "part_split (take part_size buf @ drop part_size buf @ more)
            = take part_size buf # part_split (drop part_size buf @ more)"
          using False by (intro part_split_full) simp
        then show ?thesis by (metis append_assoc append_take_drop_id)
      qed
      then show ?thesis using ps' sent by (intro exI [of _ ps']) simp
    qed
  qed
qed

lemma driven_parts:
  assumes "takes_parts A open_upload"
  shows "drive_stream A h chunks buf w = (r, w') \<Longrightarrow> open_upload w h = Some (k, ps) \<Longrightarrow> length buf < part_size \<Longrightarrow>
    \<exists>ps'. open_upload w' = (open_upload w)(h \<mapsto> (k, ps')) \<and>
      (r = Inr () \<longrightarrow> (\<exists>cs. chunks = map Inr cs \<and> ps' = ps @ part_split (buf @ concat cs)))"
proof (induction chunks arbitrary: buf w ps)
  case Nil
  then show ?case
    using sent_part [OF assms Nil(2), of buf r w']
    by (cases "buf = []") (auto simp: part_split_short fun_upd_idem intro: exI [of _ "[]"])
next
  case (Cons c chunks)
  show ?case
  proof (cases c)
    case (Inl e)
    then show ?thesis using Cons.prems by (intro exI [of _ ps]) auto
  next
    case (Inr b)
    obtain x w1 where x: "flush_parts A h (buf @ b) w = (x, w1)" by force
    from flushed_parts [OF assms x Cons.prems(2)] obtain ps1 where
      ps1: "open_upload w1 = (open_upload w)(h \<mapsto> (k, ps1))" "\<And>rest. x = Inr rest \<Longrightarrow> length rest < part_size"
        "\<And>rest more. x = Inr rest \<Longrightarrow> ps1 @ part_split (rest @ more) = ps @ part_split (buf @ b @ more)"
      by auto
    show ?thesis
    proof (cases x)
      case (Inl e)
      then show ?thesis using Cons.prems(1) x ps1(1) \<open>c = Inr b\<close> by (intro exI [of _ ps1]) auto
    next
      case (Inr rest)
      then have "drive_stream A h chunks rest w1 = (r, w')" using Cons.prems(1) x \<open>c = Inr b\<close> by simp
      moreover have "open_upload w1 h = Some (k, ps1)" using ps1(1) by simp
      ultimately obtain ps' where
        ps': "open_upload w' = (open_upload w1)(h \<mapsto> (k, ps'))"
          "r = Inr () \<Longrightarrow> \<exists>cs. chunks = map Inr cs \<and> ps' = ps1 @ part_split (rest @ concat cs)"
        using Cons.IH ps1(2) [OF Inr] by blast
      have "\<exists>cs. c # chunks = map Inr cs \<and> ps' = ps @ part_split (buf @ concat cs)" if ok: "r = Inr ()"
      proof -
        obtain cs where "chunks = map Inr cs" "ps' = ps1 @ part_split (rest @ concat cs)" using ps'(2) [OF ok] by blast
        then show ?thesis using ps1(3) [OF Inr, of "concat cs"] \<open>c = Inr b\<close> by (intro exI [of _ "b # cs"]) simp
      qed
      then show ?thesis using ps' ps1(1) by (intro exI [of _ ps']) simp
    qed
  qed
qed

text \<open>A streamed upload leaves no upload open; a successful one has put the whole stream, in full parts
  and a last shorter one.\<close>

lemma upload_stream_parts:
  assumes "begins_uploads (sc_store C) open_upload" "takes_parts (sc_store C) open_upload"
    "ends_uploads (sc_store C) open_upload object_parts" "client_upload_stream C path chunks w = (r, w')"
  shows "open_upload w' = open_upload w \<and>
    (r = Inr () \<longrightarrow> (\<exists>cs. chunks = map Inr cs \<and>
      object_parts w' (api_path (sc_store C) path) = Some (part_split (concat cs))))"
proof -
  let ?A = "sc_store C" and ?k = "api_path (sc_store C) path"
  obtain x w1 where started: "api_begin ?A ?k w = (x, w1)" by force
  show ?thesis
  proof (cases x)
    case (Inl e)
    then have "open_upload w1 = open_upload w" using assms(1) started unfolding begins_uploads_def by blast
    then show ?thesis using assms(4) started Inl by (auto simp: client_upload_stream_def)
  next
    case (Inr h)
    then have fresh: "open_upload w h = None" "open_upload w1 = (open_upload w)(h \<mapsto> (?k, []))"
      using assms(1) started unfolding begins_uploads_def by blast+
    obtain y w2 where drive: "drive_stream ?A h chunks [] w1 = (y, w2)" by force
    obtain ps where ps: "open_upload w2 = (open_upload w)(h \<mapsto> (?k, ps))"
      "y = Inr () \<Longrightarrow> \<exists>cs. chunks = map Inr cs \<and> ps = part_split (concat cs)"
      using driven_parts [OF assms(2) drive, of ?k "[]"] fresh(2) by auto
    then have here: "open_upload w2 h = Some (?k, ps)" by simp
    have closed: "open_upload (snd (api_abort ?A h v)) = open_upload w" if "open_upload v = open_upload w2" for v
    proof -
      have "open_upload v h = Some (?k, ps)" using here that by simp
      then have "open_upload (snd (api_abort ?A h v)) = (open_upload v)(h := None)"
        using assms(3) unfolding ends_uploads_def by blast
      then show ?thesis using that ps(1) fresh(1) by (simp add: fun_upd_idem)
    qed
    show ?thesis
    proof (cases y)
      case (Inl e)
      then have "r = Inl e" "w' = snd (api_abort ?A h w2)"
        using assms(4) started \<open>x = Inr h\<close> drive by (simp_all add: client_upload_stream_def)
      then show ?thesis using closed by simp
    next
      case (Inr u)
      obtain z w3 where complete: "api_complete ?A h w2 = (z, w3)" by force
      have ended: "if z = Inr () then open_upload w3 = (open_upload w2)(h := None) \<and> object_parts w3 ?k = Some ps
        else open_upload w3 = open_upload w2"
        using assms(3) here complete unfolding ends_uploads_def by blast
      show ?thesis
      proof (cases z)
        case (Inl e)
        then have "r = Inl (UploadFailed (pe_display e))" "w' = snd (api_abort ?A h w3)"
          using assms(4) started \<open>x = Inr h\<close> drive Inr complete by (simp_all add: client_upload_stream_def st_map_def)
        then show ?thesis using closed ended Inl by simp
      next
        case (Inr v)
        then have "r = Inr ()" "w' = w3"
          using assms(4) started \<open>x = Inr h\<close> drive \<open>y = Inr u\<close> complete by (simp_all add: client_upload_stream_def st_map_def)
        then show ?thesis using ended Inr ps fresh(1) \<open>y = Inr u\<close> by (auto simp: fun_upd_idem)
      qed
    qed
  qed
qed

section \<open>Credentials\<close>

text \<open>A client for a plain HTTP endpoint exists only where the configuration allows it.\<close>

lemma client_new_secure:
  assumes "client_new build_store build_aws config = Inr C" "cf_endpoint config = Some endpoint" "prefix ''http://'' endpoint"
  shows "cf_allow_insecure_http config"
  using assms by (auto simp: client_new_def split: if_splits)

text \<open>The debug form does not depend on the credentials.\<close>

lemma debug_hides_credentials:
  "config_debug (config\<lparr>cf_access_key_id := a, cf_secret_access_key := b\<rparr>) = config_debug config"
  by (simp add: config_debug_def)

text \<open>The scheme of a URL is case-insensitive, the guard is not.\<close>

lemma upper_case_scheme_passes:
  assumes "cf_endpoint config = Some ''HTTP://example''" "build_store config False = Inr (store, signer)"
  shows "\<exists>C. client_new build_store build_aws config = Inr C"
  using assms by (simp add: client_new_def)

end
