(* ===== verification/Sdk_Core.thy ===== *)
theory Sdk_Core
  imports Wire_Digits
begin

text \<open>
  The request-local part of the HTTP client (\<open>crates/yeetz-sdk-core/src/\<close>: \<open>error.rs\<close>,
  \<open>retry.rs\<close>, \<open>rate_limit.rs\<close>, \<open>metadata.rs\<close>, \<open>response.rs\<close>): errors and their classes, retry
  strategies and predicates, rate limits read from response headers, request metadata.

  A \<open>Duration\<close> is a number of nanoseconds, saturating at \<open>duration_max\<close>; a \<open>SystemTime\<close> an integer
  of nanoseconds since the epoch.  A header map says for each (lower case) name what \<open>get\<close> finds: no
  header, or the text of its first value, if \<open>to_str\<close> accepts it.  A computation that may panic
  returns an option, \<open>None\<close> being the panic.
\<close>

section \<open>Lossy text\<close>

text \<open>One step of \<open>String::from_utf8_lossy\<close>: the length of the next character, or of the longest
  beginning of one that is cut off.  Bytes past the end read as 0.\<close>

definition byte_at :: "bytes \<Rightarrow> nat \<Rightarrow> 8 word" where
  "byte_at b i = (if i < length b then b ! i else 0)"

definition second_ok :: "8 word \<Rightarrow> 8 word \<Rightarrow> bool" where
  "second_ok a b \<longleftrightarrow>
    (if a = 0xE0 then 0xA0 \<le> b \<and> b \<le> 0xBF
     else if a = 0xED then 0x80 \<le> b \<and> b \<le> 0x9F
     else if a = 0xF0 then 0x90 \<le> b \<and> b \<le> 0xBF
     else if a = 0xF4 then 0x80 \<le> b \<and> b \<le> 0x8F
     else utf8_cont b)"

definition lossy_step :: "8 word \<Rightarrow> bytes \<Rightarrow> nat \<times> bool" where
  "lossy_step a r =
    (if a < 0x80 then (1, True)
     else if 0xC2 \<le> a \<and> a \<le> 0xDF then (if utf8_cont (byte_at r 0) then (2, True) else (1, False))
     else if 0xE0 \<le> a \<and> a \<le> 0xEF
     then (if \<not> second_ok a (byte_at r 0) then (1, False)
           else if utf8_cont (byte_at r 1) then (3, True) else (2, False))
     else if 0xF0 \<le> a \<and> a \<le> 0xF4
     then (if \<not> second_ok a (byte_at r 0) then (1, False)
           else if \<not> utf8_cont (byte_at r 1) then (2, False)
           else if utf8_cont (byte_at r 2) then (4, True) else (3, False))
     else (1, False))"

definition replacement_character :: string where
  "replacement_character = bytes_string [0xEF, 0xBF, 0xBD]"

lemma lossy_step_pos: "(n, ok) = lossy_step a r \<Longrightarrow> 0 < n"
  by (auto simp: lossy_step_def split: if_splits)

function from_utf8_lossy :: "bytes \<Rightarrow> string" where
  "from_utf8_lossy [] = []"
| "from_utf8_lossy (a # r) =
    (case lossy_step a r of (n, ok) \<Rightarrow>
      (if ok then bytes_string (take n (a # r)) else replacement_character)
        @ from_utf8_lossy (drop n (a # r)))"
  by pat_completeness auto
termination by (relation "measure length") (auto dest: lossy_step_pos)

section \<open>Durations and clocks\<close>

definition nanos_per_sec :: nat where
  "nanos_per_sec = 1000000000"

definition duration_max :: nat where
  "duration_max = (2 ^ 64 - 1) * nanos_per_sec + 999999999"

definition from_secs :: "u64 \<Rightarrow> nat" where
  "from_secs s = unat s * nanos_per_sec"

definition duration_mul :: "nat \<Rightarrow> nat \<Rightarrow> nat" where
  "duration_mul d k = min (d * k) duration_max"

definition duration_since :: "int \<Rightarrow> int \<Rightarrow> nat option" where
  "duration_since later earlier = (if earlier \<le> later then Some (nat (later - earlier)) else None)"

text \<open>\<open>UNIX_EPOCH + Duration::from_secs(s)\<close>: the seconds of a \<open>SystemTime\<close> are an \<open>i64\<close>, and the
  addition panics outside them.\<close>

definition epoch_plus_secs :: "u64 \<Rightarrow> int option" where
  "epoch_plus_secs s = (if unat s < 2 ^ 63 then Some (int (from_secs s)) else None)"

section \<open>Rate limits\<close>

type_synonym header_map = "string \<Rightarrow> string option option"

definition header_text :: "header_map \<Rightarrow> string \<Rightarrow> string option" where
  "header_text headers name = (case headers name of Some (Some v) \<Rightarrow> Some v | _ \<Rightarrow> None)"

text \<open>\<open>str::parse::<u64>()\<close>: digits after an optional plus sign, without overflow.\<close>

definition parse_u64 :: "string \<Rightarrow> u64 option" where
  "parse_u64 s =
    (let ds = (case s of [] \<Rightarrow> [] | c # cs \<Rightarrow> if c = CHR ''+'' then cs else s) in
     if ds \<noteq> [] \<and> list_all ascii_digit ds \<and> decimal_value ds < 2 ^ 64
     then Some (word_of_nat (decimal_value ds)) else None)"

record rate_limit_info =
  rl_reset_at :: "int option"
  rl_retry_after :: "nat option"
  rl_remaining :: "u64 option"

record rate_limit_config =
  rc_enabled :: bool
  rc_max_wait :: nat
  rc_respect_retry_after :: bool

definition default_rate_limit :: rate_limit_config where
  "default_rate_limit = \<lparr>rc_enabled = True, rc_max_wait = 300 * nanos_per_sec, rc_respect_retry_after = True\<rparr>"

definition disabled_rate_limit :: rate_limit_config where
  "disabled_rate_limit = default_rate_limit\<lparr>rc_enabled := False\<rparr>"

record rate_limit_builder =
  rb_enabled :: "bool option"
  rb_max_wait :: "nat option"
  rb_respect_retry_after :: "bool option"

definition unwrap_or :: "'a option \<Rightarrow> 'a \<Rightarrow> 'a" where
  "unwrap_or x d = (case x of None \<Rightarrow> d | Some a \<Rightarrow> a)"

definition rate_limit_build :: "rate_limit_builder \<Rightarrow> rate_limit_config" where
  "rate_limit_build b =
    \<lparr>rc_enabled = unwrap_or (rb_enabled b) (rc_enabled default_rate_limit),
     rc_max_wait = unwrap_or (rb_max_wait b) (rc_max_wait default_rate_limit),
     rc_respect_retry_after =
       unwrap_or (rb_respect_retry_after b) (rc_respect_retry_after default_rate_limit)\<rparr>"

text \<open>The date parser of the \<open>httpdate\<close> crate is the parameter \<open>http_date\<close>.\<close>

definition parse_retry_after :: "(string \<Rightarrow> int option) \<Rightarrow> int \<Rightarrow> header_map \<Rightarrow> nat option" where
  "parse_retry_after http_date now headers =
    (case header_text headers ''retry-after'' of
       None \<Rightarrow> None
     | Some header \<Rightarrow>
        (case parse_u64 header of
           Some seconds \<Rightarrow> Some (from_secs seconds)
         | None \<Rightarrow> (case http_date header of None \<Rightarrow> None | Some date \<Rightarrow> duration_since date now)))"

fun reset_loop :: "header_map \<Rightarrow> string list \<Rightarrow> int option option" where
  "reset_loop headers [] = Some None"
| "reset_loop headers (name # names) =
    (case header_text headers name of
       None \<Rightarrow> reset_loop headers names
     | Some v \<Rightarrow>
        (case parse_u64 v of
           None \<Rightarrow> reset_loop headers names
         | Some timestamp \<Rightarrow> map_option Some (epoch_plus_secs timestamp)))"

definition parse_rate_limit_reset :: "header_map \<Rightarrow> int option option" where
  "parse_rate_limit_reset headers = reset_loop headers [''x-ratelimit-reset'', ''ratelimit-reset'']"

definition parse_rate_limit_remaining :: "header_map \<Rightarrow> u64 option" where
  "parse_rate_limit_remaining headers =
    (case header_text headers ''x-ratelimit-remaining'' of None \<Rightarrow> None | Some v \<Rightarrow> parse_u64 v)"

definition rate_limit_from_headers :: "(string \<Rightarrow> int option) \<Rightarrow> int \<Rightarrow> header_map \<Rightarrow> rate_limit_info option" where
  "rate_limit_from_headers http_date now headers =
    (case parse_rate_limit_reset headers of
       None \<Rightarrow> None
     | Some reset \<Rightarrow> Some \<lparr>rl_reset_at = reset, rl_retry_after = parse_retry_after http_date now headers,
         rl_remaining = parse_rate_limit_remaining headers\<rparr>)"

definition is_rate_limited :: "rate_limit_info \<Rightarrow> bool" where
  "is_rate_limited info \<longleftrightarrow> rl_retry_after info \<noteq> None \<or> rl_remaining info = Some 0"

definition has_wait_hint :: "rate_limit_info \<Rightarrow> bool" where
  "has_wait_hint info \<longleftrightarrow> rl_retry_after info \<noteq> None \<or> rl_reset_at info \<noteq> None"

definition info_delay :: "int \<Rightarrow> rate_limit_info \<Rightarrow> rate_limit_config \<Rightarrow> nat option" where
  "info_delay now info config =
    (if \<not> rc_enabled config then None
     else if rc_respect_retry_after config \<and> rl_retry_after info \<noteq> None
     then Some (min (the (rl_retry_after info)) (rc_max_wait config))
     else (case rl_reset_at info of
             None \<Rightarrow> None
           | Some reset_at \<Rightarrow> map_option (\<lambda>delay. min delay (rc_max_wait config)) (duration_since reset_at now)))"

section \<open>Errors\<close>

text \<open>What the client asks of a \<open>reqwest::Error\<close>.\<close>

record transport_error =
  te_timeout :: bool
  te_connect :: bool
  te_body :: bool
  te_decode :: bool
  te_text :: string

type_synonym status_code = u16

definition is_success :: "status_code \<Rightarrow> bool" where
  "is_success status \<longleftrightarrow> 200 \<le> status \<and> status < 300"

definition is_server_error :: "status_code \<Rightarrow> bool" where
  "is_server_error status \<longleftrightarrow> 500 \<le> status \<and> status < 600"

definition too_many_requests :: status_code where
  "too_many_requests = 429"

datatype core_error =
    CoreConnect transport_error
  | CoreRequest transport_error
  | CoreTimeout transport_error
  | CoreBody transport_error
  | HttpStatus status_code bytes string header_map "rate_limit_info option"
  | DeserializationFailed string string status_code header_map
  | Configuration string
  | MaxRetriesExceeded nat core_error
  | SerializationFailed string
  | InvalidUrl string

definition from_reqwest :: "transport_error \<Rightarrow> core_error" where
  "from_reqwest e =
    (if te_timeout e then CoreTimeout e
     else if te_connect e then CoreConnect e
     else if te_body e \<or> te_decode e then CoreBody e
     else CoreRequest e)"

fun is_retryable :: "core_error \<Rightarrow> bool" where
  "is_retryable (CoreConnect _) = True"
| "is_retryable (CoreRequest _) = True"
| "is_retryable (CoreTimeout _) = True"
| "is_retryable (HttpStatus status _ _ _ _) = (is_server_error status \<or> status = too_many_requests)"
| "is_retryable (CoreBody _) = False"
| "is_retryable (DeserializationFailed _ _ _ _) = False"
| "is_retryable (Configuration _) = False"
| "is_retryable (MaxRetriesExceeded _ _) = False"
| "is_retryable (SerializationFailed _) = False"
| "is_retryable (InvalidUrl _) = False"

fun error_status :: "core_error \<Rightarrow> status_code option" where
  "error_status (HttpStatus status _ _ _ _) = Some status"
| "error_status (DeserializationFailed _ _ status _) = Some status"
| "error_status _ = None"

fun error_raw_body :: "core_error \<Rightarrow> bytes option" where
  "error_raw_body (HttpStatus _ raw_body _ _ _) = Some raw_body"
| "error_raw_body _ = None"

fun error_raw_response :: "core_error \<Rightarrow> string option" where
  "error_raw_response (HttpStatus _ _ raw_response _ _) = Some raw_response"
| "error_raw_response (DeserializationFailed raw_response _ _ _) = Some raw_response"
| "error_raw_response _ = None"

fun error_headers :: "core_error \<Rightarrow> header_map option" where
  "error_headers (HttpStatus _ _ _ headers _) = Some headers"
| "error_headers (DeserializationFailed _ _ _ headers) = Some headers"
| "error_headers _ = None"

fun error_rate_limit_info :: "core_error \<Rightarrow> rate_limit_info option" where
  "error_rate_limit_info (HttpStatus _ _ _ _ info) = info"
| "error_rate_limit_info _ = None"

definition rate_limit_delay :: "int \<Rightarrow> core_error \<Rightarrow> rate_limit_config \<Rightarrow> nat option" where
  "rate_limit_delay now e config =
    (if \<not> rc_enabled config then None
     else (case error_rate_limit_info e of None \<Rightarrow> None | Some info \<Rightarrow> info_delay now info config))"

section \<open>Retries\<close>

datatype retry_strategy =
    NoRetry
  | ExponentialBackoff nat nat nat bool
  | LinearDelay nat nat
  | CustomDelay nat "nat \<Rightarrow> nat option"

definition u32_max :: nat where
  "u32_max = 2 ^ 32 - 1"

text \<open>\<open>2u32.saturating_pow(attempt.saturating_sub(1) as u32)\<close>; the cast keeps the low 32 bits.\<close>

definition backoff_multiplier :: "nat \<Rightarrow> nat" where
  "backoff_multiplier attempt =
    (let k = unat (word_of_nat (attempt - 1) :: u32) in if k < 32 then 2 ^ k else u32_max)"

text \<open>\<open>jittered\<close> is the multiplication by the random factor drawn for this call.\<close>

fun delay_for_attempt :: "(nat \<Rightarrow> nat) \<Rightarrow> retry_strategy \<Rightarrow> nat \<Rightarrow> nat option" where
  "delay_for_attempt jittered NoRetry attempt = None"
| "delay_for_attempt jittered (ExponentialBackoff initial max_delay retries jitter) attempt =
    (if attempt > retries then None
     else (let delay = min (duration_mul initial (backoff_multiplier attempt)) max_delay in
           if jitter then Some (jittered delay) else Some delay))"
| "delay_for_attempt jittered (LinearDelay delay retries) attempt =
    (if attempt \<le> retries then Some delay else None)"
| "delay_for_attempt jittered (CustomDelay retries delay_fn) attempt =
    (if attempt \<le> retries then delay_fn attempt else None)"

fun strategy_max_retries :: "retry_strategy \<Rightarrow> nat" where
  "strategy_max_retries NoRetry = 0"
| "strategy_max_retries (ExponentialBackoff _ _ retries _) = retries"
| "strategy_max_retries (LinearDelay _ retries) = retries"
| "strategy_max_retries (CustomDelay retries _) = retries"

lemma delay_within_retries: "delay_for_attempt j strategy attempt = Some d \<Longrightarrow> attempt \<le> strategy_max_retries strategy"
  by (cases strategy) (auto simp: Let_def split: if_splits)

type_synonym retry_predicate = "core_error \<Rightarrow> nat \<Rightarrow> bool"

definition retry_on_retryable :: retry_predicate where
  "retry_on_retryable e attempt = is_retryable e"

definition retry_on_5xx :: retry_predicate where
  "retry_on_5xx e attempt = (case e of HttpStatus status _ _ _ _ \<Rightarrow> is_server_error status | _ \<Rightarrow> False)"

definition retry_on_timeout :: retry_predicate where
  "retry_on_timeout e attempt = (case e of CoreTimeout _ \<Rightarrow> True | _ \<Rightarrow> False)"

definition retry_on_connection_error :: retry_predicate where
  "retry_on_connection_error e attempt = (case e of CoreConnect _ \<Rightarrow> True | _ \<Rightarrow> False)"

definition or_predicate :: "retry_predicate list \<Rightarrow> retry_predicate" where
  "or_predicate predicates e attempt = list_ex (\<lambda>p. p e attempt) predicates"

definition and_predicate :: "retry_predicate list \<Rightarrow> retry_predicate" where
  "and_predicate predicates e attempt = list_all (\<lambda>p. p e attempt) predicates"

section \<open>Request metadata\<close>

datatype request_auth = BasicAuth string string | BearerAuth string

text \<open>A \<open>BTreeMap<String, String>\<close>, in the order of its keys.\<close>

type_synonym pairs = "(string \<times> string) list"

fun pairs_insert :: "string \<Rightarrow> string \<Rightarrow> pairs \<Rightarrow> pairs" where
  "pairs_insert k v [] = [(k, v)]"
| "pairs_insert k v ((k', v') # ps) =
    (if k = k' then (k, v) # ps else if k < k' then (k, v) # (k', v') # ps else (k', v') # pairs_insert k v ps)"

record request_metadata =
  md_method :: string
  md_path :: string
  md_headers :: pairs
  md_query_params :: pairs
  md_form_data :: "pairs option"
  md_auth :: "request_auth option"

definition metadata_new :: "string \<Rightarrow> string \<Rightarrow> request_metadata" where
  "metadata_new method path = \<lparr>md_method = method, md_path = path, md_headers = [], md_query_params = [],
    md_form_data = None, md_auth = None\<rparr>"

text \<open>\<open>HeaderName::try_from\<close> and \<open>HeaderValue::try_from\<close> are parameters.  \<open>HeaderMap::insert\<close> replaces
  the values of a name, in place.\<close>

fun header_insert :: "string \<Rightarrow> string \<Rightarrow> pairs \<Rightarrow> pairs" where
  "header_insert k v [] = [(k, v)]"
| "header_insert k v ((k', v') # ps) = (if k = k' then (k, v) # ps else (k', v') # header_insert k v ps)"

definition checked_header ::
  "(string \<Rightarrow> string + string) \<Rightarrow> (string \<Rightarrow> string + string) \<Rightarrow> string \<Rightarrow> string \<Rightarrow> core_error + string \<times> string" where
  "checked_header header_name header_value name value =
    try_res (map_err (header_name name) (\<lambda>e. Configuration (''invalid header name: '' @ e))) (\<lambda>n.
    try_res (map_err (header_value value) (\<lambda>e. Configuration (''invalid header value: '' @ e))) (\<lambda>v.
    Inr (n, v)))"

definition with_header ::
  "(string \<Rightarrow> string + string) \<Rightarrow> (string \<Rightarrow> string + string) \<Rightarrow> request_metadata \<Rightarrow> string \<Rightarrow> string
    \<Rightarrow> core_error + request_metadata" where
  "with_header header_name header_value md name value =
    try_res (checked_header header_name header_value name value) (\<lambda>(n, v).
    Inr (md\<lparr>md_headers := header_insert n v (md_headers md)\<rparr>))"

definition with_query_param :: "request_metadata \<Rightarrow> string \<Rightarrow> string \<Rightarrow> request_metadata" where
  "with_query_param md k v = md\<lparr>md_query_params := pairs_insert k v (md_query_params md)\<rparr>"

definition with_query_params :: "request_metadata \<Rightarrow> pairs \<Rightarrow> request_metadata" where
  "with_query_params md ps =
    md\<lparr>md_query_params := foldl (\<lambda>m (k, v). pairs_insert k v m) (md_query_params md) ps\<rparr>"

definition with_form_data :: "request_metadata \<Rightarrow> pairs \<Rightarrow> request_metadata" where
  "with_form_data md ps = md\<lparr>md_form_data := Some ps\<rparr>"

definition with_basic_auth :: "request_metadata \<Rightarrow> string \<Rightarrow> string \<Rightarrow> request_metadata" where
  "with_basic_auth md username password = md\<lparr>md_auth := Some (BasicAuth username password)\<rparr>"

definition with_bearer_auth :: "request_metadata \<Rightarrow> string \<Rightarrow> request_metadata" where
  "with_bearer_auth md token = md\<lparr>md_auth := Some (BearerAuth token)\<rparr>"

section \<open>Responses\<close>

record 'd response =
  rs_data :: 'd
  rs_raw_body :: bytes
  rs_status :: status_code
  rs_headers :: header_map
  rs_latency :: nat
  rs_attempts :: nat

definition response_map :: "('d \<Rightarrow> 'e) \<Rightarrow> 'd response \<Rightarrow> 'e response" where
  "response_map f r = \<lparr>rs_data = f (rs_data r), rs_raw_body = rs_raw_body r, rs_status = rs_status r,
    rs_headers = rs_headers r, rs_latency = rs_latency r, rs_attempts = rs_attempts r\<rparr>"

definition was_retried :: "'d response \<Rightarrow> bool" where
  "was_retried r \<longleftrightarrow> rs_attempts r > 1"

definition response_header :: "'d response \<Rightarrow> string \<Rightarrow> string option" where
  "response_header r name = header_text (rs_headers r) name"

definition raw_text :: "'d response \<Rightarrow> string option" where
  "raw_text r = (if utf8_valid (rs_raw_body r) then Some (bytes_string (rs_raw_body r)) else None)"

section \<open>Bounds\<close>

lemma backoff_bounded: "backoff_multiplier attempt \<le> u32_max" "0 < backoff_multiplier attempt"
proof -
  have "(2 :: nat) ^ k \<le> u32_max" if "k < 32" for k
  proof -
    have "(2 :: nat) ^ k \<le> 2 ^ 31" using that by (intro power_increasing) auto
    then show ?thesis by (simp add: u32_max_def)
  qed
  then show "backoff_multiplier attempt \<le> u32_max" by (simp add: backoff_multiplier_def Let_def)
  show "0 < backoff_multiplier attempt" by (simp add: backoff_multiplier_def Let_def u32_max_def)
qed

text \<open>The largest wait a strategy asks for.\<close>

fun strategy_bound :: "retry_strategy \<Rightarrow> nat \<Rightarrow> bool" where
  "strategy_bound NoRetry cap = True"
| "strategy_bound (ExponentialBackoff _ max_delay _ _) cap = (max_delay \<le> cap)"
| "strategy_bound (LinearDelay delay _) cap = (delay \<le> cap)"
| "strategy_bound (CustomDelay retries delay_fn) cap =
    (\<forall>attempt \<le> retries. case delay_fn attempt of None \<Rightarrow> True | Some d \<Rightarrow> d \<le> cap)"

lemma strategy_delay_bounded:
  assumes "delay_for_attempt j strategy attempt = Some d" "strategy_bound strategy cap" "\<And>d. j d \<le> d"
  shows "d \<le> cap"
proof (cases strategy)
  case (ExponentialBackoff initial max_delay retries jitter)
  then show ?thesis using assms order_trans [OF assms(3)]
    by (auto simp: Let_def min_le_iff_disj split: if_splits)
next
  case (CustomDelay retries delay_fn)
  have "attempt \<le> retries" "delay_fn attempt = Some d"
    using assms(1) by (auto simp: CustomDelay split: if_splits)
  then show ?thesis using assms(2) by (auto simp: CustomDelay dest: spec [of _ attempt])
qed (use assms in \<open>auto split: if_splits\<close>)

lemma info_delay_bounded: "info_delay now info config = Some d \<Longrightarrow> d \<le> rc_max_wait config"
  by (auto simp: info_delay_def split: if_splits option.splits)

lemma rate_limit_delay_bounded: "rate_limit_delay now e config = Some d \<Longrightarrow> d \<le> rc_max_wait config"
  by (auto simp: rate_limit_delay_def dest: info_delay_bounded split: if_splits option.splits)

text \<open>Without jitter the exponential delays never shrink, up to the attempt at which the exponent
  cast to 32 bits starts again.\<close>

lemma backoff_monotone:
  assumes "a \<le> b" "b \<le> 2 ^ 32"
  shows "backoff_multiplier a \<le> backoff_multiplier b"
proof -
  have u: "unat (word_of_nat (n - 1) :: u32) = n - 1" if "n \<le> 2 ^ 32" for n
    using that by (simp add: unat_of_nat)
  have le: "(2 :: nat) ^ k \<le> u32_max" if "k < 32" for k
  proof -
    have "(2 :: nat) ^ k \<le> 2 ^ 31" using that by (intro power_increasing) auto
    then show ?thesis by (simp add: u32_max_def)
  qed
  show ?thesis using u [of a] u [of b] assms le
    by (auto simp: backoff_multiplier_def Let_def intro!: power_increasing diff_le_mono)
qed

text \<open>A reset header past the range of a \<open>SystemTime\<close> panics.\<close>

lemma reset_header_panics:
  assumes "header_text headers ''x-ratelimit-reset'' = Some v" "parse_u64 v = Some t" "2 ^ 63 \<le> unat t"
  shows "rate_limit_from_headers http_date now headers = None"
  using assms by (simp add: rate_limit_from_headers_def parse_rate_limit_reset_def epoch_plus_secs_def)

end
