(* ===== verification/Sdk_Http.thy ===== *)
theory Sdk_Http
  imports Sdk_Core
begin

text \<open>
  The HTTP client (\<open>crates/yeetz-sdk-core/src/client.rs\<close>): how a request is put together, the
  interpretation of a response, and the loop that retries a call.

  The HTTP stack, the clocks and the random source are the record \<open>http_env\<close> over a world \<open>'w\<close>;
  reading the body of a response gives bytes or an error.  JSON is the parameters \<open>to_json\<close> (applied
  by the caller: the body arrives as its result) and \<open>from_json\<close>.
\<close>

section \<open>The client\<close>

record client =
  hc_base_path :: string
  hc_base_query :: pairs
  hc_default_headers :: pairs
  hc_default_auth :: "request_auth option"
  hc_retry_strategy :: retry_strategy
  hc_retry_predicate :: retry_predicate
  hc_timeout :: "nat option"
  hc_rate_limit_config :: rate_limit_config

record client_builder =
  hb_base_url :: "(string \<times> pairs) option"
  hb_default_headers :: pairs
  hb_default_auth :: "request_auth option"
  hb_retry_strategy :: retry_strategy
  hb_retry_predicate :: "retry_predicate option"
  hb_timeout :: "nat option"
  hb_rate_limit_config :: rate_limit_config

definition builder_new :: client_builder where
  "builder_new = \<lparr>hb_base_url = None, hb_default_headers = [], hb_default_auth = None,
    hb_retry_strategy = NoRetry, hb_retry_predicate = None, hb_timeout = None,
    hb_rate_limit_config = default_rate_limit\<rparr>"

text \<open>\<open>Url::parse\<close> is a parameter: it gives the path and the query of the base URL.\<close>

definition builder_base_url ::
  "(string \<Rightarrow> string + string \<times> pairs) \<Rightarrow> client_builder \<Rightarrow> string \<Rightarrow> core_error + client_builder" where
  "builder_base_url parse_url b url =
    try_res (map_err (parse_url url) InvalidUrl) (\<lambda>parsed. Inr (b\<lparr>hb_base_url := Some parsed\<rparr>))"

definition builder_default_header ::
  "(string \<Rightarrow> string + string) \<Rightarrow> (string \<Rightarrow> string + string) \<Rightarrow> client_builder \<Rightarrow> string \<Rightarrow> string
    \<Rightarrow> core_error + client_builder" where
  "builder_default_header header_name header_value b name value =
    try_res (checked_header header_name header_value name value) (\<lambda>(n, v).
    Inr (b\<lparr>hb_default_headers := header_insert n v (hb_default_headers b)\<rparr>))"

definition builder_basic_auth :: "client_builder \<Rightarrow> string \<Rightarrow> string \<Rightarrow> client_builder" where
  "builder_basic_auth b username password = b\<lparr>hb_default_auth := Some (BasicAuth username password)\<rparr>"

definition builder_bearer_auth :: "client_builder \<Rightarrow> string \<Rightarrow> client_builder" where
  "builder_bearer_auth b token = b\<lparr>hb_default_auth := Some (BearerAuth token)\<rparr>"

text \<open>\<open>http_client\<close> is what building the HTTP stack gives.\<close>

definition builder_build :: "string + unit \<Rightarrow> client_builder \<Rightarrow> core_error + client" where
  "builder_build http_client b =
    try_res (ok_or (hb_base_url b) (Configuration ''base URL is required'')) (\<lambda>(path, query).
    try_res (map_err http_client (\<lambda>e. Configuration (''failed to build HTTP client: '' @ e))) (\<lambda>_.
    Inr \<lparr>hc_base_path = path, hc_base_query = query, hc_default_headers = hb_default_headers b,
      hc_default_auth = hb_default_auth b, hc_retry_strategy = hb_retry_strategy b,
      hc_retry_predicate = (case hb_retry_predicate b of None \<Rightarrow> retry_on_retryable | Some p \<Rightarrow> p),
      hc_timeout = hb_timeout b, hc_rate_limit_config = hb_rate_limit_config b\<rparr>))"

section \<open>Requests\<close>

definition trim_start_slashes :: "string \<Rightarrow> string" where
  "trim_start_slashes s = dropWhile (\<lambda>c. c = CHR ''/'') s"

definition trim_end_slashes :: "string \<Rightarrow> string" where
  "trim_end_slashes s = rev (dropWhile (\<lambda>c. c = CHR ''/'') (rev s))"

definition compose_path :: "string \<Rightarrow> string \<Rightarrow> string" where
  "compose_path base_path request_path =
    (let request_path = trim_start_slashes request_path in
     if request_path = [] then (if base_path = [] then ''/'' else base_path)
     else (let base_path = trim_end_slashes base_path in
           if base_path = [] \<or> base_path = ''/'' then CHR ''/'' # request_path
           else base_path @ CHR ''/'' # request_path))"

datatype request_body = NoBody | JsonBody string | FormBody pairs

text \<open>The calls made on the request builder: the path given to \<open>set_path\<close>, the query, the headers in
  the order in which they are added.\<close>

record http_request =
  rq_method :: string
  rq_path :: string
  rq_query :: pairs
  rq_headers :: pairs
  rq_timeout :: "nat option"
  rq_body :: request_body

text \<open>The base64 encoding of a text is the parameter \<open>base64\<close>; \<open>bearer_auth\<close> of the HTTP stack adds the
  header \<open>Bearer\<close>.\<close>

fun apply_auth :: "(string \<Rightarrow> string) \<Rightarrow> request_auth \<Rightarrow> string \<times> string" where
  "apply_auth base64 (BasicAuth username password) =
    (''authorization'', ''Basic '' @ base64 (username @ '':'' @ password))"
| "apply_auth base64 (BearerAuth token) = (''authorization'', ''Bearer '' @ token)"

definition effective_auth :: "client \<Rightarrow> request_metadata \<Rightarrow> request_auth option" where
  "effective_auth C md = (case md_auth md of Some a \<Rightarrow> Some a | None \<Rightarrow> hc_default_auth C)"

text \<open>\<open>body\<close> is the JSON of the body, or the error of its serialisation.\<close>

definition build_request ::
  "(string \<Rightarrow> string) \<Rightarrow> client \<Rightarrow> request_metadata \<Rightarrow> (string + string) option \<Rightarrow> core_error + http_request" where
  "build_request base64 C md body =
    (let auth = (case effective_auth C md of None \<Rightarrow> [] | Some a \<Rightarrow> [apply_auth base64 a]);
         request = \<lparr>rq_method = md_method md, rq_path = compose_path (hc_base_path C) (md_path md),
           rq_query = hc_base_query C @ md_query_params md,
           rq_headers = hc_default_headers C @ md_headers md @ auth,
           rq_timeout = hc_timeout C, rq_body = NoBody\<rparr> in
     case body of
       Some (Inl e) \<Rightarrow> Inl (SerializationFailed e)
     | Some (Inr json) \<Rightarrow> Inr (request\<lparr>rq_body := JsonBody json\<rparr>)
     | None \<Rightarrow>
        (case md_form_data md of
           None \<Rightarrow> Inr request
         | Some form \<Rightarrow> Inr (request\<lparr>rq_headers := rq_headers request @
             [(''content-type'', ''application/x-www-form-urlencoded'')], rq_body := FormBody form\<rparr>)))"

record http_response =
  hr_status :: status_code
  hr_headers :: header_map
  hr_body :: "transport_error + bytes"

record 'w http_env =
  he_send :: "http_request \<Rightarrow> 'w \<Rightarrow> (transport_error + http_response) \<times> 'w"
  he_sleep :: "nat \<Rightarrow> 'w \<Rightarrow> 'w"
  he_instant :: "'w \<Rightarrow> nat"
  he_now :: "'w \<Rightarrow> int"
  he_random :: "'w \<Rightarrow> (nat \<Rightarrow> nat) \<times> 'w"
  he_date :: "string \<Rightarrow> int option"
  he_base64 :: "string \<Rightarrow> string"

definition execute_request ::
  "'w http_env \<Rightarrow> client \<Rightarrow> request_metadata \<Rightarrow> (string + string) option \<Rightarrow> 'w
    \<Rightarrow> (core_error + http_response) \<times> 'w" where
  "execute_request E C md body w =
    (case build_request (he_base64 E) C md body of
       Inl e \<Rightarrow> (Inl e, w)
     | Inr request \<Rightarrow> (case he_send E request w of (r, w') \<Rightarrow> (map_err r from_reqwest, w')))"

section \<open>Responses\<close>

definition http_status_error ::
  "'w http_env \<Rightarrow> client \<Rightarrow> 'w \<Rightarrow> status_code \<Rightarrow> header_map \<Rightarrow> bytes \<Rightarrow> core_error option" where
  "http_status_error E C w status headers body =
    (if rc_enabled (hc_rate_limit_config C)
     then (case rate_limit_from_headers (he_date E) (he_now E w) headers of
             None \<Rightarrow> None
           | Some info \<Rightarrow>
               Some (HttpStatus status body (from_utf8_lossy body) headers
                 (if is_rate_limited info \<or> (status = too_many_requests \<and> has_wait_hint info)
                  then Some info else None)))
     else Some (HttpStatus status body (from_utf8_lossy body) headers None))"

text \<open>The three ways to read a response, each given the latency and the number of attempts.\<close>

type_synonym ('w, 'r) reader = "http_response \<Rightarrow> nat \<Rightarrow> nat \<Rightarrow> 'w \<Rightarrow> (core_error + 'r) option"

definition failed_status :: "'w http_env \<Rightarrow> client \<Rightarrow> http_response \<Rightarrow> 'w \<Rightarrow> (core_error + 'r) option" where
  "failed_status E C response w =
    (let body = (case hr_body response of Inl _ \<Rightarrow> [] | Inr b \<Rightarrow> b) in
     map_option Inl (http_status_error E C w (hr_status response) (hr_headers response) body))"

definition parse_bytes_response :: "'w http_env \<Rightarrow> client \<Rightarrow> ('w, bytes response) reader" where
  "parse_bytes_response E C response latency attempts w =
    (if \<not> is_success (hr_status response) then failed_status E C response w
     else Some (try_res (map_err (hr_body response) from_reqwest) (\<lambda>body.
       Inr \<lparr>rs_data = body, rs_raw_body = body, rs_status = hr_status response,
         rs_headers = hr_headers response, rs_latency = latency, rs_attempts = attempts\<rparr>)))"

definition parse_json_response ::
  "(string \<Rightarrow> string + 'd) \<Rightarrow> 'w http_env \<Rightarrow> client \<Rightarrow> ('w, 'd response) reader" where
  "parse_json_response from_json E C response latency attempts w =
    (if \<not> is_success (hr_status response) then failed_status E C response w
     else Some (try_res (map_err (hr_body response) from_reqwest) (\<lambda>body.
       let raw_response = from_utf8_lossy body;
           parse_target = (if body = [] then ''{}'' else raw_response) in
       try_res (map_err (from_json parse_target)
         (\<lambda>e. DeserializationFailed raw_response e (hr_status response) (hr_headers response))) (\<lambda>data.
       Inr \<lparr>rs_data = data, rs_raw_body = body, rs_status = hr_status response,
         rs_headers = hr_headers response, rs_latency = latency, rs_attempts = attempts\<rparr>))))"

record started_response =
  sr_response :: http_response
  sr_status :: status_code
  sr_headers :: header_map
  sr_latency :: nat
  sr_attempts :: nat

definition accept_started_response :: "'w http_env \<Rightarrow> client \<Rightarrow> ('w, started_response) reader" where
  "accept_started_response E C response latency attempts w =
    (if \<not> is_success (hr_status response) then failed_status E C response w
     else Some (Inr \<lparr>sr_response = response, sr_status = hr_status response,
       sr_headers = hr_headers response, sr_latency = latency, sr_attempts = attempts\<rparr>))"

definition into_bytes_response :: "started_response \<Rightarrow> core_error + bytes response" where
  "into_bytes_response s =
    try_res (map_err (hr_body (sr_response s)) from_reqwest) (\<lambda>body.
    Inr \<lparr>rs_data = body, rs_raw_body = body, rs_status = sr_status s, rs_headers = sr_headers s,
      rs_latency = sr_latency s, rs_attempts = sr_attempts s\<rparr>)"

section \<open>Calls\<close>

text \<open>One attempt: the request, then the reader on its response.\<close>

definition attempt_once ::
  "'w http_env \<Rightarrow> client \<Rightarrow> request_metadata \<Rightarrow> (string + string) option \<Rightarrow> ('w, 'r) reader \<Rightarrow> nat
    \<Rightarrow> nat \<Rightarrow> 'w \<Rightarrow> (core_error + 'r) option \<times> 'w" where
  "attempt_once E C md body reader start attempt w =
    (case execute_request E C md body w of
       (Inl e, w') \<Rightarrow> (Some (Inl e), w')
     | (Inr response, w') \<Rightarrow> (reader response (he_instant E w' - start) attempt w', w'))"

text \<open>The random factor is drawn only where the strategy asks for jitter.\<close>

definition draws_jitter :: "retry_strategy \<Rightarrow> nat \<Rightarrow> bool" where
  "draws_jitter strategy attempt =
    (case strategy of ExponentialBackoff _ _ retries jitter \<Rightarrow> attempt \<le> retries \<and> jitter | _ \<Rightarrow> False)"

definition strategy_delay :: "'w http_env \<Rightarrow> client \<Rightarrow> nat \<Rightarrow> 'w \<Rightarrow> nat option \<times> 'w" where
  "strategy_delay E C attempt w =
    (if draws_jitter (hc_retry_strategy C) attempt
     then (case he_random E w of (jittered, w') \<Rightarrow> (delay_for_attempt jittered (hc_retry_strategy C) attempt, w'))
     else (delay_for_attempt id (hc_retry_strategy C) attempt, w))"

text \<open>What follows a failed attempt: \<open>Inl\<close> the error to return, \<open>Inr\<close> the time to sleep.\<close>

definition after_failure ::
  "'w http_env \<Rightarrow> client \<Rightarrow> core_error \<Rightarrow> nat \<Rightarrow> bool \<Rightarrow> 'w \<Rightarrow> (core_error + nat) \<times> 'w" where
  "after_failure E C e attempt did_retry w =
    (if \<not> hc_retry_predicate C e attempt then (Inl e, w)
     else (case strategy_delay E C attempt w of
        (None, w') \<Rightarrow> (Inl (if did_retry then MaxRetriesExceeded attempt e else e), w')
      | (Some d, w') \<Rightarrow>
          (Inr (case rate_limit_delay (he_now E w') e (hc_rate_limit_config C) of None \<Rightarrow> d | Some x \<Rightarrow> x), w')))"

lemma after_failure_retries:
  assumes "after_failure E C e attempt did_retry w = (Inr d, w')"
  shows "attempt \<le> strategy_max_retries (hc_retry_strategy C)"
  using assms delay_within_retries
  by (auto simp: after_failure_def strategy_delay_def split: if_splits option.splits prod.splits)

function retry_loop ::
  "'w http_env \<Rightarrow> client \<Rightarrow> request_metadata \<Rightarrow> (string + string) option \<Rightarrow> ('w, 'r) reader \<Rightarrow> nat
    \<Rightarrow> nat \<Rightarrow> bool \<Rightarrow> 'w \<Rightarrow> (core_error + 'r) option \<times> 'w" where
  "retry_loop E C md body reader start attempt did_retry w =
    (case attempt_once E C md body reader start (Suc attempt) w of
       (Some (Inl e), w1) \<Rightarrow>
         (case after_failure E C e (Suc attempt) did_retry w1 of
            (Inl e', w2) \<Rightarrow> (Some (Inl e'), w2)
          | (Inr delay, w2) \<Rightarrow> retry_loop E C md body reader start (Suc attempt) True (he_sleep E delay w2))
     | done_with \<Rightarrow> done_with)"
  by pat_completeness auto
termination
  by (relation "measure (\<lambda>(E, C, md, body, reader, start, attempt, did_retry, w).
        Suc (strategy_max_retries (hc_retry_strategy C)) - attempt)")
    (auto dest!: sym [THEN after_failure_retries])

declare retry_loop.simps [simp del]

definition call ::
  "'w http_env \<Rightarrow> client \<Rightarrow> request_metadata \<Rightarrow> (string + string) option \<Rightarrow> ('w, 'r) reader \<Rightarrow> 'w
    \<Rightarrow> (core_error + 'r) option \<times> 'w" where
  "call E C md body reader w = retry_loop E C md body reader (he_instant E w) 0 False w"

definition call_bytes where
  "call_bytes E C md body w = call E C md body (parse_bytes_response E C) w"

definition call_json where
  "call_json from_json E C md body w = call E C md body (parse_json_response from_json E C) w"

definition execute_started where
  "execute_started E C md body w = call E C md body (accept_started_response E C) w"

definition http_get where
  "http_get from_json E C path w = call_json from_json E C (metadata_new ''GET'' path) None w"

definition http_post where
  "http_post from_json E C path body w = call_json from_json E C (metadata_new ''POST'' path) (Some body) w"

definition http_post_form where
  "http_post_form from_json E C path form w =
    call_json from_json E C (with_form_data (metadata_new ''POST'' path) form) None w"

definition http_put where
  "http_put from_json E C path body w = call_json from_json E C (metadata_new ''PUT'' path) (Some body) w"

definition http_patch where
  "http_patch from_json E C path body w = call_json from_json E C (metadata_new ''PATCH'' path) (Some body) w"

definition http_delete where
  "http_delete from_json E C path w = call_json from_json E C (metadata_new ''DELETE'' path) None w"

definition http_get_bytes where
  "http_get_bytes E C path w = call_bytes E C (metadata_new ''GET'' path) None w"

definition http_post_bytes where
  "http_post_bytes E C path body w = call_bytes E C (metadata_new ''POST'' path) (Some body) w"

end
