(* ===== verification/Sdk_Calls.thy ===== *)
theory Sdk_Calls
  imports Sdk_Http
begin

text \<open>
  What a call of the HTTP client does: how often it sends, how long it sleeps, and what its result
  says about its attempts.
\<close>

section \<open>Metered worlds\<close>

text \<open>\<open>sent\<close> counts the requests of a world and \<open>slept\<close> sums its sleeps; a jittered delay is never
  longer than the delay (the random factor is at most 1).\<close>

definition metered :: "'w http_env \<Rightarrow> ('w \<Rightarrow> nat) \<Rightarrow> ('w \<Rightarrow> nat) \<Rightarrow> bool" where
  "metered E sent slept \<longleftrightarrow>
    (\<forall>q w. sent (snd (he_send E q w)) = Suc (sent w) \<and> slept (snd (he_send E q w)) = slept w) \<and>
    (\<forall>d w. sent (he_sleep E d w) = sent w \<and> slept (he_sleep E d w) = slept w + d) \<and>
    (\<forall>w. sent (snd (he_random E w)) = sent w \<and> slept (snd (he_random E w)) = slept w \<and>
      (\<forall>d. fst (he_random E w) d \<le> d))"

definition waits_within :: "client \<Rightarrow> nat \<Rightarrow> bool" where
  "waits_within C cap \<longleftrightarrow>
    strategy_bound (hc_retry_strategy C) cap \<and> rc_max_wait (hc_rate_limit_config C) \<le> cap"

abbreviation call_retries :: "client \<Rightarrow> nat" where
  "call_retries C \<equiv> strategy_max_retries (hc_retry_strategy C)"

lemma metered_send:
  assumes "metered E sent slept" "he_send E q w = (r, w')"
  shows "sent w' = Suc (sent w)" "slept w' = slept w"
proof -
  have "sent (snd (he_send E q w)) = Suc (sent w)" "slept (snd (he_send E q w)) = slept w"
    using assms(1) unfolding metered_def by blast+
  then show "sent w' = Suc (sent w)" "slept w' = slept w" by (simp_all add: assms(2))
qed

lemma metered_sleep:
  assumes "metered E sent slept"
  shows "sent (he_sleep E d w) = sent w" "slept (he_sleep E d w) = slept w + d"
  using assms unfolding metered_def by blast+

lemma metered_random:
  assumes "metered E sent slept" "he_random E w = (j, w')"
  shows "sent w' = sent w" "slept w' = slept w" "j d \<le> d"
proof -
  have "sent (snd (he_random E w)) = sent w" "slept (snd (he_random E w)) = slept w" "fst (he_random E w) d \<le> d"
    using assms(1) unfolding metered_def by blast+
  then show "sent w' = sent w" "slept w' = slept w" "j d \<le> d" by (simp_all add: assms(2))
qed

section \<open>One attempt\<close>

lemma metered_attempt:
  assumes "metered E sent slept" "attempt_once E C md body reader start attempt w = (r, w')"
  shows "sent w' \<le> Suc (sent w)" "slept w' = slept w" "body = None \<Longrightarrow> sent w' = Suc (sent w)"
proof -
  obtain x where x: "execute_request E C md body w = (x, w')"
    using assms(2) by (auto simp: attempt_once_def split: prod.splits sum.splits)
  have "sent w' \<le> Suc (sent w) \<and> slept w' = slept w \<and> (body = None \<longrightarrow> sent w' = Suc (sent w))"
  proof (cases "build_request (he_base64 E) C md body")
    case (Inl e)
    then have "w' = w" "body \<noteq> None"
      using x by (auto simp: execute_request_def build_request_def Let_def split: option.splits)
    then show ?thesis by simp
  next
    case (Inr q)
    then obtain y where "he_send E q w = (y, w')"
      using x by (auto simp: execute_request_def split: prod.splits)
    from metered_send [OF assms(1) this] show ?thesis by simp
  qed
  then show "sent w' \<le> Suc (sent w)" "slept w' = slept w" "body = None \<Longrightarrow> sent w' = Suc (sent w)" by auto
qed

lemma metered_delay:
  assumes "metered E sent slept" "waits_within C cap" "strategy_delay E C attempt w = (d, w')"
  shows "sent w' = sent w" "slept w' = slept w" "d = Some delay \<Longrightarrow> delay \<le> cap"
proof -
  have bound: "strategy_bound (hc_retry_strategy C) cap" using assms(2) by (simp add: waits_within_def)
  have "sent w' = sent w \<and> slept w' = slept w \<and> (d = Some delay \<longrightarrow> delay \<le> cap)"
  proof (cases "draws_jitter (hc_retry_strategy C) attempt")
    case True
    then obtain j where j: "he_random E w = (j, w')" "d = delay_for_attempt j (hc_retry_strategy C) attempt"
      using assms(3) by (auto simp: strategy_delay_def split: prod.splits)
    then show ?thesis
      using metered_random [OF assms(1) j(1)] strategy_delay_bounded [OF _ bound] by auto
  next
    case False
    then show ?thesis
      using assms(3) strategy_delay_bounded [OF _ bound, of id] by (auto simp: strategy_delay_def)
  qed
  then show "sent w' = sent w" "slept w' = slept w" "d = Some delay \<Longrightarrow> delay \<le> cap" by auto
qed

lemma metered_failure:
  assumes "metered E sent slept" "waits_within C cap" "after_failure E C e attempt did_retry w = (x, w')"
  shows "sent w' = sent w" "slept w' = slept w" "x = Inr delay \<Longrightarrow> delay \<le> cap"
proof -
  have "sent w' = sent w \<and> slept w' = slept w \<and> (x = Inr delay \<longrightarrow> delay \<le> cap)"
  proof (cases "hc_retry_predicate C e attempt")
    case True
    obtain d where d: "strategy_delay E C attempt w = (d, w')"
      using assms(3) True by (auto simp: after_failure_def split: prod.splits option.splits)
    have "rc_max_wait (hc_rate_limit_config C) \<le> cap" using assms(2) by (simp add: waits_within_def)
    then show ?thesis
      using metered_delay [OF assms(1,2) d] assms(3) True d
      by (auto simp: after_failure_def split: option.splits dest!: rate_limit_delay_bounded)
  qed (use assms(3) in \<open>auto simp: after_failure_def\<close>)
  then show "sent w' = sent w" "slept w' = slept w" "x = Inr delay \<Longrightarrow> delay \<le> cap" by auto
qed

section \<open>The loop\<close>

text \<open>One turn of the loop, by the outcome of its attempt.\<close>

lemma retry_turn:
  assumes "retry_loop E C md body reader start attempt did_retry w = (r, w')"
  obtains (ended) "attempt_once E C md body reader start (Suc attempt) w = (r, w')" "\<nexists>e. r = Some (Inl e)"
  | (refused) e w1 e' where "attempt_once E C md body reader start (Suc attempt) w = (Some (Inl e), w1)"
      "after_failure E C e (Suc attempt) did_retry w1 = (Inl e', w')" "r = Some (Inl e')"
  | (again) e w1 delay w2 where "attempt_once E C md body reader start (Suc attempt) w = (Some (Inl e), w1)"
      "after_failure E C e (Suc attempt) did_retry w1 = (Inr delay, w2)"
      "retry_loop E C md body reader start (Suc attempt) True (he_sleep E delay w2) = (r, w')"
proof -
  obtain x w1 where x: "attempt_once E C md body reader start (Suc attempt) w = (x, w1)" by force
  show thesis
  proof (cases "\<exists>e. x = Some (Inl e)")
    case True
    then obtain e where e: "x = Some (Inl e)" by blast
    obtain y w2 where y: "after_failure E C e (Suc attempt) did_retry w1 = (y, w2)" by force
    show thesis
      using assms x e y refused again
      by (subst (asm) retry_loop.simps) (cases y; auto)
  next
    case False
    then have "(r, w') = (x, w1)"
      using assms x by (subst (asm) retry_loop.simps) (auto split: option.splits sum.splits)
    then show thesis using ended x False by simp
  qed
qed

text \<open>An error that reports exhausted retries counts the attempts made.\<close>

definition counts_attempts :: "client \<Rightarrow> nat \<Rightarrow> core_error \<Rightarrow> bool" where
  "counts_attempts C n e = (case e of
      MaxRetriesExceeded k e' \<Rightarrow> k = n \<and> 2 \<le> n \<and> hc_retry_predicate C e' n
    | _ \<Rightarrow> True)"

text \<open>The attempt that ends the loop, and what it makes of its outcome.\<close>

definition ends_at ::
  "'w http_env \<Rightarrow> client \<Rightarrow> request_metadata \<Rightarrow> (string + string) option \<Rightarrow> ('w, 'r) reader \<Rightarrow> nat
    \<Rightarrow> nat \<Rightarrow> bool \<Rightarrow> (core_error + 'r) option \<Rightarrow> 'w \<Rightarrow> bool" where
  "ends_at E C md body reader start n did r w' \<longleftrightarrow>
    (\<exists>w1 w2 r'. attempt_once E C md body reader start n w1 = (r', w2) \<and>
      (case r' of Some (Inl e) \<Rightarrow> \<exists>e'. r = Some (Inl e') \<and> after_failure E C e n did w2 = (Inl e', w')
        | _ \<Rightarrow> r = r'))"

lemma ends_at_ended:
  assumes "attempt_once E C md body reader start n w1 = (r, w2)" "\<nexists>e. r = Some (Inl e)"
  shows "ends_at E C md body reader start n did r w2"
  unfolding ends_at_def
  by (rule exI [of _ w1], rule exI [of _ w2], rule exI [of _ r])
    (use assms in \<open>auto split: option.split sum.split\<close>)

lemma ends_at_refused:
  assumes "attempt_once E C md body reader start n w1 = (Some (Inl e), w2)"
    "after_failure E C e n did w2 = (Inl e', w')"
  shows "ends_at E C md body reader start n did (Some (Inl e')) w'"
  unfolding ends_at_def
  by (rule exI [of _ w1], rule exI [of _ w2], rule exI [of _ "Some (Inl e)"]) (simp add: assms)

definition loop_meter ::
  "('w \<Rightarrow> nat) \<Rightarrow> ('w \<Rightarrow> nat) \<Rightarrow> nat \<Rightarrow> (string + string) option \<Rightarrow> nat \<Rightarrow> nat \<Rightarrow> 'w \<Rightarrow> 'w \<Rightarrow> bool" where
  "loop_meter sent slept cap body attempt n w w' \<longleftrightarrow>
    sent w' \<le> sent w + (n - attempt) \<and> slept w' \<le> slept w + (n - Suc attempt) * cap \<and>
    (body = None \<longrightarrow> sent w' = sent w + (n - attempt))"

lemma loop_meter_step:
  assumes "sent w1 \<le> Suc (sent w)" "slept w1 = slept w + d" "d \<le> cap" "body = None \<Longrightarrow> sent w1 = Suc (sent w)"
    and "loop_meter sent slept cap body (Suc attempt) n w1 w'" "Suc attempt < n"
  shows "loop_meter sent slept cap body attempt n w w'"
proof -
  have "n - Suc attempt = Suc (n - Suc (Suc attempt))" "n - attempt = Suc (n - Suc attempt)" using assms(6) by simp_all
  then show ?thesis using assms(1-5) by (auto simp: loop_meter_def)
qed

lemma loop_bounded:
  assumes "metered E sent slept" "waits_within C cap"
  shows "retry_loop E C md body reader start attempt did_retry w = (r, w') \<Longrightarrow> attempt \<le> call_retries C \<Longrightarrow>
    \<exists>n. attempt < n \<and> n \<le> Suc (call_retries C) \<and> loop_meter sent slept cap body attempt n w w' \<and>
      ends_at E C md body reader start n (did_retry \<or> Suc attempt < n) r w'"
proof (induction "Suc (call_retries C) - attempt" arbitrary: attempt did_retry w)
  case 0
  then show ?case by simp
next
  case (Suc left)
  from Suc.prems(1) show ?case
  proof (cases rule: retry_turn)
    case ended
    have "loop_meter sent slept cap body attempt (Suc attempt) w w'"
      using metered_attempt [OF assms(1) ended(1)] by (simp add: loop_meter_def)
    then show ?thesis using Suc.prems(2) ends_at_ended [OF ended] by (intro exI [of _ "Suc attempt"]) simp
  next
    case (refused e w1 e')
    have "loop_meter sent slept cap body attempt (Suc attempt) w w'"
      using metered_attempt [OF assms(1) refused(1)] metered_failure(1,2) [OF assms refused(2)]
      by (simp add: loop_meter_def)
    then show ?thesis
      using Suc.prems(2) ends_at_refused [OF refused(1,2)] refused(3) by (intro exI [of _ "Suc attempt"]) simp
  next
    case (again e w1 delay w2)
    have small: "Suc attempt \<le> call_retries C" using after_failure_retries [OF again(2)] .
    then have "left = Suc (call_retries C) - Suc attempt" using Suc.hyps(2) by simp
    from Suc.hyps(1) [OF this again(3) small] obtain n where
      n: "Suc attempt < n" "n \<le> Suc (call_retries C)"
        "loop_meter sent slept cap body (Suc attempt) n (he_sleep E delay w2) w'"
        "ends_at E C md body reader start n True r w'" by auto
    note meters = metered_attempt [OF assms(1) again(1)] metered_failure(1,2) [OF assms again(2)]
      metered_failure(3) [OF assms again(2) refl] metered_sleep [OF assms(1), of delay w2]
    have "loop_meter sent slept cap body attempt n w w'"
      by (rule loop_meter_step [OF _ _ meters(6) _ n(3,1)]) (use meters in auto)
    then show ?thesis using n by (intro exI [of _ n]) simp
  qed
qed

lemma call_bounded:
  assumes "metered E sent slept" "waits_within C cap" "call E C md body reader w = (r, w')"
  shows "sent w' \<le> sent w + Suc (call_retries C)" "slept w' \<le> slept w + call_retries C * cap"
proof -
  from loop_bounded [OF assms(1,2) assms(3) [unfolded call_def]] obtain n where
    n: "0 < n" "n \<le> Suc (call_retries C)" "sent w' \<le> sent w + n" "slept w' \<le> slept w + (n - Suc 0) * cap"
    by (auto simp: loop_meter_def)
  then show "sent w' \<le> sent w + Suc (call_retries C)" by linarith
  have "(n - Suc 0) * cap \<le> call_retries C * cap" using n(2) by (intro mult_right_mono) auto
  then show "slept w' \<le> slept w + call_retries C * cap" using n(4) by linarith
qed

section \<open>Calls for bytes\<close>

text \<open>What a call without a body reports: a response, or exhausted retries, names the number of
  requests sent.\<close>

definition byte_report :: "client \<Rightarrow> nat \<Rightarrow> core_error + bytes response \<Rightarrow> bool" where
  "byte_report C n r = (case r of
      Inl e \<Rightarrow> counts_attempts C n e
    | Inr x \<Rightarrow> rs_attempts x = n \<and> is_success (rs_status x) \<and> rs_data x = rs_raw_body x)"

definition plain_error :: "core_error \<Rightarrow> bool" where
  "plain_error e \<longleftrightarrow> (case e of MaxRetriesExceeded _ _ \<Rightarrow> False | _ \<Rightarrow> True)"

lemma plain_counts: "plain_error e \<Longrightarrow> counts_attempts C n e"
  by (cases e) (simp_all add: plain_error_def counts_attempts_def)

lemma from_reqwest_plain [simp]: "plain_error (from_reqwest e)"
  by (simp add: from_reqwest_def plain_error_def)

lemma execute_plain: "execute_request E C md body w = (Inl e, w') \<Longrightarrow> plain_error e"
  by (auto simp: execute_request_def build_request_def Let_def plain_error_def
      split: option.splits sum.splits prod.splits)
    (metis (no_types, lifting) from_reqwest_plain map_err.simps plain_error_def sum.exhaust sum.inject(1) sum.distinct(1))+

lemma failed_status_plain: "failed_status E C response w = Some r \<Longrightarrow> \<exists>e. r = Inl e \<and> plain_error e"
  by (auto simp: failed_status_def http_status_error_def plain_error_def Let_def split: if_splits option.splits)

lemma bytes_attempt:
  assumes "attempt_once E C md body (parse_bytes_response E C) start n w = (Some r, w')"
  shows "case r of Inl e \<Rightarrow> plain_error e | Inr x \<Rightarrow> byte_report C n (Inr x)"
proof (cases "execute_request E C md body w")
  case (Pair y w1)
  show ?thesis
  proof (cases y)
    case (Inl e)
    then show ?thesis using assms Pair execute_plain [of E C md body w e w1] by (auto simp: attempt_once_def)
  next
    case (Inr response)
    then have parse: "parse_bytes_response E C response (he_instant E w1 - start) n w1 = Some r"
      using assms Pair by (auto simp: attempt_once_def)
    show ?thesis
    proof (cases "is_success (hr_status response)")
      case True
      then show ?thesis using parse
        by (cases "hr_body response") (auto simp: parse_bytes_response_def byte_report_def)
    qed (use parse failed_status_plain [of E C response w1 r] in \<open>auto simp: parse_bytes_response_def\<close>)
  qed
qed

lemma bytes_reported:
  assumes "metered E sent slept" "waits_within C cap" "call_bytes E C md None w = (Some r, w')"
  shows "\<exists>n. n \<le> Suc (call_retries C) \<and> sent w' = sent w + n \<and> byte_report C n r"
proof -
  from loop_bounded [OF assms(1,2) assms(3) [unfolded call_bytes_def call_def]] obtain n where
    n: "n \<le> Suc (call_retries C)" "sent w' = sent w + n"
      "ends_at E C md None (parse_bytes_response E C) (he_instant E w) n (Suc 0 < n) (Some r) w'"
    by (auto simp: loop_meter_def)
  from n(3) obtain w1 w2 r' where
    r': "attempt_once E C md None (parse_bytes_response E C) (he_instant E w) n w1 = (r', w2)"
      "case r' of Some (Inl e) \<Rightarrow> \<exists>e'. Some r = Some (Inl e') \<and> after_failure E C e n (Suc 0 < n) w2 = (Inl e', w')
        | _ \<Rightarrow> Some r = r'"
    unfolding ends_at_def by blast
  have "byte_report C n r"
  proof (cases "\<exists>e. r' = Some (Inl e)")
    case True
    then obtain e e' where e: "r' = Some (Inl e)" "r = Inl e'" "after_failure E C e n (Suc 0 < n) w2 = (Inl e', w')"
      using r'(2) by auto
    have "plain_error e" using bytes_attempt [OF r'(1) [unfolded e(1)]] by simp
    then have "counts_attempts C n e'"
      using e(3) plain_counts [of e C n]
      by (auto simp: after_failure_def counts_attempts_def split: if_splits option.splits prod.splits)
    then show ?thesis by (simp add: byte_report_def e(2))
  next
    case False
    then have "r' = Some r" using r'(2) by (auto split: option.splits sum.splits)
    then show ?thesis using bytes_attempt [OF r'(1) [unfolded \<open>r' = Some r\<close>]] False by (cases r) auto
  qed
  then show ?thesis using n(1,2) by blast
qed

end
