(* ===== verification/Sdk_Theorems.thy ===== *)
theory Sdk_Theorems
  imports Sdk_Semantics Sdk_Calls Kernel_Demo
begin

text \<open>
  The properties of the object store client and of the HTTP client, with concrete worlds for their
  witnesses.
\<close>

section \<open>The object store client\<close>

text \<open>C32: On the loopback store the client answers every request exactly as the request semantics the
  other components are verified over, entity tags without quotes and texts of failed preconditions
  aside.\<close>

theorem client_has_store_semantics:
  assumes "\<And>b. quote_free (tag_of B b)" "plain_request q"
  shows "map_prod (plain_reply q) id (client_serve (loopback_client B) (now_millis B) q s) = st_exec B q s"
  using assms by (rule loopback_serves)

lemma demo_quote_free: "quote_free (tag_of demo_backend b)"
proof -
  have "\<not> ascii_lower_hex (CHR 0x22)" by code_simp
  then show ?thesis using demo_hex_ok [of b] by (auto simp: quote_free_def demo_backend_def list_all_iff)
qed

lemma client_has_store_semantics_witness:
  "map_prod (plain_reply (UploadConditional ''k'' [1] (Some ''e''))) id
    (client_serve (loopback_client demo_backend) (now_millis demo_backend) (UploadConditional ''k'' [1] (Some ''e'')) [(''k'', [2])])
    = st_exec demo_backend (UploadConditional ''k'' [1] (Some ''e'')) [(''k'', [2])]"
  by (rule client_has_store_semantics [OF demo_quote_free]) (simp add: quote_free_def)









section \<open>The HTTP client\<close>

text \<open>C34: A call ends after at most one request more than its strategy has retries, and its waits
  together are at most the retries times the largest delay, whatever the servers, the clocks and the
  random source do.\<close>

theorem calls_are_bounded:
  assumes "metered E sent slept" "waits_within C cap" "call E C md body reader w = (r, w')"
  shows "sent w' \<le> sent w + Suc (strategy_max_retries (hc_retry_strategy C)) \<and>
    slept w' \<le> slept w + strategy_max_retries (hc_retry_strategy C) * cap"
  using call_bounded [OF assms] by simp


text \<open>A world that answers from a script and times out at its end.\<close>

type_synonym script_world = "http_response list \<times> nat \<times> nat"

definition script_timeout :: transport_error where
  "script_timeout = \<lparr>te_timeout = True, te_connect = False, te_body = False, te_decode = False, te_text = []\<rparr>"

definition script_env :: "script_world http_env" where
  "script_env = \<lparr>
    he_send = (\<lambda>q (rs, n, t). case rs of [] \<Rightarrow> (Inl script_timeout, ([], Suc n, t)) | r # rs' \<Rightarrow> (Inr r, (rs', Suc n, t))),
    he_sleep = (\<lambda>d (rs, n, t). (rs, n, t + d)), he_instant = (\<lambda>(rs, n, t). t), he_now = (\<lambda>(rs, n, t). int t),
    he_random = (\<lambda>w. (\<lambda>d. d div 2, w)), he_date = (\<lambda>s. None), he_base64 = id\<rparr>"

definition script_client :: client where
  "script_client = \<lparr>hc_base_path = ''/'', hc_base_query = [], hc_default_headers = [], hc_default_auth = None,
    hc_retry_strategy = LinearDelay 5 2, hc_retry_predicate = retry_on_retryable, hc_timeout = None,
    hc_rate_limit_config = disabled_rate_limit\<rparr>"


lemma script_metered: "metered script_env (fst \<circ> snd) (snd \<circ> snd)"
  by (auto simp: metered_def script_env_def split: list.split)

lemma script_waits: "waits_within script_client (300 * nanos_per_sec)"
  by (simp add: waits_within_def script_client_def disabled_rate_limit_def default_rate_limit_def nanos_per_sec_def)

lemma script_timeouts:
  "call_bytes script_env script_client (metadata_new ''GET'' ''x'') None ([], 0, 0) =
    (Some (Inl (MaxRetriesExceeded 3 (CoreTimeout script_timeout))), ([], 3, 10))"
  by (simp add: call_bytes_def call_def retry_loop.simps attempt_once_def execute_request_def build_request_def
      metadata_new_def script_env_def script_client_def from_reqwest_def script_timeout_def after_failure_def
      strategy_delay_def draws_jitter_def retry_on_retryable_def rate_limit_delay_def disabled_rate_limit_def
      Let_def)

lemma calls_are_bounded_witness:
  "\<exists>r rs n t. call_bytes script_env script_client (metadata_new ''GET'' ''x'') None ([], 0, 0) = (r, (rs, n, t)) \<and>
    n \<le> 0 + Suc 2 \<and> t \<le> 0 + 2 * (300 * nanos_per_sec)"
  using calls_are_bounded [OF script_metered script_waits script_timeouts [unfolded call_bytes_def]] script_timeouts
  by (simp add: script_client_def)



end
