(* ===== verification/Spec2Isabelle.thy ===== *)
theory Spec2Isabelle
  imports Kernel_Theorems Fold_Theorems Keyspace_Theorems Value_Theorems Stream_Theorems Stream_Limits
    Sdk_Theorems
begin

text \<open>
  Verification library for the yeetz S3 state kernel (\<open>src/crates/\<close>): a Rust library that keeps
  durable state as append-only lineages of content-addressed records in an S3-compatible
  object store, guarded by conditional writes of one head object per lineage.

  \<^bold>\<open>How the code is modelled.\<close>  An async handler is a request tree (\<open>'a io\<close> in \<open>S3_Io\<close>): a
  value, or a store request with a continuation over its reply.  \<open>Result<A, E>\<close> is \<open>'e + 'a\<close>,
  \<open>?\<close> is \<open>try_res\<close> and \<open>io_try\<close>.  A \<open>u64\<close> is a 64 bit word; \<open>checked_add\<close> is an option.  A
  \<open>String\<close> is a HOL string with one character per byte.  A tree has three readings:
  \<^item> \<open>run\<close>: one client alone on a store (a sorted association list of keys and contents);
  \<^item> \<open>pool_reach\<close>: any number of clients, their requests interleaved in any order, each request
    served, applied with its reply lost, refused, or performed more than once;
  \<^item> \<open>env_run\<close>: one client whose requests are separated by arbitrary steps of an environment,
    with the history of requests and replies.
  Entity tags are a function of the content (\<open>tag_of\<close>).  serde_json, SHA-256 and hex are the
  record \<open>ext\<close>, under \<open>ext_ok\<close>: encodings are total and read back, digests have 32 bytes.

  \<^bold>\<open>Theories.\<close>
  \<^item> \<open>S3_Prelude\<close>: results, checked arithmetic, big-endian \<open>u64\<close>, UTF-8, the collections of hints.
  \<^item> \<open>Sdk_Store\<close> (\<open>yeetz-sdk-s3/src/store.rs\<close>, \<open>error.rs\<close>): error kinds, batch deletion reports.
  \<^item> \<open>S3_Io\<close>, \<open>S3_Rely\<close>: requests, the store, pools, the request/reply calculus, and the locale
    \<open>rely_guarantee\<close>.
  \<^item> \<open>Kernel_Types\<close>, \<open>Kernel_Records\<close> (\<open>state_kernel.rs\<close>, \<open>tombstone.rs\<close>): lineages, records,
    checkpoints, heads, tombstones, with the locales \<open>codec_laws\<close> and \<open>canonical_codec\<close>.
  \<^item> \<open>Kernel_Ops\<close> (\<open>state_kernel.rs\<close>, \<open>terminal_read.rs\<close>): the handlers.
  \<^item> \<open>Kernel_Fold\<close>: folds, checkpoints, projections.
  \<^item> \<open>Kernel_Safety\<close>: which requests each handler can issue.
  \<^item> \<open>Kernel_History\<close>: the abstract log \<open>chain\<close> and the walks that compute it.
  \<^item> \<open>Kernel_Invariants\<close>: the protocol \<open>lineage_step\<close> all pools refine; write-once objects; counters.
  \<^item> \<open>Kernel_Complete\<close>: every head stands over a complete log, by rely-guarantee.
  \<^item> \<open>Kernel_Eras\<close>, \<open>Kernel_Destroy\<close>: where a successful append takes effect; closed eras.
  \<^item> \<open>Kernel_Functional\<close>, \<open>Kernel_Folding\<close>: what the handlers compute alone, and the locale
    \<open>checkpoint_folder\<close>.
  \<^item> \<open>Kernel_Demo\<close>, \<open>Kernel_Scenario\<close>: concrete parameters and a concrete lineage for the witnesses.
  \<^item> \<open>Kernel_Theorems\<close>, \<open>Fold_Theorems\<close>: the properties of the kernel.
  \<^item> \<open>Keyspace_Errors\<close>, \<open>Keyspace_Core\<close>, \<open>Keyspace_Ops\<close> (\<open>atomic_keyspace.rs\<close>): the values kept
    under mutable keys: names, inline envelopes, era counters, trim certificates and \<open>delete_below\<close>;
    create, get, compare-exchange, delete, destroy and the batch deletion.
  \<^item> \<open>Wire_Digits\<close>, \<open>Value_Manifest\<close> (\<open>value_manifest.rs\<close>): chunk keys and the manifest codec.
  \<^item> \<open>Value_Stream\<close>, \<open>Value_Polling\<close>, \<open>Value_Streaming\<close> (\<open>value_stream.rs\<close>): staging, publishing and
    adjudication of chunked values; the poll machines; the streamed surface, the maintenance fence,
    the chunk inventory and the chunk sweep.
  \<^item> \<open>Value_Chunks\<close>, \<open>Value_Writers\<close>: staged chunks read back; the invariant of the streamed writer.
  \<^item> \<open>Keyspace_Safety\<close>, \<open>Keyspace_Protocol\<close>: which requests each call can issue; the abstract protocol
    \<open>ks_step\<close> of a namespace that all pools of calls refine.
  \<^item> \<open>Keyspace_Eras\<close>, \<open>Keyspace_Functional\<close>, \<open>Keyspace_Trim\<close>, \<open>Chunk_Gc\<close>: where a replacement takes
    effect and how a destruction closes an era; what the calls compute alone; certificates and the
    floor; the collectors.
  \<^item> \<open>Keyspace_Scenario\<close>, \<open>Keyspace_Theorems\<close>, \<open>Value_Theorems\<close>: a concrete namespace, the properties.

  \<^item> \<open>Stream_Types\<close>, \<open>Stream_Log\<close>, \<open>Stream_Replay\<close>, \<open>Stream_Conditional\<close>, \<open>Stream_Migration\<close>
    (\<open>yeetz-s3-streams/src/\<close>: \<open>envelope.rs\<close>, \<open>error.rs\<close>, \<open>lib.rs\<close>, \<open>bounded.rs\<close>, \<open>conditional.rs\<close>,
    \<open>migration.rs\<close>): identifiers, envelopes and keys; append, append_expected, the tail hint and its
    recovery, head, cursors, trim; the replays; operations that carry their write disposition; the
    migration of a stream to another identity.
  \<^item> \<open>Stream_Safety\<close>: which requests each stream operation can issue.  \<open>Stream_Events\<close>: the invariant
    \<open>events_inv\<close> of a store (event keys hold decodable envelopes at their position, the tail hint is
    no later than the first free position) and the guarantee \<open>events_rely\<close> (an event once stored
    stays and never changes), kept by every request of every operation of every client.
  \<^item> \<open>Stream_Acks\<close>, \<open>Stream_Expected\<close>, \<open>Stream_Pages\<close>, \<open>Stream_Strict\<close>, \<open>Stream_Copies\<close>: what a result
    shows under interference: an acknowledged append is stored, a definite refusal wrote nothing, a
    replayed page is a truthful prefix of the log, a copied prefix is the source's.
  \<^item> \<open>Stream_Rest\<close>, \<open>Stream_Reading\<close>, \<open>Stream_Life\<close>, \<open>Stream_Ranges\<close>: one client alone on a dense log
    (\<open>rest_log\<close>): appends extend it by one, replays return it, the recovery of the hint finds its end.
  \<^item> \<open>Stream_Demo\<close>, \<open>Stream_Theorems\<close>, \<open>Stream_Limits\<close>: concrete streams, the properties, and the
    boundary cases the properties exclude.

  \<^item> \<open>Sdk_Client\<close> (\<open>yeetz-sdk-s3/src/store.rs\<close>, \<open>config.rs\<close>): every operation of
    \<open>ObjectStoreClient\<close> over the two libraries it calls, which are records of functions; the
    configuration.  \<open>Sdk_Semantics\<close>: the client over the loopback store answers as \<open>st_exec\<close>, which
    justifies the requests of \<open>S3_Io\<close>; streamed uploads.
  \<^item> \<open>Sdk_Core\<close>, \<open>Sdk_Http\<close> (\<open>yeetz-sdk-core/src/\<close>): errors, retry strategies, rate limits, metadata;
    requests, readers of responses and the retry loop.  \<open>Sdk_Calls\<close>: how often a call sends and how
    long it sleeps.  \<open>Sdk_Theorems\<close>: the properties of both clients.

  \<^bold>\<open>How the parts interact.\<close>  All state is objects; the components share it only by key prefix.
  The state kernel owns one head object per lineage and content-addressed records below it; the
  keyspace owns mutable objects per namespace whose values are inline envelopes or manifests of
  chunks, and takes its eras and certificates from objects of the same namespace; chunked values
  publish through the keyspace's compare-exchange; streams own \<open>log/\<close>, \<open>tail\<close> and \<open>cursors/\<close>
  objects per stream and build on keyspace operations.  Each safety proof has the same shape: every handler
  satisfies \<open>io_all\<close> of a set of permitted requests; a permitted request preserves the invariant and
  the rely relation; the locale \<open>rely_guarantee\<close> lifts this to \<open>env_run\<close> and pools.

  \<^bold>\<open>Fuel.\<close>  \<open>load_history\<close> runs with one unit per generation, which suffices for every store
  (\<open>history_reads_the_log\<close>: it always returns).  The retry loops of \<open>bump_incarnation\<close> and
  \<open>create_head\<close> have the code's own budget of 8.  The page walks of the keyspace (\<open>trim_floor\<close>,
  \<open>delete_below\<close>, the inventory and the sweep) and its retry loops take a fuel argument; \<open>trim_floor\<close>
  needs one unit per thousand objects of the store (\<open>run_trim_floor\<close>).  The loops of the streams take
  \<open>se_fuel\<close>: \<open>fuel_for\<close> (one unit per thousand objects) suffices for the page walks and 65 units for
  the exponential probe of the tail hint, whose span doubles in 64 bits (\<open>run_recover_any\<close>), except
  when the position \<open>2 ^ 64 - 1\<close> is taken, where no fuel suffices (\<open>recovery_never_ends\<close>).  The 64
  attempts of an append are the code's own.  The safety statements (\<open>io_all\<close>, \<open>env_run\<close>, pools) hold
  for every amount of fuel.

  \<^bold>\<open>Not modelled.\<close>  Log lines and metrics; the sleeps between the retries of an append; the
  diagnostic driver of the kernel, the loopback server with its fault injection and the contract
  drivers run against a live store (\<open>deletion_contract.rs\<close>, \<open>streaming_contract.rs\<close>,
  \<open>real_s3_aba_probe.rs\<close>), which exercise the operations modelled here; tests, rigs and tools; the
  libraries below the clients (\<open>object_store\<close>, the AWS client, \<open>reqwest\<close>, \<open>url\<close>), which are parameters.
  Requests the code issues concurrently (chunked gets of a replay) are issued in order in a tree;
  interference between them is that of \<open>env_run\<close>.  Collection removes events and is outside the
  statements on \<open>events_rely\<close>.  Numbers and punctuation inside error texts are simplified.
\<close>

end
